(* ===== verification/Prelude.thy ===== *)
theory Prelude
  imports Main "HOL-Library.Word" "HOL-Library.AList" "HOL-Library.Multiset"
begin

text \<open>
  Shared vocabulary of the development: the error values of the Go packages, 64-bit signed
  arithmetic with its wrap-around, Go maps as association lists together with Go's unspecified
  iteration order, and the environment that answers every question the code asks the outside
  world (is the context cancelled, did this system call fail, what time is it).
\<close>

named_theorems env_simps \<open>how a quiet environment answers\<close>
named_theorems gomap_simps \<open>lookups in updated Go maps\<close>

section \<open>Bytes, strings and 64-bit integers\<close>

text \<open>A Go string is a byte sequence, which is what \<^typ>\<open>string\<close> (a list of 8-bit
  characters) is; a byte slice is a list of 8-bit words.\<close>

type_synonym byte = "8 word"
type_synonym bytes = "8 word list"

definition min_int64 :: int where
  "min_int64 = - (2 ^ 63)"

definition max_int64 :: int where
  "max_int64 = 2 ^ 63 - 1"

definition wrap64 :: "int \<Rightarrow> int" where
  "wrap64 x = (x + 2 ^ 63) mod 2 ^ 64 - 2 ^ 63"

definition in_int64 :: "int \<Rightarrow> bool" where
  "in_int64 x \<longleftrightarrow> min_int64 \<le> x \<and> x \<le> max_int64"

definition add64 :: "int \<Rightarrow> int \<Rightarrow> int" where
  "add64 a b = wrap64 (a + b)"

definition sub64 :: "int \<Rightarrow> int \<Rightarrow> int" where
  "sub64 a b = wrap64 (a - b)"

lemma wrap64_id: "in_int64 x \<Longrightarrow> wrap64 x = x"
  by (simp add: wrap64_def in_int64_def min_int64_def max_int64_def)

lemma wrap64_range: "in_int64 (wrap64 x)"
proof -
  have "0 \<le> (x + 2 ^ 63) mod 2 ^ 64" "(x + 2 ^ 63) mod 2 ^ 64 < (2 ^ 64 :: int)"
    by simp_all
  then show ?thesis
    by (simp add: wrap64_def in_int64_def min_int64_def max_int64_def)
qed

lemma add64_range [simp]: "in_int64 (add64 a b)"
  by (simp add: add64_def wrap64_range)

lemma sub64_range [simp]: "in_int64 (sub64 a b)"
  by (simp add: sub64_def wrap64_range)

lemma add64_id: "in_int64 (a + b) \<Longrightarrow> add64 a b = a + b"
  by (simp add: add64_def wrap64_id)

lemma sub64_id: "in_int64 (a - b) \<Longrightarrow> sub64 a b = a - b"
  by (simp add: sub64_def wrap64_id)

lemma sub64_nonneg:
  "in_int64 a \<Longrightarrow> in_int64 b \<Longrightarrow> 0 \<le> a \<Longrightarrow> 0 \<le> b \<Longrightarrow> sub64 a b = a - b"
  by (rule sub64_id) (simp add: in_int64_def min_int64_def max_int64_def)

text \<open>For non-negative operands the code's overflow test \<open>next < current\<close> is exact.\<close>

lemma add64_overflow:
  assumes "in_int64 a" "in_int64 b" "0 \<le> a" "0 < b"
  shows "add64 a b < a \<longleftrightarrow> max_int64 < a + b"
proof (cases "max_int64 < a + b")
  case False
  then have "add64 a b = a + b"
    using assms by (intro add64_id) (simp add: in_int64_def min_int64_def)
  with assms False show ?thesis by simp
next
  case True
  have "(a + b + 2 ^ 63) mod 2 ^ 64 = (a + b + 2 ^ 63 - 2 ^ 64) mod (2 ^ 64 :: int)"
    by (metis minus_mod_self2)
  also have "\<dots> = a + b + 2 ^ 63 - 2 ^ 64"
    using True assms by (simp add: in_int64_def max_int64_def)
  finally have "add64 a b = a + b - 2 ^ 64"
    by (simp add: add64_def wrap64_def)
  with assms True show ?thesis by (simp add: in_int64_def max_int64_def)
qed

section \<open>Errors\<close>

text \<open>The sentinel errors of the packages, \<open>fmt.Errorf\<close> values with and without a wrapped
  cause, and the errors that come from outside (context, system calls, request body limit).\<close>

datatype err =
    ErrNotFound | ErrInvalidTenant
  | ErrBlockNotFound | ErrBackendUnavailable
  | ErrCapacityExceeded | ErrInsufficientDisk
  | ErrUploadNotFound | ErrPartTooLarge | ErrUploadTooLarge
  | ErrChunkNotInManifest | ErrDraining
  | ErrContext | ErrMaxBytes | ErrSys string
  | ErrNew string
  | ErrWrap string err

text \<open>\<open>errors.Is\<close>: the error itself or anything it wraps.\<close>

fun errors_is :: "err \<Rightarrow> err \<Rightarrow> bool" where
  "errors_is (ErrWrap m x) t \<longleftrightarrow> ErrWrap m x = t \<or> errors_is x t"
| "errors_is x t \<longleftrightarrow> x = t"

lemma errors_is_refl [simp]: "errors_is x x"
  by (cases x) simp_all

section \<open>The environment\<close>

text \<open>
  Everything the code learns from outside while an operation runs is a question asked at a
  place of the operation: the path of calls and loop rounds that leads to it. The environment
  answers each place independently, so every combination of cancellations, failures, clock
  readings, random identifiers and map iteration orders is one environment.
\<close>

record env =
  ctx_err :: "nat list \<Rightarrow> err option"
  sys_err :: "nat list \<Rightarrow> err option"
  clock :: "nat list \<Rightarrow> int"
  random_id :: "nat list \<Rightarrow> string"
  range_pick :: "nat list \<Rightarrow> nat \<Rightarrow> nat"
  disk_avail :: "nat list \<Rightarrow> int"

text \<open>\<open>call e i\<close> is the environment of the call (or loop round) number \<open>i\<close>.\<close>

definition call :: "env \<Rightarrow> nat \<Rightarrow> env" where
  "call e i = \<lparr>ctx_err = (\<lambda>p. ctx_err e (i # p)), sys_err = (\<lambda>p. sys_err e (i # p)),
     clock = (\<lambda>p. clock e (i # p)), random_id = (\<lambda>p. random_id e (i # p)),
     range_pick = (\<lambda>p. range_pick e (i # p)), disk_avail = (\<lambda>p. disk_avail e (i # p))\<rparr>"

definition ctx_poll :: "env \<Rightarrow> nat \<Rightarrow> err option" where
  "ctx_poll e i = ctx_err e [i]"

definition syscall :: "env \<Rightarrow> nat \<Rightarrow> err option" where
  "syscall e i = sys_err e [i]"

definition now :: "env \<Rightarrow> nat \<Rightarrow> int" where
  "now e i = clock e [i]"

definition fresh_id :: "env \<Rightarrow> nat \<Rightarrow> string" where
  "fresh_id e i = random_id e [i]"

definition avail :: "env \<Rightarrow> nat \<Rightarrow> int" where
  "avail e i = disk_avail e [i]"

text \<open>A quiet environment never cancels and never fails a system call.\<close>

definition quiet :: "env \<Rightarrow> bool" where
  "quiet e \<longleftrightarrow> ctx_err e = (\<lambda>_. None) \<and> sys_err e = (\<lambda>_. None)"

lemma quiet_call [env_simps, simp]: "quiet e \<Longrightarrow> quiet (call e i)"
  by (simp add: quiet_def call_def)

lemma quiet_poll [env_simps, simp]: "quiet e \<Longrightarrow> ctx_poll e i = None"
  by (simp add: quiet_def ctx_poll_def)

lemma quiet_syscall [env_simps, simp]: "quiet e \<Longrightarrow> syscall e i = None"
  by (simp add: quiet_def syscall_def)

text \<open>A context's error is \<open>context.Canceled\<close> or \<open>context.DeadlineExceeded\<close>, never an error of
  the program.\<close>

definition ctx_plain :: "env \<Rightarrow> bool" where
  "ctx_plain e \<longleftrightarrow> (\<forall>p. ctx_err e p = None \<or> ctx_err e p = Some ErrContext)"

lemma ctx_plain_call [simp]: "ctx_plain e \<Longrightarrow> ctx_plain (call e i)"
  by (simp add: ctx_plain_def call_def)

lemma ctx_plain_poll: "ctx_plain e \<Longrightarrow> ctx_poll e i = Some x \<Longrightarrow> x = ErrContext"
  by (auto simp: ctx_plain_def ctx_poll_def) (metis option.distinct(1) option.inject)

lemma quiet_ctx_plain: "quiet e \<Longrightarrow> ctx_plain e"
  by (simp add: quiet_def ctx_plain_def)

text \<open>The environment used by the witnesses: quiet, with a stopped clock.\<close>

definition env0 :: env where
  "env0 = \<lparr>ctx_err = (\<lambda>_. None), sys_err = (\<lambda>_. None), clock = (\<lambda>_. 1),
     random_id = (\<lambda>_. ''id''), range_pick = (\<lambda>_ _. 0), disk_avail = (\<lambda>_. 1000)\<rparr>"

lemma quiet_env0 [simp]: "quiet env0"
  by (simp add: quiet_def env0_def)

lemma call_env0 [simp]: "call env0 i = env0"
  by (simp add: call_def env0_def)

lemma env0_answers [simp]: "now env0 i = 1" "fresh_id env0 i = ''id''" "avail env0 i = 1000"
  by (simp_all add: now_def fresh_id_def avail_def env0_def)

section \<open>Go maps\<close>

text \<open>A Go map whose entries the code ranges over is an association list with distinct keys;
  \<open>go_range\<close> visits its entries in an order the environment picks.\<close>

type_synonym ('k, 'v) gomap = "('k \<times> 'v) list"

fun go_range :: "(nat \<Rightarrow> nat) \<Rightarrow> 'a list \<Rightarrow> 'a list" where
  "go_range f [] = []"
| "go_range f (x # xs) =
     (let ys = x # xs; i = f (length ys) mod length ys
      in ys ! i # go_range f (take i ys @ drop (Suc i) ys))"

lemmas [simp del] = go_range.simps(2)

lemma mset_remove_nth:
  "i < length ys \<Longrightarrow> add_mset (ys ! i) (mset (take i ys @ drop (Suc i) ys)) = mset ys"
  by (metis append_take_drop_id Cons_nth_drop_Suc mset.simps(2) mset_append union_mset_add_mset_right)

lemma mset_go_range [simp]: "mset (go_range f xs) = mset xs"
proof (induction f xs rule: go_range.induct)
  case (2 f x xs)
  define ys where "ys = x # xs"
  define i where "i = f (length ys) mod length ys"
  have "i < length ys" by (simp add: i_def ys_def)
  moreover have "go_range f ys = ys ! i # go_range f (take i ys @ drop (Suc i) ys)"
    by (simp add: go_range.simps ys_def i_def Let_def)
  ultimately show ?case
    using 2 [OF ys_def i_def] mset_remove_nth [of i ys] by (simp add: ys_def)
qed simp

lemma set_go_range [simp]: "set (go_range f xs) = set xs"
  by (metis mset_go_range set_mset_mset)

lemma length_go_range [simp]: "length (go_range f xs) = length xs"
  by (metis mset_go_range size_mset)

lemma distinct_go_range [simp]: "distinct (go_range f xs) = distinct xs"
  by (metis mset_go_range mset_eq_imp_distinct_iff)

lemma distinct_map_go_range: "distinct (map g (go_range f xs)) = distinct (map g xs)"
  by (metis mset_go_range mset_map mset_eq_imp_distinct_iff)

abbreviation keys :: "('k, 'v) gomap \<Rightarrow> 'k list" where
  "keys m \<equiv> map fst m"

definition lookup_or :: "'v \<Rightarrow> ('k, 'v) gomap \<Rightarrow> 'k \<Rightarrow> 'v" where
  "lookup_or d m k = (case map_of m k of None \<Rightarrow> d | Some v \<Rightarrow> v)"

lemma map_of_update [gomap_simps, simp]: "map_of (AList.update k v m) = (map_of m)(k \<mapsto> v)"
  by (rule update_conv')

lemma map_of_delete [gomap_simps, simp]: "map_of (AList.delete k m) = (map_of m)(k := None)"
  by (rule delete_conv')

lemma distinct_keys_update [simp]: "distinct (keys m) \<Longrightarrow> distinct (keys (AList.update k v m))"
  by (rule distinct_update)

lemma distinct_keys_delete [simp]: "distinct (keys m) \<Longrightarrow> distinct (keys (AList.delete k m))"
  by (rule distinct_delete)

lemma lookup_or_update [gomap_simps, simp]:
  "lookup_or d (AList.update k v m) j = (if j = k then v else lookup_or d m j)"
  by (simp add: lookup_or_def)

lemma lookup_or_delete [gomap_simps, simp]:
  "lookup_or d (AList.delete k m) j = (if j = k then d else lookup_or d m j)"
  by (simp add: lookup_or_def)

lemma lookup_or_Nil [simp]: "lookup_or d [] k = d"
  by (simp add: lookup_or_def)

lemma map_of_in_set: "distinct (keys m) \<Longrightarrow> map_of m k = Some v \<longleftrightarrow> (k, v) \<in> set m"
  by simp

section \<open>Transition systems\<close>

text \<open>Concurrent operations are step relations on a shared state whose steps are the atomic
  actions of the code. An invariant that holds initially and that every step keeps holds in
  every reachable state, and from there on.\<close>

locale transition_system =
  fixes init :: "'s \<Rightarrow> bool"
    and step :: "'s \<Rightarrow> 's \<Rightarrow> bool"
    and sinv :: "'s \<Rightarrow> bool"
  assumes inv_init: "init s \<Longrightarrow> sinv s"
    and inv_step: "sinv s \<Longrightarrow> step s s' \<Longrightarrow> sinv s'"
begin

lemma inv_steps: "step\<^sup>*\<^sup>* s s' \<Longrightarrow> sinv s \<Longrightarrow> sinv s'"
  by (induction rule: rtranclp_induct) (auto intro: inv_step)

lemma inv_reachable: "init s \<Longrightarrow> step\<^sup>*\<^sup>* s s' \<Longrightarrow> sinv s'"
  using inv_init inv_steps by blast

lemma stable_steps:
  assumes "\<And>a b. sinv a \<Longrightarrow> P a \<Longrightarrow> step a b \<Longrightarrow> P b"
  shows "step\<^sup>*\<^sup>* s s' \<Longrightarrow> sinv s \<Longrightarrow> P s \<Longrightarrow> P s'"
proof (induction rule: rtranclp_induct)
  case (step b c)
  then show ?case using assms [of b c] inv_steps [of s b] by blast
qed

end

end
