(* ===== verification/GoLib.thy ===== *)
theory GoLib
  imports Prelude
begin

text \<open>
  The functions of Go's standard library on strings and bytes that the sources use:
  hexadecimal encoding, UTF-8 decoding as \<open>range\<close> over a string does it, trimming, cutting and
  splitting, and decimal numbers. Strings are byte sequences.
\<close>

section \<open>Hexadecimal\<close>

definition hex_digit :: "nat \<Rightarrow> char" where
  "hex_digit n = ''0123456789abcdef'' ! n"

fun hex_encode :: "bytes \<Rightarrow> string" where
  "hex_encode [] = []"
| "hex_encode (b # bs) = hex_digit (unat b div 16) # hex_digit (unat b mod 16) # hex_encode bs"

definition is_lower_hex :: "nat \<Rightarrow> bool" where
  "is_lower_hex r \<longleftrightarrow> (97 \<le> r \<and> r \<le> 102) \<or> (48 \<le> r \<and> r \<le> 57)"

lemma hex_digit_cases:
  assumes "n < 16"
  shows "hex_digit n \<in> set ''0123456789abcdef''"
  unfolding hex_digit_def by (rule nth_mem) (use assms in simp)

lemma hex_digit_lower:
  assumes "n < 16"
  shows "is_lower_hex (of_char (hex_digit n))"
  using hex_digit_cases [OF assms] by (auto simp: is_lower_hex_def)

lemma hex_digit_inj:
  assumes "m < 16" "n < 16" "hex_digit m = hex_digit n"
  shows "m = n"
proof -
  have "distinct ''0123456789abcdef''" by simp
  from nth_eq_iff_index_eq [OF this, of m n] assms show ?thesis by (simp add: hex_digit_def)
qed

lemma length_hex_encode [simp]: "length (hex_encode bs) = 2 * length bs"
  by (induction bs) auto

lemma byte_nibbles: "unat (b :: byte) div 16 < 16" "unat b mod 16 < 16"
proof -
  have "unat b < 2 ^ LENGTH(8)" by (rule unsigned_less)
  then show "unat b div 16 < 16" by simp
qed simp

lemma hex_encode_lower: "c \<in> set (hex_encode bs) \<Longrightarrow> is_lower_hex (of_char c)"
  by (induction bs) (auto simp: hex_digit_lower byte_nibbles)

lemma hex_encode_inj: "hex_encode xs = hex_encode ys \<Longrightarrow> xs = ys"
proof (induction xs arbitrary: ys)
  case Nil
  then show ?case by (cases ys) auto
next
  case (Cons x xs)
  then obtain y ys' where ys: "ys = y # ys'" by (cases ys) auto
  with Cons.prems have eq: "hex_digit (unat x div 16) = hex_digit (unat y div 16)"
    "hex_digit (unat x mod 16) = hex_digit (unat y mod 16)" by simp_all
  have "unat x div 16 = unat y div 16" "unat x mod 16 = unat y mod 16"
    by (rule hex_digit_inj [OF byte_nibbles(1) byte_nibbles(1) eq(1)],
        rule hex_digit_inj [OF byte_nibbles(2) byte_nibbles(2) eq(2)])
  then have "unat x = unat y" by (metis div_mult_mod_eq)
  then have "x = y" by (rule word_unat_eq_iff [THEN iffD2])
  with Cons ys show ?case by simp
qed

section \<open>UTF-8\<close>

text \<open>
  \<open>utf8.DecodeRune\<close> on a non-empty byte sequence: the code point, its width and whether the
  encoding is valid; an invalid or truncated sequence gives U+FFFD with width 1.
\<close>

definition rune_error :: nat where
  "rune_error = 65533"

definition cont_byte :: "nat \<Rightarrow> nat \<Rightarrow> nat \<Rightarrow> bool" where
  "cont_byte lo hi c \<longleftrightarrow> lo \<le> c \<and> c \<le> hi"

definition second_range :: "nat \<Rightarrow> nat \<times> nat" where
  "second_range p = (if p = 224 then (160, 191) else if p = 237 then (128, 159)
     else if p = 240 then (144, 191) else if p = 244 then (128, 143) else (128, 191))"

definition decode_rune :: "nat list \<Rightarrow> nat \<times> nat \<times> bool" where
  "decode_rune cs =
     (case cs of
        [] \<Rightarrow> (rune_error, 0, False)
      | p # rest \<Rightarrow>
          if p < 128 then (p, 1, True)
          else (let (lo, hi) = second_range p in
            case rest of
              [] \<Rightarrow> (rune_error, 1, False)
            | c1 # rest1 \<Rightarrow>
                if p < 194 \<or> p > 244 \<or> \<not> cont_byte lo hi c1 then (rune_error, 1, False)
                else if p < 224 then ((p mod 32) * 64 + c1 mod 64, 2, True)
                else (case rest1 of
                        [] \<Rightarrow> (rune_error, 1, False)
                      | c2 # rest2 \<Rightarrow>
                          if \<not> cont_byte 128 191 c2 then (rune_error, 1, False)
                          else if p < 240
                          then ((p mod 16) * 4096 + (c1 mod 64) * 64 + c2 mod 64, 3, True)
                          else (case rest2 of
                                  [] \<Rightarrow> (rune_error, 1, False)
                                | c3 # _ \<Rightarrow>
                                    if \<not> cont_byte 128 191 c3 then (rune_error, 1, False)
                                    else ((p mod 8) * 262144 + (c1 mod 64) * 4096
                                      + (c2 mod 64) * 64 + c3 mod 64, 4, True)))))"

definition str_bytes :: "string \<Rightarrow> nat list" where
  "str_bytes s = map of_char s"

text \<open>The runes of a string with the bytes each one covers.\<close>

function rune_segments :: "string \<Rightarrow> (nat \<times> bool \<times> string) list" where
  "rune_segments s =
     (if s = [] then []
      else (case decode_rune (str_bytes s) of
              (r, n, ok) \<Rightarrow> (r, ok, take (max 1 n) s) # rune_segments (drop (max 1 n) s)))"
  by pat_completeness auto
termination by (relation "measure length") auto

declare rune_segments.simps [simp del]

definition runes :: "string \<Rightarrow> nat list" where
  "runes s = map fst (rune_segments s)"

definition valid_utf8 :: "string \<Rightarrow> bool" where
  "valid_utf8 s \<longleftrightarrow> list_all (\<lambda>(r, ok, _). ok) (rune_segments s)"

lemma rune_segments_Nil [simp]: "rune_segments [] = []"
  by (simp add: rune_segments.simps)

lemma runes_Nil [simp]: "runes [] = []"
  by (simp add: runes_def)

lemma decode_ascii: "p < 128 \<Longrightarrow> decode_rune (p # cs) = (p, 1, True)"
  by (simp add: decode_rune_def)

lemma rune_segments_ascii:
  "of_char c < (128 :: nat) \<Longrightarrow> rune_segments (c # s) = (of_char c, True, [c]) # rune_segments s"
  by (subst rune_segments.simps) (simp add: str_bytes_def decode_ascii)

lemma runes_ascii [simp]: "of_char c < (128 :: nat) \<Longrightarrow> runes (c # s) = of_char c # runes s"
  by (simp add: runes_def rune_segments_ascii)

lemma cont_byte_mod:
  assumes "128 \<le> c" "c \<le> 191"
  shows "c mod 64 = c - (128 :: nat)"
proof -
  have "c mod 64 = (c - 64) mod 64" using assms by (intro le_mod_geq) simp
  also have "\<dots> = (c - 64 - 64) mod 64" using assms by (intro le_mod_geq) simp
  also have "\<dots> = c - 128" using assms by simp
  finally show ?thesis .
qed

lemma rune_error_128: "128 \<le> rune_error"
  by (simp add: rune_error_def)

lemma decode_non_ascii:
  assumes "128 \<le> p"
  shows "128 \<le> fst (decode_rune (p # cs))"
proof -
  have two: "128 \<le> (p mod 32) * 64 + x" if "194 \<le> p" "p < 224" for x :: nat
  proof -
    from that have "2 \<le> p mod 32" by presburger
    then show ?thesis by simp
  qed
  have three: "128 \<le> (p mod 16) * 4096 + (c1 mod 64) * 64 + x"
    if "224 \<le> p" "p < 240" "cont_byte (fst (second_range p)) (snd (second_range p)) c1" for c1 x :: nat
  proof (cases "p = 224")
    case True
    with that have "160 \<le> c1" "c1 \<le> 191" by (auto simp: second_range_def cont_byte_def)
    then have "32 \<le> c1 mod 64" by (simp add: cont_byte_mod)
    then show ?thesis by simp
  next
    case False
    with that have "1 \<le> p mod 16" by presburger
    then show ?thesis by simp
  qed
  have four: "128 \<le> (p mod 8) * 262144 + (c1 mod 64) * 4096 + x + y"
    if "240 \<le> p" "p \<le> 244" "cont_byte (fst (second_range p)) (snd (second_range p)) c1" for c1 x y :: nat
  proof (cases "p = 240")
    case True
    with that have "144 \<le> c1" "c1 \<le> 191" by (auto simp: second_range_def cont_byte_def)
    then have "16 \<le> c1 mod 64" by (simp add: cont_byte_mod)
    then show ?thesis by simp
  next
    case False
    with that have "1 \<le> p mod 8" by presburger
    then show ?thesis by simp
  qed
  obtain lo hi where r: "second_range p = (lo, hi)" by (cases "second_range p")
  show ?thesis
  proof (cases cs)
    case Nil
    with assms show ?thesis by (simp add: decode_rune_def rune_error_def)
  next
    case (Cons c1 rest1)
    show ?thesis
    proof (cases "p < 194 \<or> p > 244 \<or> \<not> cont_byte lo hi c1")
      case True
      with assms Cons r show ?thesis by (auto simp: decode_rune_def rune_error_def)
    next
      case False
      then have c1: "194 \<le> p" "p \<le> 244" "cont_byte (fst (second_range p)) (snd (second_range p)) c1"
        using r by simp_all
      consider "p < 224" | "224 \<le> p" "p < 240" | "240 \<le> p" by linarith
      then show ?thesis
      proof cases
        case 1
        with False r Cons assms have "decode_rune (p # cs) = ((p mod 32) * 64 + c1 mod 64, 2, True)"
          by (simp add: decode_rune_def)
        with two [OF c1(1) 1] show ?thesis by (simp only: fst_conv)
      next
        case 2
        note dec = decode_rune_def False r Cons assms 2
        show ?thesis
        proof (cases rest1)
          case Nil
          with dec show ?thesis by (simp add: rune_error_128)
        next
          case (Cons c2 rest2)
          show ?thesis
          proof (cases "cont_byte 128 191 c2")
            case False
            with dec Cons show ?thesis by (simp add: rune_error_128)
          next
            case True
            with dec Cons have "decode_rune (p # cs)
                = ((p mod 16) * 4096 + (c1 mod 64) * 64 + c2 mod 64, 3, True)" by simp
            with three [OF 2 c1(3)] show ?thesis by (simp only: fst_conv)
          qed
        qed
      next
        case 3
        note dec = decode_rune_def False r Cons assms 3
        show ?thesis
        proof (cases rest1)
          case Nil
          with dec show ?thesis by (simp add: rune_error_128)
        next
          case (Cons c2 rest2)
          show ?thesis
          proof (cases "cont_byte 128 191 c2 \<and> rest2 \<noteq> [] \<and> cont_byte 128 191 (hd rest2)")
            case False
            with dec Cons show ?thesis by (cases rest2) (auto simp: rune_error_128)
          next
            case True
            with dec Cons have "decode_rune (p # cs)
                = ((p mod 8) * 262144 + (c1 mod 64) * 4096 + (c2 mod 64) * 64 + hd rest2 mod 64, 4, True)"
              by (cases rest2) simp_all
            with four [OF 3 c1(2,3)] show ?thesis by (simp only: fst_conv)
          qed
        qed
      qed
    qed
  qed
qed

text \<open>A predicate that only ASCII code points satisfy can be checked byte by byte.\<close>

lemma runes_all_ascii:
  assumes "\<And>r. P r \<Longrightarrow> r < 128"
  shows "(\<forall>r \<in> set (runes s). P r) \<longleftrightarrow> (\<forall>c \<in> set s. P (of_char c))"
proof (induction s rule: length_induct)
  case (1 s)
  show ?case
  proof (cases s)
    case Nil
    then show ?thesis by simp
  next
    case (Cons c t)
    show ?thesis
    proof (cases "of_char c < (128 :: nat)")
      case True
      with 1 Cons show ?thesis by simp
    next
      case False
      obtain r n ok where d: "decode_rune (of_char c # str_bytes t) = (r, n, ok)" by (metis prod_cases3)
      from decode_non_ascii [of "of_char c" "str_bytes t"] False d have "128 \<le> r" by simp
      moreover have "r \<in> set (runes s)"
        using d by (simp add: runes_def Cons rune_segments.simps [of "c # t"] str_bytes_def)
      ultimately have "\<not> (\<forall>r \<in> set (runes s). P r)" using assms by fastforce
      moreover have "\<not> (\<forall>c \<in> set s. P (of_char c))" using False assms Cons by fastforce
      ultimately show ?thesis by blast
    qed
  qed
qed

lemma runes_ascii_all:
  "(\<forall>c \<in> set s. of_char c < (128 :: nat)) \<Longrightarrow> runes s = map of_char s"
  by (induction s) auto

section \<open>Trimming, cutting and splitting\<close>

text \<open>\<open>unicode.IsSpace\<close> and \<open>strings.TrimSpace\<close>.\<close>

definition is_space :: "nat \<Rightarrow> bool" where
  "is_space r \<longleftrightarrow> r \<in> {9, 10, 11, 12, 13, 32, 133, 160, 5760, 8232, 8233, 8239, 8287, 12288}
     \<or> (8192 \<le> r \<and> r \<le> 8202)"

definition trim_space :: "string \<Rightarrow> string" where
  "trim_space s =
     (let blank = (\<lambda>(r, ok, _). is_space r);
          front = dropWhile blank (rune_segments s)
      in concat (map (\<lambda>(_, _, t). t) (rev (dropWhile blank (rev front)))))"

definition has_prefix :: "string \<Rightarrow> string \<Rightarrow> bool" where
  "has_prefix s p \<longleftrightarrow> take (length p) s = p"

definition has_suffix :: "string \<Rightarrow> string \<Rightarrow> bool" where
  "has_suffix s p \<longleftrightarrow> has_prefix (rev s) (rev p)"

definition trim_prefix :: "string \<Rightarrow> string \<Rightarrow> string" where
  "trim_prefix s p = (if has_prefix s p then drop (length p) s else s)"

definition trim_suffix :: "string \<Rightarrow> string \<Rightarrow> string" where
  "trim_suffix s p = (if has_suffix s p then take (length s - length p) s else s)"

fun contains_str :: "string \<Rightarrow> string \<Rightarrow> bool" where
  "contains_str [] p \<longleftrightarrow> p = []"
| "contains_str (c # s) p \<longleftrightarrow> has_prefix (c # s) p \<or> contains_str s p"

text \<open>\<open>strings.Cut\<close> and \<open>strings.Split\<close> at a one-byte separator.\<close>

definition cut_at :: "char \<Rightarrow> string \<Rightarrow> string \<times> string \<times> bool" where
  "cut_at d s = (if d \<in> set s then (takeWhile (\<lambda>c. c \<noteq> d) s, tl (dropWhile (\<lambda>c. c \<noteq> d) s), True)
                 else (s, [], False))"

lemma contains_char: "contains_str s [c] \<longleftrightarrow> c \<in> set s"
  by (induction s) (auto simp: has_prefix_def)

fun split_at :: "char \<Rightarrow> string \<Rightarrow> string list" where
  "split_at d [] = [[]]"
| "split_at d (c # s) =
     (if c = d then [] # split_at d s
      else (case split_at d s of [] \<Rightarrow> [[c]] | f # fs \<Rightarrow> (c # f) # fs))"

definition join_with :: "string \<Rightarrow> string list \<Rightarrow> string" where
  "join_with sep fs = (case fs of [] \<Rightarrow> [] | f # fs' \<Rightarrow> f @ concat (map (\<lambda>g. sep @ g) fs'))"

section \<open>Decimal numbers\<close>

definition is_digit :: "nat \<Rightarrow> bool" where
  "is_digit r \<longleftrightarrow> 48 \<le> r \<and> r \<le> 57"

definition digits_value :: "string \<Rightarrow> nat" where
  "digits_value s = foldl (\<lambda>n c. 10 * n + (of_char c - 48)) 0 s"

text \<open>\<open>strconv.ParseInt(s, 10, 64)\<close> and \<open>strconv.Atoi\<close>: an optional sign, at least one digit,
  nothing else, and a value that fits; every failure is an error.\<close>

definition parse_int64 :: "string \<Rightarrow> int option" where
  "parse_int64 s =
     (let (neg, body) = (case s of
            [] \<Rightarrow> (False, [])
          | c # t \<Rightarrow> if c = CHR ''-'' then (True, t) else if c = CHR ''+'' then (False, t) else (False, s))
      in if body = [] \<or> \<not> list_all (\<lambda>c. is_digit (of_char c)) body then None
         else (let v = (if neg then - int (digits_value body) else int (digits_value body))
               in if in_int64 v then Some v else None))"

fun nat_digits :: "nat \<Rightarrow> string" where
  "nat_digits n = (if n < 10 then [char_of (48 + n)] else nat_digits (n div 10) @ [char_of (48 + n mod 10)])"

declare nat_digits.simps [simp del]

definition format_int :: "int \<Rightarrow> string" where
  "format_int v = (if v < 0 then CHR ''-'' # nat_digits (nat (- v)) else nat_digits (nat v))"

lemma parse_int64_range: "parse_int64 s = Some v \<Longrightarrow> in_int64 v"
  by (auto simp: parse_int64_def Let_def split: list.splits if_splits prod.splits)

lemma digits_value_snoc: "digits_value (s @ [c]) = 10 * digits_value s + (of_char c - 48)"
  by (simp add: digits_value_def)

lemma nat_digits_value [simp]: "digits_value (nat_digits n) = n"
proof (induction n rule: nat_digits.induct)
  case (1 n)
  show ?case
  proof (cases "n < 10")
    case True
    then show ?thesis by (subst nat_digits.simps) (simp add: digits_value_def)
  next
    case False
    with 1 show ?thesis by (subst nat_digits.simps) (simp add: digits_value_snoc)
  qed
qed

lemma nat_digits_digits: "c \<in> set (nat_digits n) \<Longrightarrow> is_digit (of_char c)"
proof (induction n rule: nat_digits.induct)
  case (1 n)
  show ?case
  proof (cases "n < 10")
    case True
    with 1(2) show ?thesis by (subst (asm) nat_digits.simps) (simp add: is_digit_def)
  next
    case False
    with 1 show ?thesis by (subst (asm) (2) nat_digits.simps) (auto simp: is_digit_def)
  qed
qed

lemma nat_digits_nonempty [simp]: "nat_digits n \<noteq> []"
  by (subst nat_digits.simps) simp

text \<open>Formatting and parsing decimal numbers are inverse.\<close>

lemma parse_format_int: "in_int64 v \<Longrightarrow> parse_int64 (format_int v) = Some v"
proof -
  assume v: "in_int64 v"
  have digits: "list_all (\<lambda>c. is_digit (of_char c)) (nat_digits n)" for n
    by (simp add: list_all_iff nat_digits_digits)
  show ?thesis
  proof (cases "v < 0")
    case True
    with v digits show ?thesis by (simp add: parse_int64_def format_int_def)
  next
    case False
    obtain c t where ct: "nat_digits (nat v) = c # t" by (cases "nat_digits (nat v)") auto
    with nat_digits_digits [of c "nat v"] have "is_digit (of_char c)" by simp
    then have "c \<noteq> CHR ''-''" "c \<noteq> CHR ''+''" by (auto simp: is_digit_def)
    with False v digits [of "nat v"] nat_digits_value [of "nat v"] ct show ?thesis
      by (simp add: parse_int64_def format_int_def)
  qed
qed

section \<open>Readers\<close>

text \<open>One \<open>Read\<close> call returns some bytes and no error, \<open>io.EOF\<close> or another error. A reader
  is the sequence of its read results; once the list is used up it keeps returning end of file.\<close>

datatype read_status = NoErr | EOF | ReadErr err

type_synonym reader = "(bytes \<times> read_status) list"

text \<open>What the reader delivers up to its first end or error, and the error if it ends in one.\<close>

fun content :: "reader \<Rightarrow> bytes" where
  "content [] = []"
| "content ((bs, st) # rs) = bs @ (if st = NoErr then content rs else [])"

fun reader_err :: "reader \<Rightarrow> err option" where
  "reader_err [] = None"
| "reader_err ((bs, NoErr) # rs) = reader_err rs"
| "reader_err ((bs, EOF) # rs) = None"
| "reader_err ((bs, ReadErr x) # rs) = Some x"

text \<open>\<open>io.ReadAll\<close>: everything up to the end, or the reader's error.\<close>

definition read_all :: "reader \<Rightarrow> err + bytes" where
  "read_all rd = (case reader_err rd of Some x \<Rightarrow> Inl x | None \<Rightarrow> Inr (content rd))"

lemma read_all_Inr: "read_all rd = Inr d \<longleftrightarrow> reader_err rd = None \<and> content rd = d"
  by (auto simp: read_all_def split: option.splits)

text \<open>\<open>io.MultiReader\<close>: the readers one after the other; an end of file of one of them moves on
  to the next.\<close>

fun strip_eof :: "reader \<Rightarrow> reader" where
  "strip_eof [] = []"
| "strip_eof ((bs, NoErr) # r) = (bs, NoErr) # strip_eof r"
| "strip_eof ((bs, EOF) # r) = [(bs, NoErr)]"
| "strip_eof ((bs, ReadErr x) # r) = [(bs, ReadErr x)]"

definition io_MultiReader :: "reader list \<Rightarrow> reader" where
  "io_MultiReader readers = concat (map strip_eof readers)"

lemma content_strip_eof: "content (strip_eof r @ r') = content r @ (if reader_err r = None then content r' else [])"
  by (induction r rule: strip_eof.induct) auto

lemma reader_err_strip_eof:
  "reader_err (strip_eof r @ r') = (if reader_err r = None then reader_err r' else reader_err r)"
  by (induction r rule: strip_eof.induct) auto

lemma io_MultiReader_Nil [simp]: "content (io_MultiReader []) = []" "reader_err (io_MultiReader []) = None"
  by (simp_all add: io_MultiReader_def)

lemma io_MultiReader_Cons [simp]:
  "content (io_MultiReader (r # rs)) = content r @ (if reader_err r = None then content (io_MultiReader rs) else [])"
  "reader_err (io_MultiReader (r # rs)) = (if reader_err r = None then reader_err (io_MultiReader rs) else reader_err r)"
  by (simp_all add: io_MultiReader_def content_strip_eof reader_err_strip_eof)

text \<open>The bytes of a string, and \<open>n\<close> random bytes.\<close>

definition to_bytes :: "string \<Rightarrow> bytes" where
  "to_bytes s = map of_char s"

definition random_bytes :: "env \<Rightarrow> nat \<Rightarrow> nat \<Rightarrow> bytes" where
  "random_bytes e i n = take n (to_bytes (fresh_id e i) @ replicate n 0)"

lemma length_random_bytes [simp]: "length (random_bytes e i n) = n"
  by (simp add: random_bytes_def)

section \<open>File paths\<close>

text \<open>A path below a root is the list of its components; \<open>filepath.Clean\<close> drops empty and
  \<open>.\<close> components and resolves \<open>..\<close> against what precedes it.\<close>

fun clean_path :: "string list \<Rightarrow> string list \<Rightarrow> string list" where
  "clean_path acc [] = acc"
| "clean_path acc (c # cs) =
     (if c = [] \<or> c = ''.'' then clean_path acc cs
      else if c = ''..''
      then (if acc = [] \<or> last acc = ''..'' then clean_path (acc @ [c]) cs else clean_path (butlast acc) cs)
      else clean_path (acc @ [c]) cs)"

lemma clean_path_plain:
  "(\<forall>c \<in> set cs. c \<noteq> [] \<and> c \<noteq> ''.'' \<and> c \<noteq> ''..'') \<Longrightarrow> clean_path acc cs = acc @ cs"
  by (induction acc cs rule: clean_path.induct) auto

section \<open>Names built from safe characters\<close>

text \<open>The character class \<open>[a-zA-Z0-9_-]\<close> that tenant path components are reduced to.\<close>

definition safe_rune :: "nat \<Rightarrow> bool" where
  "safe_rune r \<longleftrightarrow> (97 \<le> r \<and> r \<le> 122) \<or> (65 \<le> r \<and> r \<le> 90) \<or> (48 \<le> r \<and> r \<le> 57)
     \<or> r = 45 \<or> r = 95"

definition safe_name :: "string \<Rightarrow> bool" where
  "safe_name s \<longleftrightarrow> s \<noteq> [] \<and> (\<forall>c \<in> set s. safe_rune (of_char c))"

lemma safe_rune_ascii: "safe_rune r \<Longrightarrow> r < 128"
  by (auto simp: safe_rune_def)

lemma safe_rune_char: "safe_rune r \<Longrightarrow> of_char (char_of r :: char) = r"
  using safe_rune_ascii [of r] by simp

lemma safe_runes:
  "(\<forall>c \<in> set s. safe_rune (of_char c)) \<Longrightarrow> runes s = map of_char s"
  by (intro runes_ascii_all) (auto dest: safe_rune_ascii)

lemma safe_name_plain: "safe_name s \<Longrightarrow> s \<noteq> [] \<and> s \<noteq> ''.'' \<and> s \<noteq> ''..''"
  by (auto simp: safe_name_def safe_rune_def)

lemma safe_name_no_slash: "safe_name s \<Longrightarrow> CHR ''/'' \<notin> set s"
  by (auto simp: safe_name_def safe_rune_def)

lemma safe_name_append:
  "safe_name s \<Longrightarrow> (\<And>c. c \<in> set t \<Longrightarrow> safe_rune (of_char c)) \<Longrightarrow> safe_name (s @ t)"
  by (auto simp: safe_name_def)

lemma hex_char_safe: "is_lower_hex r \<Longrightarrow> safe_rune r"
  by (auto simp: is_lower_hex_def safe_rune_def)

end
