(* ===== verification/Metadata.thy ===== *)
theory Metadata
  imports GoLib
begin

text \<open>
  \<open>src/internal/metadata/store.go\<close>: the metadata records, the \<open>Store\<close> interface as a record of
  operations (what a Go interface value is), and the contract its clients rely on: an abstract
  table of committed objects and the count of references to every block.
\<close>

section \<open>Records\<close>

datatype object_state = StatePending | StateCommitted | StateDeleted | StateFailed

record chunk_ref =
  cr_hash :: string
  cr_offset :: int
  cr_size :: int
  cr_backend_key :: string

record manifest =
  m_id :: string
  m_tenant :: string
  m_bucket :: string
  m_key :: string
  m_state :: object_state
  m_size :: int
  m_etag :: string
  m_headers :: "(string, string) gomap"
  m_chunks :: "chunk_ref list"
  m_created :: int
  m_updated :: int

record block_ref =
  br_hash :: string
  br_size :: int
  br_updated :: int

text \<open>A path is the list of its components.\<close>

record mp_part =
  pt_number :: int
  pt_size :: int
  pt_etag :: string
  pt_path :: "string list"
  pt_created :: int

record mp_session =
  ms_upload_id :: string
  ms_tenant :: string
  ms_bucket :: string
  ms_key :: string
  ms_headers :: "(string, string) gomap"
  ms_reserved :: int
  ms_created :: int
  ms_updated :: int
  ms_parts :: "(int, mp_part) gomap"

text \<open>Times are Unix nanoseconds; Go's zero \<open>time.Time\<close>, which is no Unix time in range, is
  represented by 0.\<close>

definition is_zero_time :: "int \<Rightarrow> bool" where
  "is_zero_time t \<longleftrightarrow> t = 0"

definition empty_manifest :: manifest where
  "empty_manifest = \<lparr>m_id = [], m_tenant = [], m_bucket = [], m_key = [], m_state = StatePending,
     m_size = 0, m_etag = [], m_headers = [], m_chunks = [], m_created = 0, m_updated = 0\<rparr>"

section \<open>The Store interface\<close>

record 'm store_ops =
  CreatePendingObject :: "env \<Rightarrow> manifest \<Rightarrow> 'm \<Rightarrow> (err + string) \<times> 'm"
  CommitObject :: "env \<Rightarrow> string \<Rightarrow> manifest \<Rightarrow> 'm \<Rightarrow> err option \<times> 'm"
  GetObject :: "env \<Rightarrow> string \<Rightarrow> string \<Rightarrow> string \<Rightarrow> 'm \<Rightarrow> err + manifest"
  DeleteObject :: "env \<Rightarrow> string \<Rightarrow> string \<Rightarrow> string \<Rightarrow> 'm \<Rightarrow> (err + manifest) \<times> 'm"
  ListUnreferencedBlocksOlderThan :: "env \<Rightarrow> string \<Rightarrow> int \<Rightarrow> int \<Rightarrow> 'm \<Rightarrow> err + block_ref list"
  ForgetBlocks :: "env \<Rightarrow> string \<Rightarrow> string list \<Rightarrow> 'm \<Rightarrow> err option \<times> 'm"
  ListTenants :: "env \<Rightarrow> 'm \<Rightarrow> err + string list"
  CreateMultipartSession :: "env \<Rightarrow> mp_session \<Rightarrow> 'm \<Rightarrow> err option \<times> 'm"
  SaveMultipartPart :: "env \<Rightarrow> string \<Rightarrow> string \<Rightarrow> mp_part \<Rightarrow> int \<Rightarrow> 'm \<Rightarrow> err option \<times> 'm"
  GetMultipartSession :: "env \<Rightarrow> string \<Rightarrow> string \<Rightarrow> 'm \<Rightarrow> err + mp_session"
  ListMultipartSessions :: "env \<Rightarrow> string \<Rightarrow> 'm \<Rightarrow> err + mp_session list"
  ListStaleMultipartSessions :: "env \<Rightarrow> string \<Rightarrow> int \<Rightarrow> 'm \<Rightarrow> err + mp_session list"
  DeleteMultipartSession :: "env \<Rightarrow> string \<Rightarrow> string \<Rightarrow> 'm \<Rightarrow> err option \<times> 'm"

text \<open>What clients see of a committed object.\<close>

type_synonym object_key = "string \<times> string \<times> string"

definition key_of :: "manifest \<Rightarrow> object_key" where
  "key_of m = (m_tenant m, m_bucket m, m_key m)"

definition same_body :: "manifest \<Rightarrow> manifest \<Rightarrow> bool" where
  "same_body m m' \<longleftrightarrow> m_size m = m_size m' \<and> m_etag m = m_etag m' \<and> m_headers m = m_headers m'
     \<and> m_chunks m = m_chunks m' \<and> key_of m = key_of m'"

text \<open>Tenant and bucket names without NUL bytes, as the API and the configuration admit them.\<close>

definition nul_free :: "string \<Rightarrow> bool" where
  "nul_free s \<longleftrightarrow> CHR 0x00 \<notin> set s"

definition good_key :: "object_key \<Rightarrow> bool" where
  "good_key k \<longleftrightarrow> (case k of (t, b, _) \<Rightarrow> nul_free t \<and> nul_free b)"

text \<open>
  The contract of \<open>metadata.Store\<close> as \<open>object.Service\<close> and the garbage collector use it.
  \<open>committed s k\<close> is the manifest served for key \<open>k\<close>. Identifiers handed out for pending
  objects must be new, which the hypothesis \<open>fresh\<close> says of the environment.
\<close>

locale object_store =
  fixes ops :: "'m store_ops"
    and inv :: "'m \<Rightarrow> bool"
    and committed :: "'m \<Rightarrow> object_key \<Rightarrow> manifest option"
    and pending :: "'m \<Rightarrow> string \<Rightarrow> bool"
    and fresh :: "env \<Rightarrow> manifest \<Rightarrow> 'm \<Rightarrow> bool"
  assumes create: "inv s \<Longrightarrow> fresh e m s \<Longrightarrow> CreatePendingObject ops e m s = (rc, s') \<Longrightarrow>
      inv s' \<and> committed s' = committed s \<and> (\<forall>i. rc = Inr i \<longrightarrow> pending s' i)"
    and commit: "inv s \<Longrightarrow> good_key (key_of m) \<Longrightarrow> CommitObject ops e i m s = (r, s') \<Longrightarrow>
      inv s' \<and> (case r of
          Some x \<Rightarrow> committed s' = committed s
        | None \<Rightarrow> \<exists>m'. same_body m m' \<and> committed s' = (committed s)(key_of m \<mapsto> m'))"
    and get: "inv s \<Longrightarrow> good_key (t, b, k) \<Longrightarrow> GetObject ops e t b k s = Inr m \<Longrightarrow>
      committed s (t, b, k) = Some m"
    and get_missing: "inv s \<Longrightarrow> good_key (t, b, k) \<Longrightarrow> committed s (t, b, k) = None \<Longrightarrow>
      \<exists>x. GetObject ops e t b k s = Inl x"
    and delete: "inv s \<Longrightarrow> good_key (t, b, k) \<Longrightarrow> DeleteObject ops e t b k s = (rd, s') \<Longrightarrow>
      inv s' \<and> (case rd of
          Inl x \<Rightarrow> committed s' = committed s
        | Inr m \<Rightarrow> committed s (t, b, k) \<noteq> None \<and> committed s' = (committed s)((t, b, k) := None))"
    and list_unreferenced: "inv s \<Longrightarrow>
      ListUnreferencedBlocksOlderThan ops e t before limit s = Inr refs \<Longrightarrow> br \<in> set refs \<Longrightarrow>
      committed s (t, b, k) = Some m \<Longrightarrow> br_hash br \<notin> cr_hash ` set (m_chunks m)"
    and forget: "inv s \<Longrightarrow> ForgetBlocks ops e t hs s = (r, s') \<Longrightarrow>
      inv s' \<and> committed s' = committed s"
begin

lemma commit_then_get:
  assumes "inv s" "good_key (key_of m)" "CommitObject ops e i m s = (None, s')"
    "GetObject ops e' (m_tenant m) (m_bucket m) (m_key m) s' = Inr m'"
  shows "same_body m m'"
proof -
  from commit [OF assms(1-3)] obtain m1 where
    "inv s'" "same_body m m1" "committed s' = (committed s)(key_of m \<mapsto> m1)" by auto
  with get [OF \<open>inv s'\<close> _ assms(4)] assms(2) show ?thesis by (simp add: key_of_def)
qed

lemma get_then_committed:
  assumes "inv s" "good_key (t, b, k)"
  shows "GetObject ops e t b k s = Inr m \<Longrightarrow> committed s (t, b, k) = Some m"
  using get [OF assms] .

end

text \<open>
  The contract of the multipart part of \<open>metadata.Store\<close>, as \<open>multipart.Manager\<close> uses it:
  \<open>sessions s (t, u)\<close> is the session stored for upload \<open>u\<close> of tenant \<open>t\<close>.
\<close>

definition same_session :: "mp_session \<Rightarrow> mp_session \<Rightarrow> bool" where
  "same_session a b \<longleftrightarrow> ms_upload_id a = ms_upload_id b \<and> ms_tenant a = ms_tenant b
     \<and> ms_bucket a = ms_bucket b \<and> ms_key a = ms_key b \<and> ms_headers a = ms_headers b
     \<and> ms_reserved a = ms_reserved b \<and> ms_parts a = ms_parts b"

definition same_part :: "mp_part \<Rightarrow> mp_part \<Rightarrow> bool" where
  "same_part a b \<longleftrightarrow> pt_number a = pt_number b \<and> pt_size a = pt_size b
     \<and> pt_etag a = pt_etag b \<and> pt_path a = pt_path b"

locale session_store =
  fixes mops :: "'m store_ops"
    and sinv :: "'m \<Rightarrow> bool"
    and sessions :: "'m \<Rightarrow> string \<times> string \<Rightarrow> mp_session option"
  assumes mp_named: "sinv s \<Longrightarrow> sessions s (t, u) = Some ms \<Longrightarrow> ms_tenant ms = t \<and> ms_upload_id ms = u"
    and mp_create: "sinv s \<Longrightarrow> CreateMultipartSession mops e ms s = (r, s') \<Longrightarrow>
      sinv s' \<and> (case r of
          Some x \<Rightarrow> sessions s' = sessions s
        | None \<Rightarrow> \<exists>ms'. same_session ms ms'
            \<and> sessions s' = (sessions s)((ms_tenant ms, ms_upload_id ms) \<mapsto> ms'))"
    and mp_save: "sinv s \<Longrightarrow> SaveMultipartPart mops e t u pt n s = (r, s') \<Longrightarrow>
      sinv s' \<and> (case r of
          Some x \<Rightarrow> sessions s' = sessions s
        | None \<Rightarrow> \<exists>ms pt' time. sessions s (t, u) = Some ms \<and> same_part pt pt'
            \<and> sessions s' = (sessions s)((t, u) \<mapsto> ms\<lparr>ms_parts :=
                 AList.update (pt_number pt) pt' (ms_parts ms), ms_reserved := n, ms_updated := time\<rparr>))"
    and mp_get: "sinv s \<Longrightarrow> GetMultipartSession mops e t u s = Inr ms \<Longrightarrow> sessions s (t, u) = Some ms"
    and mp_list: "sinv s \<Longrightarrow> ListMultipartSessions mops e t s = Inr ls \<Longrightarrow>
      distinct (map ms_upload_id ls) \<and> set ls = {ms. \<exists>u. sessions s (t, u) = Some ms}"
    and mp_stale: "sinv s \<Longrightarrow> ListStaleMultipartSessions mops e t before s = Inr ls \<Longrightarrow>
      distinct (map ms_upload_id ls) \<and> set ls = {ms. ms_created ms < before \<and> (\<exists>u. sessions s (t, u) = Some ms)}"
    and mp_delete: "sinv s \<Longrightarrow> DeleteMultipartSession mops e t u s = (r, s') \<Longrightarrow>
      sinv s' \<and> (case r of
          Some x \<Rightarrow> sessions s' = sessions s
        | None \<Rightarrow> sessions s' = (sessions s)((t, u) := None))"
    and mp_delete_missing: "sinv s \<Longrightarrow> ctx_plain e \<Longrightarrow> DeleteMultipartSession mops e t u s = (Some x, s') \<Longrightarrow>
      errors_is x ErrNotFound \<Longrightarrow> sessions s (t, u) = None"
    and mp_tenants: "sinv s \<Longrightarrow> ListTenants mops e s = Inr ts \<Longrightarrow> sessions s (t, u) \<noteq> None \<Longrightarrow>
      t \<in> set ts"
begin

lemma mp_create_reserved:
  assumes "sinv s" "CreateMultipartSession mops e ms s = (r, s')"
    and "\<And>t u x. sessions s (t, u) = Some x \<Longrightarrow> 0 \<le> ms_reserved x" "0 \<le> ms_reserved ms"
  shows "sessions s' (t, u) = Some x \<Longrightarrow> 0 \<le> ms_reserved x"
  using mp_create [OF assms(1,2)] assms(3) [of t u x] assms(4)
  by (auto simp: same_session_def split: option.splits if_splits)

lemma mp_save_reserved:
  assumes "sinv s" "SaveMultipartPart mops e t' u' pt n s = (r, s')"
    and "\<And>t u x. sessions s (t, u) = Some x \<Longrightarrow> 0 \<le> ms_reserved x" "0 \<le> n"
  shows "sessions s' (t, u) = Some x \<Longrightarrow> 0 \<le> ms_reserved x"
  using mp_save [OF assms(1,2)] assms(3) [of t u x] assms(4)
  by (auto split: option.splits if_splits)

end

end
