(* ===== verification/MemoryStore.thy ===== *)
theory MemoryStore
  imports Metadata
begin

text \<open>
  \<open>src/internal/metadata/memory.go\<close>: the in-memory store. Every method holds the store's mutex
  for its whole body, so each one is one atomic state transformer. The reference counts are
  proved exact in every reachable state, and the store implements the contract of
  \<open>metadata.Store\<close>.
\<close>

section \<open>State\<close>

record block_count =
  bc_size :: int
  bc_refs :: int
  bc_updated :: int

definition zero_block :: block_count where
  "zero_block = \<lparr>bc_size = 0, bc_refs = 0, bc_updated = 0\<rparr>"

record memory_store =
  objects :: "(string, manifest) gomap"
  index :: "(string, string) gomap"
  blocks :: "(string, (string, block_count) gomap) gomap"
  multipart :: "(string, (string, mp_session) gomap) gomap"

definition NewMemoryStore :: memory_store where
  "NewMemoryStore = \<lparr>objects = [], index = [], blocks = [], multipart = []\<rparr>"

definition objectKey :: "string \<Rightarrow> string \<Rightarrow> string \<Rightarrow> string" where
  "objectKey tenant bucket key = tenant @ [CHR 0x00] @ bucket @ [CHR 0x00] @ key"

section \<open>Reference counts\<close>

definition ensureTenant :: "string \<Rightarrow> memory_store \<Rightarrow> memory_store" where
  "ensureTenant tenant s =
     (if map_of (blocks s) tenant = None then s\<lparr>blocks := AList.update tenant [] (blocks s)\<rparr> else s)"

fun incrementChunks ::
  "int \<Rightarrow> chunk_ref list \<Rightarrow> (string, block_count) gomap \<Rightarrow> (string, block_count) gomap" where
  "incrementChunks t [] bs = bs"
| "incrementChunks t (c # cs) bs =
     (let ref = lookup_or zero_block bs (cr_hash c);
          ref' = ref\<lparr>bc_size := cr_size c, bc_refs := bc_refs ref + 1, bc_updated := t\<rparr>
      in incrementChunks t cs (AList.update (cr_hash c) ref' bs))"

fun decrementChunks ::
  "int \<Rightarrow> chunk_ref list \<Rightarrow> (string, block_count) gomap \<Rightarrow> (string, block_count) gomap" where
  "decrementChunks t [] bs = bs"
| "decrementChunks t (c # cs) bs =
     (let ref = lookup_or zero_block bs (cr_hash c);
          ref1 = (if bc_refs ref > 0 then ref\<lparr>bc_refs := bc_refs ref - 1\<rparr> else ref);
          ref' = ref1\<lparr>bc_size := cr_size c, bc_updated := t\<rparr>
      in decrementChunks t cs (AList.update (cr_hash c) ref' bs))"

definition incrementLocked :: "env \<Rightarrow> string \<Rightarrow> chunk_ref list \<Rightarrow> memory_store \<Rightarrow> memory_store" where
  "incrementLocked e tenant chunks s =
     (let s1 = ensureTenant tenant s
      in s1\<lparr>blocks := AList.update tenant
           (incrementChunks (now e 0) chunks (lookup_or [] (blocks s1) tenant)) (blocks s1)\<rparr>)"

definition decrementLocked :: "env \<Rightarrow> string \<Rightarrow> chunk_ref list \<Rightarrow> memory_store \<Rightarrow> memory_store" where
  "decrementLocked e tenant chunks s =
     (let s1 = ensureTenant tenant s
      in s1\<lparr>blocks := AList.update tenant
           (decrementChunks (now e 0) chunks (lookup_or [] (blocks s1) tenant)) (blocks s1)\<rparr>)"

section \<open>Objects\<close>

definition memCreatePendingObject ::
  "env \<Rightarrow> manifest \<Rightarrow> memory_store \<Rightarrow> (err + string) \<times> memory_store" where
  "memCreatePendingObject e man s =
     (case ctx_poll e 0 of
        Some x \<Rightarrow> (Inl x, s)
      | None \<Rightarrow>
          (let man1 = (if m_id man = [] then man\<lparr>m_id := fresh_id e 0\<rparr> else man);
               t = now e 0;
               man2 = man1\<lparr>m_state := StatePending, m_created := t, m_updated := t\<rparr>;
               s1 = s\<lparr>objects := AList.update (m_id man2) man2 (objects s)\<rparr>
           in (Inr (m_id man2), ensureTenant (m_tenant man2) s1)))"

definition retirePrevious :: "env \<Rightarrow> int \<Rightarrow> string \<Rightarrow> memory_store \<Rightarrow> memory_store" where
  "retirePrevious e t key s =
     (case map_of (index s) key of
        None \<Rightarrow> s
      | Some previousID \<Rightarrow>
          (let previous = lookup_or empty_manifest (objects s) previousID;
               s1 = decrementLocked e (m_tenant previous) (m_chunks previous) s;
               previous' = previous\<lparr>m_state := StateDeleted, m_updated := t\<rparr>
           in s1\<lparr>objects := AList.update previousID previous' (objects s1)\<rparr>))"

definition memCommitObject ::
  "env \<Rightarrow> string \<Rightarrow> manifest \<Rightarrow> memory_store \<Rightarrow> err option \<times> memory_store" where
  "memCommitObject e pendingID man s =
     (case ctx_poll e 0 of
        Some x \<Rightarrow> (Some x, s)
      | None \<Rightarrow>
          (case map_of (objects s) pendingID of
             None \<Rightarrow> (Some ErrNotFound, s)
           | Some pend \<Rightarrow>
               if m_state pend \<noteq> StatePending then (Some ErrNotFound, s)
               else
                 (let t = now e 0;
                      man1 = man\<lparr>m_id := pendingID, m_state := StateCommitted,
                        m_created := (if is_zero_time (m_created man) then m_created pend else m_created man),
                        m_updated := t\<rparr>;
                      key = objectKey (m_tenant man1) (m_bucket man1) (m_key man1);
                      s1 = retirePrevious (call e 1) t key s;
                      s2 = ensureTenant (m_tenant man1) s1;
                      s3 = incrementLocked (call e 2) (m_tenant man1) (m_chunks man1) s2
                  in (None, s3\<lparr>objects := AList.update pendingID man1 (objects s3),
                               index := AList.update key pendingID (index s3)\<rparr>))))"

definition memGetObject ::
  "env \<Rightarrow> string \<Rightarrow> string \<Rightarrow> string \<Rightarrow> memory_store \<Rightarrow> err + manifest" where
  "memGetObject e tenant bucket key s =
     (case ctx_poll e 0 of
        Some x \<Rightarrow> Inl x
      | None \<Rightarrow>
          (case map_of (index s) (objectKey tenant bucket key) of
             None \<Rightarrow> Inl ErrNotFound
           | Some i \<Rightarrow>
               (let man = lookup_or empty_manifest (objects s) i
                in if m_state man \<noteq> StateCommitted then Inl ErrNotFound else Inr man)))"

definition memDeleteObject ::
  "env \<Rightarrow> string \<Rightarrow> string \<Rightarrow> string \<Rightarrow> memory_store \<Rightarrow> (err + manifest) \<times> memory_store" where
  "memDeleteObject e tenant bucket key s =
     (case ctx_poll e 0 of
        Some x \<Rightarrow> (Inl x, s)
      | None \<Rightarrow>
          (let indexKey = objectKey tenant bucket key
           in case map_of (index s) indexKey of
             None \<Rightarrow> (Inl ErrNotFound, s)
           | Some i \<Rightarrow>
               (let man = lookup_or empty_manifest (objects s) i
                in if m_state man \<noteq> StateCommitted then (Inl ErrNotFound, s)
                   else (let s1 = decrementLocked (call e 1) tenant (m_chunks man) s;
                             man' = man\<lparr>m_state := StateDeleted, m_updated := now e 0\<rparr>
                         in (Inr man', s1\<lparr>objects := AList.update i man' (objects s1),
                                          index := AList.delete indexKey (index s1)\<rparr>)))))"

section \<open>Blocks and tenants\<close>

text \<open>The loop of \<open>ListUnreferencedBlocksOlderThan\<close> over the map's entries.\<close>

fun collectUnreferenced ::
  "int \<Rightarrow> int \<Rightarrow> (string \<times> block_count) list \<Rightarrow> block_ref list \<Rightarrow> block_ref list" where
  "collectUnreferenced before limit [] refs = refs"
| "collectUnreferenced before limit ((h, ref) # es) refs =
     (if bc_refs ref = 0 \<and> \<not> before < bc_updated ref
      then (let refs' = refs @ [\<lparr>br_hash = h, br_size = bc_size ref, br_updated = bc_updated ref\<rparr>]
            in if int (length refs') = limit then refs'
               else collectUnreferenced before limit es refs')
      else collectUnreferenced before limit es refs)"

definition memListUnreferencedBlocksOlderThan ::
  "env \<Rightarrow> string \<Rightarrow> int \<Rightarrow> int \<Rightarrow> memory_store \<Rightarrow> err + block_ref list" where
  "memListUnreferencedBlocksOlderThan e tenant before limit s =
     (case ctx_poll e 0 of
        Some x \<Rightarrow> Inl x
      | None \<Rightarrow> Inr (collectUnreferenced before (if limit \<le> 0 then 1000 else limit)
          (go_range (range_pick e [0]) (lookup_or [] (blocks s) tenant)) []))"

definition memListUnreferencedBlocks ::
  "env \<Rightarrow> string \<Rightarrow> int \<Rightarrow> memory_store \<Rightarrow> err + block_ref list" where
  "memListUnreferencedBlocks e tenant limit s =
     memListUnreferencedBlocksOlderThan e tenant (now e 1) limit s"

fun forgetHashes :: "string list \<Rightarrow> (string, block_count) gomap \<Rightarrow> (string, block_count) gomap" where
  "forgetHashes [] bs = bs"
| "forgetHashes (h # hs) bs =
     (case map_of bs h of
        Some ref \<Rightarrow> forgetHashes hs (if bc_refs ref = 0 then AList.delete h bs else bs)
      | None \<Rightarrow> forgetHashes hs bs)"

definition memForgetBlocks ::
  "env \<Rightarrow> string \<Rightarrow> string list \<Rightarrow> memory_store \<Rightarrow> err option \<times> memory_store" where
  "memForgetBlocks e tenant hashes s =
     (case ctx_poll e 0 of
        Some x \<Rightarrow> (Some x, s)
      | None \<Rightarrow>
          (case map_of (blocks s) tenant of
             None \<Rightarrow> (None, s)
           | Some bs \<Rightarrow> (None, s\<lparr>blocks := AList.update tenant (forgetHashes hashes bs) (blocks s)\<rparr>)))"

definition memListTenants :: "env \<Rightarrow> memory_store \<Rightarrow> err + string list" where
  "memListTenants e s =
     (case ctx_poll e 0 of
        Some x \<Rightarrow> Inl x
      | None \<Rightarrow>
          (let ts = keys (go_range (range_pick e [0]) (blocks s))
           in Inr (ts @ filter (\<lambda>t. t \<notin> set ts) (keys (go_range (range_pick e [1]) (multipart s))))))"

section \<open>Multipart sessions\<close>

definition memCreateMultipartSession ::
  "env \<Rightarrow> mp_session \<Rightarrow> memory_store \<Rightarrow> err option \<times> memory_store" where
  "memCreateMultipartSession e ses s =
     (case ctx_poll e 0 of
        Some x \<Rightarrow> (Some x, s)
      | None \<Rightarrow>
          (let ses1 = (if is_zero_time (ms_created ses) then ses\<lparr>ms_created := now e 0\<rparr> else ses);
               ses2 = (if is_zero_time (ms_updated ses1) then ses1\<lparr>ms_updated := ms_created ses1\<rparr> else ses1);
               s1 = ensureTenant (ms_tenant ses2) s
           in (None, s1\<lparr>multipart := AList.update (ms_tenant ses2)
                  (AList.update (ms_upload_id ses2) ses2 (lookup_or [] (multipart s1) (ms_tenant ses2)))
                  (multipart s1)\<rparr>)))"

definition memSaveMultipartPart ::
  "env \<Rightarrow> string \<Rightarrow> string \<Rightarrow> mp_part \<Rightarrow> int \<Rightarrow> memory_store \<Rightarrow> err option \<times> memory_store" where
  "memSaveMultipartPart e tenant uploadID part reserved s =
     (case ctx_poll e 0 of
        Some x \<Rightarrow> (Some x, s)
      | None \<Rightarrow>
          (case map_of (lookup_or [] (multipart s) tenant) uploadID of
             None \<Rightarrow> (Some ErrNotFound, s)
           | Some ses \<Rightarrow>
               (let part1 = (if is_zero_time (pt_created part) then part\<lparr>pt_created := now e 0\<rparr> else part);
                    ses1 = ses\<lparr>ms_parts := AList.update (pt_number part1) part1 (ms_parts ses),
                      ms_reserved := reserved, ms_updated := now e 1\<rparr>
                in (None, s\<lparr>multipart := AList.update tenant
                      (AList.update uploadID ses1 (lookup_or [] (multipart s) tenant)) (multipart s)\<rparr>))))"

definition memGetMultipartSession ::
  "env \<Rightarrow> string \<Rightarrow> string \<Rightarrow> memory_store \<Rightarrow> err + mp_session" where
  "memGetMultipartSession e tenant uploadID s =
     (case ctx_poll e 0 of
        Some x \<Rightarrow> Inl x
      | None \<Rightarrow>
          (case map_of (lookup_or [] (multipart s) tenant) uploadID of
             None \<Rightarrow> Inl ErrNotFound
           | Some ses \<Rightarrow> Inr ses))"

definition memListMultipartSessions :: "env \<Rightarrow> string \<Rightarrow> memory_store \<Rightarrow> err + mp_session list" where
  "memListMultipartSessions e tenant s =
     (case ctx_poll e 0 of
        Some x \<Rightarrow> Inl x
      | None \<Rightarrow> Inr (map snd (go_range (range_pick e [0]) (lookup_or [] (multipart s) tenant))))"

definition memListStaleMultipartSessions ::
  "env \<Rightarrow> string \<Rightarrow> int \<Rightarrow> memory_store \<Rightarrow> err + mp_session list" where
  "memListStaleMultipartSessions e tenant before s =
     (case ctx_poll e 0 of
        Some x \<Rightarrow> Inl x
      | None \<Rightarrow> Inr (filter (\<lambda>ses. ms_created ses < before)
          (map snd (go_range (range_pick e [0]) (lookup_or [] (multipart s) tenant)))))"

definition memDeleteMultipartSession ::
  "env \<Rightarrow> string \<Rightarrow> string \<Rightarrow> memory_store \<Rightarrow> err option \<times> memory_store" where
  "memDeleteMultipartSession e tenant uploadID s =
     (case ctx_poll e 0 of
        Some x \<Rightarrow> (Some x, s)
      | None \<Rightarrow>
          (case map_of (lookup_or [] (multipart s) tenant) uploadID of
             None \<Rightarrow> (Some ErrNotFound, s)
           | Some _ \<Rightarrow> (None, s\<lparr>multipart := AList.update tenant
                 (AList.delete uploadID (lookup_or [] (multipart s) tenant)) (multipart s)\<rparr>)))"

definition memory_ops :: "memory_store store_ops" where
  "memory_ops = \<lparr>CreatePendingObject = memCreatePendingObject, CommitObject = memCommitObject,
     GetObject = memGetObject, DeleteObject = memDeleteObject,
     ListUnreferencedBlocksOlderThan = memListUnreferencedBlocksOlderThan,
     ForgetBlocks = memForgetBlocks, ListTenants = memListTenants,
     CreateMultipartSession = memCreateMultipartSession, SaveMultipartPart = memSaveMultipartPart,
     GetMultipartSession = memGetMultipartSession, ListMultipartSessions = memListMultipartSessions,
     ListStaleMultipartSessions = memListStaleMultipartSessions,
     DeleteMultipartSession = memDeleteMultipartSession\<rparr>"

section \<open>Reference counts are exact\<close>

definition refc :: "(string, block_count) gomap \<Rightarrow> string \<Rightarrow> int" where
  "refc bs h = bc_refs (lookup_or zero_block bs h)"

definition occurrences :: "chunk_ref list \<Rightarrow> string \<Rightarrow> int" where
  "occurrences cs h = int (count_list (map cr_hash cs) h)"

lemma occurrences_simps [simp]:
  "occurrences [] h = 0"
  "occurrences (c # cs) h = (if cr_hash c = h then 1 else 0) + occurrences cs h"
  by (simp_all add: occurrences_def)

lemma occurrences_nonneg [simp]: "0 \<le> occurrences cs h"
  by (simp add: occurrences_def)

lemma occurrences_pos: "h \<in> cr_hash ` set cs \<Longrightarrow> 0 < occurrences cs h"
  by (simp add: occurrences_def count_list_0_iff zero_less_iff_neq_zero)

lemma refc_update [simp]:
  "refc (AList.update k v bs) h = (if h = k then bc_refs v else refc bs h)"
  by (simp add: refc_def)

lemma refc_incrementChunks:
  "refc (incrementChunks t cs bs) h = refc bs h + occurrences cs h"
  by (induction t cs bs rule: incrementChunks.induct) (auto simp: Let_def refc_def [of bs for bs])

lemma refc_decrementChunks:
  "(\<And>h. occurrences cs h \<le> refc bs h) \<Longrightarrow>
     refc (decrementChunks t cs bs) h = refc bs h - occurrences cs h"
proof (induction t cs bs rule: decrementChunks.induct)
  case (2 t c cs bs)
  define ref where "ref = lookup_or zero_block bs (cr_hash c)"
  define bs' where "bs' = AList.update (cr_hash c)
    ((if bc_refs ref > 0 then ref\<lparr>bc_refs := bc_refs ref - 1\<rparr> else ref)
       \<lparr>bc_size := cr_size c, bc_updated := t\<rparr>) bs"
  have "1 + occurrences cs (cr_hash c) \<le> refc bs (cr_hash c)"
    using "2.prems" [of "cr_hash c"] by simp
  moreover have "0 \<le> occurrences cs (cr_hash c)" by simp
  ultimately have pos: "0 < refc bs (cr_hash c)" by linarith
  have bs': "refc bs' h = refc bs h - (if cr_hash c = h then 1 else 0)" for h
    using pos by (simp add: bs'_def ref_def refc_def)
  have "occurrences cs h \<le> refc bs' h" for h
    using "2.prems" [of h] bs' by simp
  from "2.IH" [OF ref_def refl refl, folded bs'_def, OF this] bs' show ?case
    by (simp add: Let_def ref_def [symmetric] bs'_def [symmetric])
qed simp

definition tenantRefs :: "memory_store \<Rightarrow> string \<Rightarrow> string \<Rightarrow> int" where
  "tenantRefs s t h = refc (lookup_or [] (blocks s) t) h"

lemma tenantRefs_frame [simp]:
  "tenantRefs (s\<lparr>objects := ob\<rparr>) = tenantRefs s" "tenantRefs (s\<lparr>index := ix\<rparr>) = tenantRefs s"
  "tenantRefs (s\<lparr>multipart := mp\<rparr>) = tenantRefs s"
  by (simp_all add: tenantRefs_def fun_eq_iff)

lemma ensureTenant_frame [simp]:
  "objects (ensureTenant t s) = objects s" "index (ensureTenant t s) = index s"
  "multipart (ensureTenant t s) = multipart s"
  "lookup_or [] (blocks (ensureTenant t s)) t' = lookup_or [] (blocks s) t'"
  "tenantRefs (ensureTenant t s) = tenantRefs s"
  by (auto simp: ensureTenant_def tenantRefs_def lookup_or_def fun_eq_iff split: option.splits)

lemma incrementLocked_frame [simp]:
  "objects (incrementLocked e t cs s) = objects s" "index (incrementLocked e t cs s) = index s"
  "multipart (incrementLocked e t cs s) = multipart s"
  by (simp_all add: incrementLocked_def Let_def)

lemma decrementLocked_frame [simp]:
  "objects (decrementLocked e t cs s) = objects s" "index (decrementLocked e t cs s) = index s"
  "multipart (decrementLocked e t cs s) = multipart s"
  by (simp_all add: decrementLocked_def Let_def)

lemma tenantRefs_increment:
  "tenantRefs (incrementLocked e t cs s) t' h
     = tenantRefs s t' h + (if t' = t then occurrences cs h else 0)"
  by (simp add: incrementLocked_def tenantRefs_def Let_def refc_incrementChunks)

lemma tenantRefs_decrement:
  "(\<And>h. occurrences cs h \<le> tenantRefs s t h) \<Longrightarrow>
     tenantRefs (decrementLocked e t cs s) t' h
       = tenantRefs s t' h - (if t' = t then occurrences cs h else 0)"
  by (simp add: decrementLocked_def tenantRefs_def Let_def refc_decrementChunks)

text \<open>How often the committed objects of tenant \<open>t\<close> refer to block \<open>h\<close>.\<close>

definition contribution :: "memory_store \<Rightarrow> string \<Rightarrow> string \<Rightarrow> string \<Rightarrow> int" where
  "contribution s t h k =
     (case map_of (index s) k of
        None \<Rightarrow> 0
      | Some i \<Rightarrow> (let m = lookup_or empty_manifest (objects s) i
                  in if m_tenant m = t then occurrences (m_chunks m) h else 0))"

definition live :: "memory_store \<Rightarrow> string \<Rightarrow> string \<Rightarrow> int" where
  "live s t h = (\<Sum>k \<in> set (keys (index s)). contribution s t h k)"

lemma contribution_nonneg [simp]: "0 \<le> contribution s t h k"
  by (simp add: contribution_def Let_def split: option.split)

lemma contribution_outside: "k \<notin> set (keys (index s)) \<Longrightarrow> contribution s t h k = 0"
  by (simp add: contribution_def map_of_eq_None_iff [THEN iffD2])

lemma live_superset:
  assumes "finite S" "set (keys (index s)) \<subseteq> S"
  shows "live s t h = (\<Sum>k \<in> S. contribution s t h k)"
  unfolding live_def using assms by (intro sum.mono_neutral_left) (auto intro!: contribution_outside)

lemma live_change:
  assumes "\<And>k'. k' \<noteq> k \<Longrightarrow> contribution s' t h k' = contribution s t h k'"
  shows "live s' t h = live s t h - contribution s t h k + contribution s' t h k"
proof -
  let ?S = "insert k (set (keys (index s)) \<union> set (keys (index s')))"
  have "live s t h = (\<Sum>k \<in> ?S. contribution s t h k)" by (rule live_superset) auto
  also have "\<dots> = contribution s t h k + (\<Sum>k \<in> ?S - {k}. contribution s t h k)"
    by (rule sum.remove) auto
  finally have old: "live s t h = contribution s t h k + (\<Sum>k \<in> ?S - {k}. contribution s t h k)" .
  have "live s' t h = (\<Sum>k \<in> ?S. contribution s' t h k)" by (rule live_superset) auto
  also have "\<dots> = contribution s' t h k + (\<Sum>k \<in> ?S - {k}. contribution s' t h k)"
    by (rule sum.remove) auto
  also have "(\<Sum>k \<in> ?S - {k}. contribution s' t h k) = (\<Sum>k \<in> ?S - {k}. contribution s t h k)"
    using assms by (intro sum.cong) auto
  finally show ?thesis using old by simp
qed

lemma live_same:
  assumes "\<And>k'. contribution s' t h k' = contribution s t h k'"
  shows "live s' t h = live s t h"
  using live_change [of undefined s' t h s] assms by simp

lemma contribution_le_live: "contribution s t h k \<le> live s t h"
proof (cases "k \<in> set (keys (index s))")
  case True
  then show ?thesis unfolding live_def by (intro member_le_sum) auto
next
  case False
  then have "contribution s t h k = 0" by (rule contribution_outside)
  then show ?thesis unfolding live_def by (simp add: sum_nonneg)
qed

section \<open>The invariant\<close>

definition index_ok :: "memory_store \<Rightarrow> bool" where
  "index_ok s \<longleftrightarrow>
     (\<forall>k i. map_of (index s) k = Some i \<longrightarrow>
        (\<exists>m. map_of (objects s) i = Some m \<and> m_state m = StateCommitted
           \<and> good_key (key_of m) \<and> objectKey (m_tenant m) (m_bucket m) (m_key m) = k))"

definition counts_ok :: "memory_store \<Rightarrow> bool" where
  "counts_ok s \<longleftrightarrow> (\<forall>t h. tenantRefs s t h = live s t h)"

definition mem_inv :: "memory_store \<Rightarrow> bool" where
  "mem_inv s \<longleftrightarrow> index_ok s \<and> counts_ok s"

lemma index_okD:
  assumes "index_ok s" "map_of (index s) k = Some i"
  shows "m_state (lookup_or empty_manifest (objects s) i) = StateCommitted"
    "good_key (key_of (lookup_or empty_manifest (objects s) i))"
    "objectKey (m_tenant (lookup_or empty_manifest (objects s) i))
       (m_bucket (lookup_or empty_manifest (objects s) i))
       (m_key (lookup_or empty_manifest (objects s) i)) = k"
    "map_of (objects s) i = Some (lookup_or empty_manifest (objects s) i)"
  using assms by (fastforce simp: index_ok_def lookup_or_def)+

lemma index_inj:
  assumes "index_ok s" "map_of (index s) k = Some i" "map_of (index s) k' = Some i"
  shows "k = k'"
  using index_okD(3) [OF assms(1,2)] index_okD(3) [OF assms(1,3)] by simp

text \<open>The NUL-separated index key determines tenant, bucket and key.\<close>

lemma nul_split:
  assumes "nul_free a" "nul_free a'" "a @ [CHR 0x00] @ r = a' @ [CHR 0x00] @ r'"
  shows "a = a' \<and> r = r'"
  using assms
proof (induction a arbitrary: a')
  case Nil
  then show ?case by (cases a') (auto simp: nul_free_def)
next
  case (Cons c a)
  then obtain c' a'' where a': "a' = c' # a''" by (cases a') (auto simp: nul_free_def)
  have "a = a'' \<and> r = r'"
    using Cons.prems a' by (intro Cons.IH) (auto simp: nul_free_def)
  with Cons.prems a' show ?case by simp
qed

lemma objectKey_inj:
  assumes "good_key (t, b, k)" "good_key (t', b', k')" "objectKey t b k = objectKey t' b' k'"
  shows "t = t' \<and> b = b' \<and> k = k'"
  using assms nul_split [of t t' "b @ [CHR 0x00] @ k" "b' @ [CHR 0x00] @ k'"] nul_split [of b b' k k']
  by (auto simp: good_key_def objectKey_def)

lemma retirePrevious_frame [simp]:
  "index (retirePrevious e t k s) = index s" "multipart (retirePrevious e t k s) = multipart s"
  by (simp_all add: retirePrevious_def Let_def split: option.split)

lemma retirePrevious_refs:
  assumes "mem_inv s"
  shows "tenantRefs (retirePrevious e t0 k s) t h = live s t h - contribution s t h k"
proof (cases "map_of (index s) k")
  case None
  with assms show ?thesis
    by (simp add: retirePrevious_def contribution_def mem_inv_def counts_ok_def)
next
  case (Some i)
  define m where "m = lookup_or empty_manifest (objects s) i"
  have refs: "tenantRefs s t h = live s t h" for t h
    using assms by (simp add: mem_inv_def counts_ok_def)
  have contr: "contribution s t h k = (if m_tenant m = t then occurrences (m_chunks m) h else 0)" for t h
    by (simp add: contribution_def Some m_def Let_def)
  have "occurrences (m_chunks m) h \<le> tenantRefs s (m_tenant m) h" for h
    using contribution_le_live [of s "m_tenant m" h k] contr refs by simp
  from tenantRefs_decrement [OF this] Some show ?thesis
    by (simp add: retirePrevious_def Let_def m_def [symmetric] contr refs)
qed

lemma retirePrevious_objects:
  "map_of (objects (retirePrevious e t0 k s)) j =
     (case map_of (index s) k of
        None \<Rightarrow> map_of (objects s) j
      | Some i \<Rightarrow> if j = i then Some ((lookup_or empty_manifest (objects s) i)
            \<lparr>m_state := StateDeleted, m_updated := t0\<rparr>) else map_of (objects s) j)"
  by (simp add: retirePrevious_def Let_def split: option.split)

section \<open>Every operation keeps the invariant\<close>

lemma mem_inv_cong:
  assumes "index s' = index s" "\<And>i. i \<in> ran (map_of (index s)) \<Longrightarrow> map_of (objects s') i = map_of (objects s) i"
    "tenantRefs s' = tenantRefs s"
  shows "mem_inv s \<Longrightarrow> mem_inv s'"
proof -
  assume inv: "mem_inv s"
  have look: "map_of (index s) k = Some i \<Longrightarrow> map_of (objects s') i = map_of (objects s) i" for k i
    using assms(2) by (simp add: ranI)
  have "contribution s' t h k = contribution s t h k" for t h k
    using look by (auto simp: contribution_def assms(1) lookup_or_def split: option.split)
  then have "live s' t h = live s t h" for t h by (rule live_same)
  with inv look assms(1,3) show "mem_inv s'"
    by (simp add: mem_inv_def index_ok_def counts_ok_def)
qed

definition mem_fresh :: "env \<Rightarrow> manifest \<Rightarrow> memory_store \<Rightarrow> bool" where
  "mem_fresh e man s \<longleftrightarrow>
     map_of (objects s) (if m_id man = [] then fresh_id e 0 else m_id man) = None"

definition mem_pending :: "memory_store \<Rightarrow> string \<Rightarrow> bool" where
  "mem_pending s i \<longleftrightarrow> (\<exists>m. map_of (objects s) i = Some m \<and> m_state m = StatePending)"

definition mem_committed :: "memory_store \<Rightarrow> object_key \<Rightarrow> manifest option" where
  "mem_committed s key =
     (case key of (t, b, k) \<Rightarrow>
        if good_key (t, b, k)
        then map_option (lookup_or empty_manifest (objects s)) (map_of (index s) (objectKey t b k))
        else None)"

lemma create_state:
  assumes "memCreatePendingObject e man s = (r, s')"
  shows "((\<exists>x. r = Inl x) \<and> s' = s) \<or> (\<exists>i m. i = (if m_id man = [] then fresh_id e 0 else m_id man) \<and> r = Inr i
     \<and> m_state m = StatePending \<and> objects s' = AList.update i m (objects s) \<and> index s' = index s
     \<and> tenantRefs s' = tenantRefs s \<and> multipart s' = multipart s)"
proof (cases "ctx_poll e 0")
  case None
  let ?i = "if m_id man = [] then fresh_id e 0 else m_id man"
  let ?m = "man\<lparr>m_id := ?i, m_state := StatePending, m_created := now e 0, m_updated := now e 0\<rparr>"
  from assms None have "r = Inr ?i"
    "s' = ensureTenant (m_tenant man) (s\<lparr>objects := AList.update ?i ?m (objects s)\<rparr>)"
    by (auto simp: memCreatePendingObject_def Let_def split: if_splits)
  then show ?thesis by (intro disjI2 exI [of _ ?i] exI [of _ ?m]) simp
next
  case (Some x)
  with assms show ?thesis by (auto simp: memCreatePendingObject_def)
qed

lemma create_inv:
  assumes "mem_inv s" "mem_fresh e man s" "memCreatePendingObject e man s = (r, s')"
  shows "mem_inv s' \<and> mem_committed s' = mem_committed s \<and> (\<forall>i. r = Inr i \<longrightarrow> mem_pending s' i)"
proof -
  from create_state [OF assms(3)] assms(2) consider (err) x where "r = Inl x" "s' = s"
    | (ok) i m where "map_of (objects s) i = None" "r = Inr i" "m_state m = StatePending"
       "objects s' = AList.update i m (objects s)" "index s' = index s" "tenantRefs s' = tenantRefs s"
    by (auto simp: mem_fresh_def)
  then show ?thesis
  proof cases
    case err
    with assms show ?thesis by simp
  next
    case i: ok
  have ne: "map_of (index s) k = Some j \<Longrightarrow> j \<noteq> i" for k j
    using index_okD(4) [of s k j] assms(1) i(1) by (auto simp: mem_inv_def)
  have "mem_inv s'"
    using i ne by (intro mem_inv_cong [OF _ _ _ assms(1)]) (auto simp: ran_def)
  moreover have "mem_committed s' = mem_committed s"
    using ne i by (auto simp: mem_committed_def fun_eq_iff split: option.split intro!: map_option_cong)
  ultimately show ?thesis using i by (simp add: mem_pending_def)
  qed
qed

lemma commit_state:
  assumes "memCommitObject e pid man s = (None, s')"
  obtains m where "same_body man m" "m_state m = StateCommitted" "mem_pending s pid"
    "s' = (let s1 = retirePrevious (call e 1) (now e 0) (objectKey (m_tenant man) (m_bucket man) (m_key man)) s;
               s3 = incrementLocked (call e 2) (m_tenant man) (m_chunks man) (ensureTenant (m_tenant man) s1)
           in s3\<lparr>objects := AList.update pid m (objects s1),
                 index := AList.update (objectKey (m_tenant man) (m_bucket man) (m_key man)) pid (index s)\<rparr>)"
proof -
  from assms obtain pend where p: "ctx_poll e 0 = None" "map_of (objects s) pid = Some pend"
    "m_state pend = StatePending"
    by (auto simp: memCommitObject_def Let_def split: option.splits if_splits)
  let ?m = "man\<lparr>m_id := pid, m_state := StateCommitted,
                 m_created := (if is_zero_time (m_created man) then m_created pend else m_created man),
                 m_updated := now e 0\<rparr>"
  show ?thesis
    by (rule that [of ?m])
       (use p assms in \<open>auto simp: memCommitObject_def Let_def mem_pending_def same_body_def key_of_def\<close>)
qed

lemma commit_inv:
  assumes inv: "mem_inv s" and good: "good_key (key_of man)"
    and run: "memCommitObject e pid man s = (None, s')"
  shows "mem_inv s' \<and> (\<exists>m'. same_body man m' \<and> mem_committed s' = (mem_committed s)(key_of man \<mapsto> m'))"
proof -
  define key where "key = objectKey (m_tenant man) (m_bucket man) (m_key man)"
  obtain m where m: "same_body man m" "m_state m = StateCommitted" and pend: "mem_pending s pid"
    and s': "s' = (let s1 = retirePrevious (call e 1) (now e 0) key s;
               s3 = incrementLocked (call e 2) (m_tenant man) (m_chunks man) (ensureTenant (m_tenant man) s1)
           in s3\<lparr>objects := AList.update pid m (objects s1), index := AList.update key pid (index s)\<rparr>)"
    using commit_state [OF run] unfolding key_def by metis
  have mk: "key_of m = key_of man" "m_chunks m = m_chunks man" using m(1) by (simp_all add: same_body_def)
  then have tn: "m_tenant m = m_tenant man" "objectKey (m_tenant m) (m_bucket m) (m_key m) = key"
    by (simp_all add: key_of_def key_def)
  have idx: "index s' = AList.update key pid (index s)" by (simp add: s' Let_def)
  have ok: "index_ok s" using inv by (simp add: mem_inv_def)
  have other: "map_of (objects s') j = map_of (objects s) j"
    if "map_of (index s) k' = Some j" "k' \<noteq> key" for k' j
  proof -
    have "j \<noteq> pid" using index_okD(1,4) [OF ok that(1)] pend by (auto simp: mem_pending_def)
    moreover have "map_of (index s) key \<noteq> Some j" using index_inj [OF ok that(1)] that(2) by blast
    ultimately show ?thesis
      by (auto simp: s' Let_def retirePrevious_objects split: option.split)
  qed
  have new: "map_of (objects s') pid = Some m" by (simp add: s' Let_def)
  have "index_ok s'"
    unfolding index_ok_def
  proof (intro allI impI)
    fix k' j assume kj: "map_of (index s') k' = Some j"
    show "\<exists>m. map_of (objects s') j = Some m \<and> m_state m = StateCommitted
           \<and> good_key (key_of m) \<and> objectKey (m_tenant m) (m_bucket m) (m_key m) = k'"
    proof (cases "k' = key")
      case True
      with kj idx new m(2) mk(1) good tn(2) show ?thesis by auto
    next
      case False
      with kj idx have "map_of (index s) k' = Some j" by simp
      with other [OF this False] index_okD [OF ok this] show ?thesis by auto
    qed
  qed
  moreover have "counts_ok s'"
    unfolding counts_ok_def
  proof (intro allI)
    fix t h
    have same: "contribution s' t h k' = contribution s t h k'" if "k' \<noteq> key" for k'
      using that other [OF _ that] by (auto simp: contribution_def idx lookup_or_def split: option.split)
    have "tenantRefs s' t h = tenantRefs (retirePrevious (call e 1) (now e 0) key s) t h
        + (if t = m_tenant man then occurrences (m_chunks man) h else 0)"
      by (simp add: s' Let_def tenantRefs_increment)
    also have "\<dots> = live s t h - contribution s t h key
        + (if t = m_tenant man then occurrences (m_chunks man) h else 0)"
      by (simp add: retirePrevious_refs [OF inv])
    also have "(if t = m_tenant man then occurrences (m_chunks man) h else 0) = contribution s' t h key"
      using new by (simp add: contribution_def idx lookup_or_def mk(2) tn(1))
    also have "live s t h - contribution s t h key + contribution s' t h key = live s' t h"
      using live_change [OF same] by simp
    finally show "tenantRefs s' t h = live s' t h" .
  qed
  moreover have "mem_committed s' = (mem_committed s)(key_of man \<mapsto> m)"
  proof
    fix ok3 :: object_key
    obtain t b k where k3: "ok3 = (t, b, k)" by (cases ok3)
    show "mem_committed s' ok3 = ((mem_committed s)(key_of man \<mapsto> m)) ok3"
    proof (cases "good_key (t, b, k) \<and> objectKey t b k = key")
      case True
      with good objectKey_inj [of t b k] have "key_of man = (t, b, k)"
        by (auto simp: key_def key_of_def)
      with True new show ?thesis by (simp add: mem_committed_def k3 idx lookup_or_def)
    next
      case False
      then have "ok3 \<noteq> key_of man" using good by (auto simp: k3 key_def key_of_def)
      moreover have "mem_committed s' ok3 = mem_committed s ok3"
        using False other [of "objectKey t b k"]
        by (cases "map_of (index s) (objectKey t b k)") (auto simp: mem_committed_def k3 idx lookup_or_def)
      ultimately show ?thesis by simp
    qed
  qed
  ultimately show ?thesis using m(1) by (auto simp: mem_inv_def)
qed

lemma commit_error: "memCommitObject e pid man s = (Some x, s') \<Longrightarrow> s' = s"
  by (auto simp: memCommitObject_def Let_def split: option.splits if_splits)

lemma delete_inv:
  assumes inv: "mem_inv s" and good: "good_key (t, b, k)" and run: "memDeleteObject e t b k s = (Inr m, s')"
  shows "mem_inv s' \<and> mem_committed s (t, b, k) \<noteq> None
    \<and> mem_committed s' = (mem_committed s)((t, b, k) := None)"
proof -
  define key where "key = objectKey t b k"
  have ok: "index_ok s" using inv by (simp add: mem_inv_def)
  from run obtain i where i: "map_of (index s) key = Some i"
    and s': "s' = (let man = lookup_or empty_manifest (objects s) i;
                       s1 = decrementLocked (call e 1) t (m_chunks man) s
                   in s1\<lparr>objects := AList.update i m (objects s1), index := AList.delete key (index s1)\<rparr>)"
    by (auto simp: memDeleteObject_def Let_def key_def split: option.splits if_splits)
  define man where "man = lookup_or empty_manifest (objects s) i"
  have tenant: "m_tenant man = t"
    using index_okD(2,3) [OF ok i] objectKey_inj [of "m_tenant man" "m_bucket man" "m_key man" t b k] good
    by (auto simp: man_def [symmetric] key_of_def key_def)
  have idx: "index s' = AList.delete key (index s)" by (simp add: s' Let_def)
  have other: "map_of (objects s') j = map_of (objects s) j"
    if "map_of (index s) k' = Some j" "k' \<noteq> key" for k' j
    using index_inj [OF ok that(1), of key] i that(2) by (auto simp: s' Let_def)
  have "index_ok s'"
    unfolding index_ok_def
  proof (intro allI impI)
    fix k' j assume kj: "map_of (index s') k' = Some j"
    then have "k' \<noteq> key" "map_of (index s) k' = Some j" by (auto simp: idx split: if_splits)
    with other [OF this(2,1)] index_okD [OF ok this(2)]
    show "\<exists>m. map_of (objects s') j = Some m \<and> m_state m = StateCommitted
           \<and> good_key (key_of m) \<and> objectKey (m_tenant m) (m_bucket m) (m_key m) = k'" by auto
  qed
  moreover have "counts_ok s'"
    unfolding counts_ok_def
  proof (intro allI)
    fix t' h
    have same: "contribution s' t' h k' = contribution s t' h k'" if "k' \<noteq> key" for k'
      using that other [OF _ that] by (auto simp: contribution_def idx lookup_or_def split: option.split)
    have contr: "contribution s t' h key = (if t' = t then occurrences (m_chunks man) h else 0)" for t' h
      by (simp add: contribution_def i man_def [symmetric] tenant Let_def)
    have "occurrences (m_chunks man) h \<le> tenantRefs s t h" for h
      using contribution_le_live [of s t h key] contr inv by (simp add: mem_inv_def counts_ok_def)
    from tenantRefs_decrement [OF this, where t' = t' and h = h]
    have "tenantRefs s' t' h = tenantRefs s t' h - contribution s t' h key"
      by (simp add: s' Let_def man_def [symmetric] contr)
    also have "\<dots> = live s' t' h"
      using live_change [OF same, where k = key] inv
      by (simp add: mem_inv_def counts_ok_def contribution_def [of s'] idx)
    finally show "tenantRefs s' t' h = live s' t' h" .
  qed
  moreover have "mem_committed s (t, b, k) \<noteq> None" using good i by (simp add: mem_committed_def key_def)
  moreover have "mem_committed s' = (mem_committed s)((t, b, k) := None)"
  proof
    fix ok3 :: object_key
    obtain t' b' k' where k3: "ok3 = (t', b', k')" by (cases ok3)
    show "mem_committed s' ok3 = ((mem_committed s)((t, b, k) := None)) ok3"
    proof (cases "good_key (t', b', k') \<and> objectKey t' b' k' = key")
      case True
      with good objectKey_inj [of t b k t' b' k'] have "ok3 = (t, b, k)" by (auto simp: k3 key_def)
      with True show ?thesis by (simp add: mem_committed_def k3 idx)
    next
      case False
      then have "ok3 \<noteq> (t, b, k)" using good by (auto simp: k3 key_def)
      moreover have "mem_committed s' ok3 = mem_committed s ok3"
        using False other [of "objectKey t' b' k'"]
        by (cases "map_of (index s) (objectKey t' b' k')") (auto simp: mem_committed_def k3 idx lookup_or_def)
      ultimately show ?thesis by simp
    qed
  qed
  ultimately show ?thesis by (simp add: mem_inv_def)
qed

lemma delete_error: "memDeleteObject e t b k s = (Inl x, s') \<Longrightarrow> s' = s"
  by (auto simp: memDeleteObject_def Let_def split: option.splits if_splits)

section \<open>Listing and forgetting blocks\<close>

definition unreferenced :: "int \<Rightarrow> block_count \<Rightarrow> bool" where
  "unreferenced before ref \<longleftrightarrow> bc_refs ref = 0 \<and> bc_updated ref \<le> before"

definition as_ref :: "string \<times> block_count \<Rightarrow> block_ref" where
  "as_ref p = \<lparr>br_hash = fst p, br_size = bc_size (snd p), br_updated = bc_updated (snd p)\<rparr>"

lemma collectUnreferenced_eq:
  "int (length refs) < limit \<Longrightarrow>
     collectUnreferenced before limit es refs
       = refs @ map as_ref (take (nat limit - length refs) (filter (\<lambda>p. unreferenced before (snd p)) es))"
proof (induction before limit es refs rule: collectUnreferenced.induct)
  case (2 before limit h ref es refs)
  show ?case
  proof (cases "unreferenced before ref")
    case True
    define refs' where "refs' = refs @ [as_ref (h, ref)]"
    have len: "nat limit - length refs = Suc (nat limit - length refs')"
      using "2.prems" by (simp add: refs'_def)
    show ?thesis
    proof (cases "int (length refs') = limit")
      case eq: True
      then have "nat limit - length refs' = 0" by simp
      with eq True len show ?thesis
        by (simp add: unreferenced_def refs'_def as_ref_def Let_def not_less)
    next
      case False
      with "2.prems" have "int (length refs') < limit" by (simp add: refs'_def)
      with "2.IH"(1) [OF _ _ False [unfolded refs'_def as_ref_def]] True False len show ?thesis
        by (simp add: unreferenced_def refs'_def as_ref_def Let_def not_less)
    qed
  next
    case False
    with "2.IH"(2) "2.prems" show ?thesis by (auto simp: unreferenced_def not_less)
  qed
qed simp

lemma memListUnreferenced_eq:
  assumes "memListUnreferencedBlocksOlderThan e t before limit s = Inr refs"
  shows "refs = map as_ref (take (nat (if limit \<le> 0 then 1000 else limit))
     (filter (\<lambda>p. unreferenced before (snd p)) (go_range (range_pick e [0]) (lookup_or [] (blocks s) t))))"
  using assms
  by (auto simp: memListUnreferencedBlocksOlderThan_def collectUnreferenced_eq split: option.splits)

definition blocks_ok :: "memory_store \<Rightarrow> bool" where
  "blocks_ok s \<longleftrightarrow> (\<forall>t. distinct (keys (lookup_or [] (blocks s) t)))"

lemma distinct_incrementChunks:
  "distinct (keys bs) \<Longrightarrow> distinct (keys (incrementChunks t cs bs))"
  by (induction t cs bs rule: incrementChunks.induct) (simp_all add: Let_def)

lemma distinct_decrementChunks:
  "distinct (keys bs) \<Longrightarrow> distinct (keys (decrementChunks t cs bs))"
  by (induction t cs bs rule: decrementChunks.induct) (simp_all add: Let_def)

lemma distinct_forgetHashes: "distinct (keys bs) \<Longrightarrow> distinct (keys (forgetHashes hs bs))"
  by (induction hs bs rule: forgetHashes.induct) (simp_all split: option.split)

lemma map_of_forgetHashes:
  "map_of (forgetHashes hs bs) h =
     (case map_of bs h of
        None \<Rightarrow> None
      | Some ref \<Rightarrow> if h \<in> set hs \<and> bc_refs ref = 0 then None else Some ref)"
  by (induction hs bs rule: forgetHashes.induct) (auto split: option.splits)

lemma refc_forgetHashes [simp]: "refc (forgetHashes hs bs) h = refc bs h"
  by (auto simp: refc_def lookup_or_def map_of_forgetHashes zero_block_def split: option.split)

lemma blocks_ok_frame [simp]:
  "blocks_ok (s\<lparr>objects := ob\<rparr>) = blocks_ok s" "blocks_ok (s\<lparr>index := ix\<rparr>) = blocks_ok s"
  "blocks_ok (s\<lparr>multipart := mp\<rparr>) = blocks_ok s" "blocks_ok (ensureTenant t s) = blocks_ok s"
  by (simp_all add: blocks_ok_def)

lemma blocks_ok_increment [simp]: "blocks_ok s \<Longrightarrow> blocks_ok (incrementLocked e t cs s)"
  by (simp add: blocks_ok_def incrementLocked_def Let_def distinct_incrementChunks)

lemma blocks_ok_decrement [simp]: "blocks_ok s \<Longrightarrow> blocks_ok (decrementLocked e t cs s)"
  by (simp add: blocks_ok_def decrementLocked_def Let_def distinct_decrementChunks)

lemma blocks_ok_retire [simp]: "blocks_ok s \<Longrightarrow> blocks_ok (retirePrevious e t0 k s)"
  by (simp add: retirePrevious_def Let_def split: option.split)

lemma listed_unreferenced:
  assumes "mem_inv s" "blocks_ok s" "memListUnreferencedBlocksOlderThan e t before limit s = Inr refs"
    "br \<in> set refs"
  shows "tenantRefs s t (br_hash br) = 0 \<and> br_updated br \<le> before
    \<and> (\<exists>ref. map_of (lookup_or [] (blocks s) t) (br_hash br) = Some ref \<and> br = as_ref (br_hash br, ref))"
proof -
  from memListUnreferenced_eq [OF assms(3)] assms(4) obtain p where
    p: "p \<in> set (lookup_or [] (blocks s) t)" "unreferenced before (snd p)" "br = as_ref p"
    by (fastforce dest: in_set_takeD)
  have d: "distinct (keys (lookup_or [] (blocks s) t))" using assms(2) by (simp add: blocks_ok_def)
  with p(1) have "map_of (lookup_or [] (blocks s) t) (fst p) = Some (snd p)" by simp
  with p show ?thesis
    by (auto simp: tenantRefs_def refc_def unreferenced_def as_ref_def lookup_or_def [of zero_block])
qed

lemma live_member:
  assumes "mem_committed s (t, b, k) = Some m" "h \<in> cr_hash ` set (m_chunks m)" "index_ok s"
  shows "0 < live s t h"
proof -
  from assms(1) obtain i where i: "map_of (index s) (objectKey t b k) = Some i" "good_key (t, b, k)"
    "m = lookup_or empty_manifest (objects s) i"
    by (auto simp: mem_committed_def split: if_splits)
  have "m_tenant m = t"
    using index_okD(2,3) [OF assms(3) i(1), folded i(3)] objectKey_inj [of "m_tenant m" "m_bucket m" "m_key m" t b k] i(2)
    by (auto simp: key_of_def)
  with i occurrences_pos [OF assms(2)] have "0 < contribution s t h (objectKey t b k)"
    by (simp add: contribution_def)
  with contribution_le_live [of s t h "objectKey t b k"] show ?thesis by simp
qed

lemma forget_inv:
  assumes "mem_inv s" "memForgetBlocks e t hs s = (r, s')"
  shows "mem_inv s' \<and> mem_committed s' = mem_committed s"
proof -
  from assms(2) have "index s' = index s" "objects s' = objects s" "tenantRefs s' = tenantRefs s"
    by (auto simp: memForgetBlocks_def tenantRefs_def fun_eq_iff lookup_or_def [of "[]" "blocks s" t]
        split: option.splits)
  then show ?thesis
    using mem_inv_cong [of s' s] assms(1) by (auto simp: mem_committed_def fun_eq_iff)
qed

definition store_inv :: "memory_store \<Rightarrow> bool" where
  "store_inv s \<longleftrightarrow> mem_inv s \<and> blocks_ok s"

lemma store_inv_new: "store_inv NewMemoryStore"
  by (simp add: store_inv_def mem_inv_def blocks_ok_def index_ok_def counts_ok_def NewMemoryStore_def
      tenantRefs_def refc_def live_def zero_block_def)

lemma create_blocks_ok:
  "memCreatePendingObject e man s = (r, s') \<Longrightarrow> blocks_ok s \<Longrightarrow> blocks_ok s'"
  by (auto simp: memCreatePendingObject_def Let_def split: option.splits)

lemma commit_blocks_ok: "memCommitObject e i man s = (r, s') \<Longrightarrow> blocks_ok s \<Longrightarrow> blocks_ok s'"
  by (auto simp: memCommitObject_def Let_def split: option.splits if_splits)

lemma delete_blocks_ok: "memDeleteObject e t b k s = (r, s') \<Longrightarrow> blocks_ok s \<Longrightarrow> blocks_ok s'"
  by (auto simp: memDeleteObject_def Let_def split: option.splits if_splits)

lemma forget_blocks_ok: "memForgetBlocks e t hs s = (r, s') \<Longrightarrow> blocks_ok s \<Longrightarrow> blocks_ok s'"
proof -
  assume run: "memForgetBlocks e t hs s = (r, s')" and ok: "blocks_ok s"
  have "map_of (blocks s) t = Some bs \<Longrightarrow> distinct (keys bs)" for bs
    using ok [unfolded blocks_ok_def, rule_format, of t] by (simp add: lookup_or_def)
  with run ok show "blocks_ok s'"
    by (auto simp: memForgetBlocks_def blocks_ok_def distinct_forgetHashes split: option.splits)
qed

section \<open>The memory store implements the contract\<close>

interpretation mem: object_store memory_ops store_inv mem_committed mem_pending mem_fresh
proof unfold_locales
  fix s s' :: memory_store and e m rc
  assume "store_inv s" "mem_fresh e m s" "CreatePendingObject memory_ops e m s = (rc, s')"
  then show "store_inv s' \<and> mem_committed s' = mem_committed s \<and> (\<forall>i. rc = Inr i \<longrightarrow> mem_pending s' i)"
    using create_inv [of s e m rc s'] create_blocks_ok [of e m s rc s'] by (auto simp: store_inv_def memory_ops_def)
next
  fix s s' :: memory_store and e m i r
  assume a: "store_inv s" "good_key (key_of m)" "CommitObject memory_ops e i m s = (r, s')"
  then have run: "memCommitObject e i m s = (r, s')" by (simp add: memory_ops_def)
  show "store_inv s' \<and> (case r of Some x \<Rightarrow> mem_committed s' = mem_committed s
        | None \<Rightarrow> \<exists>m'. same_body m m' \<and> mem_committed s' = (mem_committed s)(key_of m \<mapsto> m'))"
    using a run commit_error [of e i m s] commit_inv [of s m e i s'] commit_blocks_ok [OF run]
    by (cases r) (auto simp: store_inv_def)
next
  fix s :: memory_store and t b k e m
  assume "store_inv s" "good_key (t, b, k)" "GetObject memory_ops e t b k s = Inr m"
  then show "mem_committed s (t, b, k) = Some m"
    by (auto simp: memory_ops_def memGetObject_def mem_committed_def Let_def split: option.splits if_splits)
next
  fix s :: memory_store and t b k e
  assume "store_inv s" "good_key (t, b, k)" "mem_committed s (t, b, k) = None"
  then show "\<exists>x. GetObject memory_ops e t b k s = Inl x"
    by (auto simp: memory_ops_def memGetObject_def mem_committed_def Let_def split: option.splits if_splits)
next
  fix s s' :: memory_store and t b k e rd
  assume a: "store_inv s" "good_key (t, b, k)" "DeleteObject memory_ops e t b k s = (rd, s')"
  then have run: "memDeleteObject e t b k s = (rd, s')" by (simp add: memory_ops_def)
  show "store_inv s' \<and> (case rd of Inl x \<Rightarrow> mem_committed s' = mem_committed s
        | Inr m \<Rightarrow> mem_committed s (t, b, k) \<noteq> None \<and> mem_committed s' = (mem_committed s)((t, b, k) := None))"
    using a run delete_error [of e t b k s] delete_inv [of s t b k e _ s'] delete_blocks_ok [OF run]
    by (cases rd) (auto simp: store_inv_def)
next
  fix s :: memory_store and e t before limit refs br b k m
  assume "store_inv s" "ListUnreferencedBlocksOlderThan memory_ops e t before limit s = Inr refs"
    "br \<in> set refs" "mem_committed s (t, b, k) = Some m"
  then show "br_hash br \<notin> cr_hash ` set (m_chunks m)"
    using listed_unreferenced [of s e t before limit refs br] live_member [of s t b k m "br_hash br"]
    by (auto simp: store_inv_def mem_inv_def counts_ok_def memory_ops_def)
next
  fix s s' :: memory_store and e t hs r
  assume "store_inv s" "ForgetBlocks memory_ops e t hs s = (r, s')"
  then show "store_inv s' \<and> mem_committed s' = mem_committed s"
    using forget_inv [of s e t hs r s'] forget_blocks_ok [of e t hs s r s']
    by (auto simp: store_inv_def memory_ops_def)
qed

section \<open>Reachable states\<close>

text \<open>One rule per state-changing method, with any arguments and any environment. Names are
  NUL-free, as the API admits them, and identifiers of pending objects are new.\<close>

inductive mem_step :: "memory_store \<Rightarrow> memory_store \<Rightarrow> bool" where
  create: "mem_fresh e man s \<Longrightarrow> memCreatePendingObject e man s = (r, s') \<Longrightarrow> mem_step s s'"
| commit: "good_key (key_of man) \<Longrightarrow> memCommitObject e i man s = (ro, s') \<Longrightarrow> mem_step s s'"
| delete: "good_key (t, b, k) \<Longrightarrow> memDeleteObject e t b k s = (rm, s') \<Longrightarrow> mem_step s s'"
| forget: "memForgetBlocks e t hs s = (ro, s') \<Longrightarrow> mem_step s s'"
| session: "memCreateMultipartSession e ses s = (ro, s') \<Longrightarrow> mem_step s s'"
| part: "memSaveMultipartPart e t u pt n s = (ro, s') \<Longrightarrow> mem_step s s'"
| drop: "memDeleteMultipartSession e t u s = (ro, s') \<Longrightarrow> mem_step s s'"

inductive mem_reachable :: "memory_store \<Rightarrow> bool" where
  start: "mem_reachable NewMemoryStore"
| step: "mem_reachable s \<Longrightarrow> mem_step s s' \<Longrightarrow> mem_reachable s'"

lemma multipart_frame:
  assumes "memCreateMultipartSession e ses s = (r, s') \<or> memSaveMultipartPart e t u pt n s = (r, s')
     \<or> memDeleteMultipartSession e t u s = (r, s')"
  shows "objects s' = objects s" "index s' = index s" "tenantRefs s' = tenantRefs s"
    "blocks_ok s' = blocks_ok s"
  using assms
  by (auto simp: memCreateMultipartSession_def memSaveMultipartPart_def memDeleteMultipartSession_def
      Let_def split: option.splits)

lemma multipart_store_inv:
  assumes "memCreateMultipartSession e ses s = (r, s') \<or> memSaveMultipartPart e t u pt n s = (r, s')
     \<or> memDeleteMultipartSession e t u s = (r, s')"
  shows "store_inv s \<Longrightarrow> store_inv s'"
  using multipart_frame [OF assms] mem_inv_cong [of s' s] by (auto simp: store_inv_def)

lemma mem_step_inv: "mem_step s s' \<Longrightarrow> store_inv s \<Longrightarrow> store_inv s'"
proof (induction rule: mem_step.induct)
  case (create e man s r s')
  then show ?case using mem.create [of s e man r s'] by (simp add: memory_ops_def)
next
  case (commit man e i s ro s')
  then show ?case using mem.commit [of s man e i ro s'] by (simp add: memory_ops_def)
next
  case (delete t b k e s rm s')
  then show ?case using mem.delete [of s t b k e rm s'] by (simp add: memory_ops_def)
next
  case (forget e t hs s ro s')
  then show ?case using mem.forget [of s e t hs ro s'] by (simp add: memory_ops_def)
qed (blast intro: multipart_store_inv)+

lemma reachable_store_inv: "mem_reachable s \<Longrightarrow> store_inv s"
  by (induction rule: mem_reachable.induct) (auto intro: store_inv_new mem_step_inv)

lemma reachable_counts: "mem_reachable s \<Longrightarrow> tenantRefs s t h = live s t h"
  using reachable_store_inv by (auto simp: store_inv_def mem_inv_def counts_ok_def)

section \<open>The multipart sessions of the store\<close>

definition mem_sessions :: "memory_store \<Rightarrow> string \<times> string \<Rightarrow> mp_session option" where
  "mem_sessions s = (\<lambda>(t, u). map_of (lookup_or [] (multipart s) t) u)"

definition sessions_named :: "memory_store \<Rightarrow> bool" where
  "sessions_named s \<longleftrightarrow> distinct (keys (multipart s)) \<and> (\<forall>t. distinct (keys (lookup_or [] (multipart s) t))
     \<and> (\<forall>(u, ms) \<in> set (lookup_or [] (multipart s) t). ms_tenant ms = t \<and> ms_upload_id ms = u))"

lemma sessions_named_new: "sessions_named NewMemoryStore"
  by (simp add: sessions_named_def NewMemoryStore_def)

lemma sessions_named_at:
  "sessions_named s \<Longrightarrow> distinct (keys (lookup_or [] (multipart s) t))"
  "sessions_named s \<Longrightarrow> (u, ms) \<in> set (lookup_or [] (multipart s) t) \<Longrightarrow> ms_tenant ms = t \<and> ms_upload_id ms = u"
  by (auto simp: sessions_named_def)

lemma sessions_named_ids:
  "sessions_named s \<Longrightarrow> map (\<lambda>x. ms_upload_id (snd x)) (lookup_or [] (multipart s) t) = keys (lookup_or [] (multipart s) t)"
  by (auto intro: map_cong dest: sessions_named_at(2))

lemma set_update_map: "distinct (keys m) \<Longrightarrow> (j, x) \<in> set (AList.update k v m) \<longleftrightarrow>
    (if j = k then x = v else (j, x) \<in> set m)"
  by (metis distinct_keys_update fun_upd_other fun_upd_same map_of_in_set map_of_update option.inject)

lemma sessions_named_update:
  assumes "sessions_named s" "ms_tenant ms = t" "ms_upload_id ms = u"
  shows "sessions_named (s\<lparr>multipart := AList.update t (AList.update u ms (lookup_or [] (multipart s) t)) (multipart s)\<rparr>)"
    and "mem_sessions (s\<lparr>multipart := AList.update t (AList.update u ms (lookup_or [] (multipart s) t)) (multipart s)\<rparr>)
      = (mem_sessions s)((t, u) \<mapsto> ms)"
proof -
  show "sessions_named (s\<lparr>multipart := AList.update t (AList.update u ms (lookup_or [] (multipart s) t)) (multipart s)\<rparr>)"
    using assms by (fastforce simp: sessions_named_def set_update_map split: if_splits)
qed (auto simp: mem_sessions_def fun_eq_iff)

lemma sessions_named_delete:
  assumes "sessions_named s"
  shows "sessions_named (s\<lparr>multipart := AList.update t (AList.delete u (lookup_or [] (multipart s) t)) (multipart s)\<rparr>)"
    and "mem_sessions (s\<lparr>multipart := AList.update t (AList.delete u (lookup_or [] (multipart s) t)) (multipart s)\<rparr>)
      = (mem_sessions s)((t, u) := None)"
proof -
  show "sessions_named (s\<lparr>multipart := AList.update t (AList.delete u (lookup_or [] (multipart s) t)) (multipart s)\<rparr>)"
    using assms by (auto simp: sessions_named_def AList.delete_eq distinct_map_filter)
qed (auto simp: mem_sessions_def fun_eq_iff)

lemma mem_sessions_set:
  "sessions_named s \<Longrightarrow> snd ` set (lookup_or [] (multipart s) t) = {ms. \<exists>u. mem_sessions s (t, u) = Some ms}"
  by (force simp: mem_sessions_def map_of_in_set sessions_named_at(1))

lemma ensureTenant_sessions [simp]:
  "sessions_named (ensureTenant t s) = sessions_named s" "mem_sessions (ensureTenant t s) = mem_sessions s"
  by (simp_all add: sessions_named_def mem_sessions_def ensureTenant_frame)

interpretation mem_mp: session_store memory_ops sessions_named mem_sessions
proof (unfold_locales, goal_cases)
  case (1 s t u ms)
  then show ?case by (auto simp: mem_sessions_def dest: map_of_SomeD sessions_named_at(2))
next
  case (2 s e ms r s')
  then show ?case
  proof (cases "ctx_poll e 0")
    case None
    define ms1 where "ms1 = (if is_zero_time (ms_created ms) then ms\<lparr>ms_created := now e 0\<rparr> else ms)"
    define ms2 where "ms2 = (if is_zero_time (ms_updated ms1) then ms1\<lparr>ms_updated := ms_created ms1\<rparr> else ms1)"
    have same: "same_session ms ms2" "ms_tenant ms2 = ms_tenant ms" "ms_upload_id ms2 = ms_upload_id ms"
      by (simp_all add: ms1_def ms2_def same_session_def)
    from None 2(2) have "r = None"
      "s' = (ensureTenant (ms_tenant ms2) s)\<lparr>multipart := AList.update (ms_tenant ms2)
         (AList.update (ms_upload_id ms2) ms2 (lookup_or [] (multipart (ensureTenant (ms_tenant ms2) s)) (ms_tenant ms2)))
         (multipart (ensureTenant (ms_tenant ms2) s))\<rparr>"
      by (auto simp: memory_ops_def memCreateMultipartSession_def Let_def ms1_def ms2_def)
    with sessions_named_update [of "ensureTenant (ms_tenant ms2) s" ms2, OF _ refl refl] 2(1) same
    show ?thesis by auto
  qed (auto simp: memory_ops_def memCreateMultipartSession_def split: option.splits)
next
  case (3 s e t u pt n r s')
  then show ?case
  proof (cases "ctx_poll e 0")
    case None
    show ?thesis
    proof (cases "map_of (lookup_or [] (multipart s) t) u")
      case None
      with \<open>ctx_poll e 0 = None\<close> 3 show ?thesis by (auto simp: memory_ops_def memSaveMultipartPart_def)
    next
      case (Some ms)
      define pt1 where "pt1 = (if is_zero_time (pt_created pt) then pt\<lparr>pt_created := now e 0\<rparr> else pt)"
      have same: "same_part pt pt1" "pt_number pt1 = pt_number pt"
        by (simp_all add: pt1_def same_part_def)
      define ms1 where "ms1 = ms\<lparr>ms_parts := AList.update (pt_number pt) pt1 (ms_parts ms),
        ms_reserved := n, ms_updated := now e 1\<rparr>"
      have named: "ms_tenant ms1 = t" "ms_upload_id ms1 = u"
        using Some 3(1) by (auto simp: ms1_def dest: map_of_SomeD sessions_named_at(2))
      from None Some 3(2) have "r = None"
        "s' = s\<lparr>multipart := AList.update t (AList.update u ms1 (lookup_or [] (multipart s) t)) (multipart s)\<rparr>"
        by (auto simp: memory_ops_def memSaveMultipartPart_def Let_def pt1_def ms1_def)
      with sessions_named_update [OF 3(1) named] same Some show ?thesis
        by (auto simp: mem_sessions_def ms1_def)
    qed
  qed (auto simp: memory_ops_def memSaveMultipartPart_def split: option.splits)
next
  case (4 s e t u ms)
  then show ?case
    by (auto simp: memory_ops_def memGetMultipartSession_def mem_sessions_def split: option.splits)
next
  case (5 s e t ls)
  then show ?case
    using sessions_named_at(1) [OF 5(1), of t]
    by (auto simp: memory_ops_def memListMultipartSessions_def mem_sessions_set comp_def
        distinct_map_go_range sessions_named_ids split: option.splits)
next
  case (6 s e t before ls)
  from 6(2) have ls: "ls = filter (\<lambda>ses. ms_created ses < before)
      (map snd (go_range (range_pick e [0]) (lookup_or [] (multipart s) t)))"
    by (auto simp: memory_ops_def memListStaleMultipartSessions_def split: option.splits)
  have "distinct (map ms_upload_id (map snd (go_range (range_pick e [0]) (lookup_or [] (multipart s) t))))"
    using sessions_named_at(1) [OF 6(1), of t] 6(1)
    by (simp add: comp_def distinct_map_go_range sessions_named_ids)
  with mem_sessions_set [OF 6(1), of t] show ?case unfolding ls
    by (auto simp: distinct_map_filter)
next
  case (7 s e t u r s')
  then show ?case
    by (auto simp: memory_ops_def memDeleteMultipartSession_def sessions_named_delete split: option.splits)
next
  case (8 s e t u x s')
  then show ?case
    by (auto simp: memory_ops_def memDeleteMultipartSession_def mem_sessions_def
        split: option.splits dest: ctx_plain_poll)
next
  case (9 s e ts t u)
  then show ?case
    by (force simp: memory_ops_def memListTenants_def mem_sessions_def lookup_or_def Let_def
        split: option.splits dest: map_of_SomeD)
qed

text \<open>A small history for the witnesses: one object with one chunk is created and committed.\<close>

definition chunk_a :: chunk_ref where
  "chunk_a = \<lparr>cr_hash = ''a'', cr_offset = 0, cr_size = 3, cr_backend_key = []\<rparr>"

definition man_a :: manifest where
  "man_a = empty_manifest\<lparr>m_tenant := ''t'', m_bucket := ''b'', m_key := ''k'', m_size := 3,
     m_etag := ''e'', m_chunks := [chunk_a]\<rparr>"

definition store_a :: memory_store where
  "store_a = snd (memCommitObject env0 ''id'' man_a
     (snd (memCreatePendingObject env0 man_a NewMemoryStore)))"

lemma good_key_a: "good_key (key_of man_a)" "good_key (''t'', ''b'', ''k'')"
  by (simp_all add: man_a_def key_of_def good_key_def nul_free_def)

lemma store_a_eq:
  "store_a = \<lparr>objects = [(''id'', man_a\<lparr>m_id := ''id'', m_state := StateCommitted, m_created := 1, m_updated := 1\<rparr>)],
     index = [(objectKey ''t'' ''b'' ''k'', ''id'')],
     blocks = [(''t'', [(''a'', \<lparr>bc_size = 3, bc_refs = 1, bc_updated = 1\<rparr>)])], multipart = []\<rparr>"
  by (simp add: store_a_def memCreatePendingObject_def memCommitObject_def NewMemoryStore_def man_a_def
      empty_manifest_def Let_def ensureTenant_def retirePrevious_def incrementLocked_def chunk_a_def
      zero_block_def lookup_or_def is_zero_time_def)

lemma reachable_a: "mem_reachable store_a"
proof -
  have "mem_fresh env0 man_a NewMemoryStore"
    by (simp add: mem_fresh_def NewMemoryStore_def)
  then have "mem_reachable (snd (memCreatePendingObject env0 man_a NewMemoryStore))"
    by (metis mem_reachable.intros mem_step.create prod.collapse)
  then show ?thesis unfolding store_a_def
    by (metis good_key_a(1) mem_reachable.step mem_step.commit prod.collapse)
qed

section \<open>Properties\<close>

text \<open>C6: Reference counts are exact. In every state the store can reach, the count kept for a
  block of a tenant is the number of references to it from that tenant's committed objects:
  overwriting and deleting an object give back exactly what committing it took, in any order of
  operations and after any failed or cancelled one.\<close>

theorem refcounts_exact:
  assumes "mem_reachable s"
  shows "tenantRefs s t h = live s t h"
  using reachable_counts [OF assms] .

theorem refcounts_exact_witness: "tenantRefs store_a ''t'' ''a'' = 1 \<and> live store_a ''t'' ''a'' = 1"
proof -
  have "tenantRefs store_a ''t'' ''a'' = 1"
    by (simp add: store_a_eq tenantRefs_def refc_def lookup_or_def)
  with refcounts_exact [OF reachable_a, of "''t''" "''a''"] show ?thesis by simp
qed

text \<open>What the garbage collector is offered. In a reachable state
  \<open>ListUnreferencedBlocksOlderThan\<close> returns at most the limit (1000 for a limit of 0 or less),
  each block once, each with reference count 0 and last touched no later than the cutoff, and
  none that a committed object of the tenant refers to.\<close>

theorem listed_blocks_are_garbage:
  assumes "mem_reachable s" and "memListUnreferencedBlocksOlderThan e t before limit s = Inr refs"
  shows "int (length refs) \<le> (if limit \<le> 0 then 1000 else limit) \<and> distinct (map br_hash refs)
    \<and> (\<forall>br \<in> set refs. br_updated br \<le> before \<and> tenantRefs s t (br_hash br) = 0
         \<and> (\<forall>b k m. mem_committed s (t, b, k) = Some m \<longrightarrow> br_hash br \<notin> cr_hash ` set (m_chunks m)))"
proof -
  note inv = reachable_store_inv [OF assms(1)]
  let ?es = "filter (\<lambda>p. unreferenced before (snd p)) (go_range (range_pick e [0]) (lookup_or [] (blocks s) t))"
  note eq = memListUnreferenced_eq [OF assms(2)]
  have "distinct (map fst (go_range (range_pick e [0]) (lookup_or [] (blocks s) t)))"
    using inv by (simp add: distinct_map_go_range store_inv_def blocks_ok_def)
  then have "distinct (map fst ?es)" by (rule distinct_map_filter)
  then have "distinct (map br_hash refs)"
    unfolding eq by (simp add: comp_def as_ref_def flip: take_map)
  moreover have "int (length refs) \<le> (if limit \<le> 0 then 1000 else limit)"
    unfolding eq by (auto simp: min_le_iff_disj)
  moreover have "\<forall>br \<in> set refs. br_updated br \<le> before \<and> tenantRefs s t (br_hash br) = 0"
    using listed_unreferenced [OF _ _ assms(2)] inv by (auto simp: store_inv_def)
  moreover have "\<forall>br \<in> set refs. \<forall>b k m. mem_committed s (t, b, k) = Some m
      \<longrightarrow> br_hash br \<notin> cr_hash ` set (m_chunks m)"
    using mem.list_unreferenced [OF inv, of e t before limit refs] assms(2) by (simp add: memory_ops_def)
  ultimately show ?thesis by blast
qed

theorem listed_blocks_are_garbage_witness:
  "\<exists>s refs. memListUnreferencedBlocksOlderThan env0 ''t'' 5 10 s = Inr refs
     \<and> map br_hash refs = [''a''] \<and> tenantRefs s ''t'' ''a'' = 0"
proof -
  define s where "s = snd (memDeleteObject env0 ''t'' ''b'' ''k'' store_a)"
  have "mem_step store_a s"
    unfolding s_def by (metis good_key_a(2) mem_step.delete prod.collapse)
  then have r: "mem_reachable s" by (rule mem_reachable.step [OF reachable_a])
  have s: "lookup_or [] (blocks s) ''t'' = [(''a'', \<lparr>bc_size = 3, bc_refs = 0, bc_updated = 1\<rparr>)]"
    by (simp add: s_def store_a_eq memDeleteObject_def Let_def man_a_def chunk_a_def decrementLocked_def
        ensureTenant_def lookup_or_def)
  have l: "memListUnreferencedBlocksOlderThan env0 ''t'' 5 10 s
      = Inr [\<lparr>br_hash = ''a'', br_size = 3, br_updated = 1\<rparr>]"
    by (simp add: memListUnreferencedBlocksOlderThan_def s go_range.simps Let_def)
  from listed_blocks_are_garbage [OF r l] l show ?thesis
    by (intro exI [of _ s] exI [of _ "[\<lparr>br_hash = ''a'', br_size = 3, br_updated = 1\<rparr>]"]) simp
qed

text \<open>Commit, read back, delete. Committing a pending object in a reachable state makes
  \<open>GetObject\<close> serve exactly its size, ETag, headers and chunks under its key and changes no
  other key; after a successful \<open>DeleteObject\<close> the key is not found and again no other key has
  changed.\<close>

theorem commit_get_delete:
  assumes "mem_reachable s" and "good_key (key_of man)" and "memCommitObject e i man s = (None, s1)"
    and "memDeleteObject e2 (m_tenant man) (m_bucket man) (m_key man) s1 = (Inr d, s2)"
  shows "(\<forall>ev m. memGetObject ev (m_tenant man) (m_bucket man) (m_key man) s1 = Inr m \<longrightarrow> same_body man m)
    \<and> (\<forall>k. k \<noteq> key_of man \<longrightarrow> mem_committed s1 k = mem_committed s k \<and> mem_committed s2 k = mem_committed s k)
    \<and> memGetObject env0 (m_tenant man) (m_bucket man) (m_key man) s2 = Inl ErrNotFound"
proof -
  note inv = reachable_store_inv [OF assms(1)]
  have c: "CommitObject memory_ops e i man s = (None, s1)" using assms(3) by (simp add: memory_ops_def)
  have d: "DeleteObject memory_ops e2 (m_tenant man) (m_bucket man) (m_key man) s1 = (Inr d, s2)"
    using assms(4) by (simp add: memory_ops_def)
  have good: "good_key (m_tenant man, m_bucket man, m_key man)"
    using assms(2) by (simp add: key_of_def)
  from mem.commit [OF inv assms(2) c] obtain m' where
    s1: "store_inv s1" "mem_committed s1 = (mem_committed s)(key_of man \<mapsto> m')" by auto
  from mem.delete [OF s1(1) good d] have
    s2: "store_inv s2" "mem_committed s2 = (mem_committed s1)(key_of man := None)"
    by (auto simp: key_of_def)
  then have "mem_committed s2 (m_tenant man, m_bucket man, m_key man) = None" by (simp add: key_of_def)
  then have "memGetObject env0 (m_tenant man) (m_bucket man) (m_key man) s2 = Inl ErrNotFound"
    using good by (simp add: mem_committed_def memGetObject_def)
  moreover have "\<forall>ev m. memGetObject ev (m_tenant man) (m_bucket man) (m_key man) s1 = Inr m \<longrightarrow> same_body man m"
    using mem.commit_then_get [OF inv assms(2) c] by (simp add: memory_ops_def)
  ultimately show ?thesis using s1 s2 by simp
qed

theorem commit_get_delete_witness:
  "\<exists>d s2. memDeleteObject env0 ''t'' ''b'' ''k'' store_a = (Inr d, s2)
     \<and> memGetObject env0 ''t'' ''b'' ''k'' s2 = Inl ErrNotFound"
proof -
  define p where "p = snd (memCreatePendingObject env0 man_a NewMemoryStore)"
  have "mem_fresh env0 man_a NewMemoryStore" by (simp add: mem_fresh_def NewMemoryStore_def)
  then have r: "mem_reachable p"
    unfolding p_def by (metis mem_reachable.intros mem_step.create prod.collapse)
  have "fst (memCommitObject env0 ''id'' man_a p) = None"
    by (simp add: p_def memCreatePendingObject_def memCommitObject_def NewMemoryStore_def man_a_def
        empty_manifest_def Let_def)
  then have c: "memCommitObject env0 ''id'' man_a p = (None, store_a)"
    by (metis p_def prod.collapse store_a_def)
  have man: "m_tenant man_a = ''t''" "m_bucket man_a = ''b''" "m_key man_a = ''k''"
    by (simp_all add: man_a_def)
  obtain d s2 where d: "memDeleteObject env0 ''t'' ''b'' ''k'' store_a = (Inr d, s2)"
    by (simp add: store_a_eq memDeleteObject_def Let_def lookup_or_def)
  from commit_get_delete [OF r good_key_a(1) c, unfolded man, OF d] d show ?thesis by blast
qed

text \<open>Tenants and buckets cannot be confused. For NUL-free tenant and bucket names, two
  index keys are equal only if tenant, bucket and object key are, so no request of one tenant
  reaches an object of another, whatever bytes the object key holds.\<close>

theorem objectKey_separates:
  assumes "nul_free t" "nul_free b" "nul_free t'" "nul_free b'"
  shows "objectKey t b k = objectKey t' b' k' \<longleftrightarrow> t = t' \<and> b = b' \<and> k = k'"
  using objectKey_inj [of t b k t' b' k'] assms by (auto simp: good_key_def)

theorem objectKey_separates_witness: "objectKey ''t'' ''ab'' ''c'' \<noteq> objectKey ''t'' ''a'' ''bc''"
  using objectKey_separates [of "''t''" "''ab''" "''t''" "''a''" "''c''" "''bc''"]
  by (simp add: nul_free_def)

text \<open>Forgetting is safe. \<open>ForgetBlocks\<close> removes the entries of exactly those requested
  blocks whose count is 0; every referenced block, every block not named and every other tenant
  keeps its entry.\<close>

theorem forget_only_unreferenced:
  "memForgetBlocks e t hs s = (r, s') \<Longrightarrow> r = None \<Longrightarrow>
     map_of (lookup_or [] (blocks s') t') h =
       (case map_of (lookup_or [] (blocks s) t') h of
          None \<Rightarrow> None
        | Some ref \<Rightarrow> if t' = t \<and> h \<in> set hs \<and> bc_refs ref = 0 then None else Some ref)"
  by (auto simp: memForgetBlocks_def map_of_forgetHashes lookup_or_def [of "[]" "blocks s" t]
      split: option.splits)

theorem forget_only_unreferenced_witness:
  "map_of (lookup_or [] (blocks (snd (memForgetBlocks env0 ''t'' [''a''] store_a))) ''t'') ''a'' \<noteq> None"
proof -
  have "memForgetBlocks env0 ''t'' [''a''] store_a = (None, snd (memForgetBlocks env0 ''t'' [''a''] store_a))"
    by (simp add: memForgetBlocks_def store_a_eq)
  from forget_only_unreferenced [OF this refl, of "''t''" "''a''"] show ?thesis
    by (simp add: store_a_eq lookup_or_def)
qed

end
