(* ===== verification/Chunker.thy ===== *)
theory Chunker
  imports GoLib
begin

text \<open>
  \<open>src/internal/chunker/chunker.go\<close>: the splitter that cuts an upload into chunks. Modelled are
  the normalisation of the options, the gear table, the small-file prefix, the builtin
  content-defined engine byte by byte, the wrapper around the third-party FastCDC engine (a
  parameter of the model) and the stream and split entry points. Readers are sequences of read
  results, and the \<open>emit\<close> callback is a state transformer that may fail.
\<close>

unbundle bit_operations_syntax

section \<open>Options and splitter\<close>

definition DefaultMinSize :: int where "DefaultMinSize = 512 * 1024"
definition DefaultAvgSize :: int where "DefaultAvgSize = 1024 * 1024"
definition DefaultMaxSize :: int where "DefaultMaxSize = 4 * 1024 * 1024"
definition DefaultSmallFileThreshold :: int where "DefaultSmallFileThreshold = 5 * 1024 * 1024"
definition EngineFastCDC :: string where "EngineFastCDC = ''fastcdc''"
definition EngineBuiltin :: string where "EngineBuiltin = ''builtin''"

record options =
  MinSize :: int
  AvgSize :: int
  MaxSize :: int
  SmallFileThreshold :: int
  Engine :: string

record chunk =
  Offset :: int
  Data :: bytes

record splitter =
  minSize :: int
  avgSize :: int
  maxSize :: int
  smallFileThreshold :: int
  engine :: string
  mask :: "64 word"

text \<open>
  \<open>nextPowerOfTwo\<close>: the loop doubles \<open>p\<close> in Go's 64-bit \<open>int\<close> until it reaches \<open>n\<close>. For
  \<open>n\<close> above \<open>2^62\<close> the shift runs through the sign bit to 0 and the loop never ends, so the
  loop is a partial function.
\<close>

partial_function (option) pow2Loop :: "int \<Rightarrow> int \<Rightarrow> int option" where
  "pow2Loop p n = (if p < n then pow2Loop (wrap64 (p * 2)) n else Some p)"

definition nextPowerOfTwo :: "int \<Rightarrow> int option" where
  "nextPowerOfTwo n = (if n \<le> 1 then Some 1 else pow2Loop 1 n)"

definition normalizeOptions :: "options \<Rightarrow> options" where
  "normalizeOptions o0 =
     (let o1 = (if MinSize o0 \<le> 0 then o0\<lparr>MinSize := DefaultMinSize\<rparr> else o0);
          o2 = (if AvgSize o1 \<le> 0 then o1\<lparr>AvgSize := DefaultAvgSize\<rparr> else o1);
          o3 = (if MaxSize o2 \<le> 0 then o2\<lparr>MaxSize := DefaultMaxSize\<rparr> else o2);
          o4 = (if SmallFileThreshold o3 < 0
                then o3\<lparr>SmallFileThreshold := DefaultSmallFileThreshold\<rparr> else o3);
          o5 = (if MinSize o4 > AvgSize o4 then o4\<lparr>AvgSize := MinSize o4\<rparr> else o4);
          o6 = (if AvgSize o5 > MaxSize o5 then o5\<lparr>MaxSize := AvgSize o5\<rparr> else o5);
          o7 = (if Engine o6 = '''' then o6\<lparr>Engine := EngineFastCDC\<rparr> else o6);
          o8 = (if Engine o7 \<noteq> EngineFastCDC \<and> Engine o7 \<noteq> EngineBuiltin
                then o7\<lparr>Engine := EngineFastCDC\<rparr> else o7)
      in o8)"

text \<open>\<open>New\<close> returns nothing exactly when computing the mask does not return.\<close>

definition New :: "options \<Rightarrow> splitter option" where
  "New o0 =
     (let opt = normalizeOptions o0
      in case nextPowerOfTwo (AvgSize opt) of
           None \<Rightarrow> None
         | Some p \<Rightarrow> Some \<lparr>minSize = MinSize opt, avgSize = AvgSize opt, maxSize = MaxSize opt,
             smallFileThreshold = SmallFileThreshold opt, engine = Engine opt,
             mask = word_of_int (p - 1)\<rparr>)"

section \<open>The gear table\<close>

definition gearStep :: "64 word \<Rightarrow> 64 word" where
  "gearStep seed =
     (let z0 = seed;
          z1 = (z0 XOR drop_bit 30 z0) * 0xbf58476d1ce4e5b9;
          z2 = (z1 XOR drop_bit 27 z1) * 0x94d049bb133111eb
      in z2 XOR drop_bit 31 z2)"

fun gearEntries :: "nat \<Rightarrow> 64 word \<Rightarrow> 64 word list" where
  "gearEntries 0 seed = []"
| "gearEntries (Suc n) seed =
     (let seed' = seed + 0x9e3779b97f4a7c15 in gearStep seed' # gearEntries n seed')"

definition buildGearTable :: "64 word list" where
  "buildGearTable = gearEntries 256 0x9e3779b97f4a7c15"

definition gearTable :: "byte \<Rightarrow> 64 word" where
  "gearTable b = buildGearTable ! unat b"

section \<open>Readers\<close>

text \<open>\<open>bytes.NewReader\<close>, read through the 32 KiB buffer of the callers.\<close>

function bytesReader :: "bytes \<Rightarrow> reader" where
  "bytesReader bs =
     (if bs = [] then [] else (take 32768 bs, NoErr) # bytesReader (drop 32768 bs))"
  by pat_completeness auto
termination by (relation "measure length") auto

declare bytesReader.simps [simp del]

text \<open>\<open>io.MultiReader\<close> of a byte reader and another reader.\<close>

definition multiReader :: "bytes \<Rightarrow> reader \<Rightarrow> reader" where
  "multiReader prefix rd = bytesReader prefix @ rd"

section \<open>The small-file prefix\<close>

text \<open>
  \<open>readSmallPrefix\<close> reads until the prefix is longer than the threshold or the stream ends.
  The third result is the reader with what is left to read.
\<close>

fun readSmallPrefix ::
  "env \<Rightarrow> nat \<Rightarrow> int \<Rightarrow> bytes \<Rightarrow> reader \<Rightarrow> err + (bytes \<times> bool \<times> reader)" where
  "readSmallPrefix e k threshold prefix rd =
     (case ctx_poll e k of
        Some x \<Rightarrow> Inl x
      | None \<Rightarrow>
          (case rd of
             [] \<Rightarrow> Inr (prefix, False, [])
           | (bs, st) # rs \<Rightarrow>
               (let prefix' = prefix @ bs
                in if bs \<noteq> [] \<and> int (length prefix') > threshold
                   then Inr (prefix', True,
                     (case st of NoErr \<Rightarrow> rs | EOF \<Rightarrow> [] | ReadErr x \<Rightarrow> ([], ReadErr x) # rs))
                   else (case st of
                           EOF \<Rightarrow> Inr (prefix', False, rs)
                         | ReadErr x \<Rightarrow> Inl (ErrWrap ''read stream'' x)
                         | NoErr \<Rightarrow> readSmallPrefix e (Suc k) threshold prefix' rs))))"

declare readSmallPrefix.simps [simp del]

definition readPrefix :: "env \<Rightarrow> splitter \<Rightarrow> reader \<Rightarrow> err + (bytes \<times> bool \<times> reader)" where
  "readPrefix e s rd =
     (if smallFileThreshold s > 0 then readSmallPrefix e 0 (smallFileThreshold s) [] rd
      else Inr ([], True, rd))"

section \<open>The builtin engine\<close>

text \<open>The \<open>emit\<close> callback transforms the caller's state \<open>'s\<close> and may fail. The environment
  handed to it names the place of the call.\<close>

type_synonym 's emitter = "'s \<Rightarrow> chunk \<Rightarrow> err option \<times> 's"

record 's streamProcessor =
  sp_offset :: int
  sp_current :: bytes
  sp_hash :: "64 word"
  sp_emitted :: bool
  sp_state :: 's

definition emitCurrent ::
  "env \<Rightarrow> 's emitter \<Rightarrow> 's streamProcessor \<Rightarrow> err option \<times> 's streamProcessor" where
  "emitCurrent e emit p =
     (case ctx_poll e 0 of
        Some x \<Rightarrow> (Some x, p)
      | None \<Rightarrow>
          (case emit (sp_state p) \<lparr>Offset = sp_offset p, Data = sp_current p\<rparr> of
             (Some x, st) \<Rightarrow> (Some x, p\<lparr>sp_state := st\<rparr>)
           | (None, st) \<Rightarrow>
               (None, p\<lparr>sp_offset := add64 (sp_offset p) (int (length (sp_current p))),
                  sp_current := [], sp_hash := 0, sp_emitted := True, sp_state := st\<rparr>)))"

fun spWrite ::
  "env \<Rightarrow> splitter \<Rightarrow> 's emitter \<Rightarrow> nat \<Rightarrow> bytes \<Rightarrow> 's streamProcessor
     \<Rightarrow> err option \<times> 's streamProcessor" where
  "spWrite e s emit i [] p = (None, p)"
| "spWrite e s emit i (b # bs) p =
     (case ctx_poll e i of
        Some x \<Rightarrow> (Some x, p)
      | None \<Rightarrow>
          (let p1 = p\<lparr>sp_current := sp_current p @ [b],
                      sp_hash := push_bit 1 (sp_hash p) + gearTable b\<rparr>;
               size = int (length (sp_current p1))
           in if size < minSize s then spWrite e s emit (Suc i) bs p1
              else if size \<ge> maxSize s \<or> sp_hash p1 AND mask s = 0
              then (case emitCurrent (call e i) emit p1 of
                      (Some x, p2) \<Rightarrow> (Some x, p2)
                    | (None, p2) \<Rightarrow> spWrite e s emit (Suc i) bs p2)
              else spWrite e s emit (Suc i) bs p1))"

definition spFlush ::
  "env \<Rightarrow> 's emitter \<Rightarrow> 's streamProcessor \<Rightarrow> err option \<times> 's streamProcessor" where
  "spFlush e emit p =
     (case ctx_poll e 0 of
        Some x \<Rightarrow> (Some x, p)
      | None \<Rightarrow>
          (if sp_current p = []
           then if sp_emitted p then (None, p)
                else (case emit (sp_state p) \<lparr>Offset = 0, Data = []\<rparr> of
                        (r, st) \<Rightarrow> (r, p\<lparr>sp_state := st\<rparr>))
           else emitCurrent (call e 1) emit p))"

text \<open>The read loop of \<open>streamBuiltin\<close>; round \<open>k\<close> polls the context, reads, and hands the
  bytes to the processor before it looks at the read's error.\<close>

fun builtinLoop ::
  "env \<Rightarrow> splitter \<Rightarrow> 's emitter \<Rightarrow> nat \<Rightarrow> reader \<Rightarrow> 's streamProcessor
     \<Rightarrow> err option \<times> 's streamProcessor" where
  "builtinLoop e s emit k [] p =
     (case ctx_poll e k of Some x \<Rightarrow> (Some x, p) | None \<Rightarrow> spFlush (call (call e k) 1) emit p)"
| "builtinLoop e s emit k ((bs, st) # rs) p =
     (case ctx_poll e k of
        Some x \<Rightarrow> (Some x, p)
      | None \<Rightarrow>
          (case (if bs \<noteq> [] then spWrite (call (call e k) 0) s emit 0 bs p else (None, p)) of
             (Some x, p1) \<Rightarrow> (Some x, p1)
           | (None, p1) \<Rightarrow>
               (case st of
                  EOF \<Rightarrow> spFlush (call (call e k) 1) emit p1
                | ReadErr x \<Rightarrow> (Some (ErrWrap ''read stream'' x), p1)
                | NoErr \<Rightarrow> builtinLoop e s emit (Suc k) rs p1)))"

definition startProcessor :: "'s \<Rightarrow> 's streamProcessor" where
  "startProcessor st = \<lparr>sp_offset = 0, sp_current = [], sp_hash = 0, sp_emitted = False,
     sp_state = st\<rparr>"

definition streamBuiltin ::
  "env \<Rightarrow> splitter \<Rightarrow> reader \<Rightarrow> 's emitter \<Rightarrow> 's \<Rightarrow> err option \<times> 's" where
  "streamBuiltin e s rd emit st =
     (case builtinLoop e s emit 0 rd (startProcessor st) of (r, p) \<Rightarrow> (r, sp_state p))"

section \<open>The FastCDC engine\<close>

text \<open>
  \<open>github.com/kalbasit/fastcdc\<close> is not part of the repository. Its constructor and the results
  of its successive \<open>Next\<close> calls are a parameter: for the three sizes and a reader, either a
  construction error or the chunks it returns and how it ends (end of file or an error).
\<close>

type_synonym fastcdc =
  "32 word \<Rightarrow> 32 word \<Rightarrow> 32 word \<Rightarrow> reader \<Rightarrow> err + (chunk list \<times> err option)"

text \<open>\<open>contextReader\<close>: the reader handed to FastCDC polls the context before and after every
  read; a cancelled context ends it with the context's error.\<close>

fun contextReader :: "env \<Rightarrow> nat \<Rightarrow> reader \<Rightarrow> reader" where
  "contextReader e k [] =
     (case ctx_poll e k of Some x \<Rightarrow> [([], ReadErr x)] | None \<Rightarrow> [])"
| "contextReader e k ((bs, st) # rs) =
     (case ctx_poll e k of
        Some x \<Rightarrow> [([], ReadErr x)]
      | None \<Rightarrow>
          (if st \<noteq> NoErr then [(bs, st)]
           else (case ctx_poll e (Suc k) of
                   Some x \<Rightarrow> [(bs, ReadErr x)]
                 | None \<Rightarrow> (bs, NoErr) # contextReader e (k + 2) rs)))"

fun fastcdcLoop ::
  "env \<Rightarrow> 's emitter \<Rightarrow> nat \<Rightarrow> bool \<Rightarrow> chunk list \<times> err option \<Rightarrow> 's \<Rightarrow> err option \<times> 's" where
  "fastcdcLoop e emit k emitted ([], fin) st =
     (case ctx_poll e k of
        Some x \<Rightarrow> (Some x, st)
      | None \<Rightarrow>
          (case fin of
             None \<Rightarrow> (if emitted then (None, st) else emit st \<lparr>Offset = 0, Data = []\<rparr>)
           | Some x \<Rightarrow> (Some (ErrWrap ''read fastcdc chunk'' x), st)))"
| "fastcdcLoop e emit k emitted (c # cs, fin) st =
     (case ctx_poll e k of
        Some x \<Rightarrow> (Some x, st)
      | None \<Rightarrow>
          (case emit st c of
             (Some x, st') \<Rightarrow> (Some x, st')
           | (None, st') \<Rightarrow> fastcdcLoop e emit (Suc k) True (cs, fin) st'))"

definition streamFastCDC ::
  "fastcdc \<Rightarrow> env \<Rightarrow> splitter \<Rightarrow> reader \<Rightarrow> 's emitter \<Rightarrow> 's \<Rightarrow> err option \<times> 's" where
  "streamFastCDC fc e s rd emit st =
     (case fc (word_of_int (minSize s)) (word_of_int (avgSize s)) (word_of_int (maxSize s))
            (contextReader (call e 0) 0 rd) of
        Inl x \<Rightarrow> (Some (ErrWrap ''create fastcdc chunker'' x), st)
      | Inr res \<Rightarrow> fastcdcLoop (call e 1) emit 0 False res st)"

section \<open>Stream and Split\<close>

definition Stream ::
  "fastcdc \<Rightarrow> env \<Rightarrow> splitter \<Rightarrow> reader \<Rightarrow> 's emitter option \<Rightarrow> 's \<Rightarrow> err option \<times> 's" where
  "Stream fc e s rd emit st =
     (case emit of
        None \<Rightarrow> (Some (ErrNew ''emit callback must not be nil''), st)
      | Some f \<Rightarrow>
          (case readPrefix (call e 0) s rd of
             Inl x \<Rightarrow> (Some x, st)
           | Inr (prefix, exceeded, rest) \<Rightarrow>
               if \<not> exceeded then f st \<lparr>Offset = 0, Data = prefix\<rparr>
               else (let rd' = multiReader prefix rest
                     in if engine s = EngineBuiltin then streamBuiltin (call e 1) s rd' f st
                        else streamFastCDC fc (call e 2) s rd' f st)))"

definition collectEmit :: "chunk list emitter" where
  "collectEmit cs c = (None, cs @ [c])"

definition Split :: "fastcdc \<Rightarrow> env \<Rightarrow> splitter \<Rightarrow> reader \<Rightarrow> err + chunk list" where
  "Split fc e s rd =
     (case Stream fc e s rd (Some collectEmit) [] of
        (Some x, _) \<Rightarrow> Inl x
      | (None, cs) \<Rightarrow> Inr cs)"


section \<open>Reference: the chunk boundaries as a function of the bytes\<close>

text \<open>
  What the engine computes, without readers, buffers, callbacks or cancellation: scan the bytes,
  cut where the code cuts. \<open>cdcScan\<close> returns the finished chunks and the open one.
\<close>

definition cutHere :: "splitter \<Rightarrow> bytes \<Rightarrow> 64 word \<Rightarrow> bool" where
  "cutHere s cur h \<longleftrightarrow>
     \<not> int (length cur) < minSize s \<and> (int (length cur) \<ge> maxSize s \<or> h AND mask s = 0)"

fun cdcScan :: "splitter \<Rightarrow> bytes \<Rightarrow> 64 word \<Rightarrow> bytes \<Rightarrow> bytes list \<times> bytes \<times> 64 word" where
  "cdcScan s cur h [] = ([], cur, h)"
| "cdcScan s cur h (b # bs) =
     (let cur' = cur @ [b]; h' = push_bit 1 h + gearTable b
      in if cutHere s cur' h'
         then (case cdcScan s [] 0 bs of (cs, r, hr) \<Rightarrow> (cur' # cs, r, hr))
         else cdcScan s cur' h' bs)"

definition closeScan :: "bool \<Rightarrow> bytes list \<Rightarrow> bytes \<Rightarrow> bytes list" where
  "closeScan emitted cs r =
     cs @ (if r \<noteq> [] then [r] else if emitted \<or> cs \<noteq> [] then [] else [[]])"

definition cdcChunks :: "splitter \<Rightarrow> bytes \<Rightarrow> bytes list" where
  "cdcChunks s bs = (case cdcScan s [] 0 bs of (cs, r, _) \<Rightarrow> closeScan False cs r)"

fun withOffsets :: "int \<Rightarrow> bytes list \<Rightarrow> chunk list" where
  "withOffsets off [] = []"
| "withOffsets off (d # ds) =
     \<lparr>Offset = off, Data = d\<rparr> # withOffsets (add64 off (int (length d))) ds"

fun offsetAfter :: "int \<Rightarrow> bytes list \<Rightarrow> int" where
  "offsetAfter off [] = off"
| "offsetAfter off (d # ds) = offsetAfter (add64 off (int (length d))) ds"

text \<open>Feeding a list of chunks to a callback until it fails.\<close>

fun emitAll :: "'s emitter \<Rightarrow> 's \<Rightarrow> chunk list \<Rightarrow> err option \<times> 's" where
  "emitAll f st [] = (None, st)"
| "emitAll f st (c # cs) =
     (case f st c of (Some x, st') \<Rightarrow> (Some x, st') | (None, st') \<Rightarrow> emitAll f st' cs)"

lemma emitAll_append:
  "emitAll f st (xs @ ys) =
     (case emitAll f st xs of (Some x, st') \<Rightarrow> (Some x, st') | (None, st') \<Rightarrow> emitAll f st' ys)"
  by (induction xs arbitrary: st) (auto split: option.splits prod.splits)

lemma withOffsets_append:
  "withOffsets off (xs @ ys) = withOffsets off xs @ withOffsets (offsetAfter off xs) ys"
  by (induction xs arbitrary: off) auto

lemma offsetAfter_append: "offsetAfter off (xs @ ys) = offsetAfter (offsetAfter off xs) ys"
  by (induction xs arbitrary: off) auto

lemma map_Data_withOffsets [simp]: "map Data (withOffsets off ds) = ds"
  by (induction ds arbitrary: off) auto

lemma emitAll_collect: "emitAll collectEmit cs xs = (None, cs @ xs)"
  by (induction xs arbitrary: cs) (auto simp: collectEmit_def)

lemma cdcScan_append:
  "cdcScan s cur h (xs @ ys) =
     (case cdcScan s cur h xs of (cs, r, h') \<Rightarrow>
        (case cdcScan s r h' ys of (cs', r', h'') \<Rightarrow> (cs @ cs', r', h'')))"
  by (induction xs arbitrary: cur h) (auto simp: Let_def split: prod.splits)

lemma cdcScan_concat: "cdcScan s cur h bs = (cs, r, h') \<Longrightarrow> concat cs @ r = cur @ bs"
proof (induction bs arbitrary: cur h cs)
  case (Cons b bs)
  show ?case
  proof (cases "cutHere s (cur @ [b]) (push_bit 1 h + gearTable b)")
    case True
    with Cons.prems obtain cs' where "cdcScan s [] 0 bs = (cs', r, h')" "cs = (cur @ [b]) # cs'"
      by (auto simp: Let_def split: prod.splits)
    with Cons.IH [of "[]" 0 cs'] show ?thesis by simp
  next
    case False
    with Cons.prems have "cdcScan s (cur @ [b]) (push_bit 1 h + gearTable b) bs = (cs, r, h')"
      by (simp add: Let_def)
    from Cons.IH [OF this] show ?thesis by simp
  qed
qed simp

lemma concat_closeScan [simp]: "concat (closeScan em cs r) = concat cs @ r"
  by (simp add: closeScan_def)

lemma cdcChunks_concat: "concat (cdcChunks s bs) = bs"
  by (auto simp: cdcChunks_def split: prod.splits dest: cdcScan_concat)

text \<open>Sizes: a finished chunk has at least the minimum size and at most the maximum, the open
  one is shorter than the maximum.\<close>

lemma cdcScan_sizes:
  assumes "cdcScan s cur h bs = (cs, r, h')" "int (length cur) < maxSize s" "minSize s \<le> maxSize s"
  shows "(\<forall>c \<in> set cs. minSize s \<le> int (length c) \<and> int (length c) \<le> maxSize s)
    \<and> int (length r) < maxSize s"
  using assms
proof (induction bs arbitrary: cur h cs)
  case (Cons b bs)
  show ?case
  proof (cases "cutHere s (cur @ [b]) (push_bit 1 h + gearTable b)")
    case True
    with Cons.prems obtain cs' where cs': "cdcScan s [] 0 bs = (cs', r, h')" "cs = (cur @ [b]) # cs'"
      by (auto simp: Let_def split: prod.splits)
    have "int (length ([] :: bytes)) < maxSize s" using Cons.prems(2) by simp
    from Cons.IH [OF cs'(1) this Cons.prems(3)] show ?thesis
      using True cs' Cons.prems(2) by (auto simp: cutHere_def)
  next
    case False
    with Cons.prems have "cdcScan s (cur @ [b]) (push_bit 1 h + gearTable b) bs = (cs, r, h')"
      by (simp add: Let_def)
    moreover have "int (length (cur @ [b])) < maxSize s"
      using False Cons.prems(2,3) by (auto simp: cutHere_def)
    ultimately show ?thesis using Cons.IH Cons.prems(3) by blast
  qed
qed auto

section \<open>The engine implements the reference\<close>

definition follows :: "'s streamProcessor \<Rightarrow> 's emitter \<Rightarrow> bytes list \<times> bytes \<times> 64 word
     \<Rightarrow> 's streamProcessor \<Rightarrow> bool" where
  "follows p f scan p' \<longleftrightarrow>
     (case scan of (cs, r, h) \<Rightarrow>
        emitAll f (sp_state p) (withOffsets (sp_offset p) cs) = (None, sp_state p')
        \<and> sp_current p' = r \<and> sp_hash p' = h \<and> sp_offset p' = offsetAfter (sp_offset p) cs
        \<and> sp_emitted p' = (sp_emitted p \<or> cs \<noteq> []))"

lemma emitCurrent_None:
  assumes "emitCurrent e f p = (None, p')"
  shows "f (sp_state p) \<lparr>Offset = sp_offset p, Data = sp_current p\<rparr> = (None, sp_state p')"
    "sp_offset p' = add64 (sp_offset p) (int (length (sp_current p)))" "sp_current p' = []"
    "sp_hash p' = 0" "sp_emitted p'"
  using assms by (auto simp: emitCurrent_def split: option.splits prod.splits)

lemma emitCurrent_Some:
  assumes "emitCurrent e f p = (Some x, p')" "quiet e"
  shows "f (sp_state p) \<lparr>Offset = sp_offset p, Data = sp_current p\<rparr> = (Some x, sp_state p')"
  using assms by (auto simp: emitCurrent_def split: option.splits prod.splits)

lemma spWrite_step:
  "spWrite e s f i (b # bs) p =
     (case ctx_poll e i of
        Some x \<Rightarrow> (Some x, p)
      | None \<Rightarrow>
          (let p1 = p\<lparr>sp_current := sp_current p @ [b],
                      sp_hash := push_bit 1 (sp_hash p) + gearTable b\<rparr>
           in if cutHere s (sp_current p1) (sp_hash p1)
              then (case emitCurrent (call e i) f p1 of
                      (Some x, p2) \<Rightarrow> (Some x, p2)
                    | (None, p2) \<Rightarrow> spWrite e s f (Suc i) bs p2)
              else spWrite e s f (Suc i) bs p1))"
  by (simp add: Let_def cutHere_def split: option.split)

lemmas [simp del] = spWrite.simps(2)

lemma spWrite_None:
  "spWrite e s f i bs p = (None, p') \<Longrightarrow>
     follows p f (cdcScan s (sp_current p) (sp_hash p) bs) p'"
proof (induction bs arbitrary: i p)
  case Nil
  then show ?case by (simp add: follows_def)
next
  case (Cons b bs)
  define p1 where "p1 = p\<lparr>sp_current := sp_current p @ [b],
                      sp_hash := push_bit 1 (sp_hash p) + gearTable b\<rparr>"
  have p1: "sp_state p1 = sp_state p" "sp_offset p1 = sp_offset p" "sp_emitted p1 = sp_emitted p"
    "sp_current p1 = sp_current p @ [b]" "sp_hash p1 = push_bit 1 (sp_hash p) + gearTable b"
    by (simp_all add: p1_def)
  show ?case
  proof (cases "cutHere s (sp_current p1) (sp_hash p1)")
    case True
    with Cons.prems obtain p2 where p2: "emitCurrent (call e i) f p1 = (None, p2)"
      and rest: "spWrite e s f (Suc i) bs p2 = (None, p')"
      by (auto simp: spWrite_step Let_def p1_def split: option.splits prod.splits)
    from Cons.IH [OF rest] emitCurrent_None [OF p2] True show ?thesis
      by (auto simp: follows_def p1 Let_def split: prod.splits)
  next
    case False
    with Cons.prems have "spWrite e s f (Suc i) bs p1 = (None, p')"
      by (auto simp: spWrite_step Let_def p1_def split: option.splits)
    from Cons.IH [OF this] False show ?thesis
      by (auto simp: follows_def p1 Let_def split: prod.splits)
  qed
qed

lemma spWrite_Some:
  assumes "quiet e"
  shows "spWrite e s f i bs p = (Some x, p') \<Longrightarrow>
     emitAll f (sp_state p) (withOffsets (sp_offset p)
       (fst (cdcScan s (sp_current p) (sp_hash p) bs))) = (Some x, sp_state p')"
proof (induction bs arbitrary: i p)
  case Nil
  then show ?case by simp
next
  case (Cons b bs)
  define p1 where "p1 = p\<lparr>sp_current := sp_current p @ [b],
                      sp_hash := push_bit 1 (sp_hash p) + gearTable b\<rparr>"
  have p1: "sp_state p1 = sp_state p" "sp_offset p1 = sp_offset p"
    "sp_current p1 = sp_current p @ [b]" "sp_hash p1 = push_bit 1 (sp_hash p) + gearTable b"
    by (simp_all add: p1_def)
  show ?case
  proof (cases "cutHere s (sp_current p1) (sp_hash p1)")
    case True
    show ?thesis
    proof (cases "emitCurrent (call e i) f p1")
      case (Pair r p2)
      show ?thesis
      proof (cases r)
        case None
        with True Pair Cons.prems assms have "spWrite e s f (Suc i) bs p2 = (Some x, p')"
          by (auto simp: spWrite_step Let_def p1_def)
        from Cons.IH [OF this] emitCurrent_None [OF Pair [unfolded None]] True show ?thesis
          by (auto simp: p1 Let_def split: prod.splits)
      next
        case (Some y)
        with True Pair Cons.prems assms have "y = x" "p2 = p'"
          by (auto simp: spWrite_step Let_def p1_def)
        with emitCurrent_Some [OF Pair [unfolded Some]] True assms show ?thesis
          by (auto simp: p1 Let_def split: prod.splits)
      qed
    qed
  next
    case False
    with Cons.prems assms have "spWrite e s f (Suc i) bs p1 = (Some x, p')"
      by (auto simp: spWrite_step Let_def p1_def)
    from Cons.IH [OF this] False show ?thesis
      by (auto simp: p1 Let_def)
  qed
qed

lemma closeScan_append:
  "closeScan em (cs @ cs') r = cs @ closeScan (em \<or> cs \<noteq> []) cs' r"
  by (simp add: closeScan_def)

lemma emitAll_single: "emitAll f st [c] = f st c"
  by (auto split: option.splits prod.splits)

lemma spFlush_None:
  assumes "spFlush e f p = (None, p')" "sp_emitted p \<or> sp_offset p = 0"
  shows "emitAll f (sp_state p) (withOffsets (sp_offset p) (closeScan (sp_emitted p) [] (sp_current p)))
    = (None, sp_state p')"
  using assms
  by (auto simp: spFlush_def closeScan_def split: option.splits if_splits prod.splits
      dest!: emitCurrent_None(1))

lemma spFlush_Some:
  assumes "spFlush e f p = (Some x, p')" "sp_emitted p \<or> sp_offset p = 0" "quiet e"
  shows "emitAll f (sp_state p) (withOffsets (sp_offset p) (closeScan (sp_emitted p) [] (sp_current p)))
    = (Some x, sp_state p')"
  using assms
  by (auto simp: spFlush_def closeScan_def split: option.splits if_splits prod.splits
      dest!: emitCurrent_Some)

text \<open>The chunks still to come from processor state \<open>p\<close> when the bytes \<open>bs\<close> are left.\<close>

definition pending :: "splitter \<Rightarrow> 's streamProcessor \<Rightarrow> bytes \<Rightarrow> chunk list" where
  "pending s p bs =
     (case cdcScan s (sp_current p) (sp_hash p) bs of
        (cs, r, h) \<Rightarrow> withOffsets (sp_offset p) (closeScan (sp_emitted p) cs r))"

lemma pending_Nil:
  "pending s p [] = withOffsets (sp_offset p) (closeScan (sp_emitted p) [] (sp_current p))"
  by (simp add: pending_def)

lemma pending_append:
  assumes "follows p f (cdcScan s (sp_current p) (sp_hash p) bs) p1"
  shows "emitAll f (sp_state p) (pending s p (bs @ bs')) = emitAll f (sp_state p1) (pending s p1 bs')"
  using assms
  by (auto simp: follows_def pending_def cdcScan_append closeScan_append withOffsets_append
      emitAll_append split: prod.splits)

lemma pending_append_fail:
  assumes "emitAll f (sp_state p) (withOffsets (sp_offset p)
       (fst (cdcScan s (sp_current p) (sp_hash p) bs))) = (Some x, st)"
  shows "emitAll f (sp_state p) (pending s p (bs @ bs')) = (Some x, st)"
  using assms
  by (auto simp: pending_def cdcScan_append closeScan_append withOffsets_append
      emitAll_append split: prod.splits)

lemma follows_offset:
  assumes "follows p f scan p1" "sp_emitted p \<or> sp_offset p = 0"
  shows "sp_emitted p1 \<or> sp_offset p1 = 0"
  using assms by (cases scan; cases "fst scan") (auto simp: follows_def)

lemma write_segment_None:
  assumes "(if bs \<noteq> [] then spWrite e s f 0 bs p else (None, p)) = (None, p1)"
  shows "follows p f (cdcScan s (sp_current p) (sp_hash p) bs) p1"
  using assms by (cases bs) (auto simp: follows_def dest: spWrite_None)

lemma write_segment_Some:
  assumes "(if bs \<noteq> [] then spWrite e s f 0 bs p else (None, p)) = (Some x, p1)" "quiet e"
  shows "emitAll f (sp_state p) (withOffsets (sp_offset p)
       (fst (cdcScan s (sp_current p) (sp_hash p) bs))) = (Some x, sp_state p1)"
  using assms by (auto split: if_splits dest: spWrite_Some)

lemma builtinLoop_None:
  "builtinLoop e s f k rd p = (None, p') \<Longrightarrow> sp_emitted p \<or> sp_offset p = 0 \<Longrightarrow>
     reader_err rd = None \<and> emitAll f (sp_state p) (pending s p (content rd)) = (None, sp_state p')"
proof (induction rd arbitrary: k p)
  case Nil
  then show ?case
    by (auto simp: pending_Nil split: option.splits dest: spFlush_None)
next
  case (Cons r rs)
  obtain bs st where r: "r = (bs, st)" by (cases r)
  from Cons.prems(1) obtain p1 where
    w: "(if bs \<noteq> [] then spWrite (call (call e k) 0) s f 0 bs p else (None, p)) = (None, p1)"
    and rest: "(case st of EOF \<Rightarrow> spFlush (call (call e k) 1) f p1
                | ReadErr x \<Rightarrow> (Some (ErrWrap ''read stream'' x), p1)
                | NoErr \<Rightarrow> builtinLoop e s f (Suc k) rs p1) = (None, p')"
    unfolding r by (simp split: option.splits prod.splits)
  note fo = write_segment_None [OF w]
  note off = follows_offset [OF fo Cons.prems(2)]
  show ?case
  proof (cases st)
    case NoErr
    with rest have "builtinLoop e s f (Suc k) rs p1 = (None, p')" by simp
    from Cons.IH [OF this off] show ?thesis
      by (simp add: r NoErr pending_append [OF fo])
  next
    case EOF
    with rest off show ?thesis
      using pending_append [OF fo, of "[]"] spFlush_None by (fastforce simp: r EOF pending_Nil)
  next
    case (ReadErr x)
    with rest show ?thesis by simp
  qed
qed

lemma builtinLoop_Some:
  assumes "quiet e"
  shows "builtinLoop e s f k rd p = (Some x, p') \<Longrightarrow> sp_emitted p \<or> sp_offset p = 0 \<Longrightarrow>
     reader_err rd = None \<Longrightarrow> emitAll f (sp_state p) (pending s p (content rd)) = (Some x, sp_state p')"
proof (induction rd arbitrary: k p)
  case Nil
  with assms show ?case
    by (auto simp: pending_Nil split: option.splits dest: spFlush_Some)
next
  case (Cons r rs)
  obtain bs st where r: "r = (bs, st)" by (cases r)
  obtain w p1 where
    w: "(if bs \<noteq> [] then spWrite (call (call e k) 0) s f 0 bs p else (None, p)) = (w, p1)"
    by (meson surj_pair)
  show ?case
  proof (cases w)
    case (Some y)
    with Cons.prems(1) assms w have "y = x" "p1 = p'" unfolding r by (auto split: if_splits)
    with write_segment_Some [OF w [unfolded Some]] assms show ?thesis
      by (simp add: r pending_append_fail)
  next
    case None
    note fo = write_segment_None [OF w [unfolded None]]
    note off = follows_offset [OF fo Cons.prems(2)]
    from Cons.prems(1) assms w None have rest: "(case st of EOF \<Rightarrow> spFlush (call (call e k) 1) f p1
                | ReadErr x \<Rightarrow> (Some (ErrWrap ''read stream'' x), p1)
                | NoErr \<Rightarrow> builtinLoop e s f (Suc k) rs p1) = (Some x, p')"
      unfolding r by (auto split: if_splits)
    show ?thesis
    proof (cases st)
      case NoErr
      with rest have "builtinLoop e s f (Suc k) rs p1 = (Some x, p')" by simp
      from Cons.IH [OF this off] Cons.prems(3) show ?thesis
        by (simp add: r NoErr pending_append [OF fo])
    next
      case EOF
      with rest off assms show ?thesis
        using pending_append [OF fo, of "[]"] spFlush_Some by (fastforce simp: r EOF pending_Nil)
    next
      case (ReadErr y)
      with Cons.prems(3) show ?thesis by (simp add: r)
    qed
  qed
qed

lemma pending_start: "pending s (startProcessor st) bs = withOffsets 0 (cdcChunks s bs)"
  by (auto simp: pending_def startProcessor_def cdcChunks_def split: prod.splits)

lemma streamBuiltin_None:
  assumes "streamBuiltin e s rd f st = (None, st')"
  shows "reader_err rd = None" "emitAll f st (withOffsets 0 (cdcChunks s (content rd))) = (None, st')"
proof -
  obtain p where "builtinLoop e s f 0 rd (startProcessor st) = (None, p)" "st' = sp_state p"
    using assms by (auto simp: streamBuiltin_def split: prod.splits)
  from builtinLoop_None [OF this(1)] this(2)
  show "reader_err rd = None" "emitAll f st (withOffsets 0 (cdcChunks s (content rd))) = (None, st')"
    unfolding pending_start by (simp_all add: startProcessor_def)
qed

lemma streamBuiltin_quiet:
  assumes "quiet e" "reader_err rd = None"
  shows "streamBuiltin e s rd f st = emitAll f st (withOffsets 0 (cdcChunks s (content rd)))"
proof (cases "builtinLoop e s f 0 rd (startProcessor st)")
  case (Pair r p)
  show ?thesis
  proof (cases r)
    case None
    with Pair have "streamBuiltin e s rd f st = (None, sp_state p)" by (simp add: streamBuiltin_def)
    with streamBuiltin_None(2) [OF this] show ?thesis by simp
  next
    case (Some x)
    from builtinLoop_Some [OF assms(1) Pair [unfolded Some] _ assms(2)] Pair Some show ?thesis
      unfolding pending_start by (simp add: streamBuiltin_def startProcessor_def)
  qed
qed

section \<open>Engines behind one contract\<close>

text \<open>
  What \<open>Stream\<close> relies on in either engine: a run that reports no error has read the reader
  to its end and has handed the callback the cuts of the content, in order and with their
  offsets; the cuts partition the content.
\<close>

locale chunk_engine =
  fixes run :: "env \<Rightarrow> reader \<Rightarrow> 's emitter \<Rightarrow> 's \<Rightarrow> err option \<times> 's"
    and cuts :: "bytes \<Rightarrow> bytes list"
  assumes run_ok: "run e rd f st = (None, st') \<Longrightarrow>
      reader_err rd = None \<and> emitAll f st (withOffsets 0 (cuts (content rd))) = (None, st')"
    and cuts_concat: "concat (cuts bs) = bs"
begin

lemma run_collect:
  assumes "run e rd f st = (None, st')" "f = (\<lambda>st c. (None, g st c))"
  shows "st' = foldl g st (withOffsets 0 (cuts (content rd)))"
proof -
  have *: "emitAll f st cs = (None, foldl g st cs)" for st cs
    by (induction cs arbitrary: st) (auto simp: assms(2))
  from run_ok [OF assms(1)] show ?thesis by (simp add: *)
qed

lemma length_cuts: "length (concat (cuts (content rd))) = length (content rd)"
  by (simp add: cuts_concat)

end

interpretation builtin: chunk_engine "\<lambda>e rd f st. streamBuiltin e s rd f st" "cdcChunks s"
  by unfold_locales (auto simp: cdcChunks_concat dest: streamBuiltin_None)

text \<open>
  The documented behaviour of the FastCDC library: when its \<open>Next\<close> calls end with end of file,
  the reader ended without an error and the chunks, with their offsets, are a partition of the
  stream that depends on the sizes and the bytes only.
\<close>

locale fastcdc_library =
  fixes fc :: fastcdc
    and fcuts :: "32 word \<Rightarrow> 32 word \<Rightarrow> 32 word \<Rightarrow> bytes \<Rightarrow> bytes list"
  assumes next_ok: "fc mn av mx rd = Inr (cs, None) \<Longrightarrow>
      reader_err rd = None \<and> cs = withOffsets 0 (fcuts mn av mx (content rd))"
    and fcuts_concat: "concat (fcuts mn av mx bs) = bs"

definition fastCuts ::
  "(32 word \<Rightarrow> 32 word \<Rightarrow> 32 word \<Rightarrow> bytes \<Rightarrow> bytes list) \<Rightarrow> splitter \<Rightarrow> bytes \<Rightarrow> bytes list" where
  "fastCuts fcuts s bs =
     (let ds = fcuts (word_of_int (minSize s)) (word_of_int (avgSize s)) (word_of_int (maxSize s)) bs
      in if ds = [] then [[]] else ds)"

lemma contextReader_ok:
  "reader_err (contextReader e k rd) = None \<Longrightarrow>
     reader_err rd = None \<and> content (contextReader e k rd) = content rd"
proof (induction e k rd rule: contextReader.induct)
  case (2 e k bs st rs)
  then show ?case by (cases st) (auto split: option.splits if_splits)
qed (auto split: option.splits)

lemma fastcdcLoop_None:
  assumes "fastcdcLoop e f k em (cs, fin) st = (None, st')"
  shows "fin = None" "emitAll f st (cs @ (if cs = [] \<and> \<not> em then [\<lparr>Offset = 0, Data = []\<rparr>] else []))
    = (None, st')"
proof -
  have "fin = None \<and> emitAll f st (cs @ (if cs = [] \<and> \<not> em then [\<lparr>Offset = 0, Data = []\<rparr>] else []))
    = (None, st')"
    using assms
  proof (induction cs arbitrary: k em st)
    case Nil
    then show ?case by (auto split: option.splits if_splits prod.splits)
  next
    case (Cons c cs)
    from Cons.prems obtain st1 where "f st c = (None, st1)"
      "fastcdcLoop e f (Suc k) True (cs, fin) st1 = (None, st')"
      by (auto split: option.splits prod.splits)
    with Cons.IH [OF this(2)] show ?case by simp
  qed
  then show "fin = None" "emitAll f st (cs @ (if cs = [] \<and> \<not> em then [\<lparr>Offset = 0, Data = []\<rparr>] else []))
    = (None, st')" by simp_all
qed

lemma withOffsets_eq_Nil [simp]: "withOffsets off ds = [] \<longleftrightarrow> ds = []"
  by (cases ds) auto

context fastcdc_library
begin

lemma streamFastCDC_None:
  assumes "streamFastCDC fc e s rd f st = (None, st')"
  shows "reader_err rd = None \<and> emitAll f st (withOffsets 0 (fastCuts fcuts s (content rd))) = (None, st')"
proof -
  let ?rd = "contextReader (call e 0) 0 rd"
  from assms obtain cs fin where
    fc: "fc (word_of_int (minSize s)) (word_of_int (avgSize s)) (word_of_int (maxSize s)) ?rd
           = Inr (cs, fin)"
    and loop: "fastcdcLoop (call e 1) f 0 False (cs, fin) st = (None, st')"
    by (auto simp: streamFastCDC_def split: sum.splits)
  from fastcdcLoop_None [OF loop] have fin: "fin = None"
    and emits: "emitAll f st (cs @ (if cs = [] then [\<lparr>Offset = 0, Data = []\<rparr>] else [])) = (None, st')"
    by simp_all
  from next_ok [OF fc [unfolded fin]] contextReader_ok have
    "reader_err rd = None" and cs: "cs = withOffsets 0 (fcuts (word_of_int (minSize s))
       (word_of_int (avgSize s)) (word_of_int (maxSize s)) (content rd))"
    by force+
  moreover have "emitAll f st (withOffsets 0 (fastCuts fcuts s (content rd))) = (None, st')"
    using emits by (simp add: cs fastCuts_def Let_def split: if_splits)
  ultimately show ?thesis by simp
qed

lemma fastCuts_concat: "concat (fastCuts fcuts s bs) = bs"
proof -
  have "concat (fcuts (word_of_int (minSize s)) (word_of_int (avgSize s)) (word_of_int (maxSize s)) bs) = bs"
    by (rule fcuts_concat)
  then show ?thesis by (auto simp: fastCuts_def Let_def)
qed

end

sublocale fastcdc_library \<subseteq> fast: chunk_engine
  "\<lambda>e rd f st. streamFastCDC fc e s rd f st" "fastCuts fcuts s" for s
  by unfold_locales (auto simp: fastCuts_concat dest: streamFastCDC_None)

text \<open>The repository ships an implementation of that contract itself: the builtin engine, run
  with the sizes the library would be given.\<close>

definition builtinSizes :: "32 word \<Rightarrow> 32 word \<Rightarrow> 32 word \<Rightarrow> splitter" where
  "builtinSizes mn av mx = \<lparr>minSize = uint mn, avgSize = uint av, maxSize = uint mx,
     smallFileThreshold = 0, engine = EngineBuiltin, mask = ucast av - 1\<rparr>"

definition builtinAsLibrary :: fastcdc where
  "builtinAsLibrary mn av mx rd =
     (case streamBuiltin env0 (builtinSizes mn av mx) rd collectEmit [] of
        (None, cs) \<Rightarrow> Inr (cs, None) | (Some x, cs) \<Rightarrow> Inr (cs, Some x))"

interpretation fallback: fastcdc_library builtinAsLibrary
  "\<lambda>mn av mx. cdcChunks (builtinSizes mn av mx)"
proof unfold_locales
  fix mn av mx :: "32 word" and rd cs
  assume "builtinAsLibrary mn av mx rd = Inr (cs, None)"
  then have "streamBuiltin env0 (builtinSizes mn av mx) rd collectEmit [] = (None, cs)"
    by (auto simp: builtinAsLibrary_def split: prod.splits option.splits)
  from builtin.run_ok [OF this] show "reader_err rd = None \<and>
      cs = withOffsets 0 (cdcChunks (builtinSizes mn av mx) (content rd))"
    by (simp add: emitAll_collect)
qed (rule cdcChunks_concat)

section \<open>Stream and Split against the reference\<close>

lemma bytesReader_content [simp]:
  "content (bytesReader bs @ rd) = bs @ content rd"
  "reader_err (bytesReader bs @ rd) = reader_err rd"
proof (induction bs rule: bytesReader.induct)
  case (1 bs)
  {
    case 1
    then show ?case using "1.IH" by (subst bytesReader.simps) (auto simp flip: append_assoc)
  next
    case 2
    then show ?case using "1.IH" by (subst bytesReader.simps) auto
  }
qed

lemma readSmallPrefix_Inr:
  "readSmallPrefix e k thr prefix rd = Inr (p', ex, rest) \<Longrightarrow> int (length prefix) \<le> thr \<Longrightarrow>
     p' @ (if ex then content rest else []) = prefix @ content rd
     \<and> reader_err rd = (if ex then reader_err rest else None)
     \<and> (ex \<longleftrightarrow> thr < int (length (prefix @ content rd)))"
proof (induction rd arbitrary: k prefix)
  case Nil
  then show ?case by (auto simp: readSmallPrefix.simps split: option.splits)
next
  case (Cons r rs)
  obtain bs st where r: "r = (bs, st)" by (cases r)
  show ?case
  proof (cases "bs \<noteq> [] \<and> int (length (prefix @ bs)) > thr")
    case True
    with Cons.prems(1) show ?thesis
      by (subst (asm) readSmallPrefix.simps)
         (auto simp: r Let_def split: option.splits read_status.splits)
  next
    case False
    with Cons.prems(2) have len: "int (length (prefix @ bs)) \<le> thr" by auto
    show ?thesis
    proof (cases st)
      case NoErr
      with False Cons.prems(1) have "readSmallPrefix e (Suc k) thr (prefix @ bs) rs = Inr (p', ex, rest)"
        by (subst (asm) readSmallPrefix.simps) (auto simp: r Let_def split: option.splits if_splits)
      from Cons.IH [OF this len] show ?thesis by (auto simp: r NoErr)
    next
      case EOF
      with False Cons.prems(1) len show ?thesis
        by (subst (asm) readSmallPrefix.simps) (auto simp: r Let_def split: option.splits if_splits)
    next
      case (ReadErr x)
      with False Cons.prems(1) show ?thesis
        by (subst (asm) readSmallPrefix.simps) (auto simp: r Let_def split: option.splits if_splits)
    qed
  qed
qed

text \<open>The cuts of a whole upload: one chunk up to the threshold, the engine's cuts above it.\<close>

definition engineCuts ::
  "(32 word \<Rightarrow> 32 word \<Rightarrow> 32 word \<Rightarrow> bytes \<Rightarrow> bytes list) \<Rightarrow> splitter \<Rightarrow> bytes \<Rightarrow> bytes list" where
  "engineCuts fcuts s bs =
     (if engine s = EngineBuiltin then cdcChunks s bs else fastCuts fcuts s bs)"

definition streamCuts ::
  "(32 word \<Rightarrow> 32 word \<Rightarrow> 32 word \<Rightarrow> bytes \<Rightarrow> bytes list) \<Rightarrow> splitter \<Rightarrow> bytes \<Rightarrow> bytes list" where
  "streamCuts fcuts s bs =
     (if 0 < smallFileThreshold s \<and> int (length bs) \<le> smallFileThreshold s then [bs]
      else engineCuts fcuts s bs)"

lemma readPrefix_Inr:
  assumes "readPrefix e s rd = Inr (p, ex, rest)"
  shows "p @ (if ex then content rest else []) = content rd
     \<and> reader_err rd = (if ex then reader_err rest else None)
     \<and> (ex \<longleftrightarrow> \<not> (0 < smallFileThreshold s \<and> int (length (content rd)) \<le> smallFileThreshold s))"
  using assms readSmallPrefix_Inr [of e 0 "smallFileThreshold s" "[]" rd p ex rest]
  by (auto simp: readPrefix_def split: if_splits)

context fastcdc_library
begin

lemma engineCuts_concat: "concat (engineCuts fcuts s bs) = bs"
  by (simp add: engineCuts_def cdcChunks_concat fastCuts_concat)

lemma streamCuts_concat: "concat (streamCuts fcuts s bs) = bs"
  by (simp add: streamCuts_def engineCuts_concat)

lemma Stream_ok:
  assumes "Stream fc e s rd (Some f) st = (None, st')"
  shows "reader_err rd = None \<and> emitAll f st (withOffsets 0 (streamCuts fcuts s (content rd))) = (None, st')"
proof -
  from assms obtain p ex rest where rp: "readPrefix (call e 0) s rd = Inr (p, ex, rest)"
    by (auto simp: Stream_def split: sum.splits)
  note pre = readPrefix_Inr [OF rp]
  show ?thesis
  proof (cases ex)
    case False
    with assms rp pre show ?thesis
      by (auto simp: Stream_def streamCuts_def)
  next
    case True
    let ?rd = "multiReader p rest"
    have rd: "content ?rd = content rd" "reader_err ?rd = reader_err rd"
      using pre True by (simp_all add: multiReader_def)
    show ?thesis
    proof (cases "engine s = EngineBuiltin")
      case True
      with assms rp \<open>ex\<close> have "streamBuiltin (call e 1) s ?rd f st = (None, st')"
        by (simp add: Stream_def Let_def)
      from builtin.run_ok [OF this] rd pre \<open>ex\<close> True show ?thesis
        by (auto simp: streamCuts_def engineCuts_def)
    next
      case False
      with assms rp \<open>ex\<close> have "streamFastCDC fc (call e 2) s ?rd f st = (None, st')"
        by (simp add: Stream_def Let_def)
      from fast.run_ok [OF this] rd pre \<open>ex\<close> False show ?thesis
        by (auto simp: streamCuts_def engineCuts_def)
    qed
  qed
qed

lemma Split_ok:
  assumes "Split fc e s rd = Inr cs"
  shows "cs = withOffsets 0 (streamCuts fcuts s (content rd)) \<and> concat (map Data cs) = content rd"
proof -
  from assms have "Stream fc e s rd (Some collectEmit) [] = (None, cs)"
    by (auto simp: Split_def split: prod.splits option.splits)
  from Stream_ok [OF this] show ?thesis by (auto simp: emitAll_collect streamCuts_concat)
qed

end

section \<open>Without faults the stream equals its reference\<close>

lemma readSmallPrefix_quiet:
  assumes "quiet e"
  shows "reader_err rd = None \<Longrightarrow> readSmallPrefix e k thr prefix rd \<noteq> Inl x"
proof (induction rd arbitrary: k prefix)
  case Nil
  with assms show ?case by (simp add: readSmallPrefix.simps)
next
  case (Cons r rs)
  obtain bs st where r: "r = (bs, st)" by (cases r)
  with Cons assms show ?case
    by (subst readSmallPrefix.simps) (cases st; simp add: Let_def)
qed

lemma readPrefix_quiet:
  assumes "quiet e" "reader_err rd = None"
  shows "\<exists>p ex rest. readPrefix e s rd = Inr (p, ex, rest)"
  using readSmallPrefix_quiet [OF assms]
  by (cases "readSmallPrefix e 0 (smallFileThreshold s) [] rd") (auto simp: readPrefix_def)

lemma Stream_quiet:
  assumes "quiet e" "reader_err rd = None" "engine s = EngineBuiltin"
  shows "Stream fc e s rd (Some f) st = emitAll f st (withOffsets 0 (streamCuts fcuts s (content rd)))"
proof -
  have "quiet (call e 0)" using assms(1) by simp
  from readPrefix_quiet [OF this assms(2)] obtain p ex rest where
    rp: "readPrefix (call e 0) s rd = Inr (p, ex, rest)" by blast
  note pre = readPrefix_Inr [OF rp]
  show ?thesis
  proof (cases ex)
    case False
    with rp pre show ?thesis
      by (auto simp: Stream_def streamCuts_def emitAll_single simp del: emitAll.simps(2))
  next
    case True
    have rd: "content (multiReader p rest) = content rd" "reader_err (multiReader p rest) = None"
      using pre True assms(2) by (simp_all add: multiReader_def)
    have "Stream fc e s rd (Some f) st = streamBuiltin (call e 1) s (multiReader p rest) f st"
      using rp True assms(3) by (simp add: Stream_def Let_def)
    also have "\<dots> = emitAll f st (withOffsets 0 (cdcChunks s (content rd)))"
      by (subst streamBuiltin_quiet) (simp_all add: assms(1) rd)
    finally show ?thesis
      using pre True assms(3) by (auto simp: streamCuts_def engineCuts_def)
  qed
qed

lemma Split_quiet:
  assumes "quiet e" "reader_err rd = None" "engine s = EngineBuiltin"
  shows "Split fc e s rd = Inr (withOffsets 0 (streamCuts fcuts s (content rd)))"
  using Stream_quiet [OF assms, of fc collectEmit "[]" fcuts]
  by (simp add: Split_def emitAll_collect)

section \<open>Options: powers of two and normalisation\<close>

lemma pow2Loop_step:
  "p < n \<Longrightarrow> in_int64 (p * 2) \<Longrightarrow> pow2Loop p n = pow2Loop (p * 2) n"
  by (subst pow2Loop.simps) (simp add: wrap64_id)

lemma pow2Loop_done: "n \<le> p \<Longrightarrow> pow2Loop p n = Some p"
  by (subst pow2Loop.simps) simp

lemma power_in_int64: "k \<le> 62 \<Longrightarrow> in_int64 (2 ^ k)"
proof -
  assume "k \<le> 62"
  then have "(2 :: int) ^ k \<le> 2 ^ 62" by (intro power_increasing) auto
  moreover have "- 9223372036854775808 \<le> (2 :: int) ^ k"
    by (rule order_trans [of _ 0]) simp_all
  ultimately show ?thesis by (simp add: in_int64_def min_int64_def max_int64_def)
qed

lemma pow2Loop_power:
  assumes "n \<le> 2 ^ 62"
  shows "k \<le> 62 \<Longrightarrow> 2 ^ k < 2 * n \<Longrightarrow> \<exists>j \<ge> k. pow2Loop (2 ^ k) n = Some (2 ^ j) \<and> n \<le> 2 ^ j \<and> 2 ^ j < 2 * n"
proof (induction "62 - k" arbitrary: k)
  case 0
  with assms show ?case by (intro exI [of _ k]) (auto intro: pow2Loop_done)
next
  case (Suc d)
  show ?case
  proof (cases "(2 :: int) ^ k < n")
    case True
    from Suc.hyps(2) have "Suc k \<le> 62" by simp
    with True have "pow2Loop (2 ^ k) n = pow2Loop (2 ^ Suc k) n"
      using pow2Loop_step [OF True] power_in_int64 [of "Suc k"] by (simp add: mult.commute)
    moreover have "d = 62 - Suc k" using Suc.hyps(2) by simp
    from Suc.hyps(1) [OF this \<open>Suc k \<le> 62\<close>] True
    obtain j where "j \<ge> Suc k" "pow2Loop (2 ^ Suc k) n = Some (2 ^ j)" "n \<le> 2 ^ j" "2 ^ j < 2 * n"
      by auto
    ultimately show ?thesis by (intro exI [of _ j]) auto
  next
    case False
    with Suc.prems show ?thesis by (intro exI [of _ k]) (auto intro: pow2Loop_done)
  qed
qed

lemma pow2Loop_zero: "0 < n \<Longrightarrow> pow2Loop 0 n = None"
proof -
  have "p = 0 \<longrightarrow> n \<le> 0" if "pow2Loop p n = Some y" for p y
    by (rule pow2Loop.raw_induct [OF _ that]) (fastforce simp: wrap64_def split: if_splits)
  then show "0 < n \<Longrightarrow> pow2Loop 0 n = None" by (cases "pow2Loop 0 n") force+
qed

lemma pow2Loop_climb: "2 ^ 62 < n \<Longrightarrow> k \<le> 62 \<Longrightarrow> pow2Loop 1 n = pow2Loop (2 ^ k) n"
proof (induction k)
  case (Suc k)
  have "(2 :: int) ^ k \<le> 2 ^ 62" using Suc.prems by (intro power_increasing) auto
  then have "pow2Loop (2 ^ k) n = pow2Loop (2 ^ k * 2) n"
    using Suc.prems power_in_int64 [of "Suc k"] by (intro pow2Loop_step) (auto simp: mult.commute)
  with Suc show ?case by (simp add: mult.commute)
qed simp

lemma pow2Loop_diverges:
  assumes "2 ^ 62 < n"
  shows "pow2Loop 1 n = None"
proof -
  have "pow2Loop (2 ^ 62) n = pow2Loop (- (2 ^ 63)) n"
    using assms by (subst pow2Loop.simps) (simp add: wrap64_def)
  also have "\<dots> = pow2Loop 0 n"
    using assms by (subst pow2Loop.simps) (simp add: wrap64_def)
  finally show ?thesis
    using assms pow2Loop_climb [of n 62] pow2Loop_zero [of n] by simp
qed

lemma normalizeOptions_order:
  "0 < MinSize (normalizeOptions opt)"
  "MinSize (normalizeOptions opt) \<le> AvgSize (normalizeOptions opt)"
  "AvgSize (normalizeOptions opt) \<le> MaxSize (normalizeOptions opt)"
  "0 \<le> SmallFileThreshold (normalizeOptions opt)"
  "Engine (normalizeOptions opt) = EngineFastCDC \<or> Engine (normalizeOptions opt) = EngineBuiltin"
  by (auto simp: normalizeOptions_def Let_def DefaultMinSize_def DefaultAvgSize_def DefaultMaxSize_def
      DefaultSmallFileThreshold_def)

lemma New_sizes:
  assumes "New opt = Some s"
  shows "0 < minSize s" "minSize s \<le> avgSize s" "avgSize s \<le> maxSize s" "0 \<le> smallFileThreshold s"
    "engine s = EngineFastCDC \<or> engine s = EngineBuiltin"
  using assms normalizeOptions_order [of opt] by (auto simp: New_def Let_def split: option.splits)

lemma cdcChunks_sizes:
  assumes "0 < minSize s" "minSize s \<le> maxSize s"
  shows "(\<forall>c \<in> set (butlast (cdcChunks s bs)). minSize s \<le> int (length c))
    \<and> (\<forall>c \<in> set (cdcChunks s bs). int (length c) \<le> maxSize s)"
proof -
  obtain cs r h where scan: "cdcScan s [] 0 bs = (cs, r, h)" by (metis prod_cases3)
  from cdcScan_sizes [OF scan] assms
  have sizes: "\<forall>c \<in> set cs. minSize s \<le> int (length c) \<and> int (length c) \<le> maxSize s"
    "int (length r) < maxSize s" by simp_all
  then show ?thesis using assms
    by (auto simp: cdcChunks_def scan closeScan_def dest: in_set_butlastD)
qed

section \<open>What a failing run leaves behind\<close>

text \<open>Whatever happens during a run, the caller's state was only changed by emit calls: a
  property that every emit call keeps, successful or not, holds at the end.\<close>

lemma emitCurrent_keeps:
  assumes "\<And>st c. P st \<Longrightarrow> P (snd (f st c))" "P (sp_state p)"
  shows "P (sp_state (snd (emitCurrent e f p)))"
  using assms(1) [OF assms(2), of "\<lparr>Offset = sp_offset p, Data = sp_current p\<rparr>"] assms(2)
  by (auto simp: emitCurrent_def split: option.split prod.split)

lemma spWrite_keeps:
  assumes "\<And>st c. P st \<Longrightarrow> P (snd (f st c))"
  shows "P (sp_state p) \<Longrightarrow> P (sp_state (snd (spWrite e s f i bs p)))"
proof (induction bs arbitrary: i p)
  case (Cons b bs)
  define p1 where "p1 = p\<lparr>sp_current := sp_current p @ [b], sp_hash := push_bit 1 (sp_hash p) + gearTable b\<rparr>"
  have p1: "P (sp_state p1)" using Cons.prems by (simp add: p1_def)
  obtain r p2 where em: "emitCurrent (call e i) f p1 = (r, p2)" by (cases "emitCurrent (call e i) f p1")
  from emitCurrent_keeps [of P f, OF assms p1, of "call e i"] have "P (sp_state p2)" by (simp add: em)
  with Cons.IH p1 Cons.prems em show ?case
    unfolding spWrite.simps(2) Let_def p1_def [symmetric] by (simp split: option.split)
qed simp

lemma spFlush_keeps:
  assumes "\<And>st c. P st \<Longrightarrow> P (snd (f st c))" "P (sp_state p)"
  shows "P (sp_state (snd (spFlush e f p)))"
  using assms(1) [OF assms(2), of "\<lparr>Offset = 0, Data = []\<rparr>"] assms(2)
    emitCurrent_keeps [of P f p "call e 1", OF assms]
  by (auto simp: spFlush_def split: option.split prod.split)

lemma builtinLoop_keeps:
  assumes "\<And>st c. P st \<Longrightarrow> P (snd (f st c))"
  shows "P (sp_state p) \<Longrightarrow> P (sp_state (snd (builtinLoop e s f k rd p)))"
proof (induction rd arbitrary: k p)
  case Nil
  with spFlush_keeps [of P f, OF assms] show ?case by (auto split: option.split)
next
  case (Cons r rd)
  obtain bs st where r: "r = (bs, st)" by (cases r)
  obtain x p1 where w: "(if bs \<noteq> [] then spWrite (call (call e k) 0) s f 0 bs p else (None, p)) = (x, p1)"
    by (cases "if bs \<noteq> [] then spWrite (call (call e k) 0) s f 0 bs p else (None, p)")
  from spWrite_keeps [of P f, OF assms Cons.prems, of "call (call e k) 0" s 0 bs] w Cons.prems
  have "P (sp_state p1)" by (auto split: if_splits)
  with Cons spFlush_keeps [of P f, OF assms] show ?case
    unfolding r builtinLoop.simps w by (simp split: option.split read_status.split)
qed

lemma fastcdcLoop_keeps:
  assumes "\<And>st c. P st \<Longrightarrow> P (snd (f st c))"
  shows "P st \<Longrightarrow> P (snd (fastcdcLoop e f k emitted (cs, fin) st))"
proof (induction cs arbitrary: k emitted st)
  case Nil
  with assms [OF Nil] show ?case by (auto split: option.split)
next
  case (Cons c cs)
  obtain r st' where "f st c = (r, st')" by (cases "f st c")
  with Cons assms [OF Cons.prems, of c] show ?case by (auto split: option.split)
qed

lemma Stream_keeps:
  assumes "\<And>st c. P st \<Longrightarrow> P (snd (f st c))" "P st"
  shows "P (snd (Stream fc e s rd (Some f) st))"
proof -
  have "P (snd (streamBuiltin (call e 1) s rd' f st))" for rd'
    using builtinLoop_keeps [of P f "startProcessor st" "call e 1" s 0 rd', OF assms(1)] assms(2)
    by (auto simp: streamBuiltin_def startProcessor_def split: prod.split)
  moreover have "P (snd (streamFastCDC fc (call e 2) s rd' f st))" for rd'
    using fastcdcLoop_keeps [of P f, OF assms] assms(2)
    by (auto simp: streamFastCDC_def split: sum.split)
  ultimately show ?thesis
    using assms(1) [OF assms(2)] assms(2) by (auto simp: Stream_def Let_def split: sum.split)
qed

section \<open>Properties\<close>

text \<open>C1: Splitting loses nothing. Whenever \<open>Split\<close> returns chunks, whichever engine and
  whatever the segmentation of the reader, the reader ended without an error, the chunks
  concatenate to exactly its bytes, and the chunks are the reference cuts with their running
  offsets from 0. A cancelled context or a read error never yields a truncated chunk list.\<close>

theorem split_reassembles:
  assumes "fastcdc_library fc fcuts" and "Split fc e s rd = Inr cs"
  shows "reader_err rd = None \<and> concat (map Data cs) = content rd
    \<and> cs = withOffsets 0 (streamCuts fcuts s (content rd))"
proof -
  from assms(2) have "Stream fc e s rd (Some collectEmit) [] = (None, cs)"
    by (auto simp: Split_def split: prod.splits option.splits)
  from fastcdc_library.Stream_ok [OF assms(1) this] fastcdc_library.Split_ok [OF assms]
  show ?thesis by (simp add: fastcdc_library.streamCuts_concat [OF assms(1)])
qed

theorem split_reassembles_witness:
  "let s = \<lparr>minSize = 1, avgSize = 2, maxSize = 2, smallFileThreshold = 0,
            engine = EngineBuiltin, mask = 1\<rparr>;
       rd = [([1, 2], NoErr), ([3], EOF)]
   in \<exists>cs. Split builtinAsLibrary env0 s rd = Inr cs \<and> concat (map Data cs) = [1, 2, 3]"
proof -
  define s where "s = \<lparr>minSize = 1, avgSize = 2, maxSize = 2, smallFileThreshold = 0,
            engine = EngineBuiltin, mask = 1\<rparr>"
  define rd :: reader where "rd = [([1, 2], NoErr), ([3], EOF)]"
  have "Split builtinAsLibrary env0 s rd = Inr (withOffsets 0 (streamCuts
      (\<lambda>mn av mx. cdcChunks (builtinSizes mn av mx)) s (content rd)))"
    by (rule Split_quiet) (simp_all add: s_def rd_def)
  with split_reassembles [OF fallback.fastcdc_library_axioms this]
  show ?thesis by (simp add: s_def rd_def Let_def)
qed

text \<open>C2: Bounded chunks. With the sizes \<open>New\<close> installs, every chunk the builtin engine
  produces is at most the maximum size and every chunk but the last is at least the minimum.\<close>

theorem builtin_chunk_sizes:
  assumes "New opt = Some s" and "engine s = EngineBuiltin" and "streamBuiltin e s rd collectEmit [] = (None, cs)"
  shows "(\<forall>c \<in> set (butlast cs). minSize s \<le> int (length (Data c)))
    \<and> (\<forall>c \<in> set cs. int (length (Data c)) \<le> maxSize s)"
proof -
  from streamBuiltin_None(2) [OF assms(3)] have cs: "map Data cs = cdcChunks s (content rd)"
    by (auto simp: emitAll_collect)
  from New_sizes [OF assms(1)] have "0 < minSize s" "minSize s \<le> maxSize s" by simp_all
  from cdcChunks_sizes [OF this, of "content rd"] show ?thesis
    unfolding cs [symmetric] by (auto simp flip: map_butlast)
qed

theorem builtin_chunk_sizes_witness:
  "\<exists>s. New \<lparr>MinSize = 1, AvgSize = 2, MaxSize = 3, SmallFileThreshold = 0, Engine = ''builtin''\<rparr> = Some s
     \<and> (\<exists>cs. streamBuiltin env0 s [([7, 8, 9, 10], EOF)] collectEmit [] = (None, cs)
        \<and> (\<forall>c \<in> set cs. int (length (Data c)) \<le> 3))"
proof -
  let ?o = "\<lparr>MinSize = 1, AvgSize = 2, MaxSize = 3, SmallFileThreshold = 0, Engine = ''builtin''\<rparr>"
  have "nextPowerOfTwo 2 = Some 2"
    by (simp add: nextPowerOfTwo_def pow2Loop.simps [of 1] pow2Loop.simps [of 2] wrap64_def)
  then obtain s where s: "New ?o = Some s" "engine s = EngineBuiltin" "maxSize s = 3"
    by (simp add: New_def normalizeOptions_def EngineBuiltin_def EngineFastCDC_def)
  have r: "streamBuiltin env0 s [([7, 8, 9, 10], EOF)] collectEmit []
      = (None, withOffsets 0 (cdcChunks s [7, 8, 9, 10]))"
    by (simp add: streamBuiltin_quiet emitAll_collect)
  from builtin_chunk_sizes [OF s(1,2) r] s r show ?thesis by auto
qed

text \<open>C3: Content-defined cuts. For the builtin engine, how the reader segments the bytes and
  which cancellable context is used do not matter: two successful splits of the same bytes give
  the same chunks at the same offsets.\<close>

theorem split_segmentation_independent:
  assumes "engine s = EngineBuiltin" and "content rd = content rd'"
    and "Split fc e s rd = Inr cs" and "Split fc' e' s rd' = Inr cs'"
  shows "cs = cs'"
proof -
  have key: "c = withOffsets 0 (streamCuts (\<lambda>_ _ _ bs. [bs]) s (content r))"
    if "Split g d s r = Inr c" for g d r c
  proof -
    from that have "Stream g d s r (Some collectEmit) [] = Stream builtinAsLibrary d s r (Some collectEmit) []"
      using assms(1) by (simp add: Stream_def Let_def split: sum.split)
    with that have "Split builtinAsLibrary d s r = Inr c" by (simp add: Split_def)
    from fallback.Split_ok [OF this] assms(1) show ?thesis
      by (simp add: streamCuts_def engineCuts_def)
  qed
  from key [OF assms(3)] key [OF assms(4)] assms(2) show ?thesis by simp
qed

theorem split_segmentation_independent_witness:
  "let s = \<lparr>minSize = 1, avgSize = 2, maxSize = 2, smallFileThreshold = 0,
            engine = EngineBuiltin, mask = 1\<rparr>
   in Split builtinAsLibrary env0 s [([1, 2], NoErr), ([3], EOF)]
        = Split builtinAsLibrary env0 s [([1], NoErr), ([2, 3], NoErr)]"
proof -
  define s where "s = \<lparr>minSize = 1, avgSize = 2, maxSize = 2, smallFileThreshold = 0,
            engine = EngineBuiltin, mask = 1\<rparr>"
  have s: "engine s = EngineBuiltin" by (simp add: s_def)
  have a: "Split builtinAsLibrary env0 s rd = Inr (withOffsets 0 (streamCuts (\<lambda>_ _ _ bs. [bs]) s (content rd)))"
    if "reader_err rd = None" for rd
    using that s by (intro Split_quiet) simp_all
  have "Split builtinAsLibrary env0 s [([1, 2], NoErr), ([3], EOF)] = Inr (withOffsets 0 (streamCuts (\<lambda>_ _ _ bs. [bs]) s [1, 2, 3]))"
    "Split builtinAsLibrary env0 s [([1], NoErr), ([2, 3], NoErr)] = Inr (withOffsets 0 (streamCuts (\<lambda>_ _ _ bs. [bs]) s [1, 2, 3]))"
    using a by simp_all
  with split_segmentation_independent [OF s _ this] show ?thesis by (simp add: s_def)
qed



text \<open>C5: \<open>nextPowerOfTwo\<close> returns, for every average size up to \<open>2^62\<close>, the least power of
  two that is not smaller; above \<open>2^62\<close> its loop never returns.\<close>

theorem nextPowerOfTwo_total:
  "(if n \<le> 2 ^ 62
    then \<exists>k. nextPowerOfTwo n = Some (2 ^ k) \<and> n \<le> 2 ^ k \<and> (k = 0 \<or> 2 ^ k < 2 * n)
    else nextPowerOfTwo n = None)"
proof (cases "n \<le> 2 ^ 62")
  case True
  show ?thesis
  proof (cases "n \<le> 1")
    case True
    then show ?thesis by (auto simp: nextPowerOfTwo_def intro!: exI [of _ 0])
  next
    case False
    with pow2Loop_power [OF True, of 0] True show ?thesis
      by (auto simp: nextPowerOfTwo_def)
  qed
next
  case False
  then show ?thesis using pow2Loop_diverges [of n] by (simp add: nextPowerOfTwo_def)
qed

text \<open>\<open>New\<close> repairs every configuration: whatever the options, the splitter it returns has
  positive sizes with minimum, average and maximum in order, a non-negative small-file threshold
  and one of the two engines; options that are already in order are kept.\<close>

theorem New_normalises:
  "case New opt of
     None \<Rightarrow> 2 ^ 62 < AvgSize (normalizeOptions opt)
   | Some s \<Rightarrow> 0 < minSize s \<and> minSize s \<le> avgSize s \<and> avgSize s \<le> maxSize s
       \<and> 0 \<le> smallFileThreshold s \<and> engine s \<in> {EngineFastCDC, EngineBuiltin}
       \<and> (\<exists>k. mask s = word_of_int (2 ^ k - 1) \<and> avgSize s \<le> 2 ^ k)"
proof (cases "New opt")
  case None
  have "nextPowerOfTwo n = None \<Longrightarrow> 2 ^ 62 < n" for n
    using pow2Loop_power [of n 0] by (cases "n \<le> 1"; cases "n \<le> 2 ^ 62") (auto simp: nextPowerOfTwo_def)
  with None show ?thesis by (auto simp: New_def Let_def split: option.splits)
next
  case (Some s)
  have pow: "nextPowerOfTwo n = Some p \<Longrightarrow> \<exists>k. p = 2 ^ k \<and> n \<le> 2 ^ k" for n p
  proof (cases "n \<le> 1")
    case True
    then show "nextPowerOfTwo n = Some p \<Longrightarrow> \<exists>k. p = 2 ^ k \<and> n \<le> 2 ^ k"
      by (auto simp: nextPowerOfTwo_def intro!: exI [of _ 0])
  next
    case False
    then show "nextPowerOfTwo n = Some p \<Longrightarrow> \<exists>k. p = 2 ^ k \<and> n \<le> 2 ^ k"
      using pow2Loop_power [of n 0] pow2Loop_diverges [of n]
      by (cases "n \<le> 2 ^ 62") (auto simp: nextPowerOfTwo_def)
  qed
  from Some obtain p where "nextPowerOfTwo (avgSize s) = Some p" "mask s = word_of_int (p - 1)"
    by (auto simp: New_def Let_def split: option.splits)
  with pow [of "avgSize s" p] have "\<exists>k. mask s = word_of_int (2 ^ k - 1) \<and> avgSize s \<le> 2 ^ k"
    by auto
  with New_sizes [OF Some] Some show ?thesis by auto
qed

end
