(* ===== verification/Shards.thy ===== *)
theory Shards
  imports Metadata
begin

text \<open>
  \<open>src/internal/metadata/shards.go\<close>: how a tenant name becomes the name of its SQLite shard.
  The SHA-256 function is a parameter of which only the digest length is used.
\<close>

record shard_resolver =
  Root :: "string list"

text \<open>The loop over the runes: \<open>None\<close> when a rune outside the safe class is met.\<close>

fun safeTenantLoop :: "nat list \<Rightarrow> string \<Rightarrow> string option" where
  "safeTenantLoop [] b = Some b"
| "safeTenantLoop (r # rs) b =
     (if 97 \<le> r \<and> r \<le> 122 then safeTenantLoop rs (b @ [char_of r])
      else if 65 \<le> r \<and> r \<le> 90 then safeTenantLoop rs (b @ [char_of r])
      else if 48 \<le> r \<and> r \<le> 57 then safeTenantLoop rs (b @ [char_of r])
      else if r = 45 \<or> r = 95 then safeTenantLoop rs (b @ [char_of r])
      else None)"

definition SafeTenantID :: "(bytes \<Rightarrow> bytes) \<Rightarrow> string \<Rightarrow> err + string" where
  "SafeTenantID sha256 tenant =
     (if tenant = [] then Inr ''default''
      else (case safeTenantLoop (runes tenant) [] of
              None \<Rightarrow> Inr (''sha256_'' @ hex_encode (take 8 (sha256 (to_bytes tenant))))
            | Some safe \<Rightarrow>
                if safe = ''.'' \<or> safe = ''..'' \<or> contains_str safe ''/'' \<or> contains_str safe [CHR 0x5C]
                then Inl (ErrWrap tenant ErrInvalidTenant) else Inr safe))"

definition shardPath :: "(bytes \<Rightarrow> bytes) \<Rightarrow> shard_resolver \<Rightarrow> string \<Rightarrow> err + string list" where
  "shardPath sha256 r tenant =
     (case SafeTenantID sha256 tenant of
        Inl x \<Rightarrow> Inl x
      | Inr safe \<Rightarrow> Inr (Root r @ [''tenant_'' @ safe @ ''.db'']))"

lemma safeTenantLoop_Cons:
  "safeTenantLoop (r # rs) b = (if safe_rune r then safeTenantLoop rs (b @ [char_of r]) else None)"
  by (simp add: safe_rune_def)

declare safeTenantLoop.simps(2) [simp del]

lemma safeTenantLoop_eq:
  "safeTenantLoop rs b = (if \<forall>r \<in> set rs. safe_rune r then Some (b @ map char_of rs) else None)"
  by (induction rs arbitrary: b) (simp_all add: safeTenantLoop_Cons)

lemma safeTenantLoop_runes:
  "safeTenantLoop (runes t) [] = (if \<forall>c \<in> set t. safe_rune (of_char c) then Some t else None)"
proof -
  have iff: "(\<forall>r \<in> set (runes t). safe_rune r) \<longleftrightarrow> (\<forall>c \<in> set t. safe_rune (of_char c))"
    by (rule runes_all_ascii) (rule safe_rune_ascii)
  show ?thesis
  proof (cases "\<forall>c \<in> set t. safe_rune (of_char c)")
    case True
    with safe_runes [OF True] iff show ?thesis by (simp add: safeTenantLoop_eq map_idI)
  next
    case False
    with iff show ?thesis by (simp add: safeTenantLoop_eq)
  qed
qed

lemma safe_not_rejected:
  assumes "safe_name s"
  shows "\<not> (s = ''.'' \<or> s = ''..'' \<or> contains_str s ''/'' \<or> contains_str s [CHR 0x5C])"
  using assms by (auto simp: contains_char safe_name_def safe_rune_def)

lemma SafeTenantID_safe: "safe_name t \<Longrightarrow> SafeTenantID sha t = Inr t"
  using safe_not_rejected [of t] by (auto simp: SafeTenantID_def safeTenantLoop_runes safe_name_def)

lemma SafeTenantID_result:
  "\<exists>s. SafeTenantID sha t = Inr s \<and> safe_name s"
proof (cases "safe_name t")
  case True
  with SafeTenantID_safe show ?thesis by blast
next
  case False
  show ?thesis
  proof (cases "t = []")
    case True
    then show ?thesis by (simp add: SafeTenantID_def safe_name_def safe_rune_def)
  next
    case nonempty: False
    with False have "SafeTenantID sha t = Inr (''sha256_'' @ hex_encode (take 8 (sha (to_bytes t))))"
      by (auto simp: SafeTenantID_def safeTenantLoop_runes safe_name_def)
    moreover have "safe_name (''sha256_'' @ hex_encode (take 8 (sha (to_bytes t))))"
      by (rule safe_name_append) (simp add: safe_name_def safe_rune_def,
          blast dest: hex_encode_lower hex_char_safe)
    ultimately show ?thesis by blast
  qed
qed

section \<open>Properties\<close>

text \<open>Shard names are safe and stable. For every tenant name and every hash function
  \<open>SafeTenantID\<close> succeeds with a non-empty name over letters, digits, minus and underscore, so
  the shard file stays directly below the root; and applying it to its own result changes
  nothing, so the names \<open>ListTenants\<close> reads off the shard files open the same shards.\<close>

theorem SafeTenantID_safe_and_stable:
  "\<exists>s. SafeTenantID sha t = Inr s \<and> s \<noteq> [] \<and> list_all (\<lambda>c. safe_rune (of_char c)) s
     \<and> SafeTenantID sha s = Inr s
     \<and> shardPath sha r t = Inr (Root r @ [''tenant_'' @ s @ ''.db''])"
  using SafeTenantID_result [of sha t] SafeTenantID_safe
  by (auto simp: safe_name_def list_all_iff shardPath_def)

end
