(* ===== verification/Backend.thy ===== *)
theory Backend
  imports GoLib
begin

text \<open>
  \<open>src/internal/backend/backend.go\<close>, \<open>fs.go\<close> and \<open>retry.go\<close>: the \<open>BlockStore\<close> interface with
  the contract its clients rely on, the filesystem store (paths, optional encryption, the write
  to a temporary file followed by a rename) and the retry loop of the remote stores.

  Paths are lists of components. The AEAD cipher comes from Go's crypto library and is a
  parameter, of which the proofs use that \<open>Open\<close> undoes \<open>Seal\<close>. A system call that fails is an
  answer of the environment; one that does not acts on the file table.
\<close>

section \<open>The BlockStore interface\<close>

record 'b block_ops =
  PutBlock :: "env \<Rightarrow> string \<Rightarrow> string \<Rightarrow> bytes \<Rightarrow> 'b \<Rightarrow> err option \<times> 'b"
  GetBlock :: "env \<Rightarrow> string \<Rightarrow> string \<Rightarrow> 'b \<Rightarrow> err + reader"
  HasBlock :: "env \<Rightarrow> string \<Rightarrow> string \<Rightarrow> 'b \<Rightarrow> err + bool"
  DeleteBlocks :: "env \<Rightarrow> string \<Rightarrow> string list \<Rightarrow> 'b \<Rightarrow> err option \<times> 'b"
  HealthCheck :: "env \<Rightarrow> 'b \<Rightarrow> err option \<times> 'b"

text \<open>The calls that may change a store, and running a sequence of them.\<close>

datatype block_call =
    Put_call string string bytes
  | Delete_call string "string list"
  | Health_call

definition block_call :: "'b block_ops \<Rightarrow> env \<Rightarrow> block_call \<Rightarrow> 'b \<Rightarrow> err option \<times> 'b" where
  "block_call bops e c s =
     (case c of
        Put_call t h d \<Rightarrow> PutBlock bops e t h d s
      | Delete_call t hs \<Rightarrow> DeleteBlocks bops e t hs s
      | Health_call \<Rightarrow> HealthCheck bops e s)"

fun block_calls :: "'b block_ops \<Rightarrow> (env \<times> block_call) list \<Rightarrow> 'b \<Rightarrow> 'b" where
  "block_calls bops [] s = s"
| "block_calls bops ((e, c) # cs) s = block_calls bops cs (snd (block_call bops e c s))"

text \<open>
  What \<open>object.Service\<close>, the sweeper and the chunk readers rely on. \<open>stored s t h\<close> is the content
  of block \<open>h\<close> of tenant \<open>t\<close>; tenants with the same \<open>ns\<close> (namespace) share their blocks.
\<close>

locale block_store =
  fixes bops :: "'b block_ops"
    and binv :: "'b \<Rightarrow> bool"
    and ns :: "string \<Rightarrow> string"
    and stored :: "'b \<Rightarrow> string \<Rightarrow> string \<Rightarrow> bytes option"
  assumes stored_ns: "ns t = ns t' \<Longrightarrow> stored s t h = stored s t' h"
    and put: "binv s \<Longrightarrow> PutBlock bops e t h d s = (r, s') \<Longrightarrow>
      binv s' \<and> (\<forall>t' h'. (ns t', h') \<noteq> (ns t, h) \<longrightarrow> stored s' t' h' = stored s t' h')
      \<and> (case r of
           Some x \<Rightarrow> stored s' t h = stored s t h
         | None \<Rightarrow> stored s' t h = Some (case stored s t h of Some d0 \<Rightarrow> d0 | None \<Rightarrow> d))"
    and get: "binv s \<Longrightarrow> GetBlock bops e t h s = Inr rd \<Longrightarrow>
      \<exists>d. stored s t h = Some d \<and> (reader_err rd = None \<longrightarrow> content rd = d)"
    and has: "binv s \<Longrightarrow> HasBlock bops e t h s = Inr b \<Longrightarrow> b \<longleftrightarrow> stored s t h \<noteq> None"
    and del: "binv s \<Longrightarrow> DeleteBlocks bops e t hs s = (r, s') \<Longrightarrow>
      binv s' \<and> (\<forall>t' h'. ns t' \<noteq> ns t \<or> h' \<notin> set hs \<longrightarrow> stored s' t' h' = stored s t' h')
      \<and> (\<forall>h' \<in> set hs. stored s' t h' = stored s t h' \<or> stored s' t h' = None)
      \<and> (r = None \<longrightarrow> (\<forall>h' \<in> set hs. stored s' t h' = None))"
    and health: "binv s \<Longrightarrow> HealthCheck bops e s = (r, s') \<Longrightarrow> binv s' \<and> stored s' = stored s"
begin

text \<open>A successful put makes the block present; a block once stored keeps its content until a
  delete names it, whatever else is called and whatever fails.\<close>

lemma put_present:
  assumes "binv s" "PutBlock bops e t h d s = (None, s')"
  shows "stored s' t h \<noteq> None"
  using put [OF assms] by simp

definition spares :: "string \<Rightarrow> string \<Rightarrow> block_call \<Rightarrow> bool" where
  "spares t h c \<longleftrightarrow> (case c of Delete_call t' hs \<Rightarrow> ns t' \<noteq> ns t \<or> h \<notin> set hs | _ \<Rightarrow> True)"

lemma call_keeps:
  assumes "binv s" "stored s t h = Some d" "spares t h c" "block_call bops e c s = (r, s')"
  shows "binv s' \<and> stored s' t h = Some d"
proof (cases c)
  case (Put_call t' h' d')
  with assms(4) have p: "PutBlock bops e t' h' d' s = (r, s')" by (simp add: block_call_def)
  note facts = put [OF assms(1) p]
  have inv: "binv s'" using facts by (rule conjunct1)
  have others: "(ns t, h) \<noteq> (ns t', h') \<Longrightarrow> stored s' t h = stored s t h"
    by (rule facts [THEN conjunct2, THEN conjunct1, rule_format])
  have same: "case r of Some x \<Rightarrow> stored s' t' h' = stored s t' h'
      | None \<Rightarrow> stored s' t' h' = Some (case stored s t' h' of Some d0 \<Rightarrow> d0 | None \<Rightarrow> d')"
    using facts [THEN conjunct2] by (rule conjunct2)
  have "stored s' t h = Some d"
  proof (cases "(ns t, h) = (ns t', h')")
    case True
    then have "stored s' t h = stored s' t' h'" "stored s t h = stored s t' h'"
      using stored_ns [of t t' s' h] stored_ns [of t t' s h] by simp_all
    with same assms(2) show ?thesis by (auto split: option.splits)
  next
    case False
    with others assms(2) show ?thesis by simp
  qed
  with inv show ?thesis ..
next
  case (Delete_call t' hs)
  with assms(3,4) have p: "DeleteBlocks bops e t' hs s = (r, s')" and n: "ns t \<noteq> ns t' \<or> h \<notin> set hs"
    by (auto simp: block_call_def spares_def)
  from del [OF assms(1) p] n assms(2) show ?thesis by metis
next
  case Health_call
  with assms(4) have "HealthCheck bops e s = (r, s')" by (simp add: block_call_def)
  from health [OF assms(1) this] assms(2) show ?thesis by metis
qed

lemma calls_keep:
  assumes "binv s" "stored s t h = Some d" "\<forall>(e, c) \<in> set cs. spares t h c"
  shows "binv (block_calls bops cs s) \<and> stored (block_calls bops cs s) t h = Some d"
  using assms
proof (induction cs arbitrary: s)
  case (Cons ec cs)
  obtain e c where ec: "ec = (e, c)" by (cases ec)
  obtain r s' where b: "block_call bops e c s = (r, s')" by (cases "block_call bops e c s")
  from Cons.prems ec have sp: "spares t h c" by simp
  from call_keeps [OF Cons.prems(1,2) sp b] Cons.IH [of s'] Cons.prems(3) show ?case
    by (simp add: ec b)
qed simp

end

text \<open>Stores that do their work when nothing cancels them and no system call fails.\<close>

locale live_block_store = block_store +
  fixes valid :: "string \<Rightarrow> bool"
  assumes put_quiet: "binv s \<Longrightarrow> quiet e \<Longrightarrow> valid h \<Longrightarrow> fst (PutBlock bops e t h d s) = None"
    and get_quiet: "binv s \<Longrightarrow> quiet e \<Longrightarrow> valid h \<Longrightarrow> stored s t h = Some d \<Longrightarrow>
      \<exists>rd. GetBlock bops e t h s = Inr rd \<and> reader_err rd = None"
    and get_missing: "binv s \<Longrightarrow> quiet e \<Longrightarrow> valid h \<Longrightarrow> stored s t h = None \<Longrightarrow>
      \<exists>x. GetBlock bops e t h s = Inl x \<and> errors_is x ErrBlockNotFound"
    and has_quiet: "binv s \<Longrightarrow> quiet e \<Longrightarrow> valid h \<Longrightarrow> \<exists>b. HasBlock bops e t h s = Inr b"
    and del_quiet: "binv s \<Longrightarrow> quiet e \<Longrightarrow> \<forall>h \<in> set hs. valid h \<Longrightarrow>
      fst (DeleteBlocks bops e t hs s) = None"
begin

lemma get_content:
  assumes "binv s" "quiet e" "valid h" "stored s t h = Some d"
  shows "\<exists>rd. GetBlock bops e t h s = Inr rd \<and> reader_err rd = None \<and> content rd = d"
proof -
  from get_quiet [OF assms] obtain rd where rd: "GetBlock bops e t h s = Inr rd" "reader_err rd = None"
    by blast
  from get [OF assms(1) rd(1)] rd assms(4) show ?thesis by auto
qed

lemma put_then_get:
  assumes "binv s" "valid h" "stored s t h = None" "PutBlock bops e t h d s = (None, s')"
    and "\<forall>(e, c) \<in> set cs. spares t h c" "quiet e'"
  shows "\<exists>rd. GetBlock bops e' t h (block_calls bops cs s') = Inr rd
    \<and> reader_err rd = None \<and> content rd = d"
proof -
  from put [OF assms(1,4)] assms(3) have "binv s'" "stored s' t h = Some d" by simp_all
  from calls_keep [OF this assms(5)] get_content [OF _ assms(6,2)] show ?thesis by blast
qed

lemma delete_then_missing:
  assumes "binv s" "valid h" "h \<in> set hs" "DeleteBlocks bops e t hs s = (None, s')" "quiet e'"
  shows "\<exists>x. GetBlock bops e' t h s' = Inl x \<and> errors_is x ErrBlockNotFound"
  using del [OF assms(1,4)] assms(3) get_missing [OF _ assms(5,2)] by auto

end

section \<open>The filesystem store\<close>

record aead =
  NonceSize :: nat
  Seal :: "bytes \<Rightarrow> bytes \<Rightarrow> bytes"
  aeadOpen :: "bytes \<Rightarrow> bytes \<Rightarrow> bytes option"

text \<open>The documented behaviour of \<open>cipher.AEAD\<close>: what was sealed opens to itself.\<close>

definition aead_ok :: "aead \<Rightarrow> bool" where
  "aead_ok A \<longleftrightarrow> (\<forall>n d. length n = NonceSize A \<longrightarrow> aeadOpen A n (Seal A n d) = Some d)"

type_synonym file_tree = "string list \<Rightarrow> bytes option"

record file_store =
  fs_root :: "string list"
  fs_aead :: "aead option"

definition encryptedBlockMagic :: string where
  "encryptedBlockMagic = ''CGFSENC1''"

definition validBlockHash :: "string \<Rightarrow> bool" where
  "validBlockHash hash \<longleftrightarrow> length hash = 64
     \<and> list_all (\<lambda>r. (97 \<le> r \<and> r \<le> 102) \<or> (48 \<le> r \<and> r \<le> 57)) (runes hash)"

fun sanitizeLoop :: "nat list \<Rightarrow> string \<Rightarrow> string" where
  "sanitizeLoop [] b = b"
| "sanitizeLoop (r # rs) b =
     (if 97 \<le> r \<and> r \<le> 122 then sanitizeLoop rs (b @ [char_of r])
      else if 65 \<le> r \<and> r \<le> 90 then sanitizeLoop rs (b @ [char_of r])
      else if 48 \<le> r \<and> r \<le> 57 then sanitizeLoop rs (b @ [char_of r])
      else if r = 45 \<or> r = 95 then sanitizeLoop rs (b @ [char_of r])
      else sanitizeLoop rs (b @ ''_''))"

definition sanitizePathPart :: "string \<Rightarrow> string" where
  "sanitizePathPart value = (if value = [] then ''default'' else sanitizeLoop (runes value) [])"

text \<open>\<open>filepath.Rel\<close> of two cleaned absolute paths.\<close>

fun rel_path :: "string list \<Rightarrow> string list \<Rightarrow> string list" where
  "rel_path (b # bs) (t # ts) = (if b = t then rel_path bs ts else replicate (length (b # bs)) ''..'' @ t # ts)"
| "rel_path bs ts = replicate (length bs) ''..'' @ ts"

text \<open>A relative root is represented by the absolute path it resolves to; \<open>filepath.Abs\<close> may
  fail because the working directory cannot be read.\<close>

definition blockPath :: "file_store \<Rightarrow> env \<Rightarrow> string \<Rightarrow> string \<Rightarrow> err + string list" where
  "blockPath s e tenant hash =
     (let safeTenant = sanitizePathPart tenant in
      if \<not> validBlockHash hash then Inl (ErrNew ''invalid block hash'')
      else (let path = clean_path [] (fs_root s @ [''tenants'', safeTenant, ''blocks'', take 2 hash, hash]) in
        case syscall e 0 of
          Some x \<Rightarrow> Inl (ErrWrap ''resolve backend root'' x)
        | None \<Rightarrow> (let root = clean_path [] (fs_root s) in
            case syscall e 1 of
              Some x \<Rightarrow> Inl (ErrWrap ''resolve block path'' x)
            | None \<Rightarrow> (let rel = rel_path root path in
                if rel = [] \<or> hd rel = ''..'' then Inl (ErrNew ''invalid block path'')
                else Inr path))))"

definition encodeBlock :: "file_store \<Rightarrow> env \<Rightarrow> bytes \<Rightarrow> err + bytes" where
  "encodeBlock s e data =
     (case fs_aead s of
        None \<Rightarrow> Inr data
      | Some A \<Rightarrow>
          (case syscall e 0 of
             Some x \<Rightarrow> Inl (ErrWrap ''create block encryption nonce'' x)
           | None \<Rightarrow> (let nonce = random_bytes e 1 (NonceSize A)
               in Inr (to_bytes encryptedBlockMagic @ nonce @ Seal A nonce data))))"

definition decodeBlock :: "file_store \<Rightarrow> bytes \<Rightarrow> err + bytes" where
  "decodeBlock s data =
     (case fs_aead s of
        None \<Rightarrow> Inr data
      | Some A \<Rightarrow>
          (let prefixLen = length encryptedBlockMagic + NonceSize A in
           if length data < prefixLen
              \<or> take (length encryptedBlockMagic) data \<noteq> to_bytes encryptedBlockMagic
           then Inl (ErrNew ''encrypted block is missing ChunkGate encryption header'')
           else (let nonce = drop (length encryptedBlockMagic) (take prefixLen data);
                     ciphertext = drop prefixLen data
                 in case aeadOpen A nonce ciphertext of
                      None \<Rightarrow> Inl (ErrWrap ''decrypt block'' (ErrNew ''message authentication failed''))
                    | Some plaintext \<Rightarrow> Inr plaintext)))"

definition randomSuffix :: "env \<Rightarrow> string" where
  "randomSuffix e = (case syscall e 0 of Some _ \<Rightarrow> ''fallback'' | None \<Rightarrow> hex_encode (random_bytes e 1 8))"

text \<open>\<open>os.WriteFile\<close> that fails may leave nothing or a part of the data; \<open>os.Remove\<close> whose error
  is ignored; reading an open file to its end or to a read error.\<close>

definition write_failed :: "env \<Rightarrow> string list \<Rightarrow> bytes \<Rightarrow> file_tree \<Rightarrow> file_tree" where
  "write_failed e p data fs =
     (case range_pick e [] (length data) of 0 \<Rightarrow> fs | Suc n \<Rightarrow> fs(p := Some (take n data)))"

definition try_remove :: "env \<Rightarrow> nat \<Rightarrow> string list \<Rightarrow> file_tree \<Rightarrow> file_tree" where
  "try_remove e i p fs = (case syscall e i of Some _ \<Rightarrow> fs | None \<Rightarrow> fs(p := None))"

definition bytes_reader :: "bytes \<Rightarrow> reader" where
  "bytes_reader d = [(d, NoErr), ([], EOF)]"

definition file_reader :: "env \<Rightarrow> bytes \<Rightarrow> reader" where
  "file_reader e d = (case syscall e 0 of
       None \<Rightarrow> bytes_reader d
     | Some x \<Rightarrow> [(take (range_pick e [] (length d)) d, ReadErr x)])"

definition tmpPath :: "string list \<Rightarrow> env \<Rightarrow> string list" where
  "tmpPath path e = butlast path @ [last path @ ''.'' @ randomSuffix e @ ''.tmp'']"

definition fsPutBlock :: "file_store \<Rightarrow> env \<Rightarrow> string \<Rightarrow> string \<Rightarrow> bytes \<Rightarrow> file_tree \<Rightarrow> err option \<times> file_tree" where
  "fsPutBlock s e tenant hash data fs =
     (case ctx_poll e 0 of Some x \<Rightarrow> (Some x, fs) | None \<Rightarrow>
      case blockPath s (call e 1) tenant hash of Inl x \<Rightarrow> (Some x, fs) | Inr path \<Rightarrow>
      case syscall e 2 of Some x \<Rightarrow> (Some (ErrWrap ''stat block'' x), fs) | None \<Rightarrow>
      if fs path \<noteq> None then (None, fs) else
      case syscall e 3 of Some x \<Rightarrow> (Some (ErrWrap ''create block directory'' x), fs) | None \<Rightarrow>
      case encodeBlock s (call e 4) data of Inl x \<Rightarrow> (Some x, fs) | Inr payload \<Rightarrow>
      (let tmp = tmpPath path (call e 5) in
       case syscall e 6 of
         Some x \<Rightarrow> (Some (ErrWrap ''write block'' x), write_failed (call e 6) tmp payload fs)
       | None \<Rightarrow> (let fs1 = fs(tmp := Some payload) in
           if syscall e 7 = None \<and> fs1 path \<noteq> None then (None, try_remove e 8 tmp fs1)
           else (case syscall e 9 of
                   Some x \<Rightarrow> (Some (ErrWrap ''commit block'' x), try_remove e 10 tmp fs1)
                 | None \<Rightarrow> (None, fs1(tmp := None, path := fs1 tmp))))))"

definition fsGetBlock :: "file_store \<Rightarrow> env \<Rightarrow> string \<Rightarrow> string \<Rightarrow> file_tree \<Rightarrow> err + reader" where
  "fsGetBlock s e tenant hash fs =
     (case ctx_poll e 0 of Some x \<Rightarrow> Inl x | None \<Rightarrow>
      case blockPath s (call e 1) tenant hash of Inl x \<Rightarrow> Inl x | Inr path \<Rightarrow>
      case syscall e 2 of Some x \<Rightarrow> Inl (ErrWrap ''open block'' x) | None \<Rightarrow>
      (case fs path of
         None \<Rightarrow> Inl (ErrWrap hash ErrBlockNotFound)
       | Some raw \<Rightarrow>
           if fs_aead s = None then Inr (file_reader (call e 3) raw)
           else (case read_all (file_reader (call e 3) raw) of
                   Inl x \<Rightarrow> Inl (ErrWrap ''read encrypted block'' x)
                 | Inr data \<Rightarrow>
                     (case syscall e 4 of
                        Some x \<Rightarrow> Inl (ErrWrap ''close encrypted block'' x)
                      | None \<Rightarrow> (case decodeBlock s data of
                          Inl x \<Rightarrow> Inl x
                        | Inr plaintext \<Rightarrow> Inr (bytes_reader plaintext))))))"

definition fsHasBlock :: "file_store \<Rightarrow> env \<Rightarrow> string \<Rightarrow> string \<Rightarrow> file_tree \<Rightarrow> err + bool" where
  "fsHasBlock s e tenant hash fs =
     (case ctx_poll e 0 of Some x \<Rightarrow> Inl x | None \<Rightarrow>
      case blockPath s (call e 1) tenant hash of Inl x \<Rightarrow> Inl x | Inr path \<Rightarrow>
      case syscall e 2 of Some x \<Rightarrow> Inl (ErrWrap ''stat block'' x) | None \<Rightarrow>
      Inr (fs path \<noteq> None))"

fun fsDeleteLoop :: "file_store \<Rightarrow> env \<Rightarrow> nat \<Rightarrow> string \<Rightarrow> string list \<Rightarrow> file_tree \<Rightarrow> err option \<times> file_tree" where
  "fsDeleteLoop s e i tenant [] fs = (None, fs)"
| "fsDeleteLoop s e i tenant (hash # hashes) fs =
     (case ctx_poll (call e i) 0 of Some x \<Rightarrow> (Some x, fs) | None \<Rightarrow>
      case blockPath s (call (call e i) 1) tenant hash of Inl x \<Rightarrow> (Some x, fs) | Inr path \<Rightarrow>
      case syscall (call e i) 2 of
        Some x \<Rightarrow> (Some (ErrWrap (''delete block '' @ hash) x), fs)
      | None \<Rightarrow> fsDeleteLoop s e (Suc i) tenant hashes (fs(path := None)))"

definition fsDeleteBlocks :: "file_store \<Rightarrow> env \<Rightarrow> string \<Rightarrow> string list \<Rightarrow> file_tree \<Rightarrow> err option \<times> file_tree" where
  "fsDeleteBlocks s e tenant hashes fs = fsDeleteLoop s e 0 tenant hashes fs"

definition fsHealthCheck :: "file_store \<Rightarrow> env \<Rightarrow> file_tree \<Rightarrow> err option \<times> file_tree" where
  "fsHealthCheck s e fs =
     (case ctx_poll e 0 of Some x \<Rightarrow> (Some x, fs) | None \<Rightarrow>
      case syscall e 1 of Some x \<Rightarrow> (Some (ErrWrap ''check filesystem backend root'' x), fs) | None \<Rightarrow>
      (None, fs))"

definition fs_ops :: "file_store \<Rightarrow> file_tree block_ops" where
  "fs_ops s = \<lparr>PutBlock = fsPutBlock s, GetBlock = fsGetBlock s, HasBlock = fsHasBlock s,
     DeleteBlocks = fsDeleteBlocks s, HealthCheck = fsHealthCheck s\<rparr>"

section \<open>Paths\<close>

lemma validBlockHash_eq:
  "validBlockHash h \<longleftrightarrow> length h = 64 \<and> (\<forall>c \<in> set h. is_lower_hex (of_char c))"
proof -
  have "(\<forall>r \<in> set (runes h). is_lower_hex r) \<longleftrightarrow> (\<forall>c \<in> set h. is_lower_hex (of_char c))"
    by (rule runes_all_ascii) (auto simp: is_lower_hex_def)
  then show ?thesis by (simp add: validBlockHash_def list_all_iff is_lower_hex_def)
qed

lemma validBlockHash_hex: "length d = 32 \<Longrightarrow> validBlockHash (hex_encode d)"
  by (simp add: validBlockHash_eq hex_encode_lower)

lemma validBlockHash_length: "validBlockHash h \<Longrightarrow> length h = 64"
  by (simp add: validBlockHash_def)

lemma validBlockHash_safe: "validBlockHash h \<Longrightarrow> safe_name h"
  by (auto simp: validBlockHash_eq safe_name_def hex_char_safe)

lemma sanitizeLoop_Cons:
  "sanitizeLoop (r # rs) b = sanitizeLoop rs (b @ [if safe_rune r then char_of r else CHR ''_''])"
  by (simp add: safe_rune_def)

declare sanitizeLoop.simps(2) [simp del]

lemma sanitizeLoop_eq:
  "sanitizeLoop rs b = b @ map (\<lambda>r. if safe_rune r then char_of r else CHR ''_'') rs"
  by (induction rs arbitrary: b) (simp_all add: sanitizeLoop_Cons)

lemma safe_rune_mod: "safe_rune r \<Longrightarrow> r mod 256 = r"
  using safe_rune_ascii [of r] by simp

lemma safe_underscore: "safe_rune 95"
  by (simp add: safe_rune_def)

lemma runes_nonempty: "s \<noteq> [] \<Longrightarrow> runes s \<noteq> []"
  by (subst runes_def, subst rune_segments.simps) (simp split: prod.splits)

lemma sanitizePathPart_safe: "safe_name (sanitizePathPart t)"
proof (cases "t = []")
  case True
  then show ?thesis by (simp add: sanitizePathPart_def safe_name_def safe_rune_def)
next
  case False
  with runes_nonempty [OF False] show ?thesis
    by (auto simp: sanitizePathPart_def safe_name_def sanitizeLoop_eq safe_rune_mod safe_underscore)
qed

lemma sanitizePathPart_id: "safe_name t \<Longrightarrow> sanitizePathPart t = t"
  by (auto simp: safe_name_def sanitizePathPart_def sanitizeLoop_eq safe_runes intro: map_idI)

lemma clean_path_append: "clean_path acc (xs @ ys) = clean_path (clean_path acc xs) ys"
  by (induction acc xs rule: clean_path.induct) auto

lemma rel_path_below: "rel_path root (root @ ys) = ys"
proof (induction root)
  case Nil
  then show ?case by (cases ys) auto
qed simp

definition block_target :: "file_store \<Rightarrow> string \<Rightarrow> string \<Rightarrow> string list" where
  "block_target s t h =
     clean_path [] (fs_root s) @ [''tenants'', sanitizePathPart t, ''blocks'', take 2 h, h]"

lemma safe_name_take: "safe_name h \<Longrightarrow> 0 < n \<Longrightarrow> safe_name (take n h)"
  by (auto simp: safe_name_def dest: in_set_takeD)

lemma blockPath_target:
  assumes "validBlockHash h"
  shows "clean_path [] (fs_root s @ [''tenants'', sanitizePathPart t, ''blocks'', take 2 h, h])
    = block_target s t h"
proof -
  have "safe_name (take 2 h)" using assms by (simp add: validBlockHash_safe safe_name_take)
  from safe_name_plain [OF this] safe_name_plain [OF sanitizePathPart_safe [of t]]
    safe_name_plain [OF validBlockHash_safe [OF assms]]
  show ?thesis by (simp add: clean_path_append block_target_def)
qed

lemma blockPath_eq:
  "blockPath s e t h =
     (if \<not> validBlockHash h then Inl (ErrNew ''invalid block hash'')
      else case syscall e 0 of Some x \<Rightarrow> Inl (ErrWrap ''resolve backend root'' x)
      | None \<Rightarrow> (case syscall e 1 of Some x \<Rightarrow> Inl (ErrWrap ''resolve block path'' x)
         | None \<Rightarrow> Inr (block_target s t h)))"
  using blockPath_target [of h s t]
  by (auto simp: blockPath_def Let_def block_target_def rel_path_below split: option.split)

lemma blockPath_Inr: "blockPath s e t h = Inr p \<Longrightarrow> validBlockHash h \<and> p = block_target s t h"
  by (auto simp: blockPath_eq split: if_splits option.splits)

lemma blockPath_quiet: "quiet e \<Longrightarrow> validBlockHash h \<Longrightarrow> blockPath s e t h = Inr (block_target s t h)"
  by (simp add: blockPath_eq)

lemma block_target_inj:
  "block_target s t h = block_target s t' h' \<longleftrightarrow> sanitizePathPart t = sanitizePathPart t' \<and> h = h'"
  by (auto simp: block_target_def)

text \<open>A temporary file is never in the place of a block.\<close>

definition is_block_path :: "string list \<Rightarrow> bool" where
  "is_block_path p \<longleftrightarrow> length (last p) = 64"

lemma target_is_block_path: "validBlockHash h \<Longrightarrow> is_block_path (block_target s t h)"
  by (simp add: is_block_path_def block_target_def validBlockHash_length)

lemma tmp_not_block_path:
  "validBlockHash h \<Longrightarrow> \<not> is_block_path (xs @ [last (block_target s t h) @ ''.'' @ r @ ''.tmp''])"
  by (simp add: is_block_path_def block_target_def validBlockHash_length)

section \<open>Encryption\<close>

lemma decode_encode:
  assumes "\<forall>A. fs_aead s = Some A \<longrightarrow> aead_ok A" "encodeBlock s e d = Inr p"
  shows "decodeBlock s p = Inr d"
proof (cases "fs_aead s")
  case None
  with assms(2) show ?thesis by (simp add: encodeBlock_def decodeBlock_def)
next
  case (Some A)
  with assms have "aead_ok A"
    and p: "p = to_bytes encryptedBlockMagic @ random_bytes e 1 (NonceSize A)
      @ Seal A (random_bytes e 1 (NonceSize A)) d"
    by (auto simp: encodeBlock_def Let_def split: option.splits)
  moreover have "length (to_bytes encryptedBlockMagic) = length encryptedBlockMagic"
    by (simp add: to_bytes_def)
  ultimately show ?thesis
    using Some by (simp add: decodeBlock_def Let_def aead_ok_def)
qed

lemma encodeBlock_quiet: "quiet e \<Longrightarrow> \<exists>p. encodeBlock s e d = Inr p"
  by (auto simp: encodeBlock_def Let_def split: option.splits)

section \<open>The filesystem store meets the contract\<close>

definition fs_stored :: "file_store \<Rightarrow> file_tree \<Rightarrow> string \<Rightarrow> string \<Rightarrow> bytes option" where
  "fs_stored s fs t h =
     (if validBlockHash h then
        (case fs (block_target s t h) of
           None \<Rightarrow> None
         | Some raw \<Rightarrow> (case decodeBlock s raw of Inl _ \<Rightarrow> None | Inr d \<Rightarrow> Some d))
      else None)"

text \<open>Every file at the place of a block is one that the store wrote: it decodes.\<close>

definition fs_inv :: "file_store \<Rightarrow> file_tree \<Rightarrow> bool" where
  "fs_inv s fs \<longleftrightarrow> (\<forall>A. fs_aead s = Some A \<longrightarrow> aead_ok A)
     \<and> (\<forall>p raw. is_block_path p \<longrightarrow> fs p = Some raw \<longrightarrow> (\<exists>d. decodeBlock s raw = Inr d))"

lemma fs_inv_decodes:
  assumes "fs_inv s fs" "validBlockHash h" "fs (block_target s t h) = Some raw"
  obtains d where "decodeBlock s raw = Inr d"
proof -
  from assms target_is_block_path [of h s t] have "\<exists>d. decodeBlock s raw = Inr d"
    unfolding fs_inv_def by blast
  with that show thesis by blast
qed

lemma fs_stored_None:
  "fs_inv s fs \<Longrightarrow> validBlockHash h \<Longrightarrow> fs_stored s fs t h = None \<longleftrightarrow> fs (block_target s t h) = None"
  by (auto simp: fs_stored_def split: option.splits sum.splits elim!: fs_inv_decodes)

text \<open>Only block places matter for what is stored.\<close>

definition same_blocks :: "file_tree \<Rightarrow> file_tree \<Rightarrow> bool" where
  "same_blocks fs fs' \<longleftrightarrow> (\<forall>p. is_block_path p \<longrightarrow> fs' p = fs p)"

lemma same_blocks_refl [simp]: "same_blocks fs fs"
  by (simp add: same_blocks_def)

lemma same_blocks_inv: "same_blocks fs fs' \<Longrightarrow> fs_inv s fs \<Longrightarrow> fs_inv s fs'"
  by (simp add: same_blocks_def fs_inv_def)

lemma same_blocks_stored: "same_blocks fs fs' \<Longrightarrow> fs_stored s fs' = fs_stored s fs"
  by (intro ext) (simp add: same_blocks_def fs_stored_def target_is_block_path)

lemma same_blocks_tmp:
  "\<not> is_block_path tmp \<Longrightarrow> same_blocks fs (fs(tmp := x))"
  by (auto simp: same_blocks_def)

lemma same_blocks_trans: "same_blocks a b \<Longrightarrow> same_blocks b c \<Longrightarrow> same_blocks a c"
  by (simp add: same_blocks_def)

lemma same_blocks_failed: "\<not> is_block_path tmp \<Longrightarrow> same_blocks fs (write_failed e tmp d fs)"
  by (auto simp: write_failed_def same_blocks_tmp split: nat.split)

lemma same_blocks_removed: "\<not> is_block_path tmp \<Longrightarrow> same_blocks fs (try_remove e i tmp (fs(tmp := x)))"
  by (auto simp: try_remove_def same_blocks_tmp split: option.split)

text \<open>The effect of a put on the block places: none, or the encoded data at the block's place,
  which was free.\<close>

lemma fsPutBlock_effect:
  assumes "fsPutBlock s e t h d fs = (r, fs')"
  shows "same_blocks fs fs' \<and> (r = None \<longrightarrow> validBlockHash h \<and> fs (block_target s t h) \<noteq> None)
     \<or> r = None \<and> validBlockHash h \<and> fs (block_target s t h) = None \<and>
       (\<exists>e' raw. encodeBlock s e' d = Inr raw \<and> same_blocks (fs(block_target s t h := Some raw)) fs')"
proof (cases "ctx_poll e 0 = None \<and> (\<exists>path. blockPath s (call e 1) t h = Inr path) \<and> syscall e 2 = None
    \<and> syscall e 3 = None \<and> (\<exists>raw. encodeBlock s (call e 4) d = Inr raw) \<and> fs (block_target s t h) = None")
  case False
  then show ?thesis
    using assms by (auto simp: fsPutBlock_def dest!: blockPath_Inr split: option.splits sum.splits if_splits)
next
  case True
  then obtain path raw where path: "blockPath s (call e 1) t h = Inr path" and raw: "encodeBlock s (call e 4) d = Inr raw"
    by auto
  from blockPath_Inr [OF path] have h: "validBlockHash h" and p: "path = block_target s t h" by auto
  define tmp where "tmp = tmpPath path (call e 5)"
  have tmp: "\<not> is_block_path tmp"
    unfolding tmp_def p tmpPath_def by (rule tmp_not_block_path [OF h])
  have ne: "tmp \<noteq> path" using tmp target_is_block_path [OF h] p by auto
  from True p have free: "fs path = None" by simp
  have run: "fsPutBlock s e t h d fs =
     (case syscall e 6 of
        Some x \<Rightarrow> (Some (ErrWrap ''write block'' x), write_failed (call e 6) tmp raw fs)
      | None \<Rightarrow> (case syscall e 9 of
          Some x \<Rightarrow> (Some (ErrWrap ''commit block'' x), try_remove e 10 tmp (fs(tmp := Some raw)))
        | None \<Rightarrow> (None, fs(tmp := None, path := Some raw))))"
    using True path raw free ne by (simp add: fsPutBlock_def tmp_def Let_def split: option.split)
  have last: "same_blocks (fs(path := Some raw)) (fs(tmp := None, path := Some raw))"
    using tmp by (auto simp: same_blocks_def)
  from run assms consider "r \<noteq> None" "fs' = write_failed (call e 6) tmp raw fs"
    | "r \<noteq> None" "fs' = try_remove e 10 tmp (fs(tmp := Some raw))"
    | "r = None" "fs' = fs(tmp := None, path := Some raw)"
    by (auto split: option.splits)
  then show ?thesis
  proof cases
    case 1
    with same_blocks_failed [OF tmp] show ?thesis by auto
  next
    case 2
    with same_blocks_removed [OF tmp] show ?thesis by auto
  next
    case 3
    with True h raw p last show ?thesis by blast
  qed
qed

lemma fs_inv_stored:
  assumes "fs_inv s fs" "encodeBlock s e d = Inr raw" "validBlockHash h"
    "fs1 = fs(block_target s t h := Some raw)"
  shows "fs_inv s fs1" "fs_stored s fs1 t h = Some d"
    "(sanitizePathPart t', h') \<noteq> (sanitizePathPart t, h) \<Longrightarrow> fs_stored s fs1 t' h' = fs_stored s fs t' h'"
proof -
  from assms(1) have dec: "decodeBlock s raw = Inr d"
    by (intro decode_encode [OF _ assms(2)]) (simp add: fs_inv_def)
  with assms(1) show "fs_inv s fs1" by (auto simp: fs_inv_def assms(4))
  show "fs_stored s fs1 t h = Some d" using dec assms(3) by (simp add: fs_stored_def assms(4))
  show "fs_stored s fs1 t' h' = fs_stored s fs t' h'"
    if "(sanitizePathPart t', h') \<noteq> (sanitizePathPart t, h)"
    using that by (auto simp: fs_stored_def assms(4) block_target_inj)
qed

lemma fs_put_law:
  assumes "fs_inv s fs" "fsPutBlock s e t h d fs = (r, fs')"
  shows "fs_inv s fs' \<and> (\<forall>t' h'. (sanitizePathPart t', h') \<noteq> (sanitizePathPart t, h)
      \<longrightarrow> fs_stored s fs' t' h' = fs_stored s fs t' h')
    \<and> (case r of Some x \<Rightarrow> fs_stored s fs' t h = fs_stored s fs t h
       | None \<Rightarrow> fs_stored s fs' t h
           = Some (case fs_stored s fs t h of Some d0 \<Rightarrow> d0 | None \<Rightarrow> d))"
  using fsPutBlock_effect [OF assms(2)]
proof
  assume a: "same_blocks fs fs' \<and> (r = None \<longrightarrow> validBlockHash h \<and> fs (block_target s t h) \<noteq> None)"
  then have "fs_stored s fs' = fs_stored s fs" "fs_inv s fs'"
    using same_blocks_stored same_blocks_inv assms(1) by blast+
  with a fs_stored_None [OF assms(1), of h t] show ?thesis by (auto split: option.splits)
next
  assume "r = None \<and> validBlockHash h \<and> fs (block_target s t h) = None \<and>
    (\<exists>e' raw. encodeBlock s e' d = Inr raw \<and> same_blocks (fs(block_target s t h := Some raw)) fs')"
  then obtain e' raw where b: "r = None" "validBlockHash h" "fs (block_target s t h) = None"
    "encodeBlock s e' d = Inr raw" and sb: "same_blocks (fs(block_target s t h := Some raw)) fs'" by blast
  note new = fs_inv_stored [OF assms(1) b(4,2) refl]
  from same_blocks_inv [OF sb new(1)] have "fs_inv s fs'" .
  moreover have "fs_stored s fs t h = None" using fs_stored_None [OF assms(1) b(2)] b(3) by blast
  ultimately show ?thesis
    using new(2,3) b(1) by (simp add: same_blocks_stored [OF sb])
qed

lemma file_reader_content: "reader_err (file_reader e d) = None \<Longrightarrow> content (file_reader e d) = d"
  by (auto simp: file_reader_def bytes_reader_def split: option.splits)

lemma file_reader_quiet: "quiet e \<Longrightarrow> file_reader e d = bytes_reader d"
  by (simp add: file_reader_def)

lemma bytes_reader_simps [simp]:
  "content (bytes_reader d) = d" "reader_err (bytes_reader d) = None" "read_all (bytes_reader d) = Inr d"
  by (simp_all add: bytes_reader_def read_all_def)

lemma read_file_Inr: "read_all (file_reader e raw) = Inr d \<Longrightarrow> d = raw"
  by (auto simp: read_all_Inr file_reader_content)

lemma fs_get_law:
  assumes "fs_inv s fs" "fsGetBlock s e t h fs = Inr rd"
  shows "\<exists>d. fs_stored s fs t h = Some d \<and> (reader_err rd = None \<longrightarrow> content rd = d)"
proof -
  from assms(2) have "validBlockHash h \<and> (\<exists>raw. fs (block_target s t h) = Some raw \<and>
      (if fs_aead s = None then rd = file_reader (call e 3) raw
       else \<exists>d. decodeBlock s raw = Inr d \<and> rd = bytes_reader d))"
    by (auto simp: fsGetBlock_def split: option.splits sum.splits if_splits
        dest!: blockPath_Inr read_file_Inr)
  then obtain raw where h: "validBlockHash h" and raw: "fs (block_target s t h) = Some raw"
    and rd: "if fs_aead s = None then rd = file_reader (call e 3) raw
       else \<exists>d. decodeBlock s raw = Inr d \<and> rd = bytes_reader d" by blast
  show ?thesis
  proof (cases "fs_aead s = None")
    case True
    with h raw rd file_reader_content show ?thesis by (auto simp: fs_stored_def decodeBlock_def)
  next
    case False
    with h raw rd show ?thesis by (auto simp: fs_stored_def)
  qed
qed

lemma fs_has_law:
  assumes "fs_inv s fs" "fsHasBlock s e t h fs = Inr b"
  shows "b \<longleftrightarrow> fs_stored s fs t h \<noteq> None"
proof -
  from assms(2) have "validBlockHash h \<and> b = (fs (block_target s t h) \<noteq> None)"
    by (auto simp: fsHasBlock_def split: option.splits sum.splits dest!: blockPath_Inr)
  with fs_stored_None [OF assms(1), of h t] show ?thesis by simp
qed

lemma fs_stored_removed:
  assumes "validBlockHash h"
  shows "fs_stored s (fs(block_target s t h := None)) t' h'
    = (if sanitizePathPart t' = sanitizePathPart t \<and> h' = h then None else fs_stored s fs t' h')"
  using assms by (auto simp: fs_stored_def block_target_inj)

lemma fs_inv_removed: "fs_inv s fs \<Longrightarrow> fs_inv s (fs(p := None))"
  by (simp add: fs_inv_def)

lemma fs_stored_ns: "sanitizePathPart t = sanitizePathPart t' \<Longrightarrow> fs_stored s fs t h = fs_stored s fs t' h"
  by (simp add: fs_stored_def block_target_def)

lemma fs_del_law:
  assumes "fs_inv s fs" "fsDeleteLoop s e i t hs fs = (r, fs')"
  shows "fs_inv s fs' \<and> (\<forall>t' h'. sanitizePathPart t' \<noteq> sanitizePathPart t \<or> h' \<notin> set hs
        \<longrightarrow> fs_stored s fs' t' h' = fs_stored s fs t' h')
    \<and> (\<forall>h' \<in> set hs. fs_stored s fs' t h' = fs_stored s fs t h' \<or> fs_stored s fs' t h' = None)
    \<and> (r = None \<longrightarrow> (\<forall>h' \<in> set hs. fs_stored s fs' t h' = None))"
  using assms
proof (induction s e i t hs fs rule: fsDeleteLoop.induct)
  case (2 s e i t h hs fs)
  show ?case
  proof (cases "ctx_poll (call e i) 0 = None \<and> (\<exists>p. blockPath s (call (call e i) 1) t h = Inr p)
      \<and> syscall (call e i) 2 = None")
    case False
    with 2(3) have "r \<noteq> None \<and> fs' = fs"
      by (auto split: option.splits sum.splits dest: sym)
    with 2(2) show ?thesis by auto
  next
    case True
    then obtain p where p: "blockPath s (call (call e i) 1) t h = Inr p" by blast
    from blockPath_Inr [OF p] have h: "validBlockHash h" "p = block_target s t h" by auto
    from True p 2(3) have "fsDeleteLoop s e (Suc i) t hs (fs(p := None)) = (r, fs')" by simp
    from True have polls: "ctx_poll (call e i) 0 = None" "syscall (call e i) 2 = None" by simp_all
    note ih = 2(1) [OF polls(1) p polls(2) fs_inv_removed [OF 2(2)]
      \<open>fsDeleteLoop s e (Suc i) t hs (fs(p := None)) = (r, fs')\<close>]
    have rem: "fs_stored s (fs(p := None)) t' h'
        = (if sanitizePathPart t' = sanitizePathPart t \<and> h' = h then None else fs_stored s fs t' h')" for t' h'
      unfolding h(2) by (rule fs_stored_removed [OF h(1)])
    note inv = ih [THEN conjunct1]
    note frame = ih [THEN conjunct2, THEN conjunct1, rule_format]
    note each = ih [THEN conjunct2, THEN conjunct2, THEN conjunct1, rule_format]
    note all = ih [THEN conjunct2, THEN conjunct2, THEN conjunct2, rule_format]
    have hd: "fs_stored s fs' t h = None"
      using frame [of t h] each [of h] rem [of t h] by auto
    show ?thesis
    proof (intro conjI allI impI ballI)
      fix t' h' assume "sanitizePathPart t' \<noteq> sanitizePathPart t \<or> h' \<notin> set (h # hs)"
      then show "fs_stored s fs' t' h' = fs_stored s fs t' h'"
        using frame [of t' h'] rem [of t' h'] by auto
    next
      fix h' assume "h' \<in> set (h # hs)"
      then show "fs_stored s fs' t h' = fs_stored s fs t h' \<or> fs_stored s fs' t h' = None"
        using hd each [of h'] rem [of t h'] by (auto split: if_splits)
    next
      fix h' assume "r = None" "h' \<in> set (h # hs)"
      then show "fs_stored s fs' t h' = None" using hd all by auto
    qed (rule inv)
  qed
qed simp

text \<open>The invariant and the stored blocks of a file store are those of its configuration.\<close>

interpretation fs: block_store "fs_ops s" "fs_inv s" sanitizePathPart "fs_stored s"
proof (unfold_locales, goal_cases)
  case 1
  then show ?case by (rule fs_stored_ns)
next
  case 2
  then show ?case unfolding fs_ops_def block_ops.simps by (rule fs_put_law)
next
  case 3
  then show ?case unfolding fs_ops_def block_ops.simps by (rule fs_get_law)
next
  case 4
  then show ?case unfolding fs_ops_def block_ops.simps by (rule fs_has_law)
next
  case 5
  then show ?case unfolding fs_ops_def block_ops.simps fsDeleteBlocks_def by (rule fs_del_law)
next
  case 6
  then show ?case by (auto simp: fs_ops_def fsHealthCheck_def split: option.splits)
qed

lemma fsPutBlock_quiet:
  assumes "quiet e" "validBlockHash h"
  shows "fst (fsPutBlock s e t h d fs) = None"
proof -
  obtain raw where "encodeBlock s (call e 4) d = Inr raw"
    using encodeBlock_quiet [of "call e 4" s d] assms(1) by auto
  with assms show ?thesis by (simp add: fsPutBlock_def blockPath_quiet Let_def)
qed

lemma fsDelete_quiet:
  "quiet e \<Longrightarrow> \<forall>h \<in> set hs. validBlockHash h \<Longrightarrow> fst (fsDeleteLoop s e i t hs fs) = None"
  by (induction s e i t hs fs rule: fsDeleteLoop.induct) (simp_all add: blockPath_quiet)

lemma fsGetBlock_quiet:
  assumes "quiet e" "validBlockHash h"
  shows "fsGetBlock s e t h fs = (case fs (block_target s t h) of
      None \<Rightarrow> Inl (ErrWrap h ErrBlockNotFound)
    | Some raw \<Rightarrow> (case decodeBlock s raw of Inl x \<Rightarrow> Inl x | Inr d \<Rightarrow> Inr (bytes_reader d)))"
  using assms by (auto simp: fsGetBlock_def blockPath_quiet file_reader_quiet decodeBlock_def
      split: option.split)

interpretation live_fs: live_block_store "fs_ops s" "fs_inv s" sanitizePathPart "fs_stored s" validBlockHash
proof (unfold_locales, goal_cases)
  case 1
  then show ?case by (simp add: fs_ops_def fsPutBlock_quiet)
next
  case 2
  then show ?case by (auto simp: fs_ops_def fsGetBlock_quiet fs_stored_def split: option.splits sum.splits)
next
  case (3 fs e h t)
  then show ?case by (simp add: fs_ops_def fsGetBlock_quiet fs_stored_None)
next
  case 4
  then show ?case by (simp add: fs_ops_def fsHasBlock_def blockPath_quiet)
next
  case 5
  then show ?case by (simp add: fs_ops_def fsDeleteBlocks_def fsDelete_quiet)
qed

section \<open>Retrying\<close>

record retry_options =
  ro_Timeout :: int
  ro_MaxRetries :: int
  ro_BaseDelay :: int

definition defaultRetryBaseDelay :: int where
  "defaultRetryBaseDelay = 100 * 1000000"

text \<open>The delay is computed in 64-bit arithmetic; the wait ends with the timer or the context.\<close>

definition retryDelay :: "int \<Rightarrow> nat \<Rightarrow> int" where
  "retryDelay baseDelay attempt = wrap64 (baseDelay * wrap64 (2 ^ attempt))"

definition waitRetryDelay :: "env \<Rightarrow> int \<Rightarrow> nat \<Rightarrow> err option \<times> int" where
  "waitRetryDelay e baseDelay attempt = (ctx_poll e 0, retryDelay baseDelay attempt)"

text \<open>The loop of \<open>DoWithRetry\<close> with \<open>n\<close> attempts left. It also returns the delays waited for;
  an attempt with a timeout runs under a context of its own.\<close>

definition attemptCtx :: "retry_options \<Rightarrow> env \<Rightarrow> nat \<Rightarrow> env" where
  "attemptCtx opts e attempt =
     (if 0 < ro_Timeout opts then call (call e attempt) 1 else call (call e attempt) 2)"

fun retryLoop :: "retry_options \<Rightarrow> (err \<Rightarrow> bool) option \<Rightarrow> (env \<Rightarrow> 's \<Rightarrow> err option \<times> 's) \<Rightarrow> env
    \<Rightarrow> int \<Rightarrow> nat \<Rightarrow> nat \<Rightarrow> err option \<Rightarrow> 's \<Rightarrow> int list \<Rightarrow> err option \<times> 's \<times> int list" where
  "retryLoop opts retryable operation e base attempt 0 err0 s ds = (err0, s, ds)"
| "retryLoop opts retryable operation e base attempt (Suc n) err0 s ds =
     (case ctx_poll (call e attempt) 0 of Some x \<Rightarrow> (Some x, s, ds) | None \<Rightarrow>
      (case operation (attemptCtx opts e attempt) s of (err', s') \<Rightarrow>
       if (case err' of None \<Rightarrow> True | Some x \<Rightarrow>
             (case retryable of None \<Rightarrow> True | Some f \<Rightarrow> \<not> f x)) \<or> n = 0
       then (err', s', ds)
       else (case waitRetryDelay (call (call e attempt) 3) base attempt of
               (Some x, d) \<Rightarrow> (Some x, s', ds)
             | (None, d) \<Rightarrow> retryLoop opts retryable operation e base (Suc attempt) n err' s' (ds @ [d]))))"

definition retryAttempts :: "retry_options \<Rightarrow> int" where
  "retryAttempts opts = (let attempts = add64 (ro_MaxRetries opts) 1 in if attempts < 1 then 1 else attempts)"

definition DoWithRetry :: "retry_options \<Rightarrow> (err \<Rightarrow> bool) option \<Rightarrow> (env \<Rightarrow> 's \<Rightarrow> err option \<times> 's) \<Rightarrow> env
    \<Rightarrow> 's \<Rightarrow> err option \<times> 's \<times> int list" where
  "DoWithRetry opts retryable operation e s =
     (let attempts = retryAttempts opts;
          baseDelay = (if ro_BaseDelay opts \<le> 0 then defaultRetryBaseDelay else ro_BaseDelay opts)
      in retryLoop opts retryable operation e baseDelay 0 (nat attempts) None s [])"

text \<open>The results of running the operation \<open>k\<close> times from attempt \<open>a\<close> on, and the state left.\<close>

fun op_runs :: "retry_options \<Rightarrow> (env \<Rightarrow> 's \<Rightarrow> err option \<times> 's) \<Rightarrow> env \<Rightarrow> nat \<Rightarrow> nat \<Rightarrow> 's
    \<Rightarrow> err option list \<times> 's" where
  "op_runs opts operation e a 0 s = ([], s)"
| "op_runs opts operation e a (Suc k) s =
     (case operation (attemptCtx opts e a) s of (r, s') \<Rightarrow>
      (case op_runs opts operation e (Suc a) k s' of (rs, s'') \<Rightarrow> (r # rs, s'')))"

definition retried :: "(err \<Rightarrow> bool) option \<Rightarrow> err option \<Rightarrow> bool" where
  "retried retryable r \<longleftrightarrow> (case r of None \<Rightarrow> False | Some x \<Rightarrow>
     (case retryable of None \<Rightarrow> False | Some f \<Rightarrow> f x))"

lemma length_op_runs: "op_runs opts operation e a k s = (rs, s') \<Longrightarrow> length rs = k"
  by (induction k arbitrary: a s rs) (auto split: prod.splits)

lemma retryLoop_runs:
  assumes "retryLoop opts retryable operation e base a n err0 s ds = (r, s', ds')" "0 < n"
  shows "\<exists>k rs. k \<le> n \<and> op_runs opts operation e a k s = (rs, s')
    \<and> (\<forall>i < length rs - 1. retried retryable (rs ! i))
    \<and> (r = None \<longleftrightarrow> None \<in> set rs)
    \<and> ds' = ds @ map (retryDelay base) [a..<a + length ds' - length ds]
    \<and> length ds \<le> length ds' \<and> length ds' - length ds \<le> k
    \<and> (quiet e \<longrightarrow> 0 < k \<and> r = rs ! (k - 1) \<and> (retried retryable r \<longrightarrow> k = n))"
  using assms
proof (induction n arbitrary: a err0 s ds)
  case (Suc n)
  obtain l s1 where op: "operation (attemptCtx opts e a) s = (l, s1)" by (cases "operation (attemptCtx opts e a) s")
  have retried: "retried retryable l \<longleftrightarrow> \<not> (case l of None \<Rightarrow> True | Some x \<Rightarrow>
      (case retryable of None \<Rightarrow> True | Some f \<Rightarrow> \<not> f x))"
    by (simp add: retried_def split: option.split)
  show ?case
  proof (cases "ctx_poll (call e a) 0")
    case (Some x)
    then have "\<not> quiet e" by (metis option.distinct(1) quiet_call quiet_poll)
    with Suc.prems Some show ?thesis by (intro exI [of _ 0] exI [of _ "[]"]) (auto dest: sym)
  next
    case poll: None
    show ?thesis
    proof (cases "retried retryable l \<and> n \<noteq> 0")
      case False
      with retried poll op Suc.prems(1) have eqs: "r = l" "s' = s1" "ds' = ds" by auto
      with False op show ?thesis by (intro exI [of _ 1] exI [of _ "[l]"]) auto
    next
      case True
      with retried have l: "l \<noteq> None" by (auto split: option.splits)
      show ?thesis
      proof (cases "ctx_poll (call (call e a) 3) 0")
        case (Some x)
        then have nq: "\<not> quiet e" by (metis option.distinct(1) quiet_call quiet_poll)
        from Some retried True poll op Suc.prems(1) have "r = Some x" "s' = s1" "ds' = ds"
          by (auto simp: waitRetryDelay_def)
        with True op l nq show ?thesis by (intro exI [of _ 1] exI [of _ "[l]"]) auto
      next
        case None
        with retried True poll op Suc.prems(1)
        have step: "retryLoop opts retryable operation e base (Suc a) n l s1 (ds @ [retryDelay base a]) = (r, s', ds')"
          by (auto simp: waitRetryDelay_def)
        from True have n: "0 < n" by simp
        from Suc.IH [OF step n] obtain k rs where ih: "k \<le> n" "op_runs opts operation e (Suc a) k s1 = (rs, s')"
          "\<forall>i < length rs - 1. retried retryable (rs ! i)" "r = None \<longleftrightarrow> None \<in> set rs"
          "ds' = (ds @ [retryDelay base a]) @ map (retryDelay base)
             [Suc a..<Suc a + length ds' - length (ds @ [retryDelay base a])]"
          "length (ds @ [retryDelay base a]) \<le> length ds'"
          "length ds' - length (ds @ [retryDelay base a]) \<le> k"
          "quiet e \<longrightarrow> 0 < k \<and> r = rs ! (k - 1) \<and> (retried retryable r \<longrightarrow> k = n)" by blast
        have len: "length rs = k" using length_op_runs ih(2) .
        have ds: "ds' = ds @ map (retryDelay base) [a..<a + length ds' - length ds]"
        proof -
          have "[a..<a + length ds' - length ds] = a # [Suc a..<Suc a + length ds' - length (ds @ [retryDelay base a])]"
            using ih(6) by (subst upt_rec) simp
          then show ?thesis using ih(5) by simp
        qed
        have all: "\<forall>i < length (l # rs) - 1. retried retryable ((l # rs) ! i)"
        proof (intro allI impI)
          fix i assume i: "i < length (l # rs) - 1"
          show "retried retryable ((l # rs) ! i)"
            using i True ih(3) len by (cases i) auto
        qed
        show ?thesis
        proof (intro exI conjI)
          show "Suc k \<le> Suc n" using ih(1) by simp
          show "op_runs opts operation e a (Suc k) s = (l # rs, s')" using op ih(2) by simp
          show "r = None \<longleftrightarrow> None \<in> set (l # rs)" using l ih(4) by auto
          show "quiet e \<longrightarrow> 0 < Suc k \<and> r = (l # rs) ! (Suc k - 1) \<and> (retried retryable r \<longrightarrow> Suc k = Suc n)"
          proof
            assume "quiet e"
            with ih(8) have q: "0 < k" "r = rs ! (k - 1)" "retried retryable r \<longrightarrow> k = n" by blast+
            from q(1) have "(l # rs) ! (Suc k - 1) = rs ! (k - 1)" by (cases k) simp_all
            then show "0 < Suc k \<and> r = (l # rs) ! (Suc k - 1) \<and> (retried retryable r \<longrightarrow> Suc k = Suc n)"
              unfolding q(2) [symmetric] using q(3) by (intro conjI) (simp, rule sym, assumption, simp)
          qed
          show "length ds \<le> length ds'" using ih(6) by simp
          show "length ds' - length ds \<le> Suc k" using ih(7) by simp
        qed (rule all, rule ds)
      qed
    qed
  qed
qed simp

text \<open>The namespace is coarser than the tenant name: two tenants whose names differ only in
  characters outside the safe class share their blocks.\<close>

lemma tenants_share_blocks:
  "sanitizePathPart ''a.b'' = sanitizePathPart ''a_b''"
  "fs_stored s fs ''a.b'' = fs_stored s fs ''a_b''"
proof -
  show eq: "sanitizePathPart ''a.b'' = sanitizePathPart ''a_b''"
    by code_simp
  show "fs_stored s fs ''a.b'' = fs_stored s fs ''a_b''"
    by (rule ext) (rule fs_stored_ns [OF eq])
qed

section \<open>Properties\<close>

text \<open>C14: Block paths stay below the root and do not collide. A path computed for any tenant
  name and hash extends the store's root by components that are neither empty nor \<open>.\<close> or \<open>..\<close>
  and hold no separator, and two requests get the same path only for the same hash and tenants
  that the sanitising maps to one name.\<close>

theorem block_paths_contained:
  assumes "blockPath s e t h = Inr p"
  shows "(\<exists>below. p = clean_path [] (fs_root s) @ below \<and> below \<noteq> []
        \<and> list_all (\<lambda>c. c \<noteq> [] \<and> c \<noteq> ''.'' \<and> c \<noteq> ''..'' \<and> CHR ''/'' \<notin> set c) below)
    \<and> (\<forall>e' t' h'. blockPath s e' t' h' = Inr p
        \<longrightarrow> sanitizePathPart t = sanitizePathPart t' \<and> h = h')"
proof
  from blockPath_Inr [OF assms] have h: "safe_name h" "p = block_target s t h"
    by (simp_all add: validBlockHash_safe)
  have parts: "safe_name (take 2 h)" "safe_name (sanitizePathPart t)"
    using h(1) by (simp_all add: safe_name_take sanitizePathPart_safe)
  show "\<exists>below. p = clean_path [] (fs_root s) @ below \<and> below \<noteq> []
      \<and> list_all (\<lambda>c. c \<noteq> [] \<and> c \<noteq> ''.'' \<and> c \<noteq> ''..'' \<and> CHR ''/'' \<notin> set c) below"
    using safe_name_plain [OF h(1)] safe_name_plain [OF parts(1)] safe_name_plain [OF parts(2)]
      safe_name_no_slash [OF h(1)] safe_name_no_slash [OF parts(1)] safe_name_no_slash [OF parts(2)]
    by (intro exI [of _ "[''tenants'', sanitizePathPart t, ''blocks'', take 2 h, h]"])
      (simp add: h(2) block_target_def)
  show "\<forall>e' t' h'. blockPath s e' t' h' = Inr p
      \<longrightarrow> sanitizePathPart t = sanitizePathPart t' \<and> h = h'"
    using h(2) by (auto dest!: blockPath_Inr simp: block_target_inj)
qed

definition hash_a :: string where
  "hash_a = hex_encode (replicate 32 10)"

definition store_plain :: file_store where
  "store_plain = \<lparr>fs_root = [''data''], fs_aead = None\<rparr>"

definition store_sealed :: file_store where
  "store_sealed = \<lparr>fs_root = [''data''],
     fs_aead = Some \<lparr>NonceSize = 2, Seal = (\<lambda>n d. rev (d @ n)), aeadOpen = (\<lambda>n c. Some (rev (drop 2 c)))\<rparr>\<rparr>"

lemma hash_a_valid [simp]: "validBlockHash hash_a"
  by (simp add: hash_a_def validBlockHash_hex)

lemma store_sealed_ok: "fs_inv store_sealed (\<lambda>_. None)"
  by (auto simp: fs_inv_def store_sealed_def aead_ok_def)

theorem block_paths_contained_witness:
  "\<exists>below. block_target store_plain ''../x'' hash_a = clean_path [] (fs_root store_plain) @ below \<and> below \<noteq> []
      \<and> list_all (\<lambda>c. c \<noteq> [] \<and> c \<noteq> ''.'' \<and> c \<noteq> ''..'' \<and> CHR ''/'' \<notin> set c) below"
  by (rule block_paths_contained [where e = env0, THEN conjunct1]) (rule blockPath_quiet, simp_all)

text \<open>C15: A put is atomic. Whatever fails or is cancelled on the way (leaving even a partial
  temporary file), after \<open>PutBlock\<close> the stored blocks are what they were, with the new block
  added exactly when it reports success and the block was absent; the store's invariant holds.\<close>

theorem fsPutBlock_atomic:
  assumes "fs_inv s fs" "fsPutBlock s e t h d fs = (r, fs')"
  shows "fs_inv s fs' \<and> fs_stored s fs' t' h' =
    (if r = None \<and> fs_stored s fs t h = None \<and> sanitizePathPart t' = sanitizePathPart t \<and> h' = h
     then Some d else fs_stored s fs t' h')"
proof (cases "sanitizePathPart t' = sanitizePathPart t \<and> h' = h")
  case True
  then have "fs_stored s fs' t' h' = fs_stored s fs' t h" "fs_stored s fs t' h' = fs_stored s fs t h"
    by (metis fs_stored_ns)+
  with True fs_put_law [OF assms] show ?thesis by (auto split: option.splits)
next
  case False
  note law = fs_put_law [OF assms]
  from False have "(sanitizePathPart t', h') \<noteq> (sanitizePathPart t, h)" by simp
  from law [THEN conjunct2, THEN conjunct1, rule_format, OF this] law [THEN conjunct1] False
  show ?thesis by auto
qed

theorem fsPutBlock_atomic_witness:
  "fs_stored store_sealed (snd (fsPutBlock store_sealed env0 ''t'' hash_a [1, 2, 3] (\<lambda>_. None))) ''t'' hash_a
     = Some [1, 2, 3]"
  using fsPutBlock_atomic [OF store_sealed_ok
      surjective_pairing [of "fsPutBlock store_sealed env0 ''t'' hash_a [1, 2, 3] (\<lambda>_. None)"], of "''t''" hash_a]
  by (simp add: fsPutBlock_quiet fs_stored_def)

text \<open>C16: What was put is read back. After a successful put of an absent block, and after any
  further calls on the store that do not delete this block, with whatever failures, an
  undisturbed \<open>GetBlock\<close> delivers exactly the bytes that were put, encrypted or not.\<close>

theorem file_store_roundtrip:
  assumes "fs_inv s fs" "validBlockHash h" "fs_stored s fs t h = None"
    and "fsPutBlock s e t h d fs = (None, fs')"
    and "\<And>e t' hs. (e, Delete_call t' hs) \<in> set cs \<Longrightarrow>
      sanitizePathPart t' \<noteq> sanitizePathPart t \<or> h \<notin> set hs"
    and "quiet e'"
  shows "\<exists>rd. fsGetBlock s e' t h (block_calls (fs_ops s) cs fs') = Inr rd
    \<and> reader_err rd = None \<and> content rd = d"
proof -
  have "\<forall>(e, c) \<in> set cs. fs.spares t h c"
    using assms(5) by (auto simp: fs.spares_def split: block_call.split)
  from live_fs.put_then_get [of s, unfolded fs_ops_def block_ops.simps, OF assms(1-4) this assms(6)]
  show ?thesis by (simp add: fs_ops_def)
qed

lemma sanitize_tu: "sanitizePathPart ''u'' \<noteq> sanitizePathPart ''t''"
  by code_simp

theorem file_store_roundtrip_witness:
  "\<exists>rd. fsGetBlock store_sealed env0 ''t'' hash_a (block_calls (fs_ops store_sealed)
       [(env0, Delete_call ''u'' [hash_a]), (env0, Health_call)]
       (snd (fsPutBlock store_sealed env0 ''t'' hash_a [1, 2, 3] (\<lambda>_. None)))) = Inr rd
    \<and> reader_err rd = None \<and> content rd = [1, 2, 3]"
proof (rule file_store_roundtrip [OF store_sealed_ok hash_a_valid])
  show "fsPutBlock store_sealed env0 ''t'' hash_a [1, 2, 3] (\<lambda>_. None)
    = (None, snd (fsPutBlock store_sealed env0 ''t'' hash_a [1, 2, 3] (\<lambda>_. None)))"
    by (simp add: prod_eq_iff fsPutBlock_quiet)
qed (auto simp: fs_stored_def sanitize_tu)

text \<open>A completed delete removes exactly the named blocks of the tenant's namespace, and an
  interrupted one at most these.\<close>

theorem fsDeleteBlocks_exact:
  assumes "fs_inv s fs" "fsDeleteBlocks s e t hs fs = (r, fs')"
  shows "fs_inv s fs' \<and>
    (if sanitizePathPart t' = sanitizePathPart t \<and> h' \<in> set hs
     then fs_stored s fs' t' h' = None \<or> r \<noteq> None \<and> fs_stored s fs' t' h' = fs_stored s fs t' h'
     else fs_stored s fs' t' h' = fs_stored s fs t' h')"
proof (cases "sanitizePathPart t' = sanitizePathPart t \<and> h' \<in> set hs")
  case True
  note law = fs_del_law [OF assms(1) assms(2) [unfolded fsDeleteBlocks_def]]
  from True have "fs_stored s fs' t' h' = fs_stored s fs' t h'" "fs_stored s fs t' h' = fs_stored s fs t h'"
    by (metis fs_stored_ns)+
  with law [THEN conjunct1] law [THEN conjunct2, THEN conjunct2] True show ?thesis by auto
next
  case False
  note law = fs_del_law [OF assms(1) assms(2) [unfolded fsDeleteBlocks_def]]
  from False have "sanitizePathPart t' \<noteq> sanitizePathPart t \<or> h' \<notin> set hs" by simp
  from law [THEN conjunct2, THEN conjunct1, rule_format, OF this] law [THEN conjunct1] False
  show ?thesis by auto
qed

theorem fsDeleteBlocks_exact_witness:
  "fs_stored store_sealed (snd (fsDeleteBlocks store_sealed env0 ''t'' [hash_a]
     (snd (fsPutBlock store_sealed env0 ''t'' hash_a [1, 2, 3] (\<lambda>_. None))))) ''t'' hash_a = None"
proof -
  define fs where "fs = snd (fsPutBlock store_sealed env0 ''t'' hash_a [1, 2, 3] (\<lambda>_. None))"
  have "fsPutBlock store_sealed env0 ''t'' hash_a [1, 2, 3] (\<lambda>_. None) = (None, fs)"
    by (simp add: fs_def prod_eq_iff fsPutBlock_quiet)
  from fs_put_law [OF store_sealed_ok this] have "fs_inv store_sealed fs" by simp
  from fsDeleteBlocks_exact [OF this surjective_pairing [of "fsDeleteBlocks store_sealed env0 ''t'' [hash_a] fs"],
      of "''t''" hash_a]
  show ?thesis by (simp add: fs_def [symmetric] fsDeleteBlocks_def fsDelete_quiet del: fsDeleteLoop.simps)
qed

text \<open>C17: Retrying is bounded and stops at the first final answer. \<open>DoWithRetry\<close> runs the
  operation at most \<open>max(1, MaxRetries + 1)\<close> times; every attempt but the last failed with a
  retryable error; success is reported exactly when an attempt succeeded; the delays grow as
  \<open>base * 2^attempt\<close>; and, undisturbed, the result is that of the last attempt, which is the
  last allowed one if its error was still retryable.\<close>

theorem DoWithRetry_attempts:
  assumes "DoWithRetry opts retryable operation e s = (r, s', ds)" "in_int64 (ro_MaxRetries opts + 1)"
  shows "\<exists>k rs. int k \<le> max 1 (ro_MaxRetries opts + 1) \<and> op_runs opts operation e 0 k s = (rs, s')
    \<and> (\<forall>i < length rs - 1. retried retryable (rs ! i))
    \<and> (r = None \<longleftrightarrow> None \<in> set rs)
    \<and> length ds \<le> k
    \<and> ds = map (retryDelay (if ro_BaseDelay opts \<le> 0 then defaultRetryBaseDelay else ro_BaseDelay opts)) [0..<length ds]
    \<and> (quiet e \<longrightarrow> 0 < k \<and> r = rs ! (k - 1)
        \<and> (retried retryable r \<longrightarrow> int k = max 1 (ro_MaxRetries opts + 1)))"
proof -
  have a: "retryAttempts opts = max 1 (ro_MaxRetries opts + 1)"
    using assms(2) by (auto simp: retryAttempts_def add64_id Let_def)
  then have pos: "0 < nat (retryAttempts opts)" by simp
  from retryLoop_runs [OF assms(1) [unfolded DoWithRetry_def Let_def] pos] obtain k rs where
    k: "k \<le> nat (retryAttempts opts)" and runs: "op_runs opts operation e 0 k s = (rs, s')"
      "\<forall>i < length rs - 1. retried retryable (rs ! i)" "r = None \<longleftrightarrow> None \<in> set rs"
    and ds: "ds = [] @ map (retryDelay (if ro_BaseDelay opts \<le> 0 then defaultRetryBaseDelay
        else ro_BaseDelay opts)) [0..<0 + length ds - length ([] :: int list)]" "length ds - length ([] :: int list) \<le> k"
    and q: "quiet e \<longrightarrow> 0 < k \<and> r = rs ! (k - 1) \<and> (retried retryable r \<longrightarrow> k = nat (retryAttempts opts))"
    by blast
  have "int k \<le> max 1 (ro_MaxRetries opts + 1)" using k a by simp
  moreover have "quiet e \<longrightarrow> 0 < k \<and> r = rs ! (k - 1)
      \<and> (retried retryable r \<longrightarrow> int k = max 1 (ro_MaxRetries opts + 1))"
    using q a int_nat_eq [of "retryAttempts opts"] pos by (metis zero_less_nat_eq less_imp_le)
  moreover have "length ds \<le> k" using ds(2) by simp
  moreover have "ds = map (retryDelay (if ro_BaseDelay opts \<le> 0 then defaultRetryBaseDelay
      else ro_BaseDelay opts)) [0..<length ds]"
    using ds(1) unfolding append_Nil add_0 list.size(3) diff_zero .
  ultimately show ?thesis using runs by (intro exI [of _ k] exI [of _ rs] conjI)
qed

theorem DoWithRetry_attempts_witness:
  "\<exists>k rs. int k \<le> 4 \<and> op_runs \<lparr>ro_Timeout = 0, ro_MaxRetries = 3, ro_BaseDelay = 0\<rparr>
      (\<lambda>e n. (if n < 2 then Some ErrBackendUnavailable else None, Suc n)) env0 0 k 0 = (rs, 3)
    \<and> None \<in> set rs"
proof -
  let ?o = "\<lparr>ro_Timeout = 0, ro_MaxRetries = 3, ro_BaseDelay = 0\<rparr>"
  let ?f = "\<lambda>e n :: nat. (if n < 2 then Some ErrBackendUnavailable else None, Suc n)"
  have "DoWithRetry ?o (Some (\<lambda>_. True)) ?f env0 0 = (None, 3, [100000000, 200000000])"
    by (simp add: DoWithRetry_def retryAttempts_def add64_id in_int64_def min_int64_def max_int64_def
        eval_nat_numeral waitRetryDelay_def retryDelay_def wrap64_def defaultRetryBaseDelay_def)
  from DoWithRetry_attempts [OF this] show ?thesis
    by (simp add: in_int64_def min_int64_def max_int64_def) blast
qed

end
