(* ===== verification/Limits.thy ===== *)
theory Limits
  imports Prelude
begin

text \<open>
  \<open>src/internal/limits\<close>: the disk reservation counter, the two CPU semaphores and the disk guard.
  \<open>TryReserve\<close>, \<open>Release\<close> and \<open>Acquire\<close> are loops around an atomic compare-and-swap that run
  concurrently: each is a sequence of atomic actions of one goroutine, and the step relations
  interleave the actions of any number of goroutines. The sequential functions are what one
  call does when no other goroutine intervenes; the clients in other theories use them.
\<close>

section \<open>Disk reservations\<close>

text \<open>The value to store if the reservation fits (\<open>None\<close>: \<open>ErrCapacityExceeded\<close>), and the
  value a release stores.\<close>

definition reserveNext :: "int \<Rightarrow> int \<Rightarrow> int \<Rightarrow> int option" where
  "reserveNext capacity bytes current =
     (let nxt = add64 current bytes
      in if nxt < current \<or> (0 < capacity \<and> capacity < nxt) then None else Some nxt)"

definition releaseNext :: "int \<Rightarrow> int \<Rightarrow> int" where
  "releaseNext bytes current = (let nxt = sub64 current bytes in if nxt < 0 then 0 else nxt)"

definition TryReserve :: "int \<Rightarrow> int \<Rightarrow> int \<Rightarrow> err option \<times> int" where
  "TryReserve capacity bytes used =
     (if bytes < 0 then (Some ErrCapacityExceeded, used)
      else if bytes = 0 then (None, used)
      else (case reserveNext capacity bytes used of
              None \<Rightarrow> (Some ErrCapacityExceeded, used)
            | Some nxt \<Rightarrow> (None, nxt)))"

definition Release :: "int \<Rightarrow> int \<Rightarrow> int" where
  "Release bytes used = (if bytes \<le> 0 then used else releaseNext bytes used)"

text \<open>A goroutine reserves, may be refused, holds what it reserved and releases it.\<close>

datatype reservation =
    Reserving int
  | ReserveLoaded int int
  | Refused
  | Holding int
  | Releasing int
  | ReleaseLoaded int int
  | Released

record reservations =
  rs_used :: int
  rs_threads :: "reservation multiset"

definition NewDiskReservations :: reservations where
  "NewDiskReservations = \<lparr>rs_used = 0, rs_threads = {#}\<rparr>"

inductive reserve_step :: "int \<Rightarrow> reservations \<Rightarrow> reservations \<Rightarrow> bool" for capacity :: int where
  call_negative: "(bytes :: int) < 0 \<Longrightarrow>
    reserve_step capacity \<lparr>rs_used = u, rs_threads = T\<rparr> \<lparr>rs_used = u, rs_threads = add_mset Refused T\<rparr>"
| call_zero:
    "reserve_step capacity \<lparr>rs_used = u, rs_threads = T\<rparr> \<lparr>rs_used = u, rs_threads = add_mset (Holding 0) T\<rparr>"
| call_reserve: "0 < bytes \<Longrightarrow> in_int64 bytes \<Longrightarrow>
    reserve_step capacity \<lparr>rs_used = u, rs_threads = T\<rparr>
      \<lparr>rs_used = u, rs_threads = add_mset (Reserving bytes) T\<rparr>"
| load:
    "reserve_step capacity \<lparr>rs_used = u, rs_threads = add_mset (Reserving bytes) T\<rparr>
      \<lparr>rs_used = u, rs_threads = add_mset (ReserveLoaded bytes u) T\<rparr>"
| refuse: "reserveNext capacity bytes current = None \<Longrightarrow>
    reserve_step capacity \<lparr>rs_used = u, rs_threads = add_mset (ReserveLoaded bytes current) T\<rparr>
      \<lparr>rs_used = u, rs_threads = add_mset Refused T\<rparr>"
| swap: "reserveNext capacity bytes u = Some nxt \<Longrightarrow>
    reserve_step capacity \<lparr>rs_used = u, rs_threads = add_mset (ReserveLoaded bytes u) T\<rparr>
      \<lparr>rs_used = nxt, rs_threads = add_mset (Holding bytes) T\<rparr>"
| swap_fails: "u \<noteq> current \<Longrightarrow>
    reserve_step capacity \<lparr>rs_used = u, rs_threads = add_mset (ReserveLoaded bytes current) T\<rparr>
      \<lparr>rs_used = u, rs_threads = add_mset (Reserving bytes) T\<rparr>"
| release_nothing: "bytes \<le> 0 \<Longrightarrow>
    reserve_step capacity \<lparr>rs_used = u, rs_threads = add_mset (Holding bytes) T\<rparr>
      \<lparr>rs_used = u, rs_threads = add_mset Released T\<rparr>"
| call_release: "0 < bytes \<Longrightarrow>
    reserve_step capacity \<lparr>rs_used = u, rs_threads = add_mset (Holding bytes) T\<rparr>
      \<lparr>rs_used = u, rs_threads = add_mset (Releasing bytes) T\<rparr>"
| release_load:
    "reserve_step capacity \<lparr>rs_used = u, rs_threads = add_mset (Releasing bytes) T\<rparr>
      \<lparr>rs_used = u, rs_threads = add_mset (ReleaseLoaded bytes u) T\<rparr>"
| release_swap:
    "reserve_step capacity \<lparr>rs_used = u, rs_threads = add_mset (ReleaseLoaded bytes u) T\<rparr>
      \<lparr>rs_used = releaseNext bytes u, rs_threads = add_mset Released T\<rparr>"
| release_swap_fails: "u \<noteq> current \<Longrightarrow>
    reserve_step capacity \<lparr>rs_used = u, rs_threads = add_mset (ReleaseLoaded bytes current) T\<rparr>
      \<lparr>rs_used = u, rs_threads = add_mset (Releasing bytes) T\<rparr>"

fun held :: "reservation \<Rightarrow> int" where
  "held (Holding b) = b"
| "held (Releasing b) = b"
| "held (ReleaseLoaded b c) = b"
| "held _ = 0"

fun asked :: "reservation \<Rightarrow> bool" where
  "asked (Reserving b) \<longleftrightarrow> 0 < b \<and> in_int64 b"
| "asked (ReserveLoaded b c) \<longleftrightarrow> 0 < b \<and> in_int64 b"
| "asked (Holding b) \<longleftrightarrow> 0 \<le> b \<and> in_int64 b"
| "asked (Releasing b) \<longleftrightarrow> 0 < b \<and> in_int64 b"
| "asked (ReleaseLoaded b c) \<longleftrightarrow> 0 < b \<and> in_int64 b"
| "asked _ \<longleftrightarrow> True"

definition reserve_inv :: "int \<Rightarrow> reservations \<Rightarrow> bool" where
  "reserve_inv capacity s \<longleftrightarrow> rs_used s = sum_mset (image_mset held (rs_threads s))
     \<and> in_int64 (rs_used s) \<and> (0 < capacity \<longrightarrow> rs_used s \<le> capacity)
     \<and> (\<forall>t \<in># rs_threads s. asked t)"

lemma asked_held: "asked t \<Longrightarrow> 0 \<le> held t"
  by (cases t) auto

lemma held_total: "\<forall>t \<in># T. asked t \<Longrightarrow> 0 \<le> sum_mset (image_mset held T)"
  by (induction T) (auto simp: asked_held)

lemma reserveNext_Some:
  assumes "reserveNext capacity bytes u = Some nxt" "0 < bytes" "in_int64 bytes" "0 \<le> u" "in_int64 u"
  shows "nxt = u + bytes \<and> in_int64 nxt \<and> (0 < capacity \<longrightarrow> nxt \<le> capacity)"
proof -
  from assms(1) have n: "nxt = add64 u bytes" "\<not> add64 u bytes < u" "0 < capacity \<longrightarrow> nxt \<le> capacity"
    by (auto simp: reserveNext_def Let_def split: if_splits)
  with add64_overflow [OF assms(5,3,4,2)] have "\<not> max_int64 < u + bytes" by blast
  with assms have "in_int64 (u + bytes)" by (simp add: in_int64_def min_int64_def)
  with n add64_id show ?thesis by metis
qed

lemma reserveNext_None:
  assumes "0 < bytes" "in_int64 bytes" "0 \<le> u" "in_int64 u"
  shows "reserveNext capacity bytes u = None \<longleftrightarrow>
    max_int64 < u + bytes \<or> (0 < capacity \<and> capacity < u + bytes)"
proof (cases "max_int64 < u + bytes")
  case True
  with add64_overflow [OF assms(4,2,3,1)] show ?thesis by (simp add: reserveNext_def)
next
  case False
  with assms have "add64 u bytes = u + bytes"
    by (intro add64_id) (simp add: in_int64_def min_int64_def)
  with False assms show ?thesis by (auto simp: reserveNext_def Let_def)
qed

lemma releaseNext_exact:
  assumes "0 < bytes" "bytes \<le> u" "in_int64 bytes" "in_int64 u"
  shows "releaseNext bytes u = u - bytes"
  using assms by (simp add: releaseNext_def sub64_nonneg Let_def)

lemma reserve_inv_step:
  assumes "reserve_inv capacity s" "reserve_step capacity s s'"
  shows "reserve_inv capacity s'"
  using assms(2,1)
proof (induction rule: reserve_step.induct)
  case (swap bytes u nxt T)
  then have "0 < bytes" "in_int64 bytes" "in_int64 u" "u = sum_mset (image_mset held T)"
    "\<forall>t \<in># T. asked t"
    by (auto simp: reserve_inv_def)
  moreover from this have "0 \<le> u" using held_total by blast
  ultimately show ?case
    using reserveNext_Some [OF swap(1)] by (auto simp: reserve_inv_def)
next
  case (release_swap u bytes T)
  then have inv: "0 < bytes" "in_int64 bytes" "in_int64 u" "u = bytes + sum_mset (image_mset held T)"
    "\<forall>t \<in># T. asked t" "0 < capacity \<longrightarrow> u \<le> capacity"
    by (auto simp: reserve_inv_def)
  moreover have "0 \<le> sum_mset (image_mset held T)" using inv(5) held_total by blast
  ultimately show ?case
    by (auto simp: reserve_inv_def releaseNext_exact in_int64_def min_int64_def)
qed (auto simp: reserve_inv_def in_int64_def min_int64_def max_int64_def)

definition fresh_reservations :: "reservations \<Rightarrow> bool" where
  "fresh_reservations s \<longleftrightarrow> s = NewDiskReservations"

lemma reserve_inv_init: "fresh_reservations s \<Longrightarrow> reserve_inv capacity s"
  by (simp add: fresh_reservations_def NewDiskReservations_def reserve_inv_def in_int64_def
      min_int64_def max_int64_def)

interpretation reserve: transition_system fresh_reservations "reserve_step capacity" "reserve_inv capacity"
  by (unfold_locales, erule reserve_inv_init, rule reserve_inv_step)

section \<open>The CPU semaphore\<close>

text \<open>A buffered channel of \<open>limit\<close> slots; the release function frees its slot once however often
  it is called, first marking itself released and then receiving from the channel.\<close>

datatype slot_user = SlotWaiting | SlotHeld | SlotFreeing | SlotFreed | SlotCancelled

record cpu_semaphore =
  cs_slots :: int
  cs_threads :: "slot_user multiset"

definition NewCPUSemaphore :: "int \<Rightarrow> int" where
  "NewCPUSemaphore limit = (if limit \<le> 0 then 1 else limit)"

inductive cpu_step :: "int \<Rightarrow> cpu_semaphore \<Rightarrow> cpu_semaphore \<Rightarrow> bool" for limit :: int where
  cpu_call:
    "cpu_step limit \<lparr>cs_slots = n, cs_threads = T\<rparr> \<lparr>cs_slots = n, cs_threads = add_mset SlotWaiting T\<rparr>"
| cpu_send: "n < limit \<Longrightarrow>
    cpu_step limit \<lparr>cs_slots = n, cs_threads = add_mset SlotWaiting T\<rparr>
      \<lparr>cs_slots = n + 1, cs_threads = add_mset SlotHeld T\<rparr>"
| cpu_cancelled:
    "cpu_step limit \<lparr>cs_slots = n, cs_threads = add_mset SlotWaiting T\<rparr>
      \<lparr>cs_slots = n, cs_threads = add_mset SlotCancelled T\<rparr>"
| cpu_release:
    "cpu_step limit \<lparr>cs_slots = n, cs_threads = add_mset SlotHeld T\<rparr>
      \<lparr>cs_slots = n, cs_threads = add_mset SlotFreeing T\<rparr>"
| cpu_receive: "0 < n \<Longrightarrow>
    cpu_step limit \<lparr>cs_slots = n, cs_threads = add_mset SlotFreeing T\<rparr>
      \<lparr>cs_slots = n - 1, cs_threads = add_mset SlotFreed T\<rparr>"
| cpu_release_again: "u = SlotFreeing \<or> u = SlotFreed \<Longrightarrow>
    cpu_step limit \<lparr>cs_slots = n, cs_threads = add_mset u T\<rparr> \<lparr>cs_slots = n, cs_threads = add_mset u T\<rparr>"

definition slot_owner :: "slot_user \<Rightarrow> bool" where
  "slot_owner u \<longleftrightarrow> u = SlotHeld \<or> u = SlotFreeing"

definition cpu_inv :: "int \<Rightarrow> cpu_semaphore \<Rightarrow> bool" where
  "cpu_inv limit s \<longleftrightarrow> cs_slots s = int (size (filter_mset slot_owner (cs_threads s)))
     \<and> cs_slots s \<le> limit"

definition fresh_cpu :: "cpu_semaphore \<Rightarrow> bool" where
  "fresh_cpu s \<longleftrightarrow> s = \<lparr>cs_slots = 0, cs_threads = {#}\<rparr>"

lemma NewCPUSemaphore_pos: "1 \<le> NewCPUSemaphore limit"
  by (simp add: NewCPUSemaphore_def)

lemma cpu_inv_step: "cpu_inv limit s \<Longrightarrow> cpu_step limit s s' \<Longrightarrow> cpu_inv limit s'"
  by (erule cpu_step.cases) (auto simp: cpu_inv_def slot_owner_def)

interpretation cpu: transition_system fresh_cpu "cpu_step (NewCPUSemaphore limit)" "cpu_inv (NewCPUSemaphore limit)"
  by (unfold_locales, simp add: fresh_cpu_def cpu_inv_def NewCPUSemaphore_def, rule cpu_inv_step)

section \<open>The adaptive semaphore\<close>

record adaptive =
  as_maxLimit :: int
  as_headroom :: int
  as_limitFloor :: int

record adaptive_state =
  as_active :: int
  as_waiting :: int
  as_acquireTotal :: int
  as_queueTotal :: int
  as_queueNanos :: int

definition NewAdaptiveCPUSemaphore :: "int \<Rightarrow> int \<Rightarrow> int \<Rightarrow> adaptive" where
  "NewAdaptiveCPUSemaphore numCPU maxLimit headroom =
     \<lparr>as_maxLimit = (if maxLimit \<le> 0 then numCPU else maxLimit),
      as_headroom = (if headroom < 0 then 0 else headroom), as_limitFloor = 1\<rparr>"

text \<open>\<open>Limit\<close> for the current value of \<open>GOMAXPROCS\<close>; a nil semaphore has limit 1.\<close>

definition adaptiveLimit :: "adaptive option \<Rightarrow> int \<Rightarrow> int" where
  "adaptiveLimit so procs =
     (case so of None \<Rightarrow> 1 | Some s \<Rightarrow>
        let limit0 = procs - as_headroom s;
            limit1 = (if limit0 < as_limitFloor s then as_limitFloor s else limit0)
        in if 0 < as_maxLimit s \<and> as_maxLimit s < limit1 then as_maxLimit s else limit1)"

record adaptive_snapshot =
  asn_Limit :: int
  asn_Active :: int
  asn_Waiting :: int
  asn_AcquiresTotal :: int
  asn_QueuedTotal :: int
  asn_QueueWaitNanos :: int

definition adaptiveSnapshot :: "adaptive \<Rightarrow> int \<Rightarrow> adaptive_state \<Rightarrow> adaptive_snapshot" where
  "adaptiveSnapshot s procs st =
     \<lparr>asn_Limit = adaptiveLimit (Some s) procs, asn_Active = as_active st, asn_Waiting = as_waiting st,
      asn_AcquiresTotal = as_acquireTotal st, asn_QueuedTotal = as_queueTotal st,
      asn_QueueWaitNanos = as_queueNanos st\<rparr>"

text \<open>The places of a goroutine in \<open>Acquire\<close> and in the release function: trying, having loaded
  \<open>active\<close>, the counters after a successful swap, the deferred decrement of \<open>waiting\<close>, holding,
  releasing. The flag tells whether it has been counted as waiting.\<close>

datatype adaptive_user =
    ATrying bool
  | ALoaded bool int
  | ASleeping
  | ACounting bool
  | AQueueTotal
  | AQueueNanos
  | ADeferHeld
  | ADeferFailed
  | AHeld
  | AReleasing
  | AReleased
  | AFailed

type_synonym adaptive_system = "adaptive_state \<times> adaptive_user multiset"

inductive adaptive_step :: "adaptive \<Rightarrow> adaptive_system \<Rightarrow> adaptive_system \<Rightarrow> bool" for s :: adaptive where
  ad_call: "adaptive_step s (st, T) (st, add_mset (ATrying False) T)"
| ad_cancelled: "adaptive_step s (st, add_mset (ATrying q) T)
    (st, add_mset (if q then ADeferFailed else AFailed) T)"
| ad_load: "adaptive_step s (st, add_mset (ATrying q) T) (st, add_mset (ALoaded q (as_active st)) T)"
| ad_swap: "a < adaptiveLimit (Some s) procs \<Longrightarrow> as_active st = a \<Longrightarrow>
    adaptive_step s (st, add_mset (ALoaded q a) T) (st\<lparr>as_active := a + 1\<rparr>, add_mset (ACounting q) T)"
| ad_full: "\<not> a < adaptiveLimit (Some s) procs \<or> as_active st \<noteq> a \<Longrightarrow>
    adaptive_step s (st, add_mset (ALoaded q a) T)
      (if q then st else st\<lparr>as_waiting := as_waiting st + 1\<rparr>, add_mset ASleeping T)"
| ad_timer: "adaptive_step s (st, add_mset ASleeping T) (st, add_mset (ATrying True) T)"
| ad_sleep_cancelled: "adaptive_step s (st, add_mset ASleeping T) (st, add_mset ADeferFailed T)"
| ad_count: "adaptive_step s (st, add_mset (ACounting q) T)
    (st\<lparr>as_acquireTotal := as_acquireTotal st + 1\<rparr>, add_mset (if q then AQueueTotal else AHeld) T)"
| ad_queue_total: "adaptive_step s (st, add_mset AQueueTotal T)
    (st\<lparr>as_queueTotal := as_queueTotal st + 1\<rparr>, add_mset AQueueNanos T)"
| ad_queue_nanos: "0 \<le> wait \<Longrightarrow> adaptive_step s (st, add_mset AQueueNanos T)
    (st\<lparr>as_queueNanos := as_queueNanos st + wait\<rparr>, add_mset ADeferHeld T)"
| ad_defer_held: "adaptive_step s (st, add_mset ADeferHeld T)
    (st\<lparr>as_waiting := as_waiting st - 1\<rparr>, add_mset AHeld T)"
| ad_defer_failed: "adaptive_step s (st, add_mset ADeferFailed T)
    (st\<lparr>as_waiting := as_waiting st - 1\<rparr>, add_mset AFailed T)"
| ad_release: "adaptive_step s (st, add_mset AHeld T) (st, add_mset AReleasing T)"
| ad_release_add: "adaptive_step s (st, add_mset AReleasing T)
    (st\<lparr>as_active := as_active st - 1\<rparr>, add_mset AReleased T)"
| ad_release_again: "u = AReleasing \<or> u = AReleased \<Longrightarrow>
    adaptive_step s (st, add_mset u T) (st, add_mset u T)"

definition counted_active :: "adaptive_user \<Rightarrow> bool" where
  "counted_active u \<longleftrightarrow> (case u of ACounting q \<Rightarrow> True | AQueueTotal \<Rightarrow> True | AQueueNanos \<Rightarrow> True
     | ADeferHeld \<Rightarrow> True | AHeld \<Rightarrow> True | AReleasing \<Rightarrow> True | _ \<Rightarrow> False)"

definition counted_waiting :: "adaptive_user \<Rightarrow> bool" where
  "counted_waiting u \<longleftrightarrow> (case u of ATrying q \<Rightarrow> q | ALoaded q a \<Rightarrow> q | ASleeping \<Rightarrow> True
     | ACounting q \<Rightarrow> q | AQueueTotal \<Rightarrow> True | AQueueNanos \<Rightarrow> True | ADeferHeld \<Rightarrow> True
     | ADeferFailed \<Rightarrow> True | _ \<Rightarrow> False)"

definition adaptive_inv :: "adaptive \<Rightarrow> adaptive_system \<Rightarrow> bool" where
  "adaptive_inv s w \<longleftrightarrow> (case w of (st, T) \<Rightarrow>
     as_active st = int (size (filter_mset counted_active T)) \<and> as_active st \<le> as_maxLimit s
     \<and> as_waiting st = int (size (filter_mset counted_waiting T)))"

definition fresh_adaptive :: "adaptive_system \<Rightarrow> bool" where
  "fresh_adaptive w \<longleftrightarrow> w = (\<lparr>as_active = 0, as_waiting = 0, as_acquireTotal = 0, as_queueTotal = 0,
     as_queueNanos = 0\<rparr>, {#})"

lemma adaptiveLimit_bounds:
  assumes "0 < as_maxLimit s" "0 < as_limitFloor s"
  shows "1 \<le> adaptiveLimit (Some s) procs \<and> adaptiveLimit (Some s) procs \<le> as_maxLimit s"
  using assms by (auto simp: adaptiveLimit_def Let_def)

lemma adaptive_inv_step:
  assumes "adaptive_inv s w" "adaptive_step s w w'" "0 < as_maxLimit s" "0 < as_limitFloor s"
  shows "adaptive_inv s w'"
  using assms(2,1)
proof (induction rule: adaptive_step.induct)
  case (ad_swap a procs st q T)
  with adaptiveLimit_bounds [OF assms(3,4), of procs] show ?case
    by (auto simp: adaptive_inv_def counted_active_def counted_waiting_def)
qed (auto simp: adaptive_inv_def counted_active_def counted_waiting_def)

lemma NewAdaptive_bounds:
  "0 < numCPU \<Longrightarrow> 0 < as_maxLimit (NewAdaptiveCPUSemaphore numCPU m h)
    \<and> 0 < as_limitFloor (NewAdaptiveCPUSemaphore numCPU m h)"
  by (simp add: NewAdaptiveCPUSemaphore_def)

text \<open>A machine has at least one processor, which \<open>Suc n\<close> says.\<close>

interpretation adaptive: transition_system fresh_adaptive
  "adaptive_step (NewAdaptiveCPUSemaphore (int (Suc n)) m h)"
  "adaptive_inv (NewAdaptiveCPUSemaphore (int (Suc n)) m h)"
proof (unfold_locales, goal_cases)
  case (1 w)
  then show ?case
    using NewAdaptive_bounds [of "int (Suc n)" m h] by (simp add: fresh_adaptive_def adaptive_inv_def)
next
  case (2 w w')
  then show ?case using NewAdaptive_bounds [of "int (Suc n)" m h] adaptive_inv_step by auto
qed

section \<open>The disk guard\<close>

record disk_guard =
  dg_Path :: string
  dg_MinFreeBytes :: int
  dg_Reservations :: "int option"

text \<open>The capacity stands for the reservation counter whose value the operations thread. A nil
  guard admits everything.\<close>

definition NewDiskGuard :: "string \<Rightarrow> int option \<Rightarrow> int \<Rightarrow> disk_guard" where
  "NewDiskGuard path reservations minFreeBytes =
     \<lparr>dg_Path = path, dg_MinFreeBytes = (if minFreeBytes < 0 then 0 else minFreeBytes),
      dg_Reservations = reservations\<rparr>"

text \<open>\<open>AvailableBytes\<close>: the \<open>statfs\<close> answer or its failure.\<close>

definition AvailableBytes :: "env \<Rightarrow> err + int" where
  "AvailableBytes e = (case syscall e 0 of Some x \<Rightarrow> Inl x | None \<Rightarrow> Inr (avail e 0))"

definition guardCheck :: "disk_guard option \<Rightarrow> env \<Rightarrow> int \<Rightarrow> int \<Rightarrow> err option" where
  "guardCheck go e additionalBytes used =
     (case go of None \<Rightarrow> None | Some g \<Rightarrow>
      if additionalBytes < 0 then Some ErrCapacityExceeded else
      (case ctx_poll e 0 of Some x \<Rightarrow> Some x | None \<Rightarrow>
       (case AvailableBytes (call e 1) of
          Inl x \<Rightarrow> Some (ErrWrap ''check scratch free space'' x)
        | Inr available \<Rightarrow>
            (let reserved = (case dg_Reservations g of None \<Rightarrow> 0 | Some _ \<Rightarrow> used)
             in if sub64 (sub64 available reserved) additionalBytes < dg_MinFreeBytes g
                then Some ErrInsufficientDisk else None))))"

definition guardRelease :: "disk_guard option \<Rightarrow> int \<Rightarrow> int \<Rightarrow> int" where
  "guardRelease go bytes used =
     (case go of Some g \<Rightarrow> (case dg_Reservations g of Some _ \<Rightarrow> Release bytes used | None \<Rightarrow> used)
      | None \<Rightarrow> used)"

definition guardTryReserve :: "disk_guard option \<Rightarrow> env \<Rightarrow> int \<Rightarrow> int \<Rightarrow> err option \<times> int" where
  "guardTryReserve go e bytes used =
     (case go of None \<Rightarrow> (None, used) | Some g \<Rightarrow>
      (case ctx_poll e 0 of Some x \<Rightarrow> (Some x, used) | None \<Rightarrow>
       (case (case dg_Reservations g of
                Some capacity \<Rightarrow> TryReserve capacity bytes used | None \<Rightarrow> (None, used)) of
          (Some x, used1) \<Rightarrow> (Some x, used1)
        | (None, used1) \<Rightarrow>
            (case guardCheck go (call e 1) 0 used1 of
               Some x \<Rightarrow> (Some x, case dg_Reservations g of
                   Some _ \<Rightarrow> Release bytes used1 | None \<Rightarrow> used1)
             | None \<Rightarrow> (None, used1)))))"

lemma TryReserve_spec:
  assumes "0 \<le> used" "in_int64 used" "in_int64 bytes"
  shows "TryReserve capacity bytes used =
    (if bytes < 0 \<or> bytes \<noteq> 0 \<and> (max_int64 < used + bytes \<or> 0 < capacity \<and> capacity < used + bytes)
     then (Some ErrCapacityExceeded, used) else (None, used + bytes))"
proof -
  consider "bytes < 0" | "bytes = 0" | "0 < bytes" by linarith
  then show ?thesis
  proof cases
    case 3
    show ?thesis
    proof (cases "reserveNext capacity bytes used")
      case None
      with 3 reserveNext_None [OF 3 assms(3,1,2), of capacity] show ?thesis by (auto simp: TryReserve_def)
    next
      case (Some nxt)
      with 3 reserveNext_None [OF 3 assms(3,1,2), of capacity] reserveNext_Some [OF Some 3 assms(3,1,2)]
      show ?thesis by (auto simp: TryReserve_def)
    qed
  qed (auto simp: TryReserve_def)
qed

lemma Release_spec:
  "in_int64 used \<Longrightarrow> in_int64 bytes \<Longrightarrow> 0 \<le> bytes \<Longrightarrow> bytes \<le> used \<Longrightarrow> Release bytes used = used - bytes"
  using releaseNext_exact [of bytes used] by (auto simp: Release_def)

lemma Release_range: "in_int64 used \<Longrightarrow> 0 \<le> used \<Longrightarrow> in_int64 bytes \<Longrightarrow>
    0 \<le> Release bytes used \<and> Release bytes used \<le> used \<and> in_int64 (Release bytes used)"
  by (auto simp: Release_def releaseNext_def sub64_nonneg Let_def in_int64_def min_int64_def max_int64_def)

section \<open>Properties\<close>

text \<open>C18: Reservations are accounted for exactly. However the goroutines' compare-and-swap loops
  interleave, the counter equals the sum of the reservations currently held, it is never
  negative, never above a positive capacity, and zero when nothing is held; so the clamping in
  \<open>Release\<close> never takes effect and no sum overflows.\<close>

theorem reservations_exact:
  assumes "(reserve_step capacity)\<^sup>*\<^sup>* NewDiskReservations s"
  shows "rs_used s = sum_mset (image_mset held (rs_threads s)) \<and> 0 \<le> rs_used s
    \<and> (0 < capacity \<longrightarrow> rs_used s \<le> capacity)
    \<and> ((\<forall>t \<in># rs_threads s. t = Refused \<or> t = Released) \<longrightarrow> rs_used s = 0)"
proof -
  have "reserve_inv capacity s"
    by (rule reserve.inv_reachable [OF _ assms]) (simp add: fresh_reservations_def)
  then have inv: "rs_used s = sum_mset (image_mset held (rs_threads s))" "0 < capacity \<longrightarrow> rs_used s \<le> capacity"
    "\<forall>t \<in># rs_threads s. asked t" by (auto simp: reserve_inv_def)
  moreover have "0 \<le> rs_used s" using inv held_total by simp
  moreover have "sum_mset (image_mset held T) = 0" if "\<forall>t \<in># T. t = Refused \<or> t = Released" for T
    using that by (induction T) auto
  ultimately show ?thesis by simp
qed

theorem reservations_exact_witness:
  "\<exists>s. (reserve_step 10)\<^sup>*\<^sup>* NewDiskReservations s \<and> rs_used s = 7
     \<and> sum_mset (image_mset held (rs_threads s)) = 7"
proof -
  let ?s1 = "\<lparr>rs_used = 0, rs_threads = add_mset (Reserving 7) {#}\<rparr>"
  let ?s2 = "\<lparr>rs_used = 0, rs_threads = add_mset (ReserveLoaded 7 0) {#}\<rparr>"
  let ?s3 = "\<lparr>rs_used = 7, rs_threads = add_mset (Holding 7) {#}\<rparr>"
  have "reserve_step 10 NewDiskReservations ?s1"
    unfolding NewDiskReservations_def
    by (rule call_reserve) (simp_all add: in_int64_def min_int64_def max_int64_def)
  moreover have "reserve_step 10 ?s1 ?s2" by (rule load)
  moreover have "reserve_step 10 ?s2 ?s3"
    by (rule swap) (simp add: reserveNext_def add64_def wrap64_def)
  ultimately have "(reserve_step 10)\<^sup>*\<^sup>* NewDiskReservations ?s3"
    by (meson converse_rtranclp_into_rtranclp rtranclp.rtrancl_refl)
  with reservations_exact [OF this] show ?thesis by (intro exI [of _ ?s3]) simp
qed

text \<open>C19: The CPU semaphores bound the work in flight. In every interleaving of acquires,
  cancellations, and (repeated) releases the channel semaphore holds one slot per user and at
  most its limit; the adaptive one counts exactly the admitted users, at most \<open>maxLimit\<close> of them
  whatever \<open>GOMAXPROCS\<close> does meanwhile, and its waiting gauge is exactly the number of queued
  goroutines.\<close>

theorem semaphores_bounded:
  assumes "fresh_cpu c" "(cpu_step (NewCPUSemaphore limit))\<^sup>*\<^sup>* c c'"
    and "fresh_adaptive w" "(adaptive_step (NewAdaptiveCPUSemaphore (int (Suc n)) m h))\<^sup>*\<^sup>* w (st, T)"
  shows "int (size (filter_mset slot_owner (cs_threads c'))) = cs_slots c'
    \<and> cs_slots c' \<le> max 1 limit
    \<and> int (size (filter_mset counted_active T)) = as_active st
    \<and> as_active st \<le> (if 0 < m then m else int (Suc n))
    \<and> as_waiting st = int (size (filter_mset counted_waiting T))"
proof -
  from cpu.inv_reachable [OF assms(1,2)] have "cpu_inv (NewCPUSemaphore limit) c'" .
  moreover from adaptive.inv_reachable [OF assms(3,4)]
  have "adaptive_inv (NewAdaptiveCPUSemaphore (int (Suc n)) m h) (st, T)" .
  ultimately show ?thesis
    by (auto simp: cpu_inv_def adaptive_inv_def NewCPUSemaphore_def NewAdaptiveCPUSemaphore_def
        split: if_splits)
qed

theorem semaphores_bounded_witness:
  "\<exists>c'. (cpu_step 1)\<^sup>*\<^sup>* \<lparr>cs_slots = 0, cs_threads = {#}\<rparr> c'
     \<and> cs_slots c' = 1 \<and> int (size (filter_mset slot_owner (cs_threads c'))) = 1"
proof -
  let ?c1 = "\<lparr>cs_slots = 0, cs_threads = add_mset SlotWaiting {#}\<rparr>"
  let ?c2 = "\<lparr>cs_slots = 0 + 1, cs_threads = add_mset SlotHeld {#}\<rparr>"
  have "cpu_step 1 \<lparr>cs_slots = 0, cs_threads = {#}\<rparr> ?c1" by (rule cpu_call)
  moreover have "cpu_step 1 ?c1 ?c2" by (rule cpu_send) simp
  ultimately have steps: "(cpu_step 1)\<^sup>*\<^sup>* \<lparr>cs_slots = 0, cs_threads = {#}\<rparr> ?c2"
    by (meson converse_rtranclp_into_rtranclp rtranclp.rtrancl_refl)
  then have "(cpu_step (NewCPUSemaphore 0))\<^sup>*\<^sup>* \<lparr>cs_slots = 0, cs_threads = {#}\<rparr> ?c2"
    by (simp add: NewCPUSemaphore_def)
  moreover have "fresh_cpu \<lparr>cs_slots = 0, cs_threads = {#}\<rparr>" by (simp add: fresh_cpu_def)
  moreover have "fresh_adaptive (\<lparr>as_active = 0, as_waiting = 0, as_acquireTotal = 0, as_queueTotal = 0,
      as_queueNanos = 0\<rparr>, {#})" by (simp add: fresh_adaptive_def)
  ultimately have "int (size (filter_mset slot_owner (cs_threads ?c2))) = cs_slots ?c2"
    using semaphores_bounded [OF _ _ _ rtranclp.rtrancl_refl] by blast
  with steps show ?thesis by (intro exI [of _ ?c2]) simp
qed

text \<open>The disk guard is all or nothing. When \<open>TryReserve\<close> succeeds the bytes are on the
  counter, which stays within the capacity, and what is available minus everything reserved is
  at least the configured minimum; when it fails, for whatever reason, the counter is unchanged.\<close>

theorem guardTryReserve_exact:
  assumes "guardTryReserve (Some g) e bytes used = (r, used')"
    and "dg_Reservations g = Some capacity" "0 \<le> used" "in_int64 used" "in_int64 bytes"
    and "\<And>p. 0 \<le> disk_avail e p \<and> in_int64 (disk_avail e p)"
  shows "case r of
      Some x \<Rightarrow> used' = used
    | None \<Rightarrow> used' = used + bytes \<and> 0 \<le> bytes \<and> (0 < capacity \<longrightarrow> used' \<le> capacity \<or> bytes = 0)
        \<and> dg_MinFreeBytes g \<le> avail (call (call e 1) 1) 0 - used'"
proof -
  let ?a = "avail (call (call e 1) 1) 0"
  have a: "0 \<le> ?a" "in_int64 ?a" using assms(6) by (simp_all add: avail_def call_def)
  show ?thesis
  proof (cases "TryReserve capacity bytes used")
    case (Pair x used1)
    note spec = TryReserve_spec [OF assms(3-5), of capacity]
    show ?thesis
    proof (cases x)
      case (Some y)
      with Pair assms(1,2) spec show ?thesis
        by (auto simp: guardTryReserve_def split: option.splits if_splits)
    next
      case None
      with Pair spec have u: "used1 = used + bytes" "0 \<le> bytes" "used + bytes \<le> max_int64"
        "0 < capacity \<longrightarrow> used1 \<le> capacity \<or> bytes = 0"
        using assms(4) by (auto simp: in_int64_def split: if_splits)
      then have i: "in_int64 used1" using assms(3) by (simp add: in_int64_def min_int64_def)
      have rel: "Release bytes used1 = used"
        using Release_spec [OF i assms(5) u(2)] u(1) assms(3) by simp
      have s: "sub64 (sub64 ?a used1) 0 = ?a - used1"
        using a i u assms(3) by (simp add: sub64_nonneg sub64_id in_int64_def min_int64_def max_int64_def)
      from None Pair assms(1,2) rel s u show ?thesis
        by (auto simp: guardTryReserve_def guardCheck_def AvailableBytes_def Let_def
            split: option.splits if_splits sum.splits)
    qed
  qed
qed

lemma env0_disk: "disk_avail env0 p = 1000"
  by (simp add: env0_def)

theorem guardTryReserve_exact_witness:
  "guardTryReserve (Some \<lparr>dg_Path = ''/s'', dg_MinFreeBytes = 900, dg_Reservations = Some 500\<rparr>) env0 60 40
     = (None, 100) \<and> (900 :: int) \<le> 1000 - 100"
proof -
  have g: "guardTryReserve (Some \<lparr>dg_Path = ''/s'', dg_MinFreeBytes = 900, dg_Reservations = Some 500\<rparr>) env0 60 40
      = (None, 100)"
    by (simp add: guardTryReserve_def guardCheck_def AvailableBytes_def TryReserve_def reserveNext_def
        add64_def sub64_def wrap64_def)
  from guardTryReserve_exact [OF g, of 500] show ?thesis
    by (simp add: g in_int64_def min_int64_def max_int64_def env0_disk)
qed

end
