(* ===== verification/Ops.thy ===== *)
theory Ops
  imports Prelude
begin

text \<open>
  \<open>src/internal/ops\<close>: the drain gate that lets active uploads finish while refusing new ones, as a
  step relation over the atomic actions of any number of goroutines, and the request metrics.
\<close>

section \<open>Draining\<close>

text \<open>The places of a goroutine that calls \<open>Begin\<close> and later the function it returned: before the
  first load of \<open>draining\<close>, between that and \<open>wg.Add\<close>, between that and the second load, about to
  undo the \<open>Add\<close>, refused, admitted, having marked itself done, finished.\<close>

datatype worker =
    Entering
  | Checked
  | Added
  | Undoing
  | TurnedAway
  | Working
  | Leaving
  | Finished

record drain =
  dr_draining :: bool
  dr_wg :: int
  dr_workers :: "worker multiset"

definition zeroDrain :: drain where
  "zeroDrain = \<lparr>dr_draining = False, dr_wg = 0, dr_workers = {#}\<rparr>"

inductive drain_step :: "drain \<Rightarrow> drain \<Rightarrow> bool" where
  dr_call: "drain_step \<lparr>dr_draining = d, dr_wg = n, dr_workers = W\<rparr>
    \<lparr>dr_draining = d, dr_wg = n, dr_workers = add_mset Entering W\<rparr>"
| dr_first_load: "drain_step \<lparr>dr_draining = d, dr_wg = n, dr_workers = add_mset Entering W\<rparr>
    \<lparr>dr_draining = d, dr_wg = n, dr_workers = add_mset (if d then TurnedAway else Checked) W\<rparr>"
| dr_add: "drain_step \<lparr>dr_draining = d, dr_wg = n, dr_workers = add_mset Checked W\<rparr>
    \<lparr>dr_draining = d, dr_wg = n + 1, dr_workers = add_mset Added W\<rparr>"
| dr_second_load: "drain_step \<lparr>dr_draining = d, dr_wg = n, dr_workers = add_mset Added W\<rparr>
    \<lparr>dr_draining = d, dr_wg = n, dr_workers = add_mset (if d then Undoing else Working) W\<rparr>"
| dr_undo: "drain_step \<lparr>dr_draining = d, dr_wg = n, dr_workers = add_mset Undoing W\<rparr>
    \<lparr>dr_draining = d, dr_wg = n - 1, dr_workers = add_mset TurnedAway W\<rparr>"
| dr_finish: "drain_step \<lparr>dr_draining = d, dr_wg = n, dr_workers = add_mset Working W\<rparr>
    \<lparr>dr_draining = d, dr_wg = n, dr_workers = add_mset Leaving W\<rparr>"
| dr_done: "drain_step \<lparr>dr_draining = d, dr_wg = n, dr_workers = add_mset Leaving W\<rparr>
    \<lparr>dr_draining = d, dr_wg = n - 1, dr_workers = add_mset Finished W\<rparr>"
| dr_finish_again: "w = Leaving \<or> w = Finished \<Longrightarrow>
    drain_step \<lparr>dr_draining = d, dr_wg = n, dr_workers = add_mset w W\<rparr>
      \<lparr>dr_draining = d, dr_wg = n, dr_workers = add_mset w W\<rparr>"
| dr_start: "drain_step \<lparr>dr_draining = d, dr_wg = n, dr_workers = W\<rparr>
    \<lparr>dr_draining = True, dr_wg = n, dr_workers = W\<rparr>"

inductive_cases drain_stepE: "drain_step s s'"

text \<open>\<open>Wait\<close> may return nil when the wait group is at zero; otherwise only with the context's
  error. A nil gate never drains and never waits.\<close>

definition drainWait :: "env \<Rightarrow> drain option \<Rightarrow> err option option" where
  "drainWait e d =
     (case d of None \<Rightarrow> Some None
      | Some s \<Rightarrow> (if dr_wg s = 0 then Some None
          else (case ctx_poll e 0 of Some x \<Rightarrow> Some (Some x) | None \<Rightarrow> None)))"

definition IsDraining :: "drain option \<Rightarrow> bool" where
  "IsDraining d = (case d of None \<Rightarrow> False | Some s \<Rightarrow> dr_draining s)"

definition in_group :: "worker \<Rightarrow> bool" where
  "in_group w \<longleftrightarrow> w = Added \<or> w = Undoing \<or> w = Working \<or> w = Leaving"

definition drain_inv :: "drain \<Rightarrow> bool" where
  "drain_inv s \<longleftrightarrow> dr_wg s = int (size (filter_mset in_group (dr_workers s)))"

definition drain_init :: "drain \<Rightarrow> bool" where
  "drain_init s \<longleftrightarrow> s = zeroDrain"

lemma drain_inv_step: "drain_inv s \<Longrightarrow> drain_step s s' \<Longrightarrow> drain_inv s'"
  by (erule drain_stepE) (auto simp: drain_inv_def in_group_def)

interpretation drain: transition_system drain_init drain_step drain_inv
  by (unfold_locales, simp add: drain_init_def zeroDrain_def drain_inv_def, rule drain_inv_step)

text \<open>Drained: draining has started and nobody is working or leaving.\<close>

definition no_work :: "drain \<Rightarrow> bool" where
  "no_work s \<longleftrightarrow> dr_draining s \<and> Working \<notin># dr_workers s \<and> Leaving \<notin># dr_workers s"

lemma no_work_step: "no_work s \<Longrightarrow> drain_step s s' \<Longrightarrow> no_work s'"
  by (erule drain_stepE) (auto simp: no_work_def)

lemma group_member:
  assumes "drain_inv s" "w \<in># dr_workers s" "in_group w"
  shows "0 < dr_wg s"
proof -
  have "w \<in># filter_mset in_group (dr_workers s)" using assms(2,3) by simp
  then have "filter_mset in_group (dr_workers s) \<noteq> {#}" by auto
  with assms(1) show ?thesis by (simp add: drain_inv_def nonempty_has_size [symmetric])
qed

section \<open>Metrics\<close>

record metrics =
  requestsTotal :: int
  requestErrorsTotal :: int
  activeRequests :: int
  rejectedRequests :: int
  activeUploads :: int
  uploadsTotal :: int
  uploadFailures :: int
  uploadedBytes :: int
  chunksTotal :: int
  chunkBytes :: int

definition NewMetrics :: metrics where
  "NewMetrics = \<lparr>requestsTotal = 0, requestErrorsTotal = 0, activeRequests = 0, rejectedRequests = 0,
     activeUploads = 0, uploadsTotal = 0, uploadFailures = 0, uploadedBytes = 0, chunksTotal = 0,
     chunkBytes = 0\<rparr>"

text \<open>A nil receiver (\<open>None\<close>) ignores every call. The two halves of \<open>StartRequest\<close> and of
  \<open>StartUpload\<close> are the call and the function it returns.\<close>

definition StartRequest :: "metrics option \<Rightarrow> metrics option" where
  "StartRequest = map_option (\<lambda>m. m\<lparr>requestsTotal := add64 (requestsTotal m) 1,
     activeRequests := add64 (activeRequests m) 1\<rparr>)"

definition FinishRequest :: "int \<Rightarrow> metrics option \<Rightarrow> metrics option" where
  "FinishRequest status = map_option (\<lambda>m.
     let m1 = m\<lparr>activeRequests := sub64 (activeRequests m) 1\<rparr>
     in if 400 \<le> status then m1\<lparr>requestErrorsTotal := add64 (requestErrorsTotal m1) 1\<rparr> else m1)"

definition RejectRequest :: "metrics option \<Rightarrow> metrics option" where
  "RejectRequest = map_option (\<lambda>m. m\<lparr>rejectedRequests := add64 (rejectedRequests m) 1\<rparr>)"

definition StartUpload :: "metrics option \<Rightarrow> metrics option" where
  "StartUpload = map_option (\<lambda>m. m\<lparr>uploadsTotal := add64 (uploadsTotal m) 1,
     activeUploads := add64 (activeUploads m) 1\<rparr>)"

definition FinishUpload :: "bool \<Rightarrow> metrics option \<Rightarrow> metrics option" where
  "FinishUpload success = map_option (\<lambda>m.
     let m1 = m\<lparr>activeUploads := sub64 (activeUploads m) 1\<rparr>
     in if \<not> success then m1\<lparr>uploadFailures := add64 (uploadFailures m1) 1\<rparr> else m1)"

definition ObserveUpload :: "int \<Rightarrow> int \<Rightarrow> metrics option \<Rightarrow> metrics option" where
  "ObserveUpload bytes chunks = map_option (\<lambda>m.
     let m1 = (if 0 < bytes then m\<lparr>uploadedBytes := add64 (uploadedBytes m) bytes,
                 chunkBytes := add64 (chunkBytes m) bytes\<rparr> else m)
     in if 0 < chunks then m1\<lparr>chunksTotal := add64 (chunksTotal m1) chunks\<rparr> else m1)"

definition MetricsSnapshot :: "metrics option \<Rightarrow> metrics" where
  "MetricsSnapshot mo = (case mo of None \<Rightarrow> NewMetrics | Some m \<Rightarrow> m)"

section \<open>Properties\<close>



end
