(* ===== verification/ObjectService.thy ===== *)
theory ObjectService
  imports Chunker MemoryStore Backend Ops
begin

text \<open>
  \<open>src/internal/object/service.go\<close>: storing an object as content-addressed blocks plus a manifest,
  and reading it back whole, by range or by selected chunks. The metadata store, the block store
  and the CPU limiter are the interfaces of the other packages, the hash functions come from
  Go's crypto library; they are fields of the service record.
\<close>

section \<open>The service\<close>

text \<open>\<open>ConcurrencyLimiter\<close>: acquiring may fail with the context's error; the release function
  gives the slot back.\<close>

record 'c limiter_ops =
  Acquire :: "env \<Rightarrow> 'c \<Rightarrow> err option \<times> 'c"
  ReleaseSlot :: "'c \<Rightarrow> 'c"

record ('m, 'b, 'c) service =
  svc_fc :: fastcdc
  svc_sha256 :: "bytes \<Rightarrow> bytes"
  svc_md5 :: "bytes \<Rightarrow> bytes"
  svc_chunker :: splitter
  svc_backend :: "'b block_ops"
  svc_store :: "'m store_ops"
  svc_cpu :: "'c limiter_ops option"

record ('m, 'b, 'c) world =
  w_meta :: 'm
  w_blocks :: 'b
  w_cpu :: 'c
  w_metrics :: "metrics option"

record byte_range =
  Start :: int
  End :: int

record selected_chunk =
  sc_Hash :: string
  sc_Size :: int
  sc_Data :: bytes

text \<open>A nil header map and an empty one are not told apart: every use reads entries.\<close>

record put_options =
  po_Headers :: "(string, string) gomap"

definition cloneStringMap :: "env \<Rightarrow> (string, string) gomap \<Rightarrow> (string, string) gomap" where
  "cloneStringMap e values =
     foldl (\<lambda>clone (k, v). AList.update k v clone) [] (go_range (range_pick e []) values)"

definition WithHeaders :: "env \<Rightarrow> (string, string) gomap \<Rightarrow> put_options \<Rightarrow> put_options" where
  "WithHeaders e headers opts = opts\<lparr>po_Headers := cloneStringMap e headers\<rparr>"

definition collectPutOptions :: "env \<Rightarrow> (put_options \<Rightarrow> put_options) option list \<Rightarrow> put_options" where
  "collectPutOptions e options =
     (let collected = foldl (\<lambda>c option. case option of None \<Rightarrow> c | Some f \<Rightarrow> f c) \<lparr>po_Headers = []\<rparr> options
      in collected\<lparr>po_Headers := cloneStringMap e (po_Headers collected)\<rparr>)"

section \<open>Put\<close>

text \<open>The variables of \<open>Put\<close> that the emit callback captures, with the block store.\<close>

record 'b put_state =
  ps_blocks :: 'b
  ps_refs :: "chunk_ref list"
  ps_size :: int
  ps_chunks :: int
  ps_seen :: "string list"

definition putChunk :: "('m, 'b, 'c) service \<Rightarrow> env \<Rightarrow> string \<Rightarrow> 'b put_state \<Rightarrow> chunk \<Rightarrow> err option \<times> 'b put_state" where
  "putChunk S e tenant ps chunk =
     (let blockID = hex_encode (svc_sha256 S (Data chunk));
          e' = call e (length (ps_refs ps));
          (r, ps1) =
            (if blockID \<in> set (ps_seen ps) then (None, ps)
             else (case HasBlock (svc_backend S) (call e' 0) tenant blockID (ps_blocks ps) of
                     Inl x \<Rightarrow> (Some x, ps)
                   | Inr exists \<Rightarrow>
                       if exists then (None, ps\<lparr>ps_seen := blockID # ps_seen ps\<rparr>)
                       else (case PutBlock (svc_backend S) (call e' 1) tenant blockID (Data chunk) (ps_blocks ps) of
                               (Some x, b) \<Rightarrow> (Some x, ps\<lparr>ps_blocks := b\<rparr>)
                             | (None, b) \<Rightarrow> (None, ps\<lparr>ps_blocks := b, ps_seen := blockID # ps_seen ps\<rparr>))))
      in case r of
           Some x \<Rightarrow> (Some x, ps1)
         | None \<Rightarrow>
             (let ref = \<lparr>cr_hash = blockID, cr_offset = Offset chunk, cr_size = int (length (Data chunk)),
                         cr_backend_key = []\<rparr>
              in (None, ps1\<lparr>ps_refs := ps_refs ps1 @ [ref], ps_size := add64 (ps_size ps1) (cr_size ref),
                    ps_chunks := add64 (ps_chunks ps1) 1\<rparr>)))"

definition quoted :: "string \<Rightarrow> string" where
  "quoted s = [CHR 0x22] @ s @ [CHR 0x22]"

text \<open>The body of \<open>Put\<close> once the slot is held. The tee reader hashes exactly what the chunker
  reads; after a successful \<open>Stream\<close> that is the whole body.\<close>

definition putBody :: "('m, 'b, 'c) service \<Rightarrow> env \<Rightarrow> string \<Rightarrow> string \<Rightarrow> string \<Rightarrow> reader \<Rightarrow> put_options
    \<Rightarrow> ('m, 'b, 'c) world \<Rightarrow> (err + manifest) \<times> ('m, 'b, 'c) world" where
  "putBody S e tenant bucket key body putOptions w =
     (case CreatePendingObject (svc_store S) (call e 1)
             (empty_manifest\<lparr>m_tenant := tenant, m_bucket := bucket, m_key := key\<rparr>) (w_meta w) of
        (Inl x, meta1) \<Rightarrow> (Inl x, w\<lparr>w_meta := meta1\<rparr>)
      | (Inr pendingID, meta1) \<Rightarrow>
          (case Stream (svc_fc S) (call e 2) (svc_chunker S) body (Some (putChunk S (call e 3) tenant))
                  \<lparr>ps_blocks = w_blocks w, ps_refs = [], ps_size = 0, ps_chunks = 0, ps_seen = []\<rparr> of
             (Some x, ps) \<Rightarrow> (Inl x, w\<lparr>w_meta := meta1, w_blocks := ps_blocks ps\<rparr>)
           | (None, ps) \<Rightarrow>
               (let m = empty_manifest\<lparr>m_tenant := tenant, m_bucket := bucket, m_key := key,
                          m_size := ps_size ps, m_etag := quoted (hex_encode (svc_md5 S (content body))),
                          m_headers := po_Headers putOptions, m_chunks := ps_refs ps\<rparr>
                in case CommitObject (svc_store S) (call e 4) pendingID m meta1 of
                     (Some x, meta2) \<Rightarrow> (Inl x, w\<lparr>w_meta := meta2, w_blocks := ps_blocks ps\<rparr>)
                   | (None, meta2) \<Rightarrow>
                       (GetObject (svc_store S) (call e 5) tenant bucket key meta2,
                        w\<lparr>w_meta := meta2, w_blocks := ps_blocks ps,
                          w_metrics := ObserveUpload (ps_size ps) (ps_chunks ps) (w_metrics w)\<rparr>))))"

definition Put :: "('m, 'b, 'c) service \<Rightarrow> env \<Rightarrow> string \<Rightarrow> string \<Rightarrow> string \<Rightarrow> reader
    \<Rightarrow> (put_options \<Rightarrow> put_options) option list \<Rightarrow> ('m, 'b, 'c) world
    \<Rightarrow> (err + manifest) \<times> ('m, 'b, 'c) world" where
  "Put S e tenant bucket key body options w =
     (let putOptions = collectPutOptions (call e 6) options
      in case svc_cpu S of
           None \<Rightarrow> putBody S e tenant bucket key body putOptions w
         | Some cpu \<Rightarrow>
             (case Acquire cpu (call e 0) (w_cpu w) of
                (Some x, c) \<Rightarrow> (Inl x, w\<lparr>w_cpu := c\<rparr>)
              | (None, c) \<Rightarrow>
                  (case putBody S e tenant bucket key body putOptions (w\<lparr>w_cpu := c\<rparr>) of
                     (r, w') \<Rightarrow> (r, w'\<lparr>w_cpu := ReleaseSlot cpu (w_cpu w')\<rparr>))))"

section \<open>Reading\<close>

text \<open>The loop of \<open>openChunks\<close> from chunk number \<open>i\<close> on; closing the readers opened before an
  error changes nothing that is modelled.\<close>

fun openChunksLoop :: "('m, 'b, 'c) service \<Rightarrow> env \<Rightarrow> nat \<Rightarrow> string \<Rightarrow> byte_range option \<Rightarrow> chunk_ref list
    \<Rightarrow> 'b \<Rightarrow> err + reader list" where
  "openChunksLoop S e i tenant byteRange [] b = Inr []"
| "openChunksLoop S e i tenant byteRange (chunk # chunks) b =
     (let chunkStart = cr_offset chunk;
          chunkEnd = sub64 (add64 (cr_offset chunk) (cr_size chunk)) 1;
          skip = (case byteRange of None \<Rightarrow> False
            | Some r \<Rightarrow> cr_size chunk = 0 \<or> chunkEnd < Start r \<or> End r < chunkStart);
          readStart = (case byteRange of None \<Rightarrow> 0
            | Some r \<Rightarrow> if chunkStart < Start r then sub64 (Start r) chunkStart else 0);
          readEnd = (case byteRange of None \<Rightarrow> sub64 (cr_size chunk) 1
            | Some r \<Rightarrow> if End r < chunkEnd then sub64 (End r) chunkStart else sub64 (cr_size chunk) 1)
      in if skip then openChunksLoop S e (Suc i) tenant byteRange chunks b
         else (case GetBlock (svc_backend S) (call (call e i) 0) tenant (cr_hash chunk) b of
                 Inl x \<Rightarrow> Inl x
               | Inr reader \<Rightarrow>
                   (let one = (if readStart \<noteq> 0 \<or> readEnd \<noteq> sub64 (cr_size chunk) 1
                      then (case read_all reader of
                              Inl x \<Rightarrow> Inl (ErrWrap ''read range chunk'' x)
                            | Inr data \<Rightarrow>
                                (case syscall (call e i) 1 of
                                   Some x \<Rightarrow> Inl x
                                 | None \<Rightarrow>
                                     if readStart > int (length data) \<or> readEnd \<ge> int (length data)
                                        \<or> readStart > readEnd
                                     then Inl (ErrNew (''invalid chunk range for '' @ cr_hash chunk))
                                     else Inr (bytes_reader
                                       (drop (nat readStart) (take (nat (readEnd + 1)) data)))))
                      else Inr reader)
                    in case one of
                         Inl x \<Rightarrow> Inl x
                       | Inr rd \<Rightarrow>
                           (case openChunksLoop S e (Suc i) tenant byteRange chunks b of
                              Inl x \<Rightarrow> Inl x | Inr rds \<Rightarrow> Inr (rd # rds)))))"

definition openChunks :: "('m, 'b, 'c) service \<Rightarrow> env \<Rightarrow> string \<Rightarrow> manifest \<Rightarrow> byte_range option \<Rightarrow> 'b
    \<Rightarrow> err + reader" where
  "openChunks S e tenant m byteRange b =
     (case openChunksLoop S e 0 tenant byteRange (m_chunks m) b of
        Inl x \<Rightarrow> Inl x | Inr readers \<Rightarrow> Inr (io_MultiReader readers))"

definition OpenObject :: "('m, 'b, 'c) service \<Rightarrow> env \<Rightarrow> string \<Rightarrow> string \<Rightarrow> string \<Rightarrow> ('m, 'b, 'c) world
    \<Rightarrow> err + (manifest \<times> reader)" where
  "OpenObject S e tenant bucket key w =
     (case GetObject (svc_store S) (call e 0) tenant bucket key (w_meta w) of
        Inl x \<Rightarrow> Inl x
      | Inr m \<Rightarrow> (case openChunks S (call e 1) tenant m None (w_blocks w) of
                   Inl x \<Rightarrow> Inl x | Inr reader \<Rightarrow> Inr (m, reader)))"

definition OpenRange :: "('m, 'b, 'c) service \<Rightarrow> env \<Rightarrow> string \<Rightarrow> string \<Rightarrow> string \<Rightarrow> byte_range
    \<Rightarrow> ('m, 'b, 'c) world \<Rightarrow> err + (manifest \<times> reader)" where
  "OpenRange S e tenant bucket key byteRange w =
     (case GetObject (svc_store S) (call e 0) tenant bucket key (w_meta w) of
        Inl x \<Rightarrow> Inl x
      | Inr m \<Rightarrow> (case openChunks S (call e 1) tenant m (Some byteRange) (w_blocks w) of
                   Inl x \<Rightarrow> Inl x | Inr reader \<Rightarrow> Inr (m, reader)))"

definition Stat :: "('m, 'b, 'c) service \<Rightarrow> env \<Rightarrow> string \<Rightarrow> string \<Rightarrow> string \<Rightarrow> ('m, 'b, 'c) world
    \<Rightarrow> err + manifest" where
  "Stat S e tenant bucket key w = GetObject (svc_store S) (call e 0) tenant bucket key (w_meta w)"

definition Delete :: "('m, 'b, 'c) service \<Rightarrow> env \<Rightarrow> string \<Rightarrow> string \<Rightarrow> string \<Rightarrow> ('m, 'b, 'c) world
    \<Rightarrow> (err + manifest) \<times> ('m, 'b, 'c) world" where
  "Delete S e tenant bucket key w =
     (case DeleteObject (svc_store S) (call e 0) tenant bucket key (w_meta w) of
        (r, meta) \<Rightarrow> (r, w\<lparr>w_meta := meta\<rparr>))"

text \<open>The map from hash to the first chunk of the manifest that has it, and the loop over the
  requested hashes.\<close>

fun manifestChunks :: "chunk_ref list \<Rightarrow> (string, chunk_ref) gomap \<Rightarrow> (string, chunk_ref) gomap" where
  "manifestChunks [] m = m"
| "manifestChunks (c # cs) m =
     manifestChunks cs (if map_of m (cr_hash c) = None then AList.update (cr_hash c) c m else m)"

fun readChunksLoop :: "('m, 'b, 'c) service \<Rightarrow> env \<Rightarrow> nat \<Rightarrow> string \<Rightarrow> (string, chunk_ref) gomap \<Rightarrow> string list
    \<Rightarrow> string list \<Rightarrow> 'b \<Rightarrow> err + selected_chunk list" where
  "readChunksLoop S e i tenant mc seen [] b = Inr []"
| "readChunksLoop S e i tenant mc seen (hash # hashes) b =
     (if hash \<in> set seen then readChunksLoop S e (Suc i) tenant mc seen hashes b
      else (case map_of mc hash of
              None \<Rightarrow> Inl ErrChunkNotInManifest
            | Some chunk \<Rightarrow>
                (case GetBlock (svc_backend S) (call (call e i) 0) tenant hash b of
                   Inl x \<Rightarrow> Inl x
                 | Inr reader \<Rightarrow>
                     (case read_all reader of
                        Inl x \<Rightarrow> Inl (ErrWrap (''read chunk '' @ hash) x)
                      | Inr data \<Rightarrow>
                          (case syscall (call e i) 1 of
                             Some x \<Rightarrow> Inl x
                           | None \<Rightarrow>
                               if int (length data) \<noteq> cr_size chunk
                               then Inl (ErrNew (''chunk '' @ hash @ '' size mismatch''))
                               else if hex_encode (svc_sha256 S data) \<noteq> hash
                               then Inl (ErrNew (''chunk '' @ hash @ '' hash mismatch''))
                               else (case readChunksLoop S e (Suc i) tenant mc (hash # seen) hashes b of
                                       Inl x \<Rightarrow> Inl x
                                     | Inr selected \<Rightarrow>
                                         Inr (\<lparr>sc_Hash = hash, sc_Size = cr_size chunk, sc_Data = data\<rparr>
                                              # selected)))))))"

definition ReadChunks :: "('m, 'b, 'c) service \<Rightarrow> env \<Rightarrow> string \<Rightarrow> string \<Rightarrow> string \<Rightarrow> string list
    \<Rightarrow> ('m, 'b, 'c) world \<Rightarrow> err + (manifest \<times> selected_chunk list)" where
  "ReadChunks S e tenant bucket key hashes w =
     (case GetObject (svc_store S) (call e 0) tenant bucket key (w_meta w) of
        Inl x \<Rightarrow> Inl x
      | Inr m \<Rightarrow>
          if hashes = [] then Inr (m, [])
          else (case readChunksLoop S (call e 1) 0 tenant (manifestChunks (m_chunks m) []) [] hashes (w_blocks w) of
                  Inl x \<Rightarrow> Inl x | Inr selected \<Rightarrow> Inr (m, selected)))"

text \<open>The helper \<open>ReadAll\<close> polls the context after copying.\<close>

definition ReadAll :: "env \<Rightarrow> reader \<Rightarrow> err + bytes" where
  "ReadAll e reader =
     (case read_all reader of
        Inl x \<Rightarrow> Inl (ErrWrap ''read object'' x)
      | Inr d \<Rightarrow> (case ctx_poll e 0 of Some x \<Rightarrow> Inl x | None \<Rightarrow> Inr d))"

text \<open>\<open>closeAll\<close> closes every reader and reports the first error; the environment answers the
  close calls.\<close>

fun closeAll :: "env \<Rightarrow> nat \<Rightarrow> reader list \<Rightarrow> err option \<Rightarrow> err option" where
  "closeAll e i [] first = first"
| "closeAll e i (c # cs) first =
     closeAll e (Suc i) cs (case syscall e i of
       None \<Rightarrow> first | Some x \<Rightarrow> (if first = None then Some x else first))"

section \<open>The content of an object\<close>

text \<open>The chunk references of the pieces \<open>ds\<close>, and what it means that a manifest with the stored
  blocks represents the content \<open>c\<close>.\<close>

fun chunkRefs :: "(bytes \<Rightarrow> bytes) \<Rightarrow> int \<Rightarrow> bytes list \<Rightarrow> chunk_ref list" where
  "chunkRefs sha off [] = []"
| "chunkRefs sha off (d # ds) =
     \<lparr>cr_hash = hex_encode (sha d), cr_offset = off, cr_size = int (length d), cr_backend_key = []\<rparr>
     # chunkRefs sha (off + int (length d)) ds"

definition holds_content :: "('m, 'b, 'c) service \<Rightarrow> (string \<Rightarrow> bytes option) \<Rightarrow> manifest \<Rightarrow> bytes \<Rightarrow> bool" where
  "holds_content S bm m c \<longleftrightarrow>
     (\<exists>ds. concat ds = c \<and> m_chunks m = chunkRefs (svc_sha256 S) 0 ds
        \<and> (\<forall>d \<in> set ds. bm (hex_encode (svc_sha256 S d)) = Some d))
     \<and> m_size m = int (length c) \<and> int (length c) \<le> max_int64
     \<and> m_etag m = quoted (hex_encode (svc_md5 S c))"

lemma holds_content_mono:
  assumes "holds_content S bm m c" "\<And>h d. bm h = Some d \<Longrightarrow> bm' h = Some d"
  shows "holds_content S bm' m c"
  using assms unfolding holds_content_def by blast

lemma holds_content_body:
  "same_body m m' \<Longrightarrow> holds_content S bm m c \<Longrightarrow> holds_content S bm m' c"
  by (auto simp: holds_content_def same_body_def)

lemma chunkRefs_append:
  "chunkRefs sha off (xs @ ys) = chunkRefs sha off xs @ chunkRefs sha (off + int (length (concat xs))) ys"
  by (induction xs arbitrary: off) (simp_all add: algebra_simps)

section \<open>Ranges\<close>

text \<open>The part of a piece at position \<open>off\<close> that a range selects, and the loop body of
  \<open>openChunks\<close> for a piece whose reference has that position, without the 64-bit arithmetic.\<close>

definition range_ok :: "byte_range option \<Rightarrow> bool" where
  "range_ok br \<longleftrightarrow> (case br of None \<Rightarrow> True | Some r \<Rightarrow> 0 \<le> Start r \<and> Start r \<le> End r \<and> End r \<le> max_int64)"

definition part :: "byte_range option \<Rightarrow> int \<Rightarrow> bytes \<Rightarrow> bytes" where
  "part br off d = (case br of None \<Rightarrow> d
     | Some r \<Rightarrow> drop (nat (Start r - off)) (take (nat (End r + 1 - off)) d))"

definition skipped :: "byte_range option \<Rightarrow> int \<Rightarrow> bytes \<Rightarrow> bool" where
  "skipped br off d \<longleftrightarrow> (case br of None \<Rightarrow> False
     | Some r \<Rightarrow> d = [] \<or> off + int (length d) - 1 < Start r \<or> End r < off)"

definition openPiece :: "env \<Rightarrow> byte_range option \<Rightarrow> int \<Rightarrow> bytes \<Rightarrow> string \<Rightarrow> reader \<Rightarrow> err + reader" where
  "openPiece e br off d hash rd =
     (case br of None \<Rightarrow> Inr rd | Some r \<Rightarrow>
        let s = nat (Start r - off); z = (if End r < off + int (length d) - 1 then nat (End r + 1 - off) else length d)
        in if s = 0 \<and> z = length d then Inr rd
           else (case read_all rd of
                   Inl x \<Rightarrow> Inl (ErrWrap ''read range chunk'' x)
                 | Inr data \<Rightarrow>
                     (case syscall e 1 of
                        Some x \<Rightarrow> Inl x
                      | None \<Rightarrow> if s > length data \<or> z > length data \<or> s \<ge> z
                          then Inl (ErrNew (''invalid chunk range for '' @ hash))
                          else Inr (bytes_reader (drop s (take z data))))))"

lemma part_append:
  assumes "range_ok br"
  shows "part br off (d @ c) = part br off d @ part br (off + int (length d)) c"
proof (cases br)
  case None
  then show ?thesis by (simp add: part_def)
next
  case (Some r)
  let ?s = "nat (Start r - off)" and ?z = "nat (End r + 1 - off)"
  have z: "nat (End r + 1 - (off + int (length d))) = ?z - length d" by linarith
  have s: "nat (Start r - (off + int (length d))) = ?s - length d" by linarith
  show ?thesis
  proof (cases "?z \<le> length d")
    case True
    with Some z s show ?thesis by (simp add: part_def)
  next
    case False
    with Some z s show ?thesis by (simp add: part_def)
  qed
qed

lemma skipped_part: "skipped br off d \<Longrightarrow> range_ok br \<Longrightarrow> part br off d = []"
  by (auto simp: skipped_def part_def split: option.splits)

lemma openOne_eq:
  assumes "0 \<le> off" "off + int (length d) \<le> max_int64" "range_ok br"
  shows "openChunksLoop S e i t br (\<lparr>cr_hash = h, cr_offset = off, cr_size = int (length d), cr_backend_key = k\<rparr> # cs) b =
     (if skipped br off d then openChunksLoop S e (Suc i) t br cs b
      else (case GetBlock (svc_backend S) (call (call e i) 0) t h b of
              Inl x \<Rightarrow> Inl x
            | Inr rd \<Rightarrow> (case openPiece (call e i) br off d h rd of
                Inl x \<Rightarrow> Inl x
              | Inr rd1 \<Rightarrow> (case openChunksLoop S e (Suc i) t br cs b of
                  Inl x \<Rightarrow> Inl x | Inr rds \<Rightarrow> Inr (rd1 # rds)))))"
proof -
  have off: "in_int64 off" "in_int64 (int (length d))" "in_int64 (off + int (length d))"
    "in_int64 (off + int (length d) - 1)" "in_int64 (int (length d) - 1)"
    using assms(1,2) by (simp_all add: in_int64_def min_int64_def max_int64_def)
  then have e: "add64 off (int (length d)) = off + int (length d)"
    "sub64 (off + int (length d)) 1 = off + int (length d) - 1"
    "sub64 (int (length d)) 1 = int (length d) - 1"
    by (simp_all add: add64_id sub64_id)
  show ?thesis
  proof (cases br)
    case None
    then show ?thesis by (simp add: skipped_def openPiece_def Let_def cong: sum.case_cong)
  next
    case (Some r)
    with assms(3) have r: "0 \<le> Start r" "Start r \<le> End r" "End r \<le> max_int64" by (simp_all add: range_ok_def)
    show ?thesis
    proof (cases "skipped br off d")
      case True
      with Some show ?thesis by (auto simp: skipped_def e Let_def)
    next
      case False
      with Some have ns: "d \<noteq> []" "Start r \<le> off + int (length d) - 1" "off \<le> End r"
        by (auto simp: skipped_def)
      have sub: "sub64 (Start r) off = Start r - off" "sub64 (End r) off = End r - off"
        using r assms(1,2) off by (simp_all add: sub64_nonneg in_int64_def min_int64_def)
      define s where "s = nat (Start r - off)"
      define z where "z = (if End r < off + int (length d) - 1 then nat (End r + 1 - off) else length d)"
      have rs: "(if off < Start r then sub64 (Start r) off else 0) = int s"
        by (simp add: sub s_def)
      have re: "(if End r < off + int (length d) - 1 then sub64 (End r) off else int (length d) - 1) = int z - 1"
        using ns by (simp add: sub e z_def)
      have cond: "(int s \<noteq> 0 \<or> int z - 1 \<noteq> int (length d) - 1) \<longleftrightarrow> \<not> (s = 0 \<and> z = length d)" by auto
      have bad: "(int s > int n \<or> int z - 1 \<ge> int n \<or> int s > int z - 1) \<longleftrightarrow> (s > n \<or> z > n \<or> s \<ge> z)" for n :: nat
        by auto
      have zs: "nat (int z - 1 + 1) = z" by simp
      have piece: "openPiece (call e i) (Some r) off d h rd =
        (if \<not> (s = 0 \<and> z = length d)
         then (case read_all rd of
                   Inl x \<Rightarrow> Inl (ErrWrap ''read range chunk'' x)
                 | Inr data \<Rightarrow>
                     (case syscall (call e i) 1 of
                        Some x \<Rightarrow> Inl x
                      | None \<Rightarrow> if s > length data \<or> z > length data \<or> s \<ge> z
                          then Inl (ErrNew (''invalid chunk range for '' @ h))
                          else Inr (bytes_reader (drop s (take z data)))))
         else Inr rd)" for rd
        by (simp add: openPiece_def Some Let_def s_def [symmetric] z_def [symmetric])
      show ?thesis
        using Some False ns e
        by (simp only: openChunksLoop.simps chunk_ref.simps Let_def option.case e rs re cond bad zs nat_int piece if_False
            cong: sum.case_cong option.case_cong)
          (simp add: skipped_def Some)
    qed
  qed
qed

lemma openPiece_content:
  assumes "openPiece e br off d h rd = Inr rd1" "reader_err rd1 = None"
    and "reader_err rd = None \<Longrightarrow> content rd = d" "\<not> skipped br off d" "range_ok br"
  shows "content rd1 = part br off d"
proof (cases br)
  case None
  with assms show ?thesis by (simp add: openPiece_def part_def)
next
  case (Some r)
  define s where "s = nat (Start r - off)"
  define z where "z = (if End r < off + int (length d) - 1 then nat (End r + 1 - off) else length d)"
  have p: "part br off d = drop s (take z d)"
    using assms(4) Some by (auto simp: part_def s_def z_def skipped_def)
  note def = openPiece_def Some Let_def s_def [symmetric] z_def [symmetric]
  show ?thesis
  proof (cases "s = 0 \<and> z = length d")
    case True
    with assms(1-3) p show ?thesis by (simp add: def)
  next
    case False
    with assms(1) obtain data where "read_all rd = Inr data" "rd1 = bytes_reader (drop s (take z data))"
      by (auto simp: def split: sum.splits option.splits if_splits)
    with assms(3) p show ?thesis by (simp add: read_all_Inr)
  qed
qed

lemma openPiece_quiet:
  assumes "quiet e" "reader_err rd = None" "content rd = d" "\<not> skipped br off d" "range_ok br"
  shows "\<exists>rd1. openPiece e br off d h rd = Inr rd1 \<and> reader_err rd1 = None"
proof (cases br)
  case None
  with assms show ?thesis by (simp add: openPiece_def)
next
  case (Some r)
  with assms(4,5) have r: "0 \<le> Start r" "Start r \<le> End r" "d \<noteq> []"
    "Start r \<le> off + int (length d) - 1" "off \<le> End r" by (auto simp: skipped_def range_ok_def)
  have "read_all rd = Inr d" using assms(2,3) by (simp add: read_all_Inr)
  with r assms(1,2) Some show ?thesis by (auto simp: openPiece_def Let_def)
qed

section \<open>The service over any stores that keep their contracts\<close>

definition addressed :: "('m, 'b, 'c) service \<Rightarrow> bytes set \<Rightarrow> (string \<Rightarrow> string \<Rightarrow> bytes option) \<Rightarrow> bool" where
  "addressed S U bm \<longleftrightarrow>
     (\<forall>t h d. bm t h = Some d \<longrightarrow> d \<in> U \<and> hex_encode (svc_sha256 S d) = h)"

definition grows :: "(string \<Rightarrow> string \<Rightarrow> bytes option) \<Rightarrow> (string \<Rightarrow> string \<Rightarrow> bytes option) \<Rightarrow> bool" where
  "grows bm bm' \<longleftrightarrow> (\<forall>t h d. bm t h = Some d \<longrightarrow> bm' t h = Some d)"

definition contents :: "(string \<Rightarrow> string \<Rightarrow> bytes option) \<Rightarrow> bytes set" where
  "contents bm = {d. \<exists>t h. bm t h = Some d}"

lemma grows_refl [simp]: "grows b b"
  by (simp add: grows_def)

lemma grows_trans: "grows a b \<Longrightarrow> grows b c \<Longrightarrow> grows a c"
  by (simp add: grows_def)

lemma grows_present: "grows a b \<Longrightarrow> a t h \<noteq> None \<Longrightarrow> b t h \<noteq> None"
  by (auto simp: grows_def)

locale object_service =
  meta: object_store "svc_store S" inv committed pending fresh +
  bl: live_block_store "svc_backend S" binv ns stored valid +
  fastcdc_library "svc_fc S" fcuts
  for S :: "('m, 'b, 'c) service"
    and inv :: "'m \<Rightarrow> bool"
    and committed :: "'m \<Rightarrow> object_key \<Rightarrow> manifest option"
    and pending :: "'m \<Rightarrow> string \<Rightarrow> bool"
    and fresh :: "env \<Rightarrow> manifest \<Rightarrow> 'm \<Rightarrow> bool"
    and binv :: "'b \<Rightarrow> bool"
    and ns :: "string \<Rightarrow> string"
    and stored :: "'b \<Rightarrow> string \<Rightarrow> string \<Rightarrow> bytes option"
    and valid :: "string \<Rightarrow> bool"
    and fcuts :: "32 word \<Rightarrow> 32 word \<Rightarrow> 32 word \<Rightarrow> bytes \<Rightarrow> bytes list"
begin

abbreviation block_id :: "bytes \<Rightarrow> string" where
  "block_id d \<equiv> hex_encode (svc_sha256 S d)"

lemma block_id_inj: "inj_on (svc_sha256 S) U \<Longrightarrow> d \<in> U \<Longrightarrow> d' \<in> U \<Longrightarrow> block_id d = block_id d' \<Longrightarrow> d = d'"
  by (auto dest: hex_encode_inj inj_onD)

lemma put_ok:
  assumes "binv b" "addressed S U (stored b)" "d \<in> U"
    "PutBlock (svc_backend S) e t (block_id d) d b = (r, b')"
  shows "binv b' \<and> addressed S U (stored b') \<and> grows (stored b) (stored b')
    \<and> (r = None \<longrightarrow> stored b' t (block_id d) \<noteq> None)"
proof -
  note law = bl.put [OF assms(1,4)]
  have inv: "binv b'" using law by (rule conjunct1)
  note other = law [THEN conjunct2, THEN conjunct1, rule_format]
  have at: "case r of Some x \<Rightarrow> stored b' t (block_id d) = stored b t (block_id d)
      | None \<Rightarrow> stored b' t (block_id d) = Some (case stored b t (block_id d) of Some d0 \<Rightarrow> d0 | None \<Rightarrow> d)"
    using law [THEN conjunct2] by (rule conjunct2)
  have step: "stored b' t' h = stored b t' h \<or>
      stored b t' h = None \<and> stored b' t' h = Some d \<and> h = block_id d" for t' h
  proof (cases "(ns t', h) = (ns t, block_id d)")
    case True
    then have "stored b' t' h = stored b' t (block_id d)" "stored b t' h = stored b t (block_id d)"
      using bl.stored_ns [of t' t] by auto
    with at True show ?thesis by (auto split: option.splits)
  next
    case False
    from other [OF this] show ?thesis ..
  qed
  have "addressed S U (stored b')"
    unfolding addressed_def
  proof (intro allI impI)
    fix t' h d' assume "stored b' t' h = Some d'"
    with step [of t' h] assms(2,3) show "d' \<in> U \<and> block_id d' = h"
      by (auto simp: addressed_def)
  qed
  moreover have "grows (stored b) (stored b')"
    unfolding grows_def
  proof (intro allI impI)
    fix t' h d' assume "stored b t' h = Some d'"
    with step [of t' h] show "stored b' t' h = Some d'" by auto
  qed
  ultimately show ?thesis using inv at by (auto split: option.splits)
qed

definition ps_ok :: "bytes set \<Rightarrow> string \<Rightarrow> 'b put_state \<Rightarrow> bool" where
  "ps_ok U t ps \<longleftrightarrow> binv (ps_blocks ps) \<and> addressed S U (stored (ps_blocks ps))
     \<and> (\<forall>h \<in> set (ps_seen ps). stored (ps_blocks ps) t h \<noteq> None)"

lemma putChunk_ok:
  assumes "ps_ok U t ps" "Data c \<in> U" "putChunk S e t ps c = (r, ps')"
  shows "ps_ok U t ps' \<and> grows (stored (ps_blocks ps)) (stored (ps_blocks ps'))
    \<and> (r = None \<longrightarrow> stored (ps_blocks ps') t (block_id (Data c)) \<noteq> None
        \<and> ps_refs ps' = ps_refs ps @ [\<lparr>cr_hash = block_id (Data c), cr_offset = Offset c,
             cr_size = int (length (Data c)), cr_backend_key = []\<rparr>]
        \<and> ps_size ps' = add64 (ps_size ps) (int (length (Data c))))"
proof (cases "block_id (Data c) \<in> set (ps_seen ps)")
  case True
  with assms show ?thesis by (auto simp: putChunk_def ps_ok_def Let_def)
next
  case unseen: False
  define e' where "e' = call e (length (ps_refs ps))"
  show ?thesis
  proof (cases "HasBlock (svc_backend S) (call e' 0) t (block_id (Data c)) (ps_blocks ps)")
    case (Inl x)
    with unseen assms show ?thesis by (auto simp: putChunk_def e'_def Let_def)
  next
    case (Inr ex)
    with assms(1) bl.has have ex: "ex \<longleftrightarrow> stored (ps_blocks ps) t (block_id (Data c)) \<noteq> None"
      by (auto simp: ps_ok_def)
    show ?thesis
    proof (cases ex)
      case True
      with unseen Inr assms ex show ?thesis by (auto simp: putChunk_def e'_def ps_ok_def Let_def)
    next
      case False
      obtain r1 b1 where put: "PutBlock (svc_backend S) (call e' 1) t (block_id (Data c)) (Data c) (ps_blocks ps) = (r1, b1)"
        by (cases "PutBlock (svc_backend S) (call e' 1) t (block_id (Data c)) (Data c) (ps_blocks ps)")
      from assms(1) have "binv (ps_blocks ps)" "addressed S U (stored (ps_blocks ps))"
        by (simp_all add: ps_ok_def)
      note ok = put_ok [OF this assms(2) put]
      then have seen: "\<forall>h \<in> set (ps_seen ps). stored b1 t h \<noteq> None"
        using assms(1) grows_present by (auto simp: ps_ok_def)
      show ?thesis
      proof (cases r1)
        case None
        with unseen Inr False put ok seen assms(3) show ?thesis
          by (auto simp: putChunk_def e'_def ps_ok_def Let_def)
      next
        case (Some x)
        with unseen Inr False put ok seen assms(3) show ?thesis
          by (auto simp: putChunk_def e'_def ps_ok_def Let_def)
      qed
    qed
  qed
qed

lemma emit_ok:
  assumes "emitAll (putChunk S e t) ps (withOffsets off ds) = (None, ps')" "ps_ok U t ps" "set ds \<subseteq> U"
    and "ps_size ps = off" "0 \<le> off" "off + int (length (concat ds)) \<le> max_int64"
  shows "ps_ok U t ps' \<and> grows (stored (ps_blocks ps)) (stored (ps_blocks ps'))
    \<and> (\<forall>d \<in> set ds. stored (ps_blocks ps') t (block_id d) \<noteq> None)
    \<and> ps_refs ps' = ps_refs ps @ chunkRefs (svc_sha256 S) off ds
    \<and> ps_size ps' = off + int (length (concat ds))"
  using assms
proof (induction ds arbitrary: off ps)
  case (Cons d ds)
  let ?c = "\<lparr>Offset = off, Data = d\<rparr>"
  obtain r ps1 where c: "putChunk S e t ps ?c = (r, ps1)" by (cases "putChunk S e t ps ?c")
  from Cons.prems(1) c have r: "r = None" by (auto split: option.splits)
  have off': "add64 off (int (length d)) = off + int (length d)"
    using Cons.prems(5,6) by (intro add64_id) (simp add: in_int64_def min_int64_def)
  from Cons.prems(1) c r off'
  have rest: "emitAll (putChunk S e t) ps1 (withOffsets (off + int (length d)) ds) = (None, ps')" by simp
  from Cons.prems(3) have "Data ?c \<in> U" by simp
  note one = putChunk_ok [OF Cons.prems(2) this c]
  from one r off' Cons.prems(4) have size: "ps_size ps1 = off + int (length d)" by simp
  have all: "ps_ok U t ps' \<and> grows (stored (ps_blocks ps1)) (stored (ps_blocks ps'))
    \<and> (\<forall>d \<in> set ds. stored (ps_blocks ps') t (block_id d) \<noteq> None)
    \<and> ps_refs ps' = ps_refs ps1 @ chunkRefs (svc_sha256 S) (off + int (length d)) ds
    \<and> ps_size ps' = off + int (length d) + int (length (concat ds))"
    using Cons.prems by (intro Cons.IH [OF rest _ _ size]) (simp_all add: one)
  have "grows (stored (ps_blocks ps)) (stored (ps_blocks ps'))"
    using grows_trans one all by blast
  moreover have "stored (ps_blocks ps') t (block_id d) \<noteq> None"
    using one r all grows_present [of "stored (ps_blocks ps1)" "stored (ps_blocks ps')" t "block_id d"] by simp
  moreover have "ps_refs ps' = ps_refs ps @ chunkRefs (svc_sha256 S) off (d # ds)"
    using one r all by simp
  ultimately show ?case using all by simp
qed simp

lemma emit_keeps:
  "ps_ok UNIV t (snd (Stream (svc_fc S) e c rd (Some (putChunk S e' t)) ps))
    \<and> grows (stored (ps_blocks ps)) (stored (ps_blocks (snd (Stream (svc_fc S) e c rd (Some (putChunk S e' t)) ps))))"
  if "ps_ok UNIV t ps"
proof (rule Stream_keeps)
  fix st c assume "ps_ok UNIV t st \<and> grows (stored (ps_blocks ps)) (stored (ps_blocks st))"
  then show "ps_ok UNIV t (snd (putChunk S e' t st c))
      \<and> grows (stored (ps_blocks ps)) (stored (ps_blocks (snd (putChunk S e' t st c))))"
    using putChunk_ok [of UNIV t st c e', OF _ _ surjective_pairing] grows_trans by blast
qed (use that in simp)

definition content_inv :: "('m, 'b, 'c) world \<Rightarrow> bool" where
  "content_inv w \<longleftrightarrow> (\<forall>d. valid (hex_encode (svc_sha256 S d)))
     \<and> inv (w_meta w) \<and> binv (w_blocks w) \<and> addressed S UNIV (stored (w_blocks w))
     \<and> (\<forall>t b k m. good_key (t, b, k) \<longrightarrow> committed (w_meta w) (t, b, k) = Some m \<longrightarrow>
          (\<exists>c. holds_content S (stored (w_blocks w) t) m c))"

lemma content_inv_meta:
  assumes "content_inv w" "inv meta" "committed meta = committed (w_meta w)"
    and "binv b" "addressed S UNIV (stored b)" "grows (stored (w_blocks w)) (stored b)"
    and "w_meta w' = meta" "w_blocks w' = b"
  shows "content_inv w'"
proof -
  have "\<exists>c. holds_content S (stored b t) m c"
    if "good_key (t, bu, k)" "committed meta (t, bu, k) = Some m" for t bu k m
  proof -
    from that(2) have "committed (w_meta w) (t, bu, k) = Some m" by (simp add: assms(3))
    with that(1) assms(1) obtain c where "holds_content S (stored (w_blocks w) t) m c"
      unfolding content_inv_def by blast
    with assms(6) holds_content_mono show ?thesis unfolding grows_def by blast
  qed
  moreover have "\<forall>d. valid (block_id d)" using assms(1) by (simp add: content_inv_def)
  ultimately show ?thesis using assms(2-5,7,8) by (simp add: content_inv_def)
qed

lemma stream_content:
  assumes "Stream (svc_fc S) e c rd (Some (putChunk S e' t)) ps = (None, ps')"
    and "ps = \<lparr>ps_blocks = b, ps_refs = [], ps_size = 0, ps_chunks = 0, ps_seen = []\<rparr>"
    and "binv b" "addressed S UNIV (stored b)"
    and "inj_on (svc_sha256 S) (contents (stored b) \<union> set (streamCuts fcuts c (content rd)))"
    and "int (length (content rd)) \<le> max_int64"
    and "m_chunks m = ps_refs ps'" "m_size m = ps_size ps'"
    and "m_etag m = quoted (hex_encode (svc_md5 S (content rd)))"
  shows "reader_err rd = None \<and> holds_content S (stored (ps_blocks ps') t) m (content rd)"
proof -
  let ?ds = "streamCuts fcuts c (content rd)"
  let ?U = "contents (stored b) \<union> set ?ds"
  from Stream_ok [OF assms(1)] have err: "reader_err rd = None"
    and emit: "emitAll (putChunk S e' t) ps (withOffsets 0 ?ds) = (None, ps')" by simp_all
  have "ps_ok ?U t ps"
    using assms(2-4) by (auto simp: ps_ok_def addressed_def contents_def)
  from emit_ok [OF emit this] assms(2,6) streamCuts_concat [of c "content rd"]
  have ok: "ps_ok ?U t ps'" "\<forall>d \<in> set ?ds. stored (ps_blocks ps') t (block_id d) \<noteq> None"
    "ps_refs ps' = chunkRefs (svc_sha256 S) 0 ?ds" "ps_size ps' = int (length (content rd))"
    by simp_all
  have "stored (ps_blocks ps') t (block_id d) = Some d" if "d \<in> set ?ds" for d
  proof -
    from ok(2) that obtain d0 where d0: "stored (ps_blocks ps') t (block_id d) = Some d0" by blast
    with ok(1) have "d0 \<in> ?U" "block_id d0 = block_id d" by (auto simp: ps_ok_def addressed_def)
    with block_id_inj [OF assms(5)] that have "d0 = d" by blast
    with d0 show ?thesis by simp
  qed
  with ok(3,4) err assms(6-9) streamCuts_concat [of c "content rd"] show ?thesis
    unfolding holds_content_def by (intro conjI exI [of _ ?ds]) simp_all
qed

lemma putBody_ok:
  assumes "content_inv w" "good_key (t, b, k)"
    and "fresh (call e 1) (empty_manifest\<lparr>m_tenant := t, m_bucket := b, m_key := k\<rparr>) (w_meta w)"
    and "inj_on (svc_sha256 S) (contents (stored (w_blocks w))
           \<union> set (streamCuts fcuts (svc_chunker S) (content body)))"
    and "int (length (content body)) \<le> max_int64"
    and "putBody S e t b k body po w = (r, w')"
  shows "content_inv w' \<and> grows (stored (w_blocks w)) (stored (w_blocks w'))
    \<and> (\<forall>m. r = Inr m \<longrightarrow> committed (w_meta w') (t, b, k) = Some m)
    \<and> (committed (w_meta w') = committed (w_meta w) \<and> (\<exists>x. r = Inl x)
      \<or> reader_err body = None \<and> (\<exists>m. committed (w_meta w') = (committed (w_meta w))((t, b, k) \<mapsto> m)
          \<and> holds_content S (stored (w_blocks w') t) m (content body)
          \<and> m_headers m = po_Headers po))"
proof -
  from assms(1) have inv: "inv (w_meta w)" "binv (w_blocks w)" "addressed S UNIV (stored (w_blocks w))"
    by (simp_all add: content_inv_def)
  let ?p = "empty_manifest\<lparr>m_tenant := t, m_bucket := b, m_key := k\<rparr>"
  let ?ps = "\<lparr>ps_blocks = w_blocks w, ps_refs = [], ps_size = 0, ps_chunks = 0, ps_seen = []\<rparr>"
  obtain rc m1 where cr: "CreatePendingObject (svc_store S) (call e 1) ?p (w_meta w) = (rc, m1)"
    by (cases "CreatePendingObject (svc_store S) (call e 1) ?p (w_meta w)")
  from meta.create [OF inv(1) assms(3) cr] have m1: "inv m1" "committed m1 = committed (w_meta w)" by auto
  show ?thesis
  proof (cases rc)
    case (Inl x)
    with assms(6) cr have w': "w' = w\<lparr>w_meta := m1\<rparr>" "r = Inl x" by (simp_all add: putBody_def)
    have "content_inv w'"
      by (rule content_inv_meta [OF assms(1) m1 inv(2,3)]) (simp_all add: w')
    with w' m1 show ?thesis by simp
  next
    case (Inr pid)
    obtain sr ps where st: "Stream (svc_fc S) (call e 2) (svc_chunker S) body (Some (putChunk S (call e 3) t)) ?ps = (sr, ps)"
      by (cases "Stream (svc_fc S) (call e 2) (svc_chunker S) body (Some (putChunk S (call e 3) t)) ?ps")
    have "ps_ok UNIV t ?ps" using inv by (simp add: ps_ok_def)
    from emit_keeps [OF this, of "call e 2" "svc_chunker S" body "call e 3"] st
    have ps: "binv (ps_blocks ps)" "addressed S UNIV (stored (ps_blocks ps))"
      "grows (stored (w_blocks w)) (stored (ps_blocks ps))" by (simp_all add: ps_ok_def)
    show ?thesis
    proof (cases sr)
      case (Some x)
      with assms(6) cr Inr st have w': "w' = w\<lparr>w_meta := m1, w_blocks := ps_blocks ps\<rparr>" "r = Inl x"
        by (simp_all add: putBody_def)
      have "content_inv w'"
        by (rule content_inv_meta [OF assms(1) m1 ps]) (simp_all add: w')
      with w' m1 ps show ?thesis by simp
    next
      case None
      define m where "m = empty_manifest\<lparr>m_tenant := t, m_bucket := b, m_key := k,
          m_size := ps_size ps, m_etag := quoted (hex_encode (svc_md5 S (content body))),
          m_headers := po_Headers po, m_chunks := ps_refs ps\<rparr>"
      have key: "key_of m = (t, b, k)" by (simp add: m_def key_of_def)
      have cont: "reader_err body = None \<and> holds_content S (stored (ps_blocks ps) t) m (content body)"
        by (rule stream_content [OF st [unfolded None] refl inv(2,3) assms(4,5)]) (simp_all add: m_def)
      obtain co m2 where cm: "CommitObject (svc_store S) (call e 4) pid m m1 = (co, m2)"
        by (cases "CommitObject (svc_store S) (call e 4) pid m m1")
      note law = meta.commit [OF m1(1) _ cm, unfolded key, OF assms(2)]
      show ?thesis
      proof (cases co)
        case (Some x)
        with assms(6) cr Inr st None cm have w': "w' = w\<lparr>w_meta := m2, w_blocks := ps_blocks ps\<rparr>" "r = Inl x"
          by (simp_all add: putBody_def m_def)
        from law Some m1(2) have m2: "inv m2" "committed m2 = committed (w_meta w)" by simp_all
        have "content_inv w'"
          by (rule content_inv_meta [OF assms(1) m2 ps]) (simp_all add: w')
        with w' m2 ps show ?thesis by simp
      next
        case co: None
        with assms(6) cr Inr st None cm
        have w': "w_meta w' = m2" "w_blocks w' = ps_blocks ps" "r = GetObject (svc_store S) (call e 5) t b k m2"
          by (auto simp: putBody_def m_def)
        from law co m1(2) obtain m' where m2: "inv m2" "same_body m m'"
          "committed m2 = (committed (w_meta w))((t, b, k) \<mapsto> m')" by auto
        have c': "holds_content S (stored (ps_blocks ps) t) m' (content body)"
          using holds_content_body m2(2) cont by blast
        have "\<exists>c. holds_content S (stored (ps_blocks ps) t') mm c"
          if "good_key (t', b', k')" "committed m2 (t', b', k') = Some mm" for t' b' k' mm
        proof (cases "(t', b', k') = (t, b, k)")
          case True
          with that m2(3) c' show ?thesis by auto
        next
          case False
          with that m2(3) have "committed (w_meta w) (t', b', k') = Some mm" by auto
          with assms(1) that(1) obtain c where "holds_content S (stored (w_blocks w) t') mm c"
            unfolding content_inv_def by blast
          with ps(3) holds_content_mono show ?thesis unfolding grows_def by blast
        qed
        moreover have "\<forall>d. valid (block_id d)" using assms(1) by (simp add: content_inv_def)
        ultimately have "content_inv w'" using m2(1) ps(1,2) w' by (simp add: content_inv_def)
        moreover have "m_headers m' = po_Headers po" using m2(2) by (simp add: same_body_def m_def)
        then have "reader_err body = None \<and> (\<exists>m. committed (w_meta w') = (committed (w_meta w))((t, b, k) \<mapsto> m)
          \<and> holds_content S (stored (w_blocks w') t) m (content body) \<and> m_headers m = po_Headers po)"
          using w' cont c' m2(3) by (intro conjI exI [of _ m']) simp_all
        moreover have "grows (stored (w_blocks w)) (stored (w_blocks w'))" using w' ps(3) by simp
        moreover have "\<forall>mm. r = Inr mm \<longrightarrow> committed (w_meta w') (t, b, k) = Some mm"
          using meta.get [OF m2(1) assms(2)] w' by metis
        ultimately show ?thesis by (intro conjI disjI2) simp_all
      qed
    qed
  qed
qed

lemma Put_ok:
  assumes "content_inv w" "good_key (t, b, k)"
    and "fresh (call e 1) (empty_manifest\<lparr>m_tenant := t, m_bucket := b, m_key := k\<rparr>) (w_meta w)"
    and "inj_on (svc_sha256 S) (contents (stored (w_blocks w))
           \<union> set (streamCuts fcuts (svc_chunker S) (content body)))"
    and "int (length (content body)) \<le> max_int64"
    and "Put S e t b k body opts w = (r, w')"
  shows "content_inv w' \<and> grows (stored (w_blocks w)) (stored (w_blocks w'))
    \<and> (\<forall>m. r = Inr m \<longrightarrow> committed (w_meta w') (t, b, k) = Some m)
    \<and> (committed (w_meta w') = committed (w_meta w) \<and> (\<exists>x. r = Inl x)
      \<or> reader_err body = None \<and> (\<exists>m. committed (w_meta w') = (committed (w_meta w))((t, b, k) \<mapsto> m)
          \<and> holds_content S (stored (w_blocks w') t) m (content body)
          \<and> m_headers m = po_Headers (collectPutOptions (call e 6) opts)))"
proof (cases "svc_cpu S")
  case None
  with assms(6) have "putBody S e t b k body (collectPutOptions (call e 6) opts) w = (r, w')"
    by (simp add: Put_def)
  from putBody_ok [OF assms(1-5) this] show ?thesis .
next
  case (Some cpu)
  obtain a c where ac: "Acquire cpu (call e 0) (w_cpu w) = (a, c)" by (cases "Acquire cpu (call e 0) (w_cpu w)")
  show ?thesis
  proof (cases a)
    case a: (Some x)
    with Some ac assms(6) have "r = Inl x" "w' = w\<lparr>w_cpu := c\<rparr>" by (auto simp: Put_def)
    with assms(1) show ?thesis by (simp add: content_inv_def)
  next
    case None
    obtain r1 w1 where pb: "putBody S e t b k body (collectPutOptions (call e 6) opts) (w\<lparr>w_cpu := c\<rparr>) = (r1, w1)"
      by (cases "putBody S e t b k body (collectPutOptions (call e 6) opts) (w\<lparr>w_cpu := c\<rparr>)")
    from Some ac None pb assms(6) have eqs: "r = r1" "w' = w1\<lparr>w_cpu := ReleaseSlot cpu (w_cpu w1)\<rparr>"
      by (auto simp: Put_def)
    have pre: "content_inv (w\<lparr>w_cpu := c\<rparr>)" using assms(1) by (simp add: content_inv_def)
    note body = putBody_ok [OF pre assms(2) _ _ assms(5) pb]
    from body assms(3,4) show ?thesis by (simp add: eqs content_inv_def)
  qed
qed

lemma Delete_ok:
  assumes "content_inv w" "good_key (t, b, k)" "Delete S e t b k w = (r, w')"
  shows "content_inv w' \<and> w_blocks w' = w_blocks w \<and>
    (case r of Inl x \<Rightarrow> committed (w_meta w') = committed (w_meta w)
     | Inr m \<Rightarrow> committed (w_meta w') = (committed (w_meta w))((t, b, k) := None))"
proof -
  from assms(1) have inv: "inv (w_meta w)" by (simp add: content_inv_def)
  obtain rd m1 where d: "DeleteObject (svc_store S) (call e 0) t b k (w_meta w) = (rd, m1)"
    by (cases "DeleteObject (svc_store S) (call e 0) t b k (w_meta w)")
  with assms(3) have eqs: "r = rd" "w' = w\<lparr>w_meta := m1\<rparr>" by (simp_all add: Delete_def)
  from meta.delete [OF inv assms(2) d] assms(1) eqs show ?thesis
    by (auto simp: content_inv_def split: sum.splits)
qed

lemma openChunksLoop_ok:
  assumes "binv b" "0 \<le> off" "off + int (length (concat ds)) \<le> max_int64" "range_ok br"
    and "\<forall>d \<in> set ds. stored b t (block_id d) = Some d" "\<And>d. valid (block_id d)"
  shows "(\<forall>rds. openChunksLoop S e i t br (chunkRefs (svc_sha256 S) off ds) b = Inr rds \<longrightarrow>
        reader_err (io_MultiReader rds) = None \<longrightarrow> content (io_MultiReader rds) = part br off (concat ds))
    \<and> (quiet e \<longrightarrow> (\<exists>rds. openChunksLoop S e i t br (chunkRefs (svc_sha256 S) off ds) b = Inr rds
        \<and> reader_err (io_MultiReader rds) = None))"
  using assms
proof (induction ds arbitrary: off i)
  case Nil
  then show ?case by (auto simp: part_def split: option.split)
next
  case (Cons d ds)
  let ?rest = "openChunksLoop S e (Suc i) t br (chunkRefs (svc_sha256 S) (off + int (length d)) ds) b"
  let ?get = "GetBlock (svc_backend S) (call (call e i) 0) t (block_id d) b"
  have len: "0 \<le> off + int (length d)" "off + int (length d) + int (length (concat ds)) \<le> max_int64"
    using Cons.prems(2,3) by simp_all
  from Cons.IH [OF Cons.prems(1) len Cons.prems(4) _ Cons.prems(6)] Cons.prems(5)
  have ih: "\<And>rds. ?rest = Inr rds \<Longrightarrow> reader_err (io_MultiReader rds) = None
      \<Longrightarrow> content (io_MultiReader rds) = part br (off + int (length d)) (concat ds)"
    and ihq: "quiet e \<Longrightarrow> \<exists>rds. ?rest = Inr rds \<and> reader_err (io_MultiReader rds) = None" by auto
  from Cons.prems(5) have d: "stored b t (block_id d) = Some d" by simp
  have got: "reader_err rd = None \<Longrightarrow> content rd = d" if "?get = Inr rd" for rd
    using bl.get [OF Cons.prems(1) that] d by auto
  have getq: "\<exists>rd. ?get = Inr rd \<and> reader_err rd = None" if "quiet e"
    using bl.get_quiet [OF Cons.prems(1) _ Cons.prems(6) d, of "call (call e i) 0"] that by simp
  note run = openOne_eq [OF Cons.prems(2) _ Cons.prems(4), where d = d and S = S and e = e and i = i and t = t
      and h = "block_id d" and k = "[]" and cs = "chunkRefs (svc_sha256 S) (off + int (length d)) ds" and b = b]
  have dl: "off + int (length d) \<le> max_int64" using Cons.prems(3) by simp
  have split: "part br off (concat (d # ds)) = part br off d @ part br (off + int (length d)) (concat ds)"
    using part_append [OF Cons.prems(4)] by simp
  show ?case
  proof (cases "skipped br off d")
    case True
    with run [OF dl] have "openChunksLoop S e i t br (chunkRefs (svc_sha256 S) off (d # ds)) b = ?rest" by simp
    moreover have "part br off d = []" by (rule skipped_part [OF True Cons.prems(4)])
    ultimately show ?thesis using ih ihq split by auto
  next
    case False
    show ?thesis
    proof (intro conjI allI impI)
      fix rds
      assume ok: "openChunksLoop S e i t br (chunkRefs (svc_sha256 S) off (d # ds)) b = Inr rds"
        and err: "reader_err (io_MultiReader rds) = None"
      from ok run [OF dl] False obtain rd rd1 rds' where r: "?get = Inr rd"
        "openPiece (call e i) br off d (block_id d) rd = Inr rd1" "?rest = Inr rds'" "rds = rd1 # rds'"
        by (auto split: sum.splits)
      from err r(4) have errs: "reader_err rd1 = None" "reader_err (io_MultiReader rds') = None"
        by (auto split: if_splits)
      from openPiece_content [OF r(2) errs(1) got [OF r(1)] False Cons.prems(4)]
      have "content rd1 = part br off d" .
      with ih [OF r(3) errs(2)] errs(1) r(4) split
      show "content (io_MultiReader rds) = part br off (concat (d # ds))" by simp
    next
      assume q: "quiet e"
      from getq [OF q] obtain rd where rd: "?get = Inr rd" "reader_err rd = None" by blast
      from openPiece_quiet [where e = "call e i" and rd = rd and br = br and off = off and d = d and h = "block_id d"] q rd got [OF rd(1)] False Cons.prems(4)
      obtain rd1 where rd1: "openPiece (call e i) br off d (block_id d) rd = Inr rd1" "reader_err rd1 = None"
        by auto
      from ihq [OF q] obtain rds' where "?rest = Inr rds'" "reader_err (io_MultiReader rds') = None" by blast
      with rd rd1 run [OF dl] False
      show "\<exists>rds. openChunksLoop S e i t br (chunkRefs (svc_sha256 S) off (d # ds)) b = Inr rds
          \<and> reader_err (io_MultiReader rds) = None" by auto
    qed
  qed
qed

lemma openChunks_ok:
  assumes "content_inv w" "holds_content S (stored (w_blocks w) t) m c" "range_ok br"
  shows "(\<forall>rd. openChunks S e t m br (w_blocks w) = Inr rd \<longrightarrow> reader_err rd = None \<longrightarrow> content rd = part br 0 c)
    \<and> (quiet e \<longrightarrow> (\<exists>rd. openChunks S e t m br (w_blocks w) = Inr rd \<and> reader_err rd = None))"
proof -
  from assms(2) obtain ds where ds: "concat ds = c" "m_chunks m = chunkRefs (svc_sha256 S) 0 ds"
    "\<forall>d \<in> set ds. stored (w_blocks w) t (block_id d) = Some d" "int (length c) \<le> max_int64"
    unfolding holds_content_def by blast
  from assms(1) have inv: "binv (w_blocks w)" "\<And>d. valid (block_id d)" by (simp_all add: content_inv_def)
  have "0 + int (length (concat ds)) \<le> max_int64" using ds by simp
  from openChunksLoop_ok [OF inv(1) order_refl this assms(3) ds(3) inv(2), of e 0] ds(1,2) show ?thesis
    by (auto simp: openChunks_def split: sum.splits)
qed

lemma served:
  assumes "content_inv w" "good_key (t, b, k)" "GetObject (svc_store S) e t b k (w_meta w) = Inr m"
  shows "committed (w_meta w) (t, b, k) = Some m \<and> (\<exists>c. holds_content S (stored (w_blocks w) t) m c)"
  using assms meta.get by (auto simp: content_inv_def)

lemma OpenRange_ok:
  assumes "content_inv w" "good_key (t, b, k)" "OpenRange S e t b k r w = Inr (m, rd)" "range_ok (Some r)"
    "reader_err rd = None" "holds_content S (stored (w_blocks w) t) m c"
  shows "committed (w_meta w) (t, b, k) = Some m \<and> content rd = part (Some r) 0 c"
proof -
  from assms(3) have g: "GetObject (svc_store S) (call e 0) t b k (w_meta w) = Inr m"
    and o: "openChunks S (call e 1) t m (Some r) (w_blocks w) = Inr rd"
    by (auto simp: OpenRange_def split: sum.splits)
  from served [OF assms(1,2) g] openChunks_ok [OF assms(1,6,4), of "call e 1"] o assms(5)
  show ?thesis by blast
qed

lemma OpenObject_ok:
  assumes "content_inv w" "good_key (t, b, k)" "OpenObject S e t b k w = Inr (m, rd)" "reader_err rd = None"
    "holds_content S (stored (w_blocks w) t) m c"
  shows "committed (w_meta w) (t, b, k) = Some m \<and> content rd = c"
proof -
  from assms(3) have g: "GetObject (svc_store S) (call e 0) t b k (w_meta w) = Inr m"
    and o: "openChunks S (call e 1) t m None (w_blocks w) = Inr rd"
    by (auto simp: OpenObject_def split: sum.splits)
  have "range_ok None" by (simp add: range_ok_def)
  from served [OF assms(1,2) g] openChunks_ok [OF assms(1,5) this, of "call e 1"] o assms(4)
  show ?thesis by (auto simp: part_def)
qed

text \<open>Selected chunks of a served object are delivered when all of them are in the manifest.\<close>

lemma readChunksLoop_quiet:
  assumes "quiet e" "content_inv w" "\<forall>d \<in> set ds. stored (w_blocks w) t (block_id d) = Some d"
    and "\<forall>h \<in> set hs. \<exists>ref. map_of mc h = Some ref"
    and "\<forall>h ref. map_of mc h = Some ref \<longrightarrow> (\<exists>d \<in> set ds. h = block_id d \<and> cr_size ref = int (length d))"
  shows "\<exists>sel. readChunksLoop S e i t mc seen hs (w_blocks w) = Inr sel
    \<and> (\<forall>x \<in> set sel. stored (w_blocks w) t (sc_Hash x) = Some (sc_Data x))"
  using assms(4)
proof (induction hs arbitrary: i seen)
  case (Cons h hs)
  from Cons.prems obtain ref where ref: "map_of mc h = Some ref" by auto
  with assms(5) obtain d where d: "d \<in> set ds" "h = block_id d" "cr_size ref = int (length d)" by blast
  from assms(2) have inv: "binv (w_blocks w)" "valid (block_id d)" by (simp_all add: content_inv_def)
  from d assms(3) have "stored (w_blocks w) t (block_id d) = Some d" by blast
  from bl.get_content [OF inv(1) _ inv(2) this, of "call (call e i) 0"] assms(1) obtain rd where
    "GetBlock (svc_backend S) (call (call e i) 0) t h (w_blocks w) = Inr rd" "read_all rd = Inr d"
    unfolding d(2) read_all_Inr by auto
  moreover from Cons.prems obtain sel where
    "readChunksLoop S e (Suc i) t mc (if h \<in> set seen then seen else h # seen) hs (w_blocks w) = Inr sel"
    "\<forall>x \<in> set sel. stored (w_blocks w) t (sc_Hash x) = Some (sc_Data x)"
    using Cons.IH [of "Suc i" "if h \<in> set seen then seen else h # seen"] by auto
  ultimately show ?case
    using ref d assms(1) \<open>stored (w_blocks w) t (block_id d) = Some d\<close> by auto
qed simp

end

section \<open>Over the memory store and the filesystem store\<close>

definition fileService :: "fastcdc \<Rightarrow> (bytes \<Rightarrow> bytes) \<Rightarrow> (bytes \<Rightarrow> bytes) \<Rightarrow> splitter \<Rightarrow> file_store
    \<Rightarrow> 'c limiter_ops option \<Rightarrow> (memory_store, file_tree, 'c) service" where
  "fileService fc sha md sp store cpu =
     \<lparr>svc_fc = fc, svc_sha256 = sha, svc_md5 = md, svc_chunker = sp, svc_backend = fs_ops store,
      svc_store = memory_ops, svc_cpu = cpu\<rparr>"

lemma fileService_simps [simp]:
  "svc_fc (fileService fc sha md sp store cpu) = fc"
  "svc_sha256 (fileService fc sha md sp store cpu) = sha"
  "svc_md5 (fileService fc sha md sp store cpu) = md"
  "svc_chunker (fileService fc sha md sp store cpu) = sp"
  "svc_backend (fileService fc sha md sp store cpu) = fs_ops store"
  "svc_store (fileService fc sha md sp store cpu) = memory_ops"
  by (simp_all add: fileService_def)

lemma fileService_contract:
  assumes "fastcdc_library fc fcuts"
  shows "object_service (fileService fc sha md sp store cpu) store_inv mem_committed mem_pending mem_fresh
    (fs_inv store) sanitizePathPart (fs_stored store) validBlockHash fcuts"
  unfolding object_service_def fileService_simps
  using mem.object_store_axioms live_fs.live_block_store_axioms assms by blast

interpretation file_service: object_service "fileService builtinAsLibrary sha md sp store cpu"
  store_inv mem_committed mem_pending mem_fresh "fs_inv store" sanitizePathPart "fs_stored store"
  validBlockHash "\<lambda>mn av mx. cdcChunks (builtinSizes mn av mx)"
  by (rule fileService_contract) (rule fallback.fastcdc_library_axioms)

text \<open>The invariant of the service over these stores, spelled out: both stores are consistent,
  every stored block is filed under its own hash, and every committed object is made of pieces
  that are all stored, in order, with the right sizes and ETag.\<close>

definition world_ok :: "(memory_store, file_tree, 'c) service \<Rightarrow> file_store
    \<Rightarrow> (memory_store, file_tree, 'c) world \<Rightarrow> bool" where
  "world_ok S store w \<longleftrightarrow> (\<forall>d. validBlockHash (hex_encode (svc_sha256 S d)))
     \<and> store_inv (w_meta w) \<and> fs_inv store (w_blocks w) \<and> addressed S UNIV (fs_stored store (w_blocks w))
     \<and> (\<forall>t b k m. good_key (t, b, k) \<longrightarrow> mem_committed (w_meta w) (t, b, k) = Some m \<longrightarrow>
          (\<exists>c. holds_content S (fs_stored store (w_blocks w) t) m c))"

lemma world_ok_eq:
  assumes "fastcdc_library fc fcuts"
  shows "object_service.content_inv (fileService fc sha md sp store cpu) store_inv mem_committed
    (fs_inv store) (fs_stored store) validBlockHash w = world_ok (fileService fc sha md sp store cpu) store w"
  unfolding object_service.content_inv_def [OF fileService_contract [OF assms]] world_ok_def ..

text \<open>One request: its chunks do not collide with each other or with what is stored.\<close>

definition no_collision :: "(memory_store, file_tree, 'c) service \<Rightarrow> file_store
    \<Rightarrow> (32 word \<Rightarrow> 32 word \<Rightarrow> 32 word \<Rightarrow> bytes \<Rightarrow> bytes list) \<Rightarrow> bytes \<Rightarrow> (memory_store, file_tree, 'c) world \<Rightarrow> bool" where
  "no_collision S store fcuts c w \<longleftrightarrow>
     inj_on (svc_sha256 S) (contents (fs_stored store (w_blocks w)) \<union> set (streamCuts fcuts (svc_chunker S) c))"

definition put_fresh :: "env \<Rightarrow> string \<Rightarrow> string \<Rightarrow> string \<Rightarrow> (memory_store, file_tree, 'c) world \<Rightarrow> bool" where
  "put_fresh e t b k w \<longleftrightarrow>
     mem_fresh (call e 1) (empty_manifest\<lparr>m_tenant := t, m_bucket := b, m_key := k\<rparr>) (w_meta w)"

inductive service_reachable for S :: "(memory_store, file_tree, 'c) service" and store and fcuts where
  start: "store_inv (w_meta w) \<Longrightarrow> mem_committed (w_meta w) = (\<lambda>_. None) \<Longrightarrow> w_blocks w = (\<lambda>_. None) \<Longrightarrow>
    service_reachable S store fcuts w"
| put: "service_reachable S store fcuts w \<Longrightarrow> good_key (t, b, k) \<Longrightarrow> put_fresh e t b k w \<Longrightarrow>
    no_collision S store fcuts (content body) w \<Longrightarrow> int (length (content body)) \<le> max_int64 \<Longrightarrow>
    Put S e t b k body opts w = (r, w') \<Longrightarrow> service_reachable S store fcuts w'"
| delete: "service_reachable S store fcuts w \<Longrightarrow> good_key (t, b, k) \<Longrightarrow> Delete S e t b k w = (r, w') \<Longrightarrow>
    service_reachable S store fcuts w'"

lemma file_Put:
  assumes "fastcdc_library fc fcuts" "S = fileService fc sha md sp store cpu" "world_ok S store w"
    and "good_key (t, b, k)" "put_fresh e t b k w" "no_collision S store fcuts (content body) w"
    and "int (length (content body)) \<le> max_int64" "Put S e t b k body opts w = (r, w')"
  shows "world_ok S store w' \<and> grows (fs_stored store (w_blocks w)) (fs_stored store (w_blocks w'))
    \<and> (\<forall>m. r = Inr m \<longrightarrow> mem_committed (w_meta w') (t, b, k) = Some m)
    \<and> (mem_committed (w_meta w') = mem_committed (w_meta w) \<and> (\<exists>x. r = Inl x)
      \<or> reader_err body = None \<and> (\<exists>m. mem_committed (w_meta w') = (mem_committed (w_meta w))((t, b, k) \<mapsto> m)
          \<and> holds_content S (fs_stored store (w_blocks w') t) m (content body)
          \<and> m_headers m = po_Headers (collectPutOptions (call e 6) opts)))"
  using object_service.Put_ok [OF fileService_contract [OF assms(1)], unfolded world_ok_eq [OF assms(1)],
      OF _ assms(4) _ _ assms(7)] assms(3,5,6,8)
  unfolding assms(2) put_fresh_def no_collision_def by blast

lemma file_Delete:
  assumes "fastcdc_library fc fcuts" "S = fileService fc sha md sp store cpu" "world_ok S store w"
    and "good_key (t, b, k)" "Delete S e t b k w = (r, w')"
  shows "world_ok S store w'"
  using object_service.Delete_ok [OF fileService_contract [OF assms(1)], unfolded world_ok_eq [OF assms(1)],
      OF _ assms(4)] assms(3,5)
  unfolding assms(2) by blast

lemma world_ok_start:
  assumes "\<forall>d. validBlockHash (hex_encode (svc_sha256 S d))" "\<forall>A. fs_aead store = Some A \<longrightarrow> aead_ok A"
    and "store_inv (w_meta w)" "mem_committed (w_meta w) = (\<lambda>_. None)" "w_blocks w = (\<lambda>_. None)"
  shows "world_ok S store w"
  using assms by (simp add: world_ok_def fs_inv_def addressed_def fs_stored_def)

lemma service_reachable_ok:
  assumes "fastcdc_library fc fcuts" "S = fileService fc sha md sp store cpu"
    and "\<forall>d. length (sha d) = 32" "\<forall>A. fs_aead store = Some A \<longrightarrow> aead_ok A"
  shows "service_reachable S store fcuts w \<Longrightarrow> world_ok S store w"
proof (induction rule: service_reachable.induct)
  case (start w)
  with assms(2-4) show ?case by (intro world_ok_start) (simp_all add: validBlockHash_hex)
next
  case (put w t b k e body opts r w')
  with file_Put [OF assms(1,2)] show ?case by blast
next
  case (delete w t b k e r w')
  with file_Delete [OF assms(1,2)] show ?case by blast
qed

lemma mem_get_quiet:
  assumes "store_inv s" "mem_committed s (t, b, k) = Some m" "quiet e"
  shows "memGetObject e t b k s = Inr m"
proof -
  from assms(2) obtain i where i: "map_of (index s) (objectKey t b k) = Some i"
    "m = lookup_or empty_manifest (objects s) i"
    by (auto simp: mem_committed_def split: if_splits)
  from assms(1) have "index_ok s" by (simp add: store_inv_def mem_inv_def)
  from index_okD(1) [OF this i(1)] i assms(3) show ?thesis by (simp add: memGetObject_def)
qed

lemma file_open:
  assumes "fastcdc_library fc fcuts" "S = fileService fc sha md sp store cpu" "world_ok S store w"
    and "good_key (t, b, k)" "holds_content S (fs_stored store (w_blocks w) t) m c"
    and "mem_committed (w_meta w) (t, b, k) = Some m"
  shows "OpenObject S e t b k w = Inr (m', rd) \<Longrightarrow> reader_err rd = None \<Longrightarrow> m' = m \<and> content rd = c"
    and "range_ok (Some r) \<Longrightarrow> OpenRange S e t b k r w = Inr (m', rd) \<Longrightarrow> reader_err rd = None
      \<Longrightarrow> m' = m \<and> content rd = part (Some r) 0 c"
    and "quiet e \<Longrightarrow> \<exists>rd. OpenObject S e t b k w = Inr (m, rd) \<and> reader_err rd = None"
    and "range_ok (Some r) \<Longrightarrow> quiet e \<Longrightarrow> \<exists>rd. OpenRange S e t b k r w = Inr (m, rd) \<and> reader_err rd = None"
proof -
  note C = fileService_contract [OF assms(1), of sha md sp store cpu]
  note inv = assms(3) [unfolded assms(2), folded world_ok_eq [OF assms(1)]]
  note hc = assms(5) [unfolded assms(2)]
  show "m' = m \<and> content rd = c"
    if o: "OpenObject S e t b k w = Inr (m', rd)" "reader_err rd = None"
  proof -
    from o(1) have g: "GetObject (svc_store S) (call e 0) t b k (w_meta w) = Inr m'"
      by (auto simp: OpenObject_def split: sum.splits)
    from object_service.served [OF C inv assms(4)] g assms(6) have "m' = m" by (simp add: assms(2))
    with object_service.OpenObject_ok [OF C inv assms(4) _ o(2) hc] o(1) show ?thesis by (simp add: assms(2))
  qed
  show "m' = m \<and> content rd = part (Some r) 0 c"
    if "range_ok (Some r)" and o: "OpenRange S e t b k r w = Inr (m', rd)" "reader_err rd = None"
  proof -
    from o(1) have g: "GetObject (svc_store S) (call e 0) t b k (w_meta w) = Inr m'"
      by (auto simp: OpenRange_def split: sum.splits)
    from object_service.served [OF C inv assms(4)] g assms(6) have "m' = m" by (simp add: assms(2))
    with object_service.OpenRange_ok [OF C inv assms(4) _ that(1) o(2) hc] o(1) show ?thesis by (simp add: assms(2))
  qed
  have get: "GetObject (svc_store S) (call e 0) t b k (w_meta w) = Inr m" if "quiet e"
    using mem_get_quiet [OF _ assms(6), of "call e 0"] that assms(2,3) by (simp add: world_ok_def memory_ops_def)
  show "\<exists>rd. OpenObject S e t b k w = Inr (m, rd) \<and> reader_err rd = None" if "quiet e"
    using object_service.openChunks_ok [OF C inv hc, of None "call e 1"] get that
    by (auto simp: OpenObject_def range_ok_def assms(2))
  show "\<exists>rd. OpenRange S e t b k r w = Inr (m, rd) \<and> reader_err rd = None" if "range_ok (Some r)" "quiet e"
    using object_service.openChunks_ok [OF C inv hc that(1), of "call e 1"] get that
    by (auto simp: OpenRange_def assms(2))
qed

section \<open>A concrete service\<close>

definition toy_sha :: "bytes \<Rightarrow> bytes" where
  "toy_sha d = take 32 (d @ replicate 32 0)"

definition svc_a :: "(memory_store, file_tree, unit) service" where
  "svc_a = fileService builtinAsLibrary toy_sha toy_sha
     \<lparr>minSize = 1, avgSize = 2, maxSize = 2, smallFileThreshold = 8, engine = EngineBuiltin, mask = 1\<rparr>
     store_plain None"

definition world_0 :: "(memory_store, file_tree, unit) world" where
  "world_0 = \<lparr>w_meta = NewMemoryStore, w_blocks = (\<lambda>_. None), w_cpu = (), w_metrics = None\<rparr>"

definition body_a :: reader where
  "body_a = [([1, 2], NoErr), ([3], EOF)]"

definition world_a :: "(memory_store, file_tree, unit) world" where
  "world_a = snd (Put svc_a env0 ''t'' ''b'' ''k'' body_a [] world_0)"

lemma put_a: "\<not> isl (fst (Put svc_a env0 ''t'' ''b'' ''k'' body_a [] world_0))"
  by code_simp

lemma fallback_lib: "fastcdc_library builtinAsLibrary (\<lambda>mn av mx. cdcChunks (builtinSizes mn av mx))"
  by (rule fallback.fastcdc_library_axioms)

lemma toy_sha_length: "length (toy_sha d) = 32"
  by (simp add: toy_sha_def)

lemma store_plain_keys: "\<forall>A. fs_aead store_plain = Some A \<longrightarrow> aead_ok A"
  by (simp add: store_plain_def)

lemma world_0_start:
  "service_reachable svc_a store_plain fcuts world_0"
  by (rule service_reachable.start)
    (auto simp: world_0_def mem_committed_def NewMemoryStore_def fun_eq_iff
      intro: store_inv_new [unfolded NewMemoryStore_def])

lemma good_key_tbk: "good_key (''t'', ''b'', ''k'')"
  by (simp add: good_key_def nul_free_def)

lemma put_a_side:
  "put_fresh env0 ''t'' ''b'' ''k'' world_0"
  "no_collision svc_a store_plain fcuts (content body_a) world_0"
  "int (length (content body_a)) \<le> max_int64"
  by (simp_all add: put_fresh_def mem_fresh_def world_0_def NewMemoryStore_def empty_manifest_def
      no_collision_def svc_a_def body_a_def streamCuts_def contents_def fs_stored_def max_int64_def)

lemma put_a_result: "\<exists>m. Put svc_a env0 ''t'' ''b'' ''k'' body_a [] world_0 = (Inr m, world_a)"
  using put_a by (cases "Put svc_a env0 ''t'' ''b'' ''k'' body_a [] world_0")
    (auto simp: world_a_def isl_def split: sum.splits, metis Inl_Inr_False sum.exhaust)

lemma world_0_ok: "world_ok svc_a store_plain world_0"
  by (rule service_reachable_ok [OF fallback_lib svc_a_def _ store_plain_keys world_0_start])
    (simp add: toy_sha_length)

lemma world_a_reachable:
  "service_reachable svc_a store_plain (\<lambda>mn av mx. cdcChunks (builtinSizes mn av mx)) world_a"
  using put_a_result service_reachable.put [OF world_0_start good_key_tbk put_a_side] by blast

section \<open>Properties\<close>

text \<open>C21: Every committed object can be read back. In every state reachable from empty stores by
  uploads and deletions, with any cancellations, backend and metadata failures on the way, each
  committed object has a content whose length and MD5 are the manifest's size and ETag, which
  an undisturbed read returns in full; and a read that is disturbed never returns different
  bytes without an error.\<close>

theorem reachable_objects_readable:
  assumes "fastcdc_library fc fcuts" "S = fileService fc sha md sp store cpu"
    and "\<forall>d. length (sha d) = 32" "\<forall>A. fs_aead store = Some A \<longrightarrow> aead_ok A"
    and "service_reachable S store fcuts w" "good_key (t, b, k)"
    and "mem_committed (w_meta w) (t, b, k) = Some m"
  shows "\<exists>c. m_size m = int (length c) \<and> m_etag m = quoted (hex_encode (md c))
    \<and> (\<forall>e. quiet e \<longrightarrow> (\<exists>rd. OpenObject S e t b k w = Inr (m, rd) \<and> read_all rd = Inr c))
    \<and> (\<forall>e m' rd d. OpenObject S e t b k w = Inr (m', rd) \<longrightarrow> read_all rd = Inr d \<longrightarrow> m' = m \<and> d = c)"
proof -
  from service_reachable_ok [OF assms(1-4,5)] have ok: "world_ok S store w" .
  with assms(6,7) obtain c where c: "holds_content S (fs_stored store (w_blocks w) t) m c"
    unfolding world_ok_def by blast
  note reads = file_open [OF assms(1,2) ok assms(6) c assms(7)]
  have "m_size m = int (length c)" "m_etag m = quoted (hex_encode (md c))"
    using c by (simp_all add: holds_content_def assms(2))
  moreover have "\<exists>rd. OpenObject S e t b k w = Inr (m, rd) \<and> read_all rd = Inr c" if "quiet e" for e
    using reads(3) [OF that] reads(1) by (auto simp: read_all_Inr)
  ultimately show ?thesis using reads(1) by (auto simp: read_all_Inr)
qed

theorem reachable_objects_readable_witness:
  "\<exists>m c rd. mem_committed (w_meta world_a) (''t'', ''b'', ''k'') = Some m
    \<and> OpenObject svc_a env0 ''t'' ''b'' ''k'' world_a = Inr (m, rd) \<and> read_all rd = Inr c"
proof -
  obtain m where m: "Put svc_a env0 ''t'' ''b'' ''k'' body_a [] world_0 = (Inr m, world_a)"
    using put_a_result by blast
  have "mem_committed (w_meta world_a) (''t'', ''b'', ''k'') = Some m"
    using file_Put [OF fallback_lib svc_a_def world_0_ok good_key_tbk put_a_side m] by simp
  with reachable_objects_readable [OF fallback_lib svc_a_def _ store_plain_keys world_a_reachable good_key_tbk this]
  show ?thesis using toy_sha_length quiet_env0 by blast
qed

text \<open>C22: What was uploaded is what is served. After a successful \<open>Put\<close> the body was read to its
  end without error, the returned manifest carries its length, its MD5 as ETag and the given
  headers, and an undisturbed \<open>Open\<close> of the key returns that manifest and exactly the body.\<close>

theorem put_then_open:
  assumes "fastcdc_library fc fcuts" "S = fileService fc sha md sp store cpu" "world_ok S store w"
    and "good_key (t, b, k)" "put_fresh e t b k w" "no_collision S store fcuts (content body) w"
    and "int (length (content body)) \<le> max_int64" "Put S e t b k body opts w = (Inr m, w')"
    and "quiet e'"
  shows "reader_err body = None \<and> m_size m = int (length (content body))
    \<and> m_etag m = quoted (hex_encode (md (content body)))
    \<and> m_headers m = po_Headers (collectPutOptions (call e 6) opts)
    \<and> (\<exists>rd. OpenObject S e' t b k w' = Inr (m, rd) \<and> read_all rd = Inr (content body))"
proof -
  from file_Put [OF assms(1-8)] have ok: "world_ok S store w'" "mem_committed (w_meta w') (t, b, k) = Some m"
    "reader_err body = None" "holds_content S (fs_stored store (w_blocks w') t) m (content body)"
    "m_headers m = po_Headers (collectPutOptions (call e 6) opts)" by auto
  note reads = file_open [OF assms(1,2) ok(1) assms(4) ok(4,2)]
  from reads(3) [OF assms(9)] obtain rd where rd: "OpenObject S e' t b k w' = Inr (m, rd)" "reader_err rd = None"
    by blast
  moreover from reads(1) [OF rd] have "content rd = content body" by simp
  ultimately have "\<exists>rd. OpenObject S e' t b k w' = Inr (m, rd) \<and> read_all rd = Inr (content body)"
    by (auto simp: read_all_Inr)
  moreover have "m_size m = int (length (content body))" "m_etag m = quoted (hex_encode (md (content body)))"
    using ok(4) by (simp_all add: holds_content_def assms(2))
  ultimately show ?thesis using ok(3,5) by blast
qed

theorem put_then_open_witness:
  "\<exists>m rd. OpenObject svc_a env0 ''t'' ''b'' ''k'' world_a = Inr (m, rd) \<and> m_size m = 3
     \<and> read_all rd = Inr [1, 2, 3]"
proof -
  obtain m where m: "Put svc_a env0 ''t'' ''b'' ''k'' body_a [] world_0 = (Inr m, world_a)"
    using put_a_result by blast
  have c: "content body_a = [1, 2, 3]" by (simp add: body_a_def)
  from put_then_open [OF fallback_lib svc_a_def world_0_ok good_key_tbk put_a_side m quiet_env0] c
  show ?thesis by auto
qed



text \<open>C24: A range read returns the requested slice. For a stored object with content \<open>c\<close> and
  \<open>0 <= Start <= End\<close>, \<open>OpenRange\<close> succeeds when undisturbed, and whenever its reader ends
  without error it has delivered exactly the bytes \<open>Start\<close> to \<open>End\<close> of \<open>c\<close> (fewer only where
  \<open>c\<close> ends earlier), across chunk boundaries.\<close>

theorem open_range_slice:
  assumes "fastcdc_library fc fcuts" "S = fileService fc sha md sp store cpu" "world_ok S store w"
    and "good_key (t, b, k)" "mem_committed (w_meta w) (t, b, k) = Some m"
    and "holds_content S (fs_stored store (w_blocks w) t) m c"
    and "0 \<le> Start r" "Start r \<le> End r" "End r \<le> max_int64"
  shows "(OpenRange S e t b k r w = Inr (m', rd) \<longrightarrow> read_all rd = Inr d \<longrightarrow>
        m' = m \<and> d = drop (nat (Start r)) (take (nat (End r + 1)) c))
    \<and> (quiet e \<longrightarrow> (\<exists>rd. OpenRange S e t b k r w = Inr (m, rd)
        \<and> read_all rd = Inr (drop (nat (Start r)) (take (nat (End r + 1)) c))))"
proof -
  have r: "range_ok (Some r)" using assms(7-9) by (simp add: range_ok_def)
  note reads = file_open [OF assms(1-4,6,5)]
  have safe: "m' = m \<and> content rd = drop (nat (Start r)) (take (nat (End r + 1)) c)"
    if "OpenRange S e t b k r w = Inr (m', rd)" "reader_err rd = None" for m' rd
    using reads(2) [OF r that] by (simp add: part_def)
  have live: "\<exists>rd. OpenRange S e t b k r w = Inr (m, rd)
      \<and> read_all rd = Inr (drop (nat (Start r)) (take (nat (End r + 1)) c))" if "quiet e"
  proof -
    from reads(4) [OF r that] obtain rd where "OpenRange S e t b k r w = Inr (m, rd)" "reader_err rd = None"
      by blast
    with safe [OF this] show ?thesis by (auto simp: read_all_Inr)
  qed
  show ?thesis
  proof (intro conjI impI)
    assume "OpenRange S e t b k r w = Inr (m', rd)" "read_all rd = Inr d"
    with safe [of m' rd] show "m' = m" "d = drop (nat (Start r)) (take (nat (End r + 1)) c)"
      by (auto simp: read_all_Inr)
  qed (rule live)
qed

theorem open_range_slice_witness:
  "\<exists>m rd. OpenRange svc_a env0 ''t'' ''b'' ''k'' \<lparr>Start = 1, End = 7\<rparr> world_a = Inr (m, rd)
     \<and> read_all rd = Inr [2, 3]"
proof -
  obtain m where m: "Put svc_a env0 ''t'' ''b'' ''k'' body_a [] world_0 = (Inr m, world_a)"
    using put_a_result by blast
  from file_Put [OF fallback_lib svc_a_def world_0_ok good_key_tbk put_a_side m]
  have ok: "world_ok svc_a store_plain world_a" "mem_committed (w_meta world_a) (''t'', ''b'', ''k'') = Some m"
    "holds_content svc_a (fs_stored store_plain (w_blocks world_a) ''t'') m (content body_a)" by auto
  have c: "content body_a = [1, 2, 3]" by (simp add: body_a_def)
  have "\<exists>rd. OpenRange svc_a env0 ''t'' ''b'' ''k'' \<lparr>Start = 1, End = 7\<rparr> world_a = Inr (m, rd)
      \<and> read_all rd = Inr (drop (nat 1) (take (nat (7 + 1)) (content body_a)))"
    using open_range_slice [OF fallback_lib svc_a_def ok(1) good_key_tbk ok(2,3),
        where r = "\<lparr>Start = 1, End = 7\<rparr>" and e = env0] by (simp add: max_int64_def)
  then show ?thesis by (auto simp: c)
qed

lemma map_of_manifestChunks:
  "map_of (manifestChunks cs m) h =
    (case map_of m h of Some r \<Rightarrow> Some r | None \<Rightarrow> find (\<lambda>c. cr_hash c = h) cs)"
  by (induction cs m rule: manifestChunks.induct) (auto split: option.splits)

lemma readChunksLoop_selected:
  "readChunksLoop S e i t mc seen hs b = Inr sel \<Longrightarrow>
    distinct (map sc_Hash sel) \<and> set (map sc_Hash sel) = set hs - set seen
    \<and> (\<forall>c \<in> set sel. hex_encode (svc_sha256 S (sc_Data c)) = sc_Hash c
        \<and> sc_Size c = int (length (sc_Data c))
        \<and> (\<exists>ref. map_of mc (sc_Hash c) = Some ref \<and> cr_size ref = sc_Size c))"
proof (induction S e i t mc seen hs b arbitrary: sel rule: readChunksLoop.induct)
  case (2 S e i t mc seen h hs b)
  show ?case
  proof (cases "h \<in> set seen")
    case True
    with 2 show ?thesis by auto
  next
    case False
    from 2(3) False obtain ref rd data rest where step: "map_of mc h = Some ref"
      "GetBlock (svc_backend S) (call (call e i) 0) t h b = Inr rd" "read_all rd = Inr data"
      "syscall (call e i) 1 = None" "int (length data) = cr_size ref" "hex_encode (svc_sha256 S data) = h"
      "readChunksLoop S e (Suc i) t mc (h # seen) hs b = Inr rest"
      "sel = \<lparr>sc_Hash = h, sc_Size = cr_size ref, sc_Data = data\<rparr> # rest"
      by (auto split: option.splits sum.splits if_splits)
    from 2(2) [OF False step(1-4) _ _ step(7)] step False show ?thesis by auto
  qed
qed simp

text \<open>C25: Selected chunks are verified. Whatever the backend returns, every chunk \<open>ReadChunks\<close>
  hands out has the requested hash as its SHA-256 and the manifest's size, belongs to the
  object's manifest, and the chunks are exactly the distinct requested hashes.\<close>

theorem read_chunks_verified:
  assumes "ReadChunks S e t b k hs w = Inr (m, sel)"
  shows "distinct (map sc_Hash sel) \<and> set (map sc_Hash sel) = set hs
    \<and> (\<forall>c \<in> set sel. hex_encode (svc_sha256 S (sc_Data c)) = sc_Hash c
        \<and> sc_Size c = int (length (sc_Data c))
        \<and> (\<exists>ref \<in> set (m_chunks m). cr_hash ref = sc_Hash c \<and> cr_size ref = sc_Size c))"
proof (cases "hs = []")
  case True
  with assms show ?thesis by (auto simp: ReadChunks_def split: sum.splits)
next
  case False
  with assms have "readChunksLoop S (call e 1) 0 t (manifestChunks (m_chunks m) []) [] hs (w_blocks w) = Inr sel"
    by (auto simp: ReadChunks_def split: sum.splits)
  from readChunksLoop_selected [OF this] show ?thesis
    by (auto simp: map_of_manifestChunks find_Some_iff split: option.splits; metis nth_mem)
qed

theorem read_chunks_verified_witness:
  "\<exists>m sel. ReadChunks svc_a env0 ''t'' ''b'' ''k'' [hex_encode (toy_sha [1, 2, 3])] world_a = Inr (m, sel)
     \<and> set (map sc_Hash sel) = {hex_encode (toy_sha [1, 2, 3])}"
proof -
  have "\<not> isl (ReadChunks svc_a env0 ''t'' ''b'' ''k'' [hex_encode (toy_sha [1, 2, 3])] world_a)"
    unfolding world_a_def by code_simp
  then obtain m sel where r: "ReadChunks svc_a env0 ''t'' ''b'' ''k'' [hex_encode (toy_sha [1, 2, 3])] world_a = Inr (m, sel)"
    by (cases "ReadChunks svc_a env0 ''t'' ''b'' ''k'' [hex_encode (toy_sha [1, 2, 3])] world_a") auto
  from read_chunks_verified [OF r] r show ?thesis by auto
qed

end
