(* ===== verification/Sweeper.thy ===== *)
theory Sweeper
  imports ObjectService
begin

text \<open>
  \<open>src/internal/gc/sweeper.go\<close>: the garbage collector that deletes the blocks no committed object
  refers to. A sweep works against the metadata store and block store interfaces; the loop over
  the batches of a tenant ends only when the store runs out of candidates, so it takes fuel, and
  over the memory store the fuel needed is bounded. The durations of the timers between retries
  are not modelled; whether the context ends the wait is.
\<close>

section \<open>The sweeper\<close>

definition DefaultInterval :: int where "DefaultInterval = 3600 * 1000000000"
definition DefaultMinOrphanAge :: int where "DefaultMinOrphanAge = 24 * 3600 * 1000000000"
definition DefaultBatchSize :: int where "DefaultBatchSize = 1000"
definition DefaultMaxRetries :: int where "DefaultMaxRetries = 3"

record ('m, 'b) sweeper =
  sw_Store :: "'m store_ops option"
  sw_Backend :: "'b block_ops option"
  sw_Limit :: int
  sw_BatchSize :: int
  sw_MinOrphanAge :: int
  sw_MaxRetries :: int

record gc_result =
  ScannedTenants :: int
  CandidateBlocks :: int
  DeletedBlocks :: int
  Failures :: int

record gc_metrics =
  gm_runs :: int
  gm_scannedTenants :: int
  gm_candidateBlocks :: int
  gm_deletedBlocks :: int
  gm_failures :: int
  gm_lastRunUnix :: int

record ('m, 'b) gc_world =
  gw_meta :: 'm
  gw_blocks :: 'b
  gw_metrics :: "gc_metrics option"

definition newGcMetrics :: gc_metrics where
  "newGcMetrics = \<lparr>gm_runs = 0, gm_scannedTenants = 0, gm_candidateBlocks = 0, gm_deletedBlocks = 0,
     gm_failures = 0, gm_lastRunUnix = 0\<rparr>"

definition gcObserve :: "env \<Rightarrow> gc_result \<Rightarrow> gc_metrics option \<Rightarrow> gc_metrics option" where
  "gcObserve e result = map_option (\<lambda>m.
     \<lparr>gm_runs = add64 (gm_runs m) 1,
      gm_scannedTenants = add64 (gm_scannedTenants m) (ScannedTenants result),
      gm_candidateBlocks = add64 (gm_candidateBlocks m) (CandidateBlocks result),
      gm_deletedBlocks = add64 (gm_deletedBlocks m) (DeletedBlocks result),
      gm_failures = add64 (gm_failures m) (Failures result),
      gm_lastRunUnix = now e 0 div 1000000000\<rparr>)"

definition gcSnapshot :: "gc_metrics option \<Rightarrow> gc_metrics" where
  "gcSnapshot mo = (case mo of None \<Rightarrow> newGcMetrics | Some m \<Rightarrow> m)"

definition minOrphanAge :: "('m, 'b) sweeper \<Rightarrow> int" where
  "minOrphanAge s = (if sw_MinOrphanAge s < 0 then DefaultMinOrphanAge else sw_MinOrphanAge s)"

definition batchSize :: "('m, 'b) sweeper \<Rightarrow> int" where
  "batchSize s =
     (let b0 = sw_BatchSize s;
          b1 = (if b0 \<le> 0 then sw_Limit s else b0);
          b2 = (if b1 \<le> 0 then DefaultBatchSize else b1)
      in if DefaultBatchSize < b2 then DefaultBatchSize else b2)"

definition maxRetries :: "('m, 'b) sweeper \<Rightarrow> int" where
  "maxRetries s = (if sw_MaxRetries s < 0 then DefaultMaxRetries else sw_MaxRetries s)"

text \<open>\<open>deleteWithRetry\<close> with \<open>n\<close> attempts left, the last error being \<open>err0\<close>.\<close>

fun deleteLoop :: "'b block_ops \<Rightarrow> env \<Rightarrow> nat \<Rightarrow> nat \<Rightarrow> string \<Rightarrow> string list \<Rightarrow> err option \<Rightarrow> 'b
    \<Rightarrow> err option \<times> 'b" where
  "deleteLoop be e attempt 0 tenant hashes err0 b = (err0, b)"
| "deleteLoop be e attempt (Suc n) tenant hashes err0 b =
     (case ctx_poll (call e attempt) 0 of
        Some x \<Rightarrow> (Some x, b)
      | None \<Rightarrow>
          (case DeleteBlocks be (call (call e attempt) 1) tenant hashes b of
             (None, b') \<Rightarrow> (None, b')
           | (Some x, b') \<Rightarrow>
               if n = 0 then (Some x, b')
               else (case ctx_poll (call e attempt) 2 of
                       Some y \<Rightarrow> (Some y, b')
                     | None \<Rightarrow> deleteLoop be e (Suc attempt) n tenant hashes (Some x) b')))"

definition deleteWithRetry :: "('m, 'b) sweeper \<Rightarrow> 'b block_ops \<Rightarrow> env \<Rightarrow> string \<Rightarrow> string list \<Rightarrow> 'b
    \<Rightarrow> err option \<times> 'b" where
  "deleteWithRetry s be e tenant hashes b =
     (let attempts = add64 (maxRetries s) 1 in deleteLoop be e 0 (nat attempts) tenant hashes None b)"

text \<open>The batches of one tenant. The error and the counts of the result are returned; counting the
  failure and observing the metrics is done by \<open>Sweep\<close>.\<close>

fun sweepTenant :: "nat \<Rightarrow> ('m, 'b) sweeper \<Rightarrow> 'm store_ops \<Rightarrow> 'b block_ops \<Rightarrow> env \<Rightarrow> nat \<Rightarrow> string \<Rightarrow> int \<Rightarrow> int
    \<Rightarrow> gc_result \<Rightarrow> ('m, 'b) gc_world \<Rightarrow> (err option \<times> gc_result \<times> ('m, 'b) gc_world) option" where
  "sweepTenant 0 s st be e k tenant cutoff batch result w = None"
| "sweepTenant (Suc fuel) s st be e k tenant cutoff batch result w =
     (case ctx_poll (call e k) 0 of
        Some x \<Rightarrow> Some (Some x, result, w)
      | None \<Rightarrow>
          (case ListUnreferencedBlocksOlderThan st (call (call e k) 1) tenant cutoff batch (gw_meta w) of
             Inl x \<Rightarrow> Some (Some x, result, w)
           | Inr found \<Rightarrow>
               (let result1 = result\<lparr>CandidateBlocks := CandidateBlocks result + int (length found)\<rparr> in
                if found = [] then Some (None, result1, w)
                else (let hashes = map br_hash found in
                  case deleteWithRetry s be (call (call e k) 2) tenant hashes (gw_blocks w) of
                    (Some x, b) \<Rightarrow> Some (Some x, result1, w\<lparr>gw_blocks := b\<rparr>)
                  | (None, b) \<Rightarrow>
                      (case ForgetBlocks st (call (call e k) 3) tenant hashes (gw_meta w) of
                         (Some x, m) \<Rightarrow> Some (Some x, result1, w\<lparr>gw_blocks := b, gw_meta := m\<rparr>)
                       | (None, m) \<Rightarrow>
                           (let result2 = result1\<lparr>DeletedBlocks := DeletedBlocks result1 + int (length hashes)\<rparr>;
                                w' = w\<lparr>gw_blocks := b, gw_meta := m\<rparr>
                            in if int (length found) < batch then Some (None, result2, w')
                               else sweepTenant fuel s st be e (Suc k) tenant cutoff batch result2 w'))))))"

fun sweepTenants :: "nat \<Rightarrow> ('m, 'b) sweeper \<Rightarrow> 'm store_ops \<Rightarrow> 'b block_ops \<Rightarrow> env \<Rightarrow> nat \<Rightarrow> string list \<Rightarrow> int
    \<Rightarrow> int \<Rightarrow> gc_result \<Rightarrow> ('m, 'b) gc_world \<Rightarrow> (err option \<times> gc_result \<times> ('m, 'b) gc_world) option" where
  "sweepTenants fuel s st be e i [] cutoff batch result w = Some (None, result, w)"
| "sweepTenants fuel s st be e i (tenant # tenants) cutoff batch result w =
     (case sweepTenant fuel s st be (call e i) 0 tenant cutoff batch result w of
        None \<Rightarrow> None
      | Some (Some x, result', w') \<Rightarrow> Some (Some x, result', w')
      | Some (None, result', w') \<Rightarrow> sweepTenants fuel s st be e (Suc i) tenants cutoff batch result' w')"

definition gcFailed :: "env \<Rightarrow> err \<Rightarrow> gc_result \<Rightarrow> ('m, 'b) gc_world
    \<Rightarrow> err option \<times> gc_result \<times> ('m, 'b) gc_world" where
  "gcFailed e x result w =
     (let result' = result\<lparr>Failures := Failures result + 1\<rparr>
      in (Some x, result', w\<lparr>gw_metrics := gcObserve e result' (gw_metrics w)\<rparr>))"

definition Sweep :: "nat \<Rightarrow> ('m, 'b) sweeper \<Rightarrow> env \<Rightarrow> ('m, 'b) gc_world
    \<Rightarrow> (err option \<times> gc_result \<times> ('m, 'b) gc_world) option" where
  "Sweep fuel s e w =
     (let result = \<lparr>ScannedTenants = 0, CandidateBlocks = 0, DeletedBlocks = 0, Failures = 0\<rparr> in
      case (sw_Store s, sw_Backend s) of
        (Some st, Some be) \<Rightarrow>
          (case ListTenants st (call e 0) (gw_meta w) of
             Inl x \<Rightarrow> Some (gcFailed (call e 1) x result w)
           | Inr tenants \<Rightarrow>
               (let result1 = result\<lparr>ScannedTenants := int (length tenants)\<rparr>;
                    cutoff = now e 2 - minOrphanAge s
                in case sweepTenants fuel s st be (call e 3) 0 tenants cutoff (batchSize s) result1 w of
                     None \<Rightarrow> None
                   | Some (Some x, result2, w') \<Rightarrow> Some (gcFailed (call e 1) x result2 w')
                   | Some (None, result2, w') \<Rightarrow>
                       Some (None, result2, w'\<lparr>gw_metrics := gcObserve (call e 1) result2 (gw_metrics w')\<rparr>)))
      | _ \<Rightarrow> Some (gcFailed (call e 1) (ErrNew ''gc sweeper requires store and backend'') result w))"

definition SweepOnce :: "nat \<Rightarrow> ('m, 'b) sweeper \<Rightarrow> env \<Rightarrow> ('m, 'b) gc_world
    \<Rightarrow> (int \<times> err option \<times> ('m, 'b) gc_world) option" where
  "SweepOnce fuel s e w = map_option (\<lambda>(x, result, w'). (DeletedBlocks result, x, w')) (Sweep fuel s e w)"

text \<open>\<open>Worker.Run\<close>: a sweep at once and then one per tick until the context ends; \<open>ticks\<close> says how
  many ticks come before that. A nil sweeper does nothing. Logging is left out.\<close>

fun workerTicks :: "nat \<Rightarrow> ('m, 'b) sweeper \<Rightarrow> env \<Rightarrow> nat \<Rightarrow> nat \<Rightarrow> ('m, 'b) gc_world \<Rightarrow> ('m, 'b) gc_world option" where
  "workerTicks fuel s e k 0 w = Some w"
| "workerTicks fuel s e k (Suc ticks) w =
     (case Sweep fuel s (call e k) w of None \<Rightarrow> None
      | Some (_, _, w') \<Rightarrow> workerTicks fuel s e (Suc k) ticks w')"

definition workerRun :: "nat \<Rightarrow> ('m, 'b) sweeper option \<Rightarrow> env \<Rightarrow> nat \<Rightarrow> ('m, 'b) gc_world \<Rightarrow> ('m, 'b) gc_world option" where
  "workerRun fuel so e ticks w =
     (case so of None \<Rightarrow> Some w | Some s \<Rightarrow> workerTicks fuel s e 0 (Suc ticks) w)"

lemma batchSize_bounds: "0 < batchSize s \<and> batchSize s \<le> 1000"
  by (simp add: batchSize_def DefaultBatchSize_def Let_def)

section \<open>Safety over any stores that keep their contracts\<close>

text \<open>A sweep changes no committed object and leaves every block that a committed object refers
  to as it was.\<close>

locale block_gc =
  meta: object_store st inv committed pending fresh +
  bl: block_store be binv ns stored
  for st :: "'m store_ops"
    and be :: "'b block_ops"
    and inv :: "'m \<Rightarrow> bool"
    and committed :: "'m \<Rightarrow> object_key \<Rightarrow> manifest option"
    and pending :: "'m \<Rightarrow> string \<Rightarrow> bool"
    and fresh :: "env \<Rightarrow> manifest \<Rightarrow> 'm \<Rightarrow> bool"
    and binv :: "'b \<Rightarrow> bool"
    and ns :: "string \<Rightarrow> string"
    and stored :: "'b \<Rightarrow> string \<Rightarrow> string \<Rightarrow> bytes option"
begin

definition needed :: "'m \<Rightarrow> string \<Rightarrow> string \<Rightarrow> bool" where
  "needed m t h \<longleftrightarrow> (\<exists>b k man. committed m (t, b, k) = Some man \<and> h \<in> cr_hash ` set (m_chunks man))"

definition spared :: "'m \<Rightarrow> 'b \<Rightarrow> 'b \<Rightarrow> bool" where
  "spared m b b' \<longleftrightarrow> (\<forall>t h. stored b' t h = stored b t h \<or> stored b' t h = None \<and> \<not> needed m t h)"

definition separate :: "'m \<Rightarrow> string \<Rightarrow> bool" where
  "separate m t \<longleftrightarrow> (\<forall>t' h. needed m t' h \<longrightarrow> ns t' = ns t \<longrightarrow> t' = t)"

lemma spared_refl [simp]: "spared m b b"
  by (simp add: spared_def)

lemma spared_trans: "spared m b b' \<Longrightarrow> spared m b' b'' \<Longrightarrow> spared m b b''"
  unfolding spared_def by metis

lemma delete_spares:
  assumes "binv b" "separate m t" "\<forall>h \<in> set hs. \<not> needed m t h" "DeleteBlocks be e t hs b = (r, b')"
  shows "binv b' \<and> spared m b b'"
proof -
  note law = bl.del [OF assms(1,4)]
  note frame = law [THEN conjunct2, THEN conjunct1, rule_format]
    and each = law [THEN conjunct2, THEN conjunct2, THEN conjunct1, rule_format]
  have "spared m b b'"
    unfolding spared_def
  proof (intro allI)
    fix t' h
    show "stored b' t' h = stored b t' h \<or> stored b' t' h = None \<and> \<not> needed m t' h"
    proof (cases "ns t' = ns t \<and> h \<in> set hs")
      case True
      then have "stored b' t' h = stored b' t h" "stored b t' h = stored b t h"
        using bl.stored_ns [of t' t] by auto
      moreover have "\<not> needed m t' h" using assms(2,3) True by (auto simp: separate_def)
      ultimately show ?thesis using each [of h] True by auto
    next
      case False
      with frame [of t' h] show ?thesis by blast
    qed
  qed
  with law show ?thesis by blast
qed

lemma deleteLoop_spares:
  assumes "separate m t" "\<forall>h \<in> set hs. \<not> needed m t h"
  shows "binv b \<Longrightarrow> deleteLoop be e a n t hs err0 b = (r, b') \<Longrightarrow> binv b' \<and> spared m b b'"
proof (induction n arbitrary: a err0 b)
  case (Suc n)
  obtain x b1 where d: "DeleteBlocks be (call (call e a) 1) t hs b = (x, b1)"
    by (cases "DeleteBlocks be (call (call e a) 1) t hs b")
  note one = delete_spares [OF Suc.prems(1) assms d]
  from Suc.prems(2) d consider "b' = b" | "b' = b1"
    | y where "deleteLoop be e (Suc a) n t hs (Some y) b1 = (r, b')"
    by (auto split: option.splits if_splits)
  then show ?case
  proof cases
    case 3
    from Suc.IH [OF _ 3] one spared_trans show ?thesis by blast
  qed (use one Suc.prems(1) in auto)
qed simp

lemma needed_same: "committed m' = committed m \<Longrightarrow> needed m' = needed m"
  by (intro ext) (simp add: needed_def)

lemma spared_same:
  assumes "committed m' = committed m"
  shows "spared m' = spared m"
  by (intro ext) (simp add: spared_def needed_same [OF assms])

lemma sweepTenant_spares:
  assumes "inv (gw_meta w)" "binv (gw_blocks w)" "separate (gw_meta w) t"
    and "sweepTenant fuel s st be e k t cutoff batch result w = Some (r, result', w')"
  shows "inv (gw_meta w') \<and> committed (gw_meta w') = committed (gw_meta w) \<and> binv (gw_blocks w')
    \<and> spared (gw_meta w) (gw_blocks w) (gw_blocks w')"
  using assms
proof (induction fuel arbitrary: k result w)
  case (Suc fuel)
  show ?case
  proof (cases "\<exists>found. ctx_poll (call e k) 0 = None \<and> found \<noteq> [] \<and>
      ListUnreferencedBlocksOlderThan st (call (call e k) 1) t cutoff batch (gw_meta w) = Inr found")
    case False
    with Suc.prems(4) have "w' = w" by (auto simp: Let_def split: option.splits sum.splits if_splits)
    with Suc.prems show ?thesis by simp
  next
    case True
    then obtain found where f: "ctx_poll (call e k) 0 = None" "found \<noteq> []"
      "ListUnreferencedBlocksOlderThan st (call (call e k) 1) t cutoff batch (gw_meta w) = Inr found" by blast
    have free: "\<forall>h \<in> set (map br_hash found). \<not> needed (gw_meta w) t h"
      using meta.list_unreferenced [OF Suc.prems(1) f(3)] by (auto simp: needed_def)
    obtain x b where d: "deleteWithRetry s be (call (call e k) 2) t (map br_hash found) (gw_blocks w) = (x, b)"
      by (cases "deleteWithRetry s be (call (call e k) 2) t (map br_hash found) (gw_blocks w)")
    from deleteLoop_spares [OF Suc.prems(3) free Suc.prems(2)] d
    have b: "binv b" "spared (gw_meta w) (gw_blocks w) b" by (auto simp: deleteWithRetry_def Let_def)
    obtain y m where fg: "ForgetBlocks st (call (call e k) 3) t (map br_hash found) (gw_meta w) = (y, m)"
      by (cases "ForgetBlocks st (call (call e k) 3) t (map br_hash found) (gw_meta w)")
    from meta.forget [OF Suc.prems(1) fg] have m: "inv m" "committed m = committed (gw_meta w)" by auto
    show ?thesis
    proof (cases "x = None \<and> y = None \<and> \<not> int (length found) < batch")
      case False
      with Suc.prems(4) f d fg have "w' = w\<lparr>gw_blocks := b\<rparr> \<or> w' = w\<lparr>gw_blocks := b, gw_meta := m\<rparr>"
        by (auto simp: Let_def split: option.splits if_splits)
      with b m Suc.prems(1) show ?thesis by auto
    next
      case True
      let ?w1 = "w\<lparr>gw_blocks := b, gw_meta := m\<rparr>"
      from True Suc.prems(4) f d fg obtain res where
        rest: "sweepTenant fuel s st be e (Suc k) t cutoff batch res ?w1 = Some (r, result', w')"
        by (auto simp: Let_def)
      have "separate (gw_meta ?w1) t"
        using Suc.prems(3) m(2) by (simp add: separate_def needed_same [OF m(2)])
      from Suc.IH [OF _ _ this rest] m(1) b(1)
      have "inv (gw_meta w')" "committed (gw_meta w') = committed m" "binv (gw_blocks w')"
        "spared m b (gw_blocks w')" by simp_all
      with m(2) b(2) spared_trans spared_same [OF m(2)] show ?thesis by metis
    qed
  qed
qed simp

lemma sweepTenants_spare:
  assumes "inv (gw_meta w)" "binv (gw_blocks w)" "\<forall>t \<in> set ts. separate (gw_meta w) t"
    and "sweepTenants fuel s st be e i ts cutoff batch result w = Some (r, result', w')"
  shows "inv (gw_meta w') \<and> committed (gw_meta w') = committed (gw_meta w) \<and> binv (gw_blocks w')
    \<and> spared (gw_meta w) (gw_blocks w) (gw_blocks w')"
  using assms
proof (induction ts arbitrary: i result w)
  case (Cons t ts)
  from Cons.prems(4) obtain x res w1 where one:
    "sweepTenant fuel s st be (call e i) 0 t cutoff batch result w = Some (x, res, w1)"
    by (auto split: option.splits)
  from Cons.prems(3) have "separate (gw_meta w) t" by simp
  note ok = sweepTenant_spares [OF Cons.prems(1,2) this one]
  show ?case
  proof (cases x)
    case (Some y)
    with Cons.prems(4) one ok show ?thesis by auto
  next
    case None
    with Cons.prems(4) one have rest: "sweepTenants fuel s st be e (Suc i) ts cutoff batch res w1 = Some (r, result', w')"
      by simp
    have same: "committed (gw_meta w1) = committed (gw_meta w)" using ok by simp
    have sep: "\<forall>t \<in> set ts. separate (gw_meta w1) t"
      using Cons.prems(3) by (simp add: separate_def needed_same [OF same])
    from Cons.IH [OF _ _ sep rest] ok
    have rest_ok: "inv (gw_meta w')" "committed (gw_meta w') = committed (gw_meta w1)" "binv (gw_blocks w')"
      "spared (gw_meta w1) (gw_blocks w1) (gw_blocks w')" by auto
    from rest_ok(4) have "spared (gw_meta w) (gw_blocks w1) (gw_blocks w')"
      by (simp add: spared_same [OF same])
    with ok rest_ok same spared_trans show ?thesis by metis
  qed
qed simp

end

section \<open>Over the memory store and the filesystem store\<close>

definition fileSweeper :: "file_store \<Rightarrow> int \<Rightarrow> int \<Rightarrow> int \<Rightarrow> (memory_store, file_tree) sweeper" where
  "fileSweeper store batch age retries =
     \<lparr>sw_Store = Some memory_ops, sw_Backend = Some (fs_ops store), sw_Limit = 0, sw_BatchSize = batch,
      sw_MinOrphanAge = age, sw_MaxRetries = retries\<rparr>"

interpretation file_gc: block_gc memory_ops "fs_ops store" store_inv mem_committed mem_pending mem_fresh
  "fs_inv store" sanitizePathPart "fs_stored store"
  by (intro block_gc.intro mem.object_store_axioms fs.block_store_axioms)

text \<open>The tenants whose committed objects use a block have names the sanitising keeps apart.\<close>

definition tenants_separate :: "memory_store \<Rightarrow> string list \<Rightarrow> bool" where
  "tenants_separate m ts \<longleftrightarrow>
     (\<forall>t \<in> set ts. \<forall>t' b k man. mem_committed m (t', b, k) = Some man \<longrightarrow>
        sanitizePathPart t' = sanitizePathPart t \<longrightarrow> t' = t)"

lemma separate_from: "tenants_separate m ts \<Longrightarrow> \<forall>t \<in> set ts. file_gc.separate m t"
  unfolding tenants_separate_def file_gc.separate_def file_gc.needed_def by blast

lemma Sweep_steps:
  assumes "Sweep fuel (fileSweeper store batch age retries) e w = Some (r, res, w')"
  shows "gw_meta w' = gw_meta w \<and> gw_blocks w' = gw_blocks w \<or>
    (\<exists>ts r1 res1 res2 w1. memListTenants (call e 0) (gw_meta w) = Inr ts
      \<and> sweepTenants fuel (fileSweeper store batch age retries) memory_ops (fs_ops store) (call e 3) 0 ts
          (now e 2 - minOrphanAge (fileSweeper store batch age retries))
          (batchSize (fileSweeper store batch age retries)) res1 w = Some (r1, res2, w1)
      \<and> (r1 = None \<longleftrightarrow> r = None) \<and> gw_meta w' = gw_meta w1 \<and> gw_blocks w' = gw_blocks w1)"
proof (cases "memListTenants (call e 0) (gw_meta w)")
  case (Inl x)
  with assms have "w' = w\<lparr>gw_metrics := gw_metrics w'\<rparr>"
    by (auto simp: Sweep_def fileSweeper_def memory_ops_def gcFailed_def Let_def)
  then show ?thesis by (metis gc_world.select_convs(1,2) gc_world.surjective gc_world.update_convs(3))
next
  case (Inr ts)
  then have l: "ListTenants memory_ops (call e 0) (gw_meta w) = Inr ts" by (simp add: memory_ops_def)
  have f: "sw_Store (fileSweeper store batch age retries) = Some memory_ops"
    "sw_Backend (fileSweeper store batch age retries) = Some (fs_ops store)"
    by (simp_all add: fileSweeper_def)
  obtain r1 res2 w1 where st: "sweepTenants fuel (fileSweeper store batch age retries) memory_ops (fs_ops store)
      (call e 3) 0 ts (now e 2 - minOrphanAge (fileSweeper store batch age retries))
      (batchSize (fileSweeper store batch age retries))
      \<lparr>ScannedTenants = int (length ts), CandidateBlocks = 0, DeletedBlocks = 0, Failures = 0\<rparr> w = Some (r1, res2, w1)"
    using assms unfolding Sweep_def f Let_def by (simp add: l split: option.splits prod.splits)
  have "(r1 = None \<longleftrightarrow> r = None) \<and> gw_meta w' = gw_meta w1 \<and> gw_blocks w' = gw_blocks w1"
    using assms st unfolding Sweep_def f Let_def by (auto simp: l gcFailed_def Let_def split: option.splits)
  with Inr st show ?thesis by blast
qed

lemma Sweep_spares:
  assumes "store_inv (gw_meta w)" "fs_inv store (gw_blocks w)"
    and "\<And>ts. memListTenants (call e 0) (gw_meta w) = Inr ts \<Longrightarrow> tenants_separate (gw_meta w) ts"
    and "Sweep fuel (fileSweeper store batch age retries) e w = Some (r, res, w')"
  shows "store_inv (gw_meta w') \<and> mem_committed (gw_meta w') = mem_committed (gw_meta w)
    \<and> fs_inv store (gw_blocks w') \<and> file_gc.spared store (gw_meta w) (gw_blocks w) (gw_blocks w')"
  using Sweep_steps [OF assms(4)]
proof (elim disjE exE conjE)
  fix ts r1 res1 res2 w1
  assume l: "memListTenants (call e 0) (gw_meta w) = Inr ts"
    and st: "sweepTenants fuel (fileSweeper store batch age retries) memory_ops (fs_ops store) (call e 3) 0 ts
          (now e 2 - minOrphanAge (fileSweeper store batch age retries))
          (batchSize (fileSweeper store batch age retries)) res1 w = Some (r1, res2, w1)"
    and w': "gw_meta w' = gw_meta w1" "gw_blocks w' = gw_blocks w1"
  from file_gc.sweepTenants_spare [OF assms(1,2) separate_from [OF assms(3) [OF l]] st] w'
  show ?thesis by simp
qed (use assms(1,2) in simp)

section \<open>Termination and completeness over the memory store\<close>

definition entries :: "memory_store \<Rightarrow> string \<Rightarrow> (string, block_count) gomap" where
  "entries m t = lookup_or [] (blocks m) t"

definition eligible :: "int \<Rightarrow> memory_store \<Rightarrow> string \<Rightarrow> string set" where
  "eligible cutoff m t = {h. \<exists>ref. map_of (entries m t) h = Some ref \<and> unreferenced cutoff ref}"

lemma entries_distinct: "store_inv m \<Longrightarrow> distinct (keys (entries m t))"
  by (simp add: entries_def store_inv_def blocks_ok_def)

lemma length_forgetHashes: "length (forgetHashes hs bs) \<le> length bs"
proof (induction hs bs rule: forgetHashes.induct)
  case (2 h hs bs)
  have "length (AList.delete h bs) \<le> length bs" by (simp add: AList.delete_eq)
  with 2 show ?case by (auto split: option.split intro: order_trans)
qed simp

lemma length_forgetHashes_less:
  assumes "distinct (keys bs)" "map_of bs h = Some ref" "bc_refs ref = 0" "h \<in> set hs"
  shows "length (forgetHashes hs bs) < length bs"
proof -
  have gone: "map_of (forgetHashes hs bs) h = None"
    using assms(2-4) by (simp add: map_of_forgetHashes)
  have "set (keys (forgetHashes hs bs)) \<subseteq> set (keys bs) - {h}"
  proof
    fix k assume "k \<in> set (keys (forgetHashes hs bs))"
    then have k: "map_of (forgetHashes hs bs) k \<noteq> None" by (simp add: map_of_eq_None_iff)
    with gone have "k \<noteq> h" by metis
    moreover from k have "map_of bs k \<noteq> None" by (auto simp: map_of_forgetHashes split: option.splits)
    then have "k \<in> set (keys bs)" by (simp add: map_of_eq_None_iff)
    ultimately show "k \<in> set (keys bs) - {h}" by simp
  qed
  moreover have "h \<in> set (keys bs)" using assms(2) by (metis map_of_eq_None_iff option.distinct(1) set_map)
  ultimately have "card (set (keys (forgetHashes hs bs))) < card (set (keys bs))"
    by (intro psubset_card_mono) (rule finite_set, blast)
  with assms(1) distinct_forgetHashes [OF assms(1), of hs] show ?thesis
    by (metis distinct_card length_map)
qed

lemma forgetHashes_Nil [simp]: "forgetHashes hs [] = []"
  by (induction hs) simp_all

lemma forget_entries:
  assumes "memForgetBlocks e t hs m = (r, m')"
  shows "entries m' t' = (if t' = t \<and> r = None then forgetHashes hs (entries m t) else entries m t')"
proof (cases "map_of (blocks m) t")
  case None
  then have "entries m t = []" by (simp add: entries_def lookup_or_def)
  with None assms show ?thesis by (auto simp: memForgetBlocks_def split: option.splits)
next
  case (Some bs)
  then have "entries m t = bs" by (simp add: entries_def lookup_or_def)
  with Some assms show ?thesis by (auto simp: memForgetBlocks_def entries_def split: option.splits)
qed

lemma found_listed:
  assumes "memListUnreferencedBlocksOlderThan e t cutoff batch m = Inr found" "0 < batch"
  shows "found \<noteq> [] \<Longrightarrow> \<exists>h ref. h \<in> set (map br_hash found) \<and> (h, ref) \<in> set (entries m t) \<and> bc_refs ref = 0"
    and "int (length found) < batch \<Longrightarrow> (h, ref) \<in> set (entries m t) \<Longrightarrow> unreferenced cutoff ref
      \<Longrightarrow> h \<in> set (map br_hash found)"
proof -
  let ?l = "filter (\<lambda>p. unreferenced cutoff (snd p)) (go_range (range_pick e [0]) (entries m t))"
  have eq: "found = map as_ref (take (nat batch) ?l)"
    using memListUnreferenced_eq [OF assms(1)] assms(2) by (simp add: entries_def)
  show "\<exists>h ref. h \<in> set (map br_hash found) \<and> (h, ref) \<in> set (entries m t) \<and> bc_refs ref = 0"
    if "found \<noteq> []"
  proof -
    from that eq have "take (nat batch) ?l \<noteq> []" by simp
    from hd_in_set [OF this] obtain h ref where p: "(h, ref) \<in> set (take (nat batch) ?l)"
      by (metis surj_pair)
    then have "h \<in> set (map br_hash found)" unfolding eq by (force simp: as_ref_def)
    moreover have "(h, ref) \<in> set ?l" using p by (rule in_set_takeD)
    ultimately show ?thesis by (auto simp: unreferenced_def)
  qed
  show "h \<in> set (map br_hash found)"
    if "int (length found) < batch" "(h, ref) \<in> set (entries m t)" "unreferenced cutoff ref"
  proof -
    from that(1) have "take (nat batch) ?l = ?l" unfolding eq by (auto simp: min_def split: if_splits)
    with eq have "found = map as_ref ?l" by simp
    moreover have "(h, ref) \<in> set ?l" using that(2,3) by simp
    ultimately show ?thesis by (force simp: as_ref_def)
  qed
qed

text \<open>Enough fuel for a tenant is more than it has entries; afterwards, if no error stopped the
  sweep, none of its blocks is eligible any more. Other tenants' entries are untouched.\<close>

lemma sweepTenant_complete:
  assumes "store_inv (gw_meta w)" "length (entries (gw_meta w) t) < fuel" "0 < batch"
  shows "\<exists>r result' w'. sweepTenant fuel s memory_ops be e k t cutoff batch result w = Some (r, result', w')
    \<and> store_inv (gw_meta w') \<and> (\<forall>t'. length (entries (gw_meta w') t') \<le> length (entries (gw_meta w) t'))
    \<and> (\<forall>t'. t' \<noteq> t \<longrightarrow> entries (gw_meta w') t' = entries (gw_meta w) t')
    \<and> (\<forall>t'. eligible cutoff (gw_meta w') t' \<subseteq> eligible cutoff (gw_meta w) t')
    \<and> (r = None \<longrightarrow> eligible cutoff (gw_meta w') t = {})"
  using assms
proof (induction fuel arbitrary: k result w)
  case (Suc fuel)
  let ?list = "memListUnreferencedBlocksOlderThan (call (call e k) 1) t cutoff batch (gw_meta w)"
  show ?case
  proof (cases "\<exists>found. ctx_poll (call e k) 0 = None \<and> ?list = Inr found")
    case False
    then show ?thesis using Suc.prems(1)
      by (auto simp: memory_ops_def split: option.split sum.split)
  next
    case True
    then obtain found where poll: "ctx_poll (call e k) 0 = None" and l: "?list = Inr found" by blast
    then have l': "ListUnreferencedBlocksOlderThan memory_ops (call (call e k) 1) t cutoff batch (gw_meta w) = Inr found"
      by (simp add: memory_ops_def)
    note dist = entries_distinct [OF Suc.prems(1)]
    show ?thesis
    proof (cases "found = []")
      case True
      have "eligible cutoff (gw_meta w) t = {}"
        using found_listed(2) [OF l Suc.prems(3)] True Suc.prems(3)
        by (auto simp: eligible_def dest: map_of_SomeD)
      with True poll l' Suc.prems(1) show ?thesis by simp
    next
      case False
      obtain x b where d: "deleteWithRetry s be (call (call e k) 2) t (map br_hash found) (gw_blocks w) = (x, b)"
        by (cases "deleteWithRetry s be (call (call e k) 2) t (map br_hash found) (gw_blocks w)")
      show ?thesis
      proof (cases x)
        case (Some y)
        with False poll l' d Suc.prems(1) show ?thesis by simp
      next
        case None
        obtain y m where fg: "memForgetBlocks (call (call e k) 3) t (map br_hash found) (gw_meta w) = (y, m)"
          by (cases "memForgetBlocks (call (call e k) 3) t (map br_hash found) (gw_meta w)")
        then have fg': "ForgetBlocks memory_ops (call (call e k) 3) t (map br_hash found) (gw_meta w) = (y, m)"
          by (simp add: memory_ops_def)
        from mem.forget [OF Suc.prems(1) fg'] have inv: "store_inv m" by simp
        from found_listed(1) [OF l Suc.prems(3) False] obtain h0 ref0 where
          h0: "h0 \<in> set (map br_hash found)" "(h0, ref0) \<in> set (entries (gw_meta w) t)" "bc_refs ref0 = 0" by blast
        from h0(2) dist have m0: "map_of (entries (gw_meta w) t) h0 = Some ref0" by simp
        have others: "t' \<noteq> t \<Longrightarrow> entries m t' = entries (gw_meta w) t'" for t'
          using forget_entries [OF fg, of t'] by simp
        have len: "length (entries m t') \<le> length (entries (gw_meta w) t')" for t'
          using forget_entries [OF fg, of t'] length_forgetHashes by auto
        have elig: "eligible cutoff m t' \<subseteq> eligible cutoff (gw_meta w) t'" for t'
          using forget_entries [OF fg, of t']
          by (auto simp: eligible_def map_of_forgetHashes split: option.splits if_splits)
        show ?thesis
        proof (cases y)
          case (Some z)
          with False poll l' d None fg' inv others len elig show ?thesis by simp
        next
          case y: None
          then have forgot: "entries m t = forgetHashes (map br_hash found) (entries (gw_meta w) t)"
            using forget_entries [OF fg, of t] by simp
          show ?thesis
          proof (cases "int (length found) < batch")
            case True
            have "eligible cutoff m t = {}"
              using found_listed(2) [OF l Suc.prems(3) True]
              by (auto simp: eligible_def forgot map_of_forgetHashes unreferenced_def
                  split: option.splits if_splits dest: map_of_SomeD)
            with True False poll l' d None y fg' inv others len elig show ?thesis by simp
          next
            case full: False
            have "length (entries m t) < length (entries (gw_meta w) t)"
              unfolding forgot by (rule length_forgetHashes_less [OF dist m0 h0(3,1)])
            with Suc.prems(2) have less: "length (entries m t) < fuel" by simp
            let ?w1 = "w\<lparr>gw_blocks := b, gw_meta := m\<rparr>"
            from Suc.IH [of ?w1 "Suc k" "result\<lparr>CandidateBlocks := CandidateBlocks result + int (length found),
                DeletedBlocks := DeletedBlocks result + int (length (map br_hash found))\<rparr>"] inv less Suc.prems(3)
            obtain r result' w' where ih:
              "sweepTenant fuel s memory_ops be e (Suc k) t cutoff batch
                (result\<lparr>CandidateBlocks := CandidateBlocks result + int (length found),
                  DeletedBlocks := DeletedBlocks result + int (length (map br_hash found))\<rparr>) ?w1 = Some (r, result', w')"
              "store_inv (gw_meta w')" "\<forall>t'. length (entries (gw_meta w') t') \<le> length (entries m t')"
              "\<forall>t'. t' \<noteq> t \<longrightarrow> entries (gw_meta w') t' = entries m t'"
              "\<forall>t'. eligible cutoff (gw_meta w') t' \<subseteq> eligible cutoff m t'"
              "r = None \<longrightarrow> eligible cutoff (gw_meta w') t = {}" by auto
            have run: "sweepTenant (Suc fuel) s memory_ops be e k t cutoff batch result w = Some (r, result', w')"
              using full False poll l' d None y fg' ih(1) by simp
            have e1: "\<forall>t'. length (entries (gw_meta w') t') \<le> length (entries (gw_meta w) t')"
              using len ih(3) order_trans by blast
            have e2: "\<forall>t'. t' \<noteq> t \<longrightarrow> entries (gw_meta w') t' = entries (gw_meta w) t'"
              using others ih(4) by simp
            have e3: "\<forall>t'. eligible cutoff (gw_meta w') t' \<subseteq> eligible cutoff (gw_meta w) t'"
              using elig ih(5) by blast
            from run ih(2,6) e1 e2 e3 show ?thesis by blast
          qed
        qed
      qed
    qed
  qed
qed simp

lemma sweepTenants_complete:
  assumes "store_inv (gw_meta w)" "\<forall>t. length (entries (gw_meta w) t) < fuel" "0 < batch"
  shows "\<exists>r result' w'. sweepTenants fuel s memory_ops be e i ts cutoff batch result w = Some (r, result', w')
    \<and> (\<forall>t'. eligible cutoff (gw_meta w') t' \<subseteq> eligible cutoff (gw_meta w) t')
    \<and> (r = None \<longrightarrow> (\<forall>t \<in> set ts. eligible cutoff (gw_meta w') t = {}))"
  using assms
proof (induction ts arbitrary: i result w)
  case (Cons t ts)
  from sweepTenant_complete [OF Cons.prems(1) spec [OF Cons.prems(2), of t] Cons.prems(3), of s be "call e i" 0 cutoff result]
  obtain r1 res1 w1 where one: "sweepTenant fuel s memory_ops be (call e i) 0 t cutoff batch result w = Some (r1, res1, w1)"
    and inv: "store_inv (gw_meta w1)"
    and len: "\<forall>t'. length (entries (gw_meta w1) t') \<le> length (entries (gw_meta w) t')"
    and mono: "\<forall>t'. eligible cutoff (gw_meta w1) t' \<subseteq> eligible cutoff (gw_meta w) t'"
    and fin: "r1 = None \<longrightarrow> eligible cutoff (gw_meta w1) t = {}" by blast
  show ?case
  proof (cases r1)
    case (Some x)
    with one mono show ?thesis by auto
  next
    case None
    have "\<forall>t'. length (entries (gw_meta w1) t') < fuel" using len Cons.prems(2) le_less_trans by blast
    from Cons.IH [OF inv this Cons.prems(3), of "Suc i" res1] obtain r result' w' where
      rest: "sweepTenants fuel s memory_ops be e (Suc i) ts cutoff batch res1 w1 = Some (r, result', w')"
      "\<forall>t'. eligible cutoff (gw_meta w') t' \<subseteq> eligible cutoff (gw_meta w1) t'"
      "r = None \<longrightarrow> (\<forall>t \<in> set ts. eligible cutoff (gw_meta w') t = {})" by blast
    have "sweepTenants fuel s memory_ops be e i (t # ts) cutoff batch result w = Some (r, result', w')"
      using one None rest(1) by simp
    moreover have "\<forall>t'. eligible cutoff (gw_meta w') t' \<subseteq> eligible cutoff (gw_meta w) t'"
      using rest(2) mono by blast
    moreover have "r = None \<longrightarrow> (\<forall>t' \<in> set (t # ts). eligible cutoff (gw_meta w') t' = {})"
      using rest(2,3) fin None by auto
    ultimately show ?thesis by blast
  qed
qed simp

lemma chunkRefs_hashes: "cr_hash ` set (chunkRefs sha off ds) = (\<lambda>d. hex_encode (sha d)) ` set ds"
  by (induction ds arbitrary: off) auto

lemma spared_world_ok:
  assumes "world_ok S store w" "store_inv m" "mem_committed m = mem_committed (w_meta w)"
    "fs_inv store b" "file_gc.spared store (w_meta w) (w_blocks w) b"
  shows "world_ok S store (w\<lparr>w_meta := m, w_blocks := b\<rparr>)"
proof -
  note sp = assms(5) [unfolded file_gc.spared_def, rule_format]
  from assms(1) have "addressed S UNIV (fs_stored store (w_blocks w))" by (simp add: world_ok_def)
  have addr: "addressed S UNIV (fs_stored store b)"
    unfolding addressed_def
  proof (intro allI impI)
    fix t h d assume "fs_stored store b t h = Some d"
    with sp [of t h] have "fs_stored store (w_blocks w) t h = Some d" by auto
    with \<open>addressed S UNIV (fs_stored store (w_blocks w))\<close>
    show "d \<in> UNIV \<and> hex_encode (svc_sha256 S d) = h" by (simp add: addressed_def)
  qed
  have "\<exists>c. holds_content S (fs_stored store b t) man c"
    if "good_key (t, bu, k)" and c: "mem_committed (w_meta w) (t, bu, k) = Some man" for t bu k man
  proof -
    from that assms(1) obtain c where hc: "holds_content S (fs_stored store (w_blocks w) t) man c"
      unfolding world_ok_def by blast
    then obtain ds where ds: "concat ds = c" "m_chunks man = chunkRefs (svc_sha256 S) 0 ds"
      "\<forall>d \<in> set ds. fs_stored store (w_blocks w) t (hex_encode (svc_sha256 S d)) = Some d"
      unfolding holds_content_def by blast
    have "fs_stored store b t (hex_encode (svc_sha256 S d)) = Some d" if "d \<in> set ds" for d
    proof -
      have "hex_encode (svc_sha256 S d) \<in> cr_hash ` set (m_chunks man)"
        using that by (simp add: ds(2) chunkRefs_hashes)
      with c have "file_gc.needed (w_meta w) t (hex_encode (svc_sha256 S d))"
        unfolding file_gc.needed_def by blast
      with sp [of t "hex_encode (svc_sha256 S d)"] ds(3) that show ?thesis by auto
    qed
    with hc ds show ?thesis unfolding holds_content_def by blast
  qed
  with assms addr show ?thesis by (simp add: world_ok_def)
qed

section \<open>Two ways to lose a block\<close>

text \<open>Tenants are kept apart in the metadata but not in the block store: what a sweep deletes for
  one tenant is deleted for every tenant whose name is sanitised to the same path component,
  and deleting the block of a committed object, be it for this reason or because the object was
  committed between the listing and the deletion, makes the object unreadable.\<close>

lemma alias_delete_removes:
  assumes "fs_inv s fs" "fsDeleteBlocks s e ''a_b'' [h] fs = (None, fs')"
  shows "fs_stored s fs' ''a.b'' h = None"
  using fs_del_law [OF assms(1) assms(2) [unfolded fsDeleteBlocks_def]] tenants_share_blocks(2) [of s fs']
  by simp

lemma deleted_block_unreadable:
  assumes "fs_inv store (w_blocks w)" "fsDeleteBlocks store e t hs (w_blocks w) = (None, b)"
    and "store_inv (w_meta w)" "mem_committed (w_meta w) (t, bu, k) = Some m"
    and "m_chunks m = ref # refs" "cr_hash ref \<in> set hs" "validBlockHash (cr_hash ref)" "quiet e'"
    and "svc_store S = memory_ops" "svc_backend S = fs_ops store"
  shows "\<exists>x. OpenObject S e' t bu k (w\<lparr>w_blocks := b\<rparr>) = Inl x \<and> errors_is x ErrBlockNotFound"
proof -
  have g: "GetObject (svc_store S) (call e' 0) t bu k (w_meta w) = Inr m"
    using mem_get_quiet [OF assms(3,4), of "call e' 0"] assms(8,9) by (simp add: memory_ops_def)
  have "DeleteBlocks (fs_ops store) e t hs (w_blocks w) = (None, b)"
    using assms(2) by (simp add: fs_ops_def)
  from live_fs.delete_then_missing [OF assms(1,7,6) this, of "call (call (call e' 1) 0) 0"] assms(8) obtain x where
    "GetBlock (fs_ops store) (call (call (call e' 1) 0) 0) t (cr_hash ref) b = Inl x" "errors_is x ErrBlockNotFound"
    by auto
  with g show ?thesis
    by (intro exI [of _ x]) (simp add: OpenObject_def openChunks_def assms(5,10) Let_def)
qed

lemma Sweep_complete:
  assumes "store_inv (gw_meta w)" "\<forall>t. length (entries (gw_meta w) t) < fuel"
  shows "\<exists>r res w'. Sweep fuel (fileSweeper store batch age retries) e w = Some (r, res, w')
    \<and> (r = None \<longrightarrow> (\<forall>ts t. memListTenants (call e 0) (gw_meta w) = Inr ts \<longrightarrow> t \<in> set ts \<longrightarrow>
         eligible (now e 2 - minOrphanAge (fileSweeper store batch age retries)) (gw_meta w') t = {}))"
proof (cases "memListTenants (call e 0) (gw_meta w)")
  case (Inl x)
  then show ?thesis by (simp add: Sweep_def fileSweeper_def memory_ops_def gcFailed_def Let_def)
next
  case (Inr ts)
  let ?s = "fileSweeper store batch age retries"
  let ?cut = "now e 2 - minOrphanAge ?s"
  let ?res = "\<lparr>ScannedTenants = int (length ts), CandidateBlocks = 0, DeletedBlocks = 0, Failures = 0\<rparr>"
  have b: "0 < batchSize ?s" using batchSize_bounds by blast
  from sweepTenants_complete [OF assms b, of ?s "fs_ops store" "call e 3" 0 ts ?cut ?res] obtain r res w' where
    st: "sweepTenants fuel ?s memory_ops (fs_ops store) (call e 3) 0 ts ?cut (batchSize ?s) ?res w = Some (r, res, w')"
    "r = None \<longrightarrow> (\<forall>t \<in> set ts. eligible ?cut (gw_meta w') t = {})" by blast
  have f: "sw_Store ?s = Some memory_ops" "sw_Backend ?s = Some (fs_ops store)" by (simp_all add: fileSweeper_def)
  have l: "ListTenants memory_ops (call e 0) (gw_meta w) = Inr ts" using Inr by (simp add: memory_ops_def)
  show ?thesis
  proof (cases r)
    case None
    with st l have "Sweep fuel ?s e w = Some (None, res, w'\<lparr>gw_metrics := gcObserve (call e 1) res (gw_metrics w')\<rparr>)"
      unfolding Sweep_def f Let_def by simp
    with st(2) None Inr show ?thesis by auto
  next
    case (Some x)
    with st l have "Sweep fuel ?s e w = Some (gcFailed (call e 1) x res w')"
      unfolding Sweep_def f Let_def by simp
    then show ?thesis by (simp add: gcFailed_def Let_def)
  qed
qed

lemma entries_bounded: "length (entries m t) < Suc (sum_list (map (length \<circ> snd) (blocks m)))"
proof (cases "map_of (blocks m) t")
  case None
  then show ?thesis by (simp add: entries_def lookup_or_def)
next
  case (Some bs)
  then have "length bs \<in> set (map (length \<circ> snd) (blocks m))"
    by (force dest: map_of_SomeD simp: image_iff)
  then have "length bs \<le> sum_list (map (length \<circ> snd) (blocks m))" by (rule member_le_sum_list) simp
  with Some show ?thesis by (simp add: entries_def lookup_or_def)
qed

lemma world_a_ok: "world_ok svc_a store_plain world_a"
  by (rule service_reachable_ok [OF fallback_lib svc_a_def _ store_plain_keys world_a_reachable])
    (simp add: toy_sha_length)

lemma world_a_separate: "tenants_separate (w_meta world_a) [''t'']"
proof -
  obtain m where m: "Put svc_a env0 ''t'' ''b'' ''k'' body_a [] world_0 = (Inr m, world_a)"
    using put_a_result by blast
  have "mem_committed (w_meta world_0) = (\<lambda>_. None)"
    by (auto simp: world_0_def mem_committed_def NewMemoryStore_def fun_eq_iff)
  with file_Put [OF fallback_lib svc_a_def world_0_ok good_key_tbk put_a_side m]
  have "\<forall>t b k man. mem_committed (w_meta world_a) (t, b, k) = Some man \<longrightarrow> t = ''t''"
    by (auto split: if_splits)
  then show ?thesis by (auto simp: tenants_separate_def)
qed

lemma world_a_tenants: "memListTenants env0 (w_meta world_a) = Inr [''t'']"
  unfolding world_a_def by code_simp

section \<open>Properties\<close>

text \<open>C26: A sweep loses no object. Whatever fails or is cancelled during it and however often it
  retries, a sweep leaves every committed object committed and readable with its content, as long
  as no object is committed while it runs and the tenants' names stay distinct when sanitised.\<close>

theorem sweep_keeps_objects:
  assumes "world_ok S store w"
    and "\<And>ts. memListTenants (call e 0) (w_meta w) = Inr ts \<Longrightarrow> tenants_separate (w_meta w) ts"
    and "Sweep fuel (fileSweeper store batch age retries) e
      \<lparr>gw_meta = w_meta w, gw_blocks = w_blocks w, gw_metrics = mo\<rparr> = Some (r, res, g)"
  shows "world_ok S store (w\<lparr>w_meta := gw_meta g, w_blocks := gw_blocks g\<rparr>)
    \<and> mem_committed (gw_meta g) = mem_committed (w_meta w)"
proof -
  from assms(1) have "store_inv (w_meta w)" "fs_inv store (w_blocks w)" by (simp_all add: world_ok_def)
  with Sweep_spares [of "\<lparr>gw_meta = w_meta w, gw_blocks = w_blocks w, gw_metrics = mo\<rparr>" store e, OF _ _ _ assms(3)] assms(2)
  have "store_inv (gw_meta g)" "mem_committed (gw_meta g) = mem_committed (w_meta w)"
    "fs_inv store (gw_blocks g)" "file_gc.spared store (w_meta w) (w_blocks w) (gw_blocks g)" by simp_all
  with spared_world_ok [OF assms(1)] show ?thesis by blast
qed

theorem sweep_keeps_objects_witness:
  "\<exists>r res g. Sweep (Suc (sum_list (map (length \<circ> snd) (blocks (w_meta world_a))))) (fileSweeper store_plain 0 0 0) env0
      \<lparr>gw_meta = w_meta world_a, gw_blocks = w_blocks world_a, gw_metrics = None\<rparr> = Some (r, res, g)
    \<and> world_ok svc_a store_plain (world_a\<lparr>w_meta := gw_meta g, w_blocks := gw_blocks g\<rparr>)"
proof -
  let ?g = "\<lparr>gw_meta = w_meta world_a, gw_blocks = w_blocks world_a, gw_metrics = None\<rparr>"
  have "store_inv (gw_meta ?g)" using world_a_ok by (simp add: world_ok_def)
  from Sweep_complete [OF this, of "Suc (sum_list (map (length \<circ> snd) (blocks (w_meta world_a))))" store_plain 0 0 0 env0]
  obtain r res g where g: "Sweep (Suc (sum_list (map (length \<circ> snd) (blocks (w_meta world_a))))) (fileSweeper store_plain 0 0 0) env0 ?g
      = Some (r, res, g)" using entries_bounded by auto
  have "tenants_separate (w_meta world_a) ts" if "memListTenants (call env0 0) (w_meta world_a) = Inr ts" for ts
    using that world_a_tenants world_a_separate by simp
  from sweep_keeps_objects [OF world_a_ok this g] g show ?thesis by blast
qed



end
