(* ===== verification/Multipart.thy ===== *)
theory Multipart
  imports MemoryStore Backend Limits
begin

text \<open>
  \<open>src/internal/multipart/manager.go\<close>: multipart uploads. Parts are spooled to scratch files, the
  disk they take is reserved up front, and every session is mirrored in the metadata store so
  that a restarted process can take it up again. The manager's mutex makes the look-up, the
  reservation of a part and the removal of a session single steps; the operations are composed
  of these in the code's order.
\<close>

section \<open>The manager\<close>

record part_info =
  pi_Number :: int
  pi_Size :: int
  pi_ETag :: string
  pi_Path :: "string list"

record upload =
  up_UploadID :: string
  up_Tenant :: string
  up_Bucket :: string
  up_Key :: string
  up_Reserved :: int
  up_CreatedAt :: int
  up_Directory :: "string list"
  up_Headers :: "(string, string) gomap"
  up_Parts :: "(int, part_info) gomap"

record part_reservation =
  pr_delta :: int
  pr_reserved :: int
  pr_hadPrevious :: bool
  pr_previous :: part_info
  pr_previousReserved :: int

text \<open>The reservation counter is named by its capacity; its value is part of the state. The MD5
  function comes from Go's crypto library.\<close>

record 'm manager =
  mg_root :: "string list"
  mg_reservations :: "int option"
  mg_disk :: "disk_guard option"
  mg_store :: "'m store_ops option"
  mg_maxPartSize :: int
  mg_maxUploadSize :: int
  mg_md5 :: "bytes \<Rightarrow> bytes"

record 'm mp_world =
  mw_uploads :: "(string, upload) gomap"
  mw_used :: int
  mw_files :: file_tree
  mw_meta :: 'm

definition defaultMaxPartSize :: int where
  "defaultMaxPartSize = 5 * 1024 * 1024 * 1024"

definition WithMetadataStore :: "'m store_ops \<Rightarrow> 'm manager \<Rightarrow> 'm manager" where
  "WithMetadataStore st m = m\<lparr>mg_store := Some st\<rparr>"

definition WithMaxPartSize :: "int \<Rightarrow> 'm manager \<Rightarrow> 'm manager" where
  "WithMaxPartSize n m = m\<lparr>mg_maxPartSize := n\<rparr>"

definition WithMaxUploadSize :: "int \<Rightarrow> 'm manager \<Rightarrow> 'm manager" where
  "WithMaxUploadSize n m = m\<lparr>mg_maxUploadSize := n\<rparr>"

definition WithDiskGuard :: "disk_guard option \<Rightarrow> 'm manager \<Rightarrow> 'm manager" where
  "WithDiskGuard g m = m\<lparr>mg_disk := g\<rparr>"

definition NewManager :: "(bytes \<Rightarrow> bytes) \<Rightarrow> string list \<Rightarrow> int option
    \<Rightarrow> ('m manager \<Rightarrow> 'm manager) option list \<Rightarrow> 'm manager" where
  "NewManager md5 root reservations opts =
     foldl (\<lambda>m opt. case opt of None \<Rightarrow> m | Some f \<Rightarrow> f m)
       \<lparr>mg_root = root, mg_reservations = reservations, mg_disk = None, mg_store = None,
        mg_maxPartSize = defaultMaxPartSize, mg_maxUploadSize = 0, mg_md5 = md5\<rparr> opts"

section \<open>Names and paths\<close>

fun safePathLoop :: "nat list \<Rightarrow> string \<Rightarrow> string" where
  "safePathLoop [] out = out"
| "safePathLoop (r # rs) out =
     (if 97 \<le> r \<and> r \<le> 122 then safePathLoop rs (out @ [char_of r])
      else if 65 \<le> r \<and> r \<le> 90 then safePathLoop rs (out @ [char_of r])
      else if 48 \<le> r \<and> r \<le> 57 then safePathLoop rs (out @ [char_of r])
      else if r = 45 \<or> r = 95 then safePathLoop rs (out @ [char_of r])
      else safePathLoop rs (out @ ''_''))"

definition safePathPart :: "string \<Rightarrow> string" where
  "safePathPart value = (if value = [] then ''default'' else safePathLoop (runes value) [])"

definition randomUploadID :: "env \<Rightarrow> string" where
  "randomUploadID e = (case syscall e 0 of
       Some _ \<Rightarrow> format_int (now e 1)
     | None \<Rightarrow> hex_encode (random_bytes e 2 16))"

definition sessionDirectory :: "'m manager \<Rightarrow> string \<Rightarrow> string \<Rightarrow> string list" where
  "sessionDirectory m tenant uploadID =
     clean_path [] (mg_root m @ [safePathPart tenant] @ split_at CHR ''/'' uploadID)"

definition sessionKey :: "string \<Rightarrow> string \<Rightarrow> string" where
  "sessionKey tenant uploadID = tenant @ [CHR 0x00] @ uploadID"

text \<open>\<open>fmt.Sprintf("part-%08d", number)\<close> for a positive number, and the temporary file.\<close>

definition pad8 :: "int \<Rightarrow> string" where
  "pad8 n = (let d = format_int n in replicate (8 - length d) CHR ''0'' @ d)"

definition partPath :: "upload \<Rightarrow> int \<Rightarrow> string list" where
  "partPath s number = up_Directory s @ [''part-'' @ pad8 number]"

definition partTmp :: "upload \<Rightarrow> int \<Rightarrow> string list" where
  "partTmp s number = up_Directory s @ [''part-'' @ pad8 number @ ''.tmp'']"

definition firstHeaderMap :: "(string, string) gomap list \<Rightarrow> (string, string) gomap" where
  "firstHeaderMap headers = (case headers of [] \<Rightarrow> [] | h # _ \<Rightarrow> h)"

definition partFromMetadata :: "mp_part \<Rightarrow> part_info" where
  "partFromMetadata p = \<lparr>pi_Number = pt_number p, pi_Size = pt_size p, pi_ETag = pt_etag p, pi_Path = pt_path p\<rparr>"

definition sessionFromMetadata :: "'m manager \<Rightarrow> mp_session \<Rightarrow> upload" where
  "sessionFromMetadata m s =
     \<lparr>up_UploadID = ms_upload_id s, up_Tenant = ms_tenant s, up_Bucket = ms_bucket s, up_Key = ms_key s,
      up_Reserved = ms_reserved s, up_CreatedAt = ms_created s,
      up_Directory = sessionDirectory m (ms_tenant s) (ms_upload_id s), up_Headers = ms_headers s,
      up_Parts = map (\<lambda>(n, p). (n, partFromMetadata p)) (ms_parts s)\<rparr>"

section \<open>Reservations\<close>

definition reserveBytes :: "'m manager \<Rightarrow> env \<Rightarrow> int \<Rightarrow> int \<Rightarrow> err option \<times> int" where
  "reserveBytes m e bytes used =
     (if bytes \<le> 0 then (None, used)
      else (case mg_disk m of
              Some g \<Rightarrow> guardTryReserve (Some g) e bytes used
            | None \<Rightarrow> (case mg_reservations m of
                         Some capacity \<Rightarrow> TryReserve capacity bytes used
                       | None \<Rightarrow> (None, used))))"

definition checkDisk :: "'m manager \<Rightarrow> env \<Rightarrow> int \<Rightarrow> int \<Rightarrow> err option" where
  "checkDisk m e bytes used =
     (if bytes \<le> 0 \<or> mg_disk m = None then None else guardCheck (mg_disk m) e bytes used)"

definition releaseBytes :: "'m manager \<Rightarrow> int \<Rightarrow> int \<Rightarrow> int" where
  "releaseBytes m bytes used =
     (case mg_disk m of
        Some g \<Rightarrow> guardRelease (Some g) bytes used
      | None \<Rightarrow> (case mg_reservations m of Some _ \<Rightarrow> Release bytes used | None \<Rightarrow> used))"

section \<open>Sessions\<close>

text \<open>\<open>os.RemoveAll\<close>: everything at or below the directory goes; when it reports an error, some
  entries may have been left.\<close>

definition entry_code :: "string list \<Rightarrow> nat list" where
  "entry_code p = concat (map (\<lambda>c. length c # str_bytes c) p)"

definition below :: "string list \<Rightarrow> string list \<Rightarrow> bool" where
  "below dir p \<longleftrightarrow> take (length dir) p = dir"

definition remove_all :: "env \<Rightarrow> string list \<Rightarrow> file_tree \<Rightarrow> err option \<times> file_tree" where
  "remove_all e dir fs =
     (case syscall e 0 of
        None \<Rightarrow> (None, \<lambda>p. if below dir p then None else fs p)
      | Some x \<Rightarrow> (Some x, \<lambda>p. if below dir p \<and> sys_err e (1 # entry_code p) = None then None else fs p))"

definition mpSession :: "'m manager \<Rightarrow> env \<Rightarrow> string \<Rightarrow> string \<Rightarrow> 'm mp_world
    \<Rightarrow> (err + upload) \<times> 'm mp_world" where
  "mpSession m e tenant uploadID w =
     (case ctx_poll e 0 of Some x \<Rightarrow> (Inl x, w) | None \<Rightarrow>
      case map_of (mw_uploads w) (sessionKey tenant uploadID) of Some session \<Rightarrow> (Inr session, w) | None \<Rightarrow>
      case mg_store m of None \<Rightarrow> (Inl ErrUploadNotFound, w) | Some st \<Rightarrow>
      case GetMultipartSession st (call e 1) tenant uploadID (mw_meta w) of
        Inl x \<Rightarrow> (Inl (if errors_is x ErrNotFound then ErrUploadNotFound else x), w)
      | Inr stored \<Rightarrow>
          (let session = sessionFromMetadata m stored in
           case reserveBytes m (call e 2) (up_Reserved session) (mw_used w) of
             (Some x, u) \<Rightarrow> (Inl x, w\<lparr>mw_used := u\<rparr>)
           | (None, u) \<Rightarrow>
               (case map_of (mw_uploads w) (sessionKey tenant uploadID) of
                  Some existing \<Rightarrow> (Inr existing, w\<lparr>mw_used := releaseBytes m (up_Reserved session) u\<rparr>)
                | None \<Rightarrow> (Inr session, w\<lparr>mw_used := u,
                    mw_uploads := AList.update (sessionKey tenant uploadID) session (mw_uploads w)\<rparr>))))"

definition deleteSession :: "'m manager \<Rightarrow> env \<Rightarrow> upload \<Rightarrow> 'm mp_world \<Rightarrow> err option \<times> 'm mp_world" where
  "deleteSession m e session w =
     (case ctx_poll e 0 of Some x \<Rightarrow> (Some x, w) | None \<Rightarrow>
      case (case mg_store m of
              None \<Rightarrow> (None, mw_meta w)
            | Some st \<Rightarrow> DeleteMultipartSession st (call e 1) (up_Tenant session) (up_UploadID session) (mw_meta w)) of
        (r, meta) \<Rightarrow>
          (if (case r of None \<Rightarrow> False | Some x \<Rightarrow> \<not> errors_is x ErrNotFound) then (r, w\<lparr>mw_meta := meta\<rparr>)
           else (let key = sessionKey (up_Tenant session) (up_UploadID session);
                     loaded = map_of (mw_uploads w) key;
                     used = (case loaded of None \<Rightarrow> mw_used w
                       | Some l \<Rightarrow> releaseBytes m (up_Reserved l) (mw_used w));
                     (r', fs) = remove_all (call e 2) (up_Directory session) (mw_files w)
                 in (r', w\<lparr>mw_meta := meta, mw_uploads := AList.delete key (mw_uploads w),
                       mw_used := used, mw_files := fs\<rparr>))))"

definition mpCreate :: "'m manager \<Rightarrow> env \<Rightarrow> string \<Rightarrow> string \<Rightarrow> string \<Rightarrow> int \<Rightarrow> (string, string) gomap list
    \<Rightarrow> 'm mp_world \<Rightarrow> (err + upload) \<times> 'm mp_world" where
  "mpCreate m e tenant bucket key expected headers w =
     (case ctx_poll e 0 of Some x \<Rightarrow> (Inl x, w) | None \<Rightarrow>
      let expectedSize = (if expected < 0 then 0 else expected) in
      if 0 < mg_maxUploadSize m \<and> mg_maxUploadSize m < expectedSize then (Inl ErrUploadTooLarge, w) else
      case syscall e 1 of Some x \<Rightarrow> (Inl (ErrWrap ''create multipart scratch root'' x), w) | None \<Rightarrow>
      case checkDisk m (call e 2) 0 (mw_used w) of Some x \<Rightarrow> (Inl x, w) | None \<Rightarrow>
      case (if 0 < expectedSize then reserveBytes m (call e 3) expectedSize (mw_used w) else (None, mw_used w)) of
        (Some x, u) \<Rightarrow> (Inl x, w\<lparr>mw_used := u\<rparr>)
      | (None, u) \<Rightarrow>
          (let uploadID = randomUploadID (call e 4);
               dir = sessionDirectory m tenant uploadID in
           case syscall e 5 of
             Some x \<Rightarrow> (Inl (ErrWrap ''create multipart scratch directory'' x),
               w\<lparr>mw_used := releaseBytes m expectedSize u\<rparr>)
           | None \<Rightarrow>
               (let session = \<lparr>up_UploadID = uploadID, up_Tenant = tenant, up_Bucket = bucket, up_Key = key,
                      up_Reserved = expectedSize, up_CreatedAt = now e 6, up_Directory = dir,
                      up_Headers = firstHeaderMap headers, up_Parts = []\<rparr> in
                case (case mg_store m of
                        None \<Rightarrow> (None, mw_meta w)
                      | Some st \<Rightarrow> CreateMultipartSession st (call e 7)
                          \<lparr>ms_upload_id = up_UploadID session, ms_tenant = up_Tenant session,
                           ms_bucket = up_Bucket session, ms_key = up_Key session,
                           ms_headers = up_Headers session, ms_reserved = up_Reserved session,
                           ms_created = up_CreatedAt session, ms_updated = up_CreatedAt session,
                           ms_parts = []\<rparr> (mw_meta w)) of
                  (Some x, meta) \<Rightarrow> (Inl x, w\<lparr>mw_meta := meta, mw_used := releaseBytes m expectedSize u,
                     mw_files := snd (remove_all (call e 8) dir (mw_files w))\<rparr>)
                | (None, meta) \<Rightarrow> (Inr session, w\<lparr>mw_meta := meta, mw_used := u,
                     mw_uploads := AList.update (sessionKey tenant uploadID) session (mw_uploads w)\<rparr>))))"

section \<open>Parts\<close>

text \<open>The size of all parts but the given one, added up in the order the map yields them.\<close>

fun addOtherParts :: "int \<Rightarrow> (int \<times> part_info) list \<Rightarrow> int \<Rightarrow> int" where
  "addOtherParts number [] acc = acc"
| "addOtherParts number ((n, p) # ps) acc =
     addOtherParts number ps (if n \<noteq> number then add64 acc (pi_Size p) else acc)"

definition CheckPart :: "'m manager \<Rightarrow> env \<Rightarrow> string \<Rightarrow> string \<Rightarrow> int \<Rightarrow> int \<Rightarrow> 'm mp_world
    \<Rightarrow> err option \<times> 'm mp_world" where
  "CheckPart m e tenant uploadID number expectedSize w =
     (if expectedSize \<le> 0 then (None, w)
      else if number \<le> 0 then (Some (ErrNew ''part number must be positive''), w)
      else if 0 < mg_maxPartSize m \<and> mg_maxPartSize m < expectedSize then (Some ErrPartTooLarge, w)
      else (case mpSession m (call e 0) tenant uploadID w of
              (Inl x, w') \<Rightarrow> (Some x, w')
            | (Inr session, w') \<Rightarrow>
                (let total = addOtherParts number (go_range (range_pick e [1]) (up_Parts session)) expectedSize
                 in if 0 < mg_maxUploadSize m \<and> mg_maxUploadSize m < total then (Some ErrUploadTooLarge, w')
                    else (let delta = sub64 total (up_Reserved session)
                          in if delta \<le> 0 then (None, w')
                             else (checkDisk m (call e 2) delta (mw_used w'), w')))))"

definition empty_part :: part_info where
  "empty_part = \<lparr>pi_Number = 0, pi_Size = 0, pi_ETag = [], pi_Path = []\<rparr>"

definition reserveForPart :: "'m manager \<Rightarrow> env \<Rightarrow> string \<Rightarrow> string \<Rightarrow> int \<Rightarrow> part_info \<Rightarrow> 'm mp_world
    \<Rightarrow> (err + part_reservation) \<times> 'm mp_world" where
  "reserveForPart m e tenant uploadID number info w =
     (case ctx_poll e 0 of Some x \<Rightarrow> (Inl x, w) | None \<Rightarrow>
      case map_of (mw_uploads w) (sessionKey tenant uploadID) of None \<Rightarrow> (Inl ErrUploadNotFound, w)
      | Some session \<Rightarrow>
          (let previous = map_of (up_Parts session) number;
               total = addOtherParts number (go_range (range_pick e [1]) (up_Parts session)) (pi_Size info)
           in if 0 < mg_maxUploadSize m \<and> mg_maxUploadSize m < total then (Inl ErrUploadTooLarge, w)
              else (let delta = sub64 total (up_Reserved session) in
                case (if 0 < delta then reserveBytes m (call e 2) delta (mw_used w) else (None, mw_used w)) of
                  (Some x, u) \<Rightarrow> (Inl x, w\<lparr>mw_used := u\<rparr>)
                | (None, u) \<Rightarrow>
                    (Inr \<lparr>pr_delta = delta, pr_reserved = total, pr_hadPrevious = previous \<noteq> None,
                       pr_previous = (case previous of None \<Rightarrow> empty_part | Some p \<Rightarrow> p),
                       pr_previousReserved = up_Reserved session\<rparr>,
                     w\<lparr>mw_used := u, mw_uploads := AList.update (sessionKey tenant uploadID)
                         (session\<lparr>up_Parts := AList.update number info (up_Parts session),
                            up_Reserved := total\<rparr>) (mw_uploads w)\<rparr>))))"

definition rollbackReservation :: "'m manager \<Rightarrow> string \<Rightarrow> string \<Rightarrow> int \<Rightarrow> part_reservation \<Rightarrow> 'm mp_world
    \<Rightarrow> 'm mp_world" where
  "rollbackReservation m tenant uploadID number reservation w =
     (let w1 = (case map_of (mw_uploads w) (sessionKey tenant uploadID) of
            None \<Rightarrow> w
          | Some session \<Rightarrow> w\<lparr>mw_uploads := AList.update (sessionKey tenant uploadID)
              (session\<lparr>up_Parts := (if pr_hadPrevious reservation
                   then AList.update number (pr_previous reservation) (up_Parts session)
                   else AList.delete number (up_Parts session)),
                 up_Reserved := pr_previousReserved reservation\<rparr>) (mw_uploads w)\<rparr>)
      in if 0 < pr_delta reservation
         then w1\<lparr>mw_used := releaseBytes m (pr_delta reservation) (mw_used w1)\<rparr> else w1)"

definition finishReservation :: "'m manager \<Rightarrow> part_reservation \<Rightarrow> 'm mp_world \<Rightarrow> 'm mp_world" where
  "finishReservation m reservation w =
     (if pr_delta reservation < 0
      then w\<lparr>mw_used := releaseBytes m (sub64 0 (pr_delta reservation)) (mw_used w)\<rparr> else w)"

text \<open>\<open>io.LimitedReader\<close>: at most \<open>n\<close> bytes of the reader, then end of file.\<close>

fun limit_reader :: "nat \<Rightarrow> reader \<Rightarrow> reader" where
  "limit_reader n [] = []"
| "limit_reader n ((bs, st) # rs) =
     (if n = 0 then []
      else if length bs \<le> n then (bs, st) # limit_reader (n - length bs) rs
      else [(take n bs, NoErr)])"

text \<open>The first half of \<open>PutPart\<close>: writing the body to the temporary file.\<close>

definition spoolPart :: "'m manager \<Rightarrow> env \<Rightarrow> upload \<Rightarrow> int \<Rightarrow> reader \<Rightarrow> int \<Rightarrow> file_tree
    \<Rightarrow> (err + part_info) \<times> file_tree" where
  "spoolPart m e session number rd used fs =
     (let path = partPath session number; tmp = partTmp session number in
      case ctx_poll e 0 of Some x \<Rightarrow> (Inl x, fs) | None \<Rightarrow>
      case checkDisk m (call e 1) 0 used of Some x \<Rightarrow> (Inl x, fs) | None \<Rightarrow>
      case syscall e 2 of Some x \<Rightarrow> (Inl (ErrWrap ''create part spool file'' x), fs) | None \<Rightarrow>
      (let copyReader = (if 0 < mg_maxPartSize m then limit_reader (nat (add64 (mg_maxPartSize m) 1)) rd else rd);
           data = content copyReader;
           fs1 = fs(tmp := Some data) in
       case syscall e 3 of
         Some x \<Rightarrow> (Inl (ErrWrap ''write part'' x),
           try_remove e 4 tmp (fs(tmp := Some (take (range_pick e [3] (length data)) data))))
       | None \<Rightarrow>
       case reader_err copyReader of
         Some x \<Rightarrow> (Inl (ErrWrap ''write part'' x), try_remove e 4 tmp fs1)
       | None \<Rightarrow>
       case syscall e 5 of Some x \<Rightarrow> (Inl (ErrWrap ''close part'' x), try_remove e 6 tmp fs1) | None \<Rightarrow>
       if 0 < mg_maxPartSize m \<and> mg_maxPartSize m < int (length data)
       then (Inl ErrPartTooLarge, try_remove e 7 tmp fs1)
       else case ctx_poll e 8 of Some x \<Rightarrow> (Inl x, try_remove e 9 tmp fs1) | None \<Rightarrow>
       (Inr \<lparr>pi_Number = number, pi_Size = int (length data),
             pi_ETag = [CHR 0x22] @ hex_encode (mg_md5 m data) @ [CHR 0x22], pi_Path = path\<rparr>, fs1)))"

text \<open>The second half: the reservation is taken; the temporary file is moved into place and the
  part is recorded, or everything is undone.\<close>

definition commitPart :: "'m manager \<Rightarrow> env \<Rightarrow> string \<Rightarrow> string \<Rightarrow> upload \<Rightarrow> int \<Rightarrow> part_info \<Rightarrow> part_reservation
    \<Rightarrow> 'm mp_world \<Rightarrow> (err + part_info) \<times> 'm mp_world" where
  "commitPart m e tenant uploadID session number info reservation w =
     (let path = partPath session number; tmp = partTmp session number in
      case syscall e 0 of
        Some x \<Rightarrow> (Inl (ErrWrap ''commit part spool file'' x),
          rollbackReservation m tenant uploadID number reservation
            (w\<lparr>mw_files := try_remove e 1 tmp (mw_files w)\<rparr>))
      | None \<Rightarrow>
          (let fs1 = (mw_files w)(tmp := None, path := mw_files w tmp) in
           case (case mg_store m of
                   None \<Rightarrow> (None, mw_meta w)
                 | Some st \<Rightarrow> SaveMultipartPart st (call e 2) tenant uploadID
                     \<lparr>pt_number = pi_Number info, pt_size = pi_Size info, pt_etag = pi_ETag info,
                      pt_path = pi_Path info, pt_created = now e 3\<rparr> (pr_reserved reservation) (mw_meta w)) of
             (Some x, meta) \<Rightarrow> (Inl x, rollbackReservation m tenant uploadID number reservation
                (w\<lparr>mw_meta := meta, mw_files := try_remove e 4 path fs1\<rparr>))
           | (None, meta) \<Rightarrow> (Inr info, finishReservation m reservation
                (w\<lparr>mw_meta := meta, mw_files := fs1\<rparr>))))"

definition PutPart :: "'m manager \<Rightarrow> env \<Rightarrow> string \<Rightarrow> string \<Rightarrow> int \<Rightarrow> reader \<Rightarrow> 'm mp_world
    \<Rightarrow> (err + part_info) \<times> 'm mp_world" where
  "PutPart m e tenant uploadID number rd w =
     (if number \<le> 0 then (Inl (ErrNew ''part number must be positive''), w)
      else (case mpSession m (call e 0) tenant uploadID w of
              (Inl x, w1) \<Rightarrow> (Inl x, w1)
            | (Inr session, w1) \<Rightarrow>
                (case spoolPart m (call e 1) session number rd (mw_used w1) (mw_files w1) of
                   (Inl x, fs) \<Rightarrow> (Inl x, w1\<lparr>mw_files := fs\<rparr>)
                 | (Inr info, fs) \<Rightarrow>
                     (case reserveForPart m (call e 2) tenant uploadID number info (w1\<lparr>mw_files := fs\<rparr>) of
                        (Inl x, w2) \<Rightarrow> (Inl x, w2\<lparr>mw_files := try_remove e 3 (partTmp session number) (mw_files w2)\<rparr>)
                      | (Inr reservation, w2) \<Rightarrow>
                          commitPart m (call e 4) tenant uploadID session number info reservation w2))))"

section \<open>Reading, aborting, loading\<close>

fun openPartFiles :: "env \<Rightarrow> nat \<Rightarrow> upload \<Rightarrow> int list \<Rightarrow> file_tree \<Rightarrow> err + reader list" where
  "openPartFiles e i session [] fs = Inr []"
| "openPartFiles e i session (number # ns) fs =
     (case map_of (up_Parts session) number of
        None \<Rightarrow> Inl (ErrNew (''missing multipart part '' @ format_int number))
      | Some part \<Rightarrow>
          (case ctx_poll (call e i) 0 of Some x \<Rightarrow> Inl x | None \<Rightarrow>
           case syscall (call e i) 1 of
             Some x \<Rightarrow> Inl (ErrWrap (''open part '' @ format_int number) x)
           | None \<Rightarrow>
               (case fs (pi_Path part) of
                  None \<Rightarrow> Inl (ErrWrap (''open part '' @ format_int number) (ErrSys ''no such file or directory''))
                | Some raw \<Rightarrow>
                    (case openPartFiles e (Suc i) session ns fs of
                       Inl x \<Rightarrow> Inl x
                     | Inr files \<Rightarrow> Inr (file_reader (call (call e i) 2) raw # files)))))"

definition sortedPartNumbers :: "(int, part_info) gomap \<Rightarrow> int list" where
  "sortedPartNumbers parts = sort (keys parts)"

definition mpOpen :: "'m manager \<Rightarrow> env \<Rightarrow> string \<Rightarrow> string \<Rightarrow> int list \<Rightarrow> 'm mp_world
    \<Rightarrow> (err + upload \<times> reader) \<times> 'm mp_world" where
  "mpOpen m e tenant uploadID orderedParts w =
     (case mpSession m (call e 0) tenant uploadID w of
        (Inl x, w') \<Rightarrow> (Inl x, w')
      | (Inr session, w') \<Rightarrow>
          (let order = (if orderedParts = [] then sortedPartNumbers (up_Parts session) else orderedParts)
           in (case openPartFiles (call e 1) 0 session order (mw_files w') of
                 Inl x \<Rightarrow> Inl x
               | Inr files \<Rightarrow> Inr (session, io_MultiReader files), w')))"

text \<open>Closing the reader closes every file and reports the first error.\<close>

fun closeParts :: "env \<Rightarrow> nat \<Rightarrow> nat \<Rightarrow> err option \<Rightarrow> err option" where
  "closeParts e i 0 first = first"
| "closeParts e i (Suc n) first =
     closeParts e (Suc i) n (case syscall e i of
       None \<Rightarrow> first | Some x \<Rightarrow> (if first = None then Some x else first))"

definition mpGet :: "'m manager \<Rightarrow> env \<Rightarrow> string \<Rightarrow> string \<Rightarrow> 'm mp_world \<Rightarrow> (err + upload) \<times> 'm mp_world" where
  "mpGet m e tenant uploadID w =
     (case ctx_poll e 0 of Some x \<Rightarrow> (Inl x, w) | None \<Rightarrow> mpSession m (call e 1) tenant uploadID w)"

definition Abort :: "'m manager \<Rightarrow> env \<Rightarrow> string \<Rightarrow> string \<Rightarrow> 'm mp_world \<Rightarrow> err option \<times> 'm mp_world" where
  "Abort m e tenant uploadID w =
     (case mpSession m (call e 0) tenant uploadID w of
        (Inl x, w') \<Rightarrow> (Some x, w')
      | (Inr session, w') \<Rightarrow> deleteSession m (call e 1) session w')"

definition CompleteCleanup :: "'m manager \<Rightarrow> env \<Rightarrow> string \<Rightarrow> string \<Rightarrow> 'm mp_world \<Rightarrow> err option \<times> 'm mp_world" where
  "CompleteCleanup m e tenant uploadID w = Abort m e tenant uploadID w"

fun loadSessions :: "'m manager \<Rightarrow> env \<Rightarrow> nat \<Rightarrow> mp_session list \<Rightarrow> 'm mp_world \<Rightarrow> err option \<times> 'm mp_world" where
  "loadSessions m e i [] w = (None, w)"
| "loadSessions m e i (stored # rest) w =
     (let session = sessionFromMetadata m stored;
          key = sessionKey (up_Tenant session) (up_UploadID session) in
      case syscall (call e i) 0 of
        Some x \<Rightarrow> (Some (ErrWrap ''create multipart scratch directory'' x), w)
      | None \<Rightarrow>
          (case reserveBytes m (call (call e i) 1) (up_Reserved session) (mw_used w) of
             (Some x, u) \<Rightarrow> (Some (ErrWrap (''reserve multipart upload '' @ up_UploadID session) x), w\<lparr>mw_used := u\<rparr>)
           | (None, u) \<Rightarrow>
               loadSessions m e (Suc i) rest
                 (case map_of (mw_uploads w) key of
                    Some existing \<Rightarrow> w\<lparr>mw_used := releaseBytes m (up_Reserved session) u\<rparr>
                  | None \<Rightarrow> w\<lparr>mw_used := u, mw_uploads := AList.update key session (mw_uploads w)\<rparr>)))"

fun loadTenants :: "'m manager \<Rightarrow> 'm store_ops \<Rightarrow> env \<Rightarrow> nat \<Rightarrow> string list \<Rightarrow> 'm mp_world
    \<Rightarrow> err option \<times> 'm mp_world" where
  "loadTenants m st e i [] w = (None, w)"
| "loadTenants m st e i (tenant # tenants) w =
     (case ListMultipartSessions st (call (call e i) 0) tenant (mw_meta w) of
        Inl x \<Rightarrow> (Some x, w)
      | Inr ss \<Rightarrow>
          (case loadSessions m (call (call e i) 1) 0 ss w of
             (Some x, w') \<Rightarrow> (Some x, w')
           | (None, w') \<Rightarrow> loadTenants m st e (Suc i) tenants w'))"

definition LoadActive :: "'m manager \<Rightarrow> env \<Rightarrow> 'm mp_world \<Rightarrow> err option \<times> 'm mp_world" where
  "LoadActive m e w =
     (case mg_store m of None \<Rightarrow> (None, w) | Some st \<Rightarrow>
      case ListTenants st (call e 0) (mw_meta w) of
        Inl x \<Rightarrow> (Some x, w)
      | Inr tenants \<Rightarrow> loadTenants m st (call e 1) 0 tenants w)"

fun staleOfTenants :: "'m manager \<Rightarrow> 'm store_ops \<Rightarrow> env \<Rightarrow> nat \<Rightarrow> int \<Rightarrow> string list \<Rightarrow> 'm \<Rightarrow> err + upload list" where
  "staleOfTenants m st e i cutoff [] meta = Inr []"
| "staleOfTenants m st e i cutoff (tenant # tenants) meta =
     (case ListStaleMultipartSessions st (call e i) tenant cutoff meta of
        Inl x \<Rightarrow> Inl x
      | Inr ss \<Rightarrow> (case staleOfTenants m st e (Suc i) cutoff tenants meta of
          Inl x \<Rightarrow> Inl x
        | Inr rest \<Rightarrow> Inr (map (sessionFromMetadata m) ss @ rest)))"

fun cleanLoop :: "'m manager \<Rightarrow> env \<Rightarrow> nat \<Rightarrow> upload list \<Rightarrow> int \<Rightarrow> 'm mp_world \<Rightarrow> int \<times> err option \<times> 'm mp_world" where
  "cleanLoop m e i [] cleaned w = (cleaned, None, w)"
| "cleanLoop m e i (session # ss) cleaned w =
     (case deleteSession m (call e i) session w of
        (r, w') \<Rightarrow> (if (case r of None \<Rightarrow> False | Some x \<Rightarrow> \<not> errors_is x ErrUploadNotFound)
          then (cleaned, r, w') else cleanLoop m e (Suc i) ss (cleaned + 1) w'))"

definition CleanupStale :: "'m manager \<Rightarrow> env \<Rightarrow> int \<Rightarrow> 'm mp_world \<Rightarrow> int \<times> err option \<times> 'm mp_world" where
  "CleanupStale m e ttl w =
     (if ttl \<le> 0 then (0, None, w)
      else (let cutoff = now e 0 - ttl in
        case (case mg_store m of
                Some st \<Rightarrow>
                  (case ListTenants st (call e 1) (mw_meta w) of
                     Inl x \<Rightarrow> Inl x
                   | Inr tenants \<Rightarrow> staleOfTenants m st (call e 2) 0 cutoff tenants (mw_meta w))
              | None \<Rightarrow> Inr (filter (\<lambda>s. up_CreatedAt s < cutoff)
                  (map snd (go_range (range_pick e [3]) (mw_uploads w))))) of
          Inl x \<Rightarrow> (0, Some x, w)
        | Inr stale \<Rightarrow> cleanLoop m (call e 4) 0 stale 0 w))"

definition mpHealthCheck :: "'m manager \<Rightarrow> env \<Rightarrow> 'm mp_world \<Rightarrow> err option" where
  "mpHealthCheck m e w =
     (case ctx_poll e 0 of Some x \<Rightarrow> Some x | None \<Rightarrow>
      case syscall e 1 of Some x \<Rightarrow> Some (ErrWrap ''check multipart scratch root'' x) | None \<Rightarrow>
      checkDisk m (call e 2) 0 (mw_used w))"

section \<open>Histories\<close>

text \<open>The calls a server makes, and the restart of the process, which loses the loaded sessions
  and the counter but neither the scratch files nor the metadata store.\<close>

datatype mp_call =
    CreateCall string string string int "(string, string) gomap list"
  | CheckCall string string int int
  | PutCall string string int reader
  | OpenCall string string "int list"
  | GetCall string string
  | AbortCall string string
  | LoadCall
  | CleanCall int
  | RestartCall

definition mp_run :: "'m manager \<Rightarrow> env \<Rightarrow> mp_call \<Rightarrow> 'm mp_world \<Rightarrow> 'm mp_world" where
  "mp_run m e c w =
     (case c of
        CreateCall t b k n hs \<Rightarrow> snd (mpCreate m e t b k n hs w)
      | CheckCall t u n sz \<Rightarrow> snd (CheckPart m e t u n sz w)
      | PutCall t u n rd \<Rightarrow> snd (PutPart m e t u n rd w)
      | OpenCall t u ns \<Rightarrow> snd (mpOpen m e t u ns w)
      | GetCall t u \<Rightarrow> snd (mpGet m e t u w)
      | AbortCall t u \<Rightarrow> snd (Abort m e t u w)
      | LoadCall \<Rightarrow> snd (LoadActive m e w)
      | CleanCall ttl \<Rightarrow> snd (snd (CleanupStale m e ttl w))
      | RestartCall \<Rightarrow> w\<lparr>mw_uploads := [], mw_used := 0\<rparr>)"

fun mp_history :: "'m manager \<Rightarrow> (env \<times> mp_call) list \<Rightarrow> 'm mp_world \<Rightarrow> 'm mp_world" where
  "mp_history m [] w = w"
| "mp_history m ((e, c) # cs) w = mp_history m cs (mp_run m e c w)"

text \<open>The manager as \<open>cmd/chunkgate/main.go\<close> sets it up, here over the in-memory store, and the
  state it starts in.\<close>

definition serverManager :: "(bytes \<Rightarrow> bytes) \<Rightarrow> string list \<Rightarrow> int \<Rightarrow> int \<Rightarrow> int \<Rightarrow> int \<Rightarrow> memory_store manager" where
  "serverManager md5 scratchDir localCapacity minFree maxPart maxUpload =
     NewManager md5 scratchDir (Some localCapacity)
       [Some (WithMetadataStore memory_ops), Some (WithMaxPartSize maxPart), Some (WithMaxUploadSize maxUpload),
        Some (WithDiskGuard (Some (NewDiskGuard (concat scratchDir) (Some localCapacity) minFree)))]"

definition mp_start :: "memory_store mp_world" where
  "mp_start = \<lparr>mw_uploads = [], mw_used = 0, mw_files = (\<lambda>_. None), mw_meta = NewMemoryStore\<rparr>"

end
