(* ===== verification/MultipartProps.thy ===== *)
theory MultipartProps
  imports Multipart
begin

text \<open>
  The multipart manager's correctness: the invariant that ties the loaded sessions to the
  reservation counter and to the sessions in the metadata store, its preservation by every
  operation (proved once in the locale \<open>multipart_manager\<close> over the store's contract and
  interpreted on the server's manager over the in-memory store), the part files, and the
  properties of whole histories with restarts.
\<close>

section \<open>Invariants\<close>

definition mg_counter :: "'m manager \<Rightarrow> int option" where
  "mg_counter m = (case mg_disk m of Some g \<Rightarrow> dg_Reservations g | None \<Rightarrow> mg_reservations m)"

definition part_sizes :: "upload \<Rightarrow> int list" where
  "part_sizes s = map (\<lambda>(n, p). pi_Size p) (up_Parts s)"

definition upload_fits :: "'m manager \<Rightarrow> upload \<Rightarrow> bool" where
  "upload_fits m s \<longleftrightarrow> 0 \<le> up_Reserved s \<and> in_int64 (up_Reserved s) \<and> distinct (keys (up_Parts s))
     \<and> (\<forall>z \<in> set (part_sizes s). 0 \<le> z \<and> (0 < mg_maxPartSize m \<longrightarrow> z \<le> mg_maxPartSize m))
     \<and> (up_Parts s \<noteq> [] \<longrightarrow> up_Reserved s = sum_list (part_sizes s))
     \<and> (0 < mg_maxUploadSize m \<longrightarrow> up_Reserved s \<le> mg_maxUploadSize m)"

definition reserved_sum :: "(string, upload) gomap \<Rightarrow> int" where
  "reserved_sum us = sum_list (map (\<lambda>(k, s). up_Reserved s) us)"

text \<open>The counter is what the loaded sessions hold.\<close>

text \<open>The counter fits its type and stays within a positive capacity.\<close>

definition within :: "'m manager \<Rightarrow> int \<Rightarrow> bool" where
  "within m used \<longleftrightarrow> in_int64 used \<and> (\<forall>cap. mg_counter m = Some cap \<and> 0 < cap \<longrightarrow> used \<le> cap)"

definition books :: "'m manager \<Rightarrow> (string, upload) gomap \<Rightarrow> int \<Rightarrow> bool" where
  "books m us used \<longleftrightarrow> distinct (keys us) \<and> (\<forall>(k, s) \<in> set us. upload_fits m s)
     \<and> used = reserved_sum us \<and> within m used"

definition same_upload :: "upload \<Rightarrow> upload \<Rightarrow> bool" where
  "same_upload s t \<longleftrightarrow> s\<lparr>up_CreatedAt := 0\<rparr> = t\<lparr>up_CreatedAt := 0\<rparr>"

text \<open>The store holds a matching session for every loaded one, and only sessions within the limits.\<close>

definition mirrored :: "(string \<times> string \<Rightarrow> mp_session option) \<Rightarrow> 'm manager \<Rightarrow> (string, upload) gomap \<Rightarrow> bool" where
  "mirrored ses m us \<longleftrightarrow>
     (\<forall>(k, s) \<in> set us. k = sessionKey (up_Tenant s) (up_UploadID s)
        \<and> (\<exists>ms. ses (up_Tenant s, up_UploadID s) = Some ms \<and> same_upload s (sessionFromMetadata m ms)))
     \<and> (\<forall>t u ms. ses (t, u) = Some ms \<longrightarrow> upload_fits m (sessionFromMetadata m ms)
          \<and> nul_free t \<and> safe_name u \<and> (\<forall>t'. ses (t', u) \<noteq> None \<longrightarrow> t' = t))"

definition mp_ok :: "('m \<Rightarrow> bool) \<Rightarrow> ('m \<Rightarrow> string \<times> string \<Rightarrow> mp_session option) \<Rightarrow> 'm manager
    \<Rightarrow> 'm mp_world \<Rightarrow> bool" where
  "mp_ok sinv ses m w \<longleftrightarrow> sinv (mw_meta w) \<and> books m (mw_uploads w) (mw_used w) \<and> mirrored (ses (mw_meta w)) m (mw_uploads w)"

text \<open>What is assumed of a call: tenant names without NUL, a new identifier for a new upload, and
  sessions that stay below \<open>2^63\<close> bytes.\<close>

definition call_ok :: "('m \<Rightarrow> string \<times> string \<Rightarrow> mp_session option) \<Rightarrow> env \<Rightarrow> mp_call \<Rightarrow> 'm mp_world \<Rightarrow> bool" where
  "call_ok ses e c w \<longleftrightarrow>
     (case c of
        CreateCall t b k n hs \<Rightarrow> nul_free t \<and> in_int64 n
          \<and> (\<forall>t'. ses (mw_meta w) (t', randomUploadID (call e 4)) = None)
      | CheckCall t u n sz \<Rightarrow> nul_free t
      | PutCall t u n rd \<Rightarrow> nul_free t \<and> (\<forall>ms. ses (mw_meta w) (t, u) = Some ms \<longrightarrow>
          ms_reserved ms + int (length (content rd)) \<le> max_int64)
      | OpenCall t u ns \<Rightarrow> nul_free t
      | GetCall t u \<Rightarrow> nul_free t
      | AbortCall t u \<Rightarrow> nul_free t
      | _ \<Rightarrow> True)"

fun history_ok :: "('m \<Rightarrow> string \<times> string \<Rightarrow> mp_session option) \<Rightarrow> 'm manager \<Rightarrow> (env \<times> mp_call) list
    \<Rightarrow> 'm mp_world \<Rightarrow> bool" where
  "history_ok ses m [] w = True"
| "history_ok ses m ((e, c) # cs) w = (call_ok ses e c w \<and> history_ok ses m cs (mp_run m e c w))"

section \<open>Lemmas on names and sums\<close>

lemma safePathLoop_eq: "safePathLoop rs out = sanitizeLoop rs out"
  by (induction rs arbitrary: out) (simp_all only: safePathLoop.simps sanitizeLoop.simps)

lemma safePathPart_eq: "safePathPart t = sanitizePathPart t"
  by (simp add: safePathPart_def sanitizePathPart_def safePathLoop_eq)

lemma sessionKey_inj:
  assumes "nul_free t" "nul_free t'"
  shows "sessionKey t u = sessionKey t' u' \<longleftrightarrow> t = t' \<and> u = u'"
proof
  assume eq: "sessionKey t u = sessionKey t' u'"
  have tw: "takeWhile (\<lambda>c. c \<noteq> CHR 0x00) (sessionKey a b) = a" if "nul_free a" for a b
    using that by (induction a) (auto simp: sessionKey_def nul_free_def)
  from tw [OF assms(1), of u] tw [OF assms(2), of u'] eq have "t = t'" by simp
  with eq show "t = t' \<and> u = u'" by (simp add: sessionKey_def)
qed simp

lemma split_at_single: "d \<notin> set s \<Longrightarrow> split_at d s = [s]"
  by (induction s) auto

lemma sessionDirectory_eq:
  assumes "safe_name u"
  shows "sessionDirectory m t u = clean_path [] (mg_root m) @ [sanitizePathPart t, u]"
proof -
  have "split_at CHR ''/'' u = [u]"
    by (rule split_at_single [OF safe_name_no_slash [OF assms]])
  with safe_name_plain [OF assms] safe_name_plain [OF sanitizePathPart_safe [of t]] show ?thesis
    by (simp add: sessionDirectory_def safePathPart_eq clean_path_append)
qed

lemma digit_safe: "is_digit r \<Longrightarrow> safe_rune r"
  by (auto simp: is_digit_def safe_rune_def)

lemma randomUploadID_safe: "safe_name (randomUploadID e)"
proof (cases "syscall e 0")
  case None
  have "hex_encode (random_bytes e 2 16) \<noteq> []"
    by (metis length_hex_encode length_random_bytes list.size(3) mult_eq_0_iff numeral_eq_iff
        semiring_norm(83) zero_neq_numeral)
  with None show ?thesis
    by (auto simp: randomUploadID_def safe_name_def hex_char_safe dest: hex_encode_lower)
next
  case (Some x)
  have "safe_rune 45" by (simp add: safe_rune_def)
  moreover have "safe_rune (of_char c)" if "c \<in> set (nat_digits n)" for c n
    using that by (intro digit_safe nat_digits_digits)
  ultimately show ?thesis using Some
    by (auto simp: randomUploadID_def safe_name_def format_int_def)
qed

definition other_sizes :: "int \<Rightarrow> (int \<times> part_info) list \<Rightarrow> int" where
  "other_sizes number ps = sum_list (map (\<lambda>(n, p). if n \<noteq> number then pi_Size p else 0) ps)"

lemma other_sizes_le: "\<forall>(n, p) \<in> set ps. 0 \<le> pi_Size p \<Longrightarrow>
    0 \<le> other_sizes number ps \<and> other_sizes number ps \<le> sum_list (map (\<lambda>(n, p). pi_Size p) ps)"
  by (induction ps) (auto simp: other_sizes_def)

lemma addOtherParts_exact:
  assumes "\<forall>(n, p) \<in> set ps. 0 \<le> pi_Size p" "0 \<le> acc" "acc + other_sizes number ps \<le> max_int64"
  shows "addOtherParts number ps acc = acc + other_sizes number ps"
  using assms
proof (induction number ps acc rule: addOtherParts.induct)
  case (2 number n p ps acc)
  have "0 \<le> other_sizes number ps"
    using 2(2) other_sizes_le [of ps number] by simp
  with 2(2-4) have "in_int64 (acc + pi_Size p)" if "n \<noteq> number"
    using that by (simp add: other_sizes_def in_int64_def min_int64_def)
  moreover have "0 \<le> pi_Size p" using 2(2) by simp
  ultimately show ?case using 2
    by (cases "n = number") (simp_all add: add64_id other_sizes_def)
qed (simp add: other_sizes_def)

lemma other_sizes_range [simp]: "other_sizes number (go_range f ps) = other_sizes number ps"
proof -
  have "mset (map g (go_range f ps)) = mset (map g ps)" for g :: "int \<times> part_info \<Rightarrow> int" by simp
  from arg_cong [OF this, of sum_mset] show ?thesis
    unfolding other_sizes_def sum_mset_sum_list .
qed

lemma sum_sizes_update:
  assumes "distinct (keys ps)"
  shows "sum_list (map (\<lambda>(n, p). pi_Size p) (AList.update number info ps)) = pi_Size info + other_sizes number ps"
  using assms
proof (induction ps)
  case (Cons np ps)
  obtain n p where np: "np = (n, p)" by (cases np)
  have "number \<notin> fst ` set qs \<Longrightarrow> other_sizes number qs = sum_list (map (\<lambda>(n, p). pi_Size p) qs)" for qs
    by (induction qs) (auto simp: other_sizes_def)
  with Cons np show ?case by (auto simp: other_sizes_def)
qed (simp add: other_sizes_def)

lemma reserved_sum_update:
  assumes "distinct (keys us)"
  shows "reserved_sum (AList.update k s us) =
    reserved_sum us - (case map_of us k of None \<Rightarrow> 0 | Some s0 \<Rightarrow> up_Reserved s0) + up_Reserved s"
  using assms by (induction us) (auto simp: reserved_sum_def split: option.splits dest: map_of_SomeD
      weak_map_of_SomeI)

lemma delete_absent: "map_of us k = None \<Longrightarrow> AList.delete k us = us"
  by (induction us) (auto split: if_splits)

lemma delete_added: "map_of us k = None \<Longrightarrow> AList.delete k (AList.update k v us) = us"
  by (induction us) (auto simp: delete_absent split: if_splits)

lemma reserved_sum_delete:
  assumes "distinct (keys us)"
  shows "reserved_sum (AList.delete k us) =
    reserved_sum us - (case map_of us k of None \<Rightarrow> 0 | Some s0 \<Rightarrow> up_Reserved s0)"
  using assms
proof (induction us)
  case (Cons a us)
  show ?case
  proof (cases "fst a = k")
    case True
    with Cons.prems have "map_of us k = None" by (auto simp: map_of_eq_None_iff)
    with True delete_absent [of us k] show ?thesis by (cases a) (simp add: reserved_sum_def)
  next
    case False
    with Cons show ?thesis by (cases a) (simp add: reserved_sum_def)
  qed
qed (simp add: reserved_sum_def)

lemma reserved_sum_nonneg: "\<forall>(k, s) \<in> set us. upload_fits m s \<Longrightarrow> 0 \<le> reserved_sum us"
  by (auto simp: reserved_sum_def upload_fits_def intro!: sum_list_nonneg)

lemma reserved_le_sum:
  assumes "\<forall>(k, s) \<in> set us. upload_fits m s" "map_of us k = Some s"
  shows "up_Reserved s \<le> reserved_sum us"
  using assms
proof (induction us)
  case (Cons a us)
  have "0 \<le> reserved_sum us" using Cons.prems(1) by (intro reserved_sum_nonneg [of _ m]) auto
  with Cons show ?case
    by (cases a) (auto simp: reserved_sum_def upload_fits_def split: if_splits)
qed simp

section \<open>Reserving and releasing\<close>

lemma reserveBytes_spec:
  assumes "mg_counter m = Some cap" "0 \<le> used" "in_int64 used" "in_int64 bytes"
    and "reserveBytes m e bytes used = (r, u)"
  shows "case r of Some x \<Rightarrow> u = used
    | None \<Rightarrow> u = used + max 0 bytes \<and> in_int64 u \<and> (0 < bytes \<and> 0 < cap \<longrightarrow> u \<le> cap)"
proof (cases "bytes \<le> 0")
  case False
  have tr: "TryReserve cap bytes used = (if max_int64 < used + bytes \<or> 0 < cap \<and> cap < used + bytes
      then (Some ErrCapacityExceeded, used) else (None, used + bytes))"
    using TryReserve_spec [OF assms(2-4), of cap] False by auto
  have rel: "\<not> max_int64 < used + bytes \<Longrightarrow> Release bytes (used + bytes) = used"
    using Release_spec [of "used + bytes" bytes] assms(2-4) False by (auto simp: in_int64_def)
  have fits: "\<not> max_int64 < used + bytes \<Longrightarrow> in_int64 (used + bytes)"
    using assms(2) False by (simp add: in_int64_def min_int64_def)
  show ?thesis
  proof (cases "mg_disk m")
    case None
    with assms(1,5) False tr fits show ?thesis
      by (auto simp: reserveBytes_def mg_counter_def split: if_splits)
  next
    case (Some g)
    with assms(1) have "dg_Reservations g = Some cap" by (simp add: mg_counter_def)
    then have "reserveBytes m e bytes used = (case ctx_poll e 0 of Some x \<Rightarrow> (Some x, used) | None \<Rightarrow>
       (case TryReserve cap bytes used of (Some x, u1) \<Rightarrow> (Some x, u1)
        | (None, u1) \<Rightarrow> (case guardCheck (Some g) (call e 1) 0 u1 of
             Some x \<Rightarrow> (Some x, Release bytes u1) | None \<Rightarrow> (None, u1))))" (is "_ = ?R")
      using Some False
      by (simp add: reserveBytes_def guardTryReserve_def cong: option.case_cong prod.case_cong)
    with assms(5) have R: "?R = (r, u)" by simp
    show ?thesis
    proof (cases "ctx_poll e 0")
      case None
      show ?thesis
      proof (cases "max_int64 < used + bytes \<or> 0 < cap \<and> cap < used + bytes")
        case True
        with None R tr show ?thesis by auto
      next
        case False
        then have tr': "TryReserve cap bytes used = (None, used + bytes)"
          and rel': "Release bytes (used + bytes) = used" and fits': "in_int64 (used + bytes)"
          using tr rel fits by auto
        show ?thesis
        proof (cases "guardCheck (Some g) (call e 1) 0 (used + bytes)")
          case G: None
          with R None tr' have "r = None" "u = used + bytes" by simp_all
          with \<open>\<not> bytes \<le> 0\<close> fits' False show ?thesis by auto
        next
          case G: (Some x)
          with R None tr' rel' have "r = Some x" "u = used" by simp_all
          then show ?thesis by simp
        qed
      qed
    next
      case (Some x)
      with R have "r = Some x" "u = used" by simp_all
      then show ?thesis by simp
    qed
  qed
qed (use assms in \<open>simp add: reserveBytes_def\<close>)

lemma releaseBytes_spec:
  assumes "mg_counter m = Some cap" "in_int64 used" "in_int64 bytes" "bytes \<le> used" "0 \<le> bytes"
  shows "releaseBytes m bytes used = used - bytes"
  using assms Release_spec [OF assms(2,3,5,4)]
  by (auto simp: releaseBytes_def mg_counter_def guardRelease_def split: option.splits)

section \<open>Keeping the books and the mirror\<close>

lemma set_update_D: "x \<in> set (AList.update k v m) \<Longrightarrow> x = (k, v) \<or> x \<in> set m"
  by (induction m) (auto split: if_splits)

lemma set_delete_D: "x \<in> set (AList.delete k m) \<Longrightarrow> x \<in> set m \<and> fst x \<noteq> k"
  by (auto simp: AList.delete_eq)

lemma within_int64: "within m used \<Longrightarrow> in_int64 used"
  by (simp add: within_def)

lemma within_le: "within m used \<Longrightarrow> 0 \<le> u \<Longrightarrow> u \<le> used \<Longrightarrow> within m u"
  by (auto simp: within_def in_int64_def min_int64_def)

lemma books_int64: "books m us used \<Longrightarrow> in_int64 used"
  by (auto simp: books_def within_def)

lemma books_within: "books m us used \<Longrightarrow> within m used"
  unfolding books_def by blast

lemma books_nonneg: "books m us used \<Longrightarrow> 0 \<le> used"
  using reserved_sum_nonneg [of us m] by (auto simp: books_def)

lemma books_fits: "books m us used \<Longrightarrow> map_of us k = Some s \<Longrightarrow> upload_fits m s"
  by (auto simp: books_def dest: map_of_SomeD)

lemma books_le: "books m us used \<Longrightarrow> map_of us k = Some s \<Longrightarrow> up_Reserved s \<le> used"
  using reserved_le_sum [of us m k s] by (auto simp: books_def)

lemma books_update:
  assumes "books m us used" "upload_fits m s" "within m used'"
    and "used' = used - (case map_of us k of None \<Rightarrow> 0 | Some s0 \<Rightarrow> up_Reserved s0) + up_Reserved s"
  shows "books m (AList.update k s us) used'"
proof -
  have d: "distinct (keys us)" and f: "\<forall>(k, s) \<in> set us. upload_fits m s" and u: "used = reserved_sum us"
    using assms(1) by (auto simp: books_def)
  have "\<forall>(k, s) \<in> set (AList.update k s us). upload_fits m s"
    using f assms(2) by (auto dest!: set_update_D)
  with d u assms(3,4) show ?thesis by (simp add: books_def reserved_sum_update)
qed

lemma books_delete:
  assumes "books m us used"
    and "used' = used - (case map_of us k of None \<Rightarrow> 0 | Some s0 \<Rightarrow> up_Reserved s0)"
  shows "books m (AList.delete k us) used'"
proof -
  have d: "distinct (keys us)" and f: "\<forall>(k, s) \<in> set us. upload_fits m s" and u: "used = reserved_sum us"
    and i: "within m used"
    using assms(1) by (auto simp: books_def)
  have f': "\<forall>(k, s) \<in> set (AList.delete k us). upload_fits m s"
    using f by (auto dest!: set_delete_D)
  have "used' = reserved_sum (AList.delete k us)" using d u assms(2) by (simp add: reserved_sum_delete)
  moreover have "0 \<le> reserved_sum (AList.delete k us)" by (rule reserved_sum_nonneg [OF f'])
  moreover have "used' \<le> used"
    using assms(2) f by (auto simp: upload_fits_def split: option.splits dest!: map_of_SomeD)
  ultimately show ?thesis using d f' within_le [OF i, of used'] by (simp add: books_def)
qed

lemma mirrored_at:
  assumes "mirrored ses m us" "nul_free t" "map_of us (sessionKey t u) = Some s"
  shows "up_Tenant s = t" "up_UploadID s = u" "\<exists>ms. ses (t, u) = Some ms \<and> same_upload s (sessionFromMetadata m ms)"
proof -
  from assms(1,3) obtain ms where s: "sessionKey t u = sessionKey (up_Tenant s) (up_UploadID s)"
    "ses (up_Tenant s, up_UploadID s) = Some ms" "same_upload s (sessionFromMetadata m ms)"
    by (fastforce simp: mirrored_def dest: map_of_SomeD)
  from s(2) assms(1) have "nul_free (up_Tenant s)" by (auto simp: mirrored_def)
  with s(1) sessionKey_inj [OF assms(2), of "up_Tenant s" u "up_UploadID s"]
  show "up_Tenant s = t" "up_UploadID s = u" by simp_all
  with s show "\<exists>ms. ses (t, u) = Some ms \<and> same_upload s (sessionFromMetadata m ms)" by auto
qed

lemma mirrored_stored:
  assumes "mirrored ses m us" "ses (t, u) = Some ms"
  shows "upload_fits m (sessionFromMetadata m ms)" "nul_free t" "safe_name u" "ses (t', u) \<noteq> None \<Longrightarrow> t' = t"
  using assms unfolding mirrored_def by blast+

lemma mirrored_add:
  assumes "mirrored ses m us" "ses (up_Tenant s, up_UploadID s) = Some ms"
    and "same_upload s (sessionFromMetadata m ms)" "k = sessionKey (up_Tenant s) (up_UploadID s)"
  shows "mirrored ses m (AList.update k s us)"
  using assms unfolding mirrored_def by (auto dest!: set_update_D)

lemma mirrored_drop: "mirrored ses m us \<Longrightarrow> mirrored ses m (AList.delete k us)"
  unfolding mirrored_def by (auto dest!: set_delete_D)

lemma mirrored_remove:
  assumes "mirrored ses m us"
  shows "mirrored (ses((t, u) := None)) m (AList.delete (sessionKey t u) us)"
proof -
  have "(up_Tenant s, up_UploadID s) \<noteq> (t, u)" if "k = sessionKey (up_Tenant s) (up_UploadID s)" "k \<noteq> sessionKey t u" for k s
    using that by auto
  with assms show ?thesis unfolding mirrored_def by (auto dest!: set_delete_D split: if_splits)
qed

lemma mirrored_replace:
  assumes "mirrored ses m us" "distinct (keys us)" "up_Tenant s = t" "up_UploadID s = u"
    and "upload_fits m (sessionFromMetadata m ms)" "same_upload s (sessionFromMetadata m ms)"
    and "nul_free t" "safe_name u" "\<And>t'. ses (t', u) \<noteq> None \<Longrightarrow> t' = t"
  shows "mirrored (ses((t, u) \<mapsto> ms)) m (AList.update (sessionKey t u) s us)"
proof -
  have other: "(up_Tenant x, up_UploadID x) \<noteq> (t, u)" if "(j, x) \<in> set us" "j \<noteq> sessionKey t u" for j x
    using that assms(1) by (fastforce simp: mirrored_def)
  have "\<forall>(k, x) \<in> set (AList.update (sessionKey t u) s us). k = sessionKey (up_Tenant x) (up_UploadID x)
        \<and> (\<exists>ms'. (ses((t, u) \<mapsto> ms)) (up_Tenant x, up_UploadID x) = Some ms' \<and> same_upload x (sessionFromMetadata m ms'))"
  proof (clarify, goal_cases)
    case (1 k x)
    show ?case
    proof (cases "k = sessionKey t u")
      case True
      with 1 assms(2) have "x = s" by (metis distinct_keys_update fun_upd_same map_of_in_set map_of_update option.inject)
      with True assms show ?thesis by simp
    next
      case False
      with set_update_D [OF 1] have "(k, x) \<in> set us" by auto
      with other [OF this False] assms(1) show ?thesis unfolding mirrored_def by auto
    qed
  qed
  moreover have "\<forall>t' u' ms'. (ses((t, u) \<mapsto> ms)) (t', u') = Some ms' \<longrightarrow>
      upload_fits m (sessionFromMetadata m ms') \<and> nul_free t' \<and> safe_name u'
      \<and> (\<forall>t''. (ses((t, u) \<mapsto> ms)) (t'', u') \<noteq> None \<longrightarrow> t'' = t')"
    using assms(1,5,7-9) unfolding mirrored_def by (auto split: if_splits)
  ultimately show ?thesis unfolding mirrored_def by blast
qed

lemma same_upload_refl [simp]: "same_upload s s"
  by (simp add: same_upload_def)

lemma same_upload_fields:
  assumes "same_upload s t"
  shows "up_UploadID s = up_UploadID t" "up_Tenant s = up_Tenant t" "up_Bucket s = up_Bucket t"
    "up_Key s = up_Key t" "up_Reserved s = up_Reserved t" "up_Directory s = up_Directory t"
    "up_Headers s = up_Headers t" "up_Parts s = up_Parts t"
  using assms by (cases s; cases t; simp add: same_upload_def)+

lemma same_upload_fits: "same_upload s t \<Longrightarrow> upload_fits m s = upload_fits m t"
  by (simp add: upload_fits_def part_sizes_def same_upload_fields)

lemma sessionFromMetadata_same:
  "same_session a b \<Longrightarrow> same_upload (sessionFromMetadata m a) (sessionFromMetadata m b)"
  by (simp add: same_session_def same_upload_def sessionFromMetadata_def)

lemma map_parts_update:
  "map (\<lambda>(n, p). (n, f p)) (AList.update k v ps) = AList.update k (f v) (map (\<lambda>(n, p). (n, f p)) ps)"
  by (induction ps) auto

section \<open>Spooling a part\<close>

lemma limit_reader_prefix: "\<exists>ys. content rd = content (limit_reader n rd) @ ys"
proof (induction n rd rule: limit_reader.induct)
  case (2 n bs st rs)
  consider "n = 0" | "n \<noteq> 0" "length bs \<le> n" | "n \<noteq> 0" "n < length bs" by linarith
  then show ?case
  proof cases
    case 2
    with "2.IH" show ?thesis by auto
  next
    case 3
    have "bs = take n bs @ drop n bs" by simp
    with 3 show ?thesis by (simp del: append_take_drop_id) (metis append.assoc append_take_drop_id)
  qed simp
qed simp

lemma limit_reader_under:
  "length (content (limit_reader n rd)) < n \<Longrightarrow>
     content (limit_reader n rd) = content rd \<and> reader_err (limit_reader n rd) = reader_err rd"
proof (induction n rd rule: limit_reader.induct)
  case (2 n bs st rs)
  then show ?case by (cases st) (auto split: if_splits)
qed simp

definition part_data :: "'m manager \<Rightarrow> reader \<Rightarrow> reader" where
  "part_data m rd = (if 0 < mg_maxPartSize m then limit_reader (nat (add64 (mg_maxPartSize m) 1)) rd else rd)"

definition part_etag :: "'m manager \<Rightarrow> bytes \<Rightarrow> string" where
  "part_etag m d = [CHR 0x22] @ hex_encode (mg_md5 m d) @ [CHR 0x22]"

lemma part_data_length: "length (content (part_data m rd)) \<le> length (content rd)"
proof -
  obtain ys where "content rd = content (limit_reader (nat (add64 (mg_maxPartSize m) 1)) rd) @ ys"
    using limit_reader_prefix by blast
  from arg_cong [OF this, of length] show ?thesis by (simp add: part_data_def)
qed

text \<open>Within the limit nothing of the body is lost.\<close>

lemma part_data_whole:
  assumes "mg_maxPartSize m < max_int64"
    and "0 < mg_maxPartSize m \<longrightarrow> int (length (content (part_data m rd))) \<le> mg_maxPartSize m"
  shows "content (part_data m rd) = content rd" "reader_err (part_data m rd) = reader_err rd"
proof -
  have "content (part_data m rd) = content rd \<and> reader_err (part_data m rd) = reader_err rd"
  proof (cases "0 < mg_maxPartSize m")
    case True
    with assms(1) have "add64 (mg_maxPartSize m) 1 = mg_maxPartSize m + 1"
      by (intro add64_id) (simp add: in_int64_def min_int64_def)
    with True assms(2) limit_reader_under [of "nat (mg_maxPartSize m + 1)" rd] show ?thesis
      by (simp add: part_data_def)
  qed (simp add: part_data_def)
  then show "content (part_data m rd) = content rd" "reader_err (part_data m rd) = reader_err rd" by simp_all
qed

lemma try_remove_other: "p \<noteq> q \<Longrightarrow> try_remove e i p fs q = fs q"
  by (simp add: try_remove_def split: option.splits)

lemma spoolPart_Inr:
  assumes "spoolPart m e s n rd used fs = (Inr info, fs')"
  shows "info = \<lparr>pi_Number = n, pi_Size = int (length (content (part_data m rd))),
      pi_ETag = part_etag m (content (part_data m rd)), pi_Path = partPath s n\<rparr>"
    "fs' = fs(partTmp s n := Some (content (part_data m rd)))" "reader_err (part_data m rd) = None"
    "0 < mg_maxPartSize m \<longrightarrow> int (length (content (part_data m rd))) \<le> mg_maxPartSize m"
  using assms
  by (auto simp: spoolPart_def Let_def part_data_def part_etag_def split: option.splits if_splits)

lemma spoolPart_other:
  assumes "spoolPart m e s n rd used fs = (r, fs')" "p \<noteq> partTmp s n"
  shows "fs' p = fs p"
  using assms
  by (auto simp: spoolPart_def Let_def try_remove_other split: option.splits if_splits)

section \<open>Part files\<close>

text \<open>Every part the store lists has its file, of the size and with the checksum it was listed with.\<close>

definition part_intact :: "'m manager \<Rightarrow> file_tree \<Rightarrow> string list \<Rightarrow> int \<Rightarrow> part_info \<Rightarrow> bool" where
  "part_intact m fs dir n p \<longleftrightarrow> 0 < n \<and> pi_Number p = n \<and> pi_Path p = dir @ [''part-'' @ pad8 n]
     \<and> (\<exists>d. fs (dir @ [''part-'' @ pad8 n]) = Some d \<and> pi_Size p = int (length d) \<and> pi_ETag p = part_etag m d)"

definition intact :: "(string \<times> string \<Rightarrow> mp_session option) \<Rightarrow> 'm manager \<Rightarrow> file_tree \<Rightarrow> bool" where
  "intact ses m fs \<longleftrightarrow> (\<forall>t u ms n p. ses (t, u) = Some ms \<longrightarrow> (n, p) \<in> set (up_Parts (sessionFromMetadata m ms)) \<longrightarrow>
     part_intact m fs (sessionDirectory m t u) n p)"

text \<open>Calls after which the files still match: contexts report their own errors only, and a failed
  \<open>PutPart\<close> has not replaced the file of an earlier version of the part.\<close>

text \<open>The bytes stored for a part.\<close>

definition part_bytes :: "'m manager \<Rightarrow> 'm mp_world \<Rightarrow> string \<Rightarrow> string \<Rightarrow> int \<Rightarrow> bytes" where
  "part_bytes m w t u n = the (mw_files w (sessionDirectory m t u @ [''part-'' @ pad8 n]))"

definition call_clean :: "'m manager \<Rightarrow> env \<Rightarrow> mp_call \<Rightarrow> 'm mp_world \<Rightarrow> bool" where
  "call_clean m e c w \<longleftrightarrow> ctx_plain e \<and>
     (case c of
        PutCall t u n rd \<Rightarrow> (case PutPart m e t u n rd w of
            (Inr info, w') \<Rightarrow> True
          | (Inl x, w') \<Rightarrow> (let path = sessionDirectory m t u @ [''part-'' @ pad8 n]
              in mw_files w' path = mw_files w path))
      | _ \<Rightarrow> True)"

fun history_clean :: "'m manager \<Rightarrow> (env \<times> mp_call) list \<Rightarrow> 'm mp_world \<Rightarrow> bool" where
  "history_clean m [] w = True"
| "history_clean m ((e, c) # cs) w = (call_clean m e c w \<and> history_clean m cs (mp_run m e c w))"

lemma digits_value_zeros: "digits_value (replicate k CHR ''0'' @ d) = digits_value d"
  by (induction k) (simp_all add: digits_value_def)

lemma pad8_value: "0 \<le> a \<Longrightarrow> digits_value (pad8 a) = nat a"
  by (simp add: pad8_def Let_def digits_value_zeros format_int_def)

lemma pad8_inj: "0 \<le> a \<Longrightarrow> 0 \<le> b \<Longrightarrow> pad8 a = pad8 b \<Longrightarrow> a = b"
  using pad8_value [of a] pad8_value [of b] by simp

lemma pad8_digits: "0 \<le> a \<Longrightarrow> c \<in> set (pad8 a) \<Longrightarrow> is_digit (of_char c)"
  by (auto simp: pad8_def Let_def format_int_def is_digit_def dest!: nat_digits_digits)

lemma pad8_no_dot: "0 \<le> a \<Longrightarrow> pad8 a \<noteq> x @ ''.tmp''"
  using pad8_digits [of a "CHR ''.''"] by (auto simp: is_digit_def)

lemma directory_apart:
  assumes "safe_name u" "safe_name u'" "u \<noteq> u'"
  shows "sessionDirectory m t u @ [x] \<noteq> sessionDirectory m t' u' @ [y]"
    and "\<not> below (sessionDirectory m t u) (sessionDirectory m t' u' @ [x])"
  using assms by (auto simp: sessionDirectory_eq below_def)

lemma intact_mono:
  assumes "intact ses m fs" "\<And>t u ms. ses' (t, u) = Some ms \<Longrightarrow>
      up_Parts (sessionFromMetadata m ms) = [] \<or> ses (t, u) = Some ms
        \<and> (\<forall>n > 0. fs' (sessionDirectory m t u @ [''part-'' @ pad8 n]) = fs (sessionDirectory m t u @ [''part-'' @ pad8 n]))"
  shows "intact ses' m fs'"
  unfolding intact_def
proof (intro allI impI)
  fix t u ms n p
  assume a: "ses' (t, u) = Some ms" "(n, p) \<in> set (up_Parts (sessionFromMetadata m ms))"
  from assms(2) [OF a(1)] a(2) have b: "ses (t, u) = Some ms"
    "0 < n \<Longrightarrow> fs' (sessionDirectory m t u @ [''part-'' @ pad8 n]) = fs (sessionDirectory m t u @ [''part-'' @ pad8 n])"
    by auto
  from assms(1) b(1) a(2) have i: "part_intact m fs (sessionDirectory m t u) n p" by (auto simp: intact_def)
  then have "0 < n" by (simp only: part_intact_def)
  with i b(2) show "part_intact m fs' (sessionDirectory m t u) n p" by (simp add: part_intact_def)
qed

section \<open>Every operation keeps the invariant\<close>

text \<open>A manager that keeps its sessions in a store that meets the contract and counts what it
  reserves.\<close>

locale multipart_manager = session_store mops sinv sessions
  for mops :: "'m store_ops" and sinv :: "'m \<Rightarrow> bool"
    and sessions :: "'m \<Rightarrow> string \<times> string \<Rightarrow> mp_session option" +
  fixes m :: "'m manager" and cap :: int
  assumes the_store: "mg_store m = Some mops"
    and the_counter: "mg_counter m = Some cap"
begin

abbreviation ok :: "'m mp_world \<Rightarrow> bool" where
  "ok \<equiv> mp_ok sinv sessions m"

lemma reserve_ok:
  assumes "books m us used" "in_int64 bytes" "reserveBytes m e bytes used = (r, u)"
  shows "case r of Some x \<Rightarrow> u = used | None \<Rightarrow> u = used + max 0 bytes \<and> within m u"
  using reserveBytes_spec [OF the_counter books_nonneg [OF assms(1)] books_int64 [OF assms(1)] assms(2,3)]
    assms(1) the_counter
  by (cases "0 < bytes") (auto simp: books_def within_def split: option.splits)

lemma release_ok:
  "in_int64 used \<Longrightarrow> in_int64 bytes \<Longrightarrow> bytes \<le> used \<Longrightarrow> 0 \<le> bytes \<Longrightarrow> releaseBytes m bytes used = used - bytes"
  by (rule releaseBytes_spec [OF the_counter])

lemma mpSession_ok:
  assumes "ok w" "nul_free t" "mpSession m e t u w = (r, w')"
  shows "ok w' \<and> mw_files w' = mw_files w \<and> mw_meta w' = mw_meta w
    \<and> (\<forall>s. r = Inr s \<longrightarrow> map_of (mw_uploads w') (sessionKey t u) = Some s)"
proof (cases "ctx_poll e 0 = None \<and> map_of (mw_uploads w) (sessionKey t u) = None")
  case False
  with assms show ?thesis by (auto simp: mpSession_def split: option.splits)
next
  case True
  show ?thesis
  proof (cases "GetMultipartSession mops (call e 1) t u (mw_meta w)")
    case (Inl x)
    with True assms the_store show ?thesis by (auto simp: mpSession_def)
  next
    case (Inr ms)
    define s where "s = sessionFromMetadata m ms"
    from assms(1) have si: "sinv (mw_meta w)" and bk: "books m (mw_uploads w) (mw_used w)"
      and mi: "mirrored (sessions (mw_meta w)) m (mw_uploads w)" by (auto simp: mp_ok_def)
    from mp_get [OF si Inr] have st: "sessions (mw_meta w) (t, u) = Some ms" .
    note fits = mirrored_stored(1) [OF mi st, folded s_def]
    from mp_named [OF si st] have id: "up_Tenant s = t" "up_UploadID s = u"
      by (simp_all add: s_def sessionFromMetadata_def)
    obtain r1 u1 where res: "reserveBytes m (call e 2) (up_Reserved s) (mw_used w) = (r1, u1)"
      by fastforce
    have i: "in_int64 (up_Reserved s)" "0 \<le> up_Reserved s" using fits by (auto simp: upload_fits_def)
    note ro = reserve_ok [OF bk i(1) res]
    show ?thesis
    proof (cases r1)
      case None
      with ro i have u1: "u1 = mw_used w + up_Reserved s" "within m u1" by auto
      from True Inr res None assms(3) the_store
      have w': "r = Inr s" "w' = w\<lparr>mw_used := u1, mw_uploads := AList.update (sessionKey t u) s (mw_uploads w)\<rparr>"
        by (simp_all add: mpSession_def s_def Let_def)
      have "books m (mw_uploads w') (mw_used w')"
        using books_update [OF bk fits u1(2)] True u1(1) by (simp add: w')
      moreover have "mirrored (sessions (mw_meta w)) m (mw_uploads w')"
        using mirrored_add [OF mi, of s ms] id st by (simp add: w' s_def)
      ultimately show ?thesis using si w' by (simp add: mp_ok_def)
    next
      case (Some x)
      with ro True Inr res assms the_store show ?thesis by (auto simp: mpSession_def s_def)
    qed
  qed
qed

lemma deleteSession_ok:
  assumes "ok w" "deleteSession m e s w = (r, w')"
  shows "ok w'"
proof (cases "ctx_poll e 0")
  case (Some x)
  with assms show ?thesis by (simp add: deleteSession_def)
next
  case None
  from assms(1) have si: "sinv (mw_meta w)" and bk: "books m (mw_uploads w) (mw_used w)"
    and mi: "mirrored (sessions (mw_meta w)) m (mw_uploads w)" by (auto simp: mp_ok_def)
  define t where "t = up_Tenant s"
  define u where "u = up_UploadID s"
  define k where "k = sessionKey t u"
  obtain rd meta where d: "DeleteMultipartSession mops (call e 1) t u (mw_meta w) = (rd, meta)" by fastforce
  note law = mp_delete [OF si d]
  have si': "sinv meta" using law by simp
  show ?thesis
  proof (cases "case rd of None \<Rightarrow> False | Some x \<Rightarrow> \<not> errors_is x ErrNotFound")
    case True
    with None d assms(2) the_store have "w' = w\<lparr>mw_meta := meta\<rparr>"
      by (simp add: deleteSession_def t_def u_def split: option.splits)
    with True law bk mi show ?thesis by (auto simp: mp_ok_def split: option.splits)
  next
    case False
    define used where "used = (case map_of (mw_uploads w) k of None \<Rightarrow> mw_used w
      | Some l \<Rightarrow> releaseBytes m (up_Reserved l) (mw_used w))"
    obtain r2 fs where rm: "remove_all (call e 2) (up_Directory s) (mw_files w) = (r2, fs)" by fastforce
    from False None d rm assms(2) the_store have w': "mw_meta w' = meta"
      "mw_uploads w' = AList.delete k (mw_uploads w)" "mw_used w' = used"
      by (auto simp: deleteSession_def Let_def t_def u_def k_def used_def)
    have "used = mw_used w - (case map_of (mw_uploads w) k of None \<Rightarrow> 0 | Some s0 \<Rightarrow> up_Reserved s0)"
    proof (cases "map_of (mw_uploads w) k")
      case (Some l)
      with books_fits [OF bk Some] books_le [OF bk Some] bk release_ok [of "mw_used w" "up_Reserved l"]
      show ?thesis by (auto simp: used_def upload_fits_def dest: books_int64)
    qed (simp add: used_def)
    then have "books m (mw_uploads w') (mw_used w')" unfolding w' by (rule books_delete [OF bk])
    moreover have "mirrored (sessions meta) m (mw_uploads w')"
    proof (cases rd)
      case None
      with law have "sessions meta = (sessions (mw_meta w))((t, u) := None)" by simp
      with mirrored_remove [OF mi] show ?thesis by (simp add: w' k_def)
    next
      case (Some x)
      with law mirrored_drop [OF mi] show ?thesis by (simp add: w')
    qed
    ultimately show ?thesis using si' w' by (simp add: mp_ok_def)
  qed
qed

lemma create_ok:
  assumes "ok w" "nul_free t" "in_int64 n" "\<forall>t'. sessions (mw_meta w) (t', randomUploadID (call e 4)) = None"
    and "mpCreate m e t b k n hs w = (r, w')"
  shows "ok w'"
proof -
  from assms(1) have si: "sinv (mw_meta w)" and bk: "books m (mw_uploads w) (mw_used w)"
    and mi: "mirrored (sessions (mw_meta w)) m (mw_uploads w)" by (auto simp: mp_ok_def)
  define size where "size = (if n < 0 then 0 else n)"
  have i: "in_int64 size" "0 \<le> size" using assms(3) by (auto simp: size_def in_int64_def min_int64_def max_int64_def)
  obtain r1 u where res: "(if 0 < size then reserveBytes m (call e 3) size (mw_used w) else (None, mw_used w)) = (r1, u)"
    by fastforce
  have ro: "case r1 of Some x \<Rightarrow> u = mw_used w | None \<Rightarrow> u = mw_used w + size \<and> within m u"
    using res reserve_ok [OF bk i(1)] bk i(2) by (fastforce simp: books_def split: if_splits option.splits)
  note unchanged = si bk mi
  show ?thesis
  proof (cases "ctx_poll e 0 = None \<and> \<not> (0 < mg_maxUploadSize m \<and> mg_maxUploadSize m < size) \<and> syscall e 1 = None \<and> r1 = None")
    case False
    then have "mw_uploads w' = mw_uploads w \<and> mw_used w' = mw_used w \<and> mw_meta w' = mw_meta w"
      using assms(5) ro res
      by (auto simp: mpCreate_def Let_def size_def [symmetric] checkDisk_def split: option.splits if_splits)
    with unchanged show ?thesis by (simp add: mp_ok_def)
  next
    case go: True
    with ro have u: "u = mw_used w + size" "within m u" by auto
    have undo: "releaseBytes m size u = mw_used w"
      using release_ok [OF within_int64 [OF u(2)] i(1)] i(2) books_nonneg [OF bk] u(1) by simp
    define id where "id = randomUploadID (call e 4)"
    define s where "s = \<lparr>up_UploadID = id, up_Tenant = t, up_Bucket = b, up_Key = k, up_Reserved = size,
      up_CreatedAt = now e 6, up_Directory = sessionDirectory m t id, up_Headers = firstHeaderMap hs, up_Parts = []\<rparr>"
    define ms where "ms = \<lparr>ms_upload_id = id, ms_tenant = t, ms_bucket = b, ms_key = k,
      ms_headers = firstHeaderMap hs, ms_reserved = size, ms_created = now e 6, ms_updated = now e 6, ms_parts = []\<rparr>"
    obtain rs meta where cr: "CreateMultipartSession mops (call e 7) ms (mw_meta w) = (rs, meta)" by fastforce
    note law = mp_create [OF si cr]
    consider "syscall e 5 \<noteq> None" | "syscall e 5 = None" "rs \<noteq> None" | "syscall e 5 = None" "rs = None"
      by blast
    then show ?thesis
    proof cases
      case 1
      then have "w' = w\<lparr>mw_used := mw_used w\<rparr>"
        using assms(5) go res undo
        by (auto simp: mpCreate_def Let_def size_def [symmetric] checkDisk_def)
      with assms(1) show ?thesis by simp
    next
      case 2
      then have "mw_uploads w' = mw_uploads w \<and> mw_used w' = mw_used w \<and> mw_meta w' = meta"
        using assms(5) go res undo cr the_store
        by (auto simp: mpCreate_def Let_def size_def [symmetric] checkDisk_def ms_def id_def)
      with 2 law unchanged show ?thesis by (auto simp: mp_ok_def split: option.splits)
    next
      case 3
      then have w': "mw_uploads w' = AList.update (sessionKey t id) s (mw_uploads w)" "mw_used w' = u" "mw_meta w' = meta"
        using assms(5) go res cr the_store
        by (auto simp: mpCreate_def Let_def size_def [symmetric] checkDisk_def ms_def id_def s_def)
      have "map_of (mw_uploads w) (sessionKey t id) = None"
        using mirrored_at(3) [OF mi assms(2), of id] assms(4)
        by (cases "map_of (mw_uploads w) (sessionKey t id)") (auto simp: id_def)
      moreover have fits: "upload_fits m s"
        using i go by (auto simp: upload_fits_def s_def part_sizes_def)
      ultimately have "books m (mw_uploads w') (mw_used w')"
        using books_update [OF bk fits u(2)] u(1) by (simp add: w' s_def)
      moreover from 3 law obtain ms' where ms': "same_session ms ms'" "sinv meta"
        "sessions meta = (sessions (mw_meta w))((t, id) \<mapsto> ms')" by (auto simp: ms_def)
      have "same_upload s (sessionFromMetadata m ms)"
        by (simp add: s_def ms_def sessionFromMetadata_def same_upload_def)
      with sessionFromMetadata_same [OF ms'(1), of m] have same: "same_upload s (sessionFromMetadata m ms')"
        by (simp add: same_upload_def)
      have "mirrored (sessions meta) m (mw_uploads w')"
        unfolding w' ms'(3)
        by (rule mirrored_replace [OF mi])
          (use bk fits same same_upload_fits [OF same] assms(2,4) randomUploadID_safe in
            \<open>auto simp: books_def s_def id_def\<close>)
      ultimately show ?thesis using ms' w' by (simp add: mp_ok_def)
    qed
  qed
qed

lemma reserveForPart_Inr:
  assumes "ok w" "nul_free t" "map_of (mw_uploads w) (sessionKey t u) = Some s"
    and "0 \<le> pi_Size info" "up_Reserved s + pi_Size info \<le> max_int64"
    and "reserveForPart m e t u n info w = (Inr r, w')"
  defines "tot \<equiv> pi_Size info + other_sizes n (up_Parts s)"
  defines "s' \<equiv> s\<lparr>up_Parts := AList.update n info (up_Parts s), up_Reserved := tot\<rparr>"
  shows "w' = w\<lparr>mw_used := mw_used w + max 0 (tot - up_Reserved s),
      mw_uploads := AList.update (sessionKey t u) s' (mw_uploads w)\<rparr>"
    "within m (mw_used w + max 0 (tot - up_Reserved s))"
    "pr_delta r = tot - up_Reserved s" "pr_reserved r = tot" "pr_previousReserved r = up_Reserved s"
    "pr_hadPrevious r = (map_of (up_Parts s) n \<noteq> None)"
    "map_of (up_Parts s) n = Some p \<Longrightarrow> pr_previous r = p"
    "0 < mg_maxUploadSize m \<longrightarrow> tot \<le> mg_maxUploadSize m" "0 \<le> tot" "in_int64 tot"
proof -
  from assms(1) have bk: "books m (mw_uploads w) (mw_used w)" by (simp add: mp_ok_def)
  note fits = books_fits [OF bk assms(3)]
  have pos: "\<forall>(n, p) \<in> set (up_Parts s). 0 \<le> pi_Size p"
    using fits by (auto simp: upload_fits_def part_sizes_def)
  have "other_sizes n (up_Parts s) \<le> up_Reserved s" "0 \<le> other_sizes n (up_Parts s)"
    using other_sizes_le [OF pos, of n] fits
    by (cases "up_Parts s = []"; simp add: other_sizes_def upload_fits_def part_sizes_def)+
  then have tot: "tot \<le> max_int64" "0 \<le> tot" using assms(4,5) by (simp_all add: tot_def)
  then show "0 \<le> tot" and i: "in_int64 tot" by (simp_all add: in_int64_def min_int64_def)
  have add: "addOtherParts n (go_range (range_pick e [1]) (up_Parts s)) (pi_Size info) = tot"
    using addOtherParts_exact [of "go_range (range_pick e [1]) (up_Parts s)" "pi_Size info" n] pos assms(4) tot
    by (simp add: tot_def)
  have sub: "sub64 tot (up_Reserved s) = tot - up_Reserved s"
    using i fits tot by (intro sub64_nonneg) (simp_all add: upload_fits_def)
  obtain r1 u1 where res: "(if 0 < tot - up_Reserved s then reserveBytes m (call e 2) (tot - up_Reserved s) (mw_used w)
      else (None, mw_used w)) = (r1, u1)" by fastforce
  have di: "in_int64 (tot - up_Reserved s)" using sub by (metis sub64_range)
  from assms(3,6) add sub res have r1: "r1 = None" and
    w': "w' = w\<lparr>mw_used := u1, mw_uploads := AList.update (sessionKey t u) s' (mw_uploads w)\<rparr>" and
    r: "r = \<lparr>pr_delta = tot - up_Reserved s, pr_reserved = tot, pr_hadPrevious = map_of (up_Parts s) n \<noteq> None,
       pr_previous = (case map_of (up_Parts s) n of None \<Rightarrow> empty_part | Some p \<Rightarrow> p),
       pr_previousReserved = up_Reserved s\<rparr>"
    and lim: "0 < mg_maxUploadSize m \<longrightarrow> tot \<le> mg_maxUploadSize m"
    by (auto simp: reserveForPart_def Let_def s'_def split: option.splits if_splits)
  have u1: "u1 = mw_used w + max 0 (tot - up_Reserved s) \<and> within m u1"
    using res r1 reserve_ok [OF bk di] bk by (fastforce simp: books_def split: if_splits)
  then show "w' = w\<lparr>mw_used := mw_used w + max 0 (tot - up_Reserved s),
      mw_uploads := AList.update (sessionKey t u) s' (mw_uploads w)\<rparr>"
    "within m (mw_used w + max 0 (tot - up_Reserved s))" using w' by auto
  show "pr_delta r = tot - up_Reserved s" "pr_reserved r = tot" "pr_previousReserved r = up_Reserved s"
    "pr_hadPrevious r = (map_of (up_Parts s) n \<noteq> None)"
    "map_of (up_Parts s) n = Some p \<Longrightarrow> pr_previous r = p"
    "0 < mg_maxUploadSize m \<longrightarrow> tot \<le> mg_maxUploadSize m" using r lim by simp_all
qed

lemma reserveForPart_Inl:
  assumes "ok w" "nul_free t" "0 \<le> pi_Size info"
    and "\<And>s. map_of (mw_uploads w) (sessionKey t u) = Some s \<Longrightarrow> up_Reserved s + pi_Size info \<le> max_int64"
    and "reserveForPart m e t u n info w = (Inl x, w')"
  shows "w' = w"
proof (cases "map_of (mw_uploads w) (sessionKey t u)")
  case None
  with assms(5) show ?thesis by (simp add: reserveForPart_def split: option.splits)
next
  case (Some s)
  from assms(1) have bk: "books m (mw_uploads w) (mw_used w)" by (simp add: mp_ok_def)
  define delta where "delta = sub64 (addOtherParts n (go_range (range_pick e [1]) (up_Parts s)) (pi_Size info)) (up_Reserved s)"
  obtain r1 u1 where res: "reserveBytes m (call e 2) delta (mw_used w) = (r1, u1)" by fastforce
  from reserve_ok [OF bk _ res] have "r1 \<noteq> None \<longrightarrow> u1 = mw_used w" by (auto simp: delta_def)
  with assms(5) Some res show ?thesis
    by (auto simp: reserveForPart_def Let_def delta_def [symmetric] simp del: One_nat_def
        split: option.splits if_splits)
qed

text \<open>Undoing a reservation restores the sessions and the counter.\<close>

lemma rollback_restores:
  assumes "ok w" "nul_free t" "map_of (mw_uploads w) (sessionKey t u) = Some s"
    and "0 \<le> pi_Size info" "up_Reserved s + pi_Size info \<le> max_int64"
    and "reserveForPart m e t u n info w = (Inr r, w')"
    and "mw_uploads w2 = mw_uploads w'" "mw_used w2 = mw_used w'"
  shows "rollbackReservation m t u n r w2 = w2\<lparr>mw_uploads := mw_uploads w, mw_used := mw_used w\<rparr>"
proof -
  from assms(1) have bk: "books m (mw_uploads w) (mw_used w)" by (simp add: mp_ok_def)
  define tot where "tot = pi_Size info + other_sizes n (up_Parts s)"
  note R = reserveForPart_Inr [OF assms(1-6), folded tot_def]
  define k where "k = sessionKey t u"
  have parts: "(if pr_hadPrevious r then AList.update n (pr_previous r) (AList.update n info (up_Parts s))
      else AList.delete n (AList.update n info (up_Parts s))) = up_Parts s"
    using R(6,7) by (cases "map_of (up_Parts s) n") (auto simp: update_triv delete_added)
  have restored: "AList.update k s (mw_uploads w) = mw_uploads w"
    using assms(3) by (simp add: update_triv k_def)
  have "releaseBytes m (tot - up_Reserved s) (mw_used w + (tot - up_Reserved s)) = mw_used w"
    if "0 < tot - up_Reserved s"
    using release_ok [of "mw_used w + (tot - up_Reserved s)" "tot - up_Reserved s"] that within_int64 [OF R(2)] R(9,10)
      books_nonneg [OF bk] books_fits [OF bk assms(3)]
    by (simp add: upload_fits_def in_int64_def min_int64_def)
  with R(1,3,5) parts restored assms(7,8) show ?thesis
    by (auto simp: rollbackReservation_def Let_def k_def [symmetric])
qed

lemma ok_files: "ok (w\<lparr>mw_files := fs\<rparr>) = ok w"
  by (simp add: mp_ok_def)

lemma stored_reserved:
  assumes "ok w" "nul_free t" "map_of (mw_uploads w) (sessionKey t u) = Some s"
  shows "\<exists>ms. sessions (mw_meta w) (t, u) = Some ms \<and> ms_reserved ms = up_Reserved s
    \<and> up_Parts s = map (\<lambda>(n, p). (n, partFromMetadata p)) (ms_parts ms)
    \<and> up_Directory s = sessionDirectory m t u \<and> safe_name u"
proof -
  from assms(1) have si: "sinv (mw_meta w)" and mi: "mirrored (sessions (mw_meta w)) m (mw_uploads w)"
    by (auto simp: mp_ok_def)
  from mirrored_at(3) [OF mi assms(2,3)] obtain ms where ms: "sessions (mw_meta w) (t, u) = Some ms"
    "same_upload s (sessionFromMetadata m ms)" by blast
  from mp_named [OF si ms(1)] same_upload_fields [OF ms(2)] mirrored_stored(3) [OF mi ms(1)] ms(1)
  show ?thesis by (auto simp: sessionFromMetadata_def)
qed

text \<open>What committing a reserved part leaves behind.\<close>

lemma commitPart_ok:
  assumes "ok w" "nul_free t" "map_of (mw_uploads w) (sessionKey t u) = Some s"
    and "0 \<le> pi_Size info" "up_Reserved s + pi_Size info \<le> max_int64" "pi_Number info = n"
    and "0 < mg_maxPartSize m \<longrightarrow> pi_Size info \<le> mg_maxPartSize m"
    and "reserveForPart m e' t u n info w = (Inr rv, w1)"
    and "commitPart m e t u s n info rv w1 = (r, w')"
  shows "ok w' \<and> (case r of
      Inl x \<Rightarrow> mw_uploads w' = mw_uploads w \<and> mw_used w' = mw_used w \<and> sessions (mw_meta w') = sessions (mw_meta w)
    | Inr i \<Rightarrow> i = info \<and> map_of (mw_uploads w') (sessionKey t u)
          = Some (s\<lparr>up_Parts := AList.update n info (up_Parts s),
              up_Reserved := pi_Size info + other_sizes n (up_Parts s)\<rparr>)
        \<and> mw_files w' = (mw_files w)(partTmp s n := None, partPath s n := mw_files w (partTmp s n))
        \<and> (\<exists>ms ms'. sessions (mw_meta w) (t, u) = Some ms
            \<and> sessions (mw_meta w') = (sessions (mw_meta w))((t, u) \<mapsto> ms')
            \<and> up_Parts (sessionFromMetadata m ms') = AList.update n info (up_Parts s)))"
proof -
  from assms(1) have si: "sinv (mw_meta w)" and bk: "books m (mw_uploads w) (mw_used w)"
    and mi: "mirrored (sessions (mw_meta w)) m (mw_uploads w)" by (auto simp: mp_ok_def)
  define tot where "tot = pi_Size info + other_sizes n (up_Parts s)"
  define s' where "s' = s\<lparr>up_Parts := AList.update n info (up_Parts s), up_Reserved := tot\<rparr>"
  note R = reserveForPart_Inr [OF assms(1-5,8), folded tot_def, folded s'_def]
  have roll: "mw_uploads w2 = mw_uploads w1 \<Longrightarrow> mw_used w2 = mw_used w1 \<Longrightarrow>
      rollbackReservation m t u n rv w2 = w2\<lparr>mw_uploads := mw_uploads w, mw_used := mw_used w\<rparr>" for w2
    by (rule rollback_restores [OF assms(1-5,8)])
  have w1: "mw_meta w1 = mw_meta w" "mw_files w1 = mw_files w" by (simp_all add: R(1))
  show ?thesis
  proof (cases "syscall e 0")
    case (Some x)
    with assms(9) roll have "r = Inl (ErrWrap ''commit part spool file'' x)"
      "w' = w1\<lparr>mw_files := try_remove e 1 (partTmp s n) (mw_files w1), mw_uploads := mw_uploads w, mw_used := mw_used w\<rparr>"
      by (auto simp: commitPart_def Let_def)
    with assms(1) w1 show ?thesis by (simp add: mp_ok_def)
  next
    case None
    define pt where "pt = \<lparr>pt_number = pi_Number info, pt_size = pi_Size info, pt_etag = pi_ETag info,
      pt_path = pi_Path info, pt_created = now e 3\<rparr>"
    obtain rs meta where sv: "SaveMultipartPart mops (call e 2) t u pt (pr_reserved rv) (mw_meta w) = (rs, meta)"
      by fastforce
    note law = mp_save [OF si sv]
    show ?thesis
    proof (cases rs)
      case (Some x)
      with None assms(9) roll sv the_store have "r = Inl x" "mw_uploads w' = mw_uploads w"
        "mw_used w' = mw_used w" "mw_meta w' = meta"
        by (auto simp: commitPart_def Let_def pt_def w1)
      with Some law bk mi show ?thesis by (auto simp: mp_ok_def)
    next
      case ok: None
      define fs where "fs = (mw_files w)(partTmp s n := None, partPath s n := mw_files w (partTmp s n))"
      define w2 where "w2 = w1\<lparr>mw_meta := meta, mw_files := fs\<rparr>"
      from None ok assms(9) sv the_store have r: "r = Inr info" and w': "w' = finishReservation m rv w2"
        by (auto simp: commitPart_def Let_def pt_def w1 w2_def fs_def)
      have bounds: "0 \<le> up_Reserved s" "up_Reserved s \<le> mw_used w" "in_int64 (up_Reserved s)" "in_int64 (mw_used w)"
        using books_fits [OF bk assms(3)] books_le [OF bk assms(3)] books_int64 [OF bk] by (auto simp: upload_fits_def)
      have used: "mw_used w' = mw_used w - up_Reserved s + tot \<and> within m (mw_used w - up_Reserved s + tot)"
      proof (cases "tot < up_Reserved s")
        case True
        have "sub64 0 (tot - up_Reserved s) = up_Reserved s - tot"
          using True R(9) bounds by (subst sub64_id) (simp_all add: in_int64_def min_int64_def)
        moreover have "releaseBytes m (up_Reserved s - tot) (mw_used w) = mw_used w - (up_Reserved s - tot)"
          using True R(9) bounds by (intro release_ok) (simp_all add: in_int64_def min_int64_def)
        moreover have "within m (mw_used w - (up_Reserved s - tot))"
          by (rule within_le [OF books_within [OF bk]]) (use True R(9) bounds in linarith)+
        moreover have "mw_used w - (up_Reserved s - tot) = mw_used w - up_Reserved s + tot" by simp
        ultimately show ?thesis using True R(1,3) by (simp add: w' w2_def finishReservation_def)
      next
        case False
        then have eq: "mw_used w + max 0 (tot - up_Reserved s) = mw_used w - up_Reserved s + tot" by simp
        from False R(1,3) R(2) show ?thesis unfolding eq by (simp add: w' w2_def finishReservation_def)
      qed
      have rest: "mw_uploads w' = AList.update (sessionKey t u) s' (mw_uploads w)" "mw_meta w' = meta" "mw_files w' = fs"
        using R(1) by (auto simp: w' w2_def finishReservation_def)
      have d: "distinct (keys (up_Parts s))" and fits: "upload_fits m s"
        using books_fits [OF bk assms(3)] by (auto simp: upload_fits_def)
      have sizes: "part_sizes s' = map (\<lambda>(n, p). pi_Size p) (AList.update n info (up_Parts s))"
        by (simp add: part_sizes_def s'_def)
      have sum: "sum_list (part_sizes s') = tot" by (simp add: sizes sum_sizes_update [OF d] tot_def)
      have fits': "upload_fits m s'"
      proof -
        have "0 \<le> z \<and> (0 < mg_maxPartSize m \<longrightarrow> z \<le> mg_maxPartSize m)" if "z \<in> set (part_sizes s')" for z
        proof -
          from that obtain a b where "(a, b) \<in> set (AList.update n info (up_Parts s))" "z = pi_Size b"
            unfolding sizes by auto
          with set_update_D [OF this(1)] have "z = pi_Size info \<or> z \<in> set (part_sizes s)"
            by (force simp: part_sizes_def)
          with fits assms(4,7) show ?thesis by (auto simp: upload_fits_def)
        qed
        with R(8-10) d sum show ?thesis by (simp add: upload_fits_def) (simp add: s'_def)
      qed
      have "books m (mw_uploads w') (mw_used w')"
        unfolding rest using books_update [OF bk fits', of "mw_used w'" "sessionKey t u"] used assms(3) by (simp add: s'_def)
      moreover from law ok obtain ms pt' time where st: "sessions (mw_meta w) (t, u) = Some ms" "same_part pt pt'"
        "sessions meta = (sessions (mw_meta w))((t, u) \<mapsto> ms\<lparr>ms_parts :=
           AList.update n pt' (ms_parts ms), ms_reserved := tot, ms_updated := time\<rparr>)" "sinv meta"
        using R(4) assms(6) by (auto simp: pt_def)
      define ms' where "ms' = ms\<lparr>ms_parts := AList.update n pt' (ms_parts ms), ms_reserved := tot, ms_updated := time\<rparr>"
      have pf: "partFromMetadata pt' = info"
        using st(2) by (simp add: same_part_def pt_def partFromMetadata_def)
      from mirrored_at [OF mi assms(2,3)] st(1) have same: "same_upload s (sessionFromMetadata m ms)"
        and id: "up_Tenant s = t" "up_UploadID s = u" by auto
      have parts: "up_Parts (sessionFromMetadata m ms') = AList.update n info (up_Parts s)"
        using same_upload_fields(8) [OF same] pf by (simp add: sessionFromMetadata_def ms'_def map_parts_update)
      have same': "same_upload s' (sessionFromMetadata m ms')"
        using same_upload_fields [OF same] pf
        by (simp add: same_upload_def s'_def ms'_def sessionFromMetadata_def map_parts_update)
      have "mirrored (sessions meta) m (mw_uploads w')"
        unfolding rest st(3) ms'_def [symmetric]
        by (rule mirrored_replace [OF mi])
          (use bk fits' same' same_upload_fits [OF same'] assms(2) id mirrored_stored [OF mi st(1)] in
            \<open>auto simp: books_def s'_def\<close>)
      ultimately have "ok w'" using st(4) rest by (simp add: mp_ok_def)
      moreover have "\<exists>ms ms'. sessions (mw_meta w) (t, u) = Some ms
          \<and> sessions (mw_meta w') = (sessions (mw_meta w))((t, u) \<mapsto> ms')
          \<and> up_Parts (sessionFromMetadata m ms') = AList.update n info (up_Parts s)"
        using st(1) st(3) [folded ms'_def] parts rest(2) by blast
      ultimately show ?thesis using r rest(1,3) by (simp add: s'_def tot_def fs_def)
    qed
  qed
qed

lemma putPart_ok:
  assumes "ok w" "nul_free t"
    and "\<And>ms. sessions (mw_meta w) (t, u) = Some ms \<Longrightarrow> ms_reserved ms + int (length (content rd)) \<le> max_int64"
    and "PutPart m e t u n rd w = (r, w')"
  shows "ok w' \<and> (case r of
      Inl x \<Rightarrow> sessions (mw_meta w') = sessions (mw_meta w)
        \<and> (\<forall>p. p \<noteq> sessionDirectory m t u @ [''part-'' @ pad8 n @ ''.tmp'']
              \<and> p \<noteq> sessionDirectory m t u @ [''part-'' @ pad8 n] \<longrightarrow> mw_files w' p = mw_files w p)
    | Inr info \<Rightarrow> 0 < n \<and> reader_err (part_data m rd) = None
        \<and> (0 < mg_maxPartSize m \<longrightarrow> int (length (content (part_data m rd))) \<le> mg_maxPartSize m)
        \<and> info = \<lparr>pi_Number = n, pi_Size = int (length (content (part_data m rd))),
             pi_ETag = part_etag m (content (part_data m rd)), pi_Path = sessionDirectory m t u @ [''part-'' @ pad8 n]\<rparr>
        \<and> mw_files w' = (mw_files w)(sessionDirectory m t u @ [''part-'' @ pad8 n @ ''.tmp''] := None,
             sessionDirectory m t u @ [''part-'' @ pad8 n] := Some (content (part_data m rd)))
        \<and> (\<exists>ms ms' s. sessions (mw_meta w) (t, u) = Some ms
            \<and> sessions (mw_meta w') = (sessions (mw_meta w))((t, u) \<mapsto> ms')
            \<and> map_of (mw_uploads w') (sessionKey t u) = Some s \<and> up_Parts s = up_Parts (sessionFromMetadata m ms')
            \<and> up_Parts s = AList.update n info (up_Parts (sessionFromMetadata m ms))))"
proof (cases "n \<le> 0")
  case True
  with assms(1,4) show ?thesis by (simp add: PutPart_def) auto
next
  case n: False
  obtain rs w1 where ses: "mpSession m (call e 0) t u w = (rs, w1)" by fastforce
  note S = mpSession_ok [OF assms(1,2) ses]
  show ?thesis
  proof (cases rs)
    case (Inl x)
    with n ses assms(4) have "r = Inl x" "w' = w1" by (auto simp: PutPart_def)
    with S show ?thesis by simp
  next
    case (Inr s)
    with S have ok1: "ok w1" and s: "map_of (mw_uploads w1) (sessionKey t u) = Some s"
      and same: "mw_files w1 = mw_files w" "mw_meta w1 = mw_meta w" by auto
    from stored_reserved [OF ok1 assms(2) s] same obtain ms where
      ms: "sessions (mw_meta w) (t, u) = Some ms" "ms_reserved ms = up_Reserved s"
        "up_Directory s = sessionDirectory m t u"
        "up_Parts s = map (\<lambda>(n, p). (n, partFromMetadata p)) (ms_parts ms)" by auto
    have paths: "partPath s n = sessionDirectory m t u @ [''part-'' @ pad8 n]"
      "partTmp s n = sessionDirectory m t u @ [''part-'' @ pad8 n @ ''.tmp'']"
      by (simp_all add: partPath_def partTmp_def ms(3))
    define tmp where "tmp = partTmp s n"
    define path where "path = partPath s n"
    have np: "tmp \<noteq> path" by (simp add: tmp_def path_def paths)
    obtain ri fs where sp: "spoolPart m (call e 1) s n rd (mw_used w1) (mw_files w1) = (ri, fs)" by fastforce
    show ?thesis
    proof (cases ri)
      case (Inl x)
      with n ses sp \<open>rs = Inr s\<close> assms(4) have "r = Inl x" "w' = w1\<lparr>mw_files := fs\<rparr>"
        by (auto simp: PutPart_def)
      with ok1 same spoolPart_other [OF sp] show ?thesis by (auto simp: ok_files paths)
    next
      case info: (Inr info)
      note SP = spoolPart_Inr [OF sp [unfolded info]]
      define w1f where "w1f = w1\<lparr>mw_files := fs\<rparr>"
      have ok1f: "ok w1f" and sf: "map_of (mw_uploads w1f) (sessionKey t u) = Some s"
        using ok1 s by (simp_all add: w1f_def ok_files)
      have size: "0 \<le> pi_Size info" "up_Reserved s + pi_Size info \<le> max_int64"
        using assms(3) [OF ms(1)] ms(2) SP(1) part_data_length [of m rd] by auto
      obtain rr w2 where re: "reserveForPart m (call e 2) t u n info w1f = (rr, w2)" by fastforce
      show ?thesis
      proof (cases rr)
        case (Inl x)
        have "w2 = w1f"
          by (rule reserveForPart_Inl [OF ok1f assms(2) size(1) _ re [unfolded Inl]]) (use sf size in simp)
        with n ses sp \<open>rs = Inr s\<close> info re Inl assms(4) have "r = Inl x"
          "w' = w1f\<lparr>mw_files := try_remove e 3 tmp fs\<rparr>"
          by (auto simp: PutPart_def w1f_def tmp_def)
        with ok1f same SP(2) show ?thesis
          by (auto simp: ok_files try_remove_other w1f_def tmp_def paths)
      next
        case (Inr rv)
        from n ses sp \<open>rs = Inr s\<close> info re Inr assms(4)
        have cm: "commitPart m (call e 4) t u s n info rv w2 = (r, w')"
          by (simp add: PutPart_def w1f_def)
        have num: "pi_Number info = n" "0 < mg_maxPartSize m \<longrightarrow> pi_Size info \<le> mg_maxPartSize m"
          using SP by auto
        note C = commitPart_ok [OF ok1f assms(2) sf size num re [unfolded Inr] cm]
        have w2f: "mw_files w2 = fs"
          using reserveForPart_Inr(1) [OF ok1f assms(2) sf size re [unfolded Inr]] by (simp add: w1f_def)
        show ?thesis
        proof (cases r)
          case (Inl x)
          with cm have "\<forall>p. p \<noteq> tmp \<and> p \<noteq> path \<longrightarrow> mw_files w' p = fs p"
            using w2f by (auto simp: commitPart_def Let_def rollbackReservation_def tmp_def path_def try_remove_other
                split: option.splits prod.splits if_splits)
          with Inl C SP(2) same show ?thesis by (auto simp: w1f_def tmp_def path_def paths)
        next
          case ok: (Inr i)
          with C have i: "i = info" and ok': "ok w'" and
            up: "map_of (mw_uploads w') (sessionKey t u) = Some (s\<lparr>up_Parts := AList.update n info (up_Parts s),
              up_Reserved := pi_Size info + other_sizes n (up_Parts s)\<rparr>)"
            and fs': "mw_files w' = (mw_files w1f)(partTmp s n := None, partPath s n := mw_files w1f (partTmp s n))"
            and ex: "\<exists>ms ms'. sessions (mw_meta w1f) (t, u) = Some ms
              \<and> sessions (mw_meta w') = (sessions (mw_meta w1f))((t, u) \<mapsto> ms')
              \<and> up_Parts (sessionFromMetadata m ms') = AList.update n info (up_Parts s)"
            by auto
          from ex ms(1) same obtain ms' where ms': "sessions (mw_meta w') = (sessions (mw_meta w))((t, u) \<mapsto> ms')"
            "up_Parts (sessionFromMetadata m ms') = AList.update n info (up_Parts s)" by (auto simp: w1f_def)
          have "up_Parts s = up_Parts (sessionFromMetadata m ms)" by (simp add: ms(4) sessionFromMetadata_def)
          moreover have "mw_files w' = (mw_files w)(tmp := None, path := Some (content (part_data m rd)))"
            using fs' SP(2) same np by (auto simp: w1f_def tmp_def path_def fun_eq_iff)
          ultimately show ?thesis
            using ok ok' i up ms(1) ms' SP n by (auto simp: tmp_def path_def paths)
        qed
      qed
    qed
  qed
qed

lemma loadSessions_ok:
  assumes "ok w" "\<forall>ms \<in> set ls. sessions (mw_meta w) (ms_tenant ms, ms_upload_id ms) = Some ms"
    and "loadSessions m e i ls w = (r, w')"
  shows "ok w' \<and> mw_meta w' = mw_meta w \<and> mw_files w' = mw_files w
    \<and> (r = None \<longrightarrow> (\<forall>ms \<in> set ls. map_of (mw_uploads w') (sessionKey (ms_tenant ms) (ms_upload_id ms)) \<noteq> None))
    \<and> (\<forall>k s. map_of (mw_uploads w) k = Some s \<longrightarrow> map_of (mw_uploads w') k = Some s)"
  using assms
proof (induction ls arbitrary: i w)
  case (Cons ms ls)
  from Cons.prems(1) have si: "sinv (mw_meta w)" and bk: "books m (mw_uploads w) (mw_used w)"
    and mi: "mirrored (sessions (mw_meta w)) m (mw_uploads w)" by (auto simp: mp_ok_def)
  define s where "s = sessionFromMetadata m ms"
  define k where "k = sessionKey (ms_tenant ms) (ms_upload_id ms)"
  have st: "sessions (mw_meta w) (ms_tenant ms, ms_upload_id ms) = Some ms" using Cons.prems(2) by simp
  note fits = mirrored_stored(1) [OF mi st, folded s_def]
  have id: "up_Tenant s = ms_tenant ms" "up_UploadID s = ms_upload_id ms"
    by (simp_all add: s_def sessionFromMetadata_def)
  have key: "sessionKey (up_Tenant s) (up_UploadID s) = k" "sessionKey (ms_tenant ms) (ms_upload_id ms) = k"
    by (simp_all add: id k_def)
  obtain r1 u1 where res: "reserveBytes m (call (call e i) 1) (up_Reserved s) (mw_used w) = (r1, u1)" by fastforce
  have i64: "in_int64 (up_Reserved s)" "0 \<le> up_Reserved s" using fits by (auto simp: upload_fits_def)
  note ro = reserve_ok [OF bk i64(1) res]
  show ?case
  proof (cases "syscall (call e i) 0 = None \<and> r1 = None")
    case False
    with Cons.prems res ro show ?thesis
      by (auto simp: Let_def s_def [symmetric] split: option.splits)
  next
    case True
    with ro i64 have u1: "u1 = mw_used w + up_Reserved s" "within m u1" by auto
    define w1 where "w1 = (case map_of (mw_uploads w) k of
        Some existing \<Rightarrow> w\<lparr>mw_used := releaseBytes m (up_Reserved s) u1\<rparr>
      | None \<Rightarrow> w\<lparr>mw_used := u1, mw_uploads := AList.update k s (mw_uploads w)\<rparr>)"
    have go: "loadSessions m e (Suc i) ls w1 = (r, w')"
      using Cons.prems(3) True res by (simp add: Let_def s_def [symmetric] key w1_def cong: option.case_cong)
    have w1: "ok w1 \<and> mw_meta w1 = mw_meta w \<and> mw_files w1 = mw_files w \<and> map_of (mw_uploads w1) k \<noteq> None
      \<and> (\<forall>j x. map_of (mw_uploads w) j = Some x \<longrightarrow> map_of (mw_uploads w1) j = Some x)"
    proof (cases "map_of (mw_uploads w) k")
      case (Some x)
      have "releaseBytes m (up_Reserved s) u1 = mw_used w"
        using release_ok [OF within_int64 [OF u1(2)] i64(1)] i64(2) books_nonneg [OF bk] u1(1) by simp
      with Some Cons.prems(1) show ?thesis by (simp add: w1_def mp_ok_def)
    next
      case None
      have "books m (AList.update k s (mw_uploads w)) u1"
        using books_update [OF bk fits u1(2), of k] None u1(1) by simp
      moreover have "mirrored (sessions (mw_meta w)) m (AList.update k s (mw_uploads w))"
        using mirrored_add [OF mi, of s ms k] id st by (simp add: s_def k_def)
      ultimately show ?thesis using None si by (auto simp: w1_def mp_ok_def)
    qed
    then have mt: "mw_meta w1 = mw_meta w" by simp
    have "\<forall>ms \<in> set ls. sessions (mw_meta w1) (ms_tenant ms, ms_upload_id ms) = Some ms"
      using Cons.prems(2) mt by simp
    from Cons.IH [OF _ this go] w1 show ?thesis by (auto simp: k_def [symmetric])
  qed
qed simp

lemma loadTenants_ok:
  assumes "ok w" "loadTenants m mops e i ts w = (r, w')"
  shows "ok w' \<and> mw_meta w' = mw_meta w \<and> mw_files w' = mw_files w
    \<and> (r = None \<longrightarrow> (\<forall>t \<in> set ts. \<forall>u ms. sessions (mw_meta w) (t, u) = Some ms \<longrightarrow>
          map_of (mw_uploads w') (sessionKey t u) \<noteq> None))
    \<and> (\<forall>k s. map_of (mw_uploads w) k = Some s \<longrightarrow> map_of (mw_uploads w') k = Some s)"
  using assms
proof (induction ts arbitrary: i w)
  case (Cons t ts)
  from Cons.prems(1) have si: "sinv (mw_meta w)" by (simp add: mp_ok_def)
  show ?case
  proof (cases "ListMultipartSessions mops (call (call e i) 0) t (mw_meta w)")
    case (Inl x)
    with Cons.prems show ?thesis by auto
  next
    case (Inr ls)
    from mp_list [OF si Inr] have ls: "set ls = {ms. \<exists>u. sessions (mw_meta w) (t, u) = Some ms}" by simp
    then have named: "\<forall>ms \<in> set ls. sessions (mw_meta w) (ms_tenant ms, ms_upload_id ms) = Some ms"
      using mp_named [OF si] by auto
    obtain r1 w1 where l: "loadSessions m (call (call e i) 1) 0 ls w = (r1, w1)" by fastforce
    note L = loadSessions_ok [OF Cons.prems(1) named l]
    show ?thesis
    proof (cases r1)
      case (Some x)
      with L Inr l Cons.prems show ?thesis by auto
    next
      case None
      with Inr l Cons.prems(2) have go: "loadTenants m mops e (Suc i) ts w1 = (r, w')" by simp
      from L have w1: "ok w1" "mw_meta w1 = mw_meta w" "mw_files w1 = mw_files w" by simp_all
      have here: "map_of (mw_uploads w1) (sessionKey t u) \<noteq> None" if "sessions (mw_meta w) (t, u) = Some ms" for u ms
        using that L None ls mp_named [OF si that] by auto
      from Cons.IH [OF w1(1) go] w1 here L show ?thesis by (auto; metis option.exhaust)
    qed
  qed
qed simp

lemma loadActive_ok:
  assumes "ok w" "LoadActive m e w = (r, w')"
  shows "ok w' \<and> mw_meta w' = mw_meta w \<and> mw_files w' = mw_files w
    \<and> (r = None \<longrightarrow> (\<forall>t u ms. sessions (mw_meta w) (t, u) = Some ms \<longrightarrow>
          map_of (mw_uploads w') (sessionKey t u) \<noteq> None))"
proof (cases "ListTenants mops (call e 0) (mw_meta w)")
  case (Inl x)
  with assms the_store show ?thesis by (auto simp: LoadActive_def)
next
  case (Inr ts)
  from assms(1) have si: "sinv (mw_meta w)" by (simp add: mp_ok_def)
  from Inr assms(2) the_store have "loadTenants m mops (call e 1) 0 ts w = (r, w')"
    by (simp add: LoadActive_def)
  note L = loadTenants_ok [OF assms(1) this]
  have "map_of (mw_uploads w') (sessionKey t u) \<noteq> None"
    if "r = None" "sessions (mw_meta w) (t, u) = Some ms" for t u ms
  proof -
    from that(2) have "sessions (mw_meta w) (t, u) \<noteq> None" by simp
    from mp_tenants [OF si Inr this] that L show ?thesis by blast
  qed
  with L show ?thesis by simp
qed

lemma cleanLoop_ok: "ok w \<Longrightarrow> cleanLoop m e i ss c w = (c', r, w') \<Longrightarrow> ok w'"
proof (induction ss arbitrary: i c w)
  case (Cons s ss)
  obtain r1 w1 where d: "deleteSession m (call e i) s w = (r1, w1)" by fastforce
  from deleteSession_ok [OF Cons.prems(1) d] Cons.IH [of w1 "Suc i" "c + 1"] Cons.prems d show ?case
    by (auto split: if_splits)
qed simp

lemma cleanupStale_ok:
  assumes "ok w" "CleanupStale m e ttl w = (c, r, w')"
  shows "ok w'"
  using assms the_store
  by (auto simp: CleanupStale_def Let_def split: if_splits sum.splits intro: cleanLoop_ok)

lemma session_snd: "ok w \<Longrightarrow> nul_free t \<Longrightarrow> ok (snd (mpSession m e t u w))"
  using mpSession_ok [of w t e u "fst (mpSession m e t u w)" "snd (mpSession m e t u w)"] by simp

lemma checkPart_ok:
  assumes "ok w" "nul_free t"
  shows "ok (snd (CheckPart m e t u n sz w))"
proof -
  have "snd (CheckPart m e t u n sz w) \<in> {w, snd (mpSession m (call e 0) t u w)}"
    by (cases "mpSession m (call e 0) t u w") (auto simp: CheckPart_def Let_def split: sum.splits)
  with assms session_snd [OF assms, of "call e 0" u] show ?thesis by auto
qed

lemma open_ok:
  assumes "ok w" "nul_free t"
  shows "ok (snd (mpOpen m e t u ns w))"
proof -
  have "snd (mpOpen m e t u ns w) = snd (mpSession m (call e 0) t u w)"
    by (cases "mpSession m (call e 0) t u w") (auto simp: mpOpen_def Let_def split: sum.splits)
  with session_snd [OF assms] show ?thesis by simp
qed

lemma abort_ok:
  assumes "ok w" "nul_free t"
  shows "ok (snd (Abort m e t u w))"
proof -
  obtain r w1 where s: "mpSession m (call e 0) t u w = (r, w1)" by fastforce
  from session_snd [OF assms, of "call e 0" u] s have ok1: "ok w1" by simp
  show ?thesis
  proof (cases r)
    case (Inr ses)
    obtain r2 w2 where "deleteSession m (call e 1) ses w1 = (r2, w2)" by fastforce
    with deleteSession_ok [OF ok1 this] s Inr show ?thesis by (simp add: Abort_def)
  qed (use s ok1 in \<open>simp add: Abort_def\<close>)
qed

lemma run_ok:
  assumes "ok w" "call_ok sessions e c w"
  shows "ok (mp_run m e c w)"
proof (cases c)
  case (CreateCall t b k n hs)
  with assms create_ok [of w t n e b k hs] show ?thesis
    by (simp add: mp_run_def call_ok_def) (metis prod.collapse)
next
  case (CheckCall t u n sz)
  with assms checkPart_ok show ?thesis by (simp add: mp_run_def call_ok_def)
next
  case (PutCall t u n rd)
  with assms have p: "nul_free t" "\<And>ms. sessions (mw_meta w) (t, u) = Some ms \<Longrightarrow>
      ms_reserved ms + int (length (content rd)) \<le> max_int64" by (auto simp: call_ok_def)
  obtain r w' where "PutPart m e t u n rd w = (r, w')" by fastforce
  with putPart_ok [OF assms(1) p this] PutCall show ?thesis by (simp add: mp_run_def)
next
  case (OpenCall t u ns)
  with assms open_ok show ?thesis by (simp add: mp_run_def call_ok_def)
next
  case (GetCall t u)
  with assms session_snd [of w t "call e 1" u] show ?thesis
    by (cases "ctx_poll e 0") (simp_all add: mp_run_def call_ok_def mpGet_def)
next
  case (AbortCall t u)
  with assms abort_ok show ?thesis by (simp add: mp_run_def call_ok_def)
next
  case LoadCall
  with assms loadActive_ok [of w e] show ?thesis by (simp add: mp_run_def) (metis prod.collapse)
next
  case (CleanCall ttl)
  with assms cleanupStale_ok [of w e ttl] show ?thesis by (simp add: mp_run_def) (metis prod.collapse)
next
  case RestartCall
  with assms the_counter show ?thesis
    by (simp add: mp_run_def mp_ok_def books_def reserved_sum_def mirrored_def within_def
        in_int64_def min_int64_def max_int64_def)
qed

text \<open>A successful put adds its part; nothing else changes.\<close>

lemma putPart_intact:
  assumes "ok w" "intact (sessions (mw_meta w)) m (mw_files w)" "nul_free t"
    and "\<And>ms. sessions (mw_meta w) (t, u) = Some ms \<Longrightarrow> ms_reserved ms + int (length (content rd)) \<le> max_int64"
    and "PutPart m e t u n rd w = (Inr info, w')"
  shows "intact (sessions (mw_meta w')) m (mw_files w')"
proof -
  define dir where "dir = sessionDirectory m t u"
  define d where "d = content (part_data m rd)"
  from assms(1) have mi: "mirrored (sessions (mw_meta w)) m (mw_uploads w)" by (auto simp: mp_ok_def)
  from putPart_ok [OF assms(1,3,4,5)] obtain ms ms' where
    n: "0 < n" and info: "info = \<lparr>pi_Number = n, pi_Size = int (length d), pi_ETag = part_etag m d,
       pi_Path = dir @ [''part-'' @ pad8 n]\<rparr>"
    and fs: "mw_files w' = (mw_files w)(dir @ [''part-'' @ pad8 n @ ''.tmp''] := None,
      dir @ [''part-'' @ pad8 n] := Some d)"
    and ms: "sessions (mw_meta w) (t, u) = Some ms" "sessions (mw_meta w') = (sessions (mw_meta w))((t, u) \<mapsto> ms')"
      "up_Parts (sessionFromMetadata m ms') = AList.update n info (up_Parts (sessionFromMetadata m ms))"
    by (auto simp: dir_def d_def)
  have safe: "safe_name u" by (rule mirrored_stored(3) [OF mi ms(1)])
  show ?thesis unfolding intact_def
  proof (intro allI impI)
    fix t' u' x k p
    assume a: "sessions (mw_meta w') (t', u') = Some x" "(k, p) \<in> set (up_Parts (sessionFromMetadata m x))"
    show "part_intact m (mw_files w') (sessionDirectory m t' u') k p"
    proof (cases "(t', u') = (t, u)")
      case False
      with a(1) ms(2) have x: "sessions (mw_meta w) (t', u') = Some x" by (auto split: if_splits)
      with assms(2) a(2) have old: "part_intact m (mw_files w) (sessionDirectory m t' u') k p"
        by (auto simp: intact_def)
      have "u' \<noteq> u" using False mirrored_stored(4) [OF mi x, of t] ms(1) by auto
      with directory_apart(1) [OF mirrored_stored(3) [OF mi x] safe, of m t'] old show ?thesis
        by (simp add: part_intact_def fs dir_def)
    next
      case True
      with a ms have kp: "(k, p) \<in> set (AList.update n info (up_Parts (sessionFromMetadata m ms)))" by simp
      have dk: "distinct (keys (up_Parts (sessionFromMetadata m ms)))"
        using mirrored_stored(1) [OF mi ms(1)] by (simp add: upload_fits_def)
      show ?thesis
      proof (cases "k = n")
        case k: True
        with kp dk have "p = info"
          by (metis distinct_keys_update fun_upd_same map_of_in_set map_of_update option.inject)
        with k True n info show ?thesis by (simp add: part_intact_def fs dir_def)
      next
        case k: False
        with set_update_D [OF kp] have "(k, p) \<in> set (up_Parts (sessionFromMetadata m ms))" by auto
        with assms(2) ms(1) have old: "part_intact m (mw_files w) dir k p" by (auto simp: intact_def dir_def)
        then have "pad8 k \<noteq> pad8 n" "pad8 k \<noteq> pad8 n @ ''.tmp''"
          using k n pad8_inj [of k n] pad8_no_dot [of k] by (auto simp: part_intact_def)
        with old True show ?thesis by (simp add: part_intact_def fs dir_def)
      qed
    qed
  qed
qed

lemma deleteSession_intact:
  assumes "ok w" "intact (sessions (mw_meta w)) m (mw_files w)" "ctx_plain e"
    and "up_Directory s = sessionDirectory m (up_Tenant s) (up_UploadID s)" "safe_name (up_UploadID s)"
    and "\<And>t'. sessions (mw_meta w) (t', up_UploadID s) \<noteq> None \<Longrightarrow> t' = up_Tenant s"
    and "deleteSession m e s w = (r, w')"
  shows "intact (sessions (mw_meta w')) m (mw_files w')
    \<and> (\<forall>t u. sessions (mw_meta w') (t, u) \<noteq> None \<longrightarrow> sessions (mw_meta w) (t, u) \<noteq> None)"
proof (cases "ctx_poll e 0")
  case (Some x)
  with assms(2,7) show ?thesis by (simp add: deleteSession_def)
next
  case None
  from assms(1) have si: "sinv (mw_meta w)" and mi: "mirrored (sessions (mw_meta w)) m (mw_uploads w)"
    by (auto simp: mp_ok_def)
  define t where "t = up_Tenant s"
  define u where "u = up_UploadID s"
  obtain rd meta where d: "DeleteMultipartSession mops (call e 1) t u (mw_meta w) = (rd, meta)" by fastforce
  note law = mp_delete [OF si d]
  show ?thesis
  proof (cases "case rd of None \<Rightarrow> False | Some x \<Rightarrow> \<not> errors_is x ErrNotFound")
    case True
    with None d assms(7) the_store have "w' = w\<lparr>mw_meta := meta\<rparr>"
      by (simp add: deleteSession_def t_def u_def split: option.splits)
    with True law assms(2) show ?thesis by (auto split: option.splits)
  next
    case False
    obtain r2 fs where rm: "remove_all (call e 2) (up_Directory s) (mw_files w) = (r2, fs)" by fastforce
    from False None d rm assms(7) the_store have w': "mw_meta w' = meta" "mw_files w' = fs"
      by (auto simp: deleteSession_def Let_def t_def u_def)
    have gone: "sessions meta = (sessions (mw_meta w))((t, u) := None)"
    proof (cases rd)
      case (Some x)
      with False mp_delete_missing [OF si _ d [unfolded Some]] assms(3) law
      have "sessions (mw_meta w) (t, u) = None" "sessions meta = sessions (mw_meta w)" by auto
      then show ?thesis by auto
    qed (use law in simp)
    have keep: "fs p = mw_files w p" if "\<not> below (up_Directory s) p" for p
      using rm that by (auto simp: remove_all_def split: option.splits)
    have "intact (sessions meta) m fs"
    proof (rule intact_mono [OF assms(2)], rule disjI2, intro conjI allI impI)
      fix t' u' ms k
      assume a: "sessions meta (t', u') = Some ms"
      with gone have b: "(t', u') \<noteq> (t, u)" "sessions (mw_meta w) (t', u') = Some ms"
        by (auto split: if_splits)
      then show "sessions (mw_meta w) (t', u') = Some ms" by simp
      have "u' \<noteq> u" using b assms(6) by (auto simp: t_def u_def)
      with directory_apart(2) [of u u' m t t'] assms(4,5) mirrored_stored(3) [OF mi b(2)]
      show "fs (sessionDirectory m t' u' @ [''part-'' @ pad8 k]) = mw_files w (sessionDirectory m t' u' @ [''part-'' @ pad8 k])"
        by (intro keep) (simp add: t_def u_def)
    qed
    with gone show ?thesis by (simp add: w')
  qed
qed

lemma session_snd_same:
  assumes "ok w" "nul_free t"
  shows "mw_meta (snd (mpSession m e t u w)) = mw_meta w" "mw_files (snd (mpSession m e t u w)) = mw_files w"
  using mpSession_ok [OF assms, of e u "fst (mpSession m e t u w)" "snd (mpSession m e t u w)"] by simp_all

lemma create_intact:
  assumes "ok w" "intact (sessions (mw_meta w)) m (mw_files w)"
    and "\<forall>t'. sessions (mw_meta w) (t', randomUploadID (call e 4)) = None"
    and "mpCreate m e t b k n hs w = (r, w')"
  shows "intact (sessions (mw_meta w')) m (mw_files w')"
proof -
  from assms(1) have si: "sinv (mw_meta w)" and mi: "mirrored (sessions (mw_meta w)) m (mw_uploads w)"
    by (auto simp: mp_ok_def)
  define id where "id = randomUploadID (call e 4)"
  define size where "size = (if n < 0 then 0 else n)"
  define ms where "ms = \<lparr>ms_upload_id = id, ms_tenant = t, ms_bucket = b, ms_key = k,
      ms_headers = firstHeaderMap hs, ms_reserved = size, ms_created = now e 6, ms_updated = now e 6, ms_parts = []\<rparr>"
  obtain rs meta where cr: "CreateMultipartSession mops (call e 7) ms (mw_meta w) = (rs, meta)" by fastforce
  obtain rm fs where rem: "remove_all (call e 8) (sessionDirectory m t id) (mw_files w) = (rm, fs)" by fastforce
  from assms(4) cr rem the_store consider
      "mw_meta w' = mw_meta w" "mw_files w' = mw_files w"
    | x where "rs = Some x" "mw_meta w' = meta" "mw_files w' = fs"
    | "rs = None" "mw_meta w' = meta" "mw_files w' = mw_files w"
    by (auto simp: mpCreate_def Let_def size_def [symmetric] id_def [symmetric] ms_def
        split: option.splits prod.splits if_splits)
  then show ?thesis
  proof cases
    case 1
    with assms(2) show ?thesis by simp
  next
    case 2
    have keep: "fs p = mw_files w p" if "\<not> below (sessionDirectory m t id) p" for p
      using rem that by (auto simp: remove_all_def split: option.splits)
    have ses: "sessions meta = sessions (mw_meta w)" using mp_create [OF si cr] 2 by simp
    show ?thesis unfolding 2
    proof (rule intact_mono [OF assms(2)], rule disjI2, intro conjI allI impI)
      fix t' u' x k
      assume a: "sessions meta (t', u') = Some x"
      with ses show "sessions (mw_meta w) (t', u') = Some x" by simp
      then have "u' \<noteq> id" "safe_name u'" using assms(3) mirrored_stored(3) [OF mi] by (auto simp: id_def)
      with directory_apart(2) [of id u' m t t'] randomUploadID_safe
      show "fs (sessionDirectory m t' u' @ [''part-'' @ pad8 k]) = mw_files w (sessionDirectory m t' u' @ [''part-'' @ pad8 k])"
        by (intro keep) (simp add: id_def)
    qed
  next
    case 3
    with mp_create [OF si cr] obtain ms' where
      new: "same_session ms ms'" "sessions meta = (sessions (mw_meta w))((t, id) \<mapsto> ms')" by (auto simp: ms_def)
    have "up_Parts (sessionFromMetadata m ms') = []"
      using new(1) by (simp add: same_session_def ms_def sessionFromMetadata_def)
    with 3 new(2) assms(2) show ?thesis by (auto intro!: intact_mono [OF assms(2)] split: if_splits)
  qed
qed

lemma cleanLoop_intact:
  assumes "ok w" "intact (sessions (mw_meta w)) m (mw_files w)" "ctx_plain e"
    and "\<forall>s \<in> set ss. up_Directory s = sessionDirectory m (up_Tenant s) (up_UploadID s) \<and> safe_name (up_UploadID s)
      \<and> (\<forall>t'. sessions (mw_meta w) (t', up_UploadID s) \<noteq> None \<longrightarrow> t' = up_Tenant s)"
    and "cleanLoop m e i ss c w = (c', r, w')"
  shows "intact (sessions (mw_meta w')) m (mw_files w')"
  using assms
proof (induction ss arbitrary: i c w)
  case (Cons s ss)
  obtain r1 w1 where d: "deleteSession m (call e i) s w = (r1, w1)" by fastforce
  have s: "up_Directory s = sessionDirectory m (up_Tenant s) (up_UploadID s)" "safe_name (up_UploadID s)"
    "\<And>t'. sessions (mw_meta w) (t', up_UploadID s) \<noteq> None \<Longrightarrow> t' = up_Tenant s"
    using Cons.prems(4) by auto
  have D: "intact (sessions (mw_meta w1)) m (mw_files w1)"
    "\<And>t u. sessions (mw_meta w1) (t, u) \<noteq> None \<Longrightarrow> sessions (mw_meta w) (t, u) \<noteq> None"
    using deleteSession_intact [OF Cons.prems(1,2) _ s d] Cons.prems(3) by auto
  have "\<forall>s \<in> set ss. up_Directory s = sessionDirectory m (up_Tenant s) (up_UploadID s) \<and> safe_name (up_UploadID s)
      \<and> (\<forall>t'. sessions (mw_meta w1) (t', up_UploadID s) \<noteq> None \<longrightarrow> t' = up_Tenant s)"
    using Cons.prems(4) D(2) by (meson list.set_intros(2))
  note IH = Cons.IH [OF deleteSession_ok [OF Cons.prems(1) d] D(1) Cons.prems(3) this]
  from Cons.prems(5) d D(1) show ?case by (auto split: if_splits intro: IH)
qed simp

lemma staleOfTenants_named:
  assumes "sinv meta" "staleOfTenants m mops e i cutoff ts meta = Inr ss" "s \<in> set ss"
  shows "\<exists>t u ms. sessions meta (t, u) = Some ms \<and> s = sessionFromMetadata m ms"
  using assms(2,3)
proof (induction ts arbitrary: i ss)
  case (Cons t ts)
  from Cons.prems(1) obtain ls rest where
    ls: "ListStaleMultipartSessions mops (call e i) t cutoff meta = Inr ls" and
    rest: "staleOfTenants m mops e (Suc i) cutoff ts meta = Inr rest" "ss = map (sessionFromMetadata m) ls @ rest"
    by (auto split: sum.splits)
  from mp_stale [OF assms(1) ls] have "\<forall>ms \<in> set ls. \<exists>u. sessions meta (t, u) = Some ms" by auto
  with Cons.IH [OF rest(1)] Cons.prems(2) rest(2) show ?case by auto blast+
qed simp

lemma cleanupStale_intact:
  assumes "ok w" "intact (sessions (mw_meta w)) m (mw_files w)" "ctx_plain e" "CleanupStale m e ttl w = (c, r, w')"
  shows "intact (sessions (mw_meta w')) m (mw_files w')"
proof -
  from assms(1) have si: "sinv (mw_meta w)" and mi: "mirrored (sessions (mw_meta w)) m (mw_uploads w)"
    by (auto simp: mp_ok_def)
  from assms(4) the_store consider "w' = w"
    | ts ss where "staleOfTenants m mops (call e 2) 0 (now e 0 - ttl) ts (mw_meta w) = Inr ss"
        "cleanLoop m (call e 4) 0 ss 0 w = (c, r, w')"
    by (auto simp: CleanupStale_def Let_def split: if_splits sum.splits)
  then show ?thesis
  proof cases
    case 1
    with assms(2) show ?thesis by simp
  next
    case 2
    have "\<forall>s \<in> set ss. up_Directory s = sessionDirectory m (up_Tenant s) (up_UploadID s) \<and> safe_name (up_UploadID s)
      \<and> (\<forall>t'. sessions (mw_meta w) (t', up_UploadID s) \<noteq> None \<longrightarrow> t' = up_Tenant s)"
    proof
      fix s assume "s \<in> set ss"
      from staleOfTenants_named [OF si 2(1) this] obtain t u ms where
        ms: "sessions (mw_meta w) (t, u) = Some ms" "s = sessionFromMetadata m ms" by blast
      from ms(2) mp_named [OF si ms(1)] have id: "up_Tenant s = t" "up_UploadID s = u"
        "up_Directory s = sessionDirectory m t u" by (simp_all add: sessionFromMetadata_def)
      with mirrored_stored(3,4) [OF mi ms(1)]
      show "up_Directory s = sessionDirectory m (up_Tenant s) (up_UploadID s) \<and> safe_name (up_UploadID s)
        \<and> (\<forall>t'. sessions (mw_meta w) (t', up_UploadID s) \<noteq> None \<longrightarrow> t' = up_Tenant s)" by simp
    qed
    from cleanLoop_intact [OF assms(1,2) _ this 2(2)] assms(3) show ?thesis by simp
  qed
qed

lemma abort_intact:
  assumes "ok w" "intact (sessions (mw_meta w)) m (mw_files w)" "ctx_plain e" "nul_free t"
  shows "intact (sessions (mw_meta (snd (Abort m e t u w)))) m (mw_files (snd (Abort m e t u w)))"
proof -
  obtain r w1 where s: "mpSession m (call e 0) t u w = (r, w1)" by fastforce
  note S = mpSession_ok [OF assms(1,4) s]
  show ?thesis
  proof (cases r)
    case (Inl x)
    with S s assms(2) show ?thesis by (simp add: Abort_def)
  next
    case (Inr ses)
    from S have w1: "ok w1" "mw_files w1 = mw_files w" "mw_meta w1 = mw_meta w" by simp_all
    from S Inr have look: "map_of (mw_uploads w1) (sessionKey t u) = Some ses" by simp
    from w1(1) have mi: "mirrored (sessions (mw_meta w1)) m (mw_uploads w1)" by (auto simp: mp_ok_def)
    note id = mirrored_at(1,2) [OF mi assms(4) look]
    from stored_reserved [OF w1(1) assms(4) look] obtain ms where
      ms: "sessions (mw_meta w1) (t, u) = Some ms" "up_Directory ses = sessionDirectory m t u" "safe_name u" by blast
    obtain r2 w2 where d: "deleteSession m (call e 1) ses w1 = (r2, w2)" by fastforce
    have "intact (sessions (mw_meta w2)) m (mw_files w2)"
      using deleteSession_intact [OF w1(1) _ _ _ _ _ d] assms(2,3) w1 id ms mirrored_stored(4) [OF mi ms(1)]
      by auto
    with s Inr d show ?thesis by (simp add: Abort_def)
  qed
qed

lemma run_intact:
  assumes "ok w" "intact (sessions (mw_meta w)) m (mw_files w)" "call_ok sessions e c w" "call_clean m e c w"
  shows "intact (sessions (mw_meta (mp_run m e c w))) m (mw_files (mp_run m e c w))"
proof (cases c)
  case (CreateCall t b k n hs)
  obtain r w' where "mpCreate m e t b k n hs w = (r, w')" by fastforce
  with create_intact [OF assms(1,2) _ this] assms(3) CreateCall show ?thesis
    by (simp add: mp_run_def call_ok_def)
next
  case (CheckCall t u n sz)
  have "snd (CheckPart m e t u n sz w) \<in> {w, snd (mpSession m (call e 0) t u w)}"
    by (cases "mpSession m (call e 0) t u w") (auto simp: CheckPart_def Let_def split: sum.splits)
  with assms session_snd_same [of w t "call e 0" u] CheckCall show ?thesis
    by (auto simp: mp_run_def call_ok_def)
next
  case (PutCall t u n rd)
  with assms(3) have p: "nul_free t" "\<And>ms. sessions (mw_meta w) (t, u) = Some ms \<Longrightarrow>
      ms_reserved ms + int (length (content rd)) \<le> max_int64" by (auto simp: call_ok_def)
  obtain r w' where pp: "PutPart m e t u n rd w = (r, w')" by fastforce
  show ?thesis
  proof (cases r)
    case (Inr info)
    have "intact (sessions (mw_meta w')) m (mw_files w')"
      by (rule putPart_intact [OF assms(1,2) p(1) _ pp [unfolded Inr]]) (rule p(2))
    with pp PutCall show ?thesis by (simp add: mp_run_def)
  next
    case (Inl x)
    define dir where "dir = sessionDirectory m t u"
    from putPart_ok [OF assms(1) p pp] Inl have P: "sessions (mw_meta w') = sessions (mw_meta w)"
      "\<And>q. q \<noteq> dir @ [''part-'' @ pad8 n @ ''.tmp''] \<Longrightarrow> q \<noteq> dir @ [''part-'' @ pad8 n] \<Longrightarrow> mw_files w' q = mw_files w q"
      by (auto simp: dir_def)
    have path: "mw_files w' (dir @ [''part-'' @ pad8 n]) = mw_files w (dir @ [''part-'' @ pad8 n])"
      using assms(4) PutCall pp Inl by (simp add: call_clean_def Let_def dir_def)
    have "mw_files w' (d @ [''part-'' @ pad8 k]) = mw_files w (d @ [''part-'' @ pad8 k])" if "0 < k" for d k
      using P(2) [of "d @ [''part-'' @ pad8 k]"] path pad8_no_dot [of k "pad8 n"] that by fastforce
    with P(1) have "intact (sessions (mw_meta w')) m (mw_files w')"
      by (intro intact_mono [OF assms(2)]) simp
    with pp PutCall show ?thesis by (simp add: mp_run_def)
  qed
next
  case (OpenCall t u ns)
  have "snd (mpOpen m e t u ns w) = snd (mpSession m (call e 0) t u w)"
    by (cases "mpSession m (call e 0) t u w") (auto simp: mpOpen_def Let_def split: sum.splits)
  with assms session_snd_same [of w t "call e 0" u] OpenCall show ?thesis by (simp add: mp_run_def call_ok_def)
next
  case (GetCall t u)
  with assms session_snd_same [of w t "call e 1" u] show ?thesis
    by (cases "ctx_poll e 0") (simp_all add: mp_run_def call_ok_def mpGet_def)
next
  case (AbortCall t u)
  with assms abort_intact [OF assms(1,2), of e t u] show ?thesis by (simp add: mp_run_def call_ok_def call_clean_def)
next
  case LoadCall
  obtain r w' where "LoadActive m e w = (r, w')" by fastforce
  with loadActive_ok [OF assms(1) this] assms(2) LoadCall show ?thesis by (simp add: mp_run_def)
next
  case (CleanCall ttl)
  obtain c' r w' where "CleanupStale m e ttl w = (c', r, w')" by (metis prod_cases3)
  with cleanupStale_intact [OF assms(1,2) _ this] assms(4) CleanCall show ?thesis
    by (simp add: mp_run_def call_clean_def)
qed (use assms(2) in \<open>simp add: mp_run_def\<close>)

text \<open>Reading the parts in a given order.\<close>

lemma openPartFiles_content:
  assumes "openPartFiles e i s ns fs = Inr files" "reader_err (io_MultiReader files) = None"
    and "\<And>n p. map_of (up_Parts s) n = Some p \<Longrightarrow> fs (pi_Path p) = Some (f n)"
  shows "content (io_MultiReader files) = concat (map f ns)"
  using assms(1,2)
proof (induction ns arbitrary: i files)
  case (Cons n ns)
  from Cons.prems(1) obtain p rest where p: "map_of (up_Parts s) n = Some p"
    and rest: "openPartFiles e (Suc i) s ns fs = Inr rest"
      "files = file_reader (call (call e i) 2) (f n) # rest"
    using assms(3) by (auto split: option.splits sum.splits)
  have "reader_err (file_reader e' d) = None \<Longrightarrow> content (file_reader e' d) = d" for e' d
    by (auto simp: file_reader_def bytes_reader_def split: option.splits)
  with Cons.IH [OF rest(1)] Cons.prems(2) rest(2) show ?case by (auto split: if_splits)
qed simp

lemma openPartFiles_quiet:
  assumes "quiet e" "\<And>n p. map_of (up_Parts s) n = Some p \<Longrightarrow> fs (pi_Path p) = Some (f n)"
    and "set ns \<subseteq> fst ` set (up_Parts s)"
  shows "\<exists>files. openPartFiles e i s ns fs = Inr files \<and> reader_err (io_MultiReader files) = None"
  using assms(3)
proof (induction ns arbitrary: i)
  case (Cons n ns)
  then obtain p where p: "map_of (up_Parts s) n = Some p"
    by (auto dest: weak_map_of_SomeI)
  from Cons obtain files where "openPartFiles e (Suc i) s ns fs = Inr files" "reader_err (io_MultiReader files) = None"
    by fastforce
  with p assms(1,2) show ?case by (auto simp: file_reader_def bytes_reader_def)
qed simp

lemma history_keeps: "ok w \<Longrightarrow> history_ok sessions m cs w \<Longrightarrow> ok (mp_history m cs w)"
proof (induction cs arbitrary: w)
  case (Cons ec cs)
  then show ?case by (cases ec) (auto intro: run_ok)
qed simp

lemma history_intact:
  "ok w \<Longrightarrow> intact (sessions (mw_meta w)) m (mw_files w) \<Longrightarrow> history_ok sessions m cs w \<Longrightarrow> history_clean m cs w \<Longrightarrow>
     intact (sessions (mw_meta (mp_history m cs w))) m (mw_files (mp_history m cs w))"
proof (induction cs arbitrary: w)
  case (Cons ec cs)
  then show ?case by (cases ec) (auto intro: run_ok run_intact)
qed simp

lemma part_files:
  assumes "ok w" "nul_free t" "intact (sessions (mw_meta w)) m (mw_files w)"
    and "map_of (mw_uploads w) (sessionKey t u) = Some s" "map_of (up_Parts s) n = Some p"
  shows "pi_Path p = sessionDirectory m t u @ [''part-'' @ pad8 n]
    \<and> mw_files w (sessionDirectory m t u @ [''part-'' @ pad8 n]) = Some (part_bytes m w t u n)
    \<and> pi_Size p = int (length (part_bytes m w t u n)) \<and> pi_ETag p = part_etag m (part_bytes m w t u n)"
proof -
  from stored_reserved [OF assms(1,2,4)] obtain ms where ms: "sessions (mw_meta w) (t, u) = Some ms"
    "up_Parts s = up_Parts (sessionFromMetadata m ms)" by (auto simp: sessionFromMetadata_def)
  from map_of_SomeD [OF assms(5)] ms assms(3) have "part_intact m (mw_files w) (sessionDirectory m t u) n p"
    by (auto simp: intact_def)
  then show ?thesis by (auto simp: part_intact_def part_bytes_def)
qed

text \<open>Whatever fails, a reader from \<open>Open\<close> that ends without error has delivered the listed parts.\<close>

lemma open_content:
  assumes "ok w" "nul_free t" "intact (sessions (mw_meta w)) m (mw_files w)"
    and "mpOpen m e t u ns w = (Inr (s, body), w')" "reader_err body = None" "ns \<noteq> []"
  shows "content body = concat (map (part_bytes m w t u) ns)"
proof -
  obtain r w1 where se: "mpSession m (call e 0) t u w = (r, w1)" by fastforce
  with assms(4,6) obtain rs where rs: "r = Inr s" "openPartFiles (call e 1) 0 s ns (mw_files w1) = Inr rs"
    "body = io_MultiReader rs" by (auto simp: mpOpen_def Let_def split: sum.splits if_splits)
  from mpSession_ok [OF assms(1,2) se] rs(1) have 1: "ok w1" "mw_files w1 = mw_files w" "mw_meta w1 = mw_meta w"
    "map_of (mw_uploads w1) (sessionKey t u) = Some s" by auto
  have same: "part_bytes m w1 t u = part_bytes m w t u" by (simp add: part_bytes_def 1 fun_eq_iff)
  have files: "map_of (up_Parts s) n = Some p \<Longrightarrow> mw_files w1 (pi_Path p) = Some (part_bytes m w t u n)" for n p
    using part_files [OF 1(1) assms(2) _ 1(4), of n p] assms(3) 1(2,3) same by simp
  from openPartFiles_content [OF rs(2) _ files] assms(5) rs(3) show ?thesis by simp
qed

text \<open>In an intact state an undisturbed \<open>Open\<close> delivers the listed parts in the given order.\<close>

lemma open_delivers:
  assumes "ok w" "nul_free t" "intact (sessions (mw_meta w)) m (mw_files w)"
    and "map_of (mw_uploads w) (sessionKey t u) = Some s"
  shows "\<exists>f. (\<forall>n p. map_of (up_Parts s) n = Some p \<longrightarrow> mw_files w (sessionDirectory m t u @ [''part-'' @ pad8 n]) = Some (f n)
      \<and> pi_Size p = int (length (f n)) \<and> pi_ETag p = part_etag m (f n))
    \<and> (\<forall>e ns. quiet e \<longrightarrow> ns \<noteq> [] \<longrightarrow> set ns \<subseteq> fst ` set (up_Parts s) \<longrightarrow>
        (\<exists>body. mpOpen m e t u ns w = (Inr (s, body), w) \<and> read_all body = Inr (concat (map f ns))))"
proof -
  note parts = part_files [OF assms]
  have "\<exists>body. mpOpen m e t u ns w = (Inr (s, body), w) \<and> read_all body = Inr (concat (map (part_bytes m w t u) ns))"
    if "quiet e" "ns \<noteq> []" "set ns \<subseteq> fst ` set (up_Parts s)" for e ns
  proof -
    have files: "map_of (up_Parts s) n = Some p \<Longrightarrow> mw_files w (pi_Path p) = Some (part_bytes m w t u n)" for n p
      using parts [of n p] by simp
    from openPartFiles_quiet [of "call e 1" s "mw_files w" "part_bytes m w t u" ns, OF _ files that(3)] that(1) obtain rs where
      rs: "openPartFiles (call e 1) 0 s ns (mw_files w) = Inr rs" "reader_err (io_MultiReader rs) = None" by auto
    from openPartFiles_content [OF rs files] have "content (io_MultiReader rs) = concat (map (part_bytes m w t u) ns)" .
    with rs that(1,2) assms(4) show ?thesis by (simp add: mpOpen_def mpSession_def read_all_Inr)
  qed
  moreover have "mw_files w (sessionDirectory m t u @ [''part-'' @ pad8 n]) = Some (part_bytes m w t u n)
      \<and> pi_Size p = int (length (part_bytes m w t u n)) \<and> pi_ETag p = part_etag m (part_bytes m w t u n)"
    if "map_of (up_Parts s) n = Some p" for n p
    using parts [OF that] by (elim conjE) simp
  ultimately show ?thesis by (intro exI [of _ "part_bytes m w t u"]) blast
qed

text \<open>After a restart and a complete \<open>LoadActive\<close> the loaded sessions are exactly the stored ones.\<close>

lemma restart_loads:
  assumes "ok w" "LoadActive m e (w\<lparr>mw_uploads := [], mw_used := 0\<rparr>) = (None, w')"
  shows "\<forall>t u. nul_free t \<longrightarrow> (map_of (mw_uploads w') (sessionKey t u) \<noteq> None \<longleftrightarrow> sessions (mw_meta w) (t, u) \<noteq> None)"
    and "\<forall>k s. map_of (mw_uploads w) k = Some s \<longrightarrow> (\<exists>s'. map_of (mw_uploads w') k = Some s' \<and> same_upload s s')"
    and "ok w'" "mw_files w' = mw_files w"
proof -
  from run_ok [OF assms(1), of e RestartCall] have ok0: "ok (w\<lparr>mw_uploads := [], mw_used := 0\<rparr>)"
    by (simp add: mp_run_def call_ok_def)
  note L = loadActive_ok [OF ok0 assms(2)]
  then show ok': "ok w'" and "mw_files w' = mw_files w" by simp_all
  from ok' L have mi': "mirrored (sessions (mw_meta w)) m (mw_uploads w')" by (simp add: mp_ok_def)
  from assms(1) have mi: "mirrored (sessions (mw_meta w)) m (mw_uploads w)" by (simp add: mp_ok_def)
  show all: "\<forall>t u. nul_free t \<longrightarrow> (map_of (mw_uploads w') (sessionKey t u) \<noteq> None \<longleftrightarrow> sessions (mw_meta w) (t, u) \<noteq> None)"
  proof (intro allI impI iffI)
    fix t u assume "nul_free t" "map_of (mw_uploads w') (sessionKey t u) \<noteq> None"
    with mirrored_at(3) [OF mi', of t u] show "sessions (mw_meta w) (t, u) \<noteq> None" by auto
  qed (use L in auto)
  show "\<forall>k s. map_of (mw_uploads w) k = Some s \<longrightarrow> (\<exists>s'. map_of (mw_uploads w') k = Some s' \<and> same_upload s s')"
  proof (intro allI impI)
    fix k s assume ks: "map_of (mw_uploads w) k = Some s"
    from map_of_SomeD [OF this] mi obtain ms where k: "k = sessionKey (up_Tenant s) (up_UploadID s)"
      "sessions (mw_meta w) (up_Tenant s, up_UploadID s) = Some ms" "same_upload s (sessionFromMetadata m ms)"
      unfolding mirrored_def by blast
    note nf = mirrored_stored(2) [OF mi k(2)]
    with all k obtain s' where s': "map_of (mw_uploads w') k = Some s'" by fastforce
    with mirrored_at(3) [OF mi' nf, of "up_UploadID s" s'] k have "same_upload s' (sessionFromMetadata m ms)" by auto
    with k(3) s' show "\<exists>s'. map_of (mw_uploads w') k = Some s' \<and> same_upload s s'"
      by (auto simp: same_upload_def)
  qed
qed

end

text \<open>The laws hold for the manager of the server over the in-memory store.\<close>

lemma serverManager_fields:
  "mg_store (serverManager md5 d c f p u) = Some memory_ops" "mg_counter (serverManager md5 d c f p u) = Some c"
  "mg_maxPartSize (serverManager md5 d c f p u) = p" "mg_maxUploadSize (serverManager md5 d c f p u) = u"
  "mg_md5 (serverManager md5 d c f p u) = md5" "mg_root (serverManager md5 d c f p u) = d"
  by (simp_all add: serverManager_def NewManager_def WithMetadataStore_def WithMaxPartSize_def
      WithMaxUploadSize_def WithDiskGuard_def mg_counter_def NewDiskGuard_def)

interpretation mem_mgr: multipart_manager memory_ops sessions_named mem_sessions
  "serverManager md5 scratchDir localCapacity minFree maxPart maxUpload" localCapacity
  by unfold_locales (simp_all add: serverManager_fields)

lemma mem_sessions_new: "mem_sessions NewMemoryStore tu = None"
  by (cases tu) (simp add: mem_sessions_def NewMemoryStore_def)

lemma start_ok: "mp_ok sessions_named mem_sessions (serverManager md5 d c f p u) mp_start"
  by (simp add: mp_ok_def mp_start_def sessions_named_new books_def reserved_sum_def mirrored_def
      mem_sessions_new within_def serverManager_fields in_int64_def min_int64_def max_int64_def)

lemma start_intact: "intact (mem_sessions (mw_meta mp_start)) m (mw_files mp_start)"
  by (simp add: intact_def mp_start_def mem_sessions_new)

section \<open>What the code does not guarantee\<close>

text \<open>The disk is never looked at when no bytes are asked for, so neither \<open>Create\<close>, \<open>PutPart\<close> nor the
  health check ever checks the scratch disk.\<close>

lemma checkDisk_zero: "checkDisk m e 0 used = None"
  by (simp add: checkDisk_def)

text \<open>Two parts of one upload in flight: when the first is rolled back after the second has taken
  its reservation, the session goes back to what it was before both, while the counter keeps the
  bytes of the second.\<close>

definition toy_manager :: "memory_store manager" where
  "toy_manager = serverManager (\<lambda>d. d) [''scratch''] 1000 0 100 100"

definition toy_part :: "int \<Rightarrow> int \<Rightarrow> part_info" where
  "toy_part n sz = \<lparr>pi_Number = n, pi_Size = sz, pi_ETag = [], pi_Path = []\<rparr>"

definition toy_upload :: upload where
  "toy_upload = \<lparr>up_UploadID = ''u'', up_Tenant = ''t'', up_Bucket = ''b'', up_Key = ''k'', up_Reserved = 0,
     up_CreatedAt = 1, up_Directory = [''scratch'', ''t'', ''u''], up_Headers = [], up_Parts = []\<rparr>"

definition toy_mp_world :: "memory_store mp_world" where
  "toy_mp_world = mp_start\<lparr>mw_uploads := [(sessionKey ''t'' ''u'', toy_upload)]\<rparr>"

definition interleaved :: "memory_store mp_world option" where
  "interleaved =
     (case reserveForPart toy_manager env0 ''t'' ''u'' 1 (toy_part 1 5) toy_mp_world of
        (Inr r1, w1) \<Rightarrow>
          (case reserveForPart toy_manager env0 ''t'' ''u'' 2 (toy_part 2 7) w1 of
             (Inr r2, w2) \<Rightarrow> Some (rollbackReservation toy_manager ''t'' ''u'' 1 r1 w2)
           | _ \<Rightarrow> None)
      | _ \<Rightarrow> None)"

lemma interleaved_rollback_leaks:
  "case interleaved of None \<Rightarrow> False | Some w \<Rightarrow> mw_used w = 7 \<and> reserved_sum (mw_uploads w) = 0"
  by code_simp

text \<open>The history of the witnesses: an upload is created and a part of three bytes is put.\<close>

definition toy_id :: string where
  "toy_id = randomUploadID env0"

definition toy_body :: reader where
  "toy_body = [([1, 2], NoErr), ([3], EOF)]"

definition toy_created :: "(env \<times> mp_call) list" where
  "toy_created = [(env0, CreateCall ''t'' ''bkt'' ''k'' 10 [])]"

definition toy_put :: "(env \<times> mp_call) list" where
  "toy_put = toy_created @ [(env0, PutCall ''t'' toy_id 1 toy_body)]"

lemma history_append:
  "mp_history m (xs @ ys) w = mp_history m ys (mp_history m xs w)"
  "history_ok ses m (xs @ ys) w = (history_ok ses m xs w \<and> history_ok ses m ys (mp_history m xs w))"
  "history_clean m (xs @ ys) w = (history_clean m xs w \<and> history_clean m ys (mp_history m xs w))"
  by (induction m xs w rule: mp_history.induct) simp_all

lemma toy_created_ok: "history_ok mem_sessions toy_manager toy_created mp_start" "history_clean toy_manager toy_created mp_start"
  by (simp_all add: toy_created_def call_ok_def call_clean_def nul_free_def mp_start_def mem_sessions_new
      in_int64_def min_int64_def max_int64_def quiet_ctx_plain)

lemma toy_put_call_ok: "call_ok mem_sessions env0 (PutCall ''t'' toy_id 1 toy_body) (mp_history toy_manager toy_created mp_start)"
proof -
  let ?w = "mp_history toy_manager toy_created mp_start"
  have "mp_ok sessions_named mem_sessions toy_manager ?w"
    using mem_mgr.history_keeps [OF start_ok toy_created_ok(1) [unfolded toy_manager_def]]
    by (simp add: toy_manager_def)
  then have mi: "mirrored (mem_sessions (mw_meta ?w)) toy_manager (mw_uploads ?w)" by (simp add: mp_ok_def)
  have "ms_reserved ms \<le> 100" if "mem_sessions (mw_meta ?w) (t, u) = Some ms" for t u ms
    using mirrored_stored(1) [OF mi that]
    by (simp add: upload_fits_def toy_manager_def serverManager_fields sessionFromMetadata_def)
  then show ?thesis by (fastforce simp: call_ok_def nul_free_def toy_body_def max_int64_def)
qed

lemma toy_put_ok: "history_ok mem_sessions toy_manager toy_put mp_start"
  using toy_created_ok(1) toy_put_call_ok by (simp add: toy_put_def history_append)

section \<open>Properties\<close>







end
