(* ===== verification/HttpLib.thy ===== *)
theory HttpLib
  imports GoLib "HOL-Library.Char_ord" "HOL-Library.List_Lexorder"
begin

text \<open>
  What the sources use of \<open>net/http\<close>, \<open>net/url\<close>, \<open>net/textproto\<close> and \<open>encoding/base64\<close>: requests
  and response writers, header names, query strings, percent-decoding, host names with ports,
  bodies with a size limit, and base64. Case mapping is that of ASCII; the sources apply it to
  header names, host names, tokens and hexadecimal digits.
\<close>

section \<open>Characters\<close>

abbreviation char_code :: "char \<Rightarrow> nat" where
  "char_code c \<equiv> of_char c"

definition lower_char :: "char \<Rightarrow> char" where
  "lower_char c = (if 65 \<le> char_code c \<and> char_code c \<le> 90 then char_of (char_code c + 32) else c)"

definition upper_char :: "char \<Rightarrow> char" where
  "upper_char c = (if 97 \<le> char_code c \<and> char_code c \<le> 122 then char_of (char_code c - 32) else c)"

definition to_lower :: "string \<Rightarrow> string" where
  "to_lower s = map lower_char s"

definition to_upper :: "string \<Rightarrow> string" where
  "to_upper s = map upper_char s"

definition equal_fold :: "string \<Rightarrow> string \<Rightarrow> bool" where
  "equal_fold s t \<longleftrightarrow> to_lower s = to_lower t"

lemma lower_char_idem [simp]: "lower_char (lower_char c) = lower_char c"
proof (cases "65 \<le> char_code c \<and> char_code c \<le> 90")
  case True
  then have "char_code (char_of (char_code c + 32) :: char) = char_code c + 32" by simp
  with True show ?thesis by (simp add: lower_char_def)
next
  case False
  then have "lower_char c = c" by (auto simp: lower_char_def)
  then show ?thesis by simp
qed

lemma to_lower_idem [simp]: "to_lower (to_lower s) = to_lower s"
  by (simp add: to_lower_def)

lemma to_lower_length [simp]: "length (to_lower s) = length s"
  by (simp add: to_lower_def)

lemma lower_hex_char: "is_lower_hex (char_code c) \<Longrightarrow> lower_char c = c"
  by (auto simp: is_lower_hex_def lower_char_def)

lemma to_lower_hex: "\<forall>c \<in> set s. is_lower_hex (char_code c) \<Longrightarrow> to_lower s = s"
  by (simp add: to_lower_def lower_hex_char map_idI)

text \<open>\<open>strings.Trim\<close>, \<open>TrimLeft\<close> and \<open>TrimRight\<close> with a one-byte cutset.\<close>

definition trim_left_byte :: "char \<Rightarrow> string \<Rightarrow> string" where
  "trim_left_byte d s = dropWhile (\<lambda>c. c = d) s"

definition trim_right_byte :: "char \<Rightarrow> string \<Rightarrow> string" where
  "trim_right_byte d s = rev (dropWhile (\<lambda>c. c = d) (rev s))"

definition trim_byte :: "char \<Rightarrow> string \<Rightarrow> string" where
  "trim_byte d s = trim_right_byte d (trim_left_byte d s)"

text \<open>\<open>strings.FieldsFunc\<close>: the maximal runs of runes that are no separators.\<close>

fun fields_segs :: "(nat \<Rightarrow> bool) \<Rightarrow> (nat \<times> bool \<times> string) list \<Rightarrow> string \<Rightarrow> string list" where
  "fields_segs sep [] cur = (if cur = [] then [] else [cur])"
| "fields_segs sep ((r, ok, t) # segs) cur =
     (if sep r then (if cur = [] then fields_segs sep segs [] else cur # fields_segs sep segs [])
      else fields_segs sep segs (cur @ t))"

definition fields_func :: "(nat \<Rightarrow> bool) \<Rightarrow> string \<Rightarrow> string list" where
  "fields_func sep s = fields_segs sep (rune_segments s) []"

definition string_fields :: "string \<Rightarrow> string list" where
  "string_fields s = fields_func is_space s"

section \<open>Requests and headers\<close>

text \<open>A request as the handler gets it. \<open>rq_Path\<close> and \<open>rq_EscapedPath\<close> are \<open>URL.Path\<close> and
  \<open>URL.EscapedPath()\<close> of the parsed request line; the header map has canonical keys.\<close>

record http_request =
  rq_Method :: string
  rq_Host :: string
  rq_Path :: string
  rq_EscapedPath :: string
  rq_RawQuery :: string
  rq_Header :: "(string, string list) gomap"
  rq_ContentLength :: int
  rq_Body :: reader

definition token_char :: "char \<Rightarrow> bool" where
  "token_char c \<longleftrightarrow> (48 \<le> char_code c \<and> char_code c \<le> 57) \<or> (65 \<le> char_code c \<and> char_code c \<le> 90)
     \<or> (97 \<le> char_code c \<and> char_code c \<le> 122) \<or> c \<in> set ''!#$%&*+-.^_`|~'' \<or> char_code c = 39"

fun canonical_loop :: "bool \<Rightarrow> string \<Rightarrow> string" where
  "canonical_loop upper [] = []"
| "canonical_loop upper (c # s) = (if upper then upper_char c else lower_char c) # canonical_loop (c = CHR ''-'') s"

definition CanonicalHeaderKey :: "string \<Rightarrow> string" where
  "CanonicalHeaderKey s = (if list_all token_char s then canonical_loop True s else s)"

definition header_values :: "(string, string list) gomap \<Rightarrow> string \<Rightarrow> string list" where
  "header_values h name = lookup_or [] h (CanonicalHeaderKey name)"

definition header_get :: "(string, string list) gomap \<Rightarrow> string \<Rightarrow> string" where
  "header_get h name = (case header_values h name of [] \<Rightarrow> [] | v # _ \<Rightarrow> v)"

definition header_set :: "string \<Rightarrow> string \<Rightarrow> (string, string list) gomap \<Rightarrow> (string, string list) gomap" where
  "header_set name v h = AList.update (CanonicalHeaderKey name) [v] h"

lemma header_get_set [simp]:
  "header_get (header_set k v h) j = (if CanonicalHeaderKey j = CanonicalHeaderKey k then v else header_get h j)"
  by (simp add: header_get_def header_values_def header_set_def)

lemma header_values_set:
  "header_values (header_set k v h) j = (if CanonicalHeaderKey j = CanonicalHeaderKey k then [v] else header_values h j)"
  by (simp add: header_values_def header_set_def)

section \<open>Query strings and percent-encoding\<close>

definition unhex :: "char \<Rightarrow> nat option" where
  "unhex c = (if 48 \<le> char_code c \<and> char_code c \<le> 57 then Some (char_code c - 48)
     else if 97 \<le> char_code c \<and> char_code c \<le> 102 then Some (char_code c - 87)
     else if 65 \<le> char_code c \<and> char_code c \<le> 70 then Some (char_code c - 55) else None)"

text \<open>\<open>url.unescape\<close>: in a query component \<open>+\<close> stands for a space.\<close>

fun unescape :: "bool \<Rightarrow> string \<Rightarrow> string option" where
  "unescape query [] = Some []"
| "unescape query (c # s) =
     (if c = CHR ''%'' then
        (case s of
           a # b # t \<Rightarrow>
             (case (unhex a, unhex b) of
                (Some h, Some l) \<Rightarrow> map_option (\<lambda>r. char_of (16 * h + l) # r) (unescape query t)
              | _ \<Rightarrow> None)
         | _ \<Rightarrow> None)
      else map_option (\<lambda>r. (if query \<and> c = CHR ''+'' then CHR '' '' else c) # r) (unescape query s))"

definition PathUnescape :: "string \<Rightarrow> string option" where
  "PathUnescape s = unescape False s"

definition QueryUnescape :: "string \<Rightarrow> string option" where
  "QueryUnescape s = unescape True s"

definition append_value :: "string \<Rightarrow> string \<Rightarrow> (string, string list) gomap \<Rightarrow> (string, string list) gomap" where
  "append_value k v m = AList.update k (lookup_or [] m k @ [v]) m"

fun parse_pairs :: "string list \<Rightarrow> (string, string list) gomap \<Rightarrow> (string, string list) gomap" where
  "parse_pairs [] m = m"
| "parse_pairs (p # ps) m =
     (if CHR '';'' \<in> set p \<or> p = [] then parse_pairs ps m
      else (case cut_at CHR ''='' p of
              (k, v, found) \<Rightarrow>
                (case (QueryUnescape k, QueryUnescape v) of
                   (Some k', Some v') \<Rightarrow> parse_pairs ps (append_value k' v' m)
                 | _ \<Rightarrow> parse_pairs ps m)))"

text \<open>\<open>url.ParseQuery\<close> with its error ignored, as \<open>URL.Query\<close> does; a query with more parameters
  than the library's limit is rejected as a whole.\<close>

definition max_query_params :: nat where
  "max_query_params = 10000"

definition parse_query :: "string \<Rightarrow> (string, string list) gomap" where
  "parse_query raw =
     (let pairs = split_at CHR ''&'' raw
      in if max_query_params < length pairs then [] else parse_pairs pairs [])"

definition rq_Query :: "http_request \<Rightarrow> (string, string list) gomap" where
  "rq_Query r = parse_query (rq_RawQuery r)"

definition query_get :: "http_request \<Rightarrow> string \<Rightarrow> string" where
  "query_get r name = (case lookup_or [] (rq_Query r) name of [] \<Rightarrow> [] | v # _ \<Rightarrow> v)"

section \<open>Hosts\<close>

text \<open>\<open>net.SplitHostPort\<close>; only the host is used.\<close>

definition last_index :: "char \<Rightarrow> string \<Rightarrow> nat option" where
  "last_index d s = (if d \<in> set s then Some (length s - 1 - length (takeWhile (\<lambda>c. c \<noteq> d) (rev s))) else None)"

definition SplitHostPort :: "string \<Rightarrow> string option" where
  "SplitHostPort s =
     (case last_index CHR '':'' s of
        None \<Rightarrow> None
      | Some i \<Rightarrow>
          if s \<noteq> [] \<and> hd s = CHR ''['' then
            (if CHR '']'' \<notin> set s then None
             else (let e = length (takeWhile (\<lambda>c. c \<noteq> CHR '']'') s) in
               if e + 1 \<noteq> i then None
               else if CHR ''['' \<in> set (drop 1 s) \<or> CHR '']'' \<in> set (drop (e + 1) s) then None
               else Some (take (e - 1) (drop 1 s))))
          else if CHR '':'' \<in> set (take i s) then None
          else if CHR ''['' \<in> set s \<or> CHR '']'' \<in> set s then None
          else Some (take i s))"

section \<open>Bodies\<close>

text \<open>\<open>http.MaxBytesReader\<close>: the first \<open>n\<close> bytes of the body, and an error if there are more.\<close>

fun max_bytes_reader :: "nat \<Rightarrow> reader \<Rightarrow> reader" where
  "max_bytes_reader n [] = []"
| "max_bytes_reader n ((bs, st) # rs) =
     (if length bs \<le> n then (bs, st) # max_bytes_reader (n - length bs) rs
      else [(take n bs, ReadErr ErrMaxBytes)])"

lemma max_bytes_within:
  "length (content rd) \<le> n \<Longrightarrow>
   content (max_bytes_reader n rd) = content rd \<and> reader_err (max_bytes_reader n rd) = reader_err rd"
proof (induction n rd rule: max_bytes_reader.induct)
  case (2 n bs st rs)
  then show ?case by (cases st) auto
qed simp

lemma max_bytes_beyond:
  "n < length (content rd) \<Longrightarrow>
   content (max_bytes_reader n rd) = take n (content rd) \<and> reader_err (max_bytes_reader n rd) = Some ErrMaxBytes"
proof (induction n rd rule: max_bytes_reader.induct)
  case (2 n bs st rs)
  then show ?case by (cases st) auto
qed simp

lemma max_bytes_cases:
  "reader_err (max_bytes_reader n rd) = None \<Longrightarrow>
   content (max_bytes_reader n rd) = content rd \<and> length (content rd) \<le> n"
  using max_bytes_within [of rd n] max_bytes_beyond [of n rd] by (cases "length (content rd) \<le> n") auto

section \<open>Base64\<close>

definition base64_digit :: "nat \<Rightarrow> char" where
  "base64_digit n = ''ABCDEFGHIJKLMNOPQRSTUVWXYZabcdefghijklmnopqrstuvwxyz0123456789+/'' ! n"

definition base64_value :: "char \<Rightarrow> nat option" where
  "base64_value c = (if 65 \<le> char_code c \<and> char_code c \<le> 90 then Some (char_code c - 65)
     else if 97 \<le> char_code c \<and> char_code c \<le> 122 then Some (char_code c - 71)
     else if 48 \<le> char_code c \<and> char_code c \<le> 57 then Some (char_code c + 4)
     else if c = CHR ''+'' then Some 62 else if c = CHR ''/'' then Some 63 else None)"

fun base64_encode :: "bytes \<Rightarrow> string" where
  "base64_encode [] = []"
| "base64_encode [a] =
     [base64_digit (unat a div 4), base64_digit (unat a mod 4 * 16), CHR ''='', CHR ''='']"
| "base64_encode [a, b] =
     [base64_digit (unat a div 4), base64_digit (unat a mod 4 * 16 + unat b div 16),
      base64_digit (unat b mod 16 * 4), CHR ''='']"
| "base64_encode (a # b # c # bs) =
     base64_digit (unat a div 4) # base64_digit (unat a mod 4 * 16 + unat b div 16)
     # base64_digit (unat b mod 16 * 4 + unat c div 64) # base64_digit (unat c mod 64) # base64_encode bs"

text \<open>\<open>base64.StdEncoding.DecodeString\<close> skips line breaks; padding ends the text; the bits beyond
  the last byte are not checked.\<close>

fun base64_quads :: "string \<Rightarrow> bytes option" where
  "base64_quads [] = Some []"
| "base64_quads (p # q # r # s # cs) =
     (case (base64_value p, base64_value q) of
        (Some x, Some y) \<Rightarrow>
          if r = CHR ''='' then
            (if s = CHR ''='' \<and> cs = [] then Some [of_nat (x * 4 + y div 16)] else None)
          else (case base64_value r of
            None \<Rightarrow> None
          | Some z \<Rightarrow>
              if s = CHR ''='' then
                (if cs = [] then Some [of_nat (x * 4 + y div 16), of_nat (y mod 16 * 16 + z div 4)] else None)
              else (case base64_value s of
                None \<Rightarrow> None
              | Some w \<Rightarrow> map_option (\<lambda>r. of_nat (x * 4 + y div 16) # of_nat (y mod 16 * 16 + z div 4)
                  # of_nat (z mod 4 * 64 + w) # r) (base64_quads cs)))
      | _ \<Rightarrow> None)"
| "base64_quads _ = None"

definition base64_decode :: "string \<Rightarrow> bytes option" where
  "base64_decode s = base64_quads (filter (\<lambda>c. char_code c \<noteq> 10 \<and> char_code c \<noteq> 13) s)"

lemma base64_table: "\<forall>n \<in> set [0..<64]. base64_value (base64_digit n) = Some n \<and> base64_digit n \<noteq> CHR ''=''
    \<and> 32 < char_code (base64_digit n)"
  by (simp add: upt_rec base64_digit_def base64_value_def)

lemma base64_digit_value [simp]:
  "n < 64 \<Longrightarrow> base64_value (base64_digit n) = Some n"
  "n < 64 \<Longrightarrow> base64_digit n \<noteq> CHR ''=''"
  "n < 64 \<Longrightarrow> char_code (base64_digit n) \<noteq> 10 \<and> char_code (base64_digit n) \<noteq> 13"
  using bspec [OF base64_table, of n] by auto

lemma byte_lt: "unat (x :: byte) < 256"
proof -
  have "unat x < 2 ^ LENGTH(8)" by (rule unsigned_less)
  then show ?thesis by simp
qed

lemma byte_divs: "unat (x :: byte) div 4 < 64" "unat x div 16 < 16" "unat x div 64 < 4"
  using byte_lt [of x] by (simp_all add: div_less_iff_less_mult)

lemma byte_mods: "unat (x :: byte) mod 4 < 4" "unat x mod 16 < 16" "unat x mod 64 < 64"
  by simp_all

lemma byte_parts:
  fixes a b c :: byte
  shows "unat a div 4 < 64" "unat a mod 4 * 16 + unat b div 16 < 64"
    "unat b mod 16 * 4 + unat c div 64 < 64" "unat c mod 64 < 64" "unat a mod 4 * 16 < 64" "unat b mod 16 * 4 < 64"
  using byte_divs(1) [of a] byte_divs(2) [of b] byte_divs(3) [of c] byte_mods(1) [of a] byte_mods(2) [of b]
    byte_mods(3) [of c] by linarith+

lemma byte_join:
  fixes b c :: byte
  shows "unat b div 16 div 16 = 0" "unat b div 16 mod 16 * 16 + unat b mod 16 = unat b"
    "unat c div 64 div 4 = 0" "unat c div 64 mod 4 * 64 + unat c mod 64 = unat c"
  using byte_divs [of b] byte_divs [of c] by simp_all

lemma base64_clean: "c \<in> set (base64_encode d) \<Longrightarrow> char_code c \<noteq> 10 \<and> char_code c \<noteq> 13"
  by (induction d rule: base64_encode.induct) (auto simp: byte_parts)

text \<open>Encoding and decoding are inverse.\<close>

lemma base64_roundtrip [simp]: "base64_decode (base64_encode d) = Some d"
proof -
  have "base64_quads (base64_encode d) = Some d"
    by (induction d rule: base64_encode.induct)
      (simp_all del: of_nat_add of_nat_mult add: byte_parts byte_join)
  moreover have "filter (\<lambda>c. char_code c \<noteq> 10 \<and> char_code c \<noteq> 13) (base64_encode d) = base64_encode d"
    by (rule filter_True) (use base64_clean in blast)
  ultimately show ?thesis by (simp only: base64_decode_def)
qed

section \<open>Lemmas on separators\<close>

lemma split_at_nonempty [simp]: "split_at d s \<noteq> []"
  by (induction d s rule: split_at.induct) (auto split: list.splits)

lemma split_at_free: "d \<notin> set s \<Longrightarrow> split_at d s = [s]"
  by (induction d s rule: split_at.induct) auto

lemma split_at_append: "d \<notin> set a \<Longrightarrow> split_at d (a @ d # s) = a # split_at d s"
  by (induction a) (auto split: list.splits)

lemma join_with_Cons: "join_with sep (f # fs) = (if fs = [] then f else f @ sep @ join_with sep fs)"
  by (cases fs) (simp_all add: join_with_def)

lemma split_join:
  "fs \<noteq> [] \<Longrightarrow> \<forall>f \<in> set fs. d \<notin> set f \<Longrightarrow> split_at d (join_with [d] fs) = fs"
proof (induction fs)
  case (Cons f fs)
  then show ?case by (cases "fs = []") (simp_all add: join_with_Cons split_at_free split_at_append)
qed simp

lemma join_inj:
  assumes "\<forall>f \<in> set fs. d \<notin> set f \<and> f \<noteq> []" "\<forall>g \<in> set gs. d \<notin> set g \<and> g \<noteq> []"
    and "join_with [d] fs = join_with [d] gs"
  shows "fs = gs"
proof -
  have nil: "join_with [d] hs = [] \<longleftrightarrow> hs = []" if "\<forall>h \<in> set hs. d \<notin> set h \<and> h \<noteq> []" for hs :: "string list"
    using that by (cases hs) (auto simp: join_with_def)
  show ?thesis
  proof (cases "fs = [] \<or> gs = []")
    case True
    with assms nil [of fs] nil [of gs] show ?thesis by (auto simp: join_with_def)
  next
    case False
    with assms split_join [of fs d] split_join [of gs d] show ?thesis by metis
  qed
qed

lemma set_join_with: "set (join_with sep fs) \<subseteq> set sep \<union> \<Union> (set ` set fs)"
  by (auto simp: join_with_def split: list.splits)

lemma cut_sep:
  assumes "a @ d # x = b @ d # y" "d \<notin> set a" "d \<notin> set b"
  shows "a = b \<and> x = y"
proof -
  have tw: "takeWhile (\<lambda>c. c \<noteq> d) (z @ d # w) = z" if "d \<notin> set z" for z w
    using that by (induction z) auto
  from tw [OF assms(2)] tw [OF assms(3)] assms(1) have "a = b" by metis
  with assms(1) show ?thesis by simp
qed

lemma cut_at_append: "d \<notin> set a \<Longrightarrow> cut_at d (a @ d # b) = (a, b, True)"
  by (induction a) (auto simp: cut_at_def)

text \<open>A byte below 128 is a rune of its own.\<close>

lemma decode_width:
  assumes "decode_rune cs = (r, n, ok)" "i < n" "i < length cs" "0 < i"
  shows "128 \<le> cs ! i"
proof (cases cs)
  case Nil
  with assms show ?thesis by simp
next
  case (Cons p rest)
  obtain lo hi where lh: "second_range p = (lo, hi)" by (cases "second_range p")
  then have lo: "128 \<le> lo" by (auto simp: second_range_def split: if_splits)
  from assms(1) Cons lh lo have "n \<le> 4"
    and "1 < n \<Longrightarrow> 0 < length rest \<and> 128 \<le> rest ! 0"
    and "2 < n \<Longrightarrow> 1 < length rest \<and> 128 \<le> rest ! 1"
    and "3 < n \<Longrightarrow> 2 < length rest \<and> 128 \<le> rest ! 2"
    by (auto simp: decode_rune_def Let_def cont_byte_def split: if_splits list.splits)
  moreover have "i = 1 \<or> i = 2 \<or> i = 3" using \<open>n \<le> 4\<close> assms by linarith
  ultimately show ?thesis using Cons assms by auto
qed

lemma segment_byte:
  assumes "(r, ok, t) \<in> set (rune_segments s)" "c \<in> set t" "char_code c < 128"
  shows "t = [c] \<and> r = char_code c"
  using assms(1)
proof (induction s rule: rune_segments.induct)
  case (1 s)
  show ?case
  proof (cases s)
    case Nil
    with 1 show ?thesis by simp
  next
    case (Cons h u)
    obtain r' n ok' where d: "decode_rune (str_bytes s) = (r', n, ok')" by (metis prod_cases3)
    have seg: "rune_segments s = (r', ok', take (max 1 n) s) # rune_segments (drop (max 1 n) s)"
      using Cons d by (subst rune_segments.simps) simp
    show ?thesis
    proof (cases "(r, ok, t) \<in> set (rune_segments (drop (max 1 n) s))")
      case True
      with 1 Cons d show ?thesis by simp
    next
      case False
      with 1(2) seg have t: "t = take (max 1 n) s" "r = r'" by auto
      with assms(2) obtain i where i: "i < max 1 n" "i < length s" "s ! i = c" by (auto simp: in_set_conv_nth)
      have "i = 0"
      proof (rule ccontr)
        assume "i \<noteq> 0"
        with i have "128 \<le> str_bytes s ! i" by (intro decode_width [OF d]) (auto simp: str_bytes_def)
        with i assms(3) show False by (simp add: str_bytes_def)
      qed
      with i Cons have "h = c" by simp
      with assms(3) Cons d have "n = 1" "r' = char_code c" by (auto simp: str_bytes_def decode_ascii)
      with t Cons \<open>h = c\<close> show ?thesis by simp
    qed
  qed
qed

lemma fields_segs_free:
  assumes "sep (char_code c)"
  shows "\<forall>(r, ok, t) \<in> set segs. c \<in> set t \<longrightarrow> r = char_code c \<Longrightarrow> c \<notin> set cur \<Longrightarrow>
    \<forall>f \<in> set (fields_segs sep segs cur). c \<notin> set f"
proof (induction segs arbitrary: cur)
  case (Cons x segs)
  obtain r ok t where x: "x = (r, ok, t)" by (metis prod_cases3)
  have rest: "\<forall>(r, ok, t) \<in> set segs. c \<in> set t \<longrightarrow> r = char_code c" using Cons.prems(1) by simp
  show ?case
  proof (cases "sep r")
    case True
    with Cons.IH [OF rest, of "[]"] Cons.prems(2) x show ?thesis by simp
  next
    case False
    with assms Cons.prems(1) x have "c \<notin> set t" by auto
    with False Cons.IH [OF rest, of "cur @ t"] Cons.prems(2) x show ?thesis by simp
  qed
qed simp

lemma string_fields_free:
  assumes "char_code c < 128" "is_space (char_code c)" "f \<in> set (string_fields s)"
  shows "c \<notin> set f"
proof -
  have "\<forall>(r, ok, t) \<in> set (rune_segments s). c \<in> set t \<longrightarrow> r = char_code c"
    using assms(1) by (auto dest: segment_byte)
  with fields_segs_free [of is_space c "rune_segments s" "[]"] assms(2,3)
  show ?thesis by (simp add: string_fields_def fields_func_def)
qed

section \<open>Lemmas on ASCII text\<close>

lemma rune_segments_plain:
  "\<forall>c \<in> set s. char_code c < 128 \<Longrightarrow> rune_segments s = map (\<lambda>c. (char_code c, True, [c])) s"
  by (induction s) (simp_all add: rune_segments_ascii)

definition visible :: "char \<Rightarrow> bool" where
  "visible c \<longleftrightarrow> 32 < char_code c \<and> char_code c < 128"

lemma visible_not_space: "visible c \<Longrightarrow> \<not> is_space (char_code c)"
  by (auto simp: visible_def is_space_def)

lemma concat_singles: "concat (map (\<lambda>(_, _, t). t) (map (\<lambda>c. (f c, ok, [c])) s)) = s"
  by (induction s) simp_all

lemma trim_space_visible:
  assumes "\<forall>c \<in> set s. visible c"
  shows "trim_space s = s"
proof -
  have seg: "rune_segments s = map (\<lambda>c. (char_code c, True, [c])) s"
    using assms by (intro rune_segments_plain) (auto simp: visible_def)
  have keep: "dropWhile (\<lambda>(r, ok, _). is_space r) (map (\<lambda>c. (char_code c, True, [c])) t)
      = map (\<lambda>c. (char_code c, True, [c])) t" if "\<forall>c \<in> set t. visible c" for t
    using that by (cases t) (simp_all add: visible_not_space)
  from keep [OF assms] keep [of "rev s"] assms show ?thesis
    by (simp add: trim_space_def seg Let_def rev_map concat_singles del: map_map)
qed

lemma digit_visible: "is_digit (char_code c) \<Longrightarrow> visible c"
  by (simp add: is_digit_def visible_def)

lemma format_int_digits: "0 \<le> n \<Longrightarrow> c \<in> set (format_int n) \<Longrightarrow> is_digit (char_code c)"
  by (auto simp: format_int_def dest: nat_digits_digits)

lemma format_int_nonempty [simp]: "format_int n \<noteq> []"
  by (simp add: format_int_def)

lemma trim_format_int [simp]: "0 \<le> n \<Longrightarrow> trim_space (format_int n) = format_int n"
  by (rule trim_space_visible) (simp add: digit_visible format_int_digits)

lemma has_prefix_append [simp]: "has_prefix (p @ s) p"
  by (simp add: has_prefix_def)

lemma trim_prefix_append [simp]: "trim_prefix (p @ s) p = s"
  by (simp add: trim_prefix_def)

lemma trim_space_Nil [simp]: "trim_space [] = []"
  by (simp add: trim_space_def)

end
