(* ===== verification/GoTime.thy ===== *)
theory GoTime
  imports HttpLib
begin

text \<open>
  What the sources use of Go's \<open>time\<close> package: dates in UTC from Unix time, their formatting and
  parsing. Proved: the date computed from an instant is that instant, and a formatted date is
  parsed back to itself.
\<close>

section \<open>Times\<close>

text \<open>\<open>time.Parse\<close> with the layout \<open>20060102T150405Z\<close>: four digits of the year, two of month, day,
  minute and second, one or two of the hour, and an optional fraction after the seconds, which
  the library accepts although the layout has none.\<close>

record amz_time =
  at_year :: nat
  at_month :: nat
  at_day :: nat
  at_hour :: nat
  at_minute :: nat
  at_second :: nat
  at_nanos :: nat

definition digit_char :: "char \<Rightarrow> bool" where
  "digit_char c \<longleftrightarrow> is_digit (of_char c)"

definition getnum :: "bool \<Rightarrow> string \<Rightarrow> (nat \<times> string) option" where
  "getnum fixed s =
     (case s of
        [] \<Rightarrow> None
      | a # t \<Rightarrow>
          if \<not> digit_char a then None
          else (case t of
                  [] \<Rightarrow> (if fixed then None else Some (digits_value [a], t))
                | b # u \<Rightarrow> if digit_char b then Some (digits_value [a, b], u)
                          else if fixed then None else Some (digits_value [a], t)))"

definition skip_char :: "char \<Rightarrow> string \<Rightarrow> string option" where
  "skip_char c s = (case s of a # t \<Rightarrow> if a = c then Some t else None | [] \<Rightarrow> None)"

definition take_fraction :: "string \<Rightarrow> nat \<times> string" where
  "take_fraction s =
     (case s of
        c # d # t \<Rightarrow>
          if (c = CHR ''.'' \<or> c = CHR '','') \<and> digit_char d
          then (let ds = takeWhile digit_char (d # t)
                in (digits_value (take 9 (ds @ replicate 9 CHR ''0'')), dropWhile digit_char (d # t)))
          else (0, s)
      | _ \<Rightarrow> (0, s))"

definition leap_year :: "nat \<Rightarrow> bool" where
  "leap_year y \<longleftrightarrow> y mod 4 = 0 \<and> (y mod 100 \<noteq> 0 \<or> y mod 400 = 0)"

definition month_days :: "nat \<Rightarrow> nat \<Rightarrow> nat" where
  "month_days y m = (if m = 2 then (if leap_year y then 29 else 28)
     else if m \<in> {4, 6, 9, 11} then 30 else 31)"

definition parse_amz_time :: "string \<Rightarrow> amz_time option" where
  "parse_amz_time s =
     (if length s < 4 \<or> \<not> list_all digit_char (take 4 s) then None else
      case getnum True (drop 4 s) of None \<Rightarrow> None | Some (mo, s1) \<Rightarrow>
      case getnum True s1 of None \<Rightarrow> None | Some (d, s2) \<Rightarrow>
      case skip_char CHR ''T'' s2 of None \<Rightarrow> None | Some s3 \<Rightarrow>
      case getnum False s3 of None \<Rightarrow> None | Some (h, s4) \<Rightarrow>
      case getnum True s4 of None \<Rightarrow> None | Some (mi, s5) \<Rightarrow>
      case getnum True s5 of None \<Rightarrow> None | Some (sec, s6) \<Rightarrow>
      case take_fraction s6 of (frac, s7) \<Rightarrow>
      case skip_char CHR ''Z'' s7 of None \<Rightarrow> None | Some s8 \<Rightarrow>
      (let y = digits_value (take 4 s) in
       if s8 \<noteq> [] \<or> mo < 1 \<or> 12 < mo \<or> 23 < h \<or> 59 < mi \<or> 59 < sec \<or> d < 1 \<or> month_days y mo < d then None
       else Some \<lparr>at_year = y, at_month = mo, at_day = d, at_hour = h, at_minute = mi, at_second = sec,
                  at_nanos = frac\<rparr>))"

definition pad_digits :: "nat \<Rightarrow> nat \<Rightarrow> string" where
  "pad_digits w n = (let d = nat_digits n in replicate (w - length d) CHR ''0'' @ d)"

definition format_date :: "amz_time \<Rightarrow> string" where
  "format_date t = pad_digits 4 (at_year t) @ pad_digits 2 (at_month t) @ pad_digits 2 (at_day t)"

definition format_amz_time :: "amz_time \<Rightarrow> string" where
  "format_amz_time t = format_date t @ ''T'' @ pad_digits 2 (at_hour t) @ pad_digits 2 (at_minute t)
     @ pad_digits 2 (at_second t) @ ''Z''"

text \<open>Unix time in nanoseconds; there are 719162 days from 1 January of the year 1 to the epoch.\<close>

definition days_before_month :: "nat \<Rightarrow> nat \<Rightarrow> nat" where
  "days_before_month y m = (\<Sum>i \<in> {1..<m}. month_days y i)"

definition time_nanos :: "amz_time \<Rightarrow> int" where
  "time_nanos t =
     (let y = int (at_year t) - 1;
          days = 365 * y + y div 4 - y div 100 + y div 400 + int (days_before_month (at_year t) (at_month t))
            + int (at_day t) - 1 - 719162
      in (((days * 24 + int (at_hour t)) * 60 + int (at_minute t)) * 60 + int (at_second t)) * 1000000000
         + int (at_nanos t))"

text \<open>\<open>time.Time.Sub\<close> saturates.\<close>

definition duration_sub :: "int \<Rightarrow> int \<Rightarrow> int" where
  "duration_sub a b = max min_int64 (min max_int64 (a - b))"

text \<open>\<open>time.Time\<close> in UTC from Unix nanoseconds, as the library computes a date: 400-year cycles,
  centuries, 4-year cycles and years of a proleptic Gregorian calendar that starts in the year 1.\<close>

function month_from :: "nat \<Rightarrow> nat \<Rightarrow> nat \<Rightarrow> nat \<times> nat" where
  "month_from y m yday = (if 12 \<le> m \<or> yday < month_days y m then (m, yday + 1)
     else month_from y (m + 1) (yday - month_days y m))"
  by pat_completeness auto
termination by (relation "measure (\<lambda>(y, m, d). 12 - m)") auto

declare month_from.simps [simp del]

definition civil_year :: "nat \<Rightarrow> nat \<times> nat" where
  "civil_year days =
     (let c = days div 146097; r = days mod 146097;
          q = min 3 (r div 36524); r2 = r - q * 36524;
          k = r2 div 1461; r3 = r2 mod 1461;
          j = min 3 (r3 div 365)
      in (400 * c + 100 * q + 4 * k + j + 1, r3 - j * 365))"

definition utc_time :: "int \<Rightarrow> amz_time" where
  "utc_time nanos =
     (let secs = nanos div 1000000000; days = secs div 86400; rest = nat (secs mod 86400);
          (y, yday) = civil_year (nat (days + 719162)); (mo, d) = month_from y 1 yday
      in \<lparr>at_year = y, at_month = mo, at_day = d, at_hour = rest div 3600, at_minute = rest mod 3600 div 60,
          at_second = rest mod 60, at_nanos = nat (nanos mod 1000000000)\<rparr>)"

section \<open>Dates\<close>

lemma civil_year_parts:
  assumes "civil_year days = (y, yday)"
  obtains c q k j where "y = 400 * c + 100 * q + 4 * k + j + 1"
    "days = 146097 * c + 36524 * q + 1461 * k + 365 * j + yday" "q \<le> 3" "k \<le> 24" "j \<le> 3"
    "yday < 365 \<or> (yday = 365 \<and> j = 3 \<and> (k = 24 \<longrightarrow> q = 3))"
proof -
  define c r where "c = days div 146097" and "r = days mod 146097"
  define q where "q = min 3 (r div 36524)"
  define r2 where "r2 = r - q * 36524"
  define k r3 where "k = r2 div 1461" and "r3 = r2 mod 1461"
  define j where "j = min 3 (r3 div 365)"
  have y: "y = 400 * c + 100 * q + 4 * k + j + 1" "yday = r3 - j * 365"
    using assms by (simp_all add: civil_year_def c_def r_def q_def r2_def k_def r3_def j_def Let_def)
  have d: "days = 146097 * c + r" "r < 146097" by (simp_all add: c_def r_def)
  have q: "q \<le> 3" "q * 36524 \<le> r" "q < 3 \<longrightarrow> r < (q + 1) * 36524"
    by (auto simp: q_def min_def split: if_splits)
  have r2: "r = q * 36524 + r2" "q < 3 \<longrightarrow> r2 < 36524" "r2 \<le> 36524" using q d(2) by (auto simp: r2_def)
  have r3: "r2 = 1461 * k + r3" "r3 < 1461" by (simp_all add: k_def r3_def)
  have j: "j \<le> 3" "j * 365 \<le> r3" "j < 3 \<longrightarrow> r3 < (j + 1) * 365"
    by (auto simp: j_def min_def split: if_splits)
  have yd: "r3 = j * 365 + yday" "j < 3 \<longrightarrow> yday < 365" "yday \<le> 365" using j r3(2) y(2) by auto
  have k: "k \<le> 24" using r2(3) r3 by linarith
  have "q = 3" if "yday = 365" "k = 24"
  proof (rule ccontr)
    assume "q \<noteq> 3"
    with q(1) r2(2) have "r2 < 36524" by simp
    moreover have "j = 3" using yd(2) j(1) that(1) by linarith
    ultimately show False using r3(1) yd(1) that by simp
  qed
  moreover have "yday = 365 \<longrightarrow> j = 3" using yd(2) j(1) by linarith
  ultimately have "yday < 365 \<or> (yday = 365 \<and> j = 3 \<and> (k = 24 \<longrightarrow> q = 3))" using yd(3) by auto
  moreover have "days = 146097 * c + 36524 * q + 1461 * k + 365 * j + yday" using d(1) r2(1) r3(1) yd(1) by simp
  ultimately show ?thesis using that y(1) q(1) k j(1) by blast
qed

lemma leap_parts:
  assumes "k \<le> (24 :: nat)" "q \<le> 3" "k = 24 \<longrightarrow> q = 3"
  shows "leap_year (400 * c + 100 * q + 4 * k + 4)"
proof (cases "k = 24")
  case True
  with assms have "400 * c + 100 * q + 4 * k + 4 = 400 * (c + 1)" by simp
  then show ?thesis unfolding leap_year_def by (simp only: mod_mult_self1_is_0 simp_thms) presburger
next
  case False
  have "400 * c + 100 * q + 4 * k + 4 = (4 * k + 4) + 100 * (4 * c + q)" by simp
  then have "(400 * c + 100 * q + 4 * k + 4) mod 100 = (4 * k + 4) mod 100" by (simp only: mod_mult_self2)
  also have "\<dots> = 4 * k + 4" using False assms(1) by simp
  finally have "(400 * c + 100 * q + 4 * k + 4) mod 100 \<noteq> 0" by simp
  moreover have "(400 * c + 100 * q + 4 * k + 4) mod 4 = 0" by presburger
  ultimately show ?thesis by (simp add: leap_year_def)
qed

text \<open>The days before a year, in the form of \<open>time_nanos\<close>.\<close>

definition days_before_year :: "int \<Rightarrow> int" where
  "days_before_year y = 365 * (y - 1) + (y - 1) div 4 - (y - 1) div 100 + (y - 1) div 400"

lemma civil_year_correct:
  assumes "civil_year days = (y, yday)"
  shows "1 \<le> y" "yday < (if leap_year y then 366 else 365)" "days_before_year (int y) + int yday = int days"
proof -
  from civil_year_parts [OF assms] obtain c q k j where p: "y = 400 * c + 100 * q + 4 * k + j + 1"
    "days = 146097 * c + 36524 * q + 1461 * k + 365 * j + yday" "q \<le> 3" "k \<le> 24" "j \<le> 3"
    "yday < 365 \<or> (yday = 365 \<and> j = 3 \<and> (k = 24 \<longrightarrow> q = 3))" .
  show "1 \<le> y" by (simp add: p(1))
  show "yday < (if leap_year y then 366 else 365)"
  proof (cases "yday < 365")
    case False
    with p(6) have e: "yday = 365" "j = 3" "k = 24 \<longrightarrow> q = 3" by auto
    have "y = 400 * c + 100 * q + 4 * k + 4" by (simp add: p(1) e(2))
    with leap_parts [OF p(4,3) e(3), of c] e(1) show ?thesis by (simp only: if_True)
  qed simp
  define Y where "Y = int y - 1"
  have Y: "Y = 400 * int c + 100 * int q + 4 * int k + int j" by (simp add: Y_def p(1))
  have "Y div 4 = 100 * int c + 25 * int q + int k" "Y div 100 = 4 * int c + int q" "Y div 400 = int c"
    using p(3-5) int_div_pos_eq [of Y 4 "100 * int c + 25 * int q + int k" "int j"]
      int_div_pos_eq [of Y 100 "4 * int c + int q" "4 * int k + int j"]
      int_div_pos_eq [of Y 400 "int c" "100 * int q + 4 * int k + int j"] by (simp_all add: Y)
  then show "days_before_year (int y) + int yday = int days"
    by (simp add: days_before_year_def Y_def [symmetric]) (simp add: Y p(2))
qed

lemma month_days_pos: "28 \<le> month_days y m \<and> month_days y m \<le> 31"
  by (simp add: month_days_def)

lemma days_before_Suc: "1 \<le> m \<Longrightarrow> days_before_month y (m + 1) = days_before_month y m + month_days y m"
  by (simp add: days_before_month_def)

lemma days_before_year_end: "days_before_month y 13 = (if leap_year y then 366 else 365)"
proof -
  have "{1..<13} = set [1..<13 :: nat]" by simp
  then show ?thesis unfolding days_before_month_def by (simp add: upt_rec month_days_def)
qed

lemma month_from_correct:
  "month_from y m d = (m', dd) \<Longrightarrow> 1 \<le> m \<Longrightarrow> m \<le> 12 \<Longrightarrow> days_before_month y m + d < days_before_month y 13 \<Longrightarrow>
   1 \<le> m' \<and> m' \<le> 12 \<and> 1 \<le> dd \<and> dd \<le> month_days y m' \<and> days_before_month y m' + dd = days_before_month y m + d + 1"
proof (induction y m d rule: month_from.induct)
  case (1 y m d)
  show ?case
  proof (cases "12 \<le> m \<or> d < month_days y m")
    case True
    with 1(2) have r: "m' = m" "dd = d + 1" by (simp_all add: month_from.simps [of y m d])
    have "d < month_days y m"
    proof (cases "d < month_days y m")
      case False
      with True 1(4) have "m = 12" by simp
      with 1(5) days_before_Suc [of 12 y] show ?thesis by simp
    qed
    with r 1(3,4) show ?thesis by simp
  next
    case False
    then have "month_from y (m + 1) (d - month_days y m) = (m', dd)" using 1(2) by (simp add: month_from.simps [of y m d])
    moreover have "days_before_month y (m + 1) + (d - month_days y m) = days_before_month y m + d"
      using False days_before_Suc [OF 1(3), of y] by linarith
    ultimately show ?thesis using 1(1) [OF False] 1(5) False by simp
  qed
qed

definition time_ok :: "amz_time \<Rightarrow> bool" where
  "time_ok t \<longleftrightarrow> at_year t \<le> 9999 \<and> 1 \<le> at_month t \<and> at_month t \<le> 12 \<and> 1 \<le> at_day t
     \<and> at_day t \<le> month_days (at_year t) (at_month t) \<and> at_hour t \<le> 23 \<and> at_minute t \<le> 59 \<and> at_second t \<le> 59"

lemma time_nanos_eq:
  "time_nanos t = (((days_before_year (int (at_year t)) + int (days_before_month (at_year t) (at_month t)) + int (at_day t)
     - 719163) * 24 + int (at_hour t)) * 60 + int (at_minute t)) * 60000000000 + int (at_second t) * 1000000000 + int (at_nanos t)"
  by (simp add: time_nanos_def days_before_year_def Let_def algebra_simps)

lemma seconds_parts:
  assumes "rest < (86400 :: nat)"
  shows "rest div 3600 \<le> 23" "rest mod 3600 div 60 \<le> 59" "rest mod 60 \<le> 59"
    "rest div 3600 * 3600 + rest mod 3600 div 60 * 60 + rest mod 60 = rest"
proof -
  have "rest mod 3600 mod 60 = rest mod 60" by (simp add: mod_mod_cancel)
  then have "rest mod 3600 div 60 * 60 + rest mod 60 = rest mod 3600" by (metis div_mult_mod_eq)
  with div_mult_mod_eq [of rest 3600]
  show "rest div 3600 * 3600 + rest mod 3600 div 60 * 60 + rest mod 60 = rest" by linarith
qed (use assms in \<open>simp_all add: less_Suc_eq_le [symmetric] div_less_iff_less_mult\<close>)


lemma days_before_year_mono:
  assumes "9999 < y"
  shows "3649635 \<le> days_before_year y"
proof -
  define z where "z = y - 1"
  have z: "9999 \<le> z" using assms by (simp add: z_def)
  have "z div 100 \<le> z div 4" "0 \<le> z div 400" using z by (simp_all add: zdiv_mono2)
  with z show ?thesis unfolding days_before_year_def z_def [symmetric] by linarith
qed

text \<open>The date computed from a clock is its instant.\<close>

lemma utc_time_correct:
  assumes "0 \<le> n" "n \<le> max_int64"
  shows "time_ok (utc_time n)" "time_nanos ((utc_time n)\<lparr>at_nanos := 0\<rparr>) = n div 1000000000 * 1000000000"
proof -
  define secs where "secs = n div 1000000000"
  define days where "days = secs div 86400"
  define rest where "rest = nat (secs mod 86400)"
  obtain y yday where cy: "civil_year (nat (days + 719162)) = (y, yday)" by fastforce
  obtain mo d where mf: "month_from y 1 yday = (mo, d)" by fastforce
  have t: "utc_time n = \<lparr>at_year = y, at_month = mo, at_day = d, at_hour = rest div 3600, at_minute = rest mod 3600 div 60,
    at_second = rest mod 60, at_nanos = nat (n mod 1000000000)\<rparr>"
    unfolding utc_time_def Let_def secs_def [symmetric] days_def [symmetric] rest_def [symmetric] cy prod.case mf ..
  have s: "0 \<le> secs" using assms(1) by (simp add: secs_def)
  have "days_before_month y 1 = 0" by (simp add: days_before_month_def)
  with month_from_correct [OF mf] civil_year_correct(2) [OF cy] days_before_year_end [of y]
  have m: "1 \<le> mo \<and> mo \<le> 12 \<and> 1 \<le> d \<and> d \<le> month_days y mo \<and> days_before_month y mo + d = yday + 1" by simp
  have days: "days_before_year (int y) + int yday = days + 719162"
    using civil_year_correct(3) [OF cy] s by (simp add: days_def)
  have "rest < 86400" by (simp add: rest_def nat_less_iff)
  note sp = seconds_parts [OF this]
  have "secs \<le> 9223372036" using assms(2) by (simp add: secs_def max_int64_def)
  then have "days \<le> 106752" by (simp add: days_def)
  with days days_before_year_mono [of "int y"] have "y \<le> 9999" by force
  with m sp show "time_ok (utc_time n)" by (simp add: time_ok_def t)
  have "time_nanos ((utc_time n)\<lparr>at_nanos := 0\<rparr>) = (days * 86400 + int rest) * 1000000000"
    using m days sp(4) by (simp add: time_nanos_eq t) 
  also have "days * 86400 + int rest = secs" by (simp add: rest_def days_def)
  finally show "time_nanos ((utc_time n)\<lparr>at_nanos := 0\<rparr>) = n div 1000000000 * 1000000000" by (simp add: secs_def)
qed

lemma nat_digits_two: "n < 10 \<Longrightarrow> nat_digits n = [char_of (48 + n)]"
  "10 \<le> n \<Longrightarrow> n < 100 \<Longrightarrow> nat_digits n = [char_of (48 + n div 10), char_of (48 + n mod 10)]"
  by (simp_all add: nat_digits.simps [of n] nat_digits.simps [of "n div 10"] div_less_iff_less_mult)

lemma zero_char: "char_of (48 :: nat) = CHR ''0''"
  by code_simp

lemma pad_two: "n < 100 \<Longrightarrow> pad_digits 2 n = [char_of (48 + n div 10), char_of (48 + n mod 10)]"
  by (cases "n < 10") (simp_all add: pad_digits_def nat_digits_two numeral_2_eq_2 zero_char)

lemma digit_char_of: "(n :: nat) < 10 \<Longrightarrow> digit_char (char_of (48 + n)) \<and> of_char (char_of (48 + n)) = 48 + n"
  by (simp add: digit_char_def is_digit_def)

lemma getnum_pad: "n < 100 \<Longrightarrow> getnum fixed (pad_digits 2 n @ s) = Some (n, s)"
  by (simp add: pad_two getnum_def digit_char_of digits_value_def div_less_iff_less_mult)

lemma pad_digits_digits: "list_all digit_char (pad_digits w n)"
  by (auto simp: pad_digits_def list_all_iff digit_char_def is_digit_def Let_def dest!: nat_digits_digits)

lemma foldl_zeros: "foldl (\<lambda>n c. 10 * n + (of_char c - 48)) (0 :: nat) (replicate k CHR ''0'') = 0"
  by (induction k) simp_all

lemma pad_digits_value: "digits_value (pad_digits w n) = n"
  using nat_digits_value [of n] unfolding digits_value_def by (simp add: pad_digits_def foldl_zeros Let_def)

lemma nat_digits_length: "n < 10 ^ w \<Longrightarrow> 0 < w \<Longrightarrow> length (nat_digits n) \<le> w"
proof (induction n arbitrary: w rule: nat_digits.induct)
  case (1 n)
  show ?case
  proof (cases "n < 10")
    case False
    then obtain v where v: "w = Suc v" "0 < v" using 1(2,3) by (cases w; cases "w = 1") auto
    with 1(2) have "n div 10 < 10 ^ v" by (simp add: div_less_iff_less_mult mult.commute)
    with 1(1) [OF False _ v(2)] v(1) show ?thesis by (simp add: nat_digits.simps [of n])
  qed (use 1 in \<open>simp add: nat_digits.simps [of n]\<close>)
qed

lemma pad_digits_length: "n < 10 ^ w \<Longrightarrow> 0 < w \<Longrightarrow> length (pad_digits w n) = w"
  using nat_digits_length [of n w] by (simp add: pad_digits_def Let_def)

lemma parse_format_time:
  assumes "time_ok t"
  shows "parse_amz_time (format_amz_time t) = Some (t\<lparr>at_nanos := 0\<rparr>)"
proof -
  have b: "at_month t < 100" "at_day t < 100" "at_hour t < 100" "at_minute t < 100" "at_second t < 100"
    using assms month_days_pos [of "at_year t" "at_month t"] by (auto simp: time_ok_def)
  have l: "length (pad_digits 4 (at_year t)) = 4" using assms by (intro pad_digits_length) (simp_all add: time_ok_def)
  have f: "take_fraction ''Z'' = (0, ''Z'')" by (simp add: take_fraction_def)
  show ?thesis using assms l pad_digits_digits [of 4 "at_year t"]
    by (simp add: parse_amz_time_def format_amz_time_def format_date_def getnum_pad b skip_char_def f
      pad_digits_value Let_def time_ok_def)
qed


end
