(* ===== verification/S3Auth.thy ===== *)
theory S3Auth
  imports GoTime
begin

text \<open>
  \<open>src/internal/s3auth/sigv4.go\<close>: checking AWS signature version 4. SHA-256 and HMAC-SHA256 come
  from Go's crypto library and are fields of the verifier; the clock is the environment's. What
  is proved: an accepted request carries the signature that its credential's secret gives for it,
  is recent, and is determined by that signature in everything the signature covers.
\<close>

section \<open>Credentials, identities, errors\<close>

record credential =
  cd_AccessKey :: string
  cd_SecretKey :: string
  cd_Tenant :: string

record identity =
  id_AccessKey :: string
  id_Tenant :: string

record auth_error =
  ae_Status :: int
  ae_Code :: string
  ae_Message :: string

definition authError :: "int \<Rightarrow> string \<Rightarrow> string \<Rightarrow> auth_error" where
  "authError status code message = \<lparr>ae_Status = status, ae_Code = code, ae_Message = message\<rparr>"

record verifier =
  vf_credentials :: "credential list"
  vf_MaxSkew :: int
  vf_sha256 :: "bytes \<Rightarrow> bytes"
  vf_hmac :: "bytes \<Rightarrow> bytes \<Rightarrow> bytes"

definition auth_algorithm :: string where
  "auth_algorithm = ''AWS4-HMAC-SHA256''"

fun addCredentials :: "credential list \<Rightarrow> verifier \<Rightarrow> err + verifier" where
  "addCredentials [] v = Inr v"
| "addCredentials (c # cs) v =
     (if cd_AccessKey c = [] \<or> cd_SecretKey c = []
      then Inl (ErrNew ''access key and secret key must both be set'')
      else (let c' = (if cd_Tenant c = [] then c\<lparr>cd_Tenant := cd_AccessKey c\<rparr> else c)
            in addCredentials cs (v\<lparr>vf_credentials := vf_credentials v @ [c']\<rparr>)))"

text \<open>15 minutes in nanoseconds.\<close>

definition NewVerifier :: "(bytes \<Rightarrow> bytes) \<Rightarrow> (bytes \<Rightarrow> bytes \<Rightarrow> bytes) \<Rightarrow> credential list \<Rightarrow> err + verifier" where
  "NewVerifier sha mac credentials =
     addCredentials credentials \<lparr>vf_credentials = [], vf_MaxSkew = 15 * 60 * 1000000000, vf_sha256 = sha, vf_hmac = mac\<rparr>"

definition Enabled :: "verifier option \<Rightarrow> bool" where
  "Enabled v = (case v of None \<Rightarrow> False | Some x \<Rightarrow> vf_credentials x \<noteq> [])"

section \<open>Encodings\<close>

definition auth_sha256Hex :: "verifier \<Rightarrow> string \<Rightarrow> string" where
  "auth_sha256Hex v payload = hex_encode (vf_sha256 v (to_bytes payload))"

fun hex_decode :: "string \<Rightarrow> bytes option" where
  "hex_decode [] = Some []"
| "hex_decode [a] = None"
| "hex_decode (a # b # s) =
     (case (unhex a, unhex b) of
        (Some h, Some l) \<Rightarrow> map_option (\<lambda>bs. of_nat (16 * h + l) # bs) (hex_decode s)
      | _ \<Rightarrow> None)"

definition constantTimeHexEqual :: "string \<Rightarrow> string \<Rightarrow> bool" where
  "constantTimeHexEqual expected actual =
     (case (hex_decode expected, hex_decode actual) of (Some x, Some y) \<Rightarrow> x = y | _ \<Rightarrow> False)"

definition constantTimeStringEqual :: "verifier \<Rightarrow> string \<Rightarrow> string \<Rightarrow> int" where
  "constantTimeStringEqual v expected actual =
     (if vf_sha256 v (to_bytes expected) = vf_sha256 v (to_bytes actual) then 1 else 0)"

definition collapseSpaces :: "string \<Rightarrow> string" where
  "collapseSpaces value = join_with '' '' (string_fields value)"

definition unreserved :: "char \<Rightarrow> bool" where
  "unreserved c \<longleftrightarrow> (65 \<le> char_code c \<and> char_code c \<le> 90) \<or> (97 \<le> char_code c \<and> char_code c \<le> 122) \<or> (48 \<le> char_code c \<and> char_code c \<le> 57)
     \<or> c \<in> set ''-_.~''"

definition upper_hex_digit :: "nat \<Rightarrow> char" where
  "upper_hex_digit n = ''0123456789ABCDEF'' ! n"

definition percent :: "char \<Rightarrow> string" where
  "percent c = [CHR ''%'', upper_hex_digit (char_code c div 16), upper_hex_digit (char_code c mod 16)]"

fun awsEncode :: "string \<Rightarrow> string" where
  "awsEncode [] = []"
| "awsEncode (c # s) = (if unreserved c then c # awsEncode s else percent c @ awsEncode s)"

definition deriveSigningKey :: "verifier \<Rightarrow> string \<Rightarrow> string \<Rightarrow> string \<Rightarrow> string \<Rightarrow> bytes" where
  "deriveSigningKey v secret date region service =
     (let dateKey = vf_hmac v (to_bytes (''AWS4'' @ secret)) (to_bytes date);
          regionKey = vf_hmac v dateKey (to_bytes region);
          serviceKey = vf_hmac v regionKey (to_bytes service)
      in vf_hmac v serviceKey (to_bytes ''aws4_request''))"

section \<open>The canonical request\<close>

definition newline :: string where
  "newline = [CHR 0x0A]"

definition canonicalURI :: "http_request \<Rightarrow> string" where
  "canonicalURI r =
     (let path = rq_EscapedPath r
      in if path = [] then ''/'' else if \<not> has_prefix path ''/'' then ''/'' @ path else path)"

text \<open>The pairs of one query parameter; the parameters come in the map's iteration order and are
  then sorted.\<close>

definition queryPairs :: "string \<times> string list \<Rightarrow> string list" where
  "queryPairs nv = (case nv of (name, vals) \<Rightarrow>
     if vals = [] then [awsEncode name @ ''=''] else map (\<lambda>v. awsEncode name @ ''='' @ awsEncode v) vals)"

definition canonicalQueryString :: "env \<Rightarrow> http_request \<Rightarrow> string" where
  "canonicalQueryString e r =
     join_with ''&'' (sort (concat (map queryPairs (go_range (range_pick e []) (rq_Query r)))))"

definition headerName :: "string \<Rightarrow> string" where
  "headerName name = to_lower (trim_space name)"

definition headerLine :: "http_request \<Rightarrow> string \<Rightarrow> string option" where
  "headerLine r name =
     (if name = ''host'' then Some (name @ '':'' @ collapseSpaces (rq_Host r) @ newline)
      else (case header_values (rq_Header r) name of
              [] \<Rightarrow> None
            | vs \<Rightarrow> Some (name @ '':'' @ collapseSpaces (join_with '','' vs) @ newline)))"

fun canonicalHeadersLoop :: "http_request \<Rightarrow> string list \<Rightarrow> auth_error + string" where
  "canonicalHeadersLoop r [] = Inr []"
| "canonicalHeadersLoop r (raw # rest) =
     (let name = headerName raw
      in if name = [] then Inl (authError 400 ''AuthorizationHeaderMalformed'' ''signed headers contains an empty header name'')
         else (case headerLine r name of
                 None \<Rightarrow> Inl (authError 400 ''SignatureDoesNotMatch'' ''a signed header is missing from the request'')
               | Some line \<Rightarrow> (case canonicalHeadersLoop r rest of Inl x \<Rightarrow> Inl x | Inr b \<Rightarrow> Inr (line @ b))))"

definition canonicalHeaders :: "http_request \<Rightarrow> string \<Rightarrow> auth_error + string" where
  "canonicalHeaders r signedHeaders = canonicalHeadersLoop r (split_at CHR '';'' signedHeaders)"

definition payloadHash :: "http_request \<Rightarrow> string" where
  "payloadHash r = (let hash = header_get (rq_Header r) ''X-Amz-Content-Sha256''
     in if hash = [] then ''UNSIGNED-PAYLOAD'' else hash)"

definition canonicalRequest :: "env \<Rightarrow> http_request \<Rightarrow> string \<Rightarrow> auth_error + string" where
  "canonicalRequest e r signedHeaders =
     (case canonicalHeaders r signedHeaders of
        Inl x \<Rightarrow> Inl x
      | Inr headers \<Rightarrow> Inr (join_with newline
          [rq_Method r, canonicalURI r, canonicalQueryString e r, headers, signedHeaders, payloadHash r]))"

section \<open>The authorization header\<close>

record parsed_authorization =
  pa_accessKey :: string
  pa_date :: string
  pa_region :: string
  pa_service :: string
  pa_signedHeaders :: string
  pa_signature :: string

fun parseFields :: "string list \<Rightarrow> (string, string) gomap \<Rightarrow> auth_error + (string, string) gomap" where
  "parseFields [] m = Inr m"
| "parseFields (f # fs) m =
     (case cut_at CHR ''='' (trim_space f) of
        (name, value, found) \<Rightarrow>
          if \<not> found \<or> name = [] \<or> value = []
          then Inl (authError 400 ''AuthorizationHeaderMalformed'' ''invalid authorization field'')
          else parseFields fs (AList.update name value m))"

definition parseAuthorization :: "string \<Rightarrow> auth_error + parsed_authorization" where
  "parseAuthorization header =
     (if \<not> has_prefix header (auth_algorithm @ '' '')
      then Inl (authError 400 ''AuthorizationHeaderMalformed'' ''unsupported authorization algorithm'')
      else (case parseFields (split_at CHR '','' (trim_prefix header (auth_algorithm @ '' ''))) [] of
              Inl x \<Rightarrow> Inl x
            | Inr fs \<Rightarrow>
                (case split_at CHR ''/'' (lookup_or [] fs ''Credential'') of
                   [accessKey, date, region, service, terminator] \<Rightarrow>
                     if terminator \<noteq> ''aws4_request''
                     then Inl (authError 400 ''AuthorizationHeaderMalformed'' ''invalid credential scope'')
                     else if lookup_or [] fs ''SignedHeaders'' = [] \<or> lookup_or [] fs ''Signature'' = []
                     then Inl (authError 400 ''AuthorizationHeaderMalformed''
                       ''authorization header is missing signed headers or signature'')
                     else Inr \<lparr>pa_accessKey = accessKey, pa_date = date, pa_region = region, pa_service = service,
                            pa_signedHeaders = lookup_or [] fs ''SignedHeaders'',
                            pa_signature = lookup_or [] fs ''Signature''\<rparr>
                 | _ \<Rightarrow> Inl (authError 400 ''AuthorizationHeaderMalformed'' ''invalid credential scope''))))"

section \<open>Verification\<close>

fun lookupLoop :: "verifier \<Rightarrow> string \<Rightarrow> credential list \<Rightarrow> credential option \<Rightarrow> credential option" where
  "lookupLoop v accessKey [] selected = selected"
| "lookupLoop v accessKey (c # cs) selected =
     lookupLoop v accessKey cs
       (if constantTimeStringEqual v (cd_AccessKey c) accessKey = 1 \<and> selected = None then Some c else selected)"

definition lookupCredential :: "verifier \<Rightarrow> string \<Rightarrow> credential option" where
  "lookupCredential v accessKey = lookupLoop v accessKey (vf_credentials v) None"

definition credentialScope :: "parsed_authorization \<Rightarrow> string" where
  "credentialScope p = join_with ''/'' [pa_date p, pa_region p, pa_service p, ''aws4_request'']"

definition stringToSign :: "verifier \<Rightarrow> string \<Rightarrow> string \<Rightarrow> string \<Rightarrow> string" where
  "stringToSign v date scope canonical = join_with newline [auth_algorithm, date, scope, auth_sha256Hex v canonical]"

definition expectedSignature :: "verifier \<Rightarrow> credential \<Rightarrow> parsed_authorization \<Rightarrow> string \<Rightarrow> string \<Rightarrow> string" where
  "expectedSignature v c p date canonical =
     hex_encode (vf_hmac v (deriveSigningKey v (cd_SecretKey c) (pa_date p) (pa_region p) (pa_service p))
       (to_bytes (stringToSign v date (credentialScope p) canonical)))"

definition too_skewed :: "verifier \<Rightarrow> env \<Rightarrow> amz_time \<Rightarrow> bool" where
  "too_skewed v e t \<longleftrightarrow> 0 < vf_MaxSkew v \<and>
     (let delta = duration_sub (now e 0) (time_nanos t) in delta < - vf_MaxSkew v \<or> vf_MaxSkew v < delta)"

definition Verify :: "verifier option \<Rightarrow> env \<Rightarrow> http_request \<Rightarrow> auth_error + identity" where
  "Verify vo e r =
     (case vo of None \<Rightarrow> Inr \<lparr>id_AccessKey = [], id_Tenant = ''default''\<rparr> | Some v \<Rightarrow>
      if \<not> Enabled vo then Inr \<lparr>id_AccessKey = [], id_Tenant = ''default''\<rparr> else
      let authorization = header_get (rq_Header r) ''Authorization'';
          amzDate = header_get (rq_Header r) ''X-Amz-Date'' in
      if authorization = [] then Inl (authError 403 ''AccessDenied'' ''missing authorization header'') else
      case parseAuthorization authorization of Inl x \<Rightarrow> Inl x | Inr parsed \<Rightarrow>
      case lookupCredential v (pa_accessKey parsed) of
        None \<Rightarrow> Inl (authError 403 ''InvalidAccessKeyId'' ''the AWS access key ID does not exist'')
      | Some c \<Rightarrow>
      case parse_amz_time amzDate of
        None \<Rightarrow> Inl (authError 400 ''AuthorizationHeaderMalformed'' ''missing or invalid x-amz-date'')
      | Some t \<Rightarrow>
      if too_skewed v e t then Inl (authError 403 ''RequestTimeTooSkewed''
        ''the difference between the request time and server time is too large'')
      else if pa_date parsed \<noteq> format_date t then Inl (authError 400 ''AuthorizationHeaderMalformed''
        ''credential scope date does not match x-amz-date'')
      else case canonicalRequest (call e 1) r (pa_signedHeaders parsed) of Inl x \<Rightarrow> Inl x | Inr canonical \<Rightarrow>
      if \<not> constantTimeHexEqual (expectedSignature v c parsed amzDate canonical) (pa_signature parsed)
      then Inl (authError 403 ''SignatureDoesNotMatch''
        ''the request signature we calculated does not match the signature you provided'')
      else Inr \<lparr>id_AccessKey = cd_AccessKey c, id_Tenant = cd_Tenant c\<rparr>)"

section \<open>Encoding lemmas\<close>

lemma upper_hex_table: "\<forall>n \<in> set [0..<16]. unhex (upper_hex_digit n) = Some n \<and> unreserved (upper_hex_digit n)"
  by (simp add: upt_rec upper_hex_digit_def unhex_def unreserved_def)

lemma upper_hex [simp]:
  "n < 16 \<Longrightarrow> unhex (upper_hex_digit n) = Some n" "n < 16 \<Longrightarrow> unreserved (upper_hex_digit n)"
  using bspec [OF upper_hex_table, of n] by auto

lemma char_nibbles: "char_code c div 16 < 16" "char_code c mod 16 < 16"
proof -
  have "char_code c < (256 :: nat)" by simp
  then show "char_code c div 16 < 16" by (simp add: div_less_iff_less_mult)
qed simp

lemma percent_value: "char_of (16 * (char_code c div 16) + char_code c mod 16) = c"
  by simp

text \<open>Percent-decoding inverts the encoding, in a path as in a query.\<close>

lemma unescape_awsEncode: "unescape q (awsEncode s) = Some s"
proof (induction s)
  case (Cons c s)
  show ?case
  proof (cases "unreserved c")
    case True
    then have "c \<noteq> CHR ''%''" "c \<noteq> CHR ''+''" by (auto simp: unreserved_def)
    with True Cons show ?thesis by simp
  next
    case False
    with Cons show ?thesis by (simp add: percent_def char_nibbles percent_value del: mult_div_mod_eq)
  qed
qed simp

lemma awsEncode_inj: "awsEncode s = awsEncode t \<Longrightarrow> s = t"
  by (metis unescape_awsEncode option.inject)

lemma awsEncode_chars: "c \<in> set (awsEncode s) \<Longrightarrow> unreserved c \<or> c = CHR ''%''"
  by (induction s) (auto simp: percent_def char_nibbles split: if_splits)

lemma awsEncode_free: "\<not> unreserved d \<Longrightarrow> d \<noteq> CHR ''%'' \<Longrightarrow> d \<notin> set (awsEncode s)"
  using awsEncode_chars by blast

lemma separators: "\<not> unreserved CHR ''&''" "\<not> unreserved CHR ''=''" "\<not> unreserved CHR 0x0A"
  by (simp_all add: unreserved_def)

text \<open>The parameters of a request.\<close>

definition paramsOf :: "string \<times> string list \<Rightarrow> (string \<times> string) list" where
  "paramsOf nv = (case nv of (name, vals) \<Rightarrow> if vals = [] then [(name, [])] else map (Pair name) vals)"

definition query_params :: "http_request \<Rightarrow> (string \<times> string) multiset" where
  "query_params r = mset (concat (map paramsOf (rq_Query r)))"

definition encodePair :: "string \<times> string \<Rightarrow> string" where
  "encodePair p = awsEncode (fst p) @ CHR ''='' # awsEncode (snd p)"

lemma queryPairs_eq: "queryPairs = (\<lambda>nv. map encodePair (paramsOf nv))"
  by (rule ext) (auto simp: queryPairs_def paramsOf_def encodePair_def)

lemma encodePair_inj: "inj encodePair"
proof (rule injI)
  fix p q assume "encodePair p = encodePair q"
  then have "awsEncode (fst p) = awsEncode (fst q) \<and> awsEncode (snd p) = awsEncode (snd q)"
    unfolding encodePair_def by (rule cut_sep) (simp_all add: awsEncode_free separators)
  then show "p = q" by (metis awsEncode_inj prod_eqI)
qed

lemma encodePair_chars: "c \<in> set (encodePair p) \<Longrightarrow> unreserved c \<or> c = CHR ''%'' \<or> c = CHR ''=''"
  by (auto simp: encodePair_def dest: awsEncode_chars)

definition queryList :: "env \<Rightarrow> http_request \<Rightarrow> string list" where
  "queryList e r = sort (concat (map queryPairs (go_range (range_pick e []) (rq_Query r))))"

lemma mset_concat_sum: "mset (concat (map f xs)) = (\<Sum>x \<in># mset xs. mset (f x))"
  by (induction xs) simp_all

lemma mset_concat_map: "mset xs = mset ys \<Longrightarrow> mset (concat (map f xs)) = mset (concat (map f ys))"
  by (simp add: mset_concat_sum)

lemma queryList_mset: "mset (queryList e r) = image_mset encodePair (query_params r)"
proof -
  have "mset (queryList e r) = mset (concat (map queryPairs (rq_Query r)))"
    unfolding queryList_def mset_sort by (rule mset_concat_map) simp
  also have "concat (map queryPairs (rq_Query r)) = map encodePair (concat (map paramsOf (rq_Query r)))"
    by (simp add: queryPairs_eq map_concat comp_def)
  finally show ?thesis by (simp add: query_params_def)
qed

lemma queryList_member: "s \<in> set (queryList e r) \<Longrightarrow> \<exists>p. s = encodePair p"
  using queryList_mset [of e r] by (metis (no_types, lifting) image_iff set_image_mset set_mset_mset)

lemma canonicalQueryString_eq: "canonicalQueryString e r = join_with ''&'' (queryList e r)"
  by (simp add: canonicalQueryString_def queryList_def)

lemma canonicalQueryString_params:
  assumes "canonicalQueryString e1 r1 = canonicalQueryString e2 r2"
  shows "query_params r1 = query_params r2"
proof -
  have free: "\<forall>s \<in> set (queryList e r). CHR ''&'' \<notin> set s \<and> s \<noteq> []" for e r
    using separators by (auto dest!: queryList_member dest: encodePair_chars simp: encodePair_def)
  have "queryList e1 r1 = queryList e2 r2"
    using assms unfolding canonicalQueryString_eq by (rule join_inj [OF free free])
  then have "image_mset encodePair (query_params r1) = image_mset encodePair (query_params r2)"
    by (metis queryList_mset)
  then show ?thesis by (rule injD [OF multiset.inj_map [OF encodePair_inj]])
qed

lemma canonicalQueryString_line: "CHR 0x0A \<notin> set (canonicalQueryString e r)"
proof -
  have "CHR 0x0A \<notin> set s" if "s \<in> set (queryList e r)" for s
    using queryList_member [OF that] separators by (auto dest: encodePair_chars)
  then show ?thesis
    unfolding canonicalQueryString_eq using set_join_with [of "''&''" "queryList e r"] by auto
qed

text \<open>The map's iteration order does not matter.\<close>

lemma canonicalQueryString_order: "canonicalQueryString e r = canonicalQueryString e' r"
proof -
  have "queryList e r = queryList e' r"
    unfolding queryList_def by (rule properties_for_sort) (simp_all add: mset_concat_sum)
  then show ?thesis by (simp add: canonicalQueryString_eq)
qed

section \<open>What an accepted request satisfies\<close>

text \<open>What \<open>Verify\<close> established when it returns an identity.\<close>

definition accepted :: "verifier \<Rightarrow> env \<Rightarrow> http_request \<Rightarrow> parsed_authorization \<Rightarrow> credential \<Rightarrow> amz_time \<Rightarrow> string \<Rightarrow> bool" where
  "accepted v e r p c t canonical \<longleftrightarrow>
     parseAuthorization (header_get (rq_Header r) ''Authorization'') = Inr p
     \<and> lookupCredential v (pa_accessKey p) = Some c
     \<and> parse_amz_time (header_get (rq_Header r) ''X-Amz-Date'') = Some t \<and> \<not> too_skewed v e t
     \<and> pa_date p = format_date t \<and> canonicalRequest (call e 1) r (pa_signedHeaders p) = Inr canonical
     \<and> constantTimeHexEqual (expectedSignature v c p (header_get (rq_Header r) ''X-Amz-Date'') canonical) (pa_signature p)"

lemma Verify_accepted:
  assumes "Enabled (Some v)" "Verify (Some v) e r = Inr i"
  obtains p c t canonical where "accepted v e r p c t canonical"
    "i = \<lparr>id_AccessKey = cd_AccessKey c, id_Tenant = cd_Tenant c\<rparr>"
  using assms unfolding Verify_def accepted_def Let_def
  by (auto split: if_splits sum.splits option.splits)

lemma lookupLoop_member:
  "lookupLoop v a cs sel = Some c \<Longrightarrow> (sel = Some c \<or> c \<in> set cs \<and> constantTimeStringEqual v (cd_AccessKey c) a = 1)"
  by (induction cs arbitrary: sel) (force split: if_splits)+

lemma lookupCredential_member:
  "lookupCredential v a = Some c \<Longrightarrow>
   c \<in> set (vf_credentials v) \<and> vf_sha256 v (to_bytes (cd_AccessKey c)) = vf_sha256 v (to_bytes a)"
  unfolding lookupCredential_def
  by (drule lookupLoop_member) (auto simp: constantTimeStringEqual_def split: if_splits)

lemma hex_nibble_table: "\<forall>n \<in> set [0..<16]. unhex (hex_digit n) = Some n"
  by (simp add: upt_rec hex_digit_def unhex_def)

lemma hex_decode_encode: "hex_decode (hex_encode bs) = Some bs"
proof (induction bs)
  case (Cons b bs)
  have "unhex (hex_digit n) = Some n" if "n < 16" for n using bspec [OF hex_nibble_table, of n] that by simp
  then show ?case using Cons byte_nibbles [of b] by (simp del: of_nat_add of_nat_mult)
qed simp

lemma hex_equal_encode: "constantTimeHexEqual (hex_encode x) s \<longleftrightarrow> hex_decode s = Some x"
  by (auto simp: constantTimeHexEqual_def hex_decode_encode split: option.splits)

lemma skew_bound:
  assumes "\<not> too_skewed v e t" "0 < vf_MaxSkew v" "vf_MaxSkew v < max_int64"
  shows "\<bar>now e 0 - time_nanos t\<bar> \<le> vf_MaxSkew v"
  using assms by (auto simp: too_skewed_def duration_sub_def Let_def max_int64_def min_int64_def)

lemma collapseSpaces_line: "CHR 0x0A \<notin> set (collapseSpaces v)"
proof -
  have "CHR 0x0A \<notin> set f" if "f \<in> set (string_fields v)" for f
    using string_fields_free [OF _ _ that, of "CHR 0x0A"] by (simp add: is_space_def)
  then show ?thesis using set_join_with [of "'' ''" "string_fields v"] by (auto simp: collapseSpaces_def)
qed

text \<open>The header lines of two requests for the same list of names.\<close>

lemma headerLine_shape:
  "headerLine r name = Some line \<Longrightarrow> \<exists>v. line = (name @ '':'' @ v) @ CHR 0x0A # [] \<and> CHR 0x0A \<notin> set v"
  using collapseSpaces_line by (auto simp: headerLine_def newline_def split: if_splits list.splits)

lemma canonicalHeadersLoop_agree:
  assumes "canonicalHeadersLoop r1 names = Inr h1" "canonicalHeadersLoop r2 names = Inr h2"
    and "h1 @ x = h2 @ y"
  shows "(\<forall>raw \<in> set names. headerLine r1 (headerName raw) = headerLine r2 (headerName raw)) \<and> x = y"
  using assms
proof (induction names arbitrary: h1 h2)
  case (Cons raw names)
  define name where "name = headerName raw"
  from Cons.prems(1) obtain l1 b1 where 1: "headerLine r1 name = Some l1" "canonicalHeadersLoop r1 names = Inr b1"
    "h1 = l1 @ b1" by (auto simp: name_def [symmetric] split: if_splits option.splits sum.splits)
  from Cons.prems(2) obtain l2 b2 where 2: "headerLine r2 name = Some l2" "canonicalHeadersLoop r2 names = Inr b2"
    "h2 = l2 @ b2" by (auto simp: name_def [symmetric] split: if_splits option.splits sum.splits)
  from headerLine_shape [OF 1(1)] obtain v1 where l1: "l1 = (name @ '':'' @ v1) @ CHR 0x0A # []" "CHR 0x0A \<notin> set v1" by blast
  from headerLine_shape [OF 2(1)] obtain v2 where l2: "l2 = (name @ '':'' @ v2) @ CHR 0x0A # []" "CHR 0x0A \<notin> set v2" by blast
  from Cons.prems(3) 1(3) 2(3) l1(1) l2(1) have "v1 @ CHR 0x0A # (b1 @ x) = v2 @ CHR 0x0A # (b2 @ y)" by simp
  from cut_sep [OF this l1(2) l2(2)] have "v1 = v2" "b1 @ x = b2 @ y" by blast+
  with Cons.IH [OF 1(2) 2(2)] 1(1) 2(1) l1(1) l2(1) show ?case by (simp add: name_def [symmetric])
qed simp

lemma canonicalRequest_agree:
  assumes "canonicalRequest e1 r1 sh = Inr x" "canonicalRequest e2 r2 sh = Inr x"
    and "CHR 0x0A \<notin> set (rq_Method r1) \<union> set (rq_Method r2) \<union> set (rq_EscapedPath r1) \<union> set (rq_EscapedPath r2)"
  shows "rq_Method r1 = rq_Method r2 \<and> canonicalURI r1 = canonicalURI r2 \<and> query_params r1 = query_params r2
    \<and> payloadHash r1 = payloadHash r2
    \<and> (\<forall>raw \<in> set (split_at CHR '';'' sh). headerLine r1 (headerName raw) = headerLine r2 (headerName raw))"
proof -
  let ?nl = "CHR 0x0A"
  from assms(1) obtain h1 where h1: "canonicalHeadersLoop r1 (split_at CHR '';'' sh) = Inr h1"
    and x1: "x = rq_Method r1 @ ?nl # (canonicalURI r1 @ ?nl # (canonicalQueryString e1 r1 @ ?nl # (h1 @ ?nl # sh @ ?nl # payloadHash r1)))"
    by (auto simp: canonicalRequest_def canonicalHeaders_def join_with_def newline_def split: sum.splits)
  from assms(2) obtain h2 where h2: "canonicalHeadersLoop r2 (split_at CHR '';'' sh) = Inr h2"
    and x2: "x = rq_Method r2 @ ?nl # (canonicalURI r2 @ ?nl # (canonicalQueryString e2 r2 @ ?nl # (h2 @ ?nl # sh @ ?nl # payloadHash r2)))"
    by (auto simp: canonicalRequest_def canonicalHeaders_def join_with_def newline_def split: sum.splits)
  have uri: "?nl \<notin> set (canonicalURI r)" if "?nl \<notin> set (rq_EscapedPath r)" for r
    using that by (auto simp: canonicalURI_def Let_def)
  from assms(3) have m: "?nl \<notin> set (rq_Method r1)" "?nl \<notin> set (rq_Method r2)"
    and u: "?nl \<notin> set (canonicalURI r1)" "?nl \<notin> set (canonicalURI r2)" using uri by auto
  from cut_sep [OF trans [OF x1 [symmetric] x2] m] have 1: "rq_Method r1 = rq_Method r2"
    and rest1: "canonicalURI r1 @ ?nl # (canonicalQueryString e1 r1 @ ?nl # (h1 @ ?nl # sh @ ?nl # payloadHash r1))
      = canonicalURI r2 @ ?nl # (canonicalQueryString e2 r2 @ ?nl # (h2 @ ?nl # sh @ ?nl # payloadHash r2))" by blast+
  from cut_sep [OF rest1 u] have 2: "canonicalURI r1 = canonicalURI r2"
    and rest2: "canonicalQueryString e1 r1 @ ?nl # (h1 @ ?nl # sh @ ?nl # payloadHash r1)
      = canonicalQueryString e2 r2 @ ?nl # (h2 @ ?nl # sh @ ?nl # payloadHash r2)" by blast+
  from cut_sep [OF rest2 canonicalQueryString_line canonicalQueryString_line]
  have 3: "canonicalQueryString e1 r1 = canonicalQueryString e2 r2"
    and rest3: "h1 @ ?nl # sh @ ?nl # payloadHash r1 = h2 @ ?nl # sh @ ?nl # payloadHash r2" by blast+
  from canonicalHeadersLoop_agree [OF h1 h2 rest3] have
    4: "\<forall>raw \<in> set (split_at CHR '';'' sh). headerLine r1 (headerName raw) = headerLine r2 (headerName raw)"
    and "payloadHash r1 = payloadHash r2" by auto
  with 1 2 canonicalQueryString_params [OF 3] show ?thesis by blast
qed

text \<open>The texts the two hash functions are applied to when a request is checked.\<close>

definition hashed_texts :: "verifier \<Rightarrow> env \<Rightarrow> http_request \<Rightarrow> string set" where
  "hashed_texts v e r =
     (case parseAuthorization (header_get (rq_Header r) ''Authorization'') of Inl _ \<Rightarrow> {} | Inr p \<Rightarrow>
      insert (pa_accessKey p) (cd_AccessKey ` set (vf_credentials v)) \<union>
      (case canonicalRequest (call e 1) r (pa_signedHeaders p) of Inl _ \<Rightarrow> {} | Inr canonical \<Rightarrow>
       {canonical, stringToSign v (header_get (rq_Header r) ''X-Amz-Date'') (credentialScope p) canonical}))"

definition collision_free :: "verifier \<Rightarrow> string set \<Rightarrow> bool" where
  "collision_free v T \<longleftrightarrow> inj_on (\<lambda>s. vf_sha256 v (to_bytes s)) T \<and> (\<forall>k. inj_on (\<lambda>s. vf_hmac v k (to_bytes s)) T)"

lemma accepted_texts:
  assumes "accepted v e r p c t canonical"
  shows "{pa_accessKey p, cd_AccessKey c, canonical,
    stringToSign v (header_get (rq_Header r) ''X-Amz-Date'') (credentialScope p) canonical} \<subseteq> hashed_texts v e r"
  using assms lookupCredential_member [of v "pa_accessKey p" c] by (auto simp: accepted_def hashed_texts_def)

lemma accepted_access_key:
  assumes "accepted v e r p c t canonical" "collision_free v T" "hashed_texts v e r \<subseteq> T"
  shows "cd_AccessKey c = pa_accessKey p"
proof -
  from assms(1) have "vf_sha256 v (to_bytes (cd_AccessKey c)) = vf_sha256 v (to_bytes (pa_accessKey p))"
    using lookupCredential_member [of v "pa_accessKey p" c] by (simp add: accepted_def)
  moreover have "cd_AccessKey c \<in> T" "pa_accessKey p \<in> T" using accepted_texts [OF assms(1)] assms(3) by auto
  ultimately show ?thesis using assms(2) by (auto simp: collision_free_def dest: inj_onD)
qed

lemma stringToSign_inj:
  assumes "stringToSign v d1 sc c1 = stringToSign v d2 sc c2"
  shows "d1 = d2 \<and> vf_sha256 v (to_bytes c1) = vf_sha256 v (to_bytes c2)"
proof -
  let ?nl = "CHR 0x0A"
  have free: "?nl \<notin> set (rev (auth_sha256Hex v c))" for c
    using hex_encode_lower [of ?nl] by (auto simp: auth_sha256Hex_def is_lower_hex_def)
  from assms have "(d1 @ ?nl # sc) @ ?nl # auth_sha256Hex v c1 = (d2 @ ?nl # sc) @ ?nl # auth_sha256Hex v c2"
    by (simp add: stringToSign_def join_with_def newline_def)
  from arg_cong [OF this, of rev]
  have "rev (auth_sha256Hex v c1) @ ?nl # rev (d1 @ ?nl # sc) = rev (auth_sha256Hex v c2) @ ?nl # rev (d2 @ ?nl # sc)"
    by simp
  from cut_sep [OF this free free] have "auth_sha256Hex v c1 = auth_sha256Hex v c2" "d1 @ ?nl # sc = d2 @ ?nl # sc"
    by simp_all
  then show ?thesis using hex_encode_inj by (auto simp: auth_sha256Hex_def)
qed

lemma accepted_signature:
  assumes "accepted v e r p c t canonical"
  shows "hex_decode (pa_signature p) = Some (vf_hmac v
    (deriveSigningKey v (cd_SecretKey c) (pa_date p) (pa_region p) (pa_service p))
    (to_bytes (stringToSign v (header_get (rq_Header r) ''X-Amz-Date'') (credentialScope p) canonical)))"
  using assms by (simp add: accepted_def expectedSignature_def hex_equal_encode)

text \<open>Two accepted requests with the same authorization header have the same canonical form.\<close>

lemma accepted_same_canonical:
  assumes "accepted v e1 r1 p c1 t1 x1" "accepted v e2 r2 p c2 t2 x2"
    and "collision_free v (hashed_texts v e1 r1 \<union> hashed_texts v e2 r2)"
  shows "x1 = x2 \<and> c1 = c2 \<and> header_get (rq_Header r1) ''X-Amz-Date'' = header_get (rq_Header r2) ''X-Amz-Date''"
proof -
  from assms(1,2) have c: "c1 = c2" by (simp add: accepted_def)
  let ?k = "deriveSigningKey v (cd_SecretKey c1) (pa_date p) (pa_region p) (pa_service p)"
  let ?s1 = "stringToSign v (header_get (rq_Header r1) ''X-Amz-Date'') (credentialScope p) x1"
  let ?s2 = "stringToSign v (header_get (rq_Header r2) ''X-Amz-Date'') (credentialScope p) x2"
  have mem: "{x1, ?s1} \<subseteq> hashed_texts v e1 r1" "{x2, ?s2} \<subseteq> hashed_texts v e2 r2"
    using accepted_texts [OF assms(1)] accepted_texts [OF assms(2)] by auto
  from accepted_signature [OF assms(1)] accepted_signature [OF assms(2)] c
  have "vf_hmac v ?k (to_bytes ?s1) = vf_hmac v ?k (to_bytes ?s2)" by simp
  with assms(3) mem have "?s1 = ?s2" unfolding collision_free_def by (auto dest: inj_onD)
  from stringToSign_inj [OF this] have d: "header_get (rq_Header r1) ''X-Amz-Date'' = header_get (rq_Header r2) ''X-Amz-Date''"
    "vf_sha256 v (to_bytes x1) = vf_sha256 v (to_bytes x2)" by blast+
  with assms(3) mem have "x1 = x2" unfolding collision_free_def by (auto dest: inj_onD)
  with c d show ?thesis by simp
qed

section \<open>A concrete verifier and request\<close>

text \<open>For the witnesses, both hash functions are the length of the text in one byte, which is
  free of collisions on the few texts involved.\<close>

definition toy_length :: "bytes \<Rightarrow> bytes" where
  "toy_length x = [of_nat (length x)]"

definition toy_verifier :: verifier where
  "toy_verifier = \<lparr>vf_credentials = [\<lparr>cd_AccessKey = ''A'', cd_SecretKey = ''S'', cd_Tenant = ''t''\<rparr>],
     vf_MaxSkew = 15 * 60 * 1000000000, vf_sha256 = toy_length, vf_hmac = (\<lambda>k. toy_length)\<rparr>"

definition toy_request :: "(string \<times> string list) list \<Rightarrow> http_request" where
  "toy_request extra = \<lparr>rq_Method = ''GET'', rq_Host = ''h'', rq_Path = ''/b/k'', rq_EscapedPath = ''/b/k'',
     rq_RawQuery = ''x=1'',
     rq_Header = [(''Authorization'', [''AWS4-HMAC-SHA256 Credential=A/19700101/r/s3/aws4_request, SignedHeaders=host, Signature=3f'']),
       (''X-Amz-Date'', [''19700101T000000Z''])] @ extra,
     rq_ContentLength = 0, rq_Body = []\<rparr>"

definition toy_identity :: identity where
  "toy_identity = \<lparr>id_AccessKey = ''A'', id_Tenant = ''t''\<rparr>"

definition toy_parsed :: parsed_authorization where
  "toy_parsed = \<lparr>pa_accessKey = ''A'', pa_date = ''19700101'', pa_region = ''r'', pa_service = ''s3'',
     pa_signedHeaders = ''host'', pa_signature = ''3f''\<rparr>"

definition toy_canonical :: string where
  "toy_canonical = join_with newline [''GET'', ''/b/k'', ''x=1'', ''host:h'' @ newline, ''host'', ''UNSIGNED-PAYLOAD'']"

definition toy_time :: amz_time where
  "toy_time = \<lparr>at_year = 1970, at_month = 1, at_day = 1, at_hour = 0, at_minute = 0, at_second = 0, at_nanos = 0\<rparr>"

lemmas string_simps = has_prefix_def trim_prefix_def trim_space_def rune_segments_ascii is_space_def
  cut_at_def lookup_or_def join_with_def newline_def

lemma toy_header: "header_get (rq_Header (toy_request extra)) ''Authorization'' =
    ''AWS4-HMAC-SHA256 Credential=A/19700101/r/s3/aws4_request, SignedHeaders=host, Signature=3f''"
  "header_get (rq_Header (toy_request extra)) ''X-Amz-Date'' = ''19700101T000000Z''"
  by (simp_all add: header_get_def header_values_def lookup_or_def toy_request_def CanonicalHeaderKey_def
      token_char_def upper_char_def lower_char_def)

lemma toy_parse: "parseAuthorization
    ''AWS4-HMAC-SHA256 Credential=A/19700101/r/s3/aws4_request, SignedHeaders=host, Signature=3f'' = Inr toy_parsed"
  by (simp add: parseAuthorization_def auth_algorithm_def string_simps toy_parsed_def)

lemma toy_date: "parse_amz_time ''19700101T000000Z'' = Some toy_time"
  by (simp add: parse_amz_time_def getnum_def skip_char_def take_fraction_def digit_char_def is_digit_def
      digits_value_def month_days_def toy_time_def)

lemma toy_date_text: "format_date toy_time = ''19700101''"
  by code_simp

lemma toy_query: "canonicalQueryString e (toy_request extra) = ''x=1''"
proof -
  have "rq_Query (toy_request extra) = [(''x'', [''1''])]"
    by (simp add: rq_Query_def toy_request_def parse_query_def max_query_params_def cut_at_def QueryUnescape_def
        append_value_def lookup_or_def)
  then show ?thesis
    by (simp add: canonicalQueryString_def queryPairs_def go_range.simps unreserved_def join_with_def Let_def)
qed

lemma toy_canonical_request:
  "lookup_or [] extra ''X-Amz-Content-Sha256'' = [] \<Longrightarrow>
   canonicalRequest e (toy_request extra) ''host'' = Inr toy_canonical"
  unfolding canonicalRequest_def toy_query
  by (simp add: canonicalHeaders_def headerName_def to_lower_def lower_char_def string_simps headerLine_def
      collapseSpaces_def string_fields_def fields_func_def canonicalURI_def payloadHash_def toy_canonical_def
      toy_request_def header_get_def header_values_def CanonicalHeaderKey_def token_char_def upper_char_def)

lemma toy_enabled: "Enabled (Some toy_verifier)"
  by (simp add: Enabled_def toy_verifier_def)

lemma toy_signature: "expectedSignature toy_verifier c toy_parsed ''19700101T000000Z'' toy_canonical = ''3f''"
  by (simp add: expectedSignature_def toy_verifier_def toy_length_def to_bytes_def stringToSign_def join_with_def
      newline_def auth_algorithm_def credentialScope_def toy_parsed_def auth_sha256Hex_def hex_digit_def)

lemma toy_verified:
  "lookup_or [] extra ''X-Amz-Content-Sha256'' = [] \<Longrightarrow>
   Verify (Some toy_verifier) env0 (toy_request extra) = Inr toy_identity"
proof -
  assume extra: "lookup_or [] extra ''X-Amz-Content-Sha256'' = []"
  let ?c = "\<lparr>cd_AccessKey = ''A'', cd_SecretKey = ''S'', cd_Tenant = ''t''\<rparr>"
  have l: "lookupCredential toy_verifier (pa_accessKey toy_parsed) = Some ?c"
    by (simp add: lookupCredential_def toy_verifier_def toy_parsed_def constantTimeStringEqual_def)
  have t: "\<not> too_skewed toy_verifier env0 toy_time"
    by (simp add: too_skewed_def toy_verifier_def toy_time_def time_nanos_def days_before_month_def
        duration_sub_def min_int64_def max_int64_def)
  have p: "pa_signedHeaders toy_parsed = ''host''" "pa_date toy_parsed = ''19700101''" "pa_signature toy_parsed = ''3f''"
    by (simp_all add: toy_parsed_def)
  have h: "constantTimeHexEqual ''3f'' ''3f''" by (simp add: constantTimeHexEqual_def unhex_def)
  show ?thesis
    unfolding Verify_def
    by (simp add: toy_enabled toy_header toy_date l t p toy_date_text toy_canonical_request [OF extra] toy_signature h
        toy_identity_def Let_def toy_parse)
qed

lemma toy_texts: "lookup_or [] extra ''X-Amz-Content-Sha256'' = [] \<Longrightarrow>
  hashed_texts toy_verifier e (toy_request extra)
    = {''A'', toy_canonical, stringToSign toy_verifier ''19700101T000000Z'' (credentialScope toy_parsed) toy_canonical}"
  unfolding hashed_texts_def toy_header toy_parse
  by (simp add: toy_canonical_request toy_parsed_def toy_verifier_def) (simp add: insert_commute)

lemma toy_collision_free:
  "collision_free toy_verifier
     {''A'', toy_canonical, stringToSign toy_verifier ''19700101T000000Z'' (credentialScope toy_parsed) toy_canonical}"
proof -
  have len: "length toy_canonical = 42"
    "length (stringToSign toy_verifier ''19700101T000000Z'' (credentialScope toy_parsed) toy_canonical) = 63"
    by (simp_all add: toy_canonical_def stringToSign_def join_with_def newline_def auth_algorithm_def
        credentialScope_def toy_parsed_def auth_sha256Hex_def toy_verifier_def toy_length_def)
  have "inj_on (\<lambda>s. toy_length (to_bytes s)) {''A'', toy_canonical,
      stringToSign toy_verifier ''19700101T000000Z'' (credentialScope toy_parsed) toy_canonical}"
    by (rule inj_onI) (auto simp: toy_length_def to_bytes_def len)
  then show ?thesis by (simp add: collision_free_def toy_verifier_def)
qed

section \<open>Properties\<close>





end
