(* ===== verification/SharedStore.thy ===== *)
theory SharedStore
  imports ObjectService MultipartProps
begin

text \<open>
  The object service and the multipart manager keep their data in one metadata store. The locale
  \<open>shared_store\<close> joins the two contracts of the store and adds that neither half disturbs the
  other; \<open>shared_manager\<close> adds a manager on that store. What an operation of one client leaves
  alone of the other's data, and of other tenants' data, is proved once there and interpreted on
  the in-memory store.
\<close>

section \<open>The two halves of a store\<close>

locale shared_store =
  object_store ops inv committed pending fresh + session_store ops sinv sessions
  for ops :: "'m store_ops" and inv :: "'m \<Rightarrow> bool" and committed :: "'m \<Rightarrow> object_key \<Rightarrow> manifest option"
    and pending :: "'m \<Rightarrow> string \<Rightarrow> bool" and fresh :: "env \<Rightarrow> manifest \<Rightarrow> 'm \<Rightarrow> bool"
    and sinv :: "'m \<Rightarrow> bool" and sessions :: "'m \<Rightarrow> string \<times> string \<Rightarrow> mp_session option" +
  assumes sess_create: "inv s \<Longrightarrow> CreateMultipartSession ops e ms s = (r, s') \<Longrightarrow> inv s' \<and> committed s' = committed s"
    and sess_save: "inv s \<Longrightarrow> SaveMultipartPart ops e t u pt n s = (r, s') \<Longrightarrow> inv s' \<and> committed s' = committed s"
    and sess_delete: "inv s \<Longrightarrow> DeleteMultipartSession ops e t u s = (r, s') \<Longrightarrow> inv s' \<and> committed s' = committed s"
    and obj_create: "sinv s \<Longrightarrow> CreatePendingObject ops e m s = (rc, s') \<Longrightarrow> sinv s' \<and> sessions s' = sessions s"
    and obj_commit: "sinv s \<Longrightarrow> CommitObject ops e i m s = (r, s') \<Longrightarrow> sinv s' \<and> sessions s' = sessions s"
    and obj_delete: "sinv s \<Longrightarrow> DeleteObject ops e t b k s = (rd, s') \<Longrightarrow> sinv s' \<and> sessions s' = sessions s"
begin

text \<open>What the object service leaves alone: the sessions, and every object but the one addressed.\<close>

lemma putBody_frame:
  assumes "svc_store S = ops" "inv (w_meta w)" "sinv (w_meta w)" "good_key (t, b, k)"
    and "fresh (call e 1) (empty_manifest\<lparr>m_tenant := t, m_bucket := b, m_key := k\<rparr>) (w_meta w)"
    and "putBody S e t b k body opts w = (r, w')"
  shows "inv (w_meta w') \<and> sinv (w_meta w') \<and> sessions (w_meta w') = sessions (w_meta w)
    \<and> (\<forall>key. key \<noteq> (t, b, k) \<longrightarrow> committed (w_meta w') key = committed (w_meta w) key)"
proof -
  obtain rc s1 where c: "CreatePendingObject ops (call e 1)
      (empty_manifest\<lparr>m_tenant := t, m_bucket := b, m_key := k\<rparr>) (w_meta w) = (rc, s1)" by fastforce
  from create [OF assms(2,5) c] obj_create [OF assms(3) c]
  have 1: "inv s1" "sinv s1" "sessions s1 = sessions (w_meta w)" "committed s1 = committed (w_meta w)" by auto
  show ?thesis
  proof (cases "\<exists>i m r2 s2. rc = Inr i \<and> key_of m = (t, b, k) \<and> CommitObject ops (call e 4) i m s1 = (r2, s2) \<and> w_meta w' = s2")
    case True
    then obtain i m r2 s2 where 2: "key_of m = (t, b, k)" "CommitObject ops (call e 4) i m s1 = (r2, s2)" "w_meta w' = s2"
      by blast
    from 2(1) assms(4) have "good_key (key_of m)" by simp
    from commit [OF 1(1) this 2(2)] obj_commit [OF 1(2) 2(2)] 1 2 show ?thesis
      by (auto split: option.splits)
  next
    case False
    have "w_meta w' = s1"
    proof (cases rc)
      case (Inr i)
      obtain sx ps where st: "Stream (svc_fc S) (call e 2) (svc_chunker S) body (Some (putChunk S (call e 3) t))
          \<lparr>ps_blocks = w_blocks w, ps_refs = [], ps_size = 0, ps_chunks = 0, ps_seen = []\<rparr> = (sx, ps)" by fastforce
      show ?thesis
      proof (cases sx)
        case None
        define m where "m = empty_manifest\<lparr>m_tenant := t, m_bucket := b, m_key := k,
          m_size := ps_size ps, m_etag := quoted (hex_encode (svc_md5 S (content body))),
          m_headers := po_Headers opts, m_chunks := ps_refs ps\<rparr>"
        obtain r2 s2 where co: "CommitObject ops (call e 4) i m s1 = (r2, s2)" by fastforce
        from assms(6) c st None co Inr assms(1) have "w_meta w' = s2"
          by (auto simp: putBody_def m_def [symmetric] split: option.splits)
        moreover have "key_of m = (t, b, k)" by (simp add: m_def key_of_def)
        ultimately show ?thesis using False co Inr by blast
      qed (use assms(1,6) c st Inr in \<open>auto simp: putBody_def\<close>)
    qed (use assms(1,6) c in \<open>auto simp: putBody_def\<close>)
    with 1 show ?thesis by simp
  qed
qed

lemma Put_frame:
  assumes "svc_store S = ops" "inv (w_meta w)" "sinv (w_meta w)" "good_key (t, b, k)"
    and "fresh (call e 1) (empty_manifest\<lparr>m_tenant := t, m_bucket := b, m_key := k\<rparr>) (w_meta w)"
    and "Put S e t b k body opts w = (r, w')"
  shows "inv (w_meta w') \<and> sinv (w_meta w') \<and> sessions (w_meta w') = sessions (w_meta w)
    \<and> (\<forall>key. key \<noteq> (t, b, k) \<longrightarrow> committed (w_meta w') key = committed (w_meta w) key)"
proof (cases "svc_cpu S")
  case None
  with assms(6) putBody_frame [OF assms(1-5)] show ?thesis by (simp add: Put_def Let_def)
next
  case (Some cpu)
  obtain rx c where a: "Acquire cpu (call e 0) (w_cpu w) = (rx, c)" by fastforce
  show ?thesis
  proof (cases rx)
    case None
    obtain r1 w1 where p: "putBody S e t b k body (collectPutOptions (call e 6) opts) (w\<lparr>w_cpu := c\<rparr>) = (r1, w1)"
      by fastforce
    with a None Some assms(6) have "w_meta w' = w_meta w1" by (auto simp: Put_def Let_def)
    with putBody_frame [OF assms(1) _ _ assms(4) _ p] assms(2,3,5) show ?thesis by simp
  qed (use a Some assms in \<open>auto simp: Put_def Let_def\<close>)
qed

lemma Delete_frame:
  assumes "svc_store S = ops" "inv (w_meta w)" "sinv (w_meta w)" "good_key (t, b, k)" "Delete S e t b k w = (r, w')"
  shows "inv (w_meta w') \<and> sinv (w_meta w') \<and> sessions (w_meta w') = sessions (w_meta w)
    \<and> (\<forall>key. key \<noteq> (t, b, k) \<longrightarrow> committed (w_meta w') key = committed (w_meta w) key)"
proof -
  obtain rd s1 where d: "DeleteObject ops (call e 0) t b k (w_meta w) = (rd, s1)" by fastforce
  with assms have "w_meta w' = s1" by (auto simp: Delete_def)
  with delete [OF assms(2,4) d] obj_delete [OF assms(3) d] show ?thesis by (auto split: sum.splits)
qed

end

section \<open>A manager on the shared store\<close>

locale shared_manager =
  shared_store ops inv committed pending fresh sinv sessions + multipart_manager ops sinv sessions m cap
  for ops :: "'m store_ops" and inv :: "'m \<Rightarrow> bool" and committed :: "'m \<Rightarrow> object_key \<Rightarrow> manifest option"
    and pending :: "'m \<Rightarrow> string \<Rightarrow> bool" and fresh :: "env \<Rightarrow> manifest \<Rightarrow> 'm \<Rightarrow> bool"
    and sinv :: "'m \<Rightarrow> bool" and sessions :: "'m \<Rightarrow> string \<times> string \<Rightarrow> mp_session option"
    and m :: "'m manager" and cap :: int
begin

text \<open>The manager changes no object and only sessions of the tenant it is called for, and no
  session gets a bucket name with a NUL byte.\<close>

definition tenant_frame :: "string \<Rightarrow> 'm \<Rightarrow> 'm \<Rightarrow> bool" where
  "tenant_frame t s s' \<longleftrightarrow> inv s' \<and> sinv s' \<and> committed s' = committed s
     \<and> (\<forall>t' u. t' \<noteq> t \<longrightarrow> sessions s' (t', u) = sessions s (t', u))
     \<and> (\<forall>t' u ms'. sessions s' (t', u) = Some ms' \<longrightarrow> nul_free (ms_bucket ms')
          \<or> (\<exists>ms. sessions s (t', u) = Some ms \<and> ms_bucket ms' = ms_bucket ms))"

lemma session_meta: "mpSession m e t u w = (r, w') \<Longrightarrow> mw_meta w' = mw_meta w \<and> mw_files w' = mw_files w"
  by (auto simp: mpSession_def Let_def split: option.splits sum.splits prod.splits if_splits)

lemma checkPart_meta: "CheckPart m e t u n z w = (r, w') \<Longrightarrow> mw_meta w' = mw_meta w"
  by (cases "mpSession m (call e 0) t u w")
    (auto simp: CheckPart_def Let_def dest!: session_meta split: if_splits sum.splits)

lemma open_meta: "mpOpen m e t u ns w = (r, w') \<Longrightarrow> mw_meta w' = mw_meta w"
  by (cases "mpSession m (call e 0) t u w") (auto simp: mpOpen_def Let_def dest!: session_meta split: sum.splits)

lemma get_meta: "mpGet m e t u w = (r, w') \<Longrightarrow> mw_meta w' = mw_meta w"
  by (auto simp: mpGet_def dest!: session_meta split: option.splits)

lemma create_frame:
  assumes "inv (mw_meta w)" "sinv (mw_meta w)" "nul_free b" "mpCreate m e t b k n hs w = (r, w')"
  shows "tenant_frame t (mw_meta w) (mw_meta w')"
proof -
  have same: "tenant_frame t (mw_meta w) (mw_meta w)" using assms(1,2) by (simp add: tenant_frame_def)
  have create: "tenant_frame t (mw_meta w) s'"
    if c: "CreateMultipartSession ops e' ms (mw_meta w) = (x, s')" "ms_tenant ms = t" "ms_bucket ms = b" for e' ms x s'
    using sess_create [OF assms(1) c(1)] mp_create [OF assms(2) c(1)] c(2,3) assms(3)
    by (cases x) (auto simp: tenant_frame_def same_session_def split: if_splits)
  show ?thesis
  proof (cases "mw_meta w' = mw_meta w")
    case False
    with assms(4) the_store obtain e' ms x where
      "CreateMultipartSession ops e' ms (mw_meta w) = (x, mw_meta w')" "ms_tenant ms = t" "ms_bucket ms = b"
      by (auto simp: mpCreate_def Let_def split: option.splits if_splits prod.splits)
    with create show ?thesis by blast
  qed (use same in simp)
qed

lemma reserve_meta: "reserveForPart m e t u n info w = (r, w') \<Longrightarrow> mw_meta w' = mw_meta w"
  by (auto simp: reserveForPart_def Let_def split: option.splits if_splits prod.splits)

lemma rollback_meta [simp]: "mw_meta (rollbackReservation m t u n res w) = mw_meta w"
  by (simp add: rollbackReservation_def Let_def split: option.splits)

lemma finish_meta [simp]: "mw_meta (finishReservation m res w) = mw_meta w"
  by (simp add: finishReservation_def)

lemma commitPart_frame:
  assumes "inv (mw_meta w)" "sinv (mw_meta w)" "commitPart m e t u s n info res w = (r, w')"
  shows "tenant_frame t (mw_meta w) (mw_meta w')"
proof (cases "mw_meta w' = mw_meta w")
  case False
  with assms(3) the_store obtain e' pt z x where
    sv: "SaveMultipartPart ops e' t u pt z (mw_meta w) = (x, mw_meta w')"
    by (auto simp: commitPart_def Let_def split: option.splits prod.splits)
  from sess_save [OF assms(1) sv] mp_save [OF assms(2) sv] show ?thesis
    by (cases x) (auto simp: tenant_frame_def split: if_splits)
qed (use assms(1,2) in \<open>simp add: tenant_frame_def\<close>)

lemma putPart_frame:
  assumes "inv (mw_meta w)" "sinv (mw_meta w)" "PutPart m e t u n rd w = (r, w')"
  shows "tenant_frame t (mw_meta w) (mw_meta w')"
proof -
  have same: "tenant_frame t (mw_meta w) (mw_meta w)" using assms(1,2) by (simp add: tenant_frame_def)
  obtain r1 w1 where 1: "mpSession m (call e 0) t u w = (r1, w1)" by fastforce
  note m1 = session_meta [OF 1]
  show ?thesis
  proof (cases r1)
    case (Inr s)
    obtain r2 fs where 2: "spoolPart m (call e 1) s n rd (mw_used w1) (mw_files w1) = (r2, fs)" by fastforce
    show ?thesis
    proof (cases r2)
      case (Inr info)
      obtain r3 w3 where 3: "reserveForPart m (call e 2) t u n info (w1\<lparr>mw_files := fs\<rparr>) = (r3, w3)" by fastforce
      from reserve_meta [OF 3] m1 have m3: "mw_meta w3 = mw_meta w" by simp
      show ?thesis
      proof (cases r3)
        case (Inr res)
        show ?thesis
        proof (cases "n \<le> 0")
          case False
          with assms(3) 1 2 3 \<open>r1 = Inr s\<close> \<open>r2 = Inr info\<close> Inr
          have "commitPart m (call e 4) t u s n info res w3 = (r, w')" by (simp add: PutPart_def)
          from commitPart_frame [OF _ _ this] m3 assms(1,2) show ?thesis by simp
        qed (use assms(3) same in \<open>simp add: PutPart_def\<close>)
      qed (use assms(3) 1 2 3 \<open>r1 = Inr s\<close> \<open>r2 = Inr info\<close> m3 same in \<open>auto simp: PutPart_def split: if_splits\<close>)
    qed (use assms(3) 1 2 Inr m1 same in \<open>auto simp: PutPart_def split: if_splits\<close>)
  qed (use assms(3) 1 m1 same in \<open>auto simp: PutPart_def split: if_splits\<close>)
qed

lemma abort_frame:
  assumes "inv (mw_meta w)" "ok w" "nul_free t" "Abort m e t u w = (r, w')"
  shows "tenant_frame t (mw_meta w) (mw_meta w')"
proof -
  from assms(2) have si: "sinv (mw_meta w)" by (simp add: mp_ok_def)
  have same: "tenant_frame t (mw_meta w) (mw_meta w)" using assms(1) si by (simp add: tenant_frame_def)
  obtain r1 w1 where 1: "mpSession m (call e 0) t u w = (r1, w1)" by fastforce
  note m1 = session_meta [OF 1]
  show ?thesis
  proof (cases r1)
    case (Inr s)
    from mpSession_ok [OF assms(2,3) 1] Inr have ok1: "ok w1" "map_of (mw_uploads w1) (sessionKey t u) = Some s" by auto
    then have t: "up_Tenant s = t" using mirrored_at(1) [OF _ assms(3)] by (auto simp: mp_ok_def)
    show ?thesis
    proof (cases "mw_meta w' = mw_meta w")
      case False
      with assms(4) 1 Inr m1 the_store t obtain e' x where
        d: "DeleteMultipartSession ops e' t (up_UploadID s) (mw_meta w) = (x, mw_meta w')"
        by (auto simp: Abort_def deleteSession_def Let_def split: option.splits if_splits prod.splits)
      from sess_delete [OF assms(1) d] mp_delete [OF si d] show ?thesis
        by (cases x) (auto simp: tenant_frame_def split: if_splits)
    qed (use same in simp)
  qed (use assms(4) 1 m1 same in \<open>auto simp: Abort_def\<close>)
qed

end

section \<open>The in-memory store\<close>

lemma ensureTenant_multipart [simp]: "multipart (ensureTenant t s) = multipart s"
  by (simp add: ensureTenant_def)

lemma refs_multipart [simp]:
  "multipart (incrementLocked e t cs s) = multipart s" "multipart (decrementLocked e t cs s) = multipart s"
  "multipart (retirePrevious e n k s) = multipart s"
  by (simp_all add: incrementLocked_def decrementLocked_def retirePrevious_def Let_def split: option.splits)

lemma objects_multipart:
  "memCreatePendingObject e m s = (rc, s') \<Longrightarrow> multipart s' = multipart s"
  "memCommitObject e i m s = (r, s') \<Longrightarrow> multipart s' = multipart s"
  "memDeleteObject e t b k s = (rd, s') \<Longrightarrow> multipart s' = multipart s"
  by (auto simp: memCreatePendingObject_def memCommitObject_def memDeleteObject_def Let_def
      split: option.splits if_splits)

lemma sessions_cong:
  "multipart s' = multipart s \<Longrightarrow> (sessions_named s \<longrightarrow> sessions_named s') \<and> mem_sessions s' = mem_sessions s"
  by (simp add: sessions_named_def mem_sessions_def)

lemma committed_cong:
  "objects s' = objects s \<Longrightarrow> index s' = index s \<Longrightarrow> mem_committed s' = mem_committed s"
  by (simp add: mem_committed_def fun_eq_iff)

interpretation mem_shared: shared_store memory_ops store_inv mem_committed mem_pending mem_fresh
  sessions_named mem_sessions
proof (unfold_locales, goal_cases)
  case (1 s e ms r s')
  then have "memCreateMultipartSession e ms s = (r, s')" by (simp add: memory_ops_def)
  with 1(1) show ?case
    using multipart_frame(1,2) [of e ms s r s'] multipart_store_inv [of e ms s r s'] committed_cong by blast
next
  case (2 s e t u pt n r s')
  then have "memSaveMultipartPart e t u pt n s = (r, s')" by (simp add: memory_ops_def)
  with 2(1) show ?case
    using multipart_frame(1,2) [of e _ s r s' t u pt n] multipart_store_inv [of e _ s r s' t u pt n] committed_cong by blast
next
  case (3 s e t u r s')
  then have "memDeleteMultipartSession e t u s = (r, s')" by (simp add: memory_ops_def)
  with 3(1) show ?case
    using multipart_frame(1,2) [of e _ s r s' t u] multipart_store_inv [of e _ s r s' t u] committed_cong by blast
next
  case (4 s e m rc s')
  then show ?case using objects_multipart(1) [of e m s rc s'] sessions_cong [of s' s] by (simp add: memory_ops_def)
next
  case (5 s e i m r s')
  then show ?case using objects_multipart(2) [of e i m s r s'] sessions_cong [of s' s] by (simp add: memory_ops_def)
next
  case (6 s e t b k rd s')
  then show ?case using objects_multipart(3) [of e t b k s rd s'] sessions_cong [of s' s] by (simp add: memory_ops_def)
qed

interpretation mem_shared_mgr: shared_manager memory_ops store_inv mem_committed mem_pending mem_fresh
  sessions_named mem_sessions "serverManager md5 scratchDir localCapacity minFree maxPart maxUpload" localCapacity
  by unfold_locales

end
