(* ===== verification/ApiCore.thy ===== *)
theory ApiCore
  imports HttpLib S3Auth ObjectService
begin

text \<open>
  \<open>src/internal/api\<close>, the parts that do not touch the stores: response writing and the mapping of
  errors to S3 error codes (\<open>responses.go\<close>, \<open>dto.go\<close>), request parameters, byte ranges and
  validation (\<open>params.go\<close>, \<open>ranges.go\<close>, \<open>validation.go\<close>), addressing of buckets and keys
  (\<open>routes.go\<close>), cross-origin requests (\<open>cors.go\<close>) and authentication (\<open>auth.go\<close>). Documents
  written as XML or JSON are kept as the values that are encoded.
\<close>

section \<open>Documents\<close>

record initiateMultipartUploadResult =
  im_Bucket :: string
  im_Key :: string
  im_UploadID :: string

record completeMultipartUploadResult =
  cm_Location :: string
  cm_Bucket :: string
  cm_Key :: string
  cm_ETag :: string

record completePart =
  cp_PartNumber :: int
  cp_ETag :: string

record completeMultipartUpload =
  cu_Parts :: "completePart list"

record ownerResult =
  ow_ID :: string
  ow_DisplayName :: string

record bucketResult =
  bk_Name :: string
  bk_CreationDate :: string

record listAllMyBucketsResult =
  la_Owner :: ownerResult
  la_Buckets :: "bucketResult list"

record listBucketResult =
  lb_Name :: string
  lb_Prefix :: string
  lb_KeyCount :: int
  lb_MaxKeys :: int
  lb_IsTruncated :: bool

record errorResponse =
  er_Code :: string
  er_Message :: string
  er_RequestID :: string

record deltaManifestChunk =
  dk_Index :: int
  dk_Hash :: string
  dk_Offset :: int
  dk_Size :: int

record deltaManifestResponse =
  dm_Version :: int
  dm_Bucket :: string
  dm_Key :: string
  dm_Size :: int
  dm_ETag :: string
  dm_ObjectMD5 :: string
  dm_Headers :: "(string, string) gomap"
  dm_Chunks :: "deltaManifestChunk list"

record deltaChunkRequest =
  dq_Bucket :: string
  dq_Key :: string
  dq_Hashes :: "string list"

record deltaChunkPayload =
  dp_Hash :: string
  dp_Size :: int
  dp_Data :: string

record deltaChunkResponse =
  dr_Version :: int
  dr_Chunks :: "deltaChunkPayload list"

datatype document =
    XmlError errorResponse
  | XmlInitiate initiateMultipartUploadResult
  | XmlComplete completeMultipartUploadResult
  | XmlBuckets listAllMyBucketsResult
  | XmlBucket listBucketResult
  | JsonManifest deltaManifestResponse
  | JsonChunks deltaChunkResponse
  | JsonReadiness string "(string, string) gomap"

section \<open>Responses\<close>

text \<open>What a handler has written: headers, the status of the first \<open>WriteHeader\<close> (200 when the
  body starts without one), the status the recorder keeps for the metrics, and the body. A
  document counts as one piece of the body.\<close>

datatype piece = Raw bytes | Doc document

record response =
  rs_Header :: "(string, string) gomap"
  rs_Status :: "int option"
  rs_Recorded :: int
  rs_Body :: "piece list"

definition newResponse :: response where
  "newResponse = \<lparr>rs_Header = [], rs_Status = None, rs_Recorded = 200, rs_Body = []\<rparr>"

definition setHeader :: "string \<Rightarrow> string \<Rightarrow> response \<Rightarrow> response" where
  "setHeader name v w = w\<lparr>rs_Header := AList.update (CanonicalHeaderKey name) v (rs_Header w)\<rparr>"

definition getHeader :: "response \<Rightarrow> string \<Rightarrow> string" where
  "getHeader w name = lookup_or [] (rs_Header w) (CanonicalHeaderKey name)"

definition recWriteHeader :: "int \<Rightarrow> response \<Rightarrow> response" where
  "recWriteHeader status w = w\<lparr>rs_Recorded := status,
     rs_Status := (case rs_Status w of None \<Rightarrow> Some status | Some x \<Rightarrow> Some x)\<rparr>"

definition recWrite :: "piece \<Rightarrow> response \<Rightarrow> response" where
  "recWrite p w = w\<lparr>rs_Status := (case rs_Status w of None \<Rightarrow> Some 200 | Some x \<Rightarrow> Some x),
     rs_Body := rs_Body w @ [p]\<rparr>"

definition addCommonHeaders :: "string \<Rightarrow> response \<Rightarrow> response" where
  "addCommonHeaders requestID w =
     setHeader ''x-amz-request-id'' (if requestID = [] then ''chunkgate'' else requestID) w"

definition writeXML :: "int \<Rightarrow> document \<Rightarrow> response \<Rightarrow> response" where
  "writeXML status value w =
     recWrite (Doc value) (recWriteHeader status (setHeader ''Content-Type'' ''application/xml'' w))"

definition writeJSON :: "int \<Rightarrow> document \<Rightarrow> response \<Rightarrow> response" where
  "writeJSON status value w =
     recWrite (Doc value) (recWriteHeader status (setHeader ''Content-Type'' ''application/json'' w))"

definition writeError :: "int \<Rightarrow> string \<Rightarrow> string \<Rightarrow> response \<Rightarrow> response" where
  "writeError status c message w =
     (let requestID = getHeader w ''x-amz-request-id'';
          requestID' = (if requestID = [] then ''chunkgate'' else requestID)
      in writeXML status (XmlError \<lparr>er_Code = c, er_Message = message, er_RequestID = requestID'\<rparr>) w)"

text \<open>The texts of the errors; a context's error is either a cancellation or a deadline.\<close>

fun err_text :: "err \<Rightarrow> string" where
  "err_text ErrNotFound = ''metadata not found''"
| "err_text ErrInvalidTenant = ''invalid tenant''"
| "err_text ErrBlockNotFound = ''backend block not found''"
| "err_text ErrBackendUnavailable = ''backend unavailable''"
| "err_text ErrCapacityExceeded = ''local capacity reservation exceeded''"
| "err_text ErrInsufficientDisk = ''insufficient scratch disk space''"
| "err_text ErrUploadNotFound = ''multipart upload not found''"
| "err_text ErrPartTooLarge = ''multipart part exceeds configured limit''"
| "err_text ErrUploadTooLarge = ''multipart upload exceeds configured limit''"
| "err_text ErrChunkNotInManifest = ''chunk is not part of object manifest''"
| "err_text ErrDraining = ''server is draining active uploads''"
| "err_text ErrContext = ''context canceled''"
| "err_text ErrMaxBytes = ''http: request body too large''"
| "err_text (ErrSys s) = s"
| "err_text (ErrNew s) = s"
| "err_text (ErrWrap s x) = s @ '': '' @ err_text x"

definition isCapacityError :: "err \<Rightarrow> bool" where
  "isCapacityError x \<longleftrightarrow> errors_is x ErrCapacityExceeded \<or> errors_is x ErrInsufficientDisk"

definition isBodyLimitError :: "err \<Rightarrow> bool" where
  "isBodyLimitError x \<longleftrightarrow> errors_is x ErrMaxBytes"

definition writeCapacityError :: "response \<Rightarrow> response" where
  "writeCapacityError = writeError 507 ''InsufficientStorage''
     ''the server does not have enough reserved scratch capacity or free disk space''"

definition writeInternalError :: "err \<Rightarrow> response \<Rightarrow> response" where
  "writeInternalError x =
     (if errors_is x ErrBlockNotFound then writeError 404 ''NoSuchKey'' ''the specified key does not exist''
      else if isCapacityError x then writeCapacityError
      else if errors_is x ErrBackendUnavailable
      then writeError 503 ''ServiceUnavailable'' ''the storage backend is temporarily unavailable''
      else writeError 500 ''InternalError'' (err_text x))"

section \<open>Parameters and ranges\<close>

definition parseInt64Header :: "http_request \<Rightarrow> string \<Rightarrow> int" where
  "parseInt64Header r key =
     (let value = header_get (rq_Header r) key
      in if value = [] then 0
         else (case parse_int64 value of None \<Rightarrow> 0 | Some parsed \<Rightarrow> if parsed < 0 then 0 else parsed))"

definition applyObjectHeaders :: "env \<Rightarrow> (string, string) gomap \<Rightarrow> response \<Rightarrow> response" where
  "applyObjectHeaders e headers w = foldl (\<lambda>w (k, v). setHeader k v w) w (go_range (range_pick e []) headers)"

definition applyRangeHeaders :: "env \<Rightarrow> manifest \<Rightarrow> byte_range \<Rightarrow> int \<Rightarrow> response \<Rightarrow> response" where
  "applyRangeHeaders e m byteRange len w =
     setHeader ''Content-Length'' (format_int len)
       (setHeader ''Content-Range'' (''bytes '' @ format_int (Start byteRange) @ ''-'' @ format_int (End byteRange)
           @ ''/'' @ format_int (m_size m))
         (setHeader ''ETag'' (m_etag m)
           (setHeader ''Accept-Ranges'' ''bytes'' (applyObjectHeaders e (m_headers m) w))))"

definition parseSingleRange :: "string \<Rightarrow> int \<Rightarrow> err + byte_range" where
  "parseSingleRange header sz =
     (if \<not> has_prefix header ''bytes='' then Inl (ErrNew ''only bytes ranges are supported'') else
      let spec = trim_space (trim_prefix header ''bytes='') in
      if spec = [] then Inl (ErrNew ''range is empty'') else
      if contains_str spec '','' then Inl (ErrNew ''multiple ranges are not supported'') else
      case cut_at CHR ''-'' spec of (startRaw0, endRaw0, ok) \<Rightarrow>
      if \<not> ok then Inl (ErrNew ''range must include a dash'') else
      let startRaw = trim_space startRaw0; endRaw = trim_space endRaw0 in
      if startRaw = [] \<and> endRaw = [] then Inl (ErrNew ''range is empty'') else
      if sz \<le> 0 then Inl (ErrNew ''range is not satisfiable'') else
      if startRaw = [] then
        (case parse_int64 endRaw of
           None \<Rightarrow> Inl (ErrNew ''suffix length is invalid'')
         | Some suffixLength \<Rightarrow>
             if suffixLength \<le> 0 then Inl (ErrNew ''suffix length is invalid'')
             else (let start = sub64 sz suffixLength; start' = (if start < 0 then 0 else start)
                   in Inr \<lparr>Start = start', End = sub64 sz 1\<rparr>))
      else
        (case parse_int64 startRaw of
           None \<Rightarrow> Inl (ErrNew ''range start is invalid'')
         | Some start \<Rightarrow>
             if start < 0 then Inl (ErrNew ''range start is invalid'')
             else if sz \<le> start then Inl (ErrNew ''range is not satisfiable'')
             else if endRaw = [] then Inr \<lparr>Start = start, End = sub64 sz 1\<rparr>
             else (case parse_int64 endRaw of
                     None \<Rightarrow> Inl (ErrNew ''range end is invalid'')
                   | Some end \<Rightarrow>
                       if end < 0 then Inl (ErrNew ''range end is invalid'')
                       else if end < start then Inl (ErrNew ''range end is before range start'')
                       else Inr \<lparr>Start = start, End = (if sz \<le> end then sub64 sz 1 else end)\<rparr>)))"

section \<open>Validation\<close>

definition maxS3PartNumber :: int where
  "maxS3PartNumber = 10000"

text \<open>\<open>net.ParseIP\<close> accepts four decimal octets without leading zeros; the IPv6 forms it also accepts
  contain a colon, which no bucket name may.\<close>

definition is_ipv4 :: "string \<Rightarrow> bool" where
  "is_ipv4 s \<longleftrightarrow> (let fs = split_at CHR ''.'' s in length fs = 4 \<and>
     list_all (\<lambda>f. f \<noteq> [] \<and> list_all digit_char f \<and> (length f = 1 \<or> hd f \<noteq> CHR ''0'') \<and> digits_value f \<le> 255) fs)"

definition lower_alnum :: "nat \<Rightarrow> bool" where
  "lower_alnum r \<longleftrightarrow> (97 \<le> r \<and> r \<le> 122) \<or> (48 \<le> r \<and> r \<le> 57)"

fun bucketLoop :: "bool \<Rightarrow> bool \<Rightarrow> nat list \<Rightarrow> bool" where
  "bucketLoop first previousDot [] \<longleftrightarrow> True"
| "bucketLoop first previousDot (r # rs) \<longleftrightarrow>
     (lower_alnum r \<or> r = 46 \<or> r = 45) \<and> (first \<longrightarrow> lower_alnum r) \<and> \<not> (r = 46 \<and> previousDot)
     \<and> bucketLoop False (r = 46) rs"

definition validateBucketName :: "string \<Rightarrow> bool" where
  "validateBucketName bucket \<longleftrightarrow>
     \<not> (length bucket < 3 \<or> 63 < length bucket) \<and> \<not> is_ipv4 bucket \<and> bucketLoop True False (runes bucket)
     \<and> lower_alnum (char_code (last bucket)) \<and> \<not> contains_str bucket ''.-'' \<and> \<not> contains_str bucket ''-.''"

definition validateObjectKey :: "string \<Rightarrow> bool" where
  "validateObjectKey key \<longleftrightarrow> \<not> (key = [] \<or> 1024 < length key \<or> \<not> valid_utf8 key)
     \<and> list_all (\<lambda>r. \<not> (r = 0 \<or> r < 32 \<and> r \<noteq> 9)) (runes key)"

definition validateUploadID :: "string \<Rightarrow> bool" where
  "validateUploadID uploadID \<longleftrightarrow> length uploadID = 32 \<and> list_all is_lower_hex (runes uploadID)"

definition validateChunkHash :: "string \<Rightarrow> bool" where
  "validateChunkHash hash \<longleftrightarrow> length hash = 64 \<and> list_all is_lower_hex (runes hash)"

definition parsePartNumber :: "string \<Rightarrow> int option" where
  "parsePartNumber raw =
     (if raw = [] \<or> \<not> list_all is_digit (runes raw) then None
      else (case parse_int64 raw of
              None \<Rightarrow> None
            | Some n \<Rightarrow> if n \<le> 0 \<or> maxS3PartNumber < n then None else Some n))"

section \<open>Addressing\<close>

record s3_path =
  sp_Bucket :: string
  sp_Key :: string
  sp_HasBucket :: bool
  sp_HasKey :: bool

definition no_path :: s3_path where
  "no_path = \<lparr>sp_Bucket = [], sp_Key = [], sp_HasBucket = False, sp_HasKey = False\<rparr>"

definition bucket_path :: "string \<Rightarrow> s3_path" where
  "bucket_path b = \<lparr>sp_Bucket = b, sp_Key = [], sp_HasBucket = True, sp_HasKey = False\<rparr>"

definition key_path :: "string \<Rightarrow> string \<Rightarrow> s3_path" where
  "key_path b k = \<lparr>sp_Bucket = b, sp_Key = k, sp_HasBucket = True, sp_HasKey = True\<rparr>"

definition parseS3Path :: "string \<Rightarrow> s3_path option" where
  "parseS3Path escapedPath =
     (let trimmed = trim_prefix escapedPath ''/'' in
      if trimmed = [] then Some no_path else
      case cut_at CHR ''/'' trimmed of (bucketEscaped, keyEscaped, hasKey) \<Rightarrow>
      if bucketEscaped = [] then None else
      case PathUnescape bucketEscaped of None \<Rightarrow> None | Some bucket \<Rightarrow>
      if bucket = [] then None else
      if \<not> hasKey \<or> keyEscaped = [] then Some (bucket_path bucket) else
      case PathUnescape keyEscaped of None \<Rightarrow> None | Some key \<Rightarrow>
      if key = [] then None else Some (key_path bucket key))"

definition parseVirtualHostedS3Path :: "string \<Rightarrow> string \<Rightarrow> s3_path option" where
  "parseVirtualHostedS3Path bucket escapedPath =
     (let keyEscaped = trim_prefix escapedPath ''/'' in
      if keyEscaped = [] then Some (bucket_path bucket) else
      case PathUnescape keyEscaped of None \<Rightarrow> None | Some key \<Rightarrow>
      if key = [] then None else Some (key_path bucket key))"

text \<open>\<open>url.Parse\<close> is asked for the host of an absolute URL; its grammar is a parameter, the function
  from a string to the non-empty host found in it.\<close>

definition normalizeHost :: "(string \<Rightarrow> string option) \<Rightarrow> string \<Rightarrow> string" where
  "normalizeHost url_host raw =
     (let host0 = trim_space raw in
      if host0 = [] then [] else
      let host1 = (case url_host host0 of None \<Rightarrow> host0 | Some h \<Rightarrow> h);
          host2 = (case SplitHostPort host1 of
                     Some h \<Rightarrow> h
                   | None \<Rightarrow> if count_list host1 CHR '':'' = 1 then fst (cut_at CHR '':'' host1) else host1)
      in to_lower (trim_suffix (trim_suffix (trim_prefix host2 ''['') '']'') ''.''))"

fun virtualHostsLoop :: "(string \<Rightarrow> string option) \<Rightarrow> string list \<Rightarrow> string list \<Rightarrow> string list" where
  "virtualHostsLoop url_host seen [] = []"
| "virtualHostsLoop url_host seen (raw # rest) =
     (let host = normalizeHost url_host raw
      in if host = [] \<or> host \<in> set seen then virtualHostsLoop url_host seen rest
         else host # virtualHostsLoop url_host (host # seen) rest)"

definition normalizeVirtualHosts :: "(string \<Rightarrow> string option) \<Rightarrow> string list \<Rightarrow> string list" where
  "normalizeVirtualHosts url_host hosts = virtualHostsLoop url_host [] hosts"

fun virtualTarget :: "string \<Rightarrow> string \<Rightarrow> string list \<Rightarrow> s3_path option" where
  "virtualTarget host escapedPath [] = parseS3Path escapedPath"
| "virtualTarget host escapedPath (virtualHost # rest) =
     (if host = [] \<or> virtualHost = [] \<or> host = virtualHost then virtualTarget host escapedPath rest
      else if \<not> has_suffix host (''.'' @ virtualHost) then virtualTarget host escapedPath rest
      else (let bucket = trim_suffix host (''.'' @ virtualHost)
            in if bucket = [] then virtualTarget host escapedPath rest
               else parseVirtualHostedS3Path bucket escapedPath))"

definition parseS3Target :: "(string \<Rightarrow> string option) \<Rightarrow> http_request \<Rightarrow> string list \<Rightarrow> s3_path option" where
  "parseS3Target url_host r virtualHosts =
     virtualTarget (normalizeHost url_host (rq_Host r)) (rq_EscapedPath r) virtualHosts"

definition hasSubresource :: "http_request \<Rightarrow> string \<Rightarrow> bool" where
  "hasSubresource r name \<longleftrightarrow> map_of (rq_Query r) name \<noteq> None \<or> name \<in> set (split_at CHR ''&'' (rq_RawQuery r))"

definition parseMaxKeys :: "http_request \<Rightarrow> int" where
  "parseMaxKeys r =
     (let value = query_get r ''max-keys''
      in if value = [] then 1000
         else (case parse_int64 value of None \<Rightarrow> 1000 | Some parsed \<Rightarrow> if parsed \<le> 0 then 1000 else parsed))"

definition location :: "string \<Rightarrow> string \<Rightarrow> string" where
  "location bucket key = ''/'' @ bucket @ ''/'' @ key"

definition method_not_allowed :: "response \<Rightarrow> response" where
  "method_not_allowed = writeError 405 ''MethodNotAllowed'' ''the specified method is not allowed against this resource''"

definition serviceRoute :: "http_request \<Rightarrow> response \<Rightarrow> response" where
  "serviceRoute r w =
     (if rq_Method r \<noteq> ''GET'' then method_not_allowed w
      else writeXML 200 (XmlBuckets \<lparr>la_Owner = \<lparr>ow_ID = ''chunkgate'', ow_DisplayName = ''chunkgate''\<rparr>,
        la_Buckets = []\<rparr>) w)"

definition bucketRoute :: "http_request \<Rightarrow> string \<Rightarrow> response \<Rightarrow> response" where
  "bucketRoute r bucket w =
     (if rq_Method r = ''HEAD'' then recWriteHeader 200 w
      else if rq_Method r = ''PUT'' then recWriteHeader 200 (setHeader ''Location'' (''/'' @ bucket) w)
      else if rq_Method r = ''DELETE'' then recWriteHeader 204 w
      else if rq_Method r = ''GET'' then
        writeXML 200 (XmlBucket \<lparr>lb_Name = bucket, lb_Prefix = query_get r ''prefix'', lb_KeyCount = 0,
          lb_MaxKeys = parseMaxKeys r, lb_IsTruncated = False\<rparr>) w
      else method_not_allowed w)"

section \<open>Cross-origin requests\<close>

record cors_config =
  co_AllowedOrigins :: "string list"
  co_AllowedMethods :: "string list"
  co_AllowedHeaders :: "string list"
  co_ExposedHeaders :: "string list"
  co_AllowCredentials :: bool
  co_MaxAgeSeconds :: int

definition header_separator :: "nat \<Rightarrow> bool" where
  "header_separator r \<longleftrightarrow> r = 44 \<or> r = 32 \<or> r = 9 \<or> r = 10 \<or> r = 13"

definition splitHeaderValues :: "string \<Rightarrow> string list" where
  "splitHeaderValues value = filter (\<lambda>f. f \<noteq> []) (map trim_space (fields_func header_separator value))"

fun headerListLoop :: "string list \<Rightarrow> string list \<Rightarrow> string list" where
  "headerListLoop seen [] = []"
| "headerListLoop seen (item # rest) =
     (if to_lower item \<in> set seen then headerListLoop seen rest
      else item # headerListLoop (to_lower item # seen) rest)"

definition normalizeHeaderList :: "string list \<Rightarrow> string list" where
  "normalizeHeaderList values = headerListLoop [] (concat (map splitHeaderValues values))"

fun methodListLoop :: "string list \<Rightarrow> string list \<Rightarrow> string list" where
  "methodListLoop seen [] = []"
| "methodListLoop seen (item # rest) =
     (let method = to_upper item
      in if method \<in> set seen then methodListLoop seen rest
         else method # methodListLoop (method # seen) rest)"

definition normalizeMethodList :: "string list \<Rightarrow> string list" where
  "normalizeMethodList values = methodListLoop [] (concat (map splitHeaderValues values))"

definition cors_normalized :: "cors_config \<Rightarrow> cors_config" where
  "cors_normalized c =
     (let methods = normalizeMethodList (co_AllowedMethods c);
          headers = normalizeHeaderList (co_AllowedHeaders c);
          exposed = normalizeHeaderList (co_ExposedHeaders c)
      in \<lparr>co_AllowedOrigins = normalizeHeaderList (co_AllowedOrigins c),
          co_AllowedMethods = (if methods = [] then [''GET'', ''HEAD'', ''PUT'', ''POST'', ''DELETE''] else methods),
          co_AllowedHeaders = (if headers = [] then [''*''] else headers),
          co_ExposedHeaders = (if exposed = []
            then [''ETag'', ''Content-Length'', ''Content-Range'', ''x-amz-request-id''] else exposed),
          co_AllowCredentials = co_AllowCredentials c, co_MaxAgeSeconds = co_MaxAgeSeconds c\<rparr>)"

definition cors_enabled :: "cors_config \<Rightarrow> bool" where
  "cors_enabled c \<longleftrightarrow> co_AllowedOrigins c \<noteq> []"

definition originAllowed :: "cors_config \<Rightarrow> string \<Rightarrow> bool" where
  "originAllowed c origin \<longleftrightarrow> list_ex (\<lambda>allowed. allowed = ''*'' \<or> equal_fold allowed origin) (co_AllowedOrigins c)"

definition responseOrigin :: "cors_config \<Rightarrow> string \<Rightarrow> string" where
  "responseOrigin c origin =
     (if \<not> co_AllowCredentials c \<and> list_ex (\<lambda>allowed. allowed = ''*'') (co_AllowedOrigins c) then ''*'' else origin)"

definition methodAllowed :: "cors_config \<Rightarrow> string \<Rightarrow> bool" where
  "methodAllowed c method \<longleftrightarrow> list_ex (\<lambda>allowed. equal_fold allowed method) (co_AllowedMethods c)"

definition containsWildcard :: "string list \<Rightarrow> bool" where
  "containsWildcard values \<longleftrightarrow> list_ex (\<lambda>v. v = ''*'') values"

definition headersAllowed :: "cors_config \<Rightarrow> string \<Rightarrow> bool" where
  "headersAllowed c requestHeaders \<longleftrightarrow>
     trim_space requestHeaders = [] \<or> containsWildcard (co_AllowedHeaders c)
     \<or> list_all (\<lambda>requested. list_ex (\<lambda>allowed. equal_fold allowed requested) (co_AllowedHeaders c))
         (splitHeaderValues requestHeaders)"

definition allowedHeadersValue :: "cors_config \<Rightarrow> string \<Rightarrow> string" where
  "allowedHeadersValue c requestHeaders =
     (if containsWildcard (co_AllowedHeaders c)
      then (if trim_space requestHeaders = [] then ''*'' else join_with '', '' (splitHeaderValues requestHeaders))
      else join_with '', '' (co_AllowedHeaders c))"

definition appendVary :: "string \<Rightarrow> string \<Rightarrow> string" where
  "appendVary existing value =
     (if existing = [] then value
      else if list_ex (\<lambda>item. equal_fold item value) (splitHeaderValues existing) then existing
      else existing @ '', '' @ value)"

text \<open>The digits are produced only for a positive value; a negative one gives the empty string.\<close>

function intDigits :: "int \<Rightarrow> string \<Rightarrow> string" where
  "intDigits value buf = (if 0 < value then intDigits (value div 10) (char_of (nat (48 + value mod 10)) # buf) else buf)"
  by pat_completeness auto
termination by (relation "measure (\<lambda>(v, _). nat v)") auto

declare intDigits.simps [simp del]

definition intString :: "int \<Rightarrow> string" where
  "intString value = (if value = 0 then ''0'' else intDigits value [])"

definition invalid_request :: "string \<Rightarrow> response \<Rightarrow> bool \<times> response" where
  "invalid_request message w = (True, writeError 400 ''InvalidRequest'' message w)"

definition corsOrigin :: "cors_config \<Rightarrow> string \<Rightarrow> response \<Rightarrow> response" where
  "corsOrigin c origin w0 =
     (let w1 = setHeader ''Access-Control-Allow-Origin'' (responseOrigin c origin) w0;
          w2 = setHeader ''Vary'' (appendVary (getHeader w1 ''Vary'') ''Origin'') w1;
          w3 = (if co_AllowCredentials c then setHeader ''Access-Control-Allow-Credentials'' ''true'' w2 else w2)
      in if co_ExposedHeaders c \<noteq> []
         then setHeader ''Access-Control-Expose-Headers'' (join_with '', '' (co_ExposedHeaders c)) w3 else w3)"

definition corsPreflight :: "cors_config \<Rightarrow> http_request \<Rightarrow> response \<Rightarrow> bool \<times> response" where
  "corsPreflight c r w =
     (let requestMethod = header_get (rq_Header r) ''Access-Control-Request-Method'';
          requestHeaders = header_get (rq_Header r) ''Access-Control-Request-Headers'' in
      if requestMethod = [] then invalid_request ''CORS preflight requires Access-Control-Request-Method'' w
      else if \<not> methodAllowed c requestMethod then invalid_request ''the requested CORS method is not allowed'' w
      else if \<not> headersAllowed c requestHeaders
      then invalid_request ''one or more requested CORS headers are not allowed'' w
      else (let w1 = setHeader ''Access-Control-Allow-Headers'' (allowedHeadersValue c requestHeaders)
                       (setHeader ''Access-Control-Allow-Methods'' (join_with '', '' (co_AllowedMethods c)) w);
                w2 = (if 0 < co_MaxAgeSeconds c
                      then setHeader ''Access-Control-Max-Age'' (intString (co_MaxAgeSeconds c)) w1 else w1)
            in (True, recWriteHeader 204 w2)))"

definition handleCORS :: "cors_config \<Rightarrow> http_request \<Rightarrow> response \<Rightarrow> bool \<times> response" where
  "handleCORS c r w =
     (let origin = header_get (rq_Header r) ''Origin'' in
      if \<not> cors_enabled c then (False, w)
      else if origin = [] then (False, w)
      else if \<not> originAllowed c origin then
        (if rq_Method r = ''OPTIONS''
         then (True, writeError 403 ''AccessDenied'' ''the CORS origin is not allowed'' w) else (False, w))
      else if rq_Method r \<noteq> ''OPTIONS'' then (False, corsOrigin c origin w)
      else corsPreflight c r (corsOrigin c origin w))"

section \<open>Authentication\<close>

definition authenticate :: "verifier option \<Rightarrow> string \<Rightarrow> env \<Rightarrow> http_request \<Rightarrow> response \<Rightarrow> response + identity" where
  "authenticate auth anonymousTenant e r w =
     (if \<not> Enabled auth then
        (if anonymousTenant \<noteq> [] then Inr \<lparr>id_AccessKey = [], id_Tenant = anonymousTenant\<rparr>
         else Inl (writeError 403 ''AccessDenied'' ''authentication is required'' w))
      else (case Verify auth e r of
              Inr i \<Rightarrow> Inr i
            | Inl x \<Rightarrow> Inl (writeError (ae_Status x) (ae_Code x) (ae_Message x) w)))"

end
