(* ===== verification/ApiHandlers.thy ===== *)
theory ApiHandlers
  imports ApiCore Multipart Sweeper
begin

text \<open>
  \<open>src/internal/api\<close>, the handlers: \<open>object_handlers.go\<close>, \<open>multipart_handlers.go\<close>,
  \<open>delta_handlers.go\<close>, \<open>operations.go\<close> and the router of \<open>server.go\<close>. The object service and the
  multipart manager share one metadata store and one metrics value, as \<open>cmd/chunkgate/main.go\<close>
  sets them up; a handler runs alone from the request to the response.
\<close>

section \<open>The server and its state\<close>

text \<open>The last three fields are library code the handlers call: the host of \<open>url.Parse\<close> and the
  XML and JSON decoders, from a body to the decoded value or the reader's or the syntax error.
  Type assertions to the health-check interface are options.\<close>

record ('m, 'b, 'c) api_server =
  sv_objects :: "('m, 'b, 'c) service"
  sv_multipart :: "'m manager"
  sv_auth :: "verifier option"
  sv_limiter :: "('c \<Rightarrow> adaptive_snapshot) option"
  sv_storeHealth :: "(env \<Rightarrow> 'm \<Rightarrow> err option) option"
  sv_maxObjectBytes :: int
  sv_maxPartBytes :: int
  sv_maxCompleteXML :: int
  sv_readinessTimeout :: int
  sv_debugPprofEnabled :: bool
  sv_anonymousTenant :: string
  sv_virtualHosts :: "string list"
  sv_cors :: cors_config
  sv_url_host :: "string \<Rightarrow> string option"
  sv_decodeXML :: "reader \<Rightarrow> err + completeMultipartUpload"
  sv_decodeJSON :: "reader \<Rightarrow> err + deltaChunkRequest"

record ('m, 'b, 'c) api_world =
  aw_meta :: 'm
  aw_blocks :: 'b
  aw_cpu :: 'c
  aw_metrics :: "metrics option"
  aw_gcMetrics :: "gc_metrics option"
  aw_uploads :: "(string, upload) gomap"
  aw_used :: int
  aw_files :: file_tree
  aw_draining :: bool
  aw_inflight :: int

definition objects_of :: "('m, 'b, 'c) api_world \<Rightarrow> ('m, 'b, 'c) world" where
  "objects_of w = \<lparr>w_meta = aw_meta w, w_blocks = aw_blocks w, w_cpu = aw_cpu w, w_metrics = aw_metrics w\<rparr>"

definition with_objects :: "('m, 'b, 'c) api_world \<Rightarrow> ('m, 'b, 'c) world \<Rightarrow> ('m, 'b, 'c) api_world" where
  "with_objects w o' = w\<lparr>aw_meta := w_meta o', aw_blocks := w_blocks o', aw_cpu := w_cpu o', aw_metrics := w_metrics o'\<rparr>"

definition uploads_of :: "('m, 'b, 'c) api_world \<Rightarrow> 'm mp_world" where
  "uploads_of w = \<lparr>mw_uploads = aw_uploads w, mw_used = aw_used w, mw_files = aw_files w, mw_meta = aw_meta w\<rparr>"

definition with_uploads :: "('m, 'b, 'c) api_world \<Rightarrow> 'm mp_world \<Rightarrow> ('m, 'b, 'c) api_world" where
  "with_uploads w u = w\<lparr>aw_uploads := mw_uploads u, aw_used := mw_used u, aw_files := mw_files u, aw_meta := mw_meta u\<rparr>"

definition count_metric :: "(metrics option \<Rightarrow> metrics option) \<Rightarrow> ('m, 'b, 'c) api_world \<Rightarrow> ('m, 'b, 'c) api_world" where
  "count_metric f w = w\<lparr>aw_metrics := f (aw_metrics w)\<rparr>"

text \<open>\<open>NewServer\<close> and its options; the metrics, the drain gate and the collector's metrics are part
  of the state, the logger only writes.\<close>

type_synonym ('m, 'b, 'c) server_option = "('m, 'b, 'c) api_server \<Rightarrow> ('m, 'b, 'c) api_server"

definition WithAuthVerifier :: "verifier option \<Rightarrow> ('m, 'b, 'c) server_option" where
  "WithAuthVerifier v S = S\<lparr>sv_auth := v\<rparr>"

definition WithLimiter :: "('c \<Rightarrow> adaptive_snapshot) option \<Rightarrow> ('m, 'b, 'c) server_option" where
  "WithLimiter l S = S\<lparr>sv_limiter := l\<rparr>"

definition WithBodyLimits :: "int \<Rightarrow> int \<Rightarrow> int \<Rightarrow> ('m, 'b, 'c) server_option" where
  "WithBodyLimits maxObjectBytes maxPartBytes maxCompleteXML S =
     S\<lparr>sv_maxObjectBytes := maxObjectBytes, sv_maxPartBytes := maxPartBytes, sv_maxCompleteXML := maxCompleteXML\<rparr>"

definition WithReadinessTimeout :: "int \<Rightarrow> ('m, 'b, 'c) server_option" where
  "WithReadinessTimeout timeout S = S\<lparr>sv_readinessTimeout := timeout\<rparr>"

definition WithPprof :: "bool \<Rightarrow> ('m, 'b, 'c) server_option" where
  "WithPprof enabled S = S\<lparr>sv_debugPprofEnabled := enabled\<rparr>"

definition WithAnonymousTenant :: "string \<Rightarrow> ('m, 'b, 'c) server_option" where
  "WithAnonymousTenant tenant S = S\<lparr>sv_anonymousTenant := tenant\<rparr>"

definition WithVirtualHosts :: "string list \<Rightarrow> ('m, 'b, 'c) server_option" where
  "WithVirtualHosts hosts S = S\<lparr>sv_virtualHosts := normalizeVirtualHosts (sv_url_host S) hosts\<rparr>"

definition WithCORS :: "cors_config \<Rightarrow> ('m, 'b, 'c) server_option" where
  "WithCORS config S = S\<lparr>sv_cors := cors_normalized config\<rparr>"

definition NewServer :: "(string \<Rightarrow> string option) \<Rightarrow> (reader \<Rightarrow> err + completeMultipartUpload)
    \<Rightarrow> (reader \<Rightarrow> err + deltaChunkRequest) \<Rightarrow> (env \<Rightarrow> 'm \<Rightarrow> err option) option \<Rightarrow> ('m, 'b, 'c) service
    \<Rightarrow> 'm manager \<Rightarrow> ('m, 'b, 'c) server_option option list \<Rightarrow> ('m, 'b, 'c) api_server" where
  "NewServer url_host decodeXML decodeJSON storeHealth svc multipartManager options =
     foldl (\<lambda>S opt. case opt of None \<Rightarrow> S | Some f \<Rightarrow> f S)
       \<lparr>sv_objects = svc, sv_multipart = multipartManager, sv_auth = None, sv_limiter = None,
        sv_storeHealth = storeHealth, sv_maxObjectBytes = 0, sv_maxPartBytes = 0,
        sv_maxCompleteXML = 1024 * 1024, sv_readinessTimeout = 3 * 1000000000, sv_debugPprofEnabled = False,
        sv_anonymousTenant = [], sv_virtualHosts = [],
        sv_cors = \<lparr>co_AllowedOrigins = [], co_AllowedMethods = [], co_AllowedHeaders = [], co_ExposedHeaders = [],
          co_AllowCredentials = False, co_MaxAgeSeconds = 0\<rparr>,
        sv_url_host = url_host, sv_decodeXML = decodeXML, sv_decodeJSON = decodeJSON\<rparr> options"

type_synonym ('m, 'b, 'c) handler = "response \<Rightarrow> ('m, 'b, 'c) api_world \<Rightarrow> response \<times> ('m, 'b, 'c) api_world"

section \<open>Uploads in flight and body limits\<close>

text \<open>\<open>beginUpload\<close> joins the drain gate and counts the upload; the function it returns undoes
  both. An upload handler is a body between the two, as its deferred call makes it.\<close>

definition beginUpload :: "response \<Rightarrow> ('m, 'b, 'c) api_world \<Rightarrow> bool \<times> response \<times> ('m, 'b, 'c) api_world" where
  "beginUpload rs w =
     (if aw_draining w
      then (False, writeError 503 ''ServiceUnavailable'' ''server is shutting down and is not accepting new uploads'' rs,
            count_metric RejectRequest w)
      else (True, rs, count_metric StartUpload (w\<lparr>aw_inflight := aw_inflight w + 1\<rparr>)))"

definition endUpload :: "bool \<Rightarrow> ('m, 'b, 'c) api_world \<Rightarrow> ('m, 'b, 'c) api_world" where
  "endUpload success w = (let w1 = count_metric (FinishUpload success) w in w1\<lparr>aw_inflight := aw_inflight w1 - 1\<rparr>)"

definition with_upload :: "(response \<Rightarrow> ('m, 'b, 'c) api_world \<Rightarrow> bool \<times> response \<times> ('m, 'b, 'c) api_world)
    \<Rightarrow> ('m, 'b, 'c) handler" where
  "with_upload body rs w =
     (case beginUpload rs w of
        (False, rs1, w1) \<Rightarrow> (rs1, w1)
      | (True, rs1, w1) \<Rightarrow> (case body rs1 w1 of (success, rs2, w2) \<Rightarrow> (rs2, endUpload success w2)))"

definition limitedBody :: "http_request \<Rightarrow> int \<Rightarrow> response \<Rightarrow> ('m, 'b, 'c) api_world
    \<Rightarrow> reader option \<times> response \<times> ('m, 'b, 'c) api_world" where
  "limitedBody r maxBytes rs w =
     (if maxBytes \<le> 0 then (Some (rq_Body r), rs, w)
      else if maxBytes < rq_ContentLength r
      then (None, writeError 400 ''EntityTooLarge'' ''the request body exceeds the configured size limit'' rs,
            count_metric RejectRequest w)
      else (Some (max_bytes_reader (nat maxBytes) (rq_Body r)), rs, w))"

text \<open>\<open>io.Copy\<close> to the client: everything the reader delivers, or a part of it when the connection
  fails.\<close>

definition copyBody :: "env \<Rightarrow> reader \<Rightarrow> response \<Rightarrow> response" where
  "copyBody e rd rs = recWrite (Raw (case syscall e 0 of
     None \<Rightarrow> content rd | Some _ \<Rightarrow> take (range_pick e [1] (length (content rd))) (content rd))) rs"

section \<open>Objects\<close>

definition allowed_headers :: "string list" where
  "allowed_headers = [''Cache-Control'', ''Content-Disposition'', ''Content-Encoding'', ''Content-Language'',
     ''Content-Type'', ''Expires'']"

fun extractAllowed :: "(string, string list) gomap \<Rightarrow> string list \<Rightarrow> (string, string) gomap \<Rightarrow> (string, string) gomap" where
  "extractAllowed headers [] extracted = extracted"
| "extractAllowed headers (key # ks) extracted =
     (let value = trim_space (header_get headers key)
      in extractAllowed headers ks (if value \<noteq> [] then AList.update key value extracted else extracted))"

fun extractMeta :: "(string \<times> string list) list \<Rightarrow> (string, string) gomap \<Rightarrow> (string, string) gomap" where
  "extractMeta [] extracted = extracted"
| "extractMeta ((key, values) # hs) extracted =
     (if \<not> has_prefix (to_lower key) ''x-amz-meta-'' then extractMeta hs extracted
      else (let value = trim_space (join_with '','' values)
            in extractMeta hs (if value \<noteq> [] then AList.update (CanonicalHeaderKey (to_lower key)) value extracted
                 else extracted)))"

definition extractObjectHeaders :: "env \<Rightarrow> (string, string list) gomap \<Rightarrow> (string, string) gomap" where
  "extractObjectHeaders e headers =
     extractMeta (go_range (range_pick e []) headers) (extractAllowed headers allowed_headers [])"

definition no_such_key :: "response \<Rightarrow> response" where
  "no_such_key = writeError 404 ''NoSuchKey'' ''the specified key does not exist''"

definition putObjectBody :: "('m, 'b, 'c) api_server \<Rightarrow> env \<Rightarrow> http_request \<Rightarrow> string \<Rightarrow> string \<Rightarrow> string \<Rightarrow> response
    \<Rightarrow> ('m, 'b, 'c) api_world \<Rightarrow> bool \<times> response \<times> ('m, 'b, 'c) api_world" where
  "putObjectBody S e r tenant bucket key rs w =
     (case limitedBody r (sv_maxObjectBytes S) rs w of
        (None, rs1, w1) \<Rightarrow> (False, rs1, w1)
      | (Some body, rs1, w1) \<Rightarrow>
          (case Put (sv_objects S) (call e 0) tenant bucket key body
                  [Some (WithHeaders (call e 1) (extractObjectHeaders (call e 2) (rq_Header r)))] (objects_of w1) of
             (Inl x, o1) \<Rightarrow>
               (False, (if isBodyLimitError x
                  then writeError 400 ''EntityTooLarge'' ''the request body exceeds the configured object size limit'' rs1
                  else writeInternalError x rs1), with_objects w1 o1)
           | (Inr m, o1) \<Rightarrow>
               (True, recWriteHeader 200 (setHeader ''Content-Length'' ''0'' (setHeader ''ETag'' (m_etag m) rs1)),
                with_objects w1 o1)))"

definition putObject :: "('m, 'b, 'c) api_server \<Rightarrow> env \<Rightarrow> http_request \<Rightarrow> string \<Rightarrow> string \<Rightarrow> string
    \<Rightarrow> ('m, 'b, 'c) handler" where
  "putObject S e r tenant bucket key = with_upload (putObjectBody S e r tenant bucket key)"

definition getObjectRange :: "('m, 'b, 'c) api_server \<Rightarrow> env \<Rightarrow> http_request \<Rightarrow> string \<Rightarrow> string \<Rightarrow> string \<Rightarrow> string
    \<Rightarrow> response \<Rightarrow> ('m, 'b, 'c) api_world \<Rightarrow> response" where
  "getObjectRange S e r tenant bucket key rangeHeader rs w =
     (case Stat (sv_objects S) (call e 0) tenant bucket key (objects_of w) of
        Inl x \<Rightarrow> (if errors_is x ErrNotFound then no_such_key rs else writeInternalError x rs)
      | Inr m \<Rightarrow>
          (case parseSingleRange rangeHeader (m_size m) of
             Inl x \<Rightarrow> writeError 416 ''InvalidRange'' (err_text x)
               (setHeader ''Content-Range'' (''bytes */'' @ format_int (m_size m))
                 (setHeader ''ETag'' (m_etag m) (setHeader ''Accept-Ranges'' ''bytes''
                   (applyObjectHeaders (call e 1) (m_headers m) rs))))
           | Inr byteRange \<Rightarrow>
               (let len = add64 (sub64 (End byteRange) (Start byteRange)) 1 in
                if rq_Method r = ''HEAD'' then recWriteHeader 206 (applyRangeHeaders (call e 1) m byteRange len rs)
                else (case OpenRange (sv_objects S) (call e 2) tenant bucket key byteRange (objects_of w) of
                        Inl x \<Rightarrow> writeInternalError x rs
                      | Inr (m', rd) \<Rightarrow> copyBody (call e 3) rd
                          (recWriteHeader 206 (applyRangeHeaders (call e 1) m' byteRange len rs))))))"

definition getObject :: "('m, 'b, 'c) api_server \<Rightarrow> env \<Rightarrow> http_request \<Rightarrow> string \<Rightarrow> string \<Rightarrow> string
    \<Rightarrow> ('m, 'b, 'c) handler" where
  "getObject S e r tenant bucket key rs w =
     (let rangeHeader = trim_space (header_get (rq_Header r) ''Range'') in
      if rangeHeader \<noteq> [] then (getObjectRange S (call e 0) r tenant bucket key rangeHeader rs w, w)
      else (case OpenObject (sv_objects S) (call e 1) tenant bucket key (objects_of w) of
              Inl x \<Rightarrow> (if errors_is x ErrNotFound then no_such_key rs else writeInternalError x rs, w)
            | Inr (m, rd) \<Rightarrow>
                (let rs1 = setHeader ''Content-Length'' (format_int (m_size m)) (setHeader ''ETag'' (m_etag m)
                       (setHeader ''Accept-Ranges'' ''bytes'' (applyObjectHeaders (call e 2) (m_headers m) rs)))
                 in if rq_Method r = ''HEAD'' then (recWriteHeader 200 rs1, w)
                    else (copyBody (call e 3) rd rs1, w))))"

definition deleteObject :: "('m, 'b, 'c) api_server \<Rightarrow> env \<Rightarrow> string \<Rightarrow> string \<Rightarrow> string \<Rightarrow> ('m, 'b, 'c) handler" where
  "deleteObject S e tenant bucket key rs w =
     (case Delete (sv_objects S) (call e 0) tenant bucket key (objects_of w) of
        (Inl x, o1) \<Rightarrow> (if errors_is x ErrNotFound then recWriteHeader 204 rs else writeInternalError x rs, with_objects w o1)
      | (Inr m, o1) \<Rightarrow> (recWriteHeader 204 rs, with_objects w o1))"

section \<open>Multipart uploads\<close>

definition no_such_upload :: "response \<Rightarrow> response" where
  "no_such_upload = writeError 404 ''NoSuchUpload'' ''the specified multipart upload does not exist''"

definition part_too_large :: "response \<Rightarrow> response" where
  "part_too_large = writeError 400 ''EntityTooLarge'' ''the uploaded part exceeds the configured multipart size limit''"

definition initiateMultipartBody :: "('m, 'b, 'c) api_server \<Rightarrow> env \<Rightarrow> http_request \<Rightarrow> string \<Rightarrow> string \<Rightarrow> string
    \<Rightarrow> response \<Rightarrow> ('m, 'b, 'c) api_world \<Rightarrow> bool \<times> response \<times> ('m, 'b, 'c) api_world" where
  "initiateMultipartBody S e r tenant bucket key rs w =
     (case mpCreate (sv_multipart S) (call e 0) tenant bucket key (parseInt64Header r ''X-ChunkGate-Expected-Size'')
             [extractObjectHeaders (call e 1) (rq_Header r)] (uploads_of w) of
        (Inl x, u) \<Rightarrow>
          (False,
           (if errors_is x ErrUploadTooLarge
            then writeError 400 ''EntityTooLarge'' ''the proposed multipart upload exceeds the configured maximum size'' rs
            else if isCapacityError x then writeCapacityError rs else writeInternalError x rs), with_uploads w u)
      | (Inr session, u) \<Rightarrow>
          (True, writeXML 200 (XmlInitiate \<lparr>im_Bucket = bucket, im_Key = key, im_UploadID = up_UploadID session\<rparr>) rs,
           with_uploads w u))"

definition initiateMultipart :: "('m, 'b, 'c) api_server \<Rightarrow> env \<Rightarrow> http_request \<Rightarrow> string \<Rightarrow> string \<Rightarrow> string
    \<Rightarrow> ('m, 'b, 'c) handler" where
  "initiateMultipart S e r tenant bucket key = with_upload (initiateMultipartBody S e r tenant bucket key)"

definition checkPartError :: "err \<Rightarrow> response \<Rightarrow> response" where
  "checkPartError x rs =
     (if errors_is x ErrUploadNotFound then no_such_upload rs
      else if errors_is x ErrPartTooLarge \<or> errors_is x ErrUploadTooLarge then part_too_large rs
      else if isCapacityError x then writeCapacityError rs else writeInternalError x rs)"

definition putPartError :: "err \<Rightarrow> response \<Rightarrow> response" where
  "putPartError x rs =
     (if errors_is x ErrUploadNotFound then no_such_upload rs
      else if errors_is x ErrPartTooLarge \<or> errors_is x ErrUploadTooLarge then part_too_large rs
      else if isBodyLimitError x then part_too_large rs
      else if isCapacityError x then writeCapacityError rs else writeInternalError x rs)"

definition uploadPartBody :: "('m, 'b, 'c) api_server \<Rightarrow> env \<Rightarrow> http_request \<Rightarrow> string
    \<Rightarrow> response \<Rightarrow> ('m, 'b, 'c) api_world \<Rightarrow> bool \<times> response \<times> ('m, 'b, 'c) api_world" where
  "uploadPartBody S e r tenant rs w =
     (let uploadID = query_get r ''uploadId'' in
      if \<not> validateUploadID uploadID then (False, no_such_upload rs, w) else
      case parsePartNumber (query_get r ''partNumber'') of
        None \<Rightarrow> (False, writeError 400 ''InvalidPart'' ''partNumber must be an integer between 1 and 10000'' rs, w)
      | Some number \<Rightarrow>
      if 0 < sv_maxPartBytes S \<and> sv_maxPartBytes S < rq_ContentLength r then (False, part_too_large rs, w) else
      case (if 0 < rq_ContentLength r
            then CheckPart (sv_multipart S) (call e 0) tenant uploadID number (rq_ContentLength r) (uploads_of w)
            else (None, uploads_of w)) of
        (Some x, u) \<Rightarrow> (False, checkPartError x rs, with_uploads w u)
      | (None, u) \<Rightarrow>
          (case limitedBody r (sv_maxPartBytes S) rs (with_uploads w u) of
             (None, rs1, w1) \<Rightarrow> (False, rs1, w1)
           | (Some body, rs1, w1) \<Rightarrow>
               (case PutPart (sv_multipart S) (call e 1) tenant uploadID number body (uploads_of w1) of
                  (Inl x, u1) \<Rightarrow> (False, putPartError x rs1, with_uploads w1 u1)
                | (Inr info, u1) \<Rightarrow>
                    (True, recWriteHeader 200 (setHeader ''ETag'' (pi_ETag info) rs1), with_uploads w1 u1))))"

definition uploadPart :: "('m, 'b, 'c) api_server \<Rightarrow> env \<Rightarrow> http_request \<Rightarrow> string \<Rightarrow> ('m, 'b, 'c) handler" where
  "uploadPart S e r tenant = with_upload (uploadPartBody S e r tenant)"

definition normalizeETag :: "string \<Rightarrow> string" where
  "normalizeETag etag = to_lower (trim_byte CHR 0x22 (trim_space etag))"

text \<open>An error value that is an \<open>s3Error\<close>.\<close>

record s3_error =
  se_Status :: int
  se_Code :: string
  se_Message :: string

definition invalid_part :: "string \<Rightarrow> s3_error" where
  "invalid_part message = \<lparr>se_Status = 400, se_Code = ''InvalidPart'', se_Message = message\<rparr>"

fun completedLoop :: "(int, part_info) gomap \<Rightarrow> int list \<Rightarrow> int \<Rightarrow> completePart list \<Rightarrow> s3_error + int list" where
  "completedLoop uploaded seen prev [] = Inr []"
| "completedLoop uploaded seen prev (cp # parts) =
     (if cp_PartNumber cp \<le> 0 \<or> maxS3PartNumber < cp_PartNumber cp
      then Inl (invalid_part ''part numbers must be between 1 and 10000'')
      else if cp_PartNumber cp \<le> prev
      then Inl \<lparr>se_Status = 400, se_Code = ''InvalidPartOrder'', se_Message = ''the list of parts was not in ascending order''\<rparr>
      else if cp_PartNumber cp \<in> set seen
      then Inl (invalid_part ''duplicate part number in complete multipart upload'')
      else (case map_of uploaded (cp_PartNumber cp) of
              None \<Rightarrow> Inl (invalid_part ''one or more of the specified parts could not be found'')
            | Some uploadedPart \<Rightarrow>
                if normalizeETag (cp_ETag cp) = []
                   \<or> normalizeETag (cp_ETag cp) \<noteq> normalizeETag (pi_ETag uploadedPart)
                then Inl (invalid_part ''one or more of the specified parts had an invalid ETag'')
                else (case completedLoop uploaded (cp_PartNumber cp # seen) (cp_PartNumber cp) parts of
                        Inl x \<Rightarrow> Inl x | Inr order \<Rightarrow> Inr (cp_PartNumber cp # order))))"

definition validateCompletedParts :: "(int, part_info) gomap \<Rightarrow> completePart list \<Rightarrow> s3_error + int list" where
  "validateCompletedParts uploaded completed =
     (if completed = [] then Inl \<lparr>se_Status = 400, se_Code = ''MalformedXML'',
        se_Message = ''complete multipart upload requires at least one part''\<rparr>
      else completedLoop uploaded [] 0 completed)"

text \<open>The second half of \<open>completeMultipart\<close>, from the validated order on. The assembled object is
  stored before the part files are closed and the session is removed.\<close>

definition storeCompleted :: "('m, 'b, 'c) api_server \<Rightarrow> env \<Rightarrow> string \<Rightarrow> string \<Rightarrow> upload \<Rightarrow> int list
    \<Rightarrow> response \<Rightarrow> ('m, 'b, 'c) api_world \<Rightarrow> bool \<times> response \<times> ('m, 'b, 'c) api_world" where
  "storeCompleted S e tenant uploadID session order rs w =
     (case mpOpen (sv_multipart S) (call e 0) tenant uploadID order (uploads_of w) of
        (Inl x, u) \<Rightarrow> (False, writeInternalError x rs, with_uploads w u)
      | (Inr (s, rd), u) \<Rightarrow>
          (let w1 = with_uploads w u in
           case Put (sv_objects S) (call e 1) tenant (up_Bucket session) (up_Key session) rd
                  [Some (WithHeaders (call e 2) (up_Headers session))] (objects_of w1) of
             (Inl x, o1) \<Rightarrow>
               (False, (if isBodyLimitError x
                  then writeError 400 ''EntityTooLarge'' ''the complete multipart payload is too large'' rs
                  else writeInternalError x rs), with_objects w1 o1)
           | (Inr m, o1) \<Rightarrow>
               (let w2 = with_objects w1 o1 in
                case closeParts (call e 3) 0 (length order) None of
                  Some x \<Rightarrow> (False, writeInternalError x rs, w2)
                | None \<Rightarrow>
                    (case CompleteCleanup (sv_multipart S) (call e 4) tenant uploadID (uploads_of w2) of
                       (Some x, u2) \<Rightarrow> (False, writeInternalError x rs, with_uploads w2 u2)
                     | (None, u2) \<Rightarrow>
                         (True, writeXML 200 (XmlComplete \<lparr>cm_Location = location (up_Bucket session) (up_Key session),
                            cm_Bucket = up_Bucket session, cm_Key = up_Key session, cm_ETag = m_etag m\<rparr>) rs,
                          with_uploads w2 u2)))))"

definition completeMultipartBody :: "('m, 'b, 'c) api_server \<Rightarrow> env \<Rightarrow> http_request \<Rightarrow> string
    \<Rightarrow> response \<Rightarrow> ('m, 'b, 'c) api_world \<Rightarrow> bool \<times> response \<times> ('m, 'b, 'c) api_world" where
  "completeMultipartBody S e r tenant rs w =
     (let uploadID = query_get r ''uploadId'' in
      if \<not> validateUploadID uploadID then (False, no_such_upload rs, w) else
      case limitedBody r (sv_maxCompleteXML S) rs w of
        (None, rs1, w1) \<Rightarrow> (False, rs1, w1)
      | (Some body, rs1, w1) \<Rightarrow>
          (case sv_decodeXML S body of
             Inl x \<Rightarrow>
               (False, (if isBodyLimitError x
                  then writeError 400 ''EntityTooLarge'' ''the complete multipart payload is too large'' rs1
                  else writeError 400 ''MalformedXML''
                    ''the XML you provided was not well-formed or did not validate against our published schema'' rs1), w1)
           | Inr request \<Rightarrow>
               (case mpGet (sv_multipart S) (call e 0) tenant uploadID (uploads_of w1) of
                  (Inl x, u) \<Rightarrow>
                    (False, (if errors_is x ErrUploadNotFound then no_such_upload rs1 else writeInternalError x rs1),
                     with_uploads w1 u)
                | (Inr session, u) \<Rightarrow>
                    (case validateCompletedParts (up_Parts session) (cu_Parts request) of
                       Inl x \<Rightarrow> (False, writeError (se_Status x) (se_Code x) (se_Message x) rs1, with_uploads w1 u)
                     | Inr order \<Rightarrow> storeCompleted S (call e 1) tenant uploadID session order rs1 (with_uploads w1 u)))))"

definition completeMultipart :: "('m, 'b, 'c) api_server \<Rightarrow> env \<Rightarrow> http_request \<Rightarrow> string \<Rightarrow> ('m, 'b, 'c) handler" where
  "completeMultipart S e r tenant = with_upload (completeMultipartBody S e r tenant)"

definition abortMultipart :: "('m, 'b, 'c) api_server \<Rightarrow> env \<Rightarrow> http_request \<Rightarrow> string \<Rightarrow> ('m, 'b, 'c) handler" where
  "abortMultipart S e r tenant rs w =
     (let uploadID = query_get r ''uploadId'' in
      if \<not> validateUploadID uploadID then (no_such_upload rs, w)
      else (case Abort (sv_multipart S) (call e 0) tenant uploadID (uploads_of w) of
              (Some x, u) \<Rightarrow>
                (if errors_is x ErrUploadNotFound then no_such_upload rs else writeInternalError x rs, with_uploads w u)
            | (None, u) \<Rightarrow> (recWriteHeader 204 rs, with_uploads w u)))"

section \<open>The delta API\<close>

definition deltaAPIPrefix :: string where
  "deltaAPIPrefix = ''/_chunkgate/v1/''"

definition maxDeltaChunkRequestBytes :: nat where
  "maxDeltaChunkRequestBytes = 1024 * 1024"

definition maxDeltaChunkRequestHashes :: nat where
  "maxDeltaChunkRequestHashes = 1000"

definition objectMD5FromETag :: "string \<Rightarrow> string" where
  "objectMD5FromETag etag =
     (let value = normalizeETag etag
      in if length value \<noteq> 32 \<or> \<not> list_all is_lower_hex (runes value) then [] else value)"

fun manifestChunkList :: "int \<Rightarrow> chunk_ref list \<Rightarrow> deltaManifestChunk list" where
  "manifestChunkList ix [] = []"
| "manifestChunkList ix (c # cs) =
     \<lparr>dk_Index = ix, dk_Hash = cr_hash c, dk_Offset = cr_offset c, dk_Size = cr_size c\<rparr>
     # manifestChunkList (ix + 1) cs"

definition makeDeltaManifest :: "env \<Rightarrow> manifest \<Rightarrow> deltaManifestResponse" where
  "makeDeltaManifest e m =
     \<lparr>dm_Version = 1, dm_Bucket = m_bucket m, dm_Key = m_key m, dm_Size = m_size m, dm_ETag = m_etag m,
      dm_ObjectMD5 = objectMD5FromETag (m_etag m), dm_Headers = cloneStringMap e (m_headers m),
      dm_Chunks = manifestChunkList 0 (m_chunks m)\<rparr>"

definition invalid_bucket :: "response \<Rightarrow> response" where
  "invalid_bucket = writeError 400 ''InvalidBucketName'' ''the specified bucket is not valid''"

definition invalid_object :: "response \<Rightarrow> response" where
  "invalid_object = writeError 400 ''InvalidObjectName'' ''the specified object key is not valid''"

definition getDeltaManifest :: "('m, 'b, 'c) api_server \<Rightarrow> env \<Rightarrow> http_request \<Rightarrow> string \<Rightarrow> response
    \<Rightarrow> ('m, 'b, 'c) api_world \<Rightarrow> response" where
  "getDeltaManifest S e r tenant rs w =
     (let bucket = query_get r ''bucket''; key = query_get r ''key'' in
      if \<not> validateBucketName bucket then invalid_bucket rs
      else if \<not> validateObjectKey key then invalid_object rs
      else (case Stat (sv_objects S) (call e 0) tenant bucket key (objects_of w) of
              Inl x \<Rightarrow> (if errors_is x ErrNotFound then no_such_key rs else writeInternalError x rs)
            | Inr m \<Rightarrow> writeJSON 200 (JsonManifest (makeDeltaManifest (call e 1) m)) rs))"

definition deltaPayload :: "selected_chunk \<Rightarrow> deltaChunkPayload" where
  "deltaPayload c = \<lparr>dp_Hash = sc_Hash c, dp_Size = sc_Size c, dp_Data = base64_encode (sc_Data c)\<rparr>"

definition getDeltaChunks :: "('m, 'b, 'c) api_server \<Rightarrow> env \<Rightarrow> http_request \<Rightarrow> string \<Rightarrow> response
    \<Rightarrow> ('m, 'b, 'c) api_world \<Rightarrow> response" where
  "getDeltaChunks S e r tenant rs w =
     (case sv_decodeJSON S (max_bytes_reader maxDeltaChunkRequestBytes (rq_Body r)) of
        Inl x \<Rightarrow>
          (if isBodyLimitError x then writeError 400 ''EntityTooLarge'' ''the chunk request payload is too large'' rs
           else writeError 400 ''MalformedJSON''
             ''the JSON you provided was not well-formed or did not validate against the companion API schema'' rs)
      | Inr request \<Rightarrow>
          if \<not> validateBucketName (dq_Bucket request) then invalid_bucket rs
          else if \<not> validateObjectKey (dq_Key request) then invalid_object rs
          else if maxDeltaChunkRequestHashes < length (dq_Hashes request)
          then writeError 400 ''InvalidRequest'' ''too many chunks were requested'' rs
          else if \<not> list_all validateChunkHash (dq_Hashes request)
          then writeError 400 ''InvalidChunk'' ''requested chunk hashes must be lowercase SHA-256 hex strings'' rs
          else (case ReadChunks (sv_objects S) (call e 0) tenant (dq_Bucket request) (dq_Key request)
                       (dq_Hashes request) (objects_of w) of
                  Inl x \<Rightarrow>
                    (if errors_is x ErrNotFound then no_such_key rs
                     else if errors_is x ErrChunkNotInManifest
                     then writeError 400 ''InvalidChunk'' ''one or more requested chunks are not part of the object manifest'' rs
                     else writeInternalError x rs)
                | Inr (m, chunks) \<Rightarrow>
                    writeJSON 200 (JsonChunks \<lparr>dr_Version = 1, dr_Chunks = map deltaPayload chunks\<rparr>) rs))"

definition deltaRoute :: "('m, 'b, 'c) api_server \<Rightarrow> env \<Rightarrow> http_request \<Rightarrow> string \<Rightarrow> response
    \<Rightarrow> ('m, 'b, 'c) api_world \<Rightarrow> response" where
  "deltaRoute S e r tenant rs w =
     (if rq_Method r = ''GET'' \<and> rq_Path r = deltaAPIPrefix @ ''manifest'' then getDeltaManifest S e r tenant rs w
      else if rq_Method r = ''POST'' \<and> rq_Path r = deltaAPIPrefix @ ''chunks'' then getDeltaChunks S e r tenant rs w
      else writeError 404 ''NoSuchEndpoint'' ''the requested ChunkGate companion endpoint does not exist'' rs)"

section \<open>Metrics and readiness\<close>

definition metric_line :: "string \<Rightarrow> int \<Rightarrow> string" where
  "metric_line name v = name @ '' '' @ format_int v @ newline"

text \<open>\<open>%.9f\<close> of a duration in seconds, for durations a float64 represents exactly enough.\<close>

definition seconds_line :: "string \<Rightarrow> int \<Rightarrow> string" where
  "seconds_line name nanos = name @ '' '' @ format_int (nanos div 1000000000) @ ''.''
     @ pad_digits 9 (nat (nanos mod 1000000000)) @ newline"

definition limiterLines :: "adaptive_snapshot \<Rightarrow> string" where
  "limiterLines s = concat
     [metric_line ''chunkgate_chunk_limiter_limit'' (asn_Limit s),
      metric_line ''chunkgate_chunk_limiter_active'' (asn_Active s),
      metric_line ''chunkgate_chunk_limiter_waiting'' (asn_Waiting s),
      metric_line ''chunkgate_chunk_limiter_acquires_total'' (asn_AcquiresTotal s),
      metric_line ''chunkgate_chunk_limiter_queued_total'' (asn_QueuedTotal s),
      seconds_line ''chunkgate_chunk_limiter_queue_wait_seconds_total'' (asn_QueueWaitNanos s)]"

definition writeMetrics :: "('m, 'b, 'c) api_server \<Rightarrow> response \<Rightarrow> ('m, 'b, 'c) api_world \<Rightarrow> response" where
  "writeMetrics S rs w =
     (let m = MetricsSnapshot (aw_metrics w); g = gcSnapshot (aw_gcMetrics w);
          text = concat
            [metric_line ''chunkgate_http_requests_total'' (requestsTotal m),
             metric_line ''chunkgate_http_request_errors_total'' (requestErrorsTotal m),
             metric_line ''chunkgate_http_active_requests'' (activeRequests m),
             metric_line ''chunkgate_http_rejected_requests_total'' (rejectedRequests m),
             metric_line ''chunkgate_uploads_total'' (uploadsTotal m),
             metric_line ''chunkgate_upload_failures_total'' (uploadFailures m),
             metric_line ''chunkgate_active_uploads'' (activeUploads m),
             metric_line ''chunkgate_uploaded_bytes_total'' (uploadedBytes m),
             metric_line ''chunkgate_chunks_total'' (chunksTotal m),
             metric_line ''chunkgate_chunk_bytes_total'' (chunkBytes m),
             (case sv_limiter S of None \<Rightarrow> [] | Some snapshot \<Rightarrow> limiterLines (snapshot (aw_cpu w))),
             metric_line ''chunkgate_gc_runs_total'' (gm_runs g),
             metric_line ''chunkgate_gc_scanned_tenants_total'' (gm_scannedTenants g),
             metric_line ''chunkgate_gc_candidate_blocks_total'' (gm_candidateBlocks g),
             metric_line ''chunkgate_gc_deleted_blocks_total'' (gm_deletedBlocks g),
             metric_line ''chunkgate_gc_failures_total'' (gm_failures g),
             metric_line ''chunkgate_gc_last_run_unix_seconds'' (gm_lastRunUnix g)]
      in recWrite (Raw (to_bytes text)) (setHeader ''Content-Type'' ''text/plain; version=0.0.4'' rs))"

definition readinessStatus :: "int \<Rightarrow> string" where
  "readinessStatus status = (if status = 200 then ''ready'' else ''not_ready'')"

definition healthEntry :: "string \<Rightarrow> err option \<Rightarrow> (string, string) gomap \<times> int \<Rightarrow> (string, string) gomap \<times> int" where
  "healthEntry name r acc = (case acc of (checks, status) \<Rightarrow>
     (case r of Some x \<Rightarrow> (AList.update name (err_text x) checks, 503)
      | None \<Rightarrow> (AList.update name ''ok'' checks, status)))"

text \<open>\<open>call e 0\<close>, \<open>call e 1\<close> and \<open>call e 2\<close> run under the context with the readiness timeout; the
  backend's check may touch its scratch space.\<close>

definition writeReadiness :: "('m, 'b, 'c) api_server \<Rightarrow> env \<Rightarrow> ('m, 'b, 'c) handler" where
  "writeReadiness S e rs w =
     (let start = (if aw_draining w then ([(''drain'', ''draining'')], 503) else ([], 200));
          store = (case sv_storeHealth S of None \<Rightarrow> None | Some f \<Rightarrow> f (call e 0) (aw_meta w));
          (backend, b) = HealthCheck (svc_backend (sv_objects S)) (call e 1) (aw_blocks w);
          scratch = mpHealthCheck (sv_multipart S) (call e 2) (uploads_of w);
          (checks, status) = healthEntry ''scratch'' scratch (healthEntry ''backend'' backend
            (healthEntry ''metadata'' store start))
      in (recWrite (Doc (JsonReadiness (readinessStatus status) checks))
            (recWriteHeader status (setHeader ''Content-Type'' ''application/json'' rs)), w\<lparr>aw_blocks := b\<rparr>))"

section \<open>Routing\<close>

definition generateRequestID :: "env \<Rightarrow> string" where
  "generateRequestID e = (case syscall e 0 of
       None \<Rightarrow> ''cg-'' @ hex_encode (random_bytes e 1 16)
     | Some _ \<Rightarrow> ''cg-'' @ hex_encode (to_bytes (fresh_id e 2)))"

definition routeObject :: "('m, 'b, 'c) api_server \<Rightarrow> env \<Rightarrow> http_request \<Rightarrow> string \<Rightarrow> string \<Rightarrow> string
    \<Rightarrow> ('m, 'b, 'c) handler" where
  "routeObject S e r tenant bucket key rs w =
     (let m = rq_Method r; uploadId = query_get r ''uploadId'' in
      if m = ''POST'' \<and> hasSubresource r ''uploads'' then initiateMultipart S e r tenant bucket key rs w
      else if m = ''PUT'' \<and> uploadId \<noteq> [] then uploadPart S e r tenant rs w
      else if m = ''POST'' \<and> uploadId \<noteq> [] then completeMultipart S e r tenant rs w
      else if m = ''DELETE'' \<and> uploadId \<noteq> [] then abortMultipart S e r tenant rs w
      else if m = ''PUT'' then putObject S e r tenant bucket key rs w
      else if m = ''GET'' \<or> m = ''HEAD'' then getObject S e r tenant bucket key rs w
      else if m = ''DELETE'' then deleteObject S e tenant bucket key rs w
      else (method_not_allowed rs, w))"

definition routeS3 :: "('m, 'b, 'c) api_server \<Rightarrow> env \<Rightarrow> http_request \<Rightarrow> string \<Rightarrow> ('m, 'b, 'c) handler" where
  "routeS3 S e r tenant rs w =
     (case parseS3Target (sv_url_host S) r (sv_virtualHosts S) of
        None \<Rightarrow> (writeError 400 ''InvalidURI'' ''could not parse the specified URI'' rs, w)
      | Some target \<Rightarrow>
          if \<not> sp_HasBucket target then (serviceRoute r rs, w)
          else if \<not> validateBucketName (sp_Bucket target) then (invalid_bucket rs, w)
          else if \<not> sp_HasKey target then (bucketRoute r (sp_Bucket target) rs, w)
          else if \<not> validateObjectKey (sp_Key target) then (invalid_object rs, w)
          else routeObject S e r tenant (sp_Bucket target) (sp_Key target) rs w)"

text \<open>The profiling pages of \<open>net/http/pprof\<close> are one opaque text.\<close>

definition routeRequest :: "('m, 'b, 'c) api_server \<Rightarrow> env \<Rightarrow> string \<Rightarrow> http_request \<Rightarrow> ('m, 'b, 'c) handler" where
  "routeRequest S e requestID r rs w =
     (if has_prefix (rq_Path r) ''/debug/pprof'' then
        (if \<not> sv_debugPprofEnabled S
         then (recWrite (Raw (to_bytes (''404 page not found'' @ newline))) (recWriteHeader 404
            (setHeader ''Content-Type'' ''text/plain; charset=utf-8'' rs)), w)
         else (recWrite (Raw (to_bytes ''profile'')) rs, w))
      else if rq_Path r = ''/healthz'' then (recWrite (Raw (to_bytes (''ok'' @ newline))) (recWriteHeader 200 rs), w)
      else if rq_Path r = ''/readyz'' then writeReadiness S (call e 0) rs w
      else if rq_Path r = ''/metrics'' then (writeMetrics S rs w, w)
      else
        (case handleCORS (sv_cors S) r (addCommonHeaders requestID rs) of
           (True, rs1) \<Rightarrow> (rs1, w)
         | (False, rs1) \<Rightarrow>
             (case authenticate (sv_auth S) (sv_anonymousTenant S) (call e 1) r rs1 of
                Inl rs2 \<Rightarrow> (rs2, w)
              | Inr i \<Rightarrow>
                  if has_prefix (rq_Path r) deltaAPIPrefix then (deltaRoute S (call e 2) r (id_Tenant i) rs1 w, w)
                  else routeS3 S (call e 2) r (id_Tenant i) rs1 w)))"

definition ServeHTTP :: "('m, 'b, 'c) api_server \<Rightarrow> env \<Rightarrow> http_request \<Rightarrow> ('m, 'b, 'c) api_world
    \<Rightarrow> response \<times> ('m, 'b, 'c) api_world" where
  "ServeHTTP S e r w =
     (case routeRequest S (call e 1) (generateRequestID (call e 0)) r newResponse (count_metric StartRequest w) of
        (rs, w1) \<Rightarrow> (rs, count_metric (FinishRequest (rs_Recorded rs)) w1))"

end
