(* ===== verification/ApiProps.thy ===== *)
theory ApiProps
  imports ApiHandlers SharedStore
begin

text \<open>
  Properties of the S3 API: ranges, the validation of a completed upload, what a request may
  change, and requests from end to end over the object service and the multipart manager.
\<close>

section \<open>Ranges\<close>

lemma parse_range_bounds:
  assumes "in_int64 sz" "parseSingleRange h sz = Inr br"
  shows "0 \<le> Start br \<and> Start br \<le> End br \<and> End br < sz"
proof -
  have sub: "0 \<le> x \<Longrightarrow> in_int64 x \<Longrightarrow> 0 \<le> sz \<Longrightarrow> sub64 sz x = sz - x" for x
    using sub64_nonneg [OF assms(1)] by blast
  have one: "0 \<le> sz \<Longrightarrow> sub64 sz 1 = sz - 1" by (rule sub) (simp_all add: in_int64_def min_int64_def max_int64_def)
  from assms(2) show ?thesis
    by (auto simp: parseSingleRange_def Let_def one sub [OF _ parse_int64_range] split: if_splits option.splits prod.splits)
qed

lemma parse_range_spec:
  assumes "in_int64 sz" "0 < sz" "0 \<le> a" "in_int64 a"
  shows "a \<le> b \<Longrightarrow> in_int64 b \<Longrightarrow> parseSingleRange (''bytes='' @ format_int a @ ''-'' @ format_int b) sz
      = (if a < sz then Inr \<lparr>Start = a, End = min b (sz - 1)\<rparr> else Inl (ErrNew ''range is not satisfiable''))"
    and "parseSingleRange (''bytes='' @ format_int a @ ''-'') sz
      = (if a < sz then Inr \<lparr>Start = a, End = sz - 1\<rparr> else Inl (ErrNew ''range is not satisfiable''))"
    and "0 < a \<Longrightarrow> parseSingleRange (''bytes=-'' @ format_int a) sz = Inr \<lparr>Start = max 0 (sz - a), End = sz - 1\<rparr>"
proof -
  have one: "sub64 sz 1 = sz - 1" and sub: "sub64 sz a = sz - a"
    using sub64_nonneg [OF assms(1) _ _] assms by (simp_all add: in_int64_def min_int64_def max_int64_def)
  have dash: "CHR ''-'' \<notin> set (format_int n)" "CHR '','' \<notin> set (format_int n)" if "0 \<le> n" for n
    using format_int_digits [OF that, of "CHR ''-''"] format_int_digits [OF that, of "CHR '',''"]
    by (auto simp: is_digit_def)
  have vis: "\<forall>c \<in> set (format_int n). visible c" if "0 \<le> n" for n
    using that by (simp add: digit_visible format_int_digits)
  have v: "visible CHR ''-''" by (simp add: visible_def)
  show "parseSingleRange (''bytes='' @ format_int a @ ''-'' @ format_int b) sz
      = (if a < sz then Inr \<lparr>Start = a, End = min b (sz - 1)\<rparr> else Inl (ErrNew ''range is not satisfiable''))"
    if ab: "a \<le> b" "in_int64 b"
  proof -
    have t: "trim_space (format_int a @ ''-'' @ format_int b) = format_int a @ CHR ''-'' # format_int b"
      using trim_space_visible [of "format_int a @ ''-'' @ format_int b"] vis [of a] vis [of b] v assms(3) ab(1) by auto
    show ?thesis
      using assms ab dash [of a] dash [of b]
      by (simp add: parseSingleRange_def t contains_char cut_at_append parse_format_int one min_def Let_def
          del: append.simps)
  qed
  show "parseSingleRange (''bytes='' @ format_int a @ ''-'') sz
      = (if a < sz then Inr \<lparr>Start = a, End = sz - 1\<rparr> else Inl (ErrNew ''range is not satisfiable''))"
  proof -
    have t: "trim_space (format_int a @ ''-'') = format_int a @ CHR ''-'' # []"
      using trim_space_visible [of "format_int a @ ''-''"] vis [of a] v assms(3) by auto
    show ?thesis
      using assms dash [of a]
      by (simp add: parseSingleRange_def t contains_char cut_at_append parse_format_int one Let_def
          del: append.simps)
  qed
  show "parseSingleRange (''bytes=-'' @ format_int a) sz = Inr \<lparr>Start = max 0 (sz - a), End = sz - 1\<rparr>" if "0 < a"
  proof -
    have cut: "cut_at CHR ''-'' (CHR ''-'' # format_int a) = ([], format_int a, True)"
      using cut_at_append [of "CHR ''-''" "[]"] by simp
    have t: "trim_space (''-'' @ format_int a) = CHR ''-'' # format_int a"
      using trim_space_visible [of "''-'' @ format_int a"] vis [of a] v assms(3) by auto
    have e: "''bytes=-'' @ format_int a = ''bytes='' @ (''-'' @ format_int a)" by simp
    show ?thesis
      unfolding e using assms that dash [of a]
      by (simp add: parseSingleRange_def t contains_char cut parse_format_int one sub
          max_def Let_def del: append.simps)
  qed
qed

section \<open>Completing an upload\<close>

text \<open>What the code means to accept: at least one part, in strictly ascending order, every number
  in range and uploaded, every ETag non-empty and that of the uploaded part, up to quotes,
  surrounding space and case.\<close>

definition part_listed :: "(int, part_info) gomap \<Rightarrow> completePart \<Rightarrow> bool" where
  "part_listed uploaded cp \<longleftrightarrow> 0 < cp_PartNumber cp \<and> cp_PartNumber cp \<le> maxS3PartNumber
     \<and> (\<exists>p. map_of uploaded (cp_PartNumber cp) = Some p \<and> normalizeETag (cp_ETag cp) \<noteq> []
          \<and> normalizeETag (cp_ETag cp) = normalizeETag (pi_ETag p))"

lemma completedLoop_exact:
  assumes "\<forall>k \<in> set seen. k \<le> prev" "0 \<le> prev"
  shows "completedLoop uploaded seen prev cps = Inr order \<longleftrightarrow>
    sorted_wrt (<) (map cp_PartNumber cps) \<and> (\<forall>cp \<in> set cps. prev < cp_PartNumber cp \<and> part_listed uploaded cp)
    \<and> order = map cp_PartNumber cps"
  using assms
proof (induction cps arbitrary: seen prev order)
  case Nil
  then show ?case by auto
next
  case (Cons cp cps)
  let ?n = "cp_PartNumber cp"
  show ?case
  proof (cases "prev < ?n \<and> part_listed uploaded cp")
    case True
    then obtain p where p: "map_of uploaded ?n = Some p" "normalizeETag (cp_ETag cp) \<noteq> []"
      "normalizeETag (cp_ETag cp) = normalizeETag (pi_ETag p)" "?n \<le> maxS3PartNumber"
      by (auto simp: part_listed_def)
    have "?n \<notin> set seen" using True Cons.prems(1) by force
    then have step: "completedLoop uploaded seen prev (cp # cps) = Inr order \<longleftrightarrow>
        (\<exists>rest. completedLoop uploaded (?n # seen) ?n cps = Inr rest \<and> order = ?n # rest)"
      using True p Cons.prems(2) by (auto split: sum.splits)
    have "\<forall>k \<in> set (?n # seen). k \<le> ?n" "0 \<le> ?n" using True Cons.prems by fastforce+
    from Cons.IH [OF this] show ?thesis unfolding step using True by force
  next
    case False
    then show ?thesis by (auto simp: part_listed_def split: if_splits option.splits sum.splits)
  qed
qed

lemma completedLoop_status: "completedLoop uploaded seen prev cps = Inl x \<Longrightarrow> se_Status x = 400"
  by (induction uploaded seen prev cps rule: completedLoop.induct)
    (auto simp: invalid_part_def split: if_splits option.splits sum.splits)

section \<open>What a request may change\<close>

text \<open>The invariant of the server over the in-memory store: the store's, the manager's, and bucket
  names of sessions without NUL. Only the stores matter to it.\<close>

definition buckets_plain :: "memory_store \<Rightarrow> bool" where
  "buckets_plain s \<longleftrightarrow> (\<forall>t u ms. mem_sessions s (t, u) = Some ms \<longrightarrow> nul_free (ms_bucket ms))"

definition api_ok :: "(memory_store, 'b, 'c) api_server \<Rightarrow> (memory_store, 'b, 'c) api_world \<Rightarrow> bool" where
  "api_ok S w \<longleftrightarrow> store_inv (aw_meta w) \<and> mp_ok sessions_named mem_sessions (sv_multipart S) (uploads_of w)
     \<and> buckets_plain (aw_meta w)"

text \<open>The identifiers an environment hands out anywhere below a call are new to the store.\<close>

definition ids_new :: "env \<Rightarrow> memory_store \<Rightarrow> bool" where
  "ids_new e s \<longleftrightarrow> (\<forall>p. map_of (objects s) (fresh_id (foldl call e p) 0) = None
     \<and> (\<forall>t. mem_sessions s (t, randomUploadID (foldl call e p)) = None))"

text \<open>Objects and sessions of every other tenant are as before.\<close>

definition own_tenant :: "string \<Rightarrow> memory_store \<Rightarrow> memory_store \<Rightarrow> bool" where
  "own_tenant t s s' \<longleftrightarrow> (\<forall>t' b k. t' \<noteq> t \<longrightarrow> mem_committed s' (t', b, k) = mem_committed s (t', b, k))
     \<and> (\<forall>t' u. t' \<noteq> t \<longrightarrow> mem_sessions s' (t', u) = mem_sessions s (t', u))"

definition good_step :: "(memory_store, 'b, 'c) api_server \<Rightarrow> string \<Rightarrow> (memory_store, 'b, 'c) api_world
    \<Rightarrow> (memory_store, 'b, 'c) api_world \<Rightarrow> bool" where
  "good_step S t w w' \<longleftrightarrow> api_ok S w' \<and> own_tenant t (aw_meta w) (aw_meta w')"

definition same_stores :: "('m, 'b, 'c) api_world \<Rightarrow> ('m, 'b, 'c) api_world \<Rightarrow> bool" where
  "same_stores w w' \<longleftrightarrow> aw_meta w' = aw_meta w \<and> aw_blocks w' = aw_blocks w \<and> aw_uploads w' = aw_uploads w
     \<and> aw_used w' = aw_used w \<and> aw_files w' = aw_files w"

lemma ids_new_call: "ids_new e s \<Longrightarrow> ids_new (call e i) s"
  unfolding ids_new_def by (metis foldl_Cons)

lemma ids_new_here:
  "ids_new e s \<Longrightarrow> map_of (objects s) (fresh_id e 0) = None \<and> mem_sessions s (t, randomUploadID e) = None"
  unfolding ids_new_def by (metis foldl_Nil)

lemma own_tenant_refl [simp]: "own_tenant t s s"
  by (simp add: own_tenant_def)

lemma good_step_trans: "good_step S t w w1 \<Longrightarrow> good_step S t w1 w2 \<Longrightarrow> good_step S t w w2"
  by (simp add: good_step_def own_tenant_def)

lemma same_stores_refl [simp]: "same_stores w w"
  by (simp add: same_stores_def)

lemma same_stores_trans: "same_stores w w1 \<Longrightarrow> same_stores w1 w2 \<Longrightarrow> same_stores w w2"
  by (simp add: same_stores_def)

lemma same_stores_ok: "same_stores w w' \<Longrightarrow> api_ok S w' = api_ok S w"
  by (simp add: same_stores_def api_ok_def uploads_of_def)

lemma same_stores_good: "api_ok S w \<Longrightarrow> same_stores w w' \<Longrightarrow> good_step S t w w'"
  by (simp add: good_step_def same_stores_ok) (simp add: same_stores_def)

lemma good_step_after: "same_stores w w1 \<Longrightarrow> good_step S t w1 w2 \<Longrightarrow> good_step S t w w2"
  by (simp add: good_step_def same_stores_def)

lemma good_step_before: "good_step S t w w1 \<Longrightarrow> same_stores w1 w2 \<Longrightarrow> good_step S t w w2"
  using same_stores_ok [of w1 w2 S] by (simp add: good_step_def same_stores_def)

lemma count_metric_stores [simp]: "same_stores w (count_metric f w)"
  by (simp add: same_stores_def count_metric_def)

lemma uploads_of_with [simp]:
  "uploads_of (with_uploads w u) = u" "uploads_of (with_objects w o') = (uploads_of w)\<lparr>mw_meta := w_meta o'\<rparr>"
  "mw_meta (uploads_of w) = aw_meta w" "w_meta (objects_of w) = aw_meta w"
  "aw_meta (with_uploads w u) = mw_meta u" "aw_meta (with_objects w o') = w_meta o'"
  by (simp_all add: uploads_of_def with_uploads_def with_objects_def objects_of_def)

text \<open>An object operation that keeps the store's invariant and all sessions.\<close>

lemma object_step:
  assumes "api_ok S w" "store_inv (w_meta o') \<and> sessions_named (w_meta o') \<and> mem_sessions (w_meta o') = mem_sessions (aw_meta w)
      \<and> (\<forall>key. key \<noteq> (t, b, k) \<longrightarrow> mem_committed (w_meta o') key = mem_committed (aw_meta w) key)"
  shows "good_step S t w (with_objects w o')"
  using assms by (auto simp: good_step_def api_ok_def mp_ok_def own_tenant_def buckets_plain_def)

lemma put_step:
  assumes "api_ok S w" "svc_store (sv_objects S) = memory_ops" "nul_free t" "nul_free b" "ids_new e (aw_meta w)"
    and "Put (sv_objects S) e t b k body opts (objects_of w) = (r, o')"
  shows "good_step S t w (with_objects w o')"
proof (rule object_step [OF assms(1)])
  have "mem_fresh (call e 1) (empty_manifest\<lparr>m_tenant := t, m_bucket := b, m_key := k\<rparr>) (aw_meta w)"
    using ids_new_here [OF ids_new_call [OF assms(5)]] by (simp add: mem_fresh_def empty_manifest_def)
  with mem_shared.Put_frame [OF assms(2) _ _ _ _ assms(6)] assms(1,3,4)
  show "store_inv (w_meta o') \<and> sessions_named (w_meta o') \<and> mem_sessions (w_meta o') = mem_sessions (aw_meta w)
      \<and> (\<forall>key. key \<noteq> (t, b, k) \<longrightarrow> mem_committed (w_meta o') key = mem_committed (aw_meta w) key)"
    by (simp add: api_ok_def mp_ok_def good_key_def)
qed

lemma delete_step:
  assumes "api_ok S w" "svc_store (sv_objects S) = memory_ops" "nul_free t" "nul_free b"
    and "Delete (sv_objects S) e t b k (objects_of w) = (r, o')"
  shows "good_step S t w (with_objects w o')"
proof (rule object_step [OF assms(1), where b = b and k = k])
  from mem_shared.Delete_frame [OF assms(2) _ _ _ assms(5)] assms(1,3,4)
  show "store_inv (w_meta o') \<and> sessions_named (w_meta o') \<and> mem_sessions (w_meta o') = mem_sessions (aw_meta w)
      \<and> (\<forall>key. key \<noteq> (t, b, k) \<longrightarrow> mem_committed (w_meta o') key = mem_committed (aw_meta w) key)"
    by (simp add: api_ok_def mp_ok_def good_key_def)
qed

text \<open>A manager operation that keeps the manager's invariant and stays within the tenant.\<close>

lemma manager_step:
  assumes "api_ok S w" "mp_ok sessions_named mem_sessions (sv_multipart S) u"
    and "mem_shared_mgr.tenant_frame t (aw_meta w) (mw_meta u)"
  shows "good_step S t w (with_uploads w u)"
proof -
  have "buckets_plain (mw_meta u)"
    using assms(1,3) unfolding mem_shared_mgr.tenant_frame_def api_ok_def buckets_plain_def by (metis prod.collapse)
  with assms show ?thesis
    unfolding mem_shared_mgr.tenant_frame_def by (auto simp: good_step_def own_tenant_def api_ok_def)
qed

text \<open>What the properties of requests assume of a server: the in-memory store and the manager of
  \<open>main.go\<close>, tenant names without NUL, identifiers new to the store, and no session that a body
  could carry past \<open>2^63\<close> bytes.\<close>

definition memory_server :: "(memory_store, 'b, 'c) api_server \<Rightarrow> bool" where
  "memory_server S \<longleftrightarrow> svc_store (sv_objects S) = memory_ops
     \<and> (\<exists>md5 d cap f p u. sv_multipart S = serverManager md5 d cap f p u)"

definition tenants_plain :: "('m, 'b, 'c) api_server \<Rightarrow> bool" where
  "tenants_plain S \<longleftrightarrow> nul_free (sv_anonymousTenant S)
     \<and> (\<forall>v. sv_auth S = Some v \<longrightarrow> (\<forall>c \<in> set (vf_credentials v). nul_free (cd_Tenant c)))"

definition body_fits :: "http_request \<Rightarrow> memory_store \<Rightarrow> bool" where
  "body_fits r s \<longleftrightarrow> (\<forall>t u ms. mem_sessions s (t, u) = Some ms \<longrightarrow>
     ms_reserved ms + int (length (content (rq_Body r))) \<le> max_int64)"

definition request_ok :: "(memory_store, 'b, 'c) api_server \<Rightarrow> env \<Rightarrow> http_request
    \<Rightarrow> (memory_store, 'b, 'c) api_world \<Rightarrow> bool" where
  "request_ok S e r w \<longleftrightarrow> api_ok S w \<and> memory_server S \<and> tenants_plain S
     \<and> ids_new e (aw_meta w) \<and> body_fits r (aw_meta w)"

lemma request_ok_call: "request_ok S e r w \<Longrightarrow> request_ok S (call e i) r w"
  by (simp add: request_ok_def ids_new_call)

lemma request_ok_same: "same_stores w w1 \<Longrightarrow> request_ok S e r w \<Longrightarrow> request_ok S e r w1"
  using same_stores_ok [of w w1 S] by (simp add: request_ok_def same_stores_def)

lemma request_ok_meta: "api_ok S w1 \<Longrightarrow> aw_meta w1 = aw_meta w \<Longrightarrow> request_ok S e r w \<Longrightarrow> request_ok S e r w1"
  by (simp add: request_ok_def)

lemma memory_manager:
  assumes "memory_server S"
  obtains cap where
    "multipart_manager memory_ops sessions_named mem_sessions (sv_multipart S) cap"
    "shared_manager memory_ops store_inv mem_committed mem_pending mem_fresh sessions_named mem_sessions
       (sv_multipart S) cap"
  using assms mem_mgr.multipart_manager_axioms mem_shared_mgr.shared_manager_axioms
  unfolding memory_server_def by metis

lemma limitedBody_stores:
  "limitedBody r n rs w = (b, rs1, w1) \<Longrightarrow> same_stores w w1
    \<and> (\<forall>rd. b = Some rd \<longrightarrow> length (content rd) \<le> length (content (rq_Body r)))"
proof -
  have "length (content (max_bytes_reader k rd)) \<le> length (content rd)" for k rd
    using max_bytes_within [of rd k] max_bytes_beyond [of k rd] by (cases "length (content rd) \<le> k") auto
  then show "limitedBody r n rs w = (b, rs1, w1) \<Longrightarrow> ?thesis" by (auto simp: limitedBody_def split: if_splits)
qed

lemma with_upload_step:
  assumes "api_ok S w" "\<And>rs w1. same_stores w w1 \<Longrightarrow> good_step S t w1 (snd (snd (body rs w1)))"
  shows "good_step S t w (snd (with_upload body rs w))"
proof -
  have in_flight: "same_stores w (count_metric StartUpload (w\<lparr>aw_inflight := i\<rparr>))" for i
    by (simp add: same_stores_def count_metric_def)
  have over: "same_stores v (endUpload b v)" for b v
    by (simp add: same_stores_def endUpload_def count_metric_def Let_def)
  show ?thesis
  proof (cases "aw_draining w")
    case True
    then show ?thesis
      using same_stores_good [OF assms(1) count_metric_stores] by (simp add: with_upload_def beginUpload_def)
  next
    case False
    define w1 where "w1 = count_metric StartUpload (w\<lparr>aw_inflight := aw_inflight w + 1\<rparr>)"
    have s1: "same_stores w w1" by (simp add: w1_def in_flight)
    obtain b rs2 w2 where bd: "body rs w1 = (b, rs2, w2)" by (cases "body rs w1")
    from assms(2) [OF s1, of rs] bd have "good_step S t w1 w2" by simp
    from good_step_before [OF good_step_after [OF s1 this] over] False bd show ?thesis
      by (simp add: with_upload_def beginUpload_def w1_def)
  qed
qed

lemma putObject_step:
  assumes "request_ok S e r w" "nul_free t" "nul_free b"
  shows "good_step S t w (snd (putObject S e r t b k rs w))"
  unfolding putObject_def
proof (rule with_upload_step)
  show "api_ok S w" using assms(1) by (simp add: request_ok_def)
  fix rs w1 assume "same_stores w w1"
  from request_ok_same [OF this assms(1)] have ok1: "request_ok S e r w1" .
  obtain bd rs2 w2 where l: "limitedBody r (sv_maxObjectBytes S) rs w1 = (bd, rs2, w2)" by (cases rule: prod_cases3)
  from limitedBody_stores [OF l] have s2: "same_stores w1 w2" ..
  from request_ok_call [OF request_ok_same [OF s2 ok1]] have ok2: "request_ok S (call e 0) r w2" .
  have "good_step S t w2 (snd (snd (putObjectBody S e r t b k rs w1)))"
  proof (cases bd)
    case (Some body)
    obtain x o1 where p: "Put (sv_objects S) (call e 0) t b k body
        [Some (WithHeaders (call e 1) (extractObjectHeaders (call e 2) (rq_Header r)))] (objects_of w2) = (x, o1)"
      by fastforce
    from put_step [OF _ _ assms(2,3) _ p] ok2 have "good_step S t w2 (with_objects w2 o1)"
      by (simp add: request_ok_def memory_server_def)
    with l Some p show ?thesis by (simp add: putObjectBody_def split: sum.splits)
  qed (use l ok2 in \<open>simp add: putObjectBody_def same_stores_good request_ok_def\<close>)
  with s2 show "good_step S t w1 (snd (snd (putObjectBody S e r t b k rs w1)))" by (rule good_step_after)
qed

lemma deleteObject_step:
  assumes "request_ok S e r w" "nul_free t" "nul_free b"
  shows "good_step S t w (snd (deleteObject S e t b k rs w))"
proof -
  obtain x o1 where p: "Delete (sv_objects S) (call e 0) t b k (objects_of w) = (x, o1)" by fastforce
  from delete_step [OF _ _ assms(2,3) p] assms(1) p show ?thesis
    by (simp add: deleteObject_def request_ok_def memory_server_def split: sum.splits)
qed

lemma meta_step:
  "api_ok S w \<Longrightarrow> mp_ok sessions_named mem_sessions (sv_multipart S) u \<Longrightarrow> mw_meta u = aw_meta w
   \<Longrightarrow> good_step S t w (with_uploads w u)"
  by (simp add: good_step_def api_ok_def)

lemma manager_ok: "request_ok S e r w \<Longrightarrow> mp_ok sessions_named mem_sessions (sv_multipart S) (uploads_of w)"
  by (simp add: request_ok_def api_ok_def)

lemma initiateMultipart_step:
  assumes "request_ok S e r w" "nul_free t" "nul_free b"
  shows "good_step S t w (snd (initiateMultipart S e r t b k rs w))"
  unfolding initiateMultipart_def
proof (rule with_upload_step)
  show "api_ok S w" using assms(1) by (simp add: request_ok_def)
  fix rs w1 assume "same_stores w w1"
  from request_ok_same [OF this assms(1)] have ok: "request_ok S e r w1" .
  then have mem: "memory_server S" by (simp add: request_ok_def)
  define n where "n = parseInt64Header r ''X-ChunkGate-Expected-Size''"
  have n: "in_int64 n"
    using parse_int64_range
    by (auto simp: n_def parseInt64Header_def Let_def in_int64_def min_int64_def max_int64_def split: option.splits)
  obtain x u where c: "mpCreate (sv_multipart S) (call e 0) t b k n
      [extractObjectHeaders (call e 1) (rq_Header r)] (uploads_of w1) = (x, u)" by fastforce
  from ok have new: "ids_new e (aw_meta w1)" and ap: "api_ok S w1" by (auto simp: request_ok_def)
  have "\<forall>t'. mem_sessions (aw_meta w1) (t', randomUploadID (call (call e 0) 4)) = None"
    using ids_new_here [OF ids_new_call [OF ids_new_call [OF new]]] by blast
  then have new: "\<forall>t'. mem_sessions (mw_meta (uploads_of w1)) (t', randomUploadID (call (call e 0) 4)) = None"
    by simp
  obtain cap where m: "multipart_manager memory_ops sessions_named mem_sessions (sv_multipart S) cap"
    "shared_manager memory_ops store_inv mem_committed mem_pending mem_fresh sessions_named mem_sessions (sv_multipart S) cap"
    by (rule memory_manager [OF mem])
  note 1 = multipart_manager.create_ok [OF m(1) manager_ok [OF ok] assms(2) n new c]
  have "store_inv (mw_meta (uploads_of w1))" "sessions_named (mw_meta (uploads_of w1))"
    using ap by (simp_all add: api_ok_def mp_ok_def)
  from shared_manager.create_frame [OF m(2) this assms(3) c]
  have 2: "mem_shared_mgr.tenant_frame t (aw_meta w1) (mw_meta u)" by simp
  from manager_step [OF ap 1 2] c show "good_step S t w1 (snd (snd (initiateMultipartBody S e r t b k rs w1)))"
    by (simp add: initiateMultipartBody_def n_def split: sum.splits)
qed

lemma putPart_step:
  assumes "request_ok S e r w" "nul_free t" "length (content rd) \<le> length (content (rq_Body r))"
    and "PutPart (sv_multipart S) e' t u n rd (uploads_of w) = (x, u')"
  shows "good_step S t w (with_uploads w u')"
proof -
  from assms(1) have mem: "memory_server S" and ap: "api_ok S w" and fits: "body_fits r (aw_meta w)"
    by (auto simp: request_ok_def)
  obtain cap where m: "multipart_manager memory_ops sessions_named mem_sessions (sv_multipart S) cap"
    "shared_manager memory_ops store_inv mem_committed mem_pending mem_fresh sessions_named mem_sessions (sv_multipart S) cap"
    by (rule memory_manager [OF mem])
  have "ms_reserved ms + int (length (content rd)) \<le> max_int64"
    if "mem_sessions (mw_meta (uploads_of w)) (t, u) = Some ms" for ms
    using fits that assms(3) by (force simp: body_fits_def)
  from multipart_manager.putPart_ok [OF m(1) manager_ok [OF assms(1)] assms(2) this assms(4)]
  have 1: "mp_ok sessions_named mem_sessions (sv_multipart S) u'" ..
  have "store_inv (mw_meta (uploads_of w))" "sessions_named (mw_meta (uploads_of w))"
    using ap by (simp_all add: api_ok_def mp_ok_def)
  from shared_manager.putPart_frame [OF m(2) this assms(4)]
  have 2: "mem_shared_mgr.tenant_frame t (aw_meta w) (mw_meta u')" by simp
  from manager_step [OF ap 1 2] show ?thesis .
qed

lemma abort_step:
  assumes "memory_server S" "api_ok S w" "nul_free t" "Abort (sv_multipart S) e' t u (uploads_of w) = (x, u')"
  shows "good_step S t w (with_uploads w u')"
proof -
  from assms(2) have ok: "mp_ok sessions_named mem_sessions (sv_multipart S) (uploads_of w)" "store_inv (mw_meta (uploads_of w))"
    by (simp_all add: api_ok_def)
  obtain cap where m: "multipart_manager memory_ops sessions_named mem_sessions (sv_multipart S) cap"
    "shared_manager memory_ops store_inv mem_committed mem_pending mem_fresh sessions_named mem_sessions (sv_multipart S) cap"
    by (rule memory_manager [OF assms(1)])
  from multipart_manager.abort_ok [OF m(1) ok(1) assms(3), of e' u] assms(4)
  have 1: "mp_ok sessions_named mem_sessions (sv_multipart S) u'" by simp
  from shared_manager.abort_frame [OF m(2) ok(2,1) assms(3,4)]
  have 2: "mem_shared_mgr.tenant_frame t (aw_meta w) (mw_meta u')" by simp
  from manager_step [OF assms(2) 1 2] show ?thesis .
qed

text \<open>Operations of the manager that only load a session.\<close>

lemma loading_step:
  assumes "memory_server S" "api_ok S w" "nul_free t"
  shows "CheckPart (sv_multipart S) e' t u n z (uploads_of w) = (r1, u') \<Longrightarrow>
      good_step S t w (with_uploads w u') \<and> mw_meta u' = aw_meta w"
    and "mpOpen (sv_multipart S) e' t u ns (uploads_of w) = (r2, u') \<Longrightarrow>
      good_step S t w (with_uploads w u') \<and> mw_meta u' = aw_meta w"
    and "mpGet (sv_multipart S) e' t u (uploads_of w) = (r3, u') \<Longrightarrow>
      good_step S t w (with_uploads w u') \<and> mw_meta u' = aw_meta w"
    and "mpGet (sv_multipart S) e' t u (uploads_of w) = (Inr s, u') \<Longrightarrow> nul_free (up_Bucket s)"
proof -
  from assms(2) have ok: "mp_ok sessions_named mem_sessions (sv_multipart S) (uploads_of w)"
    by (simp add: api_ok_def)
  obtain cap where m: "multipart_manager memory_ops sessions_named mem_sessions (sv_multipart S) cap"
    "shared_manager memory_ops store_inv mem_committed mem_pending mem_fresh sessions_named mem_sessions (sv_multipart S) cap"
    by (rule memory_manager [OF assms(1)])
  show "good_step S t w (with_uploads w u') \<and> mw_meta u' = aw_meta w"
    if "CheckPart (sv_multipart S) e' t u n z (uploads_of w) = (r1, u')"
    using meta_step [OF assms(2)] multipart_manager.checkPart_ok [OF m(1) ok assms(3), of e' u n z]
      shared_manager.checkPart_meta [OF m(2) that] that by simp
  show "good_step S t w (with_uploads w u') \<and> mw_meta u' = aw_meta w"
    if "mpOpen (sv_multipart S) e' t u ns (uploads_of w) = (r2, u')"
    using meta_step [OF assms(2)] multipart_manager.open_ok [OF m(1) ok assms(3), of e' u ns]
      shared_manager.open_meta [OF m(2) that] that by simp
  have get: "mp_ok sessions_named mem_sessions (sv_multipart S) u'"
    if "mpGet (sv_multipart S) e' t u (uploads_of w) = (r3, u')" for r3
    using multipart_manager.session_snd [OF m(1) ok assms(3), of "call e' 1" u] ok that
    by (cases "ctx_poll e' 0") (auto simp: mpGet_def)
  show "good_step S t w (with_uploads w u') \<and> mw_meta u' = aw_meta w"
    if "mpGet (sv_multipart S) e' t u (uploads_of w) = (r3, u')"
    using meta_step [OF assms(2) get [OF that]] shared_manager.get_meta [OF m(2) that] by simp
  show "nul_free (up_Bucket s)" if "mpGet (sv_multipart S) e' t u (uploads_of w) = (Inr s, u')"
  proof -
    from that have "mpSession (sv_multipart S) (call e' 1) t u (uploads_of w) = (Inr s, u')"
      by (auto simp: mpGet_def split: option.splits)
    from multipart_manager.mpSession_ok [OF m(1) ok assms(3) this]
    have "map_of (mw_uploads u') (sessionKey t u) = Some s" "mw_meta u' = aw_meta w"
      "mp_ok sessions_named mem_sessions (sv_multipart S) u'" by auto
    with mirrored_at(3) [OF _ assms(3)] obtain ms where
      ms: "mem_sessions (aw_meta w) (t, u) = Some ms" "same_upload s (sessionFromMetadata (sv_multipart S) ms)"
      by (metis mp_ok_def)
    from arg_cong [OF ms(2) [unfolded same_upload_def], of up_Bucket] have "up_Bucket s = ms_bucket ms"
      by (simp add: sessionFromMetadata_def)
    with ms(1) assms(2) show ?thesis by (auto simp: api_ok_def buckets_plain_def)
  qed
qed

lemma uploadPart_step:
  assumes "request_ok S e r w" "nul_free t"
  shows "good_step S t w (snd (uploadPart S e r t rs w))"
  unfolding uploadPart_def
proof (rule with_upload_step)
  show "api_ok S w" using assms(1) by (simp add: request_ok_def)
  fix rs w1 assume "same_stores w w1"
  from request_ok_same [OF this assms(1)] have ok: "request_ok S e r w1" .
  then have mem: "memory_server S" and ap: "api_ok S w1" by (simp_all add: request_ok_def)
  let ?u = "query_get r ''uploadId''"
  have same: "good_step S t w1 w1" by (rule same_stores_good [OF ap]) simp
  show "good_step S t w1 (snd (snd (uploadPartBody S e r t rs w1)))"
  proof (cases "validateUploadID ?u \<and> \<not> (0 < sv_maxPartBytes S \<and> sv_maxPartBytes S < rq_ContentLength r)
      \<and> parsePartNumber (query_get r ''partNumber'') \<noteq> None")
    case True
    then obtain n where n: "parsePartNumber (query_get r ''partNumber'') = Some n" by blast
    obtain x u where c: "(if 0 < rq_ContentLength r
        then CheckPart (sv_multipart S) (call e 0) t ?u n (rq_ContentLength r) (uploads_of w1)
        else (None, uploads_of w1)) = (x, u)" by fastforce
    have s2: "good_step S t w1 (with_uploads w1 u)" and m2: "mw_meta u = aw_meta w1"
      using loading_step(1) [OF mem ap assms(2)] meta_step [OF ap manager_ok [OF ok]] c by (auto split: if_splits)
    then have ok2: "request_ok S e r (with_uploads w1 u)"
      using request_ok_meta [OF _ _ ok] by (simp add: good_step_def)
    show ?thesis
    proof (cases x)
      case None
      obtain bd rs3 w3 where l: "limitedBody r (sv_maxPartBytes S) rs (with_uploads w1 u) = (bd, rs3, w3)"
        by (cases rule: prod_cases3)
      note l' = limitedBody_stores [OF l]
      then have s3: "good_step S t w1 w3" using good_step_before [OF s2] by blast
      from l' request_ok_same [OF _ ok2] have ok3: "request_ok S e r w3" by blast
      show ?thesis
      proof (cases bd)
        case (Some body)
        obtain y u4 where p: "PutPart (sv_multipart S) (call e 1) t ?u n body (uploads_of w3) = (y, u4)" by fastforce
        from l' Some have "length (content body) \<le> length (content (rq_Body r))" by blast
        from good_step_trans [OF s3 putPart_step [OF ok3 assms(2) this p]] True n c None l Some p
        show ?thesis by (auto simp: uploadPartBody_def split: sum.splits)
      qed (use True n c None l s3 in \<open>auto simp: uploadPartBody_def\<close>)
    qed (use True n c s2 in \<open>auto simp: uploadPartBody_def\<close>)
  qed (use same in \<open>auto simp: uploadPartBody_def Let_def split: option.splits\<close>)
qed

lemma storeCompleted_step:
  assumes "request_ok S e r w" "nul_free t" "nul_free (up_Bucket s)"
  shows "good_step S t w (snd (snd (storeCompleted S e t u s order rs w)))"
proof -
  from assms(1) have mem: "memory_server S" and ap: "api_ok S w" and new: "ids_new e (aw_meta w)"
    by (simp_all add: request_ok_def)
  obtain x v where o: "mpOpen (sv_multipart S) (call e 0) t u order (uploads_of w) = (x, v)" by fastforce
  from loading_step(2) [OF mem ap assms(2) o]
  have s1: "good_step S t w (with_uploads w v)" and m1: "mw_meta v = aw_meta w" by auto
  show ?thesis
  proof (cases x)
    case (Inr sr)
    obtain s' rd where sr: "sr = (s', rd)" by fastforce
    let ?w1 = "with_uploads w v"
    have ap1: "api_ok S ?w1" using s1 by (simp add: good_step_def)
    obtain y o1 where p: "Put (sv_objects S) (call e 1) t (up_Bucket s) (up_Key s) rd
        [Some (WithHeaders (call e 2) (up_Headers s))] (objects_of ?w1) = (y, o1)" by fastforce
    have "svc_store (sv_objects S) = memory_ops" "ids_new (call e 1) (aw_meta ?w1)"
      using mem ids_new_call [OF new] m1 by (simp_all add: memory_server_def)
    from put_step [OF ap1 this(1) assms(2,3) this(2) p]
    have s2: "good_step S t w (with_objects ?w1 o1)" by (rule good_step_trans [OF s1])
    let ?w2 = "with_objects ?w1 o1"
    have ap2: "api_ok S ?w2" using s2 by (simp add: good_step_def)
    obtain z v2 where a: "Abort (sv_multipart S) (call e 4) t u (uploads_of ?w2) = (z, v2)" by fastforce
    from good_step_trans [OF s2 abort_step [OF mem ap2 assms(2) a]]
    have s3: "good_step S t w (with_uploads ?w2 v2)" .
    from o Inr sr p a s2 s3 show ?thesis
      by (auto simp: storeCompleted_def CompleteCleanup_def Let_def split: sum.splits option.splits)
  qed (use o s1 in \<open>simp add: storeCompleted_def\<close>)
qed

lemma completeMultipart_step:
  assumes "request_ok S e r w" "nul_free t"
  shows "good_step S t w (snd (completeMultipart S e r t rs w))"
  unfolding completeMultipart_def
proof (rule with_upload_step)
  show "api_ok S w" using assms(1) by (simp add: request_ok_def)
  fix rs w1 assume "same_stores w w1"
  from request_ok_same [OF this assms(1)] have ok: "request_ok S e r w1" .
  let ?u = "query_get r ''uploadId''"
  have same: "good_step S t w1 w1" using ok by (intro same_stores_good) (simp_all add: request_ok_def)
  show "good_step S t w1 (snd (snd (completeMultipartBody S e r t rs w1)))"
  proof (cases "validateUploadID ?u")
    case True
    obtain bd rs2 w2 where l: "limitedBody r (sv_maxCompleteXML S) rs w1 = (bd, rs2, w2)" by (cases rule: prod_cases3)
    from limitedBody_stores [OF l] have s2: "same_stores w1 w2" ..
    from request_ok_same [OF s2 ok] have ok2: "request_ok S e r w2" .
    then have mem: "memory_server S" and ap2: "api_ok S w2" by (simp_all add: request_ok_def)
    have "good_step S t w2 (snd (snd (completeMultipartBody S e r t rs w1)))"
    proof (cases "\<exists>body request. bd = Some body \<and> sv_decodeXML S body = Inr request")
      case True
      then obtain body request where d: "bd = Some body" "sv_decodeXML S body = Inr request" by blast
      obtain x u where g: "mpGet (sv_multipart S) (call e 0) t ?u (uploads_of w2) = (x, u)" by fastforce
      from loading_step(3) [OF mem ap2 assms(2) g]
      have s3: "good_step S t w2 (with_uploads w2 u)" and m3: "mw_meta u = aw_meta w2" by auto
      then have ok3: "request_ok S (call e 1) r (with_uploads w2 u)"
        using request_ok_call [OF request_ok_meta [OF _ _ ok2]] by (simp add: good_step_def)
      show ?thesis
      proof (cases "\<exists>s order. x = Inr s \<and> validateCompletedParts (up_Parts s) (cu_Parts request) = Inr order")
        case True
        then obtain s order where v: "x = Inr s" "validateCompletedParts (up_Parts s) (cu_Parts request) = Inr order"
          by blast
        with loading_step(4) [OF mem ap2 assms(2)] g have "nul_free (up_Bucket s)" by blast
        from good_step_trans [OF s3 storeCompleted_step [OF ok3 assms(2) this]] \<open>validateUploadID ?u\<close> l d g v
        show ?thesis by (simp add: completeMultipartBody_def Let_def)
      qed (use \<open>validateUploadID ?u\<close> l d g s3 in \<open>auto simp: completeMultipartBody_def Let_def split: sum.splits\<close>)
    qed (use True l same_stores_good [OF ap2, of w2] in
        \<open>auto simp: completeMultipartBody_def Let_def split: option.splits sum.splits\<close>)
    with s2 show ?thesis by (rule good_step_after)
  qed (use same in \<open>simp add: completeMultipartBody_def Let_def\<close>)
qed

lemma abortMultipart_step:
  assumes "request_ok S e r w" "nul_free t"
  shows "good_step S t w (snd (abortMultipart S e r t rs w))"
proof -
  obtain x u where a: "Abort (sv_multipart S) (call e 0) t (query_get r ''uploadId'') (uploads_of w) = (x, u)" by fastforce
  from abort_step [OF _ _ assms(2) a] assms(1) same_stores_good [of S w w t] a show ?thesis
    by (auto simp: abortMultipart_def request_ok_def Let_def split: option.splits)
qed

lemma getObject_state [simp]: "snd (getObject S e r t b k rs w) = w"
  by (simp add: getObject_def Let_def split: sum.splits prod.splits)

section \<open>From the router down\<close>

lemma bucketLoop_all: "bucketLoop f d rs \<Longrightarrow> \<forall>r \<in> set rs. lower_alnum r \<or> r = 46 \<or> r = 45"
  by (induction f d rs rule: bucketLoop.induct) auto

lemma bucket_nul_free:
  assumes "validateBucketName b"
  shows "nul_free b"
proof -
  from assms bucketLoop_all have "\<forall>r \<in> set (runes b). lower_alnum r \<or> r = 46 \<or> r = 45"
    by (auto simp: validateBucketName_def)
  then have "\<forall>c \<in> set b. lower_alnum (of_char c) \<or> (of_char c :: nat) = 46 \<or> (of_char c :: nat) = 45"
    by (subst (asm) runes_all_ascii) (auto simp: lower_alnum_def)
  then show ?thesis by (auto simp: nul_free_def lower_alnum_def)
qed

lemma routeObject_step:
  assumes "request_ok S e r w" "nul_free t" "nul_free b"
  shows "good_step S t w (snd (routeObject S e r t b k rs w))"
  using initiateMultipart_step [OF assms] uploadPart_step [OF assms(1,2)] completeMultipart_step [OF assms(1,2)]
    abortMultipart_step [OF assms(1,2)] putObject_step [OF assms] deleteObject_step [OF assms]
    same_stores_good [of S w w t] assms(1)
  by (simp add: routeObject_def Let_def request_ok_def)

lemma routeS3_step:
  assumes "request_ok S e r w" "nul_free t"
  shows "good_step S t w (snd (routeS3 S e r t rs w))"
  using routeObject_step [OF assms bucket_nul_free] same_stores_good [of S w w t] assms(1)
  by (auto simp: routeS3_def request_ok_def split: option.splits)

text \<open>The tenant a request is authenticated for.\<close>

definition caller :: "('m, 'b, 'c) api_server \<Rightarrow> env \<Rightarrow> http_request \<Rightarrow> string option" where
  "caller S e r = (case authenticate (sv_auth S) (sv_anonymousTenant S) e r newResponse of
     Inl rs \<Rightarrow> None | Inr i \<Rightarrow> Some (id_Tenant i))"

lemma authenticate_caller:
  "authenticate (sv_auth S) (sv_anonymousTenant S) e r rs = Inr i \<Longrightarrow> caller S e r = Some (id_Tenant i)"
  by (auto simp: caller_def authenticate_def split: if_splits sum.splits)

lemma authenticate_plain:
  assumes "tenants_plain S" "authenticate (sv_auth S) (sv_anonymousTenant S) e r rs = Inr i"
  shows "nul_free (id_Tenant i)"
proof (cases "Enabled (sv_auth S)")
  case True
  then obtain v where v: "sv_auth S = Some v" by (cases "sv_auth S") (auto simp: Enabled_def)
  with True assms(2) have "Enabled (Some v)" "Verify (Some v) e r = Inr i"
    by (auto simp: authenticate_def split: sum.splits)
  from Verify_accepted [OF this] obtain p c t canonical where
    "accepted v e r p c t canonical" "i = \<lparr>id_AccessKey = cd_AccessKey c, id_Tenant = cd_Tenant c\<rparr>" .
  then show ?thesis
    using lookupCredential_member [of v "pa_accessKey p" c] assms(1) v by (simp add: accepted_def tenants_plain_def)
next
  case False
  with assms show ?thesis by (auto simp: authenticate_def tenants_plain_def split: if_splits)
qed

text \<open>Safe methods reach no handler that stores.\<close>

lemma routeS3_safe:
  "rq_Method r \<notin> {''PUT'', ''POST'', ''DELETE''} \<Longrightarrow> snd (routeS3 S e r t rs w) = w"
  by (auto simp: routeS3_def routeObject_def Let_def split: option.splits)

text \<open>Everything a request can reach apart from the block store, which the readiness check probes.\<close>

definition same_data :: "('m, 'b, 'c) api_world \<Rightarrow> ('m, 'b, 'c) api_world \<Rightarrow> bool" where
  "same_data w w' \<longleftrightarrow> aw_meta w' = aw_meta w \<and> aw_uploads w' = aw_uploads w
     \<and> aw_used w' = aw_used w \<and> aw_files w' = aw_files w"

lemma writeReadiness_data: "same_data w (snd (writeReadiness S e rs w))"
  by (simp add: same_data_def writeReadiness_def Let_def split: prod.splits)

lemma same_data_refl [simp]: "same_data w w"
  by (simp add: same_data_def)

lemma same_data_ok: "same_data w w' \<Longrightarrow> api_ok S w' = api_ok S w"
  by (simp add: same_data_def api_ok_def uploads_of_def)

lemma routeRequest_step:
  assumes "request_ok S e r w" "routeRequest S e n r rs w = (rs', w')"
  shows "same_data w w' \<and> (rq_Path r \<noteq> ''/readyz'' \<longrightarrow> aw_blocks w' = aw_blocks w)
    \<or> (rq_Method r \<in> {''PUT'', ''POST'', ''DELETE''} \<and> (\<exists>t. caller S (call e 1) r = Some t \<and> good_step S t w w'))"
proof (cases "\<exists>i rs1. authenticate (sv_auth S) (sv_anonymousTenant S) (call e 1) r rs1 = Inr i
    \<and> routeS3 S (call e 2) r (id_Tenant i) rs1 w = (rs', w')")
  case True
  then obtain i rs1 where a: "authenticate (sv_auth S) (sv_anonymousTenant S) (call e 1) r rs1 = Inr i"
    "routeS3 S (call e 2) r (id_Tenant i) rs1 w = (rs', w')" by blast
  from assms(1) authenticate_plain [OF _ a(1)] have t: "nul_free (id_Tenant i)" by (simp add: request_ok_def)
  from routeS3_step [OF request_ok_call [OF assms(1)] t, of 2 rs1] a(2)
  have "good_step S (id_Tenant i) w w'" by simp
  with authenticate_caller [OF a(1)] routeS3_safe [of r S "call e 2" "id_Tenant i" rs1 w] a(2) show ?thesis by auto
next
  case False
  with assms(2) writeReadiness_data [of w S "call e 0" rs]
  have "same_data w w' \<and> (rq_Path r \<noteq> ''/readyz'' \<longrightarrow> aw_blocks w' = aw_blocks w)"
    by (auto simp: routeRequest_def split: if_splits prod.splits bool.splits sum.splits)
  then show ?thesis ..
qed

section \<open>A concrete server\<close>

definition toy_server :: "(memory_store, file_tree, unit) api_server" where
  "toy_server = NewServer (\<lambda>_. None) (\<lambda>_. Inl (ErrNew ''syntax'')) (\<lambda>_. Inl (ErrNew ''syntax'')) None svc_a toy_manager
     [Some (WithAnonymousTenant ''t'')]"

definition toy_world :: "(memory_store, file_tree, unit) api_world" where
  "toy_world = \<lparr>aw_meta = NewMemoryStore, aw_blocks = (\<lambda>_. None), aw_cpu = (), aw_metrics = None, aw_gcMetrics = None,
     aw_uploads = [], aw_used = 0, aw_files = (\<lambda>_. None), aw_draining = False, aw_inflight = 0\<rparr>"

definition toy_http :: "string \<Rightarrow> (string, string list) gomap \<Rightarrow> reader \<Rightarrow> http_request" where
  "toy_http method header body = \<lparr>rq_Method = method, rq_Host = ''h'', rq_Path = ''/bkt/k'', rq_EscapedPath = ''/bkt/k'',
     rq_RawQuery = [], rq_Header = header, rq_ContentLength = int (length (content body)), rq_Body = body\<rparr>"

lemma toy_server_fields [simp]:
  "sv_objects toy_server = svc_a" "sv_multipart toy_server = toy_manager" "sv_auth toy_server = None"
  "sv_anonymousTenant toy_server = ''t''" "sv_virtualHosts toy_server = []" "sv_maxObjectBytes toy_server = 0"
  by (simp_all add: toy_server_def NewServer_def WithAnonymousTenant_def)

lemma toy_http_fields [simp]:
  "rq_Method (toy_http m h bd) = m" "rq_Header (toy_http m h bd) = h" "rq_Body (toy_http m h bd) = bd"
  "rq_Path (toy_http m h bd) = ''/bkt/k''" "rq_EscapedPath (toy_http m h bd) = ''/bkt/k''"
  "rq_RawQuery (toy_http m h bd) = []"
  by (simp_all add: toy_http_def)

lemma toy_caller: "caller toy_server e r = Some ''t''"
  by (simp add: caller_def authenticate_def Enabled_def)

lemma toy_ids_new: "ids_new env0 (aw_meta toy_world)"
proof -
  have "foldl call env0 p = env0" for p by (induction p) simp_all
  then show ?thesis
    by (simp add: ids_new_def toy_world_def mem_sessions_new) (simp add: NewMemoryStore_def)
qed

lemma toy_start: "api_ok toy_server toy_world" "memory_server toy_server" "tenants_plain toy_server"
  "body_fits r (aw_meta toy_world)"
proof -
  have "mp_ok sessions_named mem_sessions toy_manager (uploads_of toy_world)"
    using start_ok by (simp add: toy_manager_def uploads_of_def toy_world_def mp_start_def)
  then show "api_ok toy_server toy_world"
    using store_inv_new by (simp add: api_ok_def buckets_plain_def toy_world_def mem_sessions_new)
  show "memory_server toy_server" by (simp add: memory_server_def svc_a_def) (metis toy_manager_def)
  show "tenants_plain toy_server" by (simp add: tenants_plain_def nul_free_def)
  show "body_fits r (aw_meta toy_world)" by (simp add: body_fits_def toy_world_def mem_sessions_new)
qed

section \<open>Properties\<close>

text \<open>C33: A request acts for its own tenant only. Whatever the request, its arguments and the failures
  on the way, the invariant of the stores and of the multipart manager holds afterwards; objects and
  upload sessions of every tenant the request is not authenticated for are as before; and a request
  that is not authenticated, or whose method is not \<open>PUT\<close>, \<open>POST\<close> or \<open>DELETE\<close>, changes no
  metadata, no session, no reservation and no scratch file, and no block unless it is the readiness
  check.\<close>

theorem request_isolated:
  assumes "api_ok S w" "memory_server S" "tenants_plain S" "ids_new e (aw_meta w)" "body_fits r (aw_meta w)"
    and "ServeHTTP S e r w = (rs, w')"
  shows "api_ok S w'
    \<and> (\<forall>t. caller S (call (call e 1) 1) r \<noteq> Some t \<longrightarrow>
        (\<forall>b k. mem_committed (aw_meta w') (t, b, k) = mem_committed (aw_meta w) (t, b, k))
        \<and> (\<forall>u. mem_sessions (aw_meta w') (t, u) = mem_sessions (aw_meta w) (t, u)))
    \<and> (caller S (call (call e 1) 1) r = None \<or> rq_Method r \<notin> {''PUT'', ''POST'', ''DELETE''} \<longrightarrow>
        same_data w w' \<and> (rq_Path r \<noteq> ''/readyz'' \<longrightarrow> aw_blocks w' = aw_blocks w))"
proof -
  let ?w = "count_metric StartRequest w"
  from assms(6) obtain w1 where ro: "routeRequest S (call e 1) (generateRequestID (call e 0)) r newResponse ?w = (rs, w1)"
    and w': "w' = count_metric (FinishRequest (rs_Recorded rs)) w1"
    by (auto simp: ServeHTTP_def split: prod.splits)
  have same: "aw_meta w' = aw_meta w1" "aw_blocks w' = aw_blocks w1" "same_data w1 w'" "same_data w ?w"
    "aw_meta ?w = aw_meta w" "aw_blocks ?w = aw_blocks w"
    by (simp_all add: w' count_metric_def same_data_def)
  have "request_ok S e r w" using assms by (simp add: request_ok_def)
  from request_ok_call [OF request_ok_same [OF count_metric_stores this]]
  have ok: "request_ok S (call e 1) r ?w" .
  have ap: "api_ok S w' = api_ok S w1" "api_ok S ?w" using same_data_ok same(3,4) assms(1) by blast+
  from routeRequest_step [OF ok ro] show ?thesis
  proof (elim disjE conjE exE)
    assume d: "same_data ?w w1" "rq_Path r \<noteq> ''/readyz'' \<longrightarrow> aw_blocks w1 = aw_blocks ?w"
    then have "same_data w w'" using same(3,4) by (simp add: same_data_def)
    then show ?thesis using d ap same_data_ok [OF d(1)] same by (simp add: same_data_def)
  next
    fix t assume m: "rq_Method r \<in> {''PUT'', ''POST'', ''DELETE''}" and t: "caller S (call (call e 1) 1) r = Some t"
      and g: "good_step S t ?w w1"
    have "mem_committed (aw_meta w1) (t', b, k) = mem_committed (aw_meta ?w) (t', b, k)"
      "mem_sessions (aw_meta w1) (t', u) = mem_sessions (aw_meta ?w) (t', u)" if "t' \<noteq> t" for t' b k u
      using g that unfolding good_step_def own_tenant_def by blast+
    with g m t ap show ?thesis unfolding same(1,5) by (auto simp: good_step_def)
  qed
qed

theorem request_isolated_witness:
  "\<exists>rs w. ServeHTTP toy_server env0 (toy_http ''PUT'' [] body_a) toy_world = (rs, w) \<and> api_ok toy_server w
    \<and> mem_committed (aw_meta w) (''u'', ''bkt'', ''k'') = mem_committed (aw_meta toy_world) (''u'', ''bkt'', ''k'')"
proof -
  obtain rs w where r: "ServeHTTP toy_server env0 (toy_http ''PUT'' [] body_a) toy_world = (rs, w)" by fastforce
  from request_isolated [OF toy_start(1-3) toy_ids_new toy_start(4) r] r toy_caller show ?thesis by auto
qed

text \<open>C34: A completion request is accepted exactly when it should be. \<open>validateCompletedParts\<close>
  succeeds if and only if the list names at least one part, in strictly ascending order, each with
  a number from 1 to 10000 that was uploaded and with the non-empty ETag of the uploaded part (up to
  quotes, surrounding space and case); the order it returns is the listed numbers. Everything else
  is refused with status 400.\<close>

theorem completed_parts_exact:
  "(validateCompletedParts uploaded cps = Inr order \<longleftrightarrow>
      cps \<noteq> [] \<and> sorted_wrt (<) (map cp_PartNumber cps) \<and> order = map cp_PartNumber cps
      \<and> (\<forall>cp \<in> set cps. 1 \<le> cp_PartNumber cp \<and> cp_PartNumber cp \<le> 10000
          \<and> (\<exists>p. map_of uploaded (cp_PartNumber cp) = Some p \<and> normalizeETag (cp_ETag cp) \<noteq> []
               \<and> normalizeETag (cp_ETag cp) = normalizeETag (pi_ETag p))))
    \<and> (validateCompletedParts uploaded cps = Inl x \<longrightarrow> se_Status x = 400)"
proof -
  have "completedLoop uploaded [] 0 cps = Inr order \<longleftrightarrow> sorted_wrt (<) (map cp_PartNumber cps)
      \<and> (\<forall>cp \<in> set cps. 0 < cp_PartNumber cp \<and> part_listed uploaded cp) \<and> order = map cp_PartNumber cps"
    by (rule completedLoop_exact) simp_all
  then have "validateCompletedParts uploaded cps = Inr order \<longleftrightarrow> cps \<noteq> [] \<and> sorted_wrt (<) (map cp_PartNumber cps)
      \<and> (\<forall>cp \<in> set cps. part_listed uploaded cp) \<and> order = map cp_PartNumber cps"
    by (auto simp: validateCompletedParts_def part_listed_def)
  moreover have "validateCompletedParts uploaded cps = Inl x \<longrightarrow> se_Status x = 400"
    using completedLoop_status [of uploaded "[]" 0 cps x] by (auto simp: validateCompletedParts_def)
  ultimately show ?thesis by (auto simp: part_listed_def maxS3PartNumber_def int_one_le_iff_zero_less)
qed

theorem completed_parts_exact_witness:
  "validateCompletedParts [(3, toy_part 3 5\<lparr>pi_ETag := ''ab''\<rparr>)] [\<lparr>cp_PartNumber = 3, cp_ETag = ''AB''\<rparr>] = Inr [3]"
proof -
  have "normalizeETag ''AB'' = ''ab''" "normalizeETag ''ab'' = ''ab''"
    by (simp_all add: normalizeETag_def trim_space_visible visible_def trim_byte_def
        trim_right_byte_def trim_left_byte_def to_lower_def lower_char_def) code_simp
  then show ?thesis
    using completed_parts_exact [of "[(3, toy_part 3 5\<lparr>pi_ETag := ''ab''\<rparr>)]" "[\<lparr>cp_PartNumber = 3, cp_ETag = ''AB''\<rparr>]" "[3]"]
    by simp
qed

end
