(* ===== verification/ApiObjects.thy ===== *)
theory ApiObjects
  imports ApiProps
begin

text \<open>
  Object requests from end to end: what the server answers to a PUT, GET or ranged GET of an object,
  over the file store and the in-memory metadata store, in terms of the object service.
\<close>

section \<open>Response lemmas\<close>

lemma setHeader_body [simp]:
  "rs_Status (setHeader n v rs) = rs_Status rs" "rs_Body (setHeader n v rs) = rs_Body rs"
  by (simp_all add: setHeader_def)

lemma getHeader_set [simp]:
  "getHeader (setHeader n v rs) n' = (if CanonicalHeaderKey n' = CanonicalHeaderKey n then v else getHeader rs n')"
  by (simp add: getHeader_def setHeader_def lookup_or_def update_conv')

lemma getHeader_write [simp]:
  "getHeader (recWriteHeader st rs) n = getHeader rs n" "getHeader (recWrite p rs) n = getHeader rs n"
  "getHeader (copyBody e rd rs) n = getHeader rs n"
  by (simp_all add: getHeader_def recWriteHeader_def recWrite_def copyBody_def)

lemma write_status [simp]:
  "rs_Status (recWriteHeader st rs) = (case rs_Status rs of None \<Rightarrow> Some st | Some x \<Rightarrow> Some x)"
  "rs_Status (recWrite p rs) = (case rs_Status rs of None \<Rightarrow> Some 200 | Some x \<Rightarrow> Some x)"
  "rs_Body (recWriteHeader st rs) = rs_Body rs" "rs_Body (recWrite p rs) = rs_Body rs @ [p]"
  by (simp_all add: recWriteHeader_def recWrite_def)

lemma writeError_status [simp]:
  "rs_Status (writeError st c m rs) = (case rs_Status rs of None \<Rightarrow> Some st | Some x \<Rightarrow> Some x)"
  by (simp add: writeError_def writeXML_def Let_def split: option.splits)

lemma writeInternalError_status:
  "rs_Status rs = None \<Longrightarrow> rs_Status (writeInternalError x rs) \<in> {Some 404, Some 507, Some 503, Some 500}"
  by (simp add: writeInternalError_def writeCapacityError_def)

lemma applyObjectHeaders_body [simp]:
  "rs_Status (applyObjectHeaders e hs rs) = rs_Status rs" "rs_Body (applyObjectHeaders e hs rs) = rs_Body rs"
proof -
  have "rs_Status (foldl (\<lambda>w (k, v). setHeader k v w) rs xs) = rs_Status rs
      \<and> rs_Body (foldl (\<lambda>w (k, v). setHeader k v w) rs xs) = rs_Body rs" for xs
    by (induction xs arbitrary: rs) auto
  then show "rs_Status (applyObjectHeaders e hs rs) = rs_Status rs" "rs_Body (applyObjectHeaders e hs rs) = rs_Body rs"
    by (simp_all add: applyObjectHeaders_def)
qed

lemma applyRangeHeaders_body [simp]:
  "rs_Status (applyRangeHeaders e m br n rs) = rs_Status rs" "rs_Body (applyRangeHeaders e m br n rs) = rs_Body rs"
  by (simp_all add: applyRangeHeaders_def)

lemma canonical_keys:
  "CanonicalHeaderKey ''ETag'' = ''Etag''" "CanonicalHeaderKey ''Content-Length'' = ''Content-Length''"
  "CanonicalHeaderKey ''Content-Range'' = ''Content-Range''" "CanonicalHeaderKey ''Accept-Ranges'' = ''Accept-Ranges''"
  "CanonicalHeaderKey ''Access-Control-Allow-Origin'' = ''Access-Control-Allow-Origin''"
  by code_simp+

lemma handleCORS_passes:
  assumes "rq_Method r \<noteq> ''OPTIONS''"
  shows "\<exists>rs'. handleCORS c r rs = (False, rs') \<and> rs_Status rs' = rs_Status rs \<and> rs_Body rs' = rs_Body rs"
  using assms by (simp add: handleCORS_def corsOrigin_def Let_def)

section \<open>Requests for one object\<close>

text \<open>A request for an object path that is none of the server's own paths; without an upload id it
  is about the object.\<close>

definition keyed_request :: "('m, 'b, 'c) api_server \<Rightarrow> http_request \<Rightarrow> string \<Rightarrow> string \<Rightarrow> bool" where
  "keyed_request S r b k \<longleftrightarrow>
     parseS3Target (sv_url_host S) r (sv_virtualHosts S) = Some (key_path b k)
     \<and> validateBucketName b \<and> validateObjectKey k
     \<and> \<not> has_prefix (rq_Path r) ''/debug/pprof'' \<and> rq_Path r \<notin> {''/healthz'', ''/readyz'', ''/metrics''}
     \<and> \<not> has_prefix (rq_Path r) deltaAPIPrefix"

definition object_request :: "('m, 'b, 'c) api_server \<Rightarrow> http_request \<Rightarrow> string \<Rightarrow> string \<Rightarrow> bool" where
  "object_request S r b k \<longleftrightarrow> keyed_request S r b k \<and> query_get r ''uploadId'' = []"

text \<open>The place of a handler below \<open>ServeHTTP\<close>.\<close>

abbreviation handler_env :: "env \<Rightarrow> env" where
  "handler_env e \<equiv> call (call e 1) 2"

lemma routed:
  assumes "keyed_request S r b k" "rq_Method r \<noteq> ''OPTIONS''" "caller S (call (call e 1) 1) r = Some t"
  shows "\<exists>rs1. rs_Status rs1 = None \<and> rs_Body rs1 = [] \<and> (\<forall>w. ServeHTTP S e r w =
    (case routeObject S (handler_env e) r t b k rs1 (count_metric StartRequest w) of
       (rs, w1) \<Rightarrow> (rs, count_metric (FinishRequest (rs_Recorded rs)) w1)))"
proof -
  let ?rs0 = "addCommonHeaders (generateRequestID (call e 0)) newResponse"
  from handleCORS_passes [OF assms(2)] obtain rs1 where
    c: "handleCORS (sv_cors S) r ?rs0 = (False, rs1)" "rs_Status rs1 = None" "rs_Body rs1 = []"
    by (metis addCommonHeaders_def setHeader_body newResponse_def response.select_convs(2,4))
  from assms(3) have "\<exists>i. authenticate (sv_auth S) (sv_anonymousTenant S) (call (call e 1) 1) r rs1 = Inr i \<and> id_Tenant i = t"
    by (auto simp: caller_def authenticate_def split: if_splits sum.splits)
  with c assms(1) show ?thesis
    by (intro exI [of _ rs1]) (auto simp: ServeHTTP_def routeRequest_def routeS3_def keyed_request_def key_path_def)
qed

section \<open>PUT\<close>

text \<open>A successful upload has read its body to the end.\<close>

lemma Put_read:
  assumes "fastcdc_library (svc_fc S) fcuts" "Put S e t b k body opts w = (Inr m, w')"
  shows "reader_err body = None"
proof -
  from assms(2) obtain po w1 w2 where "putBody S e t b k body po w1 = (Inr m, w2)"
    by (auto simp: Put_def Let_def split: option.splits prod.splits)
  then obtain st' where "Stream (svc_fc S) (call e 2) (svc_chunker S) body (Some (putChunk S (call e 3) t))
      \<lparr>ps_blocks = w_blocks w1, ps_refs = [], ps_size = 0, ps_chunks = 0, ps_seen = []\<rparr> = (None, st')"
    by (auto simp: putBody_def split: sum.splits prod.splits option.splits)
  from fastcdc_library.Stream_ok [OF assms(1) this] show ?thesis ..
qed

lemma limitedBody_content:
  assumes "limitedBody r n rs w = (Some rd, rs1, w1)"
  shows "reader_err rd = None \<longrightarrow> content rd = content (rq_Body r) \<and> reader_err (rq_Body r) = None"
proof (cases "n \<le> 0")
  case True
  with assms show ?thesis by (simp add: limitedBody_def)
next
  case False
  with assms have rd: "rd = max_bytes_reader (nat n) (rq_Body r)" by (simp add: limitedBody_def split: if_splits)
  have "content rd = content (rq_Body r) \<and> reader_err (rq_Body r) = None" if "reader_err rd = None"
    using max_bytes_cases [of "nat n" "rq_Body r"] max_bytes_within [of "rq_Body r" "nat n"] that rd by auto
  then show ?thesis by blast
qed

lemma putObject_stored:
  assumes "putObject S e r t b k rs w = (rs', w')" "rs_Status rs = None" "rs_Status rs' = Some 200"
  shows "\<exists>body opts o0 o1 m. Put (sv_objects S) (call e 0) t b k body opts o0 = (Inr m, o1)
    \<and> w_meta o0 = aw_meta w \<and> w_blocks o0 = aw_blocks w \<and> aw_meta w' = w_meta o1 \<and> aw_blocks w' = w_blocks o1
    \<and> getHeader rs' ''ETag'' = m_etag m
    \<and> (reader_err body = None \<longrightarrow> content body = content (rq_Body r))"
proof -
  have running: "\<not> aw_draining w"
    using assms by (auto simp: putObject_def with_upload_def beginUpload_def)
  define w1 where "w1 = count_metric StartUpload (w\<lparr>aw_inflight := aw_inflight w + 1\<rparr>)"
  obtain ok rs2 w2 where b: "putObjectBody S e r t b k rs w1 = (ok, rs2, w2)" by (cases rule: prod_cases3)
  with assms(1) running have r: "rs' = rs2" "w' = endUpload ok w2"
    by (simp_all add: putObject_def with_upload_def beginUpload_def w1_def)
  obtain bd rs3 w3 where l: "limitedBody r (sv_maxObjectBytes S) rs w1 = (bd, rs3, w3)" by (cases rule: prod_cases3)
  from limitedBody_stores [OF l] have same: "aw_meta w3 = aw_meta w" "aw_blocks w3 = aw_blocks w"
    by (simp_all add: same_stores_def w1_def count_metric_def)
  have st: "rs_Status rs3 = None \<or> rs_Status rs3 = Some 400" "bd = None \<longrightarrow> rs_Status rs3 = Some 400"
    "bd \<noteq> None \<longrightarrow> rs_Status rs3 = None"
    using l assms(2) by (auto simp: limitedBody_def split: if_splits)
  from assms(3) r b l st have "bd \<noteq> None" by (auto simp: putObjectBody_def)
  then obtain body where body: "bd = Some body" by blast
  obtain x o1 where p: "Put (sv_objects S) (call e 0) t b k body
      [Some (WithHeaders (call e 1) (extractObjectHeaders (call e 2) (rq_Header r)))] (objects_of w3) = (x, o1)" by fastforce
  show ?thesis
  proof (cases x)
    case (Inl y)
    with assms(3) r b l body p st writeInternalError_status [of rs3 y] show ?thesis
      by (auto simp: putObjectBody_def split: if_splits)
  next
    case (Inr m)
    with r b l body p have "getHeader rs' ''ETag'' = m_etag m" "w2 = with_objects w3 o1"
      by (auto simp: putObjectBody_def canonical_keys)
    moreover have "aw_meta w' = aw_meta w2" "aw_blocks w' = aw_blocks w2"
      by (simp_all add: r endUpload_def count_metric_def Let_def)
    ultimately show ?thesis
      using p Inr same limitedBody_content [OF l [unfolded body]]
      by (intro exI [of _ body] exI [of _ "objects_of w3"] exI) (auto simp: objects_of_def with_objects_def)
  qed
qed

section \<open>GET\<close>

lemma getObject_whole:
  assumes "OpenObject (sv_objects S) (call e 1) t b k (objects_of w) = Inr (m, rd)" "quiet e"
    and "trim_space (header_get (rq_Header r) ''Range'') = []" "rq_Method r = ''GET''" "rs_Status rs = None" "rs_Body rs = []"
  shows "\<exists>rs'. getObject S e r t b k rs w = (rs', w) \<and> rs_Status rs' = Some 200 \<and> rs_Body rs' = [Raw (content rd)]
    \<and> getHeader rs' ''ETag'' = m_etag m \<and> getHeader rs' ''Content-Length'' = format_int (m_size m)"
  using assms by (simp add: getObject_def copyBody_def canonical_keys Let_def)

lemma getObject_range:
  assumes "OpenRange (sv_objects S) (call (call e 0) 2) t b k br (objects_of w) = Inr (m, rd)" "quiet e"
    and "Stat (sv_objects S) (call (call e 0) 0) t b k (objects_of w) = Inr m"
    and "trim_space (header_get (rq_Header r) ''Range'') = h" "h \<noteq> []" "parseSingleRange h (m_size m) = Inr br"
    and "rq_Method r = ''GET''" "rs_Status rs = None" "rs_Body rs = []"
  shows "\<exists>rs'. getObject S e r t b k rs w = (rs', w) \<and> rs_Status rs' = Some 206 \<and> rs_Body rs' = [Raw (content rd)]
    \<and> getHeader rs' ''Content-Range'' = ''bytes '' @ format_int (Start br) @ ''-'' @ format_int (End br)
        @ ''/'' @ format_int (m_size m)"
  using assms by (simp add: getObject_def getObjectRange_def copyBody_def applyRangeHeaders_def canonical_keys Let_def)

lemma getObject_unsatisfiable:
  assumes "Stat (sv_objects S) (call (call e 0) 0) t b k (objects_of w) = Inr m"
    and "trim_space (header_get (rq_Header r) ''Range'') = h" "h \<noteq> []" "parseSingleRange h (m_size m) = Inl x"
    and "rs_Status rs = None"
  shows "\<exists>rs'. getObject S e r t b k rs w = (rs', w) \<and> rs_Status rs' = Some 416"
  using assms by (simp add: getObject_def getObjectRange_def Let_def)

section \<open>A stored object over HTTP\<close>

lemma world_ok_stores:
  "w_meta w' = w_meta w \<Longrightarrow> w_blocks w' = w_blocks w \<Longrightarrow> world_ok S store w = world_ok S store w'"
  by (simp add: world_ok_def)

lemma objects_of_metric [simp]:
  "w_meta (objects_of (count_metric f w)) = aw_meta w" "w_blocks (objects_of (count_metric f w)) = aw_blocks w"
  "aw_meta (count_metric f w) = aw_meta w" "aw_blocks (count_metric f w) = aw_blocks w"
  by (simp_all add: objects_of_def count_metric_def)

lemma objects_of_blocks [simp]: "w_blocks (objects_of w) = aw_blocks w"
  by (simp add: objects_of_def)

lemma put_object_request:
  assumes "fastcdc_library fc fcuts" "sv_objects S = fileService fc sha md sp store cpu"
    and "world_ok (sv_objects S) store (objects_of w)" "nul_free t" "ids_new e (aw_meta w)"
    and "object_request S r b k" "rq_Method r = ''PUT''" "caller S (call (call e 1) 1) r = Some t"
    and "no_collision (sv_objects S) store fcuts (content (rq_Body r)) (objects_of w)"
    and "int (length (content (rq_Body r))) \<le> max_int64"
    and "ServeHTTP S e r w = (rs, w')" "rs_Status rs = Some 200"
  shows "\<exists>m. world_ok (sv_objects S) store (objects_of w') \<and> mem_committed (aw_meta w') (t, b, k) = Some m
    \<and> holds_content (sv_objects S) (fs_stored store (aw_blocks w') t) m (content (rq_Body r))
    \<and> getHeader rs ''ETag'' = m_etag m"
proof -
  let ?e = "handler_env e" and ?w = "count_metric StartRequest w"
  have "rq_Method r \<noteq> ''OPTIONS''" by (simp add: assms(7))
  from routed [OF _ this assms(8)] assms(6) obtain rs1 where rs1: "rs_Status rs1 = None" "rs_Body rs1 = []"
    "ServeHTTP S e r w = (case routeObject S ?e r t b k rs1 ?w of
       (rs, w1) \<Rightarrow> (rs, count_metric (FinishRequest (rs_Recorded rs)) w1))"
    unfolding object_request_def by blast
  obtain rs2 w2 where p: "putObject S ?e r t b k rs1 ?w = (rs2, w2)" by fastforce
  with rs1(3) assms(6,7,11) have eq: "rs = rs2" "w' = count_metric (FinishRequest (rs_Recorded rs2)) w2"
    by (simp_all add: routeObject_def object_request_def)
  from putObject_stored [OF p rs1(1) assms(12) [unfolded eq(1)], unfolded objects_of_metric] obtain body opts o0 o1 m where put:
    "Put (sv_objects S) (call ?e 0) t b k body opts o0 = (Inr m, o1)"
    "w_meta o0 = aw_meta w" "w_blocks o0 = aw_blocks w" "aw_meta w2 = w_meta o1" "aw_blocks w2 = w_blocks o1"
    "getHeader rs2 ''ETag'' = m_etag m" "reader_err body = None \<longrightarrow> content body = content (rq_Body r)"
    by (elim exE conjE) (rule that)
  have ok: "world_ok (sv_objects S) store o0" using assms(3) world_ok_stores [of o0 "objects_of w"] put(2,3) by simp
  have "nul_free b" using assms(6) bucket_nul_free by (simp add: object_request_def keyed_request_def)
  with assms(4) have key: "good_key (t, b, k)" by (simp add: good_key_def)
  from ids_new_here [OF ids_new_call [OF ids_new_call [OF ids_new_call [OF ids_new_call [OF assms(5)]]]]]
  have fresh: "put_fresh (call ?e 0) t b k o0"
    by (simp add: put_fresh_def mem_fresh_def empty_manifest_def put(2))
  have "fastcdc_library (svc_fc (sv_objects S)) fcuts" using assms(1,2) by simp
  from Put_read [OF this put(1)] put(7) have c: "content body = content (rq_Body r)" by simp
  have coll: "no_collision (sv_objects S) store fcuts (content body) o0"
    using assms(9) put(2,3) c by (simp add: no_collision_def)
  have "int (length (content body)) \<le> max_int64" using assms(10) c by simp
  from file_Put [OF assms(1,2) ok key fresh coll this put(1)]
  have "world_ok (sv_objects S) store o1" "mem_committed (w_meta o1) (t, b, k) = Some m" "reader_err body = None"
    "holds_content (sv_objects S) (fs_stored store (w_blocks o1) t) m (content body)" by auto
  with put eq world_ok_stores [of "objects_of w'" o1] show ?thesis by auto
qed

lemma get_object_request:
  assumes "fastcdc_library fc fcuts" "sv_objects S = fileService fc sha md sp store cpu"
    and "world_ok (sv_objects S) store (objects_of w)" "nul_free t" "quiet e"
    and "object_request S r b k" "rq_Method r = ''GET''" "caller S (call (call e 1) 1) r = Some t"
    and "mem_committed (aw_meta w) (t, b, k) = Some m"
    and "holds_content (sv_objects S) (fs_stored store (aw_blocks w) t) m c"
  shows "\<exists>rs' w'. ServeHTTP S e r w = (rs', w') \<and>
    (let h = trim_space (header_get (rq_Header r) ''Range'') in
     if h = [] then rs_Status rs' = Some 200 \<and> rs_Body rs' = [Raw c] \<and> getHeader rs' ''ETag'' = m_etag m
       \<and> getHeader rs' ''Content-Length'' = format_int (int (length c))
     else case parseSingleRange h (int (length c)) of
       Inl x \<Rightarrow> rs_Status rs' = Some 416
     | Inr br \<Rightarrow> rs_Status rs' = Some 206 \<and> rs_Body rs' = [Raw (drop (nat (Start br)) (take (nat (End br + 1)) c))])"
proof -
  let ?e = "handler_env e" and ?w = "count_metric StartRequest w"
  have "rq_Method r \<noteq> ''OPTIONS''" by (simp add: assms(7))
  from routed [OF _ this assms(8)] assms(6) obtain rs1 where rs1: "rs_Status rs1 = None" "rs_Body rs1 = []"
    "ServeHTTP S e r w = (case routeObject S ?e r t b k rs1 ?w of
       (rs, w1) \<Rightarrow> (rs, count_metric (FinishRequest (rs_Recorded rs)) w1))"
    unfolding object_request_def by blast
  with assms(6,7) have eq: "ServeHTTP S e r w = (case getObject S ?e r t b k rs1 ?w of
       (rs, w1) \<Rightarrow> (rs, count_metric (FinishRequest (rs_Recorded rs)) w1))"
    by (simp add: routeObject_def object_request_def)
  have "nul_free b" using assms(6) bucket_nul_free by (simp add: object_request_def keyed_request_def)
  with assms(4) have key: "good_key (t, b, k)" by (simp add: good_key_def)
  have ok: "world_ok (sv_objects S) store (objects_of ?w)"
    using assms(3) world_ok_stores [of "objects_of ?w" "objects_of w"] by simp
  have hc: "holds_content (sv_objects S) (fs_stored store (w_blocks (objects_of ?w)) t) m c"
    and cm: "mem_committed (w_meta (objects_of ?w)) (t, b, k) = Some m" using assms(9,10) by simp_all
  note reads = file_open [OF assms(1,2) ok key hc cm]
  have sz: "m_size m = int (length c)" "in_int64 (int (length c))"
    using assms(10) by (auto simp: holds_content_def in_int64_def min_int64_def)
  have q: "quiet ?e" using assms(5) by simp
  define h where "h = trim_space (header_get (rq_Header r) ''Range'')"
  show ?thesis
  proof (cases "h = []")
    case True
    from reads(3) [of "call ?e 1"] q obtain rd where
      rd: "OpenObject (sv_objects S) (call ?e 1) t b k (objects_of ?w) = Inr (m, rd)" "reader_err rd = None" by auto
    with reads(1) [OF rd] getObject_whole [OF rd(1) q _ assms(7) rs1(1,2)] True sz(1) show ?thesis
      unfolding eq by (fastforce simp: h_def)
  next
    case False
    have st: "Stat (sv_objects S) (call (call ?e 0) 0) t b k (objects_of ?w) = Inr m"
      using mem_get_quiet [OF _ cm] ok q by (simp add: Stat_def assms(2) memory_ops_def world_ok_def)
    show ?thesis
    proof (cases "parseSingleRange h (int (length c))")
      case (Inl x)
      with getObject_unsatisfiable [OF st h_def [symmetric] False _ rs1(1)] sz(1) False show ?thesis
        unfolding eq by (fastforce simp: h_def [symmetric])
    next
      case (Inr br)
      from parse_range_bounds [OF sz(2) Inr] have r: "range_ok (Some br)"
        using sz(2) by (simp add: range_ok_def in_int64_def)
      from reads(4) [OF r, of "call (call ?e 0) 2"] q obtain rd where
        rd: "OpenRange (sv_objects S) (call (call ?e 0) 2) t b k br (objects_of ?w) = Inr (m, rd)" "reader_err rd = None"
        by auto
      with reads(2) [OF r rd] getObject_range [OF rd(1) q st h_def [symmetric] False _ assms(7) rs1(1,2)] sz(1) Inr False
      show ?thesis
        unfolding eq by (fastforce simp: h_def [symmetric] part_def)
    qed
  qed
qed

section \<open>The concrete server\<close>

lemma toy_object_request: "object_request toy_server (toy_http m h bd) ''bkt'' ''k''"
  by (simp add: object_request_def keyed_request_def parseS3Target_def parseS3Path_def trim_prefix_def has_prefix_def cut_at_def
      PathUnescape_def key_path_def validateBucketName_def is_ipv4_def lower_alnum_def
       validateObjectKey_def valid_utf8_def rune_segments_ascii query_get_def rq_Query_def
      parse_query_def max_query_params_def lookup_or_def deltaAPIPrefix_def)

lemma toy_put_stored: "\<exists>m o1. Put svc_a env0 ''t'' ''bkt'' ''k'' body_a [Some (WithHeaders env0 [])] world_0 = (Inr m, o1)"
proof -
  have "\<not> isl (fst (Put svc_a env0 ''t'' ''bkt'' ''k'' body_a [Some (WithHeaders env0 [])] world_0))" by code_simp
  then show ?thesis
    by (cases "Put svc_a env0 ''t'' ''bkt'' ''k'' body_a [Some (WithHeaders env0 [])] world_0"; case_tac a) auto
qed

lemma toy_put_200: "\<exists>rs w. ServeHTTP toy_server env0 (toy_http ''PUT'' [] body_a) toy_world = (rs, w) \<and> rs_Status rs = Some 200"
proof -
  from toy_put_stored obtain m o1 where
    m: "Put svc_a env0 ''t'' ''bkt'' ''k'' body_a [Some (WithHeaders env0 [])] world_0 = (Inr m, o1)" by blast
  obtain rs1 where rs1: "rs_Status rs1 = None"
    "ServeHTTP toy_server env0 (toy_http ''PUT'' [] body_a) toy_world =
      (case routeObject toy_server env0 (toy_http ''PUT'' [] body_a) ''t'' ''bkt'' ''k'' rs1 (count_metric StartRequest toy_world) of
       (rs, w1) \<Rightarrow> (rs, count_metric (FinishRequest (rs_Recorded rs)) w1))"
    using routed [OF toy_object_request [unfolded object_request_def, THEN conjunct1] _ toy_caller, of "''PUT''" "[]" body_a env0] by auto
  have w: "objects_of (count_metric StartUpload (count_metric StartRequest toy_world\<lparr>aw_inflight := i\<rparr>)) = world_0" for i
    by (simp add: objects_of_def count_metric_def toy_world_def world_0_def StartUpload_def StartRequest_def)
  have h: "extractObjectHeaders env0 [] = []"
    by (simp add: extractObjectHeaders_def allowed_headers_def header_get_def header_values_def lookup_or_def)
  have "\<not> aw_draining (count_metric StartRequest toy_world)" by (simp add: count_metric_def toy_world_def)
  then have "\<exists>rs w. putObject toy_server env0 (toy_http ''PUT'' [] body_a) ''t'' ''bkt'' ''k'' rs1 (count_metric StartRequest toy_world)
      = (rs, w) \<and> rs_Status rs = Some 200"
    using m rs1(1) by (simp add: putObject_def with_upload_def beginUpload_def putObjectBody_def limitedBody_def w h)
  with rs1(2) show ?thesis
    by (auto simp: routeObject_def query_get_def rq_Query_def parse_query_def lookup_or_def split: prod.splits)
qed

lemma toy_objects: "objects_of toy_world = world_0"
  by (simp add: objects_of_def toy_world_def world_0_def)

lemma toy_put_side:
  "sv_objects toy_server = fileService builtinAsLibrary toy_sha toy_sha
     \<lparr>minSize = 1, avgSize = 2, maxSize = 2, smallFileThreshold = 8, engine = EngineBuiltin, mask = 1\<rparr> store_plain None"
  "no_collision (sv_objects toy_server) store_plain (\<lambda>mn av mx. cdcChunks (builtinSizes mn av mx))
      (content (rq_Body (toy_http ''PUT'' [] body_a))) (objects_of toy_world)"
  "nul_free ''t''" "int (length (content (rq_Body (toy_http ''PUT'' [] body_a)))) \<le> max_int64"
  "content (rq_Body (toy_http ''PUT'' [] body_a)) = [1, 2, 3]"
  "world_ok (sv_objects toy_server) store_plain (objects_of toy_world)"
  using put_a_side(2) world_0_ok by (simp_all add: toy_objects svc_a_def nul_free_def body_a_def max_int64_def)

section \<open>Properties\<close>

text \<open>C35: What a client uploads over HTTP is what it gets back. When a \<open>PUT\<close> of an object was answered
  with 200, whatever failed on the way, then an undisturbed \<open>GET\<close> of the same object for the same
  tenant is answered with 200, exactly the uploaded body, its length and the ETag of the \<open>PUT\<close>
  response.\<close>

theorem http_put_then_get:
  assumes "fastcdc_library fc fcuts" "sv_objects S = fileService fc sha md sp store cpu"
    and "world_ok (sv_objects S) store (objects_of w)" "nul_free t" "ids_new e (aw_meta w)"
    and "object_request S r b k" "rq_Method r = ''PUT''" "caller S (call (call e 1) 1) r = Some t"
    and "no_collision (sv_objects S) store fcuts (content (rq_Body r)) (objects_of w)"
    and "int (length (content (rq_Body r))) \<le> max_int64"
    and "ServeHTTP S e r w = (rs, w')" "rs_Status rs = Some 200"
    and "object_request S g b k" "rq_Method g = ''GET''" "caller S (call (call e' 1) 1) g = Some t"
    and "quiet e'" "trim_space (header_get (rq_Header g) ''Range'') = []"
  shows "\<exists>rs' w''. ServeHTTP S e' g w' = (rs', w'') \<and> rs_Status rs' = Some 200
    \<and> rs_Body rs' = [Raw (content (rq_Body r))] \<and> getHeader rs' ''ETag'' = getHeader rs ''ETag''
    \<and> getHeader rs' ''Content-Length'' = format_int (int (length (content (rq_Body r))))"
proof -
  from put_object_request [OF assms(1-12)] obtain m where
    m: "world_ok (sv_objects S) store (objects_of w')" "mem_committed (aw_meta w') (t, b, k) = Some m"
      "holds_content (sv_objects S) (fs_stored store (aw_blocks w') t) m (content (rq_Body r))"
      "getHeader rs ''ETag'' = m_etag m" by blast
  from get_object_request [OF assms(1,2) m(1) assms(4,16,13,14,15) m(2,3)] assms(17) m(4) show ?thesis by simp
qed

theorem http_put_then_get_witness:
  "\<exists>rs w rs' w'. ServeHTTP toy_server env0 (toy_http ''PUT'' [] body_a) toy_world = (rs, w) \<and> rs_Status rs = Some 200
    \<and> ServeHTTP toy_server env0 (toy_http ''GET'' [] []) w = (rs', w') \<and> rs_Body rs' = [Raw [1, 2, 3]]"
proof -
  from toy_put_200 obtain rs w where
    p: "ServeHTTP toy_server env0 (toy_http ''PUT'' [] body_a) toy_world = (rs, w)" "rs_Status rs = Some 200" by blast
  have h: "trim_space (header_get (rq_Header (toy_http ''GET'' [] [])) ''Range'') = []"
    by (simp add: header_get_def header_values_def lookup_or_def)
  from http_put_then_get [OF fallback_lib toy_put_side(1) toy_put_side(6) toy_put_side(3) toy_ids_new toy_object_request toy_http_fields(1)
      toy_caller toy_put_side(2,4) p toy_object_request toy_http_fields(1) toy_caller quiet_env0 h]
  obtain rs' w' where "ServeHTTP toy_server env0 (toy_http ''GET'' [] []) w = (rs', w')" "rs_Body rs' = [Raw [1, 2, 3]]"
    unfolding toy_put_side(5) by blast
  with p show ?thesis by blast
qed



end
