(* ===== verification/ApiMultipart.thy ===== *)
theory ApiMultipart
  imports ApiObjects
begin

text \<open>
  Completing a multipart upload from end to end: the object that appears in the store is the
  concatenation of the listed parts. The manager's half (what \<open>Open\<close> delivers) and the object
  service's half (what \<open>Put\<close> stores) meet in \<open>storeCompleted\<close>.
\<close>

section \<open>The second half of a completion\<close>

lemma storeCompleted_200:
  assumes "storeCompleted S e t u s order rs w = (ok, rs', w')" "rs_Status rs = None" "rs_Status rs' = Some 200"
  shows "\<exists>v s' rd opts m o1 v2. mpOpen (sv_multipart S) (call e 0) t u order (uploads_of w) = (Inr (s', rd), v)
    \<and> Put (sv_objects S) (call e 1) t (up_Bucket s) (up_Key s) rd opts (objects_of (with_uploads w v)) = (Inr m, o1)
    \<and> Abort (sv_multipart S) (call e 4) t u (uploads_of (with_objects (with_uploads w v) o1)) = (None, v2)
    \<and> w' = with_uploads (with_objects (with_uploads w v) o1) v2"
proof -
  have bad: "rs_Status (writeInternalError x rs) \<noteq> Some 200" for x
    using writeInternalError_status [OF assms(2), of x] by auto
  obtain r v where o: "mpOpen (sv_multipart S) (call e 0) t u order (uploads_of w) = (r, v)" by fastforce
  with assms bad obtain s' rd where r: "r = Inr (s', rd)" by (cases r) (auto simp: storeCompleted_def)
  let ?o = "[Some (WithHeaders (call e 2) (up_Headers s))]"
  obtain p o1 where p: "Put (sv_objects S) (call e 1) t (up_Bucket s) (up_Key s) rd ?o (objects_of (with_uploads w v)) = (p, o1)"
    by fastforce
  with assms bad o r obtain m where m: "p = Inr m"
    by (cases p) (auto simp: storeCompleted_def Let_def split: if_splits)
  have c: "closeParts (call e 3) 0 (length order) None = None"
    using assms bad o r p m by (auto simp: storeCompleted_def Let_def split: option.splits)
  obtain a v2 where a: "Abort (sv_multipart S) (call e 4) t u (uploads_of (with_objects (with_uploads w v) o1)) = (a, v2)"
    by fastforce
  with assms(1,3) bad o r p m c have "a = None" "w' = with_uploads (with_objects (with_uploads w v) o1) v2"
    by (auto simp: storeCompleted_def CompleteCleanup_def Let_def split: option.splits)
  with o r p m a show ?thesis by blast
qed

lemma with_upload_200:
  assumes "with_upload body rs w = (rs', w')" "rs_Status rs = None" "rs_Status rs' = Some 200"
  shows "\<exists>ok w2. body rs (count_metric StartUpload (w\<lparr>aw_inflight := aw_inflight w + 1\<rparr>)) = (ok, rs', w2)
    \<and> w' = endUpload ok w2"
proof -
  have "\<not> aw_draining w" using assms by (auto simp: with_upload_def beginUpload_def)
  with assms(1) show ?thesis
    by (cases "body rs (count_metric StartUpload (w\<lparr>aw_inflight := aw_inflight w + 1\<rparr>))")
      (simp add: with_upload_def beginUpload_def)
qed

lemma completeMultipart_200:
  assumes "completeMultipart S e r t rs w = (rs', w')" "rs_Status rs = None" "rs_Status rs' = Some 200"
    and "0 < sv_maxCompleteXML S"
    and "sv_decodeXML S (max_bytes_reader (nat (sv_maxCompleteXML S)) (rq_Body r)) = Inr \<lparr>cu_Parts = cps\<rparr>"
  shows "\<exists>w1 s v order ok w2. same_stores w w1
    \<and> mpGet (sv_multipart S) (call e 0) t (query_get r ''uploadId'') (uploads_of w1) = (Inr s, v)
    \<and> validateCompletedParts (up_Parts s) cps = Inr order
    \<and> storeCompleted S (call e 1) t (query_get r ''uploadId'') s order rs (with_uploads w1 v) = (ok, rs', w2)
    \<and> w' = endUpload ok w2"
proof -
  let ?u = "query_get r ''uploadId''"
  define w1 where "w1 = count_metric StartUpload (w\<lparr>aw_inflight := aw_inflight w + 1\<rparr>)"
  have same: "same_stores w w1" by (simp add: w1_def same_stores_def count_metric_def)
  have bad: "rs_Status (writeInternalError x rs) \<noteq> Some 200" for x
    using writeInternalError_status [OF assms(2), of x] by auto
  from with_upload_200 [OF assms(1) [unfolded completeMultipart_def] assms(2,3)] obtain ok w2 where
    b: "completeMultipartBody S e r t rs w1 = (ok, rs', w2)" "w' = endUpload ok w2"
    by (auto simp: w1_def)
  have id: "validateUploadID ?u"
    using b(1) assms(2,3) by (auto simp: completeMultipartBody_def no_such_upload_def Let_def split: if_splits)
  obtain body rs2 w3 where l: "limitedBody r (sv_maxCompleteXML S) rs w1 = (body, rs2, w3)" by (cases rule: prod_cases3)
  with b(1) id assms(2,3,4) have lb: "body = Some (max_bytes_reader (nat (sv_maxCompleteXML S)) (rq_Body r))"
    "rs2 = rs" "w3 = w1" by (auto simp: completeMultipartBody_def limitedBody_def Let_def split: if_splits)
  obtain g v where g: "mpGet (sv_multipart S) (call e 0) t ?u (uploads_of w1) = (g, v)" by fastforce
  have step: "(case g of
        Inl x \<Rightarrow> (False, (if errors_is x ErrUploadNotFound then no_such_upload rs else writeInternalError x rs), with_uploads w1 v)
      | Inr session \<Rightarrow> (case validateCompletedParts (up_Parts session) cps of
           Inl x \<Rightarrow> (False, writeError (se_Status x) (se_Code x) (se_Message x) rs, with_uploads w1 v)
         | Inr order \<Rightarrow> storeCompleted S (call e 1) t ?u session order rs (with_uploads w1 v))) = (ok, rs', w2)"
    using b(1) id l lb assms(5) g by (auto simp: completeMultipartBody_def Let_def split: sum.splits)
  with bad assms(2,3) obtain s where s: "g = Inr s"
    by (cases g) (auto simp: no_such_upload_def split: if_splits)
  obtain order where v: "validateCompletedParts (up_Parts s) cps = Inr order"
  proof (cases "validateCompletedParts (up_Parts s) cps")
    case (Inl x)
    have "se_Status x = 400" using Inl completedLoop_status [of "up_Parts s" "[]" 0 cps x]
      by (auto simp: validateCompletedParts_def split: if_splits)
    with Inl step s assms(2,3) show ?thesis by auto
  qed (use that in blast)
  from step s v same g b(2) show ?thesis by fastforce
qed

section \<open>The completed object\<close>

definition upload_request :: "('m, 'b, 'c) api_server \<Rightarrow> http_request \<Rightarrow> string \<Rightarrow> bool" where
  "upload_request S r u \<longleftrightarrow> (\<exists>b k. keyed_request S r b k) \<and> query_get r ''uploadId'' = u \<and> u \<noteq> []
     \<and> \<not> hasSubresource r ''uploads''"

lemma loaded_etag:
  assumes "memory_server S" "mp_ok sessions_named mem_sessions (sv_multipart S) u'" "nul_free t"
    and "intact (mem_sessions (mw_meta u')) (sv_multipart S) (mw_files u')"
    and "map_of (mw_uploads u') (sessionKey t u) = Some s" "map_of (up_Parts s) n = Some p"
  shows "pi_ETag p = part_etag (sv_multipart S) (part_bytes (sv_multipart S) u' t u n)"
proof -
  obtain cap where m: "multipart_manager memory_ops sessions_named mem_sessions (sv_multipart S) cap"
    by (rule memory_manager [OF assms(1)])
  from multipart_manager.part_files [OF m assms(2-6)] show ?thesis by simp
qed

lemma complete_stores:
  assumes "fastcdc_library fc fcuts" "sv_objects S = fileService fc sha md sp store cpu" "memory_server S"
    and "world_ok (sv_objects S) store (objects_of w)" "api_ok S w" "nul_free t" "ids_new e (aw_meta w)"
    and "intact (mem_sessions (aw_meta w)) (sv_multipart S) (aw_files w)"
    and "no_collision (sv_objects S) store fcuts
      (concat (map (part_bytes (sv_multipart S) (uploads_of w) t u) order)) (objects_of w)"
    and "int (length (concat (map (part_bytes (sv_multipart S) (uploads_of w) t u) order))) \<le> max_int64"
    and "nul_free (up_Bucket s)" "order \<noteq> []"
    and "storeCompleted S e t u s order rs w = (ok, rs', w')" "rs_Status rs = None" "rs_Status rs' = Some 200"
  shows "\<exists>m. world_ok (sv_objects S) store (objects_of w')
    \<and> mem_committed (aw_meta w') (t, up_Bucket s, up_Key s) = Some m
    \<and> holds_content (sv_objects S) (fs_stored store (aw_blocks w') t) m
        (concat (map (part_bytes (sv_multipart S) (uploads_of w) t u) order))"
proof -
  let ?c = "concat (map (part_bytes (sv_multipart S) (uploads_of w) t u) order)"
  from storeCompleted_200 [OF assms(13-15)] obtain v s' rd opts m o1 v2 where
    o: "mpOpen (sv_multipart S) (call e 0) t u order (uploads_of w) = (Inr (s', rd), v)" and
    p: "Put (sv_objects S) (call e 1) t (up_Bucket s) (up_Key s) rd opts (objects_of (with_uploads w v)) = (Inr m, o1)" and
    a: "Abort (sv_multipart S) (call e 4) t u (uploads_of (with_objects (with_uploads w v) o1)) = (None, v2)" and
    w': "w' = with_uploads (with_objects (with_uploads w v) o1) v2"
    by blast
  let ?w1 = "with_uploads w v" let ?w2 = "with_objects ?w1 o1"
  obtain cap where mg: "multipart_manager memory_ops sessions_named mem_sessions (sv_multipart S) cap"
    "shared_manager memory_ops store_inv mem_committed mem_pending mem_fresh sessions_named mem_sessions (sv_multipart S) cap"
    by (rule memory_manager [OF assms(3)])
  from loading_step(2) [OF assms(3,5,6) o] have ap1: "api_ok S ?w1" and m1: "aw_meta ?w1 = aw_meta w"
    by (auto simp: good_step_def)
  have b1: "aw_blocks ?w1 = aw_blocks w" by (simp add: with_uploads_def)
  have "fastcdc_library (svc_fc (sv_objects S)) fcuts" using assms(1,2) by simp
  from Put_read [OF this p] have err: "reader_err rd = None" .
  have "mp_ok sessions_named mem_sessions (sv_multipart S) (uploads_of w)" using assms(5) by (simp add: api_ok_def)
  from multipart_manager.open_content [OF mg(1) this assms(6) _ o err assms(12)] assms(8)
  have c: "content rd = ?c" by (simp add: uploads_of_def)
  have ok1: "world_ok (sv_objects S) store (objects_of ?w1)"
    using assms(4) world_ok_stores [of "objects_of ?w1" "objects_of w"] m1 b1 by simp
  have key: "good_key (t, up_Bucket s, up_Key s)" using assms(6,11) by (simp add: good_key_def)
  have fresh: "put_fresh (call e 1) t (up_Bucket s) (up_Key s) (objects_of ?w1)"
    using ids_new_here [OF ids_new_call [OF ids_new_call [OF assms(7)]]] m1
    by (simp add: put_fresh_def mem_fresh_def empty_manifest_def)
  have coll: "no_collision (sv_objects S) store fcuts (content rd) (objects_of ?w1)"
    using assms(9) c b1 by (simp add: no_collision_def)
  have len: "int (length (content rd)) \<le> max_int64" using assms(10) c by simp
  from file_Put [OF assms(1,2) ok1 key fresh coll len p] err c
  have st: "world_ok (sv_objects S) store o1" "mem_committed (w_meta o1) (t, up_Bucket s, up_Key s) = Some m"
    "holds_content (sv_objects S) (fs_stored store (w_blocks o1) t) m ?c" by auto
  from put_step [OF ap1 _ assms(6,11) _ p] ids_new_call [OF assms(7)] m1 assms(3)
  have ap2: "api_ok S ?w2" by (simp add: good_step_def memory_server_def)
  then have "store_inv (mw_meta (uploads_of ?w2))"
    "mp_ok sessions_named mem_sessions (sv_multipart S) (uploads_of ?w2)" by (simp_all add: api_ok_def)
  from shared_manager.abort_frame [OF mg(2) this assms(6) a]
  have fr: "mem_committed (mw_meta v2) = mem_committed (w_meta o1)" "store_inv (mw_meta v2)"
    unfolding mem_shared_mgr.tenant_frame_def by simp_all
  have "w_meta (objects_of w') = mw_meta v2" "w_blocks (objects_of w') = w_blocks o1"
    by (simp_all add: w' objects_of_def with_uploads_def with_objects_def)
  with st(1) fr have "world_ok (sv_objects S) store (objects_of w')" by (simp add: world_ok_def)
  moreover have "aw_meta w' = mw_meta v2" "aw_blocks w' = w_blocks o1"
    by (simp_all add: w' with_uploads_def with_objects_def)
  ultimately show ?thesis using st fr by auto
qed

lemma routeObject_complete:
  "upload_request S r u \<Longrightarrow> rq_Method r = ''POST'' \<Longrightarrow> routeObject S e r t b k rs w = completeMultipart S e r t rs w"
  by (simp add: routeObject_def upload_request_def Let_def)

text \<open>The manager's half of a completion: the session that is read, its bucket and key in the store,
  and ETags that are those of the stored bytes.\<close>

lemma completion_session:
  assumes "memory_server S" "api_ok S w" "nul_free t" "intact (mem_sessions (aw_meta w)) (sv_multipart S) (aw_files w)"
    and "mpGet (sv_multipart S) e t u (uploads_of w) = (Inr s, v)"
  shows "good_step S t w (with_uploads w v) \<and> aw_meta (with_uploads w v) = aw_meta w
    \<and> aw_files (with_uploads w v) = aw_files w \<and> aw_blocks (with_uploads w v) = aw_blocks w
    \<and> (\<exists>ms. mem_sessions (aw_meta w) (t, u) = Some ms \<and> ms_bucket ms = up_Bucket s \<and> ms_key ms = up_Key s)
    \<and> (\<forall>n p. map_of (up_Parts s) n = Some p \<longrightarrow>
        pi_ETag p = part_etag (sv_multipart S) (part_bytes (sv_multipart S) (uploads_of w) t u n))"
proof -
  from assms(5) have se: "mpSession (sv_multipart S) (call e 1) t u (uploads_of w) = (Inr s, v)"
    by (auto simp: mpGet_def split: option.splits)
  obtain cap where mg: "multipart_manager memory_ops sessions_named mem_sessions (sv_multipart S) cap"
    by (rule memory_manager [OF assms(1)])
  have "mp_ok sessions_named mem_sessions (sv_multipart S) (uploads_of w)" using assms(2) by (simp add: api_ok_def)
  from multipart_manager.mpSession_ok [OF mg this assms(3) se]
  have v: "mp_ok sessions_named mem_sessions (sv_multipart S) v" "mw_files v = aw_files w" "mw_meta v = aw_meta w"
    "map_of (mw_uploads v) (sessionKey t u) = Some s" by (simp_all add: uploads_of_def)
  have "mirrored (mem_sessions (aw_meta w)) (sv_multipart S) (mw_uploads v)" using v(1,3) by (simp add: mp_ok_def)
  from mirrored_at(3) [OF this assms(3) v(4)] obtain ms where
    ms: "mem_sessions (aw_meta w) (t, u) = Some ms" "same_upload s (sessionFromMetadata (sv_multipart S) ms)" by blast
  from arg_cong [OF ms(2) [unfolded same_upload_def], of up_Bucket] arg_cong [OF ms(2) [unfolded same_upload_def], of up_Key]
  have "ms_bucket ms = up_Bucket s" "ms_key ms = up_Key s" by (simp_all add: sessionFromMetadata_def)
  moreover have "part_bytes (sv_multipart S) v t u = part_bytes (sv_multipart S) (uploads_of w) t u"
    by (simp add: part_bytes_def v(2) uploads_of_def fun_eq_iff)
  ultimately show ?thesis
    using loading_step(3) [OF assms(1-3,5)] loaded_etag [OF assms(1) v(1) assms(3) _ v(4)] assms(4) v(2,3) ms(1)
    by (auto simp: with_uploads_def)
qed

lemma completeMultipart_stores:
  assumes "fastcdc_library fc fcuts" "sv_objects S = fileService fc sha md sp store cpu" "memory_server S"
    and "world_ok (sv_objects S) store (objects_of w)" "api_ok S w" "nul_free t" "ids_new e (aw_meta w)"
    and "intact (mem_sessions (aw_meta w)) (sv_multipart S) (aw_files w)"
    and "query_get r ''uploadId'' = u" "0 < sv_maxCompleteXML S"
    and "sv_decodeXML S (max_bytes_reader (nat (sv_maxCompleteXML S)) (rq_Body r)) = Inr \<lparr>cu_Parts = cps\<rparr>"
    and "c = concat (map (part_bytes (sv_multipart S) (uploads_of w) t u) (map cp_PartNumber cps))"
    and "no_collision (sv_objects S) store fcuts c (objects_of w)" "int (length c) \<le> max_int64"
    and "completeMultipart S e r t rs w = (rs', w')" "rs_Status rs = None" "rs_Status rs' = Some 200"
  shows "\<exists>ms m. sorted_wrt (<) (map cp_PartNumber cps)
    \<and> (\<forall>cp \<in> set cps. normalizeETag (cp_ETag cp) = normalizeETag (part_etag (sv_multipart S)
          (part_bytes (sv_multipart S) (uploads_of w) t u (cp_PartNumber cp))))
    \<and> mem_sessions (aw_meta w) (t, u) = Some ms \<and> world_ok (sv_objects S) store (objects_of w')
    \<and> mem_committed (aw_meta w') (t, ms_bucket ms, ms_key ms) = Some m
    \<and> holds_content (sv_objects S) (fs_stored store (aw_blocks w') t) m c"
proof -
  let ?m = "sv_multipart S"
  from completeMultipart_200 [OF assms(15-17,10,11)] obtain w1 s v order ok w3 where
    same: "same_stores w w1" and g: "mpGet ?m (call e 0) t u (uploads_of w1) = (Inr s, v)" and
    val: "validateCompletedParts (up_Parts s) cps = Inr order" and
    st: "storeCompleted S (call e 1) t u s order rs (with_uploads w1 v) = (ok, rs', w3)" and w': "w' = endUpload ok w3"
    unfolding assms(9) by blast
  have eq1: "aw_meta w1 = aw_meta w" "aw_blocks w1 = aw_blocks w" "aw_files w1 = aw_files w"
    using same by (simp_all add: same_stores_def)
  have ap1: "api_ok S w1" using same_stores_ok [OF same] assms(5) by blast
  from val completedLoop_exact [of "[]" 0 "up_Parts s" cps order]
  have order: "order = map cp_PartNumber cps" "sorted_wrt (<) order" "order \<noteq> []"
    and listed: "\<forall>cp \<in> set cps. part_listed (up_Parts s) cp"
    by (auto simp: validateCompletedParts_def split: if_splits)
  have pb: "aw_files w2 = aw_files w \<Longrightarrow> part_bytes ?m (uploads_of w2) t u = part_bytes ?m (uploads_of w) t u"
    for w2 :: "(memory_store, 'c, 'd) api_world" by (simp add: part_bytes_def uploads_of_def fun_eq_iff)
  have "intact (mem_sessions (aw_meta w1)) ?m (aw_files w1)" using assms(8) eq1 by simp
  from completion_session [OF assms(3) ap1 assms(6) this g] pb [OF eq1(3)] obtain ms where
    l: "api_ok S (with_uploads w1 v)" "aw_meta (with_uploads w1 v) = aw_meta w" "aw_files (with_uploads w1 v) = aw_files w"
      "aw_blocks (with_uploads w1 v) = aw_blocks w" and
    ms: "mem_sessions (aw_meta w) (t, u) = Some ms" "ms_bucket ms = up_Bucket s" "ms_key ms = up_Key s" and
    tags: "\<forall>n p. map_of (up_Parts s) n = Some p \<longrightarrow> pi_ETag p = part_etag ?m (part_bytes ?m (uploads_of w) t u n)"
    unfolding eq1 good_step_def by metis
  have wk: "world_ok (sv_objects S) store (objects_of (with_uploads w1 v))"
    using assms(4) world_ok_stores [of "objects_of (with_uploads w1 v)" "objects_of w"] l(2,4) by simp
  have new: "ids_new (call e 1) (aw_meta (with_uploads w1 v))" using l(2) ids_new_call [OF assms(7)] by simp
  have int: "intact (mem_sessions (aw_meta (with_uploads w1 v))) ?m (aw_files (with_uploads w1 v))"
    using assms(8) l(2,3) by simp
  have coll: "no_collision (sv_objects S) store fcuts
      (concat (map (part_bytes ?m (uploads_of (with_uploads w1 v)) t u) order)) (objects_of (with_uploads w1 v))"
    "int (length (concat (map (part_bytes ?m (uploads_of (with_uploads w1 v)) t u) order))) \<le> max_int64"
    using assms(12-14) order(1) pb [OF l(3)] l(4) by (simp_all add: no_collision_def)
  have nf: "nul_free (up_Bucket s)" using assms(5) ms unfolding api_ok_def buckets_plain_def by metis
  from complete_stores [OF assms(1-3) wk l(1) assms(6) new int coll nf order(3) st assms(16,17)] obtain m where
    m: "world_ok (sv_objects S) store (objects_of w3)" "mem_committed (aw_meta w3) (t, up_Bucket s, up_Key s) = Some m"
      "holds_content (sv_objects S) (fs_stored store (aw_blocks w3) t) m c"
    unfolding pb [OF l(3)] order(1) assms(12) by blast
  have "aw_meta w' = aw_meta w3" "aw_blocks w' = aw_blocks w3"
    by (simp_all add: w' endUpload_def count_metric_def Let_def)
  with m world_ok_stores [of "objects_of w'" "objects_of w3"] ms order listed tags show ?thesis
    by (fastforce simp: part_listed_def)
qed

section \<open>A concrete upload\<close>

text \<open>A server after an upload of one part; the next identifier is a new one.\<close>

definition env1 :: env where
  "env1 = env0\<lparr>random_id := (\<lambda>_. ''next'')\<rparr>"

definition up_server :: "(memory_store, file_tree, unit) api_server" where
  "up_server = NewServer (\<lambda>_. None) (\<lambda>_. Inr \<lparr>cu_Parts = [\<lparr>cp_PartNumber = 1, cp_ETag = ''010203''\<rparr>]\<rparr>)
     (\<lambda>_. Inl (ErrNew ''syntax'')) None svc_a toy_manager [Some (WithAnonymousTenant ''t'')]"

definition up_world :: "(memory_store, file_tree, unit) api_world" where
  "up_world = with_uploads toy_world (mp_history toy_manager toy_put mp_start)"

definition up_http :: http_request where
  "up_http = (toy_http ''POST'' [] [])\<lparr>rq_RawQuery := ''uploadId='' @ toy_id\<rparr>"

lemma call_env1 [simp]: "call env1 i = env1"
  by (simp add: call_def env1_def env0_def)

lemma quiet_env1 [simp]: "quiet env1"
  by (simp add: quiet_def env1_def env0_def)

lemma up_run:
  "case mpGet toy_manager env1 ''t'' toy_id (uploads_of up_world) of (r, v) \<Rightarrow> (case r of Inl _ \<Rightarrow> False
    | Inr s \<Rightarrow> map fst (up_Parts s) = [1] \<and> pi_ETag (snd (hd (up_Parts s))) = ''\"010203\"''
      \<and> up_Bucket s = ''bkt'' \<and> up_Key s = ''k'' \<and>
      (case mpOpen toy_manager env1 ''t'' toy_id [1] (uploads_of (with_uploads up_world v)) of (r2, v2) \<Rightarrow>
       (case r2 of Inl _ \<Rightarrow> False | Inr (s', rd) \<Rightarrow>
        (case Put svc_a env1 ''t'' (up_Bucket s) (up_Key s) rd [Some (WithHeaders env1 (up_Headers s))]
            (objects_of (with_uploads (with_uploads up_world v) v2)) of (r3, o1) \<Rightarrow>
         (case r3 of Inl _ \<Rightarrow> False | Inr m \<Rightarrow>
          fst (Abort toy_manager env1 ''t'' toy_id (uploads_of (with_objects (with_uploads (with_uploads up_world v) v2) o1))) = None)))))"
  by code_simp

lemma up_server_fields [simp]:
  "sv_objects up_server = svc_a" "sv_multipart up_server = toy_manager" "sv_auth up_server = None"
  "sv_anonymousTenant up_server = ''t''" "sv_virtualHosts up_server = []" "sv_maxCompleteXML up_server = 1024 * 1024"
  "sv_decodeXML up_server rd = Inr \<lparr>cu_Parts = [\<lparr>cp_PartNumber = 1, cp_ETag = ''010203''\<rparr>]\<rparr>"
  by (simp_all add: up_server_def NewServer_def WithAnonymousTenant_def)

lemma up_caller: "caller up_server e r = Some ''t''"
  by (simp add: caller_def authenticate_def Enabled_def)

lemma toy_id_text: "toy_id = ''69640000000000000000000000000000''"
  by code_simp

lemma up_http_fields:
  "query_get up_http ''uploadId'' = toy_id" "\<not> hasSubresource up_http ''uploads''" "rq_Method up_http = ''POST''"
proof -
  have "rq_Query up_http = [(''uploadId'', [toy_id])]"
    by (simp add: rq_Query_def up_http_def toy_http_def toy_id_text parse_query_def max_query_params_def cut_at_def
        QueryUnescape_def append_value_def lookup_or_def)
  then show "query_get up_http ''uploadId'' = toy_id" "\<not> hasSubresource up_http ''uploads''"
    by (simp_all add: query_get_def lookup_or_def hasSubresource_def) (simp add: up_http_def toy_id_text)
  show "rq_Method up_http = ''POST''" by (simp add: up_http_def)
qed

lemma up_request: "upload_request up_server up_http toy_id" "keyed_request up_server up_http ''bkt'' ''k''"
proof -
  have "keyed_request toy_server (toy_http ''POST'' [] []) ''bkt'' ''k''"
    using toy_object_request by (simp add: object_request_def)
  then show "keyed_request up_server up_http ''bkt'' ''k''"
    by (simp add: keyed_request_def up_http_def parseS3Target_def toy_http_def up_server_def toy_server_def NewServer_def
        WithAnonymousTenant_def)
  with up_http_fields show "upload_request up_server up_http toy_id"
    by (auto simp: upload_request_def toy_id_text)
qed

lemma inflight_irrelevant [simp]:
  "uploads_of (w\<lparr>aw_inflight := i\<rparr>) = uploads_of w" "objects_of (w\<lparr>aw_inflight := i\<rparr>) = objects_of w"
  "with_uploads (w\<lparr>aw_inflight := i\<rparr>) u = (with_uploads w u)\<lparr>aw_inflight := i\<rparr>"
  "with_objects (w\<lparr>aw_inflight := i\<rparr>) ob = (with_objects w ob)\<lparr>aw_inflight := i\<rparr>"
  by (simp_all add: uploads_of_def objects_of_def with_uploads_def with_objects_def)

lemma up_metrics: "count_metric StartUpload (w\<lparr>aw_inflight := i\<rparr>) = w\<lparr>aw_inflight := i\<rparr>"
  "count_metric StartRequest w = w" if "aw_metrics w = None"
  using that by (simp_all add: count_metric_def StartUpload_def StartRequest_def)

lemma up_200: "\<exists>rs w. ServeHTTP up_server env1 up_http up_world = (rs, w) \<and> rs_Status rs = Some 200"
proof -
  have wd: "aw_metrics up_world = None" "\<not> aw_draining up_world"
    by (simp_all add: up_world_def with_uploads_def toy_world_def)
  have "rq_Method up_http \<noteq> ''OPTIONS''" by (simp add: up_http_fields)
  from routed [OF up_request(2) this up_caller, where e = env1] obtain rs1 where rs1: "rs_Status rs1 = None"
    "\<forall>w. ServeHTTP up_server env1 up_http w = (case completeMultipart up_server env1 up_http ''t'' rs1 (count_metric StartRequest w) of
       (rs, w1) \<Rightarrow> (rs, count_metric (FinishRequest (rs_Recorded rs)) w1))"
    unfolding routeObject_complete [OF up_request(1) up_http_fields(3)] call_env1 by blast
  obtain r v where g: "mpGet toy_manager env1 ''t'' toy_id (uploads_of up_world) = (r, v)" by fastforce
  with up_run obtain s where s: "r = Inr s" "map fst (up_Parts s) = [1]" "pi_ETag (snd (hd (up_Parts s))) = ''\"010203\"''"
    by (cases r) auto
  from s(2,3) obtain p where p: "up_Parts s = [(1, p)]" "pi_ETag p = ''\"010203\"''"
    by (cases "up_Parts s") auto
  have "normalizeETag ''010203'' = ''010203''" "normalizeETag ''\"010203\"'' = ''010203''"
    by (simp_all add: normalizeETag_def trim_space_visible visible_def trim_byte_def trim_right_byte_def
        trim_left_byte_def to_lower_def lower_char_def)
  with p have val: "validateCompletedParts (up_Parts s) [\<lparr>cp_PartNumber = 1, cp_ETag = ''010203''\<rparr>] = Inr [1]"
    by (simp add: validateCompletedParts_def maxS3PartNumber_def)
  obtain r2 v2 where o: "mpOpen toy_manager env1 ''t'' toy_id [1] (uploads_of (with_uploads up_world v)) = (r2, v2)" by fastforce
  with up_run g s(1) obtain s' rd where r2: "r2 = Inr (s', rd)" by (cases r2) auto
  obtain r3 o1 where pu: "Put svc_a env1 ''t'' (up_Bucket s) (up_Key s) rd [Some (WithHeaders env1 (up_Headers s))]
            (objects_of (with_uploads (with_uploads up_world v) v2)) = (r3, o1)" by fastforce
  with up_run g s(1) o r2 obtain m where r3: "r3 = Inr m" by (cases r3) auto
  obtain a v3 where ab: "Abort toy_manager env1 ''t'' toy_id (uploads_of (with_objects (with_uploads (with_uploads up_world v) v2) o1)) = (a, v3)"
    by fastforce
  with up_run g s(1) o r2 pu r3 have a: "a = None" by auto
  have id: "validateUploadID toy_id"
    by (simp add: validateUploadID_def toy_id_text is_lower_hex_def)
  have cl: "closeParts env1 0 (length [1 :: int]) None = None" by (simp add: syscall_def env1_def env0_def)
  have "\<exists>w3. storeCompleted up_server env1 ''t'' toy_id s [1] rs1 (with_uploads (up_world\<lparr>aw_inflight := i\<rparr>) v)
      = (True, writeXML 200 (XmlComplete \<lparr>cm_Location = location (up_Bucket s) (up_Key s),
                            cm_Bucket = up_Bucket s, cm_Key = up_Key s, cm_ETag = m_etag m\<rparr>) rs1, w3)" for i
    using o r2 pu r3 ab a cl by (simp add: storeCompleted_def CompleteCleanup_def Let_def del: closeParts.simps)
  then obtain w3 where st: "storeCompleted up_server env1 ''t'' toy_id s [1] rs1
      (with_uploads (up_world\<lparr>aw_inflight := aw_inflight up_world + 1\<rparr>) v)
      = (True, writeXML 200 (XmlComplete \<lparr>cm_Location = location (up_Bucket s) (up_Key s),
                            cm_Bucket = up_Bucket s, cm_Key = up_Key s, cm_ETag = m_etag m\<rparr>) rs1, w3)" by blast
  have "\<exists>w4. completeMultipart up_server env1 up_http ''t'' rs1 up_world = (writeXML 200 (XmlComplete \<lparr>cm_Location = location (up_Bucket s) (up_Key s),
                            cm_Bucket = up_Bucket s, cm_Key = up_Key s, cm_ETag = m_etag m\<rparr>) rs1, w4)"
    using wd st g s(1) val id
    by (simp add: completeMultipart_def with_upload_def beginUpload_def completeMultipartBody_def limitedBody_def
        up_http_fields up_metrics Let_def) (simp add: up_http_def toy_http_def)
  with rs1 up_metrics(2) [OF wd(1)] show ?thesis by (auto simp: writeXML_def)
qed

lemma up_frame:
  "store_inv (aw_meta up_world) \<and> mem_committed (aw_meta up_world) = (\<lambda>_. None) \<and> buckets_plain (aw_meta up_world)"
proof -
  let ?w1 = "snd (mpCreate toy_manager env0 ''t'' ''bkt'' ''k'' 10 [] mp_start)"
  let ?w2 = "snd (PutPart toy_manager env0 ''t'' toy_id 1 toy_body ?w1)"
  note frames = mem_shared_mgr.create_frame mem_shared_mgr.putPart_frame
  have start: "store_inv (mw_meta mp_start)" "sessions_named (mw_meta mp_start)"
    "mem_committed (mw_meta mp_start) = (\<lambda>_. None)" "mem_sessions (mw_meta mp_start) = (\<lambda>_. None)"
    using store_inv_new sessions_named_new mem_sessions_new
    by (auto simp: mp_start_def mem_committed_def NewMemoryStore_def fun_eq_iff)
  have "nul_free ''bkt''" by (simp add: nul_free_def)
  from frames(1) [OF start(1,2) this, folded toy_manager_def]
  have 1: "mem_shared_mgr.tenant_frame ''t'' (mw_meta mp_start) (mw_meta ?w1)"
    by (metis prod.collapse toy_manager_def)
  then have ok1: "store_inv (mw_meta ?w1)" "sessions_named (mw_meta ?w1)" unfolding mem_shared_mgr.tenant_frame_def by blast+
  have 2: "mem_shared_mgr.tenant_frame ''t'' (mw_meta ?w1) (mw_meta ?w2)"
    using frames(2) [OF ok1] by (metis prod.collapse toy_manager_def)
  have meta: "aw_meta up_world = mw_meta ?w2"
    by (simp add: up_world_def toy_put_def toy_created_def history_append mp_run_def)
  show ?thesis
    using 1 2 start(3,4) unfolding meta mem_shared_mgr.tenant_frame_def buckets_plain_def by (metis option.distinct(1))
qed

lemma up_ok: "api_ok up_server up_world" "memory_server up_server" "nul_free ''t''"
  "intact (mem_sessions (aw_meta up_world)) toy_manager (aw_files up_world)"
proof -
  have m: "mp_ok sessions_named mem_sessions toy_manager (mp_history toy_manager toy_put mp_start)"
    using mem_mgr.history_keeps [OF start_ok toy_put_ok [unfolded toy_manager_def]] by (simp add: toy_manager_def)
  with up_frame show "api_ok up_server up_world" by (simp add: api_ok_def) (simp add: up_world_def)
  show "memory_server up_server" by (simp add: memory_server_def svc_a_def) (metis toy_manager_def)
  show "nul_free ''t''" by (simp add: nul_free_def)
  have "case fst (PutPart toy_manager env0 ''t'' toy_id 1 toy_body (mp_history toy_manager toy_created mp_start)) of
      Inl x \<Rightarrow> False | Inr i \<Rightarrow> True" by code_simp
  then have "history_clean toy_manager toy_put mp_start"
    using toy_created_ok(2) by (auto simp: toy_put_def history_append call_clean_def quiet_ctx_plain split: sum.splits prod.splits)
  from mem_mgr.history_intact [OF start_ok start_intact toy_put_ok [unfolded toy_manager_def] this [unfolded toy_manager_def]]
  show "intact (mem_sessions (aw_meta up_world)) toy_manager (aw_files up_world)"
    by (simp add: up_world_def with_uploads_def toy_manager_def)
qed

lemma up_side:
  "world_ok (sv_objects up_server) store_plain (objects_of up_world)" "ids_new env1 (aw_meta up_world)"
  "part_bytes toy_manager (uploads_of up_world) ''t'' toy_id 1 = [1, 2, 3]"
  "no_collision (sv_objects up_server) store_plain (\<lambda>mn av mx. cdcChunks (builtinSizes mn av mx)) [1, 2, 3] (objects_of up_world)"
proof -
  have b: "aw_blocks up_world = (\<lambda>_. None)" by (simp add: up_world_def with_uploads_def toy_world_def)
  show "world_ok (sv_objects up_server) store_plain (objects_of up_world)"
    using up_frame b toy_sha_length store_plain_keys
    by (intro world_ok_start) (simp_all add: svc_a_def validBlockHash_hex)
  show "no_collision (sv_objects up_server) store_plain (\<lambda>mn av mx. cdcChunks (builtinSizes mn av mx)) [1, 2, 3] (objects_of up_world)"
    by (simp add: no_collision_def b svc_a_def streamCuts_def contents_def fs_stored_def)
  have "mw_files (mp_history toy_manager toy_put mp_start) (sessionDirectory toy_manager ''t'' toy_id @ [''part-'' @ pad8 1])
      = Some [1, 2, 3]" by code_simp
  then show "part_bytes toy_manager (uploads_of up_world) ''t'' toy_id 1 = [1, 2, 3]"
    by (simp add: part_bytes_def up_world_def)
  have e: "foldl call env1 p = env1" for p by (induction p) simp_all
  have ids: "randomUploadID env1 \<noteq> toy_id" by code_simp
  define H where "H = mw_meta (mp_history toy_manager toy_put mp_start)"
  have "map fst (objects H) = [] \<and> map (\<lambda>(t, us). (t, map fst us)) (multipart H) = [(''t'', [toy_id])]"
    unfolding H_def by code_simp
  then obtain us where H: "objects H = []" "multipart H = [(''t'', us)]" "map fst us = [toy_id]" by auto
  then have "map_of us u = None" if "u \<noteq> toy_id" for u using that by (cases us) auto
  with H ids show "ids_new env1 (aw_meta up_world)"
    by (simp add: ids_new_def e up_world_def H_def [symmetric] mem_sessions_def lookup_or_def)
qed

section \<open>Properties\<close>



end
