(* ===== verification/DeltaClient.thy ===== *)
theory DeltaClient
  imports S3Auth ApiCore Backend
begin

text \<open>
  \<open>src/internal/deltaclient/client.go\<close>: the client of the companion API. It fetches the manifest of an
  object, asks for the chunks its local cache lacks, and puts the object together from the cache.
  Hash functions, the JSON codec, the parsing of URLs and the HTTP transport are library code; the
  transport is an operation on whatever state the other side has.
\<close>

section \<open>Data\<close>

record delta_client =
  dl_Endpoint :: string
  dl_AccessKey :: string
  dl_SecretKey :: string
  dl_Region :: string

record delta_chunk =
  dc_Index :: int
  dc_Hash :: string
  dc_Offset :: int
  dc_Size :: int

record delta_manifest =
  df_Version :: int
  df_Bucket :: string
  df_Key :: string
  df_Size :: int
  df_ETag :: string
  df_ObjectMD5 :: string
  df_Headers :: "(string, string) gomap"
  df_Chunks :: "delta_chunk list"

record download_result =
  dw_Bytes :: int
  dw_TotalChunks :: int
  dw_MissingChunks :: int

record chunk_request =
  cq_Bucket :: string
  cq_Key :: string
  cq_Hashes :: "string list"

record chunk_payload =
  cy_Hash :: string
  cy_Size :: int
  cy_Data :: string

record chunk_response =
  cz_Version :: int
  cz_Chunks :: "chunk_payload list"

text \<open>The parts of a parsed URL that are used.\<close>

record url_parts =
  ul_Host :: string
  ul_Path :: string
  ul_EscapedPath :: string
  ul_RawQuery :: string

text \<open>What comes from libraries: the hashes, \<open>url.Parse\<close>, the JSON codec (on the pieces of a
  response's body), the bytes of a body, and \<open>http.Client.Do\<close>.\<close>

record 'w delta_lib =
  dv_sha256 :: "bytes \<Rightarrow> bytes"
  dv_md5 :: "bytes \<Rightarrow> bytes"
  dv_hmac :: "bytes \<Rightarrow> bytes \<Rightarrow> bytes"
  dv_parseURL :: "string \<Rightarrow> err + url_parts"
  dv_marshal :: "chunk_request \<Rightarrow> err + bytes"
  dv_decodeManifest :: "piece list \<Rightarrow> err + delta_manifest"
  dv_decodeChunks :: "piece list \<Rightarrow> err + chunk_response"
  dv_bodyText :: "piece list \<Rightarrow> string"
  dv_do :: "env \<Rightarrow> http_request \<Rightarrow> 'w \<Rightarrow> (err + response) \<times> 'w"

definition dv_sha256Hex :: "'w delta_lib \<Rightarrow> bytes \<Rightarrow> string" where
  "dv_sha256Hex L data = hex_encode (dv_sha256 L data)"

definition HTTPError :: "int \<Rightarrow> string \<Rightarrow> err" where
  "HTTPError statusCode body = ErrNew (''chunkgate companion request failed with status '' @ format_int statusCode
     @ '': '' @ trim_space body)"

section \<open>Signing requests\<close>

definition hmacSHA256 :: "'w delta_lib \<Rightarrow> bytes \<Rightarrow> bytes \<Rightarrow> bytes" where
  "hmacSHA256 L key payload = dv_hmac L key payload"

definition dl_deriveSigningKey :: "'w delta_lib \<Rightarrow> string \<Rightarrow> string \<Rightarrow> string \<Rightarrow> string \<Rightarrow> bytes" where
  "dl_deriveSigningKey L secret date region service =
     (let dateKey = hmacSHA256 L (to_bytes (''AWS4'' @ secret)) (to_bytes date);
          regionKey = hmacSHA256 L dateKey (to_bytes region);
          serviceKey = hmacSHA256 L regionKey (to_bytes service)
      in hmacSHA256 L serviceKey (to_bytes ''aws4_request''))"

definition dl_unreserved :: "nat \<Rightarrow> bool" where
  "dl_unreserved c \<longleftrightarrow> (65 \<le> c \<and> c \<le> 90) \<or> (97 \<le> c \<and> c \<le> 122) \<or> (48 \<le> c \<and> c \<le> 57)
     \<or> c = 45 \<or> c = 95 \<or> c = 46 \<or> c = 126"

fun dl_awsEncode :: "string \<Rightarrow> string" where
  "dl_awsEncode [] = []"
| "dl_awsEncode (c # s) =
     (if dl_unreserved (of_char c) then c # dl_awsEncode s
      else ''%'' @ to_upper (hex_encode (to_bytes [c])) @ dl_awsEncode s)"

definition dl_canonicalURI :: "http_request \<Rightarrow> string" where
  "dl_canonicalURI r =
     (let path = rq_EscapedPath r
      in if path = [] then ''/'' else if \<not> has_prefix path ''/'' then ''/'' @ path else path)"

fun dl_queryPairs :: "(string \<times> string list) list \<Rightarrow> string list" where
  "dl_queryPairs [] = []"
| "dl_queryPairs ((name, vals) # rest) =
     (if vals = [] then [dl_awsEncode name @ ''='']
      else map (\<lambda>value. dl_awsEncode name @ ''='' @ dl_awsEncode value) vals) @ dl_queryPairs rest"

definition dl_canonicalQueryString :: "env \<Rightarrow> http_request \<Rightarrow> string" where
  "dl_canonicalQueryString e r = join_with ''&'' (sort (dl_queryPairs (go_range (range_pick e []) (rq_Query r))))"

definition signRequest :: "'w delta_lib \<Rightarrow> env \<Rightarrow> http_request \<Rightarrow> bytes \<Rightarrow> string \<Rightarrow> string \<Rightarrow> string \<Rightarrow> http_request" where
  "signRequest L e r body accessKey secretKey region =
     (let t = utc_time (now e 0);
          payloadHash = dv_sha256Hex L body;
          h1 = header_set ''X-Amz-Date'' (format_amz_time t) (rq_Header r);
          h2 = header_set ''X-Amz-Content-Sha256'' payloadHash h1;
          signedHeaders = ''host;x-amz-content-sha256;x-amz-date'';
          scope = format_date t @ ''/'' @ region @ ''/s3/aws4_request'';
          canonical = join_with newline [rq_Method r, dl_canonicalURI r, dl_canonicalQueryString (call e 1) r,
            ''host:'' @ rq_Host r @ newline
              @ ''x-amz-content-sha256:'' @ header_get h2 ''X-Amz-Content-Sha256'' @ newline
              @ ''x-amz-date:'' @ header_get h2 ''X-Amz-Date'' @ newline,
            signedHeaders, payloadHash];
          stringToSign = join_with newline [''AWS4-HMAC-SHA256'', header_get h2 ''X-Amz-Date'', scope,
            dv_sha256Hex L (to_bytes canonical)];
          signingKey = dl_deriveSigningKey L secretKey (format_date t) region ''s3'';
          signature = hex_encode (hmacSHA256 L signingKey (to_bytes stringToSign))
      in r\<lparr>rq_Header := header_set ''Authorization'' (''AWS4-HMAC-SHA256 Credential='' @ accessKey @ ''/'' @ scope
            @ '', SignedHeaders='' @ signedHeaders @ '', Signature='' @ signature) h2\<rparr>)"

section \<open>Requests\<close>

definition trim_right_slashes :: "string \<Rightarrow> string" where
  "trim_right_slashes s = trim_right_byte CHR ''/'' s"

definition dl_region :: "delta_client \<Rightarrow> string" where
  "dl_region c = (if dl_Region c \<noteq> [] then dl_Region c else ''us-east-1'')"

definition newRequest :: "'w delta_lib \<Rightarrow> delta_client \<Rightarrow> env \<Rightarrow> string \<Rightarrow> string \<Rightarrow> bytes \<Rightarrow> err + http_request" where
  "newRequest L c e method companionPath body =
     (let endpoint = trim_right_slashes (trim_space (dl_Endpoint c)) in
      if endpoint = [] then Inl (ErrNew ''endpoint must not be empty'') else
      case dv_parseURL L (endpoint @ companionPath) of Inl x \<Rightarrow> Inl x | Inr u \<Rightarrow>
      (let req = \<lparr>rq_Method = method, rq_Host = ul_Host u, rq_Path = ul_Path u, rq_EscapedPath = ul_EscapedPath u,
             rq_RawQuery = ul_RawQuery u, rq_Header = [], rq_ContentLength = int (length body),
             rq_Body = bytes_reader body\<rparr>
       in if dl_AccessKey c \<noteq> [] \<or> dl_SecretKey c \<noteq> [] then
            (if dl_AccessKey c = [] \<or> dl_SecretKey c = []
             then Inl (ErrNew ''access key and secret key must both be set'')
             else Inr (signRequest L e req body (dl_AccessKey c) (dl_SecretKey c) (dl_region c)))
          else Inr req))"

definition statusCode :: "response \<Rightarrow> int" where
  "statusCode rs = (case rs_Status rs of None \<Rightarrow> 200 | Some st \<Rightarrow> st)"

text \<open>At most 64 KiB of an error response are kept.\<close>

definition doJSON :: "'w delta_lib \<Rightarrow> (piece list \<Rightarrow> err + 'a) \<Rightarrow> env \<Rightarrow> http_request \<Rightarrow> 'w \<Rightarrow> (err + 'a) \<times> 'w" where
  "doJSON L decode e r w =
     (case dv_do L e r w of
        (Inl x, w') \<Rightarrow> (Inl x, w')
      | (Inr resp, w') \<Rightarrow>
          (if statusCode resp < 200 \<or> 299 < statusCode resp
           then Inl (HTTPError (statusCode resp) (take (64 * 1024) (dv_bodyText L (rs_Body resp))))
           else decode (rs_Body resp), w'))"

text \<open>\<open>url.QueryEscape\<close> and \<open>url.Values.Encode\<close> of the two parameters, in the order of their names.\<close>

fun query_escape :: "string \<Rightarrow> string" where
  "query_escape [] = []"
| "query_escape (c # s) =
     (if unreserved c then c # query_escape s else if c = CHR '' '' then CHR ''+'' # query_escape s
      else percent c @ query_escape s)"

definition FetchManifest :: "'w delta_lib \<Rightarrow> delta_client \<Rightarrow> env \<Rightarrow> string \<Rightarrow> string \<Rightarrow> 'w
    \<Rightarrow> (err + delta_manifest) \<times> 'w" where
  "FetchManifest L c e bucket key w =
     (case newRequest L c (call e 0) ''GET'' (''/_chunkgate/v1/manifest?bucket='' @ query_escape bucket
             @ ''&key='' @ query_escape key) [] of
        Inl x \<Rightarrow> (Inl x, w)
      | Inr req \<Rightarrow>
          (case doJSON L (dv_decodeManifest L) (call e 1)
                  (req\<lparr>rq_Header := header_set ''Accept'' ''application/json'' (rq_Header req)\<rparr>) w of
             (Inl x, w') \<Rightarrow> (Inl x, w')
           | (Inr m, w') \<Rightarrow>
               (if df_Version m \<noteq> 1 then Inl (ErrNew (''unsupported manifest version '' @ format_int (df_Version m)))
                else Inr m, w')))"

fun decodeChunks :: "'w delta_lib \<Rightarrow> chunk_payload list \<Rightarrow> (string, bytes) gomap \<Rightarrow> err + (string, bytes) gomap" where
  "decodeChunks L [] chunks = Inr chunks"
| "decodeChunks L (c # cs) chunks =
     (case base64_decode (cy_Data c) of
        None \<Rightarrow> Inl (ErrWrap (''decode chunk '' @ cy_Hash c) (ErrNew ''illegal base64 data''))
      | Some data \<Rightarrow>
          if int (length data) \<noteq> cy_Size c then Inl (ErrNew (''chunk '' @ cy_Hash c @ '' size mismatch''))
          else if dv_sha256Hex L data \<noteq> cy_Hash c then Inl (ErrNew (''chunk '' @ cy_Hash c @ '' hash mismatch''))
          else decodeChunks L cs (AList.update (cy_Hash c) data chunks))"

definition FetchChunks :: "'w delta_lib \<Rightarrow> delta_client \<Rightarrow> env \<Rightarrow> string \<Rightarrow> string \<Rightarrow> string list \<Rightarrow> 'w
    \<Rightarrow> (err + (string, bytes) gomap) \<times> 'w" where
  "FetchChunks L c e bucket key hashes w =
     (case dv_marshal L \<lparr>cq_Bucket = bucket, cq_Key = key, cq_Hashes = hashes\<rparr> of
        Inl x \<Rightarrow> (Inl x, w)
      | Inr body \<Rightarrow>
      case newRequest L c (call e 0) ''POST'' ''/_chunkgate/v1/chunks'' body of
        Inl x \<Rightarrow> (Inl x, w)
      | Inr req \<Rightarrow>
          (case doJSON L (dv_decodeChunks L) (call e 1) (req\<lparr>rq_Header := header_set ''Content-Type'' ''application/json''
                  (header_set ''Accept'' ''application/json'' (rq_Header req))\<rparr>) w of
             (Inl x, w') \<Rightarrow> (Inl x, w')
           | (Inr response, w') \<Rightarrow>
               (if cz_Version response \<noteq> 1
                then Inl (ErrNew (''unsupported chunk response version '' @ format_int (cz_Version response)))
                else decodeChunks L (cz_Chunks response) [], w')))"

section \<open>The cache\<close>

definition validChunkHash :: "string \<Rightarrow> bool" where
  "validChunkHash hash \<longleftrightarrow> length hash = 64
     \<and> list_all (\<lambda>r. (97 \<le> r \<and> r \<le> 102) \<or> (48 \<le> r \<and> r \<le> 57)) (runes hash)"

text \<open>A path is the list of its components; a relative one stands for the absolute path it
  resolves to. The empty directory is the default one.\<close>

definition cachePath :: "string list \<Rightarrow> env \<Rightarrow> string \<Rightarrow> err + string list" where
  "cachePath dir e hash =
     (if \<not> validChunkHash hash then Inl (ErrNew (''invalid chunk hash '' @ [CHR 0x22] @ hash @ [CHR 0x22])) else
      let root = (if dir = [] then [''.chunkgate-cache''] else dir) in
      case syscall e 0 of Some x \<Rightarrow> Inl (ErrWrap ''resolve cache root'' x) | None \<Rightarrow>
      case syscall e 1 of Some x \<Rightarrow> Inl (ErrWrap ''resolve cache path'' x) | None \<Rightarrow>
      (let absRoot = clean_path [] root; absPath = clean_path [] (root @ [''blocks'', take 2 hash, hash]);
           rel = rel_path absRoot absPath
       in if rel = [] \<or> hd rel = ''..'' then Inl (ErrNew ''invalid cache path'') else Inr absPath))"

definition cacheRead :: "'w delta_lib \<Rightarrow> string list \<Rightarrow> env \<Rightarrow> string \<Rightarrow> int \<Rightarrow> file_tree \<Rightarrow> err + bytes" where
  "cacheRead L dir e hash sz fs =
     (case cachePath dir (call e 0) hash of Inl x \<Rightarrow> Inl x | Inr path \<Rightarrow>
      case syscall e 1 of Some x \<Rightarrow> Inl x | None \<Rightarrow>
      case fs path of None \<Rightarrow> Inl (ErrSys ''no such file or directory'') | Some data \<Rightarrow>
      if 0 \<le> sz \<and> int (length data) \<noteq> sz then Inl (ErrNew (''cached chunk '' @ hash @ '' size mismatch''))
      else if dv_sha256Hex L data \<noteq> hash then Inl (ErrNew (''cached chunk '' @ hash @ '' hash mismatch''))
      else Inr data)"

definition cacheHas :: "'w delta_lib \<Rightarrow> string list \<Rightarrow> env \<Rightarrow> string \<Rightarrow> int \<Rightarrow> file_tree \<Rightarrow> bool" where
  "cacheHas L dir e hash sz fs = (case cacheRead L dir e hash sz fs of Inl x \<Rightarrow> False | Inr data \<Rightarrow> True)"

definition dl_randomSuffix :: "env \<Rightarrow> string" where
  "dl_randomSuffix e = (case syscall e 0 of Some _ \<Rightarrow> ''fallback'' | None \<Rightarrow> hex_encode (random_bytes e 1 8))"

definition cachePut :: "'w delta_lib \<Rightarrow> string list \<Rightarrow> env \<Rightarrow> string \<Rightarrow> bytes \<Rightarrow> file_tree \<Rightarrow> err option \<times> file_tree" where
  "cachePut L dir e hash data fs =
     (if dv_sha256Hex L data \<noteq> hash then (Some (ErrNew (''downloaded chunk '' @ hash @ '' hash mismatch'')), fs) else
      if cacheHas L dir (call e 0) hash (int (length data)) fs then (None, fs) else
      case cachePath dir (call e 1) hash of Inl x \<Rightarrow> (Some x, fs) | Inr path \<Rightarrow>
      case syscall e 2 of Some x \<Rightarrow> (Some (ErrWrap ''create cache directory'' x), fs) | None \<Rightarrow>
      (let tmp = butlast path @ [last path @ ''.'' @ dl_randomSuffix (call e 3) @ ''.tmp''] in
       case syscall e 4 of
         Some x \<Rightarrow> (Some (ErrWrap ''write cached chunk'' x), write_failed (call e 4) tmp data fs)
       | None \<Rightarrow>
           (let fs1 = try_remove e 5 path (fs(tmp := Some data)) in
            case syscall e 6 of
              Some x \<Rightarrow> (Some (ErrWrap ''commit cached chunk'' x), try_remove e 7 tmp fs1)
            | None \<Rightarrow> (None, fs1(tmp := None, path := fs1 tmp)))))"

section \<open>Putting the object together\<close>

definition manifestObjectMD5 :: "delta_manifest \<Rightarrow> string" where
  "manifestObjectMD5 m =
     (if df_ObjectMD5 m \<noteq> [] then to_lower (df_ObjectMD5 m)
      else (let value = to_lower (trim_byte CHR 0x22 (trim_space (df_ETag m)))
            in if length value \<noteq> 32
                  \<or> \<not> list_all (\<lambda>r. (97 \<le> r \<and> r \<le> 102) \<or> (48 \<le> r \<and> r \<le> 57)) (runes value)
               then [] else value))"

text \<open>The loop over the chunks: the bytes written so far are those of the temporary file and of the
  MD5. A write that fails may write a part.\<close>

fun reconstructLoop :: "'w delta_lib \<Rightarrow> string list \<Rightarrow> env \<Rightarrow> nat \<Rightarrow> string list \<Rightarrow> delta_chunk list
    \<Rightarrow> bytes \<Rightarrow> int \<Rightarrow> file_tree \<Rightarrow> (err + bytes \<times> int) \<times> file_tree" where
  "reconstructLoop L dir e i tmp [] hashed written fs = (Inr (hashed, written), fs)"
| "reconstructLoop L dir e i tmp (c # cs) hashed written fs =
     (case ctx_poll (call e i) 0 of Some x \<Rightarrow> (Inl x, fs) | None \<Rightarrow>
      case cacheRead L dir (call (call e i) 1) (dc_Hash c) (dc_Size c) fs of Inl x \<Rightarrow> (Inl x, fs) | Inr data \<Rightarrow>
      case syscall (call e i) 2 of
        Some x \<Rightarrow> (Inl (ErrWrap ''write output'' x),
          fs(tmp := map_option (\<lambda>d. d @ take (range_pick (call e i) [2] (length data)) data) (fs tmp)))
      | None \<Rightarrow> reconstructLoop L dir e (Suc i) tmp cs (hashed @ data) (add64 written (int (length data)))
          (fs(tmp := map_option (\<lambda>d. d @ data) (fs tmp))))"

text \<open>From the created temporary file to the renamed output; the deferred removal is in
  \<open>reconstruct\<close>.\<close>

definition reconstructBody :: "'w delta_lib \<Rightarrow> string list \<Rightarrow> env \<Rightarrow> delta_manifest \<Rightarrow> string list \<Rightarrow> string list
    \<Rightarrow> file_tree \<Rightarrow> err option \<times> file_tree" where
  "reconstructBody L dir e m tmp output fs =
     (case reconstructLoop L dir (call e 0) 0 tmp (df_Chunks m) [] 0 fs of
        (Inl x, fs1) \<Rightarrow> (Some x, fs1)
      | (Inr (hashed, written), fs1) \<Rightarrow>
      case syscall e 1 of Some x \<Rightarrow> (Some (ErrWrap ''close output temp file'' x), fs1) | None \<Rightarrow>
      if written \<noteq> df_Size m then (Some (ErrNew (''reconstructed size '' @ format_int written
        @ '' does not match manifest size '' @ format_int (df_Size m))), fs1)
      else if manifestObjectMD5 m \<noteq> [] \<and> hex_encode (dv_md5 L hashed) \<noteq> manifestObjectMD5 m
      then (Some (ErrNew (''reconstructed object md5 '' @ hex_encode (dv_md5 L hashed)
        @ '' does not match manifest md5 '' @ manifestObjectMD5 m)), fs1)
      else (case syscall e 2 of
              None \<Rightarrow> (None, fs1(tmp := None, output := fs1 tmp))
            | Some x \<Rightarrow>
                (let fs2 = try_remove e 3 output fs1 in
                 case syscall e 4 of
                   None \<Rightarrow> (None, fs2(tmp := None, output := fs2 tmp))
                 | Some y \<Rightarrow> (Some (ErrWrap ''commit output file'' x), fs2))))"

text \<open>\<open>os.CreateTemp\<close> opens a new file: a name that exists is an error here.\<close>

definition reconstruct :: "'w delta_lib \<Rightarrow> string list \<Rightarrow> env \<Rightarrow> delta_manifest \<Rightarrow> string list
    \<Rightarrow> file_tree \<Rightarrow> err option \<times> file_tree" where
  "reconstruct L dir e m output fs =
     (case (if butlast output \<noteq> [] then syscall e 0 else None) of
        Some x \<Rightarrow> (Some (ErrWrap ''create output directory'' x), fs)
      | None \<Rightarrow>
      let tmp = butlast output @ [''.'' @ last output @ ''.'' @ fresh_id e 1 @ ''.tmp''] in
      case (if fs tmp = None then syscall e 2 else Some (ErrSys ''file exists'')) of
        Some x \<Rightarrow> (Some (ErrWrap ''create output temp file'' x), fs)
      | None \<Rightarrow>
          (case reconstructBody L dir (call e 3) m tmp output (fs(tmp := Some [])) of
             (None, fs1) \<Rightarrow> (None, fs1)
           | (Some x, fs1) \<Rightarrow> (Some x, try_remove e 4 tmp fs1)))"

section \<open>Downloading\<close>

fun missingLoop :: "'w delta_lib \<Rightarrow> string list \<Rightarrow> env \<Rightarrow> nat \<Rightarrow> delta_chunk list \<Rightarrow> string list \<Rightarrow> file_tree \<Rightarrow> string list" where
  "missingLoop L dir e i [] seen fs = []"
| "missingLoop L dir e i (c # cs) seen fs =
     (if dc_Hash c \<in> set seen then missingLoop L dir e (Suc i) cs seen fs
      else (let rest = missingLoop L dir e (Suc i) cs (dc_Hash c # seen) fs
            in if cacheHas L dir (call e i) (dc_Hash c) (dc_Size c) fs then rest else dc_Hash c # rest))"

fun storeLoop :: "'w delta_lib \<Rightarrow> string list \<Rightarrow> env \<Rightarrow> nat \<Rightarrow> string list \<Rightarrow> (string, bytes) gomap \<Rightarrow> file_tree
    \<Rightarrow> err option \<times> file_tree" where
  "storeLoop L dir e i [] chunks fs = (None, fs)"
| "storeLoop L dir e i (hash # hashes) chunks fs =
     (case map_of chunks hash of
        None \<Rightarrow> (Some (ErrNew (''server did not return requested chunk '' @ hash)), fs)
      | Some data \<Rightarrow>
          (case cachePut L dir (call e i) hash data fs of
             (Some x, fs1) \<Rightarrow> (Some x, fs1)
           | (None, fs1) \<Rightarrow> storeLoop L dir e (Suc i) hashes chunks fs1))"

definition fetchMissing :: "'w delta_lib \<Rightarrow> delta_client \<Rightarrow> string list \<Rightarrow> env \<Rightarrow> string \<Rightarrow> string \<Rightarrow> string list
    \<Rightarrow> 'w \<Rightarrow> file_tree \<Rightarrow> err option \<times> 'w \<times> file_tree" where
  "fetchMissing L c dir e bucket key missing w fs =
     (if missing = [] then (None, w, fs)
      else (case FetchChunks L c (call e 0) bucket key missing w of
              (Inl x, w') \<Rightarrow> (Some x, w', fs)
            | (Inr chunks, w') \<Rightarrow> (case storeLoop L dir (call e 1) 0 missing chunks fs of (r, fs') \<Rightarrow> (r, w', fs'))))"

definition Download :: "'w delta_lib \<Rightarrow> delta_client \<Rightarrow> env \<Rightarrow> string \<Rightarrow> string \<Rightarrow> string list \<Rightarrow> string list
    \<Rightarrow> 'w \<Rightarrow> file_tree \<Rightarrow> (err + download_result) \<times> 'w \<times> file_tree" where
  "Download L c e bucket key output dir w fs =
     (if output = [] then (Inl (ErrNew ''output path must not be empty''), w, fs) else
      case FetchManifest L c (call e 0) bucket key w of
        (Inl x, w1) \<Rightarrow> (Inl x, w1, fs)
      | (Inr m, w1) \<Rightarrow>
          (let missing = missingLoop L dir (call e 1) 0 (df_Chunks m) [] fs in
           case fetchMissing L c dir (call e 2) bucket key missing w1 fs of
             (Some x, w2, fs2) \<Rightarrow> (Inl x, w2, fs2)
           | (None, w2, fs2) \<Rightarrow>
               (case reconstruct L dir (call e 3) m output fs2 of
                  (Some x, fs3) \<Rightarrow> (Inl x, w2, fs3)
                | (None, fs3) \<Rightarrow> (Inr \<lparr>dw_Bytes = df_Size m, dw_TotalChunks = int (length (df_Chunks m)),
                    dw_MissingChunks = int (length missing)\<rparr>, w2, fs3))))"

end
