(* ===== verification/DeltaProps.thy ===== *)
theory DeltaProps
  imports DeltaClient
begin

text \<open>
  Properties of the companion client: what a download leaves behind, whatever the server, the
  transport and the cache do, and that a request the client signs is one the server accepts.
\<close>

section \<open>Files\<close>

definition cache_root :: "string list \<Rightarrow> string list" where
  "cache_root dir = clean_path [] (if dir = [] then [''.chunkgate-cache''] else dir)"

definition under_root :: "string list \<Rightarrow> string list \<Rightarrow> bool" where
  "under_root root p \<longleftrightarrow> take (length root) p = root"

definition chunk_matches :: "'w delta_lib \<Rightarrow> delta_chunk \<Rightarrow> bytes \<Rightarrow> bool" where
  "chunk_matches L c d \<longleftrightarrow> hex_encode (dv_sha256 L d) = dc_Hash c \<and> (0 \<le> dc_Size c \<longrightarrow> int (length d) = dc_Size c)"

lemma validChunkHash_eq: "validChunkHash h = validBlockHash h"
  by (simp add: validChunkHash_def validBlockHash_def)

lemma cachePath_Inr:
  assumes "cachePath dir e h = Inr p"
  shows "validBlockHash h \<and> p = cache_root dir @ [''blocks'', take 2 h, h]"
proof -
  let ?root = "if dir = [] then [''.chunkgate-cache''] else dir"
  from assms have h: "validBlockHash h" and p: "p = clean_path [] (?root @ [''blocks'', take 2 h, h])"
    by (auto simp: cachePath_def validChunkHash_eq Let_def split: if_splits option.splits)
  from validBlockHash_safe [OF h] have "safe_name h" .
  moreover have "safe_name (take 2 h)"
    using safe_name_take [OF \<open>safe_name h\<close>, of 2] by simp
  ultimately have "\<forall>c \<in> set [''blocks'', take 2 h, h]. c \<noteq> [] \<and> c \<noteq> ''.'' \<and> c \<noteq> ''..''"
    using safe_name_plain by auto
  with h p show ?thesis by (simp add: clean_path_append clean_path_plain cache_root_def)
qed

lemma cachePath_below: "cachePath dir e h = Inr p \<Longrightarrow> under_root (cache_root dir) (butlast p @ [x]) \<and> under_root (cache_root dir) p"
  by (auto simp: under_root_def butlast_append dest!: cachePath_Inr)

lemma cacheRead_Inr:
  "cacheRead L dir e h z fs = Inr d \<Longrightarrow> hex_encode (dv_sha256 L d) = h \<and> (0 \<le> z \<longrightarrow> int (length d) = z)"
  by (auto simp: cacheRead_def dv_sha256Hex_def split: sum.splits option.splits if_splits)

lemma cachePut_other:
  assumes "cachePut L dir e h d fs = (r, fs')" "\<not> under_root (cache_root dir) p"
  shows "fs' p = fs p"
proof (cases "cachePath dir (call e 1) h")
  case (Inr q)
  have "p \<noteq> q" "\<And>x. p \<noteq> butlast q @ [x]" using cachePath_below [OF Inr] assms(2) by auto
  with assms(1) Inr show ?thesis
    by (auto simp: cachePut_def try_remove_def write_failed_def Let_def split: if_splits option.splits nat.splits)
qed (use assms(1) in \<open>auto simp: cachePut_def split: if_splits\<close>)

lemma storeLoop_other:
  "storeLoop L dir e i hs chunks fs = (r, fs') \<Longrightarrow> \<not> under_root (cache_root dir) p \<Longrightarrow> fs' p = fs p"
proof (induction hs arbitrary: i fs)
  case (Cons h hs)
  show ?case
  proof (cases "map_of chunks h")
    case (Some d)
    obtain r1 fs1 where p: "cachePut L dir (call e i) h d fs = (r1, fs1)" by fastforce
    with Cons Some cachePut_other [OF p Cons.prems(2)] show ?thesis by (cases r1) auto
  qed (use Cons in auto)
qed simp

lemma fetchMissing_other:
  assumes "fetchMissing L c dir e b k ms w fs = (r, w', fs')" "\<not> under_root (cache_root dir) p"
  shows "fs' p = fs p"
  using assms storeLoop_other [OF _ assms(2)]
  by (cases "FetchChunks L c (call e 0) b k ms w") (auto simp: fetchMissing_def split: if_splits sum.splits prod.splits)

lemma wrap64_add: "wrap64 (wrap64 a + b) = wrap64 (a + b)"
proof -
  have "(wrap64 a + b + 2 ^ 63) mod 2 ^ 64 = ((a + 2 ^ 63) mod 2 ^ 64 + b) mod 2 ^ 64"
    by (simp add: wrap64_def add.commute)
  also have "\<dots> = (a + 2 ^ 63 + b) mod 2 ^ 64" by (rule mod_add_left_eq)
  finally show ?thesis unfolding wrap64_def by (simp add: ac_simps)
qed

lemma reconstructLoop_Inr:
  "reconstructLoop L dir e i tmp cs hashed written fs = (Inr (hashed', written'), fs') \<Longrightarrow> fs tmp = Some hashed
   \<Longrightarrow> written = wrap64 (int (length hashed)) \<Longrightarrow>
   \<exists>ds. list_all2 (chunk_matches L) cs ds \<and> hashed' = hashed @ concat ds \<and> fs' = fs(tmp := Some hashed')
     \<and> written' = wrap64 (int (length hashed'))"
proof (induction cs arbitrary: i hashed written fs)
  case Nil
  then show ?case by (auto simp: fun_upd_idem)
next
  case (Cons c cs)
  from Cons.prems(1) obtain d where d: "cacheRead L dir (call (call e i) 1) (dc_Hash c) (dc_Size c) fs = Inr d"
    "reconstructLoop L dir e (Suc i) tmp cs (hashed @ d) (add64 written (int (length d)))
       (fs(tmp := map_option (\<lambda>x. x @ d) (fs tmp))) = (Inr (hashed', written'), fs')"
    by (auto split: option.splits sum.splits)
  have "add64 written (int (length d)) = wrap64 (int (length (hashed @ d)))"
    by (simp add: Cons.prems(3) add64_def wrap64_add)
  note step = d(2) [unfolded Cons.prems(2) option.map]
  have "(fs(tmp := Some (hashed @ d))) tmp = Some (hashed @ d)" by simp
  from Cons.IH [OF step this \<open>add64 _ _ = _\<close>] obtain ds where
    ds: "list_all2 (chunk_matches L) cs ds" "hashed' = (hashed @ d) @ concat ds"
      "fs' = (fs(tmp := Some (hashed @ d)))(tmp := Some hashed')" "written' = wrap64 (int (length hashed'))"
    by (elim exE conjE) (rule that)
  have "chunk_matches L c d" using cacheRead_Inr [OF d(1)] by (simp add: chunk_matches_def)
  with ds(1,2,4) ds(3) [unfolded fun_upd_upd] show ?case by (intro exI [of _ "d # ds"]) simp
qed

lemma reconstructLoop_other: "reconstructLoop L dir e i tmp cs hashed written fs = (r, fs') \<Longrightarrow> p \<noteq> tmp \<Longrightarrow> fs' p = fs p"
proof (induction cs arbitrary: i hashed written fs)
  case (Cons c cs)
  then show ?case
    using Cons.IH [of "Suc i" _ _ "fs(tmp := _)"] by (auto split: option.splits sum.splits)
qed simp

lemma rename_over:
  assumes "(t :: 'a) \<noteq> q"
  shows "(f(q := v))(t := None, q := (f(q := v)) t) = f(t := None, q := f t)"
  using assms by (simp add: fun_upd_twist)

lemma reconstructBody_renames:
  assumes "reconstructBody L dir e m tmp output fs = (None, fs2)"
    "reconstructLoop L dir (call e 0) 0 tmp (df_Chunks m) [] 0 fs = (Inr (hashed, written), fs1)" "tmp \<noteq> output"
  shows "fs2 = fs1(tmp := None, output := fs1 tmp)"
proof -
  have "fs2 = fs1(tmp := None, output := fs1 tmp)
     \<or> (\<exists>v. fs2 = (fs1(output := v))(tmp := None, output := (fs1(output := v)) tmp))"
  proof (cases "syscall e 2")
    case None
    with assms(1,2) show ?thesis by (simp add: reconstructBody_def split: option.splits if_splits)
  next
    case (Some x)
    from Some assms(1,2) have "fs2 = (try_remove e 3 output fs1)(tmp := None, output := try_remove e 3 output fs1 tmp)"
      by (simp add: reconstructBody_def Let_def split: option.splits if_splits)
    moreover have "\<exists>v. try_remove e 3 output fs1 = fs1(output := v)"
      by (cases "syscall e 3") (auto simp: try_remove_def intro: exI [of _ "fs1 output"])
    ultimately show ?thesis by metis
  qed
  with rename_over [OF assms(3)] show ?thesis by auto
qed

lemma reconstruct_ok:
  assumes "reconstruct L dir e m output fs = (r, fs')" "output \<noteq> []"
  shows "case r of
      Some x \<Rightarrow> fs' output = fs output \<or> fs' output = None
    | None \<Rightarrow> \<exists>ds. list_all2 (chunk_matches L) (df_Chunks m) ds \<and> fs' = fs(output := Some (concat ds))
        \<and> df_Size m = wrap64 (int (length (concat ds)))
        \<and> (manifestObjectMD5 m \<noteq> [] \<longrightarrow> hex_encode (dv_md5 L (concat ds)) = manifestObjectMD5 m)"
proof -
  let ?tmp = "butlast output @ [''.'' @ last output @ ''.'' @ fresh_id e 1 @ ''.tmp'']"
  have "length (last output) < length (last ?tmp)" by simp
  then have ne: "?tmp \<noteq> output" by (metis less_irrefl)
  show ?thesis
  proof (cases "(if butlast output \<noteq> [] then syscall e 0 else None) = None \<and> fs ?tmp = None \<and> syscall e 2 = None")
    case True
    let ?fs = "fs(?tmp := Some [])"
    obtain rl fs1 where l: "reconstructLoop L dir (call (call e 3) 0) 0 ?tmp (df_Chunks m) [] 0 ?fs = (rl, fs1)" by fastforce
    have other: "fs1 output = fs output" using reconstructLoop_other [OF l] ne by auto
    obtain rb fs2 where b: "reconstructBody L dir (call e 3) m ?tmp output ?fs = (rb, fs2)" by fastforce
    with True assms(1) have r: "r = rb" "fs' = (if rb = None then fs2 else try_remove e 4 ?tmp fs2)"
      by (auto simp: reconstruct_def Let_def split: option.splits)
    have keep: "try_remove e 4 ?tmp fs2 output = fs2 output" using ne by (auto simp: try_remove_def split: option.splits)
    show ?thesis
    proof (cases rb)
      case (Some x)
      with b l other ne have "fs2 output = fs output \<or> fs2 output = None"
        by (auto simp: reconstructBody_def try_remove_def Let_def split: sum.splits option.splits if_splits)
      with r Some keep show ?thesis by simp
    next
      case None
      with b l obtain hashed written where rl: "rl = Inr (hashed, written)" "written = df_Size m"
        "manifestObjectMD5 m \<noteq> [] \<longrightarrow> hex_encode (dv_md5 L hashed) = manifestObjectMD5 m"
        by (cases rl) (auto simp: reconstructBody_def split: option.splits if_splits)
      have "(0 :: int) = wrap64 (int (length ([] :: bytes)))" by (simp add: wrap64_def)
      from reconstructLoop_Inr [OF l [unfolded rl(1)] _ this] obtain ds where
        ds: "list_all2 (chunk_matches L) (df_Chunks m) ds" "hashed = concat ds" "fs1 = fs(?tmp := Some (concat ds))"
          "written = wrap64 (int (length (concat ds)))" by auto
      from reconstructBody_renames [OF b [unfolded None] l [unfolded rl(1)] ne]
      have "fs2 = fs1(?tmp := None, output := fs1 ?tmp)" .
      also have "\<dots> = fs(?tmp := None, output := Some (concat ds))" using ds(3) ne by simp
      also have "\<dots> = fs(output := Some (concat ds))"
      proof -
        have "fs(?tmp := None) = fs" using True by (simp add: fun_upd_idem)
        then show ?thesis by simp
      qed
      finally have "fs2 = fs(output := Some (concat ds))" .
      with ds rl r None show ?thesis by auto
    qed
  next
    case False
    with assms(1) have "r \<noteq> None \<and> fs' = fs"
      by (auto simp: reconstruct_def Let_def split: option.splits if_splits)
    then show ?thesis by auto
  qed
qed

section \<open>A client that meets no failure\<close>

definition chunk_file :: "string list \<Rightarrow> string \<Rightarrow> string list" where
  "chunk_file dir h = cache_root dir @ [''blocks'', take 2 h, h]"

lemma cachePath_quiet:
  assumes "quiet e" "validBlockHash h"
  shows "cachePath dir e h = Inr (chunk_file dir h)"
proof -
  from validBlockHash_safe [OF assms(2)] have s: "safe_name h" .
  then have "\<forall>c \<in> set [''blocks'', take 2 h, h]. c \<noteq> [] \<and> c \<noteq> ''.'' \<and> c \<noteq> ''..''"
    using safe_name_plain safe_name_take [OF s, of 2] by auto
  then have p: "clean_path [] (root @ [''blocks'', take 2 h, h]) = clean_path [] root @ [''blocks'', take 2 h, h]" for root
    by (simp only: clean_path_append clean_path_plain)
  have "rel_path x (x @ ''blocks'' # ys) = ''blocks'' # ys" for x ys by (simp add: rel_path_below)
  with assms p show ?thesis
    by (simp add: cachePath_def validChunkHash_eq chunk_file_def cache_root_def Let_def)
qed

lemma cacheRead_quiet:
  "quiet e \<Longrightarrow> validBlockHash h \<Longrightarrow> cacheRead L dir e h z fs = (case fs (chunk_file dir h) of
     None \<Rightarrow> Inl (ErrSys ''no such file or directory'')
   | Some d \<Rightarrow> if 0 \<le> z \<and> int (length d) \<noteq> z then Inl (ErrNew (''cached chunk '' @ h @ '' size mismatch''))
       else if dv_sha256Hex L d \<noteq> h then Inl (ErrNew (''cached chunk '' @ h @ '' hash mismatch'')) else Inr d)"
  by (simp add: cacheRead_def cachePath_quiet)

text \<open>\<open>ch\<close> gives the content that belongs to a hash, and the cache never holds another content with
  the same hash.\<close>

definition cache_true :: "'w delta_lib \<Rightarrow> (string \<Rightarrow> bytes) \<Rightarrow> string list \<Rightarrow> file_tree \<Rightarrow> string \<Rightarrow> bool" where
  "cache_true L ch dir fs h \<longleftrightarrow> validBlockHash h \<and> dv_sha256Hex L (ch h) = h
     \<and> (\<forall>d. fs (chunk_file dir h) = Some d \<and> dv_sha256Hex L d = h \<longrightarrow> d = ch h)"

lemma cacheHas_true:
  assumes "quiet e" "cache_true L ch dir fs h" "z = int (length (ch h))"
  shows "cacheHas L dir e h z fs \<longleftrightarrow> fs (chunk_file dir h) = Some (ch h)"
proof -
  from assms(2) have h: "validBlockHash h" "dv_sha256Hex L (ch h) = h"
    "\<And>d. fs (chunk_file dir h) = Some d \<Longrightarrow> dv_sha256Hex L d = h \<Longrightarrow> d = ch h" by (auto simp: cache_true_def)
  show ?thesis
  proof (cases "fs (chunk_file dir h)")
    case (Some d)
    show ?thesis
    proof (cases "d = ch h")
      case True
      with Some h(1,2) assms(1,3) show ?thesis by (simp add: cacheHas_def cacheRead_quiet)
    next
      case False
      with h(3) Some have "dv_sha256Hex L d \<noteq> h" by blast
      with Some h(1) assms(1) False show ?thesis by (simp add: cacheHas_def cacheRead_quiet)
    qed
  qed (use h(1) assms(1) in \<open>simp add: cacheHas_def cacheRead_quiet\<close>)
qed

lemma chunk_file_inj: "chunk_file dir h = chunk_file dir h' \<longleftrightarrow> h = h'"
  by (auto simp: chunk_file_def)

lemma chunk_file_tmp:
  assumes "validBlockHash h" "validBlockHash h'"
  shows "butlast (chunk_file dir h) @ [h @ CHR ''.'' # x] \<noteq> chunk_file dir h'"
proof
  assume "butlast (chunk_file dir h) @ [h @ CHR ''.'' # x] = chunk_file dir h'"
  then have "last (butlast (chunk_file dir h) @ [h @ CHR ''.'' # x]) = last (chunk_file dir h')" by (rule arg_cong)
  then have "length (h @ CHR ''.'' # x) = length h'" by (simp add: chunk_file_def)
  with assms show False by (simp add: validBlockHash_length)
qed

lemma cachePut_completes:
  assumes "quiet e" "cache_true L ch dir fs h"
  shows "\<exists>fs'. cachePut L dir e h (ch h) fs = (None, fs') \<and> fs' (chunk_file dir h) = Some (ch h)
    \<and> (\<forall>h'. validBlockHash h' \<and> h' \<noteq> h \<longrightarrow> fs' (chunk_file dir h') = fs (chunk_file dir h'))"
proof (cases "fs (chunk_file dir h) = Some (ch h)")
  case True
  have "dv_sha256Hex L (ch h) = h" using assms(2) by (simp add: cache_true_def)
  with assms True show ?thesis by (simp add: cachePut_def cacheHas_true)
next
  case False
  define t where "t = butlast (chunk_file dir h) @ [h @ CHR ''.'' # dl_randomSuffix (call e 3) @ ''.tmp'']"
  have v: "validBlockHash h" "dv_sha256Hex L (ch h) = h" using assms(2) by (simp_all add: cache_true_def)
  have tmp: "t \<noteq> chunk_file dir h'" "chunk_file dir h' \<noteq> t" if "validBlockHash h'" for h'
    using chunk_file_tmp [OF v(1) that] by (simp_all add: t_def) metis
  have "last (chunk_file dir h) = h" by (simp add: chunk_file_def)
  with assms v False have "cachePut L dir e h (ch h) fs =
      (None, (fs(t := Some (ch h), chunk_file dir h := None))(t := None, chunk_file dir h :=
         (fs(t := Some (ch h), chunk_file dir h := None)) t))"
    by (simp add: cachePut_def cacheHas_true cachePath_quiet try_remove_def t_def [symmetric] Let_def del: fun_upd_apply)
  with tmp v(1) show ?thesis by (simp add: chunk_file_inj)
qed

lemma storeLoop_completes:
  assumes "quiet e" "\<forall>h \<in> set hs. cache_true L ch dir fs h \<and> map_of chunks h = Some (ch h)"
  shows "\<exists>fs'. storeLoop L dir e i hs chunks fs = (None, fs')
    \<and> (\<forall>h \<in> set hs. fs' (chunk_file dir h) = Some (ch h))
    \<and> (\<forall>h. validBlockHash h \<and> h \<notin> set hs \<longrightarrow> fs' (chunk_file dir h) = fs (chunk_file dir h))"
  using assms(2)
proof (induction hs arbitrary: i fs)
  case (Cons h hs)
  from Cons.prems have h: "cache_true L ch dir fs h" "map_of chunks h = Some (ch h)" by simp_all
  from cachePut_completes [OF quiet_call [OF assms(1)] h(1)] obtain fs1 where
    f1: "cachePut L dir (call e i) h (ch h) fs = (None, fs1)" "fs1 (chunk_file dir h) = Some (ch h)"
      "\<forall>h'. validBlockHash h' \<and> h' \<noteq> h \<longrightarrow> fs1 (chunk_file dir h') = fs (chunk_file dir h')" by blast
  have keep: "cache_true L ch dir fs1 g" if "g \<in> set hs" for g
    using Cons.prems that f1(2,3) by (cases "g = h") (auto simp: cache_true_def)
  with Cons.prems have "\<forall>g \<in> set hs. cache_true L ch dir fs1 g \<and> map_of chunks g = Some (ch g)" by simp
  from Cons.IH [OF this, of "Suc i"] obtain fs2 where
    f2: "storeLoop L dir e (Suc i) hs chunks fs1 = (None, fs2)" "\<forall>g \<in> set hs. fs2 (chunk_file dir g) = Some (ch g)"
      "\<forall>g. validBlockHash g \<and> g \<notin> set hs \<longrightarrow> fs2 (chunk_file dir g) = fs1 (chunk_file dir g)" by blast
  have "fs2 (chunk_file dir h) = Some (ch h)"
    using f1(2) f2(2,3) h(1) by (cases "h \<in> set hs") (simp_all add: cache_true_def)
  with f1 f2 h(2) show ?case by simp
qed simp

lemma missingLoop_set:
  assumes "quiet e" "\<forall>c \<in> set cs. cache_true L ch dir fs (dc_Hash c) \<and> dc_Size c = int (length (ch (dc_Hash c)))"
  shows "set (missingLoop L dir e i cs seen fs) = {h \<in> dc_Hash ` set cs - set seen. fs (chunk_file dir h) \<noteq> Some (ch h)}"
  using assms(2)
proof (induction cs arbitrary: i seen)
  case (Cons c cs)
  then have "cacheHas L dir (call e i) (dc_Hash c) (dc_Size c) fs \<longleftrightarrow> fs (chunk_file dir (dc_Hash c)) = Some (ch (dc_Hash c))"
    by (simp add: cacheHas_true assms(1))
  with Cons show ?case by (auto simp: Let_def)
qed simp

lemma missingLoop_length: "length (missingLoop L dir e i cs seen fs) \<le> length cs"
  by (induction cs arbitrary: i seen) (auto simp: Let_def le_SucI)

lemma reconstructLoop_completes:
  assumes "quiet e" "\<forall>c \<in> set cs. validBlockHash (dc_Hash c) \<and> dv_sha256Hex L (ch (dc_Hash c)) = dc_Hash c
      \<and> dc_Size c = int (length (ch (dc_Hash c))) \<and> fs (chunk_file dir (dc_Hash c)) = Some (ch (dc_Hash c))"
    and "\<forall>h. tmp \<noteq> chunk_file dir h" "fs tmp = Some hashed" "written = wrap64 (int (length hashed))"
  shows "reconstructLoop L dir e i tmp cs hashed written fs =
    (Inr (hashed @ concat (map (\<lambda>c. ch (dc_Hash c)) cs), wrap64 (int (length (hashed @ concat (map (\<lambda>c. ch (dc_Hash c)) cs))))),
     fs(tmp := Some (hashed @ concat (map (\<lambda>c. ch (dc_Hash c)) cs))))"
  using assms(2,4,5)
proof (induction cs arbitrary: i hashed written fs)
  case Nil
  then show ?case by (auto simp: fun_upd_idem)
next
  case (Cons c cs)
  let ?d = "ch (dc_Hash c)"
  have r: "cacheRead L dir (call (call e i) 1) (dc_Hash c) (dc_Size c) fs = Inr ?d"
    using Cons.prems(1) assms(1) by (simp add: cacheRead_quiet)
  have "add64 written (int (length ?d)) = wrap64 (int (length (hashed @ ?d)))"
    by (simp add: Cons.prems(3) add64_def wrap64_add)
  moreover have "\<forall>c \<in> set cs. validBlockHash (dc_Hash c) \<and> dv_sha256Hex L (ch (dc_Hash c)) = dc_Hash c
      \<and> dc_Size c = int (length (ch (dc_Hash c)))
      \<and> (fs(tmp := Some (hashed @ ?d))) (chunk_file dir (dc_Hash c)) = Some (ch (dc_Hash c))"
    using Cons.prems(1) assms(3) by (metis (no_types, lifting) fun_upd_other list.set_intros(2))
  ultimately have "reconstructLoop L dir e (Suc i) tmp cs (hashed @ ?d) (add64 written (int (length ?d)))
      (fs(tmp := Some (hashed @ ?d))) =
    (Inr ((hashed @ ?d) @ concat (map (\<lambda>c. ch (dc_Hash c)) cs), wrap64 (int (length ((hashed @ ?d) @ concat (map (\<lambda>c. ch (dc_Hash c)) cs))))),
     (fs(tmp := Some (hashed @ ?d)))(tmp := Some ((hashed @ ?d) @ concat (map (\<lambda>c. ch (dc_Hash c)) cs))))"
    by (intro Cons.IH) simp_all
  with r Cons.prems(2) assms(1) show ?case by (simp del: fun_upd_apply)
qed

lemma reconstruct_completes:
  assumes "quiet e" "\<forall>c \<in> set (df_Chunks m). validBlockHash (dc_Hash c) \<and> dv_sha256Hex L (ch (dc_Hash c)) = dc_Hash c
      \<and> dc_Size c = int (length (ch (dc_Hash c))) \<and> fs (chunk_file dir (dc_Hash c)) = Some (ch (dc_Hash c))"
    and "t = butlast output @ [''.'' @ last output @ ''.'' @ fresh_id e 1 @ ''.tmp'']"
    and "\<not> under_root (cache_root dir) t" "fs t = None"
    and "d = concat (map (\<lambda>c. ch (dc_Hash c)) (df_Chunks m))" "df_Size m = wrap64 (int (length d))"
    and "manifestObjectMD5 m \<noteq> [] \<longrightarrow> hex_encode (dv_md5 L d) = manifestObjectMD5 m"
  shows "\<exists>fs'. reconstruct L dir e m output fs = (None, fs') \<and> fs' output = Some d"
proof -
  have t: "t \<noteq> chunk_file dir h" for h using assms(4) by (auto simp: under_root_def chunk_file_def)
  let ?fs = "fs(t := Some [])"
  have "\<forall>c \<in> set (df_Chunks m). validBlockHash (dc_Hash c) \<and> dv_sha256Hex L (ch (dc_Hash c)) = dc_Hash c
      \<and> dc_Size c = int (length (ch (dc_Hash c))) \<and> ?fs (chunk_file dir (dc_Hash c)) = Some (ch (dc_Hash c))"
    using assms(2) t by (metis fun_upd_other)
  moreover have "\<forall>h. t \<noteq> chunk_file dir h" "?fs t = Some []" "(0 :: int) = wrap64 (int (length ([] :: bytes)))"
    using t by (simp_all add: wrap64_def)
  ultimately have l: "reconstructLoop L dir (call (call e 3) 0) 0 t (df_Chunks m) [] 0 ?fs =
    (Inr (d, wrap64 (int (length d))), ?fs(t := Some d))"
    using reconstructLoop_completes [OF quiet_call [OF quiet_call [OF assms(1)]]] unfolding assms(6)
    by (metis (no_types, lifting) append_Nil)
  have b: "reconstructBody L dir (call e 3) m t output ?fs = (None, (?fs(t := Some d))(t := None, output := (?fs(t := Some d)) t))"
    using assms(1,7,8) by (auto simp: reconstructBody_def l simp del: fun_upd_apply)
  have "reconstruct L dir e m output fs = (None, (?fs(t := Some d))(t := None, output := (?fs(t := Some d)) t))"
    unfolding reconstruct_def Let_def assms(3) [symmetric] using assms(1,5) b by (simp del: fun_upd_apply)
  then show ?thesis by simp
qed

lemma Download_completes:
  assumes "quiet e" "output \<noteq> []" "FetchManifest L c (call e 0) bucket key w = (Inr m, w1)"
    and chunks: "\<forall>c \<in> set (df_Chunks m). cache_true L ch dir fs (dc_Hash c) \<and> dc_Size c = int (length (ch (dc_Hash c)))"
    and t: "t = butlast output @ [''.'' @ last output @ ''.'' @ fresh_id (call e 3) 1 @ ''.tmp'']"
    and tmp: "\<not> under_root (cache_root dir) t" "fs t = None"
    and d: "d = concat (map (\<lambda>c. ch (dc_Hash c)) (df_Chunks m))" "df_Size m = wrap64 (int (length d))"
    and md5: "manifestObjectMD5 m \<noteq> [] \<longrightarrow> hex_encode (dv_md5 L d) = manifestObjectMD5 m"
    and fetch: "\<And>hs. hs \<noteq> [] \<Longrightarrow> set hs \<subseteq> dc_Hash ` set (df_Chunks m) \<Longrightarrow> length hs \<le> length (df_Chunks m) \<Longrightarrow>
      \<exists>chunks w2. FetchChunks L c (call (call e 2) 0) bucket key hs w1 = (Inr chunks, w2)
        \<and> (\<forall>h \<in> set hs. map_of chunks h = Some (ch h))"
  shows "\<exists>res w' fs'. Download L c e bucket key output dir w fs = (Inr res, w', fs') \<and> fs' output = Some d"
proof -
  let ?ms = "missingLoop L dir (call e 1) 0 (df_Chunks m) [] fs"
  have ms: "set ?ms = {h \<in> dc_Hash ` set (df_Chunks m). fs (chunk_file dir h) \<noteq> Some (ch h)}"
    using missingLoop_set [OF quiet_call [OF assms(1)] chunks, of 1 0 "[]"] by simp
  have "\<exists>w2 fs2. fetchMissing L c dir (call e 2) bucket key ?ms w1 fs = (None, w2, fs2)
     \<and> (\<forall>c \<in> set (df_Chunks m). fs2 (chunk_file dir (dc_Hash c)) = Some (ch (dc_Hash c)))"
  proof (cases "?ms = []")
    case True
    with ms show ?thesis by (auto simp: fetchMissing_def)
  next
    case False
    from fetch [OF this _ missingLoop_length] ms obtain chs w2 where
      f: "FetchChunks L c (call (call e 2) 0) bucket key ?ms w1 = (Inr chs, w2)" "\<forall>h \<in> set ?ms. map_of chs h = Some (ch h)"
      by blast
    have "\<forall>h \<in> set ?ms. cache_true L ch dir fs h \<and> map_of chs h = Some (ch h)"
      using f(2) ms chunks by auto
    from storeLoop_completes [OF _ this, of "call (call e 2) 1" 0] assms(1) obtain fs2 where
      s: "storeLoop L dir (call (call e 2) 1) 0 ?ms chs fs = (None, fs2)" "\<forall>h \<in> set ?ms. fs2 (chunk_file dir h) = Some (ch h)"
        "\<forall>h. validBlockHash h \<and> h \<notin> set ?ms \<longrightarrow> fs2 (chunk_file dir h) = fs (chunk_file dir h)" by auto
    have "fs2 (chunk_file dir (dc_Hash c)) = Some (ch (dc_Hash c))" if "c \<in> set (df_Chunks m)" for c
    proof (cases "dc_Hash c \<in> set ?ms")
      case False
      with ms that have "fs (chunk_file dir (dc_Hash c)) = Some (ch (dc_Hash c))" by auto
      moreover have "validBlockHash (dc_Hash c)" using chunks that by (simp add: cache_true_def)
      ultimately show ?thesis using s(3) False by simp
    qed (use s(2) in blast)
    with f(1) s(1) False show ?thesis by (simp add: fetchMissing_def)
  qed
  then obtain w2 fs2 where g: "fetchMissing L c dir (call e 2) bucket key ?ms w1 fs = (None, w2, fs2)"
    "\<forall>c \<in> set (df_Chunks m). fs2 (chunk_file dir (dc_Hash c)) = Some (ch (dc_Hash c))" by blast
  have "fs2 t = None" using fetchMissing_other [OF g(1) tmp(1)] tmp(2) by simp
  moreover have "\<forall>c \<in> set (df_Chunks m). validBlockHash (dc_Hash c) \<and> dv_sha256Hex L (ch (dc_Hash c)) = dc_Hash c
      \<and> dc_Size c = int (length (ch (dc_Hash c))) \<and> fs2 (chunk_file dir (dc_Hash c)) = Some (ch (dc_Hash c))"
    using chunks g(2) by (simp add: cache_true_def)
  ultimately obtain fs3 where "reconstruct L dir (call e 3) m output fs2 = (None, fs3)" "fs3 output = Some d"
    using reconstruct_completes [OF quiet_call [OF assms(1)] _ t tmp(1) _ d md5] by blast
  with assms(2,3) g(1) show ?thesis by (simp add: Download_def Let_def)
qed

section \<open>Properties\<close>

text \<open>C38: A download is all or nothing and verified. Whatever the server answers, the transport drops and
  the cache holds, when \<open>Download\<close> succeeds the output file is the concatenation of one piece per
  chunk of the fetched manifest, each with the SHA-256 and the size the manifest names, its total
  size and (where the manifest has one) its MD5 are the manifest's, and no other file outside the
  cache changed. When it fails the output file is as before, or gone, but never anything else.\<close>

theorem download_verified:
  assumes "\<not> under_root (cache_root dir) output" "Download L c e bucket key output dir w fs = (r, w', fs')"
  shows "case r of
      Inl x \<Rightarrow> fs' output = fs output \<or> fs' output = None
    | Inr res \<Rightarrow> \<exists>m w1 ds. FetchManifest L c (call e 0) bucket key w = (Inr m, w1)
        \<and> fs' output = Some (concat ds)
        \<and> list_all2 (\<lambda>k d. hex_encode (dv_sha256 L d) = dc_Hash k \<and> (0 \<le> dc_Size k \<longrightarrow> int (length d) = dc_Size k))
            (df_Chunks m) ds
        \<and> dw_Bytes res = df_Size m \<and> df_Size m = wrap64 (int (length (concat ds)))
        \<and> (manifestObjectMD5 m \<noteq> [] \<longrightarrow> hex_encode (dv_md5 L (concat ds)) = manifestObjectMD5 m)
        \<and> (\<forall>p. p \<noteq> output \<and> \<not> under_root (cache_root dir) p \<longrightarrow> fs' p = fs p)"
proof (cases "output = []")
  case True
  with assms(2) have "r = Inl (ErrNew ''output path must not be empty'')" "fs' = fs" by (simp_all add: Download_def)
  then show ?thesis by simp
next
  case False
  obtain rm w1 where f: "FetchManifest L c (call e 0) bucket key w = (rm, w1)" by fastforce
  show ?thesis
  proof (cases rm)
    case (Inl x)
    with assms(2) f False have "r = Inl x" "fs' = fs" by (simp_all add: Download_def)
    then show ?thesis by simp
  next
    case (Inr m)
    let ?ms = "missingLoop L dir (call e 1) 0 (df_Chunks m) [] fs"
    obtain rf w2 fs2 where g: "fetchMissing L c dir (call e 2) bucket key ?ms w1 fs = (rf, w2, fs2)"
      by (cases rule: prod_cases3)
    note other = fetchMissing_other [OF g]
    show ?thesis
    proof (cases rf)
      case None
      obtain rr fs3 where rc: "reconstruct L dir (call e 3) m output fs2 = (rr, fs3)" by fastforce
      show ?thesis
      proof (cases rr)
        case (Some x)
        with assms(2) f Inr g None rc False have "r = Inl x" "fs' = fs3" by (simp_all add: Download_def Let_def)
        with reconstruct_ok [OF rc False] Some other [OF assms(1)] show ?thesis by simp
      next
        case rn: None
        with assms(2) f Inr g None rc False obtain res where res: "r = Inr res" "fs' = fs3" "dw_Bytes res = df_Size m"
          by (auto simp: Download_def Let_def)
        from reconstruct_ok [OF rc False] rn obtain ds where
          ds: "list_all2 (chunk_matches L) (df_Chunks m) ds" "fs3 = fs2(output := Some (concat ds))"
            "df_Size m = wrap64 (int (length (concat ds)))"
            "manifestObjectMD5 m \<noteq> [] \<longrightarrow> hex_encode (dv_md5 L (concat ds)) = manifestObjectMD5 m" by auto
        have "\<forall>p. p \<noteq> output \<and> \<not> under_root (cache_root dir) p \<longrightarrow> fs3 p = fs p" using other ds(2) by simp
        with f Inr res ds show ?thesis
          by (simp only: sum.case) (intro exI [of _ m] exI [of _ w1] exI [of _ ds], simp add: chunk_matches_def [abs_def])
      qed
    next
      case (Some x)
      with assms(2) f Inr g False have "r = Inl x" "fs' = fs2" by (simp_all add: Download_def Let_def)
      with other [OF assms(1)] show ?thesis by simp
    qed
  qed
qed


definition toy_manifest :: delta_manifest where
  "toy_manifest = \<lparr>df_Version = 1, df_Bucket = ''bkt'', df_Key = ''k'', df_Size = 2, df_ETag = [],
     df_ObjectMD5 = hex_encode (toy_sha [7, 8]), df_Headers = [],
     df_Chunks = [\<lparr>dc_Index = 0, dc_Hash = hex_encode (toy_sha [7, 8]), dc_Offset = 0, dc_Size = 2\<rparr>]\<rparr>"

definition toy_delta :: "nat delta_lib" where
  "toy_delta = \<lparr>dv_sha256 = toy_sha, dv_md5 = toy_sha, dv_hmac = (\<lambda>k d. toy_sha d),
     dv_parseURL = (\<lambda>u. Inr \<lparr>ul_Host = u, ul_Path = ''/'', ul_EscapedPath = ''/'', ul_RawQuery = []\<rparr>),
     dv_marshal = (\<lambda>q. Inr []), dv_decodeManifest = (\<lambda>b. Inr toy_manifest),
     dv_decodeChunks = (\<lambda>b. Inr \<lparr>cz_Version = 1, cz_Chunks =
       [\<lparr>cy_Hash = hex_encode (toy_sha [7, 8]), cy_Size = 2, cy_Data = base64_encode [7, 8]\<rparr>]\<rparr>),
     dv_bodyText = (\<lambda>b. []), dv_do = (\<lambda>e r n. (Inr newResponse, Suc n))\<rparr>"

definition toy_client :: delta_client where
  "toy_client = \<lparr>dl_Endpoint = ''h'', dl_AccessKey = [], dl_SecretKey = [], dl_Region = []\<rparr>"


lemma toy_download:
  "\<exists>res w' fs'. Download toy_delta toy_client env0 ''bkt'' ''k'' [''out''] [''c''] 0 (\<lambda>_. None) = (Inr res, w', fs')
     \<and> fs' [''out''] = Some [7, 8]"
proof (rule Download_completes [where ch = "\<lambda>h. [7, 8]"])
  let ?h = "hex_encode (toy_sha [7, 8])"
  have v: "validBlockHash ?h" by (rule validBlockHash_hex) (rule toy_sha_length)
  have req: "\<exists>r. newRequest toy_delta toy_client e meth p body = Inr r" for e meth p body
    by (simp add: newRequest_def toy_delta_def toy_client_def trim_space_visible visible_def trim_right_slashes_def trim_right_byte_def Let_def)
  show "FetchManifest toy_delta toy_client (call env0 0) ''bkt'' ''k'' 0 = (Inr toy_manifest, 1)"
  proof -
    obtain r where r: "newRequest toy_delta toy_client (call (call env0 0) 0) ''GET''
        (''/_chunkgate/v1/manifest?bucket='' @ query_escape ''bkt'' @ ''&key='' @ query_escape ''k'') [] = Inr r"
      using req by blast
    show ?thesis unfolding FetchManifest_def r sum.case
      by (simp add: doJSON_def toy_delta_def statusCode_def newResponse_def toy_manifest_def)
  qed
  show "\<forall>c \<in> set (df_Chunks toy_manifest). cache_true toy_delta (\<lambda>h. [7, 8]) [''c''] (\<lambda>_. None) (dc_Hash c) \<and> dc_Size c = int (length [7 :: 8 word, 8])"
    using v by (simp add: toy_manifest_def cache_true_def dv_sha256Hex_def toy_delta_def)
  show "\<exists>chunks w2. FetchChunks toy_delta toy_client (call (call env0 2) 0) ''bkt'' ''k'' hs 1 = (Inr chunks, w2)
     \<and> (\<forall>h \<in> set hs. map_of chunks h = Some [7, 8])" if "set hs \<subseteq> dc_Hash ` set (df_Chunks toy_manifest)" for hs
  proof -
    obtain r where r: "newRequest toy_delta toy_client (call (call (call env0 2) 0) 0) ''POST'' ''/_chunkgate/v1/chunks'' [] = Inr r"
      using req by blast
    have m: "dv_marshal toy_delta q = Inr []" for q by (simp add: toy_delta_def)
    from that show ?thesis unfolding FetchChunks_def m sum.case r
      by (auto simp: doJSON_def toy_delta_def statusCode_def newResponse_def toy_manifest_def dv_sha256Hex_def
        simp del: base64_encode.simps)
  qed
  show "manifestObjectMD5 toy_manifest \<noteq> [] \<longrightarrow> hex_encode (dv_md5 toy_delta [7, 8]) = manifestObjectMD5 toy_manifest"
  proof -
    have ne: "hex_encode (toy_sha [7, 8]) \<noteq> []" by (rule notI, drule arg_cong [of _ _ length]) (simp add: toy_sha_length)
    have "to_lower (hex_encode (toy_sha [7, 8])) = hex_encode (toy_sha [7, 8])"
      by (rule to_lower_hex) (use hex_encode_lower in blast)
    with ne show ?thesis by (simp add: manifestObjectMD5_def toy_manifest_def toy_delta_def)
  qed
  show "\<not> under_root (cache_root [''c'']) [''.out.id.tmp'']" by (simp add: under_root_def cache_root_def)
  show "[''.out.id.tmp''] = butlast [''out''] @ [''.'' @ last [''out''] @ ''.'' @ fresh_id (call env0 3) 1 @ ''.tmp'']" by simp
qed (simp_all add: toy_manifest_def wrap64_def)


theorem download_verified_witness:
  "\<exists>res w' fs'. Download toy_delta toy_client env0 ''bkt'' ''k'' [''out''] [''c''] 0 (\<lambda>_. None) = (Inr res, w', fs')
     \<and> dw_Bytes res = 2 \<and> fs' [''out''] = Some [7, 8] \<and> (\<forall>p. p \<noteq> [''out''] \<and> \<not> under_root (cache_root [''c'']) p \<longrightarrow> fs' p = None)"
proof -
  from toy_download obtain res w' fs' where
    d: "Download toy_delta toy_client env0 ''bkt'' ''k'' [''out''] [''c''] 0 (\<lambda>_. None) = (Inr res, w', fs')"
      "fs' [''out''] = Some [7, 8]" by blast
  have "\<not> under_root (cache_root [''c'']) [''out'']" by (simp add: under_root_def cache_root_def)
  note v = download_verified [OF this d(1), unfolded sum.case]
  have "dw_Bytes res = wrap64 (int (length (the (fs' [''out'']))))"
    using v by (elim exE conjE) (simp only: option.sel)
  also have "\<dots> = 2" unfolding d(2) by (simp add: wrap64_def)
  finally have "dw_Bytes res = 2" .
  moreover have "\<forall>p. p \<noteq> [''out''] \<and> \<not> under_root (cache_root [''c'']) p \<longrightarrow> fs' p = None"
    using v by (elim exE conjE)
  ultimately show ?thesis using d by blast
qed

end
