(* ===== verification/DeltaSign.thy ===== *)
theory DeltaSign
  imports DeltaClient
begin

text \<open>
  The signatures of the companion client (\<open>signRequest\<close> of \<open>src/internal/deltaclient/client.go\<close>)
  against the verifier of the server (\<open>Verify\<close> of \<open>src/internal/s3auth/sigv4.go\<close>): the date the
  client formats is the one the server reads, the two build the same canonical request, and what
  is signed is accepted.
\<close>

section \<open>The two canonical requests\<close>

lemma unreserved_eq: "dl_unreserved (char_code c) \<longleftrightarrow> unreserved c"
proof -
  have "c \<in> set ''-_.~'' \<longleftrightarrow> char_code c \<in> {45 :: nat, 95, 46, 126}"
    using of_char_eq_iff [of c "CHR ''-''", where ?'a = nat] of_char_eq_iff [of c "CHR ''_''", where ?'a = nat]
      of_char_eq_iff [of c "CHR ''.''", where ?'a = nat] of_char_eq_iff [of c "CHR ''~''", where ?'a = nat] by auto
  then show ?thesis by (auto simp: dl_unreserved_def unreserved_def)
qed

lemma upper_digit_table: "\<forall>n \<in> set [0..<16]. upper_char (hex_digit n) = upper_hex_digit n"
  by code_simp

lemma to_upper_hex: "to_upper (hex_encode (to_bytes [c])) = tl (percent c)"
proof -
  have "unat (of_char c :: byte) = char_code c"
  proof -
    have "(of_char c :: byte) = of_nat (of_char c)" by (simp only: of_nat_of_char)
    then have "unat (of_char c :: byte) = char_code c mod 256" by (simp only: unat_of_nat) simp
    then show ?thesis by simp
  qed
  with bspec [OF upper_digit_table, of "char_code c div 16"] bspec [OF upper_digit_table, of "char_code c mod 16"]
    char_nibbles [of c] show ?thesis by (simp add: to_upper_def to_bytes_def percent_def)
qed

lemma dl_awsEncode_eq: "dl_awsEncode s = awsEncode s"
  by (induction s) (simp_all add: unreserved_eq to_upper_hex percent_def)

lemma dl_queryPairs_eq: "dl_queryPairs l = concat (map queryPairs l)"
  by (induction l rule: dl_queryPairs.induct) (simp_all add: queryPairs_def dl_awsEncode_eq)

lemma dl_canonicalQueryString_eq: "dl_canonicalQueryString e r = canonicalQueryString e' r"
proof -
  have "dl_canonicalQueryString e r = canonicalQueryString e r"
    by (simp add: dl_canonicalQueryString_def canonicalQueryString_def dl_queryPairs_eq)
  then show ?thesis by (simp only: canonicalQueryString_order [of e r e'])
qed

lemma dl_canonicalURI_eq: "dl_canonicalURI r = canonicalURI r"
  by (simp add: dl_canonicalURI_def canonicalURI_def)

lemma fields_segs_visible:
  "\<forall>c \<in> set s. visible c \<Longrightarrow> fields_segs is_space (map (\<lambda>c. (char_code c, True, [c])) s) cur = (if cur @ s = [] then [] else [cur @ s])"
  by (induction s arbitrary: cur) (simp_all add: visible_not_space)

lemma collapseSpaces_visible:
  assumes "\<forall>c \<in> set s. visible c"
  shows "collapseSpaces s = s"
proof -
  have "rune_segments s = map (\<lambda>c. (char_code c, True, [c])) s"
    using assms by (intro rune_segments_plain) (auto simp: visible_def)
  with fields_segs_visible [OF assms, of "[]"] show ?thesis
    by (simp add: collapseSpaces_def string_fields_def fields_func_def join_with_def)
qed

lemma trim_space_lead:
  assumes "\<forall>c \<in> set s. visible c"
  shows "trim_space (CHR '' '' # s) = s"
proof -
  have "dropWhile (\<lambda>(r, ok, _). is_space r) (rune_segments (CHR '' '' # s)) =
      dropWhile (\<lambda>(r, ok, _). is_space r) (rune_segments s)"
    by (simp add: rune_segments_ascii is_space_def)
  then have "trim_space (CHR '' '' # s) = trim_space s" by (simp add: trim_space_def)
  with trim_space_visible [OF assms] show ?thesis by simp
qed

definition delta_signed :: string where
  "delta_signed = ''host;x-amz-content-sha256;x-amz-date''"

lemma canonicalHeaders_delta:
  assumes "header_values (rq_Header r) ''X-Amz-Content-Sha256'' = [h]" "header_values (rq_Header r) ''X-Amz-Date'' = [d]"
    and "\<forall>c \<in> set (rq_Host r) \<union> set h \<union> set d. visible c"
  shows "canonicalHeaders r delta_signed = Inr (''host:'' @ rq_Host r @ newline @ ''x-amz-content-sha256:'' @ h @ newline
    @ ''x-amz-date:'' @ d @ newline)"
proof -
  have s: "split_at CHR '';'' delta_signed = [''host'', ''x-amz-content-sha256'', ''x-amz-date'']"
    by (simp add: delta_signed_def)
  have n: "headerName ''host'' = ''host''" "headerName ''x-amz-content-sha256'' = ''x-amz-content-sha256''"
    "headerName ''x-amz-date'' = ''x-amz-date''"
    by (simp_all add: headerName_def trim_space_visible visible_def to_lower_def lower_char_def)
  have "CanonicalHeaderKey ''x-amz-content-sha256'' = CanonicalHeaderKey ''X-Amz-Content-Sha256''"
    "CanonicalHeaderKey ''x-amz-date'' = CanonicalHeaderKey ''X-Amz-Date''" by code_simp+
  then have v: "header_values (rq_Header r) ''x-amz-content-sha256'' = [h]" "header_values (rq_Header r) ''x-amz-date'' = [d]"
    using assms(1,2) by (simp_all add: header_values_def)
  have "collapseSpaces (rq_Host r) = rq_Host r" "collapseSpaces h = h" "collapseSpaces d = d"
    using assms(3) by (simp_all add: collapseSpaces_visible)
  then show ?thesis by (simp add: canonicalHeaders_def s n headerLine_def v join_with_def)
qed


section \<open>The authorization header\<close>

definition plain_part :: "string \<Rightarrow> bool" where
  "plain_part s \<longleftrightarrow> (\<forall>c \<in> set s. visible c \<and> c \<noteq> CHR '','' \<and> c \<noteq> CHR ''/'')"

lemma parse_delta_authorization:
  assumes "plain_part ak" "plain_part date" "plain_part region" "plain_part sig" "sig \<noteq> []"
  shows "parseAuthorization (''AWS4-HMAC-SHA256 Credential='' @ ak @ ''/'' @ (date @ ''/'' @ region @ ''/s3/aws4_request'')
      @ '', SignedHeaders='' @ delta_signed @ '', Signature='' @ sig) =
    Inr \<lparr>pa_accessKey = ak, pa_date = date, pa_region = region, pa_service = ''s3'', pa_signedHeaders = delta_signed,
      pa_signature = sig\<rparr>"
proof -
  define cred where "cred = ak @ CHR ''/'' # date @ CHR ''/'' # region @ CHR ''/'' # ''s3'' @ CHR ''/'' # ''aws4_request''"
  define C where "C = ''Signature='' @ sig"
  define B where "B = ''SignedHeaders='' @ delta_signed"
  define A where "A = ''Credential='' @ cred"
  let ?h = "(auth_algorithm @ '' '') @ A @ CHR '','' # (CHR '' '' # B) @ CHR '','' # CHR '' '' # C"
  have h: "''AWS4-HMAC-SHA256 Credential='' @ ak @ ''/'' @ (date @ ''/'' @ region @ ''/s3/aws4_request'')
      @ '', SignedHeaders='' @ delta_signed @ '', Signature='' @ sig = ?h"
    by (simp add: auth_algorithm_def A_def B_def C_def cred_def)
  have vis: "\<forall>c \<in> set A. visible c" "\<forall>c \<in> set B. visible c" "\<forall>c \<in> set C. visible c"
    using assms by (auto simp: A_def B_def C_def cred_def plain_part_def delta_signed_def visible_def)
  have "CHR '','' \<notin> set A" "CHR '','' \<notin> set (CHR '' '' # B)" "CHR '','' \<notin> set (CHR '' '' # C)"
    using assms by (auto simp: A_def B_def C_def cred_def plain_part_def delta_signed_def)
  then have split: "split_at CHR '','' (A @ CHR '','' # (CHR '' '' # B) @ CHR '','' # CHR '' '' # C) = [A, CHR '' '' # B, CHR '' '' # C]"
    by (simp only: split_at_append split_at_free not_False_eq_True)
  have cut: "cut_at CHR ''='' A = (''Credential'', cred, True)" "cut_at CHR ''='' B = (''SignedHeaders'', delta_signed, True)"
    "cut_at CHR ''='' C = (''Signature'', sig, True)"
    using cut_at_append [of "CHR ''=''" "''Credential''" cred] cut_at_append [of "CHR ''=''" "''SignedHeaders''" delta_signed]
      cut_at_append [of "CHR ''=''" "''Signature''" sig] by (simp_all add: A_def B_def C_def)
  have "cred \<noteq> []" "delta_signed \<noteq> []" by (simp_all add: cred_def delta_signed_def)
  note ne = this assms(5)
  have step: "parseFields (f # fs) m = parseFields fs (AList.update n v m)"
    if "trim_space f = g" "cut_at CHR ''='' g = (n, v, True)" "n \<noteq> []" "v \<noteq> []" for f g fs m n v
    using that by (simp only: parseFields.simps prod.case) simp
  have "parseFields [A, CHR '' '' # B, CHR '' '' # C] [] =
      Inr (AList.update ''Signature'' sig (AList.update ''SignedHeaders'' delta_signed (AList.update ''Credential'' cred [])))"
    by (simp only: step [OF trim_space_visible [OF vis(1)] cut(1) _ ne(1)] step [OF trim_space_lead [OF vis(2)] cut(2) _ ne(2)]
      step [OF trim_space_lead [OF vis(3)] cut(3) _ ne(3)] parseFields.simps(1) list.distinct simp_thms)
  also have "\<dots> = Inr [(''Credential'', cred), (''SignedHeaders'', delta_signed), (''Signature'', sig)]" by simp
  finally have fields: "parseFields [A, CHR '' '' # B, CHR '' '' # C] [] =
      Inr [(''Credential'', cred), (''SignedHeaders'', delta_signed), (''Signature'', sig)]" .
  have "CHR ''/'' \<notin> set ak" "CHR ''/'' \<notin> set date" "CHR ''/'' \<notin> set region"
    using assms(1-3) unfolding plain_part_def by blast+
  then have "split_at CHR ''/'' cred = [ak, date, region, ''s3'', ''aws4_request'']"
    by (simp add: cred_def split_at_append split_at_free)
  moreover have "has_prefix ?h (auth_algorithm @ '' '')" "trim_prefix ?h (auth_algorithm @ '' '') =
      A @ CHR '','' # (CHR '' '' # B) @ CHR '','' # CHR '' '' # C"
    by (simp_all only: has_prefix_append trim_prefix_append)
  ultimately show ?thesis
    unfolding h parseAuthorization_def by (simp only: split fields) (simp add: lookup_or_def assms(5) \<open>delta_signed \<noteq> []\<close>)
qed

lemma plain_hex: "plain_part (hex_encode bs)"
  using hex_encode_lower [of _ bs] by (fastforce simp: plain_part_def visible_def is_lower_hex_def)

lemma plain_date: "plain_part (format_date t)"
proof -
  have "visible c \<and> c \<noteq> CHR '','' \<and> c \<noteq> CHR ''/''" if "digit_char c" for c
    using that by (auto simp: digit_char_def is_digit_def visible_def)
  then show ?thesis using pad_digits_digits by (fastforce simp: plain_part_def format_date_def list_all_iff)
qed

lemma visible_time: "c \<in> set (format_amz_time t) \<Longrightarrow> visible c"
proof -
  assume "c \<in> set (format_amz_time t)"
  then have "digit_char c \<or> c = CHR ''T'' \<or> c = CHR ''Z''"
    using pad_digits_digits by (fastforce simp: format_amz_time_def format_date_def list_all_iff)
  then show ?thesis by (auto simp: digit_char_def is_digit_def visible_def)
qed


section \<open>What is signed is accepted\<close>

text \<open>The clock of the server is within the allowed skew of the date the client sent, which is its own
  clock without the fraction of a second.\<close>

definition clocks_agree :: "verifier \<Rightarrow> env \<Rightarrow> env \<Rightarrow> bool" where
  "clocks_agree v server client \<longleftrightarrow> 0 \<le> now client 0 \<and> now client 0 \<le> max_int64
     \<and> \<bar>now server 0 - now client 0 div 1000000000 * 1000000000\<bar> \<le> vf_MaxSkew v"

definition same_crypto :: "'w delta_lib \<Rightarrow> verifier \<Rightarrow> bool" where
  "same_crypto L v \<longleftrightarrow> dv_sha256 L = vf_sha256 v \<and> dv_hmac L = vf_hmac v
     \<and> (\<forall>x. length (vf_sha256 v x) = 32) \<and> (\<forall>k x. length (vf_hmac v k x) = 32)"

lemma derive_eq: "same_crypto L v \<Longrightarrow> dl_deriveSigningKey L s d r x = deriveSigningKey v s d r x"
  by (simp add: same_crypto_def dl_deriveSigningKey_def deriveSigningKey_def hmacSHA256_def Let_def)

lemma lookup_enabled: "lookupCredential v ak = Some c \<Longrightarrow> Enabled (Some v)"
  by (auto simp: lookupCredential_def Enabled_def)

lemma header_names: "CanonicalHeaderKey ''Authorization'' = ''Authorization''" "CanonicalHeaderKey ''X-Amz-Date'' = ''X-Amz-Date''"
  "CanonicalHeaderKey ''X-Amz-Content-Sha256'' = ''X-Amz-Content-Sha256''" "CanonicalHeaderKey ''Accept'' = ''Accept''"
  "CanonicalHeaderKey ''Content-Type'' = ''Content-Type''"
  by code_simp+

lemma signed_accepted:
  assumes crypto: "same_crypto L v" and cred: "lookupCredential v ak = Some c" "cd_SecretKey c = sk"
    and plain: "plain_part ak" "plain_part region" "\<forall>x \<in> set (rq_Host r). visible x"
    and clocks: "clocks_agree v e' e"
    and same: "rq_Method r' = rq_Method r" "rq_Host r' = rq_Host r" "rq_EscapedPath r' = rq_EscapedPath r" "rq_RawQuery r' = rq_RawQuery r"
      "\<forall>n \<in> {''Authorization'', ''X-Amz-Date'', ''X-Amz-Content-Sha256''}.
         header_values (rq_Header r') n = header_values (rq_Header (signRequest L e r body ak sk region)) n"
  shows "Verify (Some v) e' r' = Inr \<lparr>id_AccessKey = cd_AccessKey c, id_Tenant = cd_Tenant c\<rparr>"
proof -
  define t where "t = utc_time (now e 0)"
  define d where "d = format_amz_time t"
  define h where "h = dv_sha256Hex L body"
  define canonical where "canonical = join_with newline [rq_Method r, canonicalURI r, canonicalQueryString e' r,
    ''host:'' @ rq_Host r @ newline @ ''x-amz-content-sha256:'' @ h @ newline @ ''x-amz-date:'' @ d @ newline, delta_signed, h]"
  define scope where "scope = format_date t @ ''/'' @ region @ ''/s3/aws4_request''"
  define sig where "sig = hex_encode (vf_hmac v (deriveSigningKey v sk (format_date t) region ''s3'')
    (to_bytes (join_with newline [''AWS4-HMAC-SHA256'', d, scope, dv_sha256Hex L (to_bytes canonical)])))"
  define auth where "auth = ''AWS4-HMAC-SHA256 Credential='' @ ak @ ''/'' @ scope @ '', SignedHeaders='' @ delta_signed
    @ '', Signature='' @ sig"
  have mac: "hmacSHA256 L k x = vf_hmac v k x" for k x using crypto by (simp add: hmacSHA256_def same_crypto_def)
  have hv: "header_values (rq_Header (signRequest L e r body ak sk region)) ''Authorization'' = [auth]"
    "header_values (rq_Header (signRequest L e r body ak sk region)) ''X-Amz-Date'' = [d]"
    "header_values (rq_Header (signRequest L e r body ak sk region)) ''X-Amz-Content-Sha256'' = [h]"
    by (simp_all add: signRequest_def Let_def header_values_set header_names auth_def sig_def scope_def canonical_def
      h_def d_def t_def delta_signed_def derive_eq [OF crypto] dl_canonicalURI_eq dl_canonicalQueryString_eq [of _ _ e'] mac)
  with same(5) have hv': "header_values (rq_Header r') ''Authorization'' = [auth]" "header_values (rq_Header r') ''X-Amz-Date'' = [d]"
    "header_values (rq_Header r') ''X-Amz-Content-Sha256'' = [h]" by simp_all
  have hne: "h \<noteq> []" and sne: "sig \<noteq> []"
    using crypto length_hex_encode by (simp_all add: h_def sig_def dv_sha256Hex_def same_crypto_def length_0_conv [symmetric] del: length_0_conv)
  have tok: "time_ok t" "time_nanos (t\<lparr>at_nanos := 0\<rparr>) = now e 0 div 1000000000 * 1000000000"
    using utc_time_correct [of "now e 0"] clocks by (simp_all add: clocks_agree_def t_def)
  have parsed: "parseAuthorization auth = Inr \<lparr>pa_accessKey = ak, pa_date = format_date t, pa_region = region, pa_service = ''s3'',
      pa_signedHeaders = delta_signed, pa_signature = sig\<rparr>"
    using parse_delta_authorization [OF plain(1) plain_date plain(2) _ sne] plain_hex by (simp add: auth_def scope_def sig_def)
  have skew: "\<not> too_skewed v e' (t\<lparr>at_nanos := 0\<rparr>)"
    using clocks by (auto simp: too_skewed_def tok(2) clocks_agree_def duration_sub_def Let_def max_int64_def min_int64_def)
  have "rq_Query r' = rq_Query r" using same(4) by (simp add: rq_Query_def)
  then have q: "canonicalQueryString x r' = canonicalQueryString e' r" for x
    using canonicalQueryString_order [of x r e'] by (simp add: canonicalQueryString_def)
  have "\<forall>x \<in> set (rq_Host r') \<union> set h \<union> set d. visible x"
    using plain(3) plain_hex visible_time by (auto simp: same(2) h_def d_def dv_sha256Hex_def plain_part_def)
  from canonicalHeaders_delta [OF hv'(3,2) this] have can: "canonicalRequest x r' delta_signed = Inr canonical" for x
    using hne by (simp add: canonicalRequest_def canonical_def same q canonicalURI_def payloadHash_def header_get_def hv')
  have "auth \<noteq> []" by (simp add: auth_def)
  have "expectedSignature v c \<lparr>pa_accessKey = ak, pa_date = format_date t, pa_region = region, pa_service = ''s3'',
      pa_signedHeaders = delta_signed, pa_signature = sig\<rparr> d canonical = sig"
    using crypto by (simp add: expectedSignature_def sig_def stringToSign_def credentialScope_def scope_def auth_algorithm_def
      auth_sha256Hex_def dv_sha256Hex_def same_crypto_def cred(2) join_with_def)
  moreover have "format_date (t\<lparr>at_nanos := 0\<rparr>) = format_date t" by (simp add: format_date_def)
  ultimately show ?thesis
    using lookup_enabled [OF cred(1)] \<open>auth \<noteq> []\<close> parsed cred(1) skew can parse_format_time [OF tok(1)]
    by (simp add: Verify_def header_get_def hv' d_def [symmetric]) (simp add: sig_def hex_equal_encode hex_decode_encode)
qed


text \<open>C39: Client and server agree on signatures. A request the companion client signs with the keys of a
  credential of the server is accepted by \<open>Verify\<close> as that credential's identity, whatever the
  method, path, query and body, whatever headers are added afterwards, in whatever order either side
  visits the query's map, and as long as the clocks are within the allowed skew: the date survives
  formatting and parsing, the authorization header is parsed back to what the client put in, and
  both sides build the same canonical request.\<close>

theorem client_signature_accepted:
  assumes "newRequest L c client meth path body = Inr r" "dl_AccessKey c \<noteq> []"
    and "same_crypto L v" "lookupCredential v (dl_AccessKey c) = Some cr" "cd_SecretKey cr = dl_SecretKey c"
    and "plain_part (dl_AccessKey c)" "plain_part (dl_region c)" "\<forall>x \<in> set (rq_Host r). visible x"
    and "clocks_agree v server client"
    and "\<forall>n \<in> {''Authorization'', ''X-Amz-Date'', ''X-Amz-Content-Sha256''}.
      header_values headers n = header_values (rq_Header r) n"
  shows "Verify (Some v) server (r\<lparr>rq_Header := headers\<rparr>) = Inr \<lparr>id_AccessKey = cd_AccessKey cr, id_Tenant = cd_Tenant cr\<rparr>"
proof -
  from assms(1,2) obtain q where q: "r = signRequest L client q body (dl_AccessKey c) (dl_SecretKey c) (dl_region c)"
    by (auto simp: newRequest_def Let_def split: if_splits sum.splits)
  then have f: "rq_Method r = rq_Method q" "rq_Host r = rq_Host q" "rq_EscapedPath r = rq_EscapedPath q" "rq_RawQuery r = rq_RawQuery q"
    by (simp_all add: signRequest_def Let_def)
  show ?thesis
    by (rule signed_accepted [OF assms(3-7) _ assms(9), of q _ body]) (use assms(8,10) f q in simp_all)
qed

definition toy_cred_client :: delta_client where
  "toy_cred_client = \<lparr>dl_Endpoint = ''h'', dl_AccessKey = ''A'', dl_SecretKey = ''s'', dl_Region = []\<rparr>"

definition toy_mac :: "bytes \<Rightarrow> bytes \<Rightarrow> bytes" where
  "toy_mac k d = toy_sha (k @ d)"

definition toy_cred_verifier :: verifier where
  "toy_cred_verifier = \<lparr>vf_credentials = [\<lparr>cd_AccessKey = ''A'', cd_SecretKey = ''s'', cd_Tenant = ''t''\<rparr>],
     vf_MaxSkew = 900000000000, vf_sha256 = toy_sha, vf_hmac = toy_mac\<rparr>"

definition toy_cred_lib :: "nat delta_lib" where
  "toy_cred_lib = \<lparr>dv_sha256 = toy_sha, dv_md5 = toy_sha, dv_hmac = toy_mac,
     dv_parseURL = (\<lambda>u. Inr \<lparr>ul_Host = ''h'', ul_Path = ''/m'', ul_EscapedPath = ''/m'', ul_RawQuery = ''key=k''\<rparr>),
     dv_marshal = (\<lambda>q. Inl (ErrNew ''x'')), dv_decodeManifest = (\<lambda>b. Inl (ErrNew ''x'')), dv_decodeChunks = (\<lambda>b. Inl (ErrNew ''x'')),
     dv_bodyText = (\<lambda>b. []), dv_do = (\<lambda>e r n. (Inl (ErrNew ''x''), n))\<rparr>"

theorem client_signature_accepted_witness:
  "\<exists>r. newRequest toy_cred_lib toy_cred_client env0 ''GET'' ''/m?key=k'' [] = Inr r
    \<and> Verify (Some toy_cred_verifier) env0 (r\<lparr>rq_Header := header_set ''Accept'' ''*'' (rq_Header r)\<rparr>)
      = Inr \<lparr>id_AccessKey = ''A'', id_Tenant = ''t''\<rparr>"
proof -
  let ?r = "signRequest toy_cred_lib env0 \<lparr>rq_Method = ''GET'', rq_Host = ''h'', rq_Path = ''/m'', rq_EscapedPath = ''/m'',
      rq_RawQuery = ''key=k'', rq_Header = [], rq_ContentLength = 0, rq_Body = bytes_reader []\<rparr> [] ''A'' ''s'' ''us-east-1''"
  have r: "newRequest toy_cred_lib toy_cred_client env0 ''GET'' ''/m?key=k'' [] = Inr ?r"
    by (simp add: newRequest_def toy_cred_lib_def toy_cred_client_def trim_space_visible visible_def trim_right_slashes_def
      trim_right_byte_def dl_region_def Let_def)
  have "Verify (Some toy_cred_verifier) env0 (?r\<lparr>rq_Header := header_set ''Accept'' ''*'' (rq_Header ?r)\<rparr>) =
      Inr \<lparr>id_AccessKey = cd_AccessKey \<lparr>cd_AccessKey = ''A'', cd_SecretKey = ''s'', cd_Tenant = ''t''\<rparr>,
        id_Tenant = cd_Tenant \<lparr>cd_AccessKey = ''A'', cd_SecretKey = ''s'', cd_Tenant = ''t''\<rparr>\<rparr>"
  proof (rule client_signature_accepted [OF r])
    show "same_crypto toy_cred_lib toy_cred_verifier"
      by (simp add: same_crypto_def toy_cred_lib_def toy_cred_verifier_def toy_mac_def toy_sha_length)
    show "lookupCredential toy_cred_verifier (dl_AccessKey toy_cred_client) =
        Some \<lparr>cd_AccessKey = ''A'', cd_SecretKey = ''s'', cd_Tenant = ''t''\<rparr>"
      by (simp add: lookupCredential_def toy_cred_verifier_def toy_cred_client_def constantTimeStringEqual_def)
    show "\<forall>x \<in> set (rq_Host ?r). visible x" by (simp add: signRequest_def Let_def visible_def)
    show "clocks_agree toy_cred_verifier env0 env0"
      by (simp add: clocks_agree_def toy_cred_verifier_def now_def env0_def max_int64_def)
  qed (simp_all add: toy_cred_client_def plain_part_def visible_def dl_region_def header_values_set header_names)
  with r show ?thesis by simp
qed

end
