(* ===== verification/DeltaServe.thy ===== *)
theory DeltaServe
  imports DeltaProps DeltaSign ApiObjects
begin

text \<open>
  The companion client against the server: the signed requests of \<open>Download\<close> go through
  \<open>ServeHTTP\<close>, the documents that come back are the stored object's, and the file the client
  writes is the object.
\<close>

section \<open>The service\<close>

lemma chunkRefs_piece: "c \<in> set (chunkRefs sha off ds) \<Longrightarrow> \<exists>d \<in> set ds. cr_hash c = hex_encode (sha d) \<and> cr_size c = int (length d)"
  by (induction ds arbitrary: off) auto

lemma chunkRefs_map: "map f (map cr_hash (chunkRefs sha off ds)) = map (\<lambda>d. f (hex_encode (sha d))) ds"
  by (induction ds arbitrary: off) auto

lemma find_member: "find P cs = Some c \<Longrightarrow> c \<in> set cs \<and> P c"
  by (induction cs) (auto split: if_splits)

text \<open>The chunks of a served object are delivered as they are stored.\<close>

lemma file_ReadChunks:
  assumes "fastcdc_library fc fcuts" "S = fileService fc sha md sp store cpu" "world_ok S store w" "quiet e"
    and "mem_committed (w_meta w) (t, b, k) = Some m" "holds_content S (fs_stored store (w_blocks w) t) m c"
    and "hs \<noteq> []" "set hs \<subseteq> cr_hash ` set (m_chunks m)"
  shows "\<exists>sel. ReadChunks S e t b k hs w = Inr (m, sel) \<and> sc_Hash ` set sel = set hs
    \<and> (\<forall>x \<in> set sel. fs_stored store (w_blocks w) t (sc_Hash x) = Some (sc_Data x) \<and> sc_Size x = int (length (sc_Data x))
        \<and> hex_encode (sha (sc_Data x)) = sc_Hash x)"
proof -
  from assms(6) obtain ds where ds: "m_chunks m = chunkRefs (svc_sha256 S) 0 ds"
    "\<forall>d \<in> set ds. fs_stored store (w_blocks w) t (hex_encode (svc_sha256 S d)) = Some d"
    by (auto simp: holds_content_def)
  let ?mc = "manifestChunks (m_chunks m) []"
  have mc: "map_of ?mc h = find (\<lambda>c. cr_hash c = h) (m_chunks m)" for h by (simp add: map_of_manifestChunks)
  have dom: "\<forall>h \<in> set hs. \<exists>ref. map_of ?mc h = Some ref"
  proof
    fix h assume "h \<in> set hs"
    with assms(8) obtain ref where "ref \<in> set (m_chunks m)" "cr_hash ref = h" by auto
    then have "find (\<lambda>c. cr_hash c = h) (m_chunks m) \<noteq> None" unfolding find_None_iff by blast
    then show "\<exists>ref. map_of ?mc h = Some ref" unfolding mc by blast
  qed
  have refs: "\<forall>h ref. map_of ?mc h = Some ref \<longrightarrow>
      (\<exists>d \<in> set ds. h = hex_encode (svc_sha256 S d) \<and> cr_size ref = int (length d))"
  proof (intro allI impI)
    fix h ref assume "map_of ?mc h = Some ref"
    then have "find (\<lambda>c. cr_hash c = h) (chunkRefs (svc_sha256 S) 0 ds) = Some ref" unfolding mc unfolding ds(1) .
    from find_member [OF this] have r: "ref \<in> set (chunkRefs (svc_sha256 S) 0 ds)" "cr_hash ref = h" by simp_all
    from chunkRefs_piece [OF r(1)] show "\<exists>d \<in> set ds. h = hex_encode (svc_sha256 S d) \<and> cr_size ref = int (length d)"
      unfolding r(2) .
  qed
  from assms(3) have "object_service.content_inv (fileService fc sha md sp store cpu) store_inv mem_committed
      (fs_inv store) (fs_stored store) validBlockHash w"
    unfolding world_ok_eq [OF assms(1)] assms(2) .
  from object_service.readChunksLoop_quiet [OF fileService_contract [OF assms(1)] quiet_call [OF assms(4)] this
      ds(2) [unfolded assms(2)] dom refs [unfolded assms(2)]] obtain sel where
    sel: "readChunksLoop S (call e 1) 0 t ?mc [] hs (w_blocks w) = Inr sel"
      "\<forall>x \<in> set sel. fs_stored store (w_blocks w) t (sc_Hash x) = Some (sc_Data x)"
    unfolding assms(2) by blast
  from mem_get_quiet [OF _ assms(5) quiet_call [OF assms(4)]] assms(3) have
    "GetObject (svc_store S) (call e 0) t b k (w_meta w) = Inr m" by (simp add: assms(2) memory_ops_def world_ok_def)
  with sel(1) assms(7) have "ReadChunks S e t b k hs w = Inr (m, sel)" by (simp add: ReadChunks_def)
  moreover have "sc_Hash ` set sel = set hs" "\<forall>x \<in> set sel. hex_encode (sha (sc_Data x)) = sc_Hash x \<and> sc_Size x = int (length (sc_Data x))"
    using readChunksLoop_selected [OF sel(1)] by (simp_all add: assms(2))
  ultimately show ?thesis using sel(2) by blast
qed

section \<open>The query of a manifest request\<close>

lemma unescape_query_escape: "unescape True (query_escape s) = Some s"
proof (induction s)
  case (Cons c s)
  show ?case
  proof (cases "unreserved c")
    case True
    then have "c \<noteq> CHR ''%''" "c \<noteq> CHR ''+''" by (auto simp: unreserved_def)
    with True Cons show ?thesis by simp
  next
    case False
    with Cons show ?thesis by (simp add: percent_def char_nibbles percent_value del: mult_div_mod_eq)
  qed
qed simp

lemma query_escape_chars: "c \<in> set (query_escape s) \<Longrightarrow> unreserved c \<or> c = CHR ''%'' \<or> c = CHR ''+''"
  by (induction s) (auto simp: percent_def char_nibbles split: if_splits)

definition manifest_query :: "string \<Rightarrow> string \<Rightarrow> string" where
  "manifest_query b k = ''bucket='' @ query_escape b @ ''&key='' @ query_escape k"

lemma parse_manifest_query:
  "parse_query (manifest_query b k) = [(''bucket'', [b]), (''key'', [k])]"
proof -
  have free: "d \<notin> set (query_escape s)" if "\<not> unreserved d" "d \<noteq> CHR ''%''" "d \<noteq> CHR ''+''" for d s
    using query_escape_chars that by blast
  have amp: "CHR ''&'' \<notin> set (query_escape s)" "CHR '';'' \<notin> set (query_escape s)" for s
    by (rule free; simp add: unreserved_def)+
  have "manifest_query b k = (''bucket='' @ query_escape b) @ CHR ''&'' # (''key='' @ query_escape k)"
    by (simp add: manifest_query_def)
  moreover have "CHR ''&'' \<notin> set (''bucket='' @ query_escape b)" "CHR ''&'' \<notin> set (''key='' @ query_escape k)" using amp by auto
  ultimately have s: "split_at CHR ''&'' (manifest_query b k) = [''bucket='' @ query_escape b, ''key='' @ query_escape k]"
    by (simp only: split_at_append split_at_free not_False_eq_True)
  have cut: "cut_at CHR ''='' (''bucket='' @ query_escape b) = (''bucket'', query_escape b, True)"
    "cut_at CHR ''='' (''key='' @ query_escape k) = (''key'', query_escape k, True)"
    using cut_at_append [of "CHR ''=''" "''bucket''" "query_escape b"] cut_at_append [of "CHR ''=''" "''key''" "query_escape k"]
    by simp_all
  have n: "CHR '';'' \<notin> set (''bucket='' @ query_escape b)" "CHR '';'' \<notin> set (''key='' @ query_escape k)" using amp by auto
  have u: "QueryUnescape ''bucket'' = Some ''bucket''" "QueryUnescape ''key'' = Some ''key''"
    "QueryUnescape (query_escape x) = Some x" for x
    by (simp_all add: QueryUnescape_def unescape_query_escape)
  have "parse_pairs [''bucket='' @ query_escape b, ''key='' @ query_escape k] [] =
      append_value ''key'' k (append_value ''bucket'' b [])"
    using n by (simp only: parse_pairs.simps cut prod.case u option.case if_False append_is_Nil_conv list.distinct simp_thms)
  also have "\<dots> = [(''bucket'', [b]), (''key'', [k])]" by (simp add: append_value_def lookup_or_def)
  finally show ?thesis by (simp add: parse_query_def s max_query_params_def)
qed


section \<open>The companion routes\<close>

lemma routed_delta:
  assumes "rq_Path r \<in> {deltaAPIPrefix @ ''manifest'', deltaAPIPrefix @ ''chunks''}" "rq_Method r \<noteq> ''OPTIONS''"
    "caller S (call (call e 1) 1) r = Some t"
  shows "\<exists>rs1. rs_Status rs1 = None \<and> rs_Body rs1 = [] \<and> (\<forall>w. ServeHTTP S e r w =
    (let rs = deltaRoute S (handler_env e) r t rs1 (count_metric StartRequest w)
     in (rs, count_metric (FinishRequest (rs_Recorded rs)) (count_metric StartRequest w))))"
proof -
  let ?rs0 = "addCommonHeaders (generateRequestID (call e 0)) newResponse"
  from handleCORS_passes [OF assms(2)] obtain rs1 where
    c: "handleCORS (sv_cors S) r ?rs0 = (False, rs1)" "rs_Status rs1 = None" "rs_Body rs1 = []"
    by (metis addCommonHeaders_def setHeader_body newResponse_def response.select_convs(2,4))
  from assms(3) have "\<exists>i. authenticate (sv_auth S) (sv_anonymousTenant S) (call (call e 1) 1) r rs1 = Inr i \<and> id_Tenant i = t"
    by (auto simp: caller_def authenticate_def split: if_splits sum.splits)
  moreover from assms(1) have "\<not> has_prefix (rq_Path r) ''/debug/pprof''" "rq_Path r \<noteq> ''/healthz''" "rq_Path r \<noteq> ''/readyz''"
    "rq_Path r \<noteq> ''/metrics''" "has_prefix (rq_Path r) deltaAPIPrefix"
    by (auto simp: has_prefix_def deltaAPIPrefix_def)
  ultimately show ?thesis using c by (intro exI [of _ rs1]) (auto simp: ServeHTTP_def routeRequest_def Let_def)
qed

lemma manifest_served:
  assumes "rq_Path r = deltaAPIPrefix @ ''manifest''" "rq_Method r = ''GET''" "rq_RawQuery r = manifest_query b k"
    and "caller S (call (call e 1) 1) r = Some t" "validateBucketName b" "validateObjectKey k"
    and "\<And>x. Stat (sv_objects S) (call (handler_env e) 0) t b k (objects_of (count_metric x w)) = Inr m"
  shows "\<exists>rs w' e'. ServeHTTP S e r w = (rs, w') \<and> statusCode rs = 200
    \<and> rs_Body rs = [Doc (JsonManifest (makeDeltaManifest e' m))] \<and> aw_meta w' = aw_meta w \<and> aw_blocks w' = aw_blocks w"
proof -
  have "rq_Method r \<noteq> ''OPTIONS''" by (simp add: assms(2))
  from routed_delta [OF _ this assms(4)] assms(1) obtain rs1 where rs1: "rs_Status rs1 = None" "rs_Body rs1 = []"
    "ServeHTTP S e r w = (let rs = deltaRoute S (handler_env e) r t rs1 (count_metric StartRequest w)
     in (rs, count_metric (FinishRequest (rs_Recorded rs)) (count_metric StartRequest w)))" by auto
  have "query_get r ''bucket'' = b" "query_get r ''key'' = k"
    by (simp_all add: query_get_def rq_Query_def assms(3) parse_manifest_query lookup_or_def)
  then have "deltaRoute S (handler_env e) r t rs1 (count_metric StartRequest w) =
      writeJSON 200 (JsonManifest (makeDeltaManifest (call (handler_env e) 1) m)) rs1"
    by (simp add: deltaRoute_def assms getDeltaManifest_def Let_def del: One_nat_def)
  with rs1 show ?thesis by (simp add: writeJSON_def Let_def statusCode_def) blast
qed

lemma chunks_served:
  assumes "rq_Path r = deltaAPIPrefix @ ''chunks''" "rq_Method r = ''POST''" "caller S (call (call e 1) 1) r = Some t"
    and "sv_decodeJSON S (max_bytes_reader maxDeltaChunkRequestBytes (rq_Body r)) = Inr \<lparr>dq_Bucket = b, dq_Key = k, dq_Hashes = hs\<rparr>"
    and "validateBucketName b" "validateObjectKey k" "length hs \<le> 1000" "\<forall>h \<in> set hs. validBlockHash h"
    and "\<And>x. ReadChunks (sv_objects S) (call (handler_env e) 0) t b k hs (objects_of (count_metric x w)) = Inr (m, sel)"
  shows "\<exists>rs w'. ServeHTTP S e r w = (rs, w') \<and> statusCode rs = 200
    \<and> rs_Body rs = [Doc (JsonChunks \<lparr>dr_Version = 1, dr_Chunks = map deltaPayload sel\<rparr>)]"
proof -
  have "rq_Method r \<noteq> ''OPTIONS''" by (simp add: assms(2))
  from routed_delta [OF _ this assms(3)] assms(1) obtain rs1 where rs1: "rs_Status rs1 = None" "rs_Body rs1 = []"
    "ServeHTTP S e r w = (let rs = deltaRoute S (handler_env e) r t rs1 (count_metric StartRequest w)
     in (rs, count_metric (FinishRequest (rs_Recorded rs)) (count_metric StartRequest w)))" by auto
  have "list_all validateChunkHash hs"
    using assms(8) by (simp add: list_all_iff validateChunkHash_def validBlockHash_def is_lower_hex_def)
  then have "deltaRoute S (handler_env e) r t rs1 (count_metric StartRequest w) =
      writeJSON 200 (JsonChunks \<lparr>dr_Version = 1, dr_Chunks = map deltaPayload sel\<rparr>) rs1"
    using assms(7) by (simp add: deltaRoute_def assms(1-6,9) deltaAPIPrefix_def getDeltaChunks_def maxDeltaChunkRequestHashes_def del: One_nat_def)
  with rs1 show ?thesis by (simp add: writeJSON_def Let_def statusCode_def)
qed


section \<open>Client and server connected\<close>

text \<open>What the client relies on of \<open>encoding/json\<close>: documents of valid UTF-8 are decoded to the fields
  they were made of (both sides use the same names), and a chunk request within the server's
  limits stays below its size limit.\<close>

definition decoded_manifest :: "deltaManifestResponse \<Rightarrow> delta_manifest \<Rightarrow> bool" where
  "decoded_manifest d m \<longleftrightarrow> df_Version m = dm_Version d \<and> df_Size m = dm_Size d \<and> df_ETag m = dm_ETag d
     \<and> df_ObjectMD5 m = dm_ObjectMD5 d
     \<and> df_Chunks m = map (\<lambda>c. \<lparr>dc_Index = dk_Index c, dc_Hash = dk_Hash c, dc_Offset = dk_Offset c, dc_Size = dk_Size c\<rparr>) (dm_Chunks d)"

definition codec_ok :: "'w delta_lib \<Rightarrow> ('m, 'b, 'c) api_server \<Rightarrow> bool" where
  "codec_ok L S \<longleftrightarrow>
     (\<forall>d. valid_utf8 (dm_ETag d) \<and> valid_utf8 (dm_ObjectMD5 d) \<and> (\<forall>c \<in> set (dm_Chunks d). valid_utf8 (dk_Hash c)) \<longrightarrow>
        (\<exists>m. dv_decodeManifest L [Doc (JsonManifest d)] = Inr m \<and> decoded_manifest d m))
   \<and> (\<forall>d. (\<forall>c \<in> set (dr_Chunks d). valid_utf8 (dp_Hash c) \<and> valid_utf8 (dp_Data c)) \<longrightarrow>
        dv_decodeChunks L [Doc (JsonChunks d)] = Inr \<lparr>cz_Version = dr_Version d,
          cz_Chunks = map (\<lambda>c. \<lparr>cy_Hash = dp_Hash c, cy_Size = dp_Size c, cy_Data = dp_Data c\<rparr>) (dr_Chunks d)\<rparr>)
   \<and> (\<forall>q. valid_utf8 (cq_Bucket q) \<and> valid_utf8 (cq_Key q) \<and> (\<forall>h \<in> set (cq_Hashes q). valid_utf8 h) \<longrightarrow>
        (\<exists>body. dv_marshal L q = Inr body
           \<and> (length (cq_Bucket q) \<le> 63 \<and> length (cq_Key q) \<le> 1024 \<and> length (cq_Hashes q) \<le> 1000
                \<and> (\<forall>h \<in> set (cq_Hashes q). length h = 64) \<longrightarrow> length body \<le> maxDeltaChunkRequestBytes)
           \<and> (\<forall>rd. content rd = body \<and> reader_err rd = None \<longrightarrow>
                sv_decodeJSON S rd = Inr \<lparr>dq_Bucket = cq_Bucket q, dq_Key = cq_Key q, dq_Hashes = cq_Hashes q\<rparr>)))"

text \<open>What it relies on of \<open>url.Parse\<close>: the endpoint followed by one of the two paths has the
  endpoint's host and that path.\<close>

definition urls_ok :: "'w delta_lib \<Rightarrow> delta_client \<Rightarrow> string \<Rightarrow> bool" where
  "urls_ok L c host \<longleftrightarrow> (let base = trim_right_slashes (trim_space (dl_Endpoint c)) in base \<noteq> []
     \<and> (\<forall>x \<in> set host. visible x)
     \<and> (\<forall>b k. dv_parseURL L (base @ ''/_chunkgate/v1/manifest?'' @ manifest_query b k) = Inr \<lparr>ul_Host = host,
          ul_Path = deltaAPIPrefix @ ''manifest'', ul_EscapedPath = deltaAPIPrefix @ ''manifest'', ul_RawQuery = manifest_query b k\<rparr>)
     \<and> dv_parseURL L (base @ ''/_chunkgate/v1/chunks'') = Inr \<lparr>ul_Host = host,
          ul_Path = deltaAPIPrefix @ ''chunks'', ul_EscapedPath = deltaAPIPrefix @ ''chunks'', ul_RawQuery = []\<rparr>)"

text \<open>The client holds the keys of a credential of the server's verifier.\<close>

definition keys_ok :: "'w delta_lib \<Rightarrow> delta_client \<Rightarrow> verifier \<Rightarrow> credential \<Rightarrow> bool" where
  "keys_ok L c v cr \<longleftrightarrow> same_crypto L v \<and> lookupCredential v (dl_AccessKey c) = Some cr \<and> cd_SecretKey cr = dl_SecretKey c
     \<and> dl_AccessKey c \<noteq> [] \<and> dl_SecretKey c \<noteq> [] \<and> plain_part (dl_AccessKey c) \<and> plain_part (dl_region c)"

lemma exchange:
  assumes "keys_ok L c v cr" "sv_auth S = Some v" "clocks_agree v server e"
    and "trim_right_slashes (trim_space (dl_Endpoint c)) = base" "base \<noteq> []" "dv_parseURL L (base @ p) = Inr u"
    and "\<forall>x \<in> set (ul_Host u). visible x"
  shows "\<exists>r. newRequest L c e meth p body = Inr r \<and> rq_Method r = meth \<and> rq_Path r = ul_Path u
    \<and> rq_RawQuery r = ul_RawQuery u \<and> rq_Body r = bytes_reader body
    \<and> (\<forall>headers. (\<forall>n \<in> {''Authorization'', ''X-Amz-Date'', ''X-Amz-Content-Sha256''}.
         header_values headers n = header_values (rq_Header r) n) \<longrightarrow>
         caller S server (r\<lparr>rq_Header := headers\<rparr>) = Some (cd_Tenant cr))"
proof -
  let ?q = "\<lparr>rq_Method = meth, rq_Host = ul_Host u, rq_Path = ul_Path u, rq_EscapedPath = ul_EscapedPath u,
     rq_RawQuery = ul_RawQuery u, rq_Header = [], rq_ContentLength = int (length body), rq_Body = bytes_reader body\<rparr>"
  let ?r = "signRequest L e ?q body (dl_AccessKey c) (dl_SecretKey c) (dl_region c)"
  have k: "same_crypto L v" "lookupCredential v (dl_AccessKey c) = Some cr" "cd_SecretKey cr = dl_SecretKey c"
    "dl_AccessKey c \<noteq> []" "dl_SecretKey c \<noteq> []" "plain_part (dl_AccessKey c)" "plain_part (dl_region c)"
    using assms(1) by (simp_all add: keys_ok_def)
  have f: "rq_Method ?r = meth" "rq_Host ?r = ul_Host u" "rq_EscapedPath ?r = ul_EscapedPath u" "rq_RawQuery ?r = ul_RawQuery u"
    "rq_Path ?r = ul_Path u" "rq_Body ?r = bytes_reader body"
    by (simp_all add: signRequest_def Let_def)
  have "newRequest L c e meth p body = Inr ?r"
    using assms(4-6) k(4,5) by (simp add: newRequest_def Let_def)
  moreover have "caller S server (?r\<lparr>rq_Header := headers\<rparr>) = Some (cd_Tenant cr)"
    if "\<forall>n \<in> {''Authorization'', ''X-Amz-Date'', ''X-Amz-Content-Sha256''}. header_values headers n = header_values (rq_Header ?r) n"
    for headers
  proof -
    have "Verify (Some v) server (?r\<lparr>rq_Header := headers\<rparr>) = Inr \<lparr>id_AccessKey = cd_AccessKey cr, id_Tenant = cd_Tenant cr\<rparr>"
      by (rule signed_accepted [OF k(1-3) k(6,7) _ assms(3), of ?q _ body]) (use f assms(7) that in simp_all)
    then show ?thesis using lookup_enabled [OF k(2)] by (simp add: caller_def authenticate_def assms(2))
  qed
  ultimately show ?thesis using f by blast
qed


lemma exchange_headers:
  "n \<in> {''Authorization'', ''X-Amz-Date'', ''X-Amz-Content-Sha256''} \<Longrightarrow>
   header_values (header_set ''Accept'' x h) n = header_values h n
   \<and> header_values (header_set ''Content-Type'' y (header_set ''Accept'' x h)) n = header_values h n"
  by (auto simp: header_values_set header_names)

lemma ascii_utf8: "\<forall>c \<in> set s. char_code c < 128 \<Longrightarrow> valid_utf8 s"
  by (simp add: valid_utf8_def rune_segments_plain list_all_iff)

lemma hex_utf8: "valid_utf8 (hex_encode d)"
  by (rule ascii_utf8) (use hex_encode_lower in \<open>fastforce simp: is_lower_hex_def\<close>)

lemma lower_hex_ascii: "is_lower_hex r \<Longrightarrow> r < 128"
  by (auto simp: is_lower_hex_def)

lemma block_hash_utf8: "validBlockHash h \<Longrightarrow> valid_utf8 h"
  by (rule ascii_utf8) (auto simp: validBlockHash_eq is_lower_hex_def)

lemma bucket_utf8: "validateBucketName b \<Longrightarrow> valid_utf8 b"
proof -
  assume "validateBucketName b"
  then have "\<forall>r \<in> set (runes b). lower_alnum r \<or> r = 46 \<or> r = 45" using bucketLoop_all by (auto simp: validateBucketName_def)
  then have "\<forall>c \<in> set b. lower_alnum (of_char c) \<or> (of_char c :: nat) = 46 \<or> (of_char c :: nat) = 45"
    by (subst (asm) runes_all_ascii) (auto simp: lower_alnum_def)
  then show ?thesis by (intro ascii_utf8) (auto simp: lower_alnum_def)
qed

lemma base64_ascii_table: "\<forall>n \<in> set [0..<64]. char_code (base64_digit n) < 128"
  by code_simp

lemma base64_utf8: "valid_utf8 (base64_encode d)"
proof (rule ascii_utf8, rule ballI)
  have t: "n < 64 \<Longrightarrow> char_code (base64_digit n) < 128" for n using bspec [OF base64_ascii_table, of n] by simp
  fix c assume "c \<in> set (base64_encode d)"
  then show "char_code c < 128"
    by (induction d rule: base64_encode.induct) (auto simp: t byte_parts)
qed

lemma manifestChunkList_map:
  "map dk_Hash (manifestChunkList ix cs) = map cr_hash cs" "map dk_Size (manifestChunkList ix cs) = map cr_size cs"
  by (induction ix cs rule: manifestChunkList.induct) simp_all

lemma FetchManifest_served:
  assumes "keys_ok L c v cr" "sv_auth S = Some v" "clocks_agree v (call (call (call e 1) 1) 1) (call e 0)"
    and "urls_ok L c host" "codec_ok L S" "\<And>e r w. dv_do L e r w = (case ServeHTTP S e r w of (rs, w') \<Rightarrow> (Inr rs, w'))"
    and "validateBucketName b" "validateObjectKey k" "valid_utf8 (m_etag m)" "\<forall>h \<in> set (m_chunks m). validBlockHash (cr_hash h)"
    and "\<And>x. Stat (sv_objects S) (call (handler_env (call e 1)) 0) (cd_Tenant cr) b k (objects_of (count_metric x w)) = Inr m"
  shows "\<exists>dm w'. FetchManifest L c e b k w = (Inr dm, w') \<and> aw_meta w' = aw_meta w \<and> aw_blocks w' = aw_blocks w
    \<and> map dc_Hash (df_Chunks dm) = map cr_hash (m_chunks m) \<and> map dc_Size (df_Chunks dm) = map cr_size (m_chunks m)
    \<and> df_Size dm = m_size m \<and> df_ETag dm = m_etag m \<and> df_ObjectMD5 dm = objectMD5FromETag (m_etag m)"
proof -
  define base where "base = trim_right_slashes (trim_space (dl_Endpoint c))"
  have u: "base \<noteq> []" "\<forall>x \<in> set host. visible x" "dv_parseURL L (base @ ''/_chunkgate/v1/manifest?'' @ manifest_query b k) =
      Inr \<lparr>ul_Host = host, ul_Path = deltaAPIPrefix @ ''manifest'', ul_EscapedPath = deltaAPIPrefix @ ''manifest'', ul_RawQuery = manifest_query b k\<rparr>"
    using assms(4) by (simp_all add: urls_ok_def base_def Let_def)
  from exchange [OF assms(1-3) base_def [symmetric] u(1,3), of "''GET''" "[]"] u(2) obtain r where
    r: "newRequest L c (call e 0) ''GET'' (''/_chunkgate/v1/manifest?'' @ manifest_query b k) [] = Inr r"
      "rq_Method r = ''GET''" "rq_Path r = deltaAPIPrefix @ ''manifest''" "rq_RawQuery r = manifest_query b k"
      "\<forall>headers. (\<forall>n \<in> {''Authorization'', ''X-Amz-Date'', ''X-Amz-Content-Sha256''}.
         header_values headers n = header_values (rq_Header r) n) \<longrightarrow>
         caller S (call (call (call e 1) 1) 1) (r\<lparr>rq_Header := headers\<rparr>) = Some (cd_Tenant cr)"
    by auto
  let ?r = "r\<lparr>rq_Header := header_set ''Accept'' ''application/json'' (rq_Header r)\<rparr>"
  have cl: "caller S (call (call (call e 1) 1) 1) ?r = Some (cd_Tenant cr)"
    using r(5) exchange_headers by blast
  have "rq_Path ?r = deltaAPIPrefix @ ''manifest''" "rq_Method ?r = ''GET''" "rq_RawQuery ?r = manifest_query b k" using r by simp_all
  from manifest_served [OF this cl assms(7,8,11)] obtain rs w' e' where
    s: "ServeHTTP S (call e 1) ?r w = (rs, w')" "statusCode rs = 200" "rs_Body rs = [Doc (JsonManifest (makeDeltaManifest e' m))]"
      "aw_meta w' = aw_meta w" "aw_blocks w' = aw_blocks w" by blast
  let ?d = "makeDeltaManifest e' m"
  have "valid_utf8 (dm_ObjectMD5 ?d)"
  proof -
    have "\<forall>x \<in> set (objectMD5FromETag (m_etag m)). char_code x < 128"
    proof (cases "objectMD5FromETag (m_etag m) = []")
      case False
      define z where "z = objectMD5FromETag (m_etag m)"
      with False have "list_all is_lower_hex (runes z)" by (auto simp: objectMD5FromETag_def Let_def split: if_splits)
      then have "\<forall>c \<in> set z. is_lower_hex (char_code c)"
        using runes_all_ascii [of is_lower_hex z, OF lower_hex_ascii] by (simp add: list_all_iff)
      then show ?thesis by (auto simp: z_def is_lower_hex_def)
    qed simp
    then show ?thesis by (simp add: makeDeltaManifest_def ascii_utf8)
  qed
  moreover have "\<forall>c \<in> set (dm_Chunks ?d). valid_utf8 (dk_Hash c)"
  proof -
    have "set (map dk_Hash (dm_Chunks ?d)) = set (map cr_hash (m_chunks m))"
      by (simp only: makeDeltaManifest_def deltaManifestResponse.select_convs manifestChunkList_map)
    then show ?thesis using assms(10) block_hash_utf8 by (auto simp: set_eq_iff) (metis image_iff)
  qed
  ultimately obtain dm where dm: "dv_decodeManifest L [Doc (JsonManifest ?d)] = Inr dm" "decoded_manifest ?d dm"
    using assms(5,9) unfolding codec_ok_def by (metis (no_types, lifting) makeDeltaManifest_def deltaManifestResponse.select_convs(5))
  have "FetchManifest L c e b k w = (Inr dm, w')"
  proof -
    have p: "''/_chunkgate/v1/manifest?bucket='' @ query_escape b @ ''&key='' @ query_escape k =
        ''/_chunkgate/v1/manifest?'' @ manifest_query b k" by (simp add: manifest_query_def)
    have "df_Version dm = 1" using dm(2) by (simp add: decoded_manifest_def makeDeltaManifest_def)
    then show ?thesis
      unfolding FetchManifest_def p r(1) sum.case doJSON_def assms(6) s(1) prod.case s(2,3) dm(1) by simp
  qed
  moreover have "map dc_Hash (df_Chunks dm) = map dk_Hash (dm_Chunks ?d)" "map dc_Size (df_Chunks dm) = map dk_Size (dm_Chunks ?d)"
    using dm(2) by (simp_all add: decoded_manifest_def)
  ultimately show ?thesis
    using s(4,5) dm(2) by (auto simp: decoded_manifest_def makeDeltaManifest_def manifestChunkList_map)
qed


lemma decodeChunks_served:
  assumes "\<forall>p \<in> set ps. base64_decode (cy_Data p) = Some (ch (cy_Hash p)) \<and> cy_Size p = int (length (ch (cy_Hash p)))
    \<and> dv_sha256Hex L (ch (cy_Hash p)) = cy_Hash p"
  shows "\<exists>chs. decodeChunks L ps m = Inr chs \<and> (\<forall>h \<in> cy_Hash ` set ps. map_of chs h = Some (ch h))
    \<and> (\<forall>h. h \<notin> cy_Hash ` set ps \<longrightarrow> map_of chs h = map_of m h)"
  using assms
proof (induction ps arbitrary: m)
  case (Cons p ps)
  from Cons.prems have "\<forall>p \<in> set ps. base64_decode (cy_Data p) = Some (ch (cy_Hash p)) \<and> cy_Size p = int (length (ch (cy_Hash p)))
    \<and> dv_sha256Hex L (ch (cy_Hash p)) = cy_Hash p" by simp
  from Cons.IH [OF this, of "AList.update (cy_Hash p) (ch (cy_Hash p)) m"] obtain chs where
    chs: "decodeChunks L ps (AList.update (cy_Hash p) (ch (cy_Hash p)) m) = Inr chs"
      "\<forall>h \<in> cy_Hash ` set ps. map_of chs h = Some (ch h)"
      "\<forall>h. h \<notin> cy_Hash ` set ps \<longrightarrow> map_of chs h = map_of (AList.update (cy_Hash p) (ch (cy_Hash p)) m) h" by blast
  have "decodeChunks L (p # ps) m = Inr chs" using Cons.prems chs(1) by simp
  moreover have "map_of chs (cy_Hash p) = Some (ch (cy_Hash p))"
    using chs(2,3) by (cases "cy_Hash p \<in> cy_Hash ` set ps") (auto simp: update_conv')
  ultimately show ?case using chs(2,3) by (intro exI [of _ chs]) (simp add: update_conv' del: decodeChunks.simps)
qed simp

lemma FetchChunks_served:
  assumes "keys_ok L c v cr" "sv_auth S = Some v" "clocks_agree v (call (call (call e 1) 1) 1) (call e 0)"
    and "urls_ok L c host" "codec_ok L S" "\<And>e r w. dv_do L e r w = (case ServeHTTP S e r w of (rs, w') \<Rightarrow> (Inr rs, w'))"
    and "validateBucketName b" "validateObjectKey k" "length hs \<le> 1000" "\<forall>h \<in> set hs. validBlockHash h"
    and "\<And>x. ReadChunks (sv_objects S) (call (handler_env (call e 1)) 0) (cd_Tenant cr) b k hs (objects_of (count_metric x w)) = Inr (m, sel)"
    and "sc_Hash ` set sel = set hs" "\<forall>x \<in> set sel. sc_Data x = ch (sc_Hash x) \<and> sc_Size x = int (length (sc_Data x))
      \<and> dv_sha256Hex L (sc_Data x) = sc_Hash x"
  shows "\<exists>chs w2. FetchChunks L c e b k hs w = (Inr chs, w2) \<and> (\<forall>h \<in> set hs. map_of chs h = Some (ch h))"
proof -
  define base where "base = trim_right_slashes (trim_space (dl_Endpoint c))"
  let ?u = "\<lparr>ul_Host = host, ul_Path = deltaAPIPrefix @ ''chunks'', ul_EscapedPath = deltaAPIPrefix @ ''chunks'', ul_RawQuery = []\<rparr>"
  have u: "base \<noteq> []" "\<forall>x \<in> set host. visible x" "dv_parseURL L (base @ ''/_chunkgate/v1/chunks'') = Inr ?u"
    using assms(4) by (simp_all add: urls_ok_def base_def Let_def)
  have bk: "length b \<le> 63" "valid_utf8 b" "length k \<le> 1024" "valid_utf8 k"
    using assms(7,8) bucket_utf8 by (auto simp: validateBucketName_def validateObjectKey_def)
  let ?q = "\<lparr>cq_Bucket = b, cq_Key = k, cq_Hashes = hs\<rparr>"
  have "valid_utf8 (cq_Bucket ?q) \<and> valid_utf8 (cq_Key ?q) \<and> (\<forall>h \<in> set (cq_Hashes ?q). valid_utf8 h)"
    using bk assms(10) block_hash_utf8 by simp
  with assms(5) obtain body where body: "dv_marshal L ?q = Inr body"
    "length (cq_Bucket ?q) \<le> 63 \<and> length (cq_Key ?q) \<le> 1024 \<and> length (cq_Hashes ?q) \<le> 1000
       \<and> (\<forall>h \<in> set (cq_Hashes ?q). length h = 64) \<longrightarrow> length body \<le> maxDeltaChunkRequestBytes"
    "\<forall>rd. content rd = body \<and> reader_err rd = None \<longrightarrow>
       sv_decodeJSON S rd = Inr \<lparr>dq_Bucket = cq_Bucket ?q, dq_Key = cq_Key ?q, dq_Hashes = cq_Hashes ?q\<rparr>"
    unfolding codec_ok_def by blast
  have "length body \<le> maxDeltaChunkRequestBytes"
    using body(2) bk assms(9,10) validBlockHash_length by simp
  then have dec: "sv_decodeJSON S (max_bytes_reader maxDeltaChunkRequestBytes (bytes_reader body)) =
      Inr \<lparr>dq_Bucket = b, dq_Key = k, dq_Hashes = hs\<rparr>"
    using body(3) max_bytes_within [of "bytes_reader body" maxDeltaChunkRequestBytes] by simp
  from exchange [OF assms(1-3) base_def [symmetric] u(1,3), of "''POST''" body] u(2) obtain r where
    r: "newRequest L c (call e 0) ''POST'' ''/_chunkgate/v1/chunks'' body = Inr r"
      "rq_Method r = ''POST''" "rq_Path r = deltaAPIPrefix @ ''chunks''" "rq_Body r = bytes_reader body"
      "\<forall>headers. (\<forall>n \<in> {''Authorization'', ''X-Amz-Date'', ''X-Amz-Content-Sha256''}.
         header_values headers n = header_values (rq_Header r) n) \<longrightarrow>
         caller S (call (call (call e 1) 1) 1) (r\<lparr>rq_Header := headers\<rparr>) = Some (cd_Tenant cr)"
    by auto
  let ?r = "r\<lparr>rq_Header := header_set ''Content-Type'' ''application/json'' (header_set ''Accept'' ''application/json'' (rq_Header r))\<rparr>"
  have cl: "caller S (call (call (call e 1) 1) 1) ?r = Some (cd_Tenant cr)" using r(5) exchange_headers by blast
  have "rq_Path ?r = deltaAPIPrefix @ ''chunks''" "rq_Method ?r = ''POST''"
    "sv_decodeJSON S (max_bytes_reader maxDeltaChunkRequestBytes (rq_Body ?r)) = Inr \<lparr>dq_Bucket = b, dq_Key = k, dq_Hashes = hs\<rparr>"
    using r dec by simp_all
  from chunks_served [OF this(1,2) cl this(3) assms(7-11)] obtain rs w' where
    s: "ServeHTTP S (call e 1) ?r w = (rs, w')" "statusCode rs = 200"
      "rs_Body rs = [Doc (JsonChunks \<lparr>dr_Version = 1, dr_Chunks = map deltaPayload sel\<rparr>)]" by blast
  let ?d = "\<lparr>dr_Version = 1, dr_Chunks = map deltaPayload sel\<rparr>"
  let ?ps = "map (\<lambda>c. \<lparr>cy_Hash = dp_Hash c, cy_Size = dp_Size c, cy_Data = dp_Data c\<rparr>) (dr_Chunks ?d)"
  have "\<forall>x \<in> set sel. valid_utf8 (sc_Hash x)" using assms(10,12) block_hash_utf8 by blast
  then have "\<forall>c \<in> set (dr_Chunks ?d). valid_utf8 (dp_Hash c) \<and> valid_utf8 (dp_Data c)"
    by (simp add: deltaPayload_def base64_utf8)
  with assms(5) have dc: "dv_decodeChunks L [Doc (JsonChunks ?d)] = Inr \<lparr>cz_Version = dr_Version ?d, cz_Chunks = ?ps\<rparr>"
    unfolding codec_ok_def by blast
  have "\<forall>p \<in> set ?ps. base64_decode (cy_Data p) = Some (ch (cy_Hash p)) \<and> cy_Size p = int (length (ch (cy_Hash p)))
    \<and> dv_sha256Hex L (ch (cy_Hash p)) = cy_Hash p"
    using assms(13) by (auto simp: deltaPayload_def)
  from decodeChunks_served [OF this, of "[]"] obtain chs where
    chs: "decodeChunks L ?ps [] = Inr chs" "\<forall>h \<in> cy_Hash ` set ?ps. map_of chs h = Some (ch h)" by blast
  have "cy_Hash ` set ?ps = set hs" using assms(12) by (auto simp: deltaPayload_def image_image)
  moreover have "FetchChunks L c e b k hs w = (Inr chs, w')"
    unfolding FetchChunks_def body(1) sum.case r(1) doJSON_def assms(6) s(1) prod.case s(2,3) dc using chs(1) by simp
  ultimately show ?thesis using chs(2) by blast
qed


section \<open>ETags\<close>

lemma normalizeETag_quoted: "normalizeETag (quoted (hex_encode x)) = hex_encode x"
proof -
  let ?z = "hex_encode x"
  have hex: "is_lower_hex (char_code c)" if "c \<in> set ?z" for c using hex_encode_lower that by blast
  then have vis: "\<forall>c \<in> set (quoted ?z). visible c" by (fastforce simp: quoted_def visible_def is_lower_hex_def)
  have q: "c \<noteq> CHR 0x22" if "c \<in> set ?z" for c using hex [OF that] by (auto simp: is_lower_hex_def)
  have d: "dropWhile (\<lambda>c. c = CHR 0x22) (ys @ [CHR 0x22]) = ys @ [CHR 0x22]" "dropWhile (\<lambda>c. c = CHR 0x22) ys = ys"
    if "ys \<noteq> []" "\<forall>c \<in> set ys. c \<noteq> CHR 0x22" for ys using that by (cases ys; simp)+
  have "trim_byte CHR 0x22 (quoted ?z) = ?z"
  proof (cases "?z = []")
    case False
    with q d [of "rev ?z"] d [of ?z] show ?thesis
      by (simp add: trim_byte_def trim_left_byte_def trim_right_byte_def quoted_def)
  qed (simp add: trim_byte_def trim_left_byte_def trim_right_byte_def quoted_def)
  with trim_space_visible [OF vis] to_lower_hex [of ?z] hex show ?thesis by (simp add: normalizeETag_def)
qed

lemma manifest_md5:
  assumes "df_ETag dm = quoted (hex_encode x)" "df_ObjectMD5 dm = objectMD5FromETag (quoted (hex_encode x))"
  shows "manifestObjectMD5 dm \<noteq> [] \<longrightarrow> hex_encode x = manifestObjectMD5 dm"
proof -
  have l: "to_lower (hex_encode x) = hex_encode x" by (rule to_lower_hex) (use hex_encode_lower in blast)
  have "objectMD5FromETag (quoted (hex_encode x)) \<in> {[], hex_encode x}"
    by (simp add: objectMD5FromETag_def normalizeETag_quoted Let_def)
  then consider "df_ObjectMD5 dm = []" | "df_ObjectMD5 dm = hex_encode x" "df_ObjectMD5 dm \<noteq> []"
    using assms(2) by (cases "df_ObjectMD5 dm = []") auto
  then show ?thesis
  proof cases
    case 1
    then show ?thesis
      by (simp add: manifestObjectMD5_def assms(1) normalizeETag_quoted [unfolded normalizeETag_def] Let_def)
  next
    case 2
    then show ?thesis by (simp add: manifestObjectMD5_def l)
  qed
qed

section \<open>The download of a stored object\<close>

text \<open>The temporary file a download writes before it is renamed to the output.\<close>

definition output_temp :: "env \<Rightarrow> string list \<Rightarrow> string list" where
  "output_temp e output = butlast output @ [''.'' @ last output @ ''.'' @ fresh_id (call e 3) 1 @ ''.tmp'']"

text \<open>No file of the cache has the hash of a stored block and another content.\<close>

definition cache_agrees :: "(bytes \<Rightarrow> bytes) \<Rightarrow> (string \<Rightarrow> bytes option) \<Rightarrow> string list \<Rightarrow> file_tree \<Rightarrow> bool" where
  "cache_agrees sha bm dir fs \<longleftrightarrow>
     (\<forall>h d d'. bm h = Some d \<and> fs (chunk_file dir h) = Some d' \<and> sha d = sha d' \<longrightarrow> d = d')"

lemma ReadChunks_stores:
  "w_meta w = w_meta w' \<Longrightarrow> w_blocks w = w_blocks w' \<Longrightarrow> ReadChunks S e t b k hs w = ReadChunks S e t b k hs w'"
  by (simp add: ReadChunks_def split: sum.splits)

lemma map_eq_members:
  assumes "map f xs = map f' ys" "map g xs = map g' ys" "x \<in> set xs"
  shows "\<exists>y \<in> set ys. f x = f' y \<and> g x = g' y"
proof -
  from assms(3) obtain i where i: "i < length xs" "xs ! i = x" by (auto simp: in_set_conv_nth)
  have "length xs = length ys" using assms(1) by (rule map_eq_imp_length_eq)
  with i assms(1,2) show ?thesis by (intro bexI [of _ "ys ! i"]) (auto dest: arg_cong [of _ _ "\<lambda>l. l ! i"])
qed

text \<open>C40: Download over the server. A client with the keys of a tenant that downloads one of its stored
  objects of at most 1000 chunks, from a server whose stores are consistent and while nothing fails,
  succeeds and writes exactly the stored bytes: both requests are signed, accepted and routed, the
  manifest and the missing chunks arrive, chunks the cache already has are reused, and every check
  of sizes, hashes and the MD5 passes.\<close>

theorem delta_download_serves:
  assumes "fastcdc_library fc fcuts" "sv_objects S = fileService fc sha md sp store cpu"
    and "world_ok (sv_objects S) store (objects_of w)" "quiet e"
    and "mem_committed (aw_meta w) (cd_Tenant cr, b, k) = Some m"
    and "holds_content (sv_objects S) (fs_stored store (aw_blocks w) (cd_Tenant cr)) m d"
    and "validateBucketName b" "validateObjectKey k" "length (m_chunks m) \<le> 1000"
    and "sv_auth S = Some v" "keys_ok L c v cr" "urls_ok L c host" "codec_ok L S" "dv_sha256 L = sha" "dv_md5 L = md"
    and "\<And>e r w. dv_do L e r w = (case ServeHTTP S e r w of (rs, w') \<Rightarrow> (Inr rs, w'))"
    and "\<forall>x \<in> {call e 0, call (call e 2) 0}. clocks_agree v (call (call (call x 1) 1) 1) (call x 0)"
    and "cache_agrees sha (fs_stored store (aw_blocks w) (cd_Tenant cr)) dir fs"
    and "output \<noteq> []" "\<not> under_root (cache_root dir) (output_temp e output)" "fs (output_temp e output) = None"
  shows "\<exists>res w' fs'. Download L c e b k output dir w fs = (Inr res, w', fs') \<and> fs' output = Some d"
proof -
  let ?t = "cd_Tenant cr" and ?st = "fs_stored store (aw_blocks w) (cd_Tenant cr)"
  let ?ch = "\<lambda>h. the (?st h)"
  have sv: "svc_sha256 (sv_objects S) = sha" "svc_md5 (sv_objects S) = md" by (simp_all add: assms(2))
  from assms(6) obtain ds where ds: "concat ds = d" "m_chunks m = chunkRefs sha 0 ds"
    "\<forall>x \<in> set ds. ?st (hex_encode (sha x)) = Some x" "m_size m = int (length d)" "int (length d) \<le> max_int64"
    "m_etag m = quoted (hex_encode (md d))" unfolding holds_content_def sv by blast
  have valid: "validBlockHash (hex_encode (sha x))" for x using assms(3) by (simp add: world_ok_def sv)
  have piece: "\<exists>x \<in> set ds. cr_hash ref = hex_encode (sha x) \<and> cr_size ref = int (length x) \<and> ?ch (cr_hash ref) = x"
    if "ref \<in> set (m_chunks m)" for ref
  proof -
    from that have "ref \<in> set (chunkRefs sha 0 ds)" by (simp only: ds(2))
    from chunkRefs_piece [OF this] obtain x where x: "x \<in> set ds" "cr_hash ref = hex_encode (sha x)" "cr_size ref = int (length x)"
      by blast
    moreover have "?ch (cr_hash ref) = x" unfolding x(2) using ds(3) x(1) by simp
    ultimately show ?thesis by blast
  qed
  have hashes: "\<forall>h \<in> set (m_chunks m). validBlockHash (cr_hash h)" using piece valid by metis
  have stat: "Stat (sv_objects S) x ?t b k (objects_of (count_metric y w)) = Inr m" if "quiet x" for x y
    using mem_get_quiet [OF _ assms(5) quiet_call [OF that]] assms(3)
    by (simp add: Stat_def assms(2) memory_ops_def world_ok_def)
  have utf: "valid_utf8 (m_etag m)"
    unfolding ds(6) by (rule ascii_utf8) (use hex_encode_lower in \<open>fastforce simp: quoted_def is_lower_hex_def\<close>)
  have clk: "clocks_agree v (call (call (call (call e 0) 1) 1) 1) (call (call e 0) 0)"
    "clocks_agree v (call (call (call (call (call e 2) 0) 1) 1) 1) (call (call (call e 2) 0) 0)" using assms(17) by simp_all
  obtain dm w1 where f: "FetchManifest L c (call e 0) b k w = (Inr dm, w1)" "aw_meta w1 = aw_meta w" "aw_blocks w1 = aw_blocks w"
    "map dc_Hash (df_Chunks dm) = map cr_hash (m_chunks m)" "map dc_Size (df_Chunks dm) = map cr_size (m_chunks m)"
    "df_Size dm = m_size m" "df_ETag dm = m_etag m" "df_ObjectMD5 dm = objectMD5FromETag (m_etag m)"
    using FetchManifest_served [OF assms(11,10) clk(1) assms(12,13,16,7,8) utf hashes stat] assms(4)
    by (metis quiet_call)
  have chunk: "\<exists>x \<in> set ds. dc_Hash k = hex_encode (sha x) \<and> dc_Size k = int (length x) \<and> ?ch (dc_Hash k) = x"
    if "k \<in> set (df_Chunks dm)" for k
  proof -
    from map_eq_members [OF f(4,5) that] obtain ref where "ref \<in> set (m_chunks m)" "dc_Hash k = cr_hash ref" "dc_Size k = cr_size ref"
      by blast
    with piece [of ref] show ?thesis by metis
  qed
  show ?thesis
  proof (rule Download_completes [OF assms(4,19) f(1)])
    show "\<forall>k \<in> set (df_Chunks dm). cache_true L ?ch dir fs (dc_Hash k) \<and> dc_Size k = int (length (?ch (dc_Hash k)))"
    proof
      fix k assume "k \<in> set (df_Chunks dm)"
      from chunk [OF this] obtain x where x: "x \<in> set ds" "dc_Hash k = hex_encode (sha x)" "dc_Size k = int (length x)" "?ch (dc_Hash k) = x"
        by blast
      have "y = x" if "fs (chunk_file dir (dc_Hash k)) = Some y" "dv_sha256Hex L y = dc_Hash k" for y
      proof -
        have "sha x = sha y" using that(2) x(2) hex_encode_inj by (metis assms(14) dv_sha256Hex_def)
        then show ?thesis using assms(18) ds(3) x(1,2) that(1) unfolding cache_agrees_def by metis
      qed
      then show "cache_true L ?ch dir fs (dc_Hash k) \<and> dc_Size k = int (length (?ch (dc_Hash k)))"
        unfolding cache_true_def x(4) using valid x(2,3) by (simp add: dv_sha256Hex_def assms(14))
    qed
    show "output_temp e output = butlast output @ [''.'' @ last output @ ''.'' @ fresh_id (call e 3) 1 @ ''.tmp'']"
      by (simp only: output_temp_def)
    show "\<not> under_root (cache_root dir) (output_temp e output)" "fs (output_temp e output) = None" by fact+
    have "map (\<lambda>k. ?ch (dc_Hash k)) (df_Chunks dm) = map ?ch (map cr_hash (chunkRefs sha 0 ds))"
      unfolding ds(2) [symmetric] f(4) [symmetric] by simp
    also have "\<dots> = ds" unfolding chunkRefs_map using ds(3) by (simp add: map_idI)
    finally show "d = concat (map (\<lambda>k. ?ch (dc_Hash k)) (df_Chunks dm))" using ds(1) by simp
    show "df_Size dm = wrap64 (int (length d))"
      unfolding f(6) ds(4) using ds(5) by (simp add: wrap64_id in_int64_def min_int64_def)
    show "manifestObjectMD5 dm \<noteq> [] \<longrightarrow> hex_encode (dv_md5 L d) = manifestObjectMD5 dm"
      unfolding assms(15) by (rule manifest_md5) (simp_all add: f(7,8) ds(6))
    fix hs assume hs: "hs \<noteq> []" "set hs \<subseteq> dc_Hash ` set (df_Chunks dm)" "length hs \<le> length (df_Chunks dm)"
    have "length (df_Chunks dm) = length (m_chunks m)" using f(4) by (rule map_eq_imp_length_eq)
    with hs(3) assms(9) have len: "length hs \<le> 1000" by simp
    have "dc_Hash ` set (df_Chunks dm) = cr_hash ` set (m_chunks m)" using f(4) by (metis list.set_map)
    with hs(2) have sub: "set hs \<subseteq> cr_hash ` set (m_chunks m)" by simp
    then have vh: "\<forall>h \<in> set hs. validBlockHash h" using hashes by blast
    let ?e1 = "call (call e 2) 0"
    let ?ee = "call (handler_env (call ?e1 1)) 0"
    have st: "w_meta (objects_of (count_metric x w1)) = aw_meta w" "w_blocks (objects_of (count_metric x w1)) = aw_blocks w" for x
      using f(2,3) by simp_all
    have ok: "world_ok (sv_objects S) store (objects_of (count_metric x w1))" for x
      using assms(3) world_ok_stores [of "objects_of (count_metric x w1)" "objects_of w"] st by simp
    have q: "quiet ?ee" using assms(4) by simp
    have "mem_committed (w_meta (objects_of (count_metric StartRequest w1))) (?t, b, k) = Some m"
      "holds_content (sv_objects S) (fs_stored store (w_blocks (objects_of (count_metric StartRequest w1))) ?t) m d"
      unfolding st by fact+
    from file_ReadChunks [OF assms(1,2) ok q this hs(1) sub]
    obtain sel where sel: "ReadChunks (sv_objects S) ?ee ?t b k hs (objects_of (count_metric StartRequest w1)) = Inr (m, sel)"
      "sc_Hash ` set sel = set hs" "\<forall>x \<in> set sel. ?st (sc_Hash x) = Some (sc_Data x) \<and> sc_Size x = int (length (sc_Data x))
        \<and> hex_encode (sha (sc_Data x)) = sc_Hash x" unfolding st by blast
    have r: "ReadChunks (sv_objects S) ?ee ?t b k hs (objects_of (count_metric x w1)) = Inr (m, sel)" for x
      using sel(1) ReadChunks_stores [of "objects_of (count_metric x w1)" "objects_of (count_metric StartRequest w1)"] st by simp
    have data: "\<forall>x \<in> set sel. sc_Data x = ?ch (sc_Hash x) \<and> sc_Size x = int (length (sc_Data x)) \<and> dv_sha256Hex L (sc_Data x) = sc_Hash x"
      using sel(3) by (simp add: dv_sha256Hex_def assms(14))
    show "\<exists>chunks w2. FetchChunks L c ?e1 b k hs w1 = (Inr chunks, w2) \<and> (\<forall>h \<in> set hs. map_of chunks h = Some (?ch h))"
      by (rule FetchChunks_served [OF assms(11,10) clk(2) assms(12,13,16,7,8) len vh r sel(2) data])
  qed
qed


section \<open>A concrete exchange\<close>

text \<open>A codec for chunk requests: every character is announced by a one, every string closed by a zero.\<close>

definition toy_text :: "string \<Rightarrow> bytes" where
  "toy_text s = concat (map (\<lambda>c. [1, of_char c]) s) @ [0]"

fun toy_texts :: "bytes \<Rightarrow> string \<Rightarrow> string list" where
  "toy_texts [] cur = []"
| "toy_texts [x] cur = [rev cur]"
| "toy_texts (x # y # bs) cur = (if x = 0 then rev cur # toy_texts (y # bs) [] else toy_texts bs (char_of (unat y) # cur))"

definition toy_marshal :: "chunk_request \<Rightarrow> bytes" where
  "toy_marshal q = concat (map toy_text (cq_Bucket q # cq_Key q # cq_Hashes q))"

definition toy_unmarshal :: "reader \<Rightarrow> err + deltaChunkRequest" where
  "toy_unmarshal rd = (case toy_texts (content rd) [] of
     b # k # hs \<Rightarrow> Inr \<lparr>dq_Bucket = b, dq_Key = k, dq_Hashes = hs\<rparr> | _ \<Rightarrow> Inl (ErrNew ''syntax''))"

lemma of_char_byte: "char_of (unat (of_char c :: byte)) = c"
proof -
  have "(of_char c :: byte) = of_nat (of_char c)" by (simp only: of_nat_of_char)
  then have "unat (of_char c :: byte) = char_code c mod 256" by (simp only: unat_of_nat) simp
  then show ?thesis by simp
qed

lemma toy_texts_text: "toy_texts (toy_text s @ bs) cur = (rev cur @ s) # toy_texts bs []"
proof (induction s arbitrary: cur)
  case Nil
  show ?case by (cases bs) (simp_all add: toy_text_def)
next
  case (Cons c s)
  have "toy_text (c # s) @ bs = 1 # of_char c # toy_text s @ bs" by (simp add: toy_text_def)
  then show ?case using Cons by (simp add: of_char_byte)
qed

lemma toy_texts_concat: "toy_texts (concat (map toy_text ss)) [] = ss"
  by (induction ss) (simp_all add: toy_texts_text)

lemma toy_text_length: "length (toy_text s) = 2 * length s + 1"
  by (induction s) (simp_all add: toy_text_def)

lemma toy_marshal_length:
  "\<forall>h \<in> set hs. length h = 64 \<Longrightarrow> length (concat (map toy_text hs)) = 129 * length hs"
  by (induction hs) (simp_all add: toy_text_length)

definition toy_signed_server :: "(memory_store, file_tree, unit) api_server" where
  "toy_signed_server = toy_server\<lparr>sv_auth := Some toy_cred_verifier, sv_decodeJSON := toy_unmarshal\<rparr>"

definition toy_served_lib :: "(memory_store, file_tree, unit) api_world delta_lib" where
  "toy_served_lib = \<lparr>dv_sha256 = toy_sha, dv_md5 = toy_sha, dv_hmac = toy_mac,
     dv_parseURL = (\<lambda>u. case cut_at CHR ''?'' (drop 1 u) of
       (p, q, _) \<Rightarrow> Inr \<lparr>ul_Host = take 1 u, ul_Path = p, ul_EscapedPath = p, ul_RawQuery = q\<rparr>),
     dv_marshal = (\<lambda>q. Inr (toy_marshal q)),
     dv_decodeManifest = (\<lambda>b. case b of
         [Doc (JsonManifest d)] \<Rightarrow> Inr \<lparr>df_Version = dm_Version d, df_Bucket = dm_Bucket d, df_Key = dm_Key d, df_Size = dm_Size d,
           df_ETag = dm_ETag d, df_ObjectMD5 = dm_ObjectMD5 d, df_Headers = dm_Headers d,
           df_Chunks = map (\<lambda>c. \<lparr>dc_Index = dk_Index c, dc_Hash = dk_Hash c, dc_Offset = dk_Offset c, dc_Size = dk_Size c\<rparr>) (dm_Chunks d)\<rparr>
       | _ \<Rightarrow> Inl (ErrNew ''syntax'')),
     dv_decodeChunks = (\<lambda>b. case b of
         [Doc (JsonChunks d)] \<Rightarrow> Inr \<lparr>cz_Version = dr_Version d,
           cz_Chunks = map (\<lambda>c. \<lparr>cy_Hash = dp_Hash c, cy_Size = dp_Size c, cy_Data = dp_Data c\<rparr>) (dr_Chunks d)\<rparr>
       | _ \<Rightarrow> Inl (ErrNew ''syntax'')),
     dv_bodyText = (\<lambda>b. []), dv_do = (\<lambda>e r w. case ServeHTTP toy_signed_server e r w of (rs, w') \<Rightarrow> (Inr rs, w'))\<rparr>"

lemma toy_codec_ok: "codec_ok toy_served_lib toy_signed_server"
proof -
  have dec: "toy_unmarshal rd = Inr \<lparr>dq_Bucket = cq_Bucket q, dq_Key = cq_Key q, dq_Hashes = cq_Hashes q\<rparr>"
    if "content rd = toy_marshal q" for rd q
    by (simp add: toy_unmarshal_def that toy_marshal_def toy_texts_text toy_texts_concat del: toy_texts.simps)
  have len: "length (toy_marshal q) \<le> maxDeltaChunkRequestBytes"
    if "length (cq_Bucket q) \<le> 63" "length (cq_Key q) \<le> 1024" "length (cq_Hashes q) \<le> 1000" "\<forall>h \<in> set (cq_Hashes q). length h = 64" for q
    using that toy_marshal_length [OF that(4)] by (simp add: toy_marshal_def toy_text_length maxDeltaChunkRequestBytes_def)
  show ?thesis unfolding codec_ok_def
    by (intro conjI allI impI) (use dec len in \<open>auto simp: toy_served_lib_def decoded_manifest_def toy_signed_server_def\<close>)
qed

lemma toy_urls_ok: "urls_ok toy_served_lib toy_cred_client ''h''"
proof -
  have base: "trim_right_slashes (trim_space (dl_Endpoint toy_cred_client)) = ''h''"
    by (simp add: toy_cred_client_def trim_space_visible visible_def trim_right_slashes_def trim_right_byte_def)
  have m: "''h'' @ ''/_chunkgate/v1/manifest?'' @ q = CHR ''h'' # (''/_chunkgate/v1/manifest'' @ CHR ''?'' # q)" for q by simp
  have c: "CHR ''?'' \<notin> set ''/_chunkgate/v1/manifest''" "CHR ''?'' \<notin> set ''/_chunkgate/v1/chunks''" by simp_all
  show ?thesis
    unfolding urls_ok_def base Let_def m
    by (intro conjI allI) (simp_all add: toy_served_lib_def visible_def cut_at_append [OF c(1), simplified] deltaAPIPrefix_def cut_at_def)
qed

lemma toy_keys_ok: "keys_ok toy_served_lib toy_cred_client toy_cred_verifier \<lparr>cd_AccessKey = ''A'', cd_SecretKey = ''s'', cd_Tenant = ''t''\<rparr>"
  by (simp add: keys_ok_def same_crypto_def toy_served_lib_def toy_cred_verifier_def toy_mac_def toy_sha_length lookupCredential_def
    toy_cred_client_def constantTimeStringEqual_def plain_part_def visible_def dl_region_def)

definition toy_object_world :: "(memory_store, file_tree, unit) world" where
  "toy_object_world = snd (Put svc_a env0 ''t'' ''bkt'' ''k'' body_a [] world_0)"

lemma toy_object_put: "\<exists>m. Put svc_a env0 ''t'' ''bkt'' ''k'' body_a [] world_0 = (Inr m, toy_object_world) \<and> length (m_chunks m) \<le> 1000"
proof -
  have "case fst (Put svc_a env0 ''t'' ''bkt'' ''k'' body_a [] world_0) of Inl _ \<Rightarrow> False | Inr m \<Rightarrow> length (m_chunks m) \<le> 1000"
    by code_simp
  then show ?thesis
    by (cases "Put svc_a env0 ''t'' ''bkt'' ''k'' body_a [] world_0") (auto simp: toy_object_world_def split: sum.splits)
qed

theorem delta_download_serves_witness:
  "\<exists>res w' fs'. Download toy_served_lib toy_cred_client env0 ''bkt'' ''k'' [''out''] [''c'']
      (with_objects toy_world toy_object_world) (\<lambda>_. None) = (Inr res, w', fs') \<and> fs' [''out''] = Some [1, 2, 3]"
proof -
  let ?w = "with_objects toy_world toy_object_world"
  have S: "sv_objects toy_signed_server = svc_a" "sv_auth toy_signed_server = Some toy_cred_verifier"
    by (simp_all add: toy_signed_server_def)
  obtain m where p: "Put svc_a env0 ''t'' ''bkt'' ''k'' body_a [] world_0 = (Inr m, toy_object_world)" "length (m_chunks m) \<le> 1000"
    using toy_object_put by blast
  have key: "good_key (''t'', ''bkt'', ''k'')" by (simp add: good_key_def nul_free_def)
  have "put_fresh env0 ''t'' ''bkt'' ''k'' world_0"
    by (simp add: put_fresh_def mem_fresh_def world_0_def NewMemoryStore_def empty_manifest_def)
  from file_Put [OF fallback_lib svc_a_def world_0_ok key this put_a_side(2,3) p(1)]
  have put: "world_ok svc_a store_plain toy_object_world" "mem_committed (w_meta toy_object_world) (''t'', ''bkt'', ''k'') = Some m"
    "holds_content svc_a (fs_stored store_plain (w_blocks toy_object_world) ''t'') m [1, 2, 3]"
    by (auto simp: body_a_def)
  have w: "w_meta (objects_of ?w) = w_meta toy_object_world" "w_blocks (objects_of ?w) = w_blocks toy_object_world"
    by (simp_all add: objects_of_def with_objects_def)
  have ok: "world_ok (sv_objects toy_signed_server) store_plain (objects_of ?w)"
    using put(1) world_ok_stores [OF w] by (simp add: S)
  have names: "validateBucketName ''bkt''" "validateObjectKey ''k''"
    using toy_object_request by (simp_all add: object_request_def keyed_request_def)
  have lib: "dv_sha256 toy_served_lib = toy_sha" "dv_md5 toy_served_lib = toy_sha"
    "dv_do toy_served_lib e r w = (case ServeHTTP toy_signed_server e r w of (rs, w') \<Rightarrow> (Inr rs, w'))" for e r w
    by (simp_all add: toy_served_lib_def)
  have clock: "clocks_agree toy_cred_verifier env0 env0"
    by (simp add: clocks_agree_def toy_cred_verifier_def now_def env0_def max_int64_def)
  have temp: "output_temp env0 [''out''] = [''.out.id.tmp'']" by (simp add: output_temp_def)
  have outside: "\<not> under_root (cache_root [''c'']) [''.out.id.tmp'']" by (simp add: under_root_def cache_root_def)
  show ?thesis
    by (rule delta_download_serves [OF fallback_lib S(1) [unfolded svc_a_def] ok quiet_env0 _ _ names p(2) S(2) toy_keys_ok
        toy_urls_ok toy_codec_ok lib])
      (use put(2,3) in \<open>simp_all add: S with_objects_def cache_agrees_def clock temp outside\<close>)
qed

end
