(* ===== verification/GoStamp.thy ===== *)
theory GoStamp
  imports GoTime
begin

text \<open>
  Times as the SQL stores keep them: the text \<open>time.RFC3339Nano\<close> gives in UTC, and its parser.
  Proved: a formatted time is parsed back to the same instant, and the byte order of two texts
  agrees with the order of their whole seconds (not of the nanoseconds, whose trailing zeros the
  layout drops).
\<close>

section \<open>Formatting and parsing\<close>

text \<open>The layout's fraction \<open>.999999999\<close>: nine digits without the trailing zeros, nothing for 0.\<close>

definition format_fraction :: "nat \<Rightarrow> string" where
  "format_fraction n = (if n = 0 then []
     else CHR ''.'' # rev (dropWhile (\<lambda>c. c = CHR ''0'') (rev (pad_digits 9 n))))"

definition format_seconds :: "amz_time \<Rightarrow> string" where
  "format_seconds t = pad_digits 4 (at_year t) @ ''-'' @ pad_digits 2 (at_month t) @ ''-'' @ pad_digits 2 (at_day t)
     @ ''T'' @ pad_digits 2 (at_hour t) @ '':'' @ pad_digits 2 (at_minute t) @ '':'' @ pad_digits 2 (at_second t)"

definition format_rfc3339 :: "amz_time \<Rightarrow> string" where
  "format_rfc3339 t = format_seconds t @ format_fraction (at_nanos t) @ ''Z''"

definition uint_field :: "nat \<Rightarrow> nat \<Rightarrow> string \<Rightarrow> nat option" where
  "uint_field lo hi s =
     (if list_all digit_char s \<and> lo \<le> digits_value s \<and> digits_value s \<le> hi then Some (digits_value s) else None)"

text \<open>The zone after the time: \<open>Z\<close>, or an offset in seconds.\<close>

definition parse_zone :: "string \<Rightarrow> int option" where
  "parse_zone s =
     (if s = ''Z'' then Some 0
      else if length s \<noteq> 6 then None
      else case uint_field 0 23 (take 2 (drop 1 s)) of None \<Rightarrow> None | Some hr \<Rightarrow>
           case uint_field 0 59 (drop 4 s) of None \<Rightarrow> None | Some mm \<Rightarrow>
           if (s ! 0 = CHR ''-'' \<or> s ! 0 = CHR ''+'') \<and> s ! 3 = CHR '':''
           then Some ((if s ! 0 = CHR ''-'' then -1 else 1) * int ((hr * 60 + mm) * 60)) else None)"

text \<open>\<open>time.Parse\<close> with the layout \<open>RFC3339Nano\<close>, up to the forms the layout itself does not
  produce and the library tolerates (an hour of one digit).\<close>

definition parse_rfc3339 :: "string \<Rightarrow> int option" where
  "parse_rfc3339 s =
     (if length s < 19 then None else
      case uint_field 0 9999 (take 4 s) of None \<Rightarrow> None | Some y \<Rightarrow>
      case uint_field 1 12 (take 2 (drop 5 s)) of None \<Rightarrow> None | Some mo \<Rightarrow>
      case uint_field 1 (month_days y mo) (take 2 (drop 8 s)) of None \<Rightarrow> None | Some d \<Rightarrow>
      case uint_field 0 23 (take 2 (drop 11 s)) of None \<Rightarrow> None | Some h \<Rightarrow>
      case uint_field 0 59 (take 2 (drop 14 s)) of None \<Rightarrow> None | Some mi \<Rightarrow>
      case uint_field 0 59 (take 2 (drop 17 s)) of None \<Rightarrow> None | Some sec \<Rightarrow>
      if \<not> (s ! 4 = CHR ''-'' \<and> s ! 7 = CHR ''-'' \<and> s ! 10 = CHR ''T'' \<and> s ! 13 = CHR '':'' \<and> s ! 16 = CHR '':'')
      then None
      else case take_fraction (drop 19 s) of (frac, rest) \<Rightarrow>
      map_option (\<lambda>zone. time_nanos \<lparr>at_year = y, at_month = mo, at_day = d, at_hour = h, at_minute = mi,
          at_second = sec, at_nanos = frac\<rparr> - zone * 1000000000) (parse_zone rest))"

text \<open>Go's zero \<open>time.Time\<close>, which is represented by 0, is the first instant of the year 1.\<close>

definition zero_wall :: int where
  "zero_wall = -62135596800 * 1000000000"

definition formatTime :: "int \<Rightarrow> string" where
  "formatTime t = format_rfc3339 (utc_time (if t = 0 then zero_wall else t))"

text \<open>The stores ignore the parser's error: the time is then the zero time.\<close>

definition parseTime :: "string \<Rightarrow> int" where
  "parseTime s = (case parse_rfc3339 s of None \<Rightarrow> 0 | Some t \<Rightarrow> if t = zero_wall then 0 else t)"

section \<open>A formatted time is parsed back\<close>

lemma uint_field_pad: "lo \<le> n \<Longrightarrow> n \<le> hi \<Longrightarrow> uint_field lo hi (pad_digits w n) = Some n"
  by (simp add: uint_field_def pad_digits_digits pad_digits_value)

lemma digits_append_zeros:
  "foldl (\<lambda>n c. 10 * n + (of_char c - 48)) (a :: nat) (replicate k CHR ''0'') = a * 10 ^ k"
  by (induction k arbitrary: a) (simp_all add: algebra_simps)

lemma strip_zeros:
  obtains k where "s = rev (dropWhile (\<lambda>c. c = CHR ''0'') (rev s)) @ replicate k CHR ''0''"
proof -
  have "s = rev (dropWhile (\<lambda>c. c = CHR ''0'') (rev s)) @ rev (takeWhile (\<lambda>c. c = CHR ''0'') (rev s))"
    by (metis rev_append rev_rev_ident takeWhile_dropWhile_id)
  moreover have "takeWhile (\<lambda>c. c = CHR ''0'') (rev s) = replicate (length (takeWhile (\<lambda>c. c = CHR ''0'') (rev s))) CHR ''0''"
    by (rule replicate_eqI) (auto dest: set_takeWhileD)
  then have "rev (takeWhile (\<lambda>c. c = CHR ''0'') (rev s)) = replicate (length (takeWhile (\<lambda>c. c = CHR ''0'') (rev s))) CHR ''0''"
    by (metis rev_replicate)
  ultimately show ?thesis using that by simp
qed

lemma take_fraction_format:
  assumes "n < 1000000000"
  shows "take_fraction (format_fraction n @ ''Z'') = (n, ''Z'')"
proof (cases "n = 0")
  case True
  then show ?thesis by (simp add: format_fraction_def take_fraction_def)
next
  case False
  define p where "p = pad_digits 9 n"
  define f where "f = rev (dropWhile (\<lambda>c. c = CHR ''0'') (rev p))"
  obtain k where k: "p = f @ replicate k CHR ''0''" using strip_zeros [of p] by (auto simp: f_def)
  have len: "length p = 9" using assms by (simp add: p_def pad_digits_length)
  have dig: "list_all digit_char f" using pad_digits_digits [of 9 n] k by (simp add: p_def)
  have val: "digits_value p = n" by (simp add: p_def pad_digits_value)
  have "f \<noteq> []"
  proof
    assume "f = []"
    then have "digits_value p = 0" using k by (simp add: digits_value_def digits_append_zeros)
    with val False show False by simp
  qed
  then obtain d t where f: "f = d # t" by (cases f) auto
  have z: "\<not> digit_char CHR ''Z''" by (simp add: digit_char_def is_digit_def)
  have tw: "takeWhile digit_char (f @ ''Z'') = f" "dropWhile digit_char (f @ ''Z'') = ''Z''"
    using dig z by (simp_all add: list_all_iff)
  have "take 9 (f @ replicate 9 CHR ''0'') = p" using k len by (simp add: take_append)
  then have "take_fraction (CHR ''.'' # f @ ''Z'') = (digits_value p, ''Z'')"
    using dig tw by (simp add: f take_fraction_def Let_def)
  then show ?thesis using False val by (simp add: format_fraction_def f_def p_def)
qed

lemma parse_format_rfc3339:
  assumes "time_ok t" "at_nanos t < 1000000000"
  shows "parse_rfc3339 (format_rfc3339 t) = Some (time_nanos t)"
proof -
  have b: "at_month t < 100" "at_day t < 100" "at_hour t < 100" "at_minute t < 100" "at_second t < 100"
    using assms month_days_pos [of "at_year t" "at_month t"] by (auto simp: time_ok_def)
  obtain y1 y2 y3 y4 where y: "pad_digits 4 (at_year t) = [y1, y2, y3, y4]"
  proof -
    have "length (pad_digits 4 (at_year t)) = 4" using assms(1) by (intro pad_digits_length) (simp_all add: time_ok_def)
    then show ?thesis using that by (auto simp: numeral_eq_Suc length_Suc_conv)
  qed
  have two: "\<exists>a b. pad_digits 2 n = [a, b]" if "n < 100" for n using pad_two [OF that] by blast
  obtain m1 m2 where m: "pad_digits 2 (at_month t) = [m1, m2]" using two [OF b(1)] by blast
  obtain d1 d2 where d: "pad_digits 2 (at_day t) = [d1, d2]" using two [OF b(2)] by blast
  obtain h1 h2 where h: "pad_digits 2 (at_hour t) = [h1, h2]" using two [OF b(3)] by blast
  obtain i1 i2 where i: "pad_digits 2 (at_minute t) = [i1, i2]" using two [OF b(4)] by blast
  obtain s1 s2 where s: "pad_digits 2 (at_second t) = [s1, s2]" using two [OF b(5)] by blast
  note parts = y [symmetric] m [symmetric] d [symmetric] h [symmetric] i [symmetric] s [symmetric]
  have fmt: "format_rfc3339 t = [y1, y2, y3, y4, CHR ''-'', m1, m2, CHR ''-'', d1, d2, CHR ''T'', h1, h2, CHR '':'',
      i1, i2, CHR '':'', s1, s2] @ format_fraction (at_nanos t) @ ''Z''"
    by (simp add: format_rfc3339_def format_seconds_def y m d h i s)
  have ok: "uint_field 0 9999 [y1, y2, y3, y4] = Some (at_year t)"
      "uint_field 1 12 [m1, m2] = Some (at_month t)"
      "uint_field 1 (month_days (at_year t) (at_month t)) [d1, d2] = Some (at_day t)"
      "uint_field 0 23 [h1, h2] = Some (at_hour t)" "uint_field 0 59 [i1, i2] = Some (at_minute t)"
      "uint_field 0 59 [s1, s2] = Some (at_second t)"
    unfolding parts using assms(1) by (simp_all add: uint_field_pad time_ok_def)
  show ?thesis
    unfolding parse_rfc3339_def fmt
    by (simp add: ok [simplified] take_fraction_format [OF assms(2)] parse_zone_def time_nanos_def)
qed

lemma time_nanos_split: "time_nanos t = time_nanos (t\<lparr>at_nanos := 0\<rparr>) + int (at_nanos t)"
  by (simp add: time_nanos_eq)

lemma utc_time_nanos: "at_nanos (utc_time n) = nat (n mod 1000000000)"
  by (simp add: utc_time_def Let_def split: prod.split)

lemma first_day: "civil_year 0 = (1, 0)" "month_from 1 1 0 = (1, 1)"
  by (simp add: civil_year_def) (subst month_from.simps, simp add: month_days_def)

lemma utc_zero_wall: "utc_time zero_wall = \<lparr>at_year = 1, at_month = 1, at_day = 1, at_hour = 0, at_minute = 0,
    at_second = 0, at_nanos = 0\<rparr>"
proof -
  have "zero_wall div 1000000000 = -62135596800" "zero_wall mod 1000000000 = 0" by (simp_all add: zero_wall_def)
  then show ?thesis by (simp add: utc_time_def first_day [simplified])
qed

text \<open>The stored text of a time names exactly that time.\<close>

lemma parseTime_formatTime [simp]:
  assumes "0 \<le> t" "t \<le> max_int64"
  shows "parseTime (formatTime t) = t"
proof (cases "t = 0")
  case True
  have "time_nanos (utc_time zero_wall) = zero_wall"
    unfolding utc_zero_wall by (simp add: time_nanos_def zero_wall_def days_before_month_def)
  moreover have "parse_rfc3339 (format_rfc3339 (utc_time zero_wall)) = Some (time_nanos (utc_time zero_wall))"
    by (rule parse_format_rfc3339) (simp_all add: utc_zero_wall time_ok_def month_days_def)
  ultimately show ?thesis using True by (simp add: formatTime_def parseTime_def)
next
  case False
  have "time_nanos (utc_time t) = t div 1000000000 * 1000000000 + t mod 1000000000"
    using time_nanos_split [of "utc_time t"] utc_time_correct(2) [OF assms] by (simp add: utc_time_nanos)
  moreover have "parse_rfc3339 (format_rfc3339 (utc_time t)) = Some (time_nanos (utc_time t))"
    using utc_time_correct(1) [OF assms] by (intro parse_format_rfc3339) (simp_all add: utc_time_nanos nat_less_iff)
  moreover have "t \<noteq> zero_wall" using assms(1) by (simp add: zero_wall_def)
  ultimately show ?thesis using False by (simp add: formatTime_def parseTime_def)
qed

section \<open>The order of the texts\<close>

lemma text_prefix: "length p = length q \<Longrightarrow> p @ u \<le> q @ v \<Longrightarrow> p < q \<or> (p = q \<and> u \<le> (v :: string))"
  by (induction p q rule: list_induct2) auto

lemma digit_order: "digit_char a \<Longrightarrow> digit_char b \<Longrightarrow> a < b \<longleftrightarrow> (of_char a :: nat) - 48 < of_char b - 48"
  by (auto simp: digit_char_def is_digit_def less_char_def)

lemma digits_bound:
  "list_all digit_char s \<Longrightarrow> foldl (\<lambda>n c. 10 * n + (of_char c - 48)) (a :: nat) s < (a + 1) * 10 ^ length s"
proof (induction s arbitrary: a)
  case (Cons c s)
  have "10 * a + (of_char c - 48) + 1 \<le> 10 * (a + 1)" using Cons.prems
    by (auto simp: digit_char_def is_digit_def)
  then have "(10 * a + (of_char c - 48) + 1) * 10 ^ length s \<le> 10 * (a + 1) * 10 ^ length s" by (rule mult_le_mono1)
  moreover have "foldl (\<lambda>n c. 10 * n + (of_char c - 48)) (10 * a + (of_char c - 48)) s
      < (10 * a + (of_char c - 48) + 1) * 10 ^ length s" using Cons.IH Cons.prems by simp
  ultimately show ?case by (simp add: algebra_simps)
qed simp

lemma digits_least: "a * 10 ^ length s \<le> foldl (\<lambda>n c. 10 * n + (of_char c - 48)) (a :: nat) s"
proof (induction s arbitrary: a)
  case (Cons c s)
  have "10 * a * 10 ^ length s \<le> (10 * a + (of_char c - 48)) * 10 ^ length s" by (rule mult_le_mono1) simp
  with Cons.IH [of "10 * a + (of_char c - 48)"] show ?case by (simp add: algebra_simps)
qed simp

lemma digits_order:
  "length s = length t \<Longrightarrow> list_all digit_char s \<Longrightarrow> list_all digit_char t \<Longrightarrow> s < t \<Longrightarrow>
   foldl (\<lambda>n c. 10 * n + (of_char c - 48)) a s < foldl (\<lambda>n c. 10 * n + (of_char c - 48)) (a :: nat) t"
proof (induction s t arbitrary: a rule: list_induct2)
  case (Cons c s d t)
  show ?case
  proof (cases "c = d")
    case True
    with Cons show ?thesis by simp
  next
    case False
    with Cons.prems have lt: "c < d" "digit_char c" "digit_char d" by auto
    with digit_order [of c d] have le: "10 * a + (of_char c - 48) + 1 \<le> 10 * a + (of_char d - 48)" by simp
    have "foldl (\<lambda>n c. 10 * n + (of_char c - 48)) (10 * a + (of_char c - 48)) s
        < (10 * a + (of_char c - 48) + 1) * 10 ^ length s"
      using Cons.prems by (intro digits_bound) simp
    also have "\<dots> \<le> (10 * a + (of_char d - 48)) * 10 ^ length s" using le by (rule mult_le_mono1)
    also have "\<dots> \<le> foldl (\<lambda>n c. 10 * n + (of_char c - 48)) (10 * a + (of_char d - 48)) t"
      using digits_least [of _ t] Cons.hyps by simp
    finally show ?thesis by simp
  qed
qed simp

lemma pad_order:
  assumes "n < 10 ^ w" "m < 10 ^ w" "0 < w" "pad_digits w n @ u \<le> pad_digits w m @ v"
  shows "n < m \<or> (n = m \<and> u \<le> v)"
proof -
  have len: "length (pad_digits w n) = length (pad_digits w m)" using assms by (simp add: pad_digits_length)
  from text_prefix [OF this assms(4)] show ?thesis
  proof
    assume "pad_digits w n < pad_digits w m"
    from digits_order [OF len pad_digits_digits pad_digits_digits this, of 0] show ?thesis
      using pad_digits_value [of w n] pad_digits_value [of w m] by (simp add: digits_value_def)
  next
    assume *: "pad_digits w n = pad_digits w m \<and> u \<le> v"
    then have "n = m" by (metis pad_digits_value)
    with * show ?thesis by simp
  qed
qed


lemma field_order:
  "n < 10 ^ w \<Longrightarrow> m < 10 ^ w \<Longrightarrow> 0 < w \<Longrightarrow> pad_digits w n @ c # u \<le> pad_digits w m @ c # v \<Longrightarrow>
   n < m \<or> (n = m \<and> u \<le> v)"
  using pad_order [of n w m "c # u" "c # v"] by simp

text \<open>Dates in the order of their fields are in the order of time.\<close>

lemma div_next: "0 < n \<Longrightarrow> int (Suc z div n) = int (z div n) + (if n dvd Suc z then 1 else 0)"
  by (simp add: div_Suc dvd_eq_mod_eq_0)

lemma next_year:
  assumes "1 \<le> y"
  shows "days_before_year (int y + 1) = days_before_year (int y) + int (days_before_month y 13)"
proof -
  obtain z where z: "y = Suc z" using assms by (cases y) auto
  have d: "days_before_year (int (Suc n)) = 365 * int n + int (n div 4) - int (n div 100) + int (n div 400)" for n
    by (simp add: days_before_year_def zdiv_int)
  have "int (y div 4) = int (z div 4) + (if 4 dvd y then 1 else 0)"
    "int (y div 100) = int (z div 100) + (if 100 dvd y then 1 else 0)"
    "int (y div 400) = int (z div 400) + (if 400 dvd y then 1 else 0)"
    unfolding z by (rule div_next; simp)+
  then have "days_before_year (int (Suc y)) = days_before_year (int y) + 365 + (if 4 dvd y then 1 else 0)
      - (if 100 dvd y then 1 else 0) + (if 400 dvd y then 1 else 0)"
    using d [of y] d [of z] by (simp add: z)
  moreover have "400 dvd y \<Longrightarrow> 100 dvd y" "100 dvd y \<Longrightarrow> 4 dvd y"
    using dvd_trans [of 100 400 y] dvd_trans [of 4 100 y] by simp_all
  moreover have "leap_year y \<longleftrightarrow> 4 dvd y \<and> (\<not> 100 dvd y \<or> 400 dvd y)"
    by (simp add: leap_year_def dvd_eq_mod_eq_0)
  moreover have y: "int y + 1 = int (Suc y)" by simp
  ultimately show ?thesis unfolding days_before_year_end y
    by (cases "4 dvd y"; cases "100 dvd y"; cases "400 dvd y") (simp_all del: of_nat_Suc)
qed

lemma year_mono: "1 \<le> y \<Longrightarrow> y < y' \<Longrightarrow> days_before_year (int y) + int (days_before_month y 13) \<le> days_before_year (int y')"
proof (induction y')
  case (Suc y')
  show ?case
  proof (cases "y = y'")
    case True
    with next_year [of y] Suc.prems show ?thesis by (simp add: add.commute)
  next
    case False
    with Suc have "days_before_year (int y) + int (days_before_month y 13) \<le> days_before_year (int y')" by simp
    also have "\<dots> \<le> days_before_year (int (Suc y'))" using next_year [of y'] Suc.prems by (simp add: add.commute)
    finally show ?thesis .
  qed
qed simp

lemma month_mono: "1 \<le> m \<Longrightarrow> m < m' \<Longrightarrow> days_before_month y m + month_days y m \<le> days_before_month y m'"
proof (induction m')
  case (Suc m')
  show ?case
  proof (cases "m = m'")
    case True
    with days_before_Suc [of m y] Suc.prems show ?thesis by simp
  next
    case False
    with Suc have "days_before_month y m + month_days y m \<le> days_before_month y m'" by simp
    then show ?thesis using days_before_Suc [of m' y] Suc.prems by simp
  qed
qed simp

definition day_number :: "amz_time \<Rightarrow> int" where
  "day_number t = days_before_year (int (at_year t)) + int (days_before_month (at_year t) (at_month t)) + int (at_day t)"

lemma day_number_mono:
  assumes "time_ok a" "time_ok b" "1 \<le> at_year a"
    and "at_year a < at_year b \<or> (at_year a = at_year b \<and> (at_month a < at_month b
      \<or> (at_month a = at_month b \<and> at_day a < at_day b)))"
  shows "day_number a < day_number b"
proof -
  have a: "days_before_month (at_year a) (at_month a) + at_day a \<le> days_before_month (at_year a) 13"
    using assms(1) month_mono [of "at_month a" 13 "at_year a"] by (auto simp: time_ok_def)
  from assms(4) consider (y) "at_year a < at_year b" | (m) "at_year a = at_year b" "at_month a < at_month b"
    | (d) "at_year a = at_year b" "at_month a = at_month b" "at_day a < at_day b" by blast
  then show ?thesis
  proof cases
    case y
    with year_mono [OF assms(3) y] a assms(2) show ?thesis by (simp add: day_number_def time_ok_def)
  next
    case m
    with month_mono [of "at_month a" "at_month b" "at_year a"] assms(1,2) show ?thesis
      by (simp add: day_number_def time_ok_def)
  next
    case d
    then show ?thesis by (simp add: day_number_def)
  qed
qed

lemma day_seconds: "x < y \<Longrightarrow> p < 86400 \<Longrightarrow> 0 \<le> q \<Longrightarrow> (x - z) * 86400 + p \<le> (y - z) * 86400 + (q :: int)"
  by simp

lemma seconds_order:
  assumes "time_ok a" "time_ok b" "1 \<le> at_year a" "format_seconds a @ u \<le> format_seconds b @ v"
  shows "time_nanos (a\<lparr>at_nanos := 0\<rparr>) \<le> time_nanos (b\<lparr>at_nanos := 0\<rparr>)"
proof -
  have lim: "at_year a < 10 ^ 4" "at_year b < 10 ^ 4" "at_month a < 10 ^ 2" "at_month b < 10 ^ 2" "at_day a < 10 ^ 2"
    "at_day b < 10 ^ 2" "at_hour a < 10 ^ 2" "at_hour b < 10 ^ 2" "at_minute a < 10 ^ 2" "at_minute b < 10 ^ 2"
    "at_second a < 10 ^ 2" "at_second b < 10 ^ 2"
    using assms(1,2) month_days_pos [of "at_year a" "at_month a"] month_days_pos [of "at_year b" "at_month b"]
    by (auto simp: time_ok_def)
  let ?hms = "\<lambda>t. (int (at_hour t) * 60 + int (at_minute t)) * 60 + int (at_second t)"
  have nanos: "time_nanos (t\<lparr>at_nanos := 0\<rparr>) = ((day_number t - 719163) * 86400 + ?hms t) * 1000000000" for t
    by (simp add: time_nanos_eq day_number_def algebra_simps)
  have hms: "0 \<le> ?hms t" "?hms t < 86400" if "time_ok t" for t using that by (auto simp: time_ok_def)
  let ?s = "\<lambda>t w. pad_digits 2 (at_second t) @ w"
  let ?i = "\<lambda>t w. pad_digits 2 (at_minute t) @ CHR '':'' # ?s t w"
  let ?h = "\<lambda>t w. pad_digits 2 (at_hour t) @ CHR '':'' # ?i t w"
  let ?d = "\<lambda>t w. pad_digits 2 (at_day t) @ CHR ''T'' # ?h t w"
  let ?m = "\<lambda>t w. pad_digits 2 (at_month t) @ CHR ''-'' # ?d t w"
  have f: "format_seconds t @ w = pad_digits 4 (at_year t) @ CHR ''-'' # ?m t w" for t w
    by (simp add: format_seconds_def)
  have "at_year a < at_year b \<or> (at_year a = at_year b \<and> ?m a u \<le> ?m b v)"
    by (rule field_order [OF lim(1,2) _ assms(4) [unfolded f]]) simp
  moreover have "?m a u \<le> ?m b v \<Longrightarrow> at_month a < at_month b \<or> (at_month a = at_month b \<and> ?d a u \<le> ?d b v)"
    by (rule field_order [OF lim(3,4)]) simp_all
  moreover have "?d a u \<le> ?d b v \<Longrightarrow> at_day a < at_day b \<or> (at_day a = at_day b \<and> ?h a u \<le> ?h b v)"
    by (rule field_order [OF lim(5,6)]) simp_all
  moreover have "?h a u \<le> ?h b v \<Longrightarrow> at_hour a < at_hour b \<or> (at_hour a = at_hour b \<and> ?i a u \<le> ?i b v)"
    by (rule field_order [OF lim(7,8)]) simp_all
  moreover have "?i a u \<le> ?i b v \<Longrightarrow> at_minute a < at_minute b \<or> (at_minute a = at_minute b \<and> ?s a u \<le> ?s b v)"
    by (rule field_order [OF lim(9,10)]) simp_all
  moreover have "?s a u \<le> ?s b v \<Longrightarrow> at_second a \<le> at_second b"
    using pad_order [OF lim(11,12), of u v] by auto
  ultimately have "at_year a < at_year b \<or> (at_year a = at_year b \<and> (at_month a < at_month b \<or> (at_month a = at_month b \<and>
      (at_day a < at_day b \<or> (at_day a = at_day b \<and> (at_hour a < at_hour b \<or> (at_hour a = at_hour b \<and>
      (at_minute a < at_minute b \<or> (at_minute a = at_minute b \<and> at_second a \<le> at_second b)))))))))"
    by argo
  then consider (d) "at_year a < at_year b \<or> (at_year a = at_year b \<and> (at_month a < at_month b
      \<or> (at_month a = at_month b \<and> at_day a < at_day b)))"
    | (h) "day_number a = day_number b" "?hms a \<le> ?hms b"
    using assms(1,2) by (auto simp: day_number_def time_ok_def)
  then show ?thesis
  proof cases
    case d
    from day_number_mono [OF assms(1-3) d] hms [OF assms(1)] hms [OF assms(2)]
    have "(day_number a - 719163) * 86400 + ?hms a \<le> (day_number b - 719163) * 86400 + ?hms b"
      by (intro day_seconds)
    then show ?thesis unfolding nanos by (rule mult_right_mono) simp
  next
    case h
    then have "(day_number a - 719163) * 86400 + ?hms a \<le> (day_number b - 719163) * 86400 + ?hms b" by simp
    then show ?thesis unfolding nanos by (rule mult_right_mono) simp
  qed
qed

lemma formatTime_order:
  assumes "0 < a" "a \<le> max_int64" "0 < b" "b \<le> max_int64" "formatTime a \<le> formatTime b"
  shows "a div 1000000000 \<le> b div 1000000000"
proof -
  have y: "1 \<le> at_year (utc_time a)"
    using civil_year_correct(1) by (auto simp: utc_time_def Let_def split: prod.split)
  have "format_seconds (utc_time a) @ format_fraction (at_nanos (utc_time a)) @ ''Z''
      \<le> format_seconds (utc_time b) @ format_fraction (at_nanos (utc_time b)) @ ''Z''"
    using assms by (simp add: formatTime_def format_rfc3339_def)
  from seconds_order [OF _ _ y this] utc_time_correct [of a] utc_time_correct [of b] assms show ?thesis by simp
qed

end
