(* ===== verification/GoJson.thy ===== *)
theory GoJson
  imports HttpLib
begin

text \<open>
  What the SQL stores use of \<open>encoding/json\<close>: the encoding of a map from strings to strings and
  its decoding. Proved: an encoded map is decoded to the same entries, with the bytes that are
  not UTF-8 replaced by U+FFFD.
\<close>

section \<open>Encoding\<close>

definition quote_char :: char where
  "quote_char = CHR 0x22"

definition backslash :: char where
  "backslash = CHR 0x5C"

text \<open>The bytes of U+FFFD, and the escapes \<open>\u00xx\<close> and \<open>\u202x\<close>.\<close>

definition replacement :: string where
  "replacement = [CHR 0xEF, CHR 0xBF, CHR 0xBD]"

definition escape_byte :: "nat \<Rightarrow> string" where
  "escape_byte b = backslash # ''u00'' @ [hex_digit (b div 16), hex_digit (b mod 16)]"

text \<open>One rune of a string, with its bytes: quotes, backslashes, control characters, the three
  characters HTML gives a meaning and the two line separators of JavaScript are escaped.\<close>

definition escape_rune :: "nat \<times> bool \<times> string \<Rightarrow> string" where
  "escape_rune x =
     (case x of (r, ok, t) \<Rightarrow>
        if r < 128 then
          (if r = 34 \<or> r = 92 then backslash # t
           else if r = 8 then [backslash, CHR ''b''] else if r = 12 then [backslash, CHR ''f'']
           else if r = 10 then [backslash, CHR ''n''] else if r = 13 then [backslash, CHR ''r'']
           else if r = 9 then [backslash, CHR ''t'']
           else if r < 32 \<or> r = 60 \<or> r = 62 \<or> r = 38 then escape_byte r
           else t)
        else if \<not> ok then backslash # ''ufffd''
        else if r = 8232 \<or> r = 8233 then backslash # ''u202'' @ [hex_digit (r mod 16)]
        else t)"

definition json_string :: "string \<Rightarrow> string" where
  "json_string s = quote_char # concat (map escape_rune (rune_segments s)) @ [quote_char]"

definition json_pair :: "string \<times> string \<Rightarrow> string" where
  "json_pair kv = json_string (fst kv) @ CHR '':'' # json_string (snd kv)"

text \<open>\<open>json.Marshal\<close> of a \<open>map[string]string\<close>, whose keys it sorts.\<close>

definition json_map :: "(string, string) gomap \<Rightarrow> string" where
  "json_map m = CHR ''{'' # join_with '','' (map json_pair (sort_key fst m)) @ ''}''"

section \<open>Decoding\<close>

definition json_space :: "char \<Rightarrow> bool" where
  "json_space c \<longleftrightarrow> char_code c \<in> {32, 9, 13, 10}"

definition skip_space :: "string \<Rightarrow> string" where
  "skip_space s = dropWhile json_space s"

text \<open>\<open>utf8.AppendRune\<close>.\<close>

definition encode_rune :: "nat \<Rightarrow> string" where
  "encode_rune r =
     (if r < 128 then [char_of r]
      else if r < 2048 then [char_of (192 + r div 64), char_of (128 + r mod 64)]
      else if 55296 \<le> r \<and> r \<le> 57343 \<or> 1114111 < r then replacement
      else if r < 65536 then [char_of (224 + r div 4096), char_of (128 + r div 64 mod 64), char_of (128 + r mod 64)]
      else [char_of (240 + r div 262144), char_of (128 + r div 4096 mod 64), char_of (128 + r div 64 mod 64),
            char_of (128 + r mod 64)])"

definition hex4 :: "string \<Rightarrow> nat option" where
  "hex4 s =
     (case s of a # b # c # d # _ \<Rightarrow>
        (case (unhex a, unhex b, unhex c, unhex d) of
           (Some w, Some x, Some y, Some z) \<Rightarrow> Some (((w * 16 + x) * 16 + y) * 16 + z)
         | _ \<Rightarrow> None)
      | _ \<Rightarrow> None)"

text \<open>A surrogate is joined with the escape that follows when the two make a pair, and is
  replaced otherwise: the rune and the number of bytes used after \<open>\u\<close>.\<close>

definition unicode_escape :: "string \<Rightarrow> (nat \<times> nat) option" where
  "unicode_escape s =
     (case hex4 s of
        None \<Rightarrow> None
      | Some r \<Rightarrow>
          if \<not> (55296 \<le> r \<and> r \<le> 57343) then Some (r, 4)
          else (case (if take 2 (drop 4 s) = [backslash, CHR ''u''] then hex4 (drop 6 s) else None) of
                  Some l \<Rightarrow> if r < 56320 \<and> 56320 \<le> l \<and> l \<le> 57343
                            then Some ((r - 55296) * 1024 + (l - 56320) + 65536, 10) else Some (rune_error, 4)
                | None \<Rightarrow> Some (rune_error, 4)))"

definition short_escape :: "char \<Rightarrow> char option" where
  "short_escape c =
     map_of [(CHR 0x22, CHR 0x22), (CHR 0x5C, CHR 0x5C), (CHR ''/'', CHR ''/''), (CHR ''b'', CHR 0x08),
       (CHR ''f'', CHR 0x0C), (CHR ''n'', CHR 0x0A), (CHR ''r'', CHR 0x0D), (CHR ''t'', CHR 0x09)] c"

text \<open>The characters of a string after its opening quote, up to the closing one.\<close>

function json_chars :: "string \<Rightarrow> (string \<times> string) option" where
  "json_chars s =
     (case s of
        [] \<Rightarrow> None
      | c # t \<Rightarrow>
          if c = quote_char then Some ([], t)
          else if c = backslash then
            (case t of
               [] \<Rightarrow> None
             | d # u \<Rightarrow>
                 if d = CHR ''u'' then
                   (case unicode_escape u of
                      None \<Rightarrow> None
                    | Some (r, n) \<Rightarrow> map_option (apfst (\<lambda>v. encode_rune r @ v)) (json_chars (drop n u)))
                 else (case short_escape d of
                         None \<Rightarrow> None
                       | Some x \<Rightarrow> map_option (apfst (\<lambda>v. x # v)) (json_chars u)))
          else if char_code c < 32 then None
          else (case decode_rune (str_bytes (c # t)) of
                  (r, n, ok) \<Rightarrow> map_option (apfst (\<lambda>v. (if ok then take (max 1 n) (c # t) else replacement) @ v))
                    (json_chars (drop (max 1 n) (c # t)))))"
  by pat_completeness auto
termination by (relation "measure length") auto

declare json_chars.simps [simp del]

definition json_quoted :: "string \<Rightarrow> (string \<times> string) option" where
  "json_quoted s = (case s of c # t \<Rightarrow> if c = quote_char then json_chars t else None | [] \<Rightarrow> None)"

text \<open>A value of type \<open>string\<close>: a string, or \<open>null\<close>, which leaves the zero value. Every other
  value is an error of the decoder, of its syntax or of its type.\<close>

definition json_value :: "string \<Rightarrow> (string \<times> string) option" where
  "json_value s = (if has_prefix s ''null'' then Some ([], drop 4 s) else json_quoted s)"

definition json_entry :: "string \<Rightarrow> ((string \<times> string) \<times> string) option" where
  "json_entry s =
     (case json_quoted (skip_space s) of
        None \<Rightarrow> None
      | Some (k, s1) \<Rightarrow>
          (case skip_space s1 of
             [] \<Rightarrow> None
           | c # s2 \<Rightarrow>
               if c \<noteq> CHR '':'' then None
               else (case json_value (skip_space s2) of
                       None \<Rightarrow> None
                     | Some (v, s3) \<Rightarrow> Some ((k, v), skip_space s3))))"

text \<open>The entries after the opening brace, of which the text has at most one per byte.\<close>

fun json_entries :: "nat \<Rightarrow> string \<Rightarrow> (string, string) gomap \<Rightarrow> ((string, string) gomap \<times> string) option" where
  "json_entries 0 s m = None"
| "json_entries (Suc n) s m =
     (case json_entry s of
        None \<Rightarrow> None
      | Some ((k, v), []) \<Rightarrow> None
      | Some ((k, v), c # t) \<Rightarrow>
          if c = CHR ''}'' then Some (AList.update k v m, t)
          else if c = CHR '','' then json_entries n t (AList.update k v m)
          else None)"

text \<open>\<open>json.Unmarshal\<close> into an empty \<open>map[string]string\<close>.\<close>

definition json_decode_map :: "string \<Rightarrow> err + (string, string) gomap" where
  "json_decode_map s =
     (let bad = Inl (ErrNew ''json''); s0 = skip_space s in
      if has_prefix s0 ''null'' then (if skip_space (drop 4 s0) = [] then Inr [] else bad)
      else case s0 of
        [] \<Rightarrow> bad
      | c # t \<Rightarrow>
          if c \<noteq> CHR ''{'' then bad
          else if has_prefix (skip_space t) ''}''
          then (if skip_space (drop 1 (skip_space t)) = [] then Inr [] else bad)
          else (case json_entries (length t) t [] of
                  None \<Rightarrow> bad
                | Some (m, u) \<Rightarrow> if skip_space u = [] then Inr m else bad))"

section \<open>An encoded map is decoded\<close>

text \<open>The string with its invalid bytes replaced: \<open>strings.ToValidUTF8\<close>, byte by byte.\<close>

definition to_valid :: "string \<Rightarrow> string" where
  "to_valid s = concat (map (\<lambda>(r, ok, t). if ok then t else replacement) (rune_segments s))"

lemma decode_local:
  assumes "decode_rune (p # cs) = (r, n, True)"
  shows "decode_rune (take n (p # cs) @ ds) = (r, n, True)" "1 \<le> n" "n \<le> length (p # cs)"
  using assms by (auto simp: decode_rune_def Let_def split: if_splits list.splits prod.splits)


lemma hex_table: "\<forall>n \<in> set [0..<16]. unhex (hex_digit n) = Some n"
  by (simp add: upt_rec hex_digit_def unhex_def)

lemma unhex_digit [simp]: "n < 16 \<Longrightarrow> unhex (hex_digit n) = Some n"
  using hex_table by simp

lemma unhex_zero: "unhex CHR ''0'' = Some 0" "unhex CHR ''2'' = Some 2" "unhex CHR ''f'' = Some 15"
  "unhex CHR ''d'' = Some 13"
  by (simp_all add: unhex_def)

text \<open>Three-byte runes are determined by their code point.\<close>

lemma three_bytes:
  assumes "decode_rune cs = (r, n, True)" "2048 \<le> r" "r < 65536"
  obtains a b d rest where "cs = (224 + a) # (128 + b) # (128 + d) # rest" "n = 3" "a < 16" "b < 64" "d < 64"
    "r = a * 4096 + b * 64 + d"
proof -
  have small: "(p mod 32) * 64 + c mod 64 < (2048 :: nat)" for p c
  proof -
    have "p mod 32 < 32" "c mod 64 < 64" by simp_all
    then show ?thesis by linarith
  qed
  have big: "65536 \<le> (p mod 8) * 262144 + (c1 mod 64) * 4096 + x + y"
    if "240 \<le> p" "p \<le> 244" "cont_byte (fst (second_range p)) (snd (second_range p)) c1" for p c1 x y :: nat
  proof (cases "p = 240")
    case True
    with that have "144 \<le> c1" "c1 \<le> 191" by (auto simp: second_range_def cont_byte_def)
    then have "16 \<le> c1 mod 64" by (simp add: cont_byte_mod)
    then show ?thesis by simp
  next
    case False
    with that have "1 \<le> p mod 8" by presburger
    then show ?thesis by simp
  qed
  from assms(1) have "cs \<noteq> []" by (auto simp: decode_rune_def)
  then obtain p rest where cs: "cs = p # rest" by (cases cs) auto
  obtain lo hi where lh: "second_range p = (lo, hi)" by (cases "second_range p")
  have range: "128 \<le> lo \<and> hi \<le> 191" using lh by (auto simp: second_range_def split: if_splits)
  note dec = assms(1) [unfolded cs decode_rune_def list.case lh Let_def prod.case]
  consider "p < 128" | "128 \<le> p" "p < 224" | "224 \<le> p" "p < 240" | "240 \<le> p" by linarith
  then show ?thesis
  proof cases
    case 1
    with dec assms(2) show ?thesis by simp
  next
    case 2
    with dec obtain c1 where "r = (p mod 32) * 64 + c1 mod 64"
      by (auto simp: not_less split: list.splits if_splits)
    with assms(2) small [of p c1] show ?thesis by simp
  next
    case 3
    with dec obtain c1 c2 rest' where three: "rest = c1 # c2 # rest'" "cont_byte lo hi c1" "cont_byte 128 191 c2"
        "r = (p mod 16) * 4096 + (c1 mod 64) * 64 + c2 mod 64" "n = 3"
      by (simp split: list.splits if_splits)
    from three(2,3) range have b: "128 \<le> c1" "c1 \<le> 191" "128 \<le> c2" "c2 \<le> 191" by (auto simp: cont_byte_def)
    obtain a where a: "p = 14 * 16 + a" "a < 16" using 3 le_Suc_ex [of 224 p] by auto
    then have "p mod 16 = a" unfolding a(1) mod_mult_self3 by simp
    with a(1) have "p mod 16 = p - 224" by simp
    with three b cs 3 show ?thesis
      by (intro that [of "p - 224" "c1 - 128" "c2 - 128" rest']) (simp_all add: cont_byte_mod)
  next
    case 4
    with dec obtain c1 c2 c3 where "p \<le> 244" "cont_byte lo hi c1"
        "r = (p mod 8) * 262144 + (c1 mod 64) * 4096 + (c2 mod 64) * 64 + c3 mod 64"
      by (auto simp: not_less split: list.splits if_splits)
    with assms(3) 4 big [of p c1 "(c2 mod 64) * 64" "c3 mod 64"] lh show ?thesis by simp
  qed
qed

lemma encode_three:
  assumes "decode_rune (str_bytes s) = (r, n, True)" "r = 8232 \<or> r = 8233"
  shows "take n s = encode_rune r"
proof -
  from assms(2) have "2048 \<le> r" "r < 65536" by auto
  from three_bytes [OF assms(1) this] obtain a b d rest where b: "str_bytes s = (224 + a) # (128 + b) # (128 + d) # rest"
    "n = 3" "a < 16" "b < 64" "d < 64" "r = a * 4096 + b * 64 + d" .
  then obtain x y z u where s: "s = x # y # z # u" "224 + a = char_code x" "128 + b = char_code y" "128 + d = char_code z"
    by (auto simp: str_bytes_def)
  have "8232 \<le> a * 4096 + b * 64 + d" "a * 4096 + b * 64 + d \<le> 8233" using assms(2) b(6) by auto
  with b(3-5) have "a = 2" by linarith
  with \<open>a * 4096 + b * 64 + d \<le> 8233\<close> have "b = 0" by simp
  then have "d = r - 8192" using b(6) \<open>a = 2\<close> by simp
  with s \<open>a = 2\<close> \<open>b = 0\<close> have "char_code x = 226" "char_code y = 128" "char_code z = 128 + (r - 8192)" by simp_all
  then have "x = char_of (226 :: nat)" "y = char_of (128 :: nat)" "z = char_of (128 + (r - 8192))"
    by (metis char_of_char)+
  with s b(2) assms(2) show ?thesis by (auto simp: encode_rune_def numeral_3_eq_3)
qed


lemma hex4_append: "hex4 (a # b # c # d # w) = hex4 [a, b, c, d]"
  by (simp add: hex4_def)

text \<open>The escapes the encoder writes.\<close>

lemma chars_short:
  assumes "short_escape d = Some x" "d \<noteq> CHR ''u''"
  shows "json_chars (backslash # d # w) = map_option (apfst ((#) x)) (json_chars w)"
  using assms by (subst json_chars.simps) (simp add: backslash_def quote_char_def)

lemma chars_unicode:
  assumes "hex4 [a, b, c, d] = Some r" "\<not> (55296 \<le> r \<and> r \<le> 57343)"
  shows "json_chars (backslash # CHR ''u'' # a # b # c # d # w) = map_option (apfst (\<lambda>v. encode_rune r @ v)) (json_chars w)"
  using assms
  by (subst json_chars.simps) (simp add: backslash_def quote_char_def unicode_escape_def hex4_append [of a b c d w])

lemma chars_copy:
  assumes "decode_rune (str_bytes (c # t)) = (r, n, True)" "c \<noteq> quote_char" "c \<noteq> backslash" "32 \<le> char_code c"
  shows "json_chars (take n (c # t) @ w) = map_option (apfst (\<lambda>v. take n (c # t) @ v)) (json_chars w)"
proof -
  have n: "1 \<le> n" "n \<le> length (c # t)" using decode_local(2,3) assms(1) by (force simp: str_bytes_def)+
  then obtain m where m: "n = Suc m" by (cases n) auto
  have d: "decode_rune (str_bytes (c # take m t @ w)) = (r, n, True)"
    using decode_local(1) [of "char_code c" "map char_code t" r n "map char_code w"] assms(1)
    by (simp add: str_bytes_def m take_map)
  have "take n (c # take m t @ w) = take n (c # t)" "drop n (c # take m t @ w) = w" using n(2) by (simp_all add: m)
  moreover have "m \<le> length t" using n(2) m by simp
  ultimately show ?thesis using d n(1) assms(2-4)
    by (subst json_chars.simps) (simp add: m max_def)
qed

lemma escape_byte_chars:
  assumes "r < 128"
  shows "json_chars (escape_byte r @ w) = map_option (apfst ((#) (char_of r))) (json_chars w)"
proof -
  have "r div 16 < 16" "r mod 16 < 16" using assms by simp_all
  then have "hex4 [CHR ''0'', CHR ''0'', hex_digit (r div 16), hex_digit (r mod 16)] = Some r"
    by (simp add: hex4_def unhex_zero)
  from chars_unicode [OF this, of w] assms show ?thesis by (simp add: escape_byte_def encode_rune_def)
qed

lemma encode_specials: "encode_rune 65533 = replacement"
proof -
  have "char_of (239 :: nat) = CHR 0xEF" "char_of (191 :: nat) = CHR 0xBF" "char_of (189 :: nat) = CHR 0xBD" by code_simp+
  then show ?thesis by (simp add: encode_rune_def replacement_def)
qed

lemma chars_escape:
  assumes "decode_rune (str_bytes (c # t)) = (r, n, ok)"
  defines "seg \<equiv> take (max 1 n) (c # t)"
  shows "json_chars (escape_rune (r, ok, seg) @ w) = map_option (apfst (\<lambda>v. (if ok then seg else replacement) @ v)) (json_chars w)"
proof (cases "char_code c < 128")
  case True
  with assms(1) have r: "r = char_code c" "n = 1" "ok" by (auto simp: str_bytes_def decode_ascii)
  have seg: "seg = [c]" by (simp add: seg_def r)
  have c: "c = char_of r" by (simp add: r)
  show ?thesis
  proof (cases "r \<in> {34, 92, 8, 12, 10, 13, 9}")
    case True
    have c': "char_of (34 :: nat) = CHR 0x22" "char_of (92 :: nat) = CHR 0x5C" "char_of (8 :: nat) = CHR 0x08" "char_of (12 :: nat) = CHR 0x0C"
      "char_of (10 :: nat) = CHR 0x0A" "char_of (13 :: nat) = CHR 0x0D" "char_of (9 :: nat) = CHR 0x09" by code_simp+
    from True show ?thesis unfolding seg c
      by (elim insertE emptyE) (simp_all add: escape_rune_def c' chars_short short_escape_def r(3))
  next
    case False
    show ?thesis
    proof (cases "r < 32 \<or> r = 60 \<or> r = 62 \<or> r = 38")
      case True
      with False have "escape_rune (r, ok, seg) = escape_byte r" by (auto simp: escape_rune_def)
      with escape_byte_chars [of r w] True r(3) show ?thesis by (auto simp: seg c)
    next
      case plain: False
      have "char_code quote_char = 34" "char_code backslash = 92" by (simp_all add: quote_char_def backslash_def)
      with False r(1) have q: "c \<noteq> quote_char" "c \<noteq> backslash" by auto
      have "escape_rune (r, ok, seg) = seg" using False plain \<open>char_code c < 128\<close> r(1) by (simp add: escape_rune_def)
      with chars_copy [of c t r n w] assms(1) q plain r show ?thesis by (auto simp: seg)
    qed
  qed
next
  case False
  with decode_non_ascii [of "char_code c" "str_bytes t"] assms(1) have r: "128 \<le> r" by (simp add: str_bytes_def)
  show ?thesis
  proof (cases ok)
    case False
    have "hex4 ''fffd'' = Some 65533" by (simp add: hex4_def unhex_zero)
    with chars_unicode [OF this, of w] r False show ?thesis by (simp add: escape_rune_def encode_specials)
  next
    case True
    then have dec: "decode_rune (str_bytes (c # t)) = (r, n, True)" using assms(1) by simp
    then have "1 \<le> n" using decode_local(2) by (force simp: str_bytes_def)
    then have seg: "seg = take n (c # t)" by (simp add: seg_def max_def)
    show ?thesis
    proof (cases "r = 8232 \<or> r = 8233")
      case True
      then have "hex4 [CHR ''2'', CHR ''0'', CHR ''2'', hex_digit (r mod 16)] = Some r"
        by (auto simp: hex4_def unhex_zero)
      with chars_unicode [OF this, of w] True encode_three [OF dec True] \<open>ok\<close> show ?thesis
        by (auto simp: escape_rune_def seg)
    next
      case other: False
      have "char_code quote_char = 34" "char_code backslash = 92" by (simp_all add: quote_char_def backslash_def)
      with False have q: "c \<noteq> quote_char" "c \<noteq> backslash" by auto
      from other r True have "escape_rune (r, ok, seg) = seg" by (simp add: escape_rune_def)
      with chars_copy [OF dec q, of w] False True show ?thesis by (simp add: seg)
    qed
  qed
qed

lemma json_chars_escaped:
  "json_chars (concat (map escape_rune (rune_segments s)) @ quote_char # w) = Some (to_valid s, w)"
proof (induction s rule: rune_segments.induct)
  case (1 s)
  show ?case
  proof (cases s)
    case Nil
    then show ?thesis by (subst json_chars.simps) (simp add: to_valid_def)
  next
    case (Cons c t)
    obtain r n ok where d: "decode_rune (str_bytes (c # t)) = (r, n, ok)" by (metis prod_cases3)
    have seg: "rune_segments (c # t) = (r, ok, take (max 1 n) (c # t)) # rune_segments (drop (max 1 n) (c # t))"
      using d by (subst rune_segments.simps) simp
    have "json_chars (concat (map escape_rune (rune_segments (drop (max 1 n) s))) @ quote_char # w)
        = Some (to_valid (drop (max 1 n) s), w)"
      using 1 [OF _ d [folded Cons, symmetric] refl] Cons by simp
    with chars_escape [OF d] Cons show ?thesis by (simp add: seg to_valid_def)
  qed
qed

lemma json_quoted_string [simp]: "json_quoted (json_string s @ w) = Some (to_valid s, w)"
  by (simp add: json_quoted_def json_string_def json_chars_escaped)


lemma segments_whole: "concat (map (\<lambda>(r, ok, t). t) (rune_segments s)) = s"
proof (induction s rule: rune_segments.induct)
  case (1 s)
  show ?case
  proof (cases "s = []")
    case False
    obtain r n ok where d: "decode_rune (str_bytes s) = (r, n, ok)" by (metis prod_cases3)
    with 1 [OF False d [symmetric] refl] False show ?thesis by (subst rune_segments.simps) simp
  qed simp
qed

lemma to_valid_id: "valid_utf8 s \<Longrightarrow> to_valid s = s"
proof -
  assume "valid_utf8 s"
  then have "map (\<lambda>(r, ok, t). if ok then t else replacement) (rune_segments s) = map (\<lambda>(r, ok, t). t) (rune_segments s)"
    by (auto simp: valid_utf8_def list_all_iff)
  then show ?thesis unfolding to_valid_def by (simp only: segments_whole)
qed

lemma skip_quote [simp]: "skip_space (json_string s @ w) = json_string s @ w"
  by (simp add: skip_space_def json_string_def json_space_def quote_char_def)

lemma json_value_string [simp]: "json_value (json_string s @ w) = Some (to_valid s, w)"
proof -
  have "\<not> has_prefix (json_string s @ w) ''null''" by (simp add: has_prefix_def json_string_def quote_char_def)
  then show ?thesis by (simp add: json_value_def)
qed

lemma json_entry_pair: "json_entry (json_pair (k, v) @ w) = Some ((to_valid k, to_valid v), skip_space w)"
  by (simp add: json_entry_def json_pair_def skip_space_def [of "CHR '':'' # u" for u] json_space_def)

lemma skip_plain [simp]: "skip_space [] = []" "skip_space (CHR '','' # w) = CHR '','' # w" "skip_space (CHR ''}'' # w) = CHR ''}'' # w"
  by (simp_all add: skip_space_def json_space_def)

lemma json_entries_pairs:
  "length ps < n \<Longrightarrow> json_entries n (join_with '','' (map json_pair (p # ps)) @ ''}'') m
     = Some (foldl (\<lambda>m (k, v). AList.update (to_valid k) (to_valid v) m) m (p # ps), [])"
proof (induction ps arbitrary: n m p)
  case Nil
  then obtain l where "n = Suc l" by (cases n) auto
  then show ?case by (cases p) (simp add: join_with_Cons json_entry_pair)
next
  case (Cons q ps)
  then obtain l where l: "n = Suc l" "length ps < l" by (cases n) auto
  obtain k v where p: "p = (k, v)" by (cases p)
  have "join_with '','' (map json_pair (p # q # ps)) @ ''}''
      = json_pair (k, v) @ CHR '','' # join_with '','' (map json_pair (q # ps)) @ ''}''"
    by (simp add: join_with_Cons p)
  with Cons.IH [OF l(2), of q "AList.update (to_valid k) (to_valid v) m"] show ?case
    by (simp add: l(1) p json_entry_pair)
qed

lemma update_fresh: "k \<notin> set (keys m) \<Longrightarrow> AList.update k v m = m @ [(k, v)]"
  by (induction m) auto

lemma updates_distinct:
  "distinct (keys m @ keys ps) \<Longrightarrow> list_all (\<lambda>(k, v). f k = k) ps \<Longrightarrow>
   foldl (\<lambda>m (k, v). AList.update (f k) (g v) m) m ps = m @ map (\<lambda>(k, v). (k, g v)) ps"
proof (induction ps arbitrary: m)
  case (Cons p ps)
  obtain k v where p: "p = (k, v)" by (cases p)
  have "AList.update (f k) (g v) m = m @ [(k, g v)]" using Cons.prems p by (simp add: update_fresh)
  with Cons.IH [of "m @ [(k, g v)]"] Cons.prems p show ?case by simp
qed simp

lemma join_length: "length fs \<le> length (join_with '','' fs) + 1"
proof (induction fs)
  case (Cons f fs)
  then show ?case by (cases fs) (simp_all add: join_with_Cons join_with_def)
qed simp

lemma json_decode_updates:
  assumes "m \<noteq> []"
  shows "json_decode_map (json_map m) = Inr (foldl (\<lambda>m (k, v). AList.update (to_valid k) (to_valid v) m) [] (sort_key fst m))"
proof -
  have "sort_key fst m \<noteq> []" using assms by (metis set_empty set_sort)
  then obtain p ps where ps: "sort_key fst m = p # ps" by (cases "sort_key fst m") auto
  let ?t = "join_with '','' (map json_pair (p # ps)) @ ''}''"
  have map: "json_map m = CHR ''{'' # ?t" by (simp add: json_map_def ps)
  obtain k v where p: "p = (k, v)" by (cases p)
  have start: "?t = json_string k @ (CHR '':'' # json_string v @ (if ps = [] then ''}'' else '','' @ join_with '','' (map json_pair ps) @ ''}''))"
    by (simp add: join_with_Cons json_pair_def p)
  have n: "length ps < length ?t" using join_length [of "map json_pair (p # ps)"] by simp
  have skip: "skip_space (json_map m) = json_map m" "\<not> has_prefix (json_map m) ''null''"
    by (simp_all add: map skip_space_def json_space_def has_prefix_def)
  have "skip_space ?t = ?t" "\<not> has_prefix ?t ''}''"
    unfolding start by (simp_all only: skip_quote) (simp add: has_prefix_def json_string_def quote_char_def)
  then show ?thesis
    unfolding json_decode_map_def Let_def skip(1) using skip(2) json_entries_pairs [OF n, of p "[]"]
    by (simp add: map ps)
qed

theorem json_decode_encoded:
  assumes "m \<noteq> []" "distinct (keys m)" "list_all (\<lambda>(k, v). valid_utf8 k) m"
  shows "json_decode_map (json_map m) = Inr (map (\<lambda>(k, v). (k, to_valid v)) (sort_key fst m))"
proof -
  have "mset (keys (sort_key fst m)) = mset (keys m)" by simp
  then have "distinct (keys (sort_key fst m))" using assms(2) mset_eq_imp_distinct_iff by blast
  moreover have "list_all (\<lambda>(k, v). to_valid k = k) (sort_key fst m)"
    using assms(3) by (auto simp: list_all_iff to_valid_id)
  ultimately show ?thesis
    using updates_distinct [of "[]" "sort_key fst m" to_valid to_valid] by (simp add: json_decode_updates [OF assms(1)])
qed

end
