(* ===== verification/SqlTables.thy ===== *)
theory SqlTables
  imports Metadata GoJson GoStamp
begin

text \<open>
  The tables of \<open>src/internal/metadata/migrations.go\<close> and the statements the SQL stores run on
  them. A row is a record with a field per column, a table the list of its rows; the type of the
  time columns is a parameter (text in SQLite, a timestamp in PostgreSQL). A statement applies
  its effect and fails if the result breaks a constraint of the schema. A transaction keeps all
  of its statements or none.
\<close>

section \<open>Rows and constraints\<close>

record 't object_row =
  ro_id :: string
  ro_bucket :: string
  ro_key :: string
  ro_state :: object_state
  ro_size :: int
  ro_etag :: string
  ro_headers :: string
  ro_created :: 't
  ro_updated :: 't

record 't block_row =
  rb_hash :: string
  rb_backend_key :: string
  rb_size :: int
  rb_refs :: int
  rb_created :: 't
  rb_updated :: 't

record chunk_row =
  rc_object :: string
  rc_seq :: nat
  rc_hash :: string
  rc_offset :: int
  rc_size :: int
  rc_backend_key :: string

record 't session_row =
  rs_upload_id :: string
  rs_bucket :: string
  rs_key :: string
  rs_headers :: string
  rs_reserved :: int
  rs_created :: 't
  rs_updated :: 't

record 't part_row =
  rp_upload_id :: string
  rp_number :: int
  rp_path :: "string list"
  rp_size :: int
  rp_etag :: string
  rp_created :: 't

record 't tables =
  tb_objects :: "'t object_row list"
  tb_blocks :: "'t block_row list"
  tb_chunks :: "chunk_row list"
  tb_sessions :: "'t session_row list"
  tb_parts :: "'t part_row list"

definition empty_tables :: "'t tables" where
  "empty_tables = \<lparr>tb_objects = [], tb_blocks = [], tb_chunks = [], tb_sessions = [], tb_parts = []\<rparr>"

text \<open>Primary keys, the partial unique index on committed objects, the checks and the foreign
  keys. The check of \<open>state\<close> is the type of its column.\<close>

definition objects_valid :: "'t object_row list \<Rightarrow> bool" where
  "objects_valid rows \<longleftrightarrow> distinct (map ro_id rows) \<and> (\<forall>r \<in> set rows. 0 \<le> ro_size r)
     \<and> distinct (map (\<lambda>r. (ro_bucket r, ro_key r)) (filter (\<lambda>r. ro_state r = StateCommitted) rows))"

definition blocks_valid :: "'t block_row list \<Rightarrow> bool" where
  "blocks_valid rows \<longleftrightarrow> distinct (map rb_hash rows) \<and> (\<forall>r \<in> set rows. 0 \<le> rb_size r \<and> 0 \<le> rb_refs r)"

definition chunks_valid :: "'t tables \<Rightarrow> bool" where
  "chunks_valid tb \<longleftrightarrow> distinct (map (\<lambda>r. (rc_object r, rc_seq r)) (tb_chunks tb))
     \<and> (\<forall>r \<in> set (tb_chunks tb). 0 \<le> rc_offset r \<and> 0 \<le> rc_size r
          \<and> rc_object r \<in> ro_id ` set (tb_objects tb) \<and> rc_hash r \<in> rb_hash ` set (tb_blocks tb))"

definition sessions_valid :: "'t session_row list \<Rightarrow> bool" where
  "sessions_valid rows \<longleftrightarrow> distinct (map rs_upload_id rows) \<and> (\<forall>r \<in> set rows. 0 \<le> rs_reserved r)"

definition parts_valid :: "'t tables \<Rightarrow> bool" where
  "parts_valid tb \<longleftrightarrow> distinct (map (\<lambda>r. (rp_upload_id r, rp_number r)) (tb_parts tb))
     \<and> (\<forall>r \<in> set (tb_parts tb). 0 < rp_number r \<and> 0 \<le> rp_size r
          \<and> rp_upload_id r \<in> rs_upload_id ` set (tb_sessions tb))"

definition schema_ok :: "'t tables \<Rightarrow> bool" where
  "schema_ok tb \<longleftrightarrow> objects_valid (tb_objects tb) \<and> blocks_valid (tb_blocks tb) \<and> chunks_valid tb
     \<and> sessions_valid (tb_sessions tb) \<and> parts_valid tb"

section \<open>Statements\<close>

definition constrained :: "'t tables \<Rightarrow> err + 't tables" where
  "constrained tb = (if schema_ok tb then Inr tb else Inl (ErrSys ''constraint failed''))"

definition insert_object :: "'t object_row \<Rightarrow> 't tables \<Rightarrow> err + 't tables" where
  "insert_object r tb = constrained (tb\<lparr>tb_objects := tb_objects tb @ [r]\<rparr>)"

definition update_object :: "string \<Rightarrow> ('t object_row \<Rightarrow> 't object_row) \<Rightarrow> 't tables \<Rightarrow> err + 't tables" where
  "update_object i f tb = constrained (tb\<lparr>tb_objects := map (\<lambda>r. if ro_id r = i then f r else r) (tb_objects tb)\<rparr>)"

definition upsert_block :: "'t block_row \<Rightarrow> 't tables \<Rightarrow> err + 't tables" where
  "upsert_block b tb = constrained (tb\<lparr>tb_blocks :=
     (if rb_hash b \<in> rb_hash ` set (tb_blocks tb)
      then map (\<lambda>r. if rb_hash r = rb_hash b
             then r\<lparr>rb_backend_key := rb_backend_key b, rb_size := rb_size b, rb_updated := rb_updated b\<rparr> else r) (tb_blocks tb)
      else tb_blocks tb @ [b])\<rparr>)"

definition update_block :: "string \<Rightarrow> ('t block_row \<Rightarrow> 't block_row) \<Rightarrow> 't tables \<Rightarrow> err + 't tables" where
  "update_block h f tb = constrained (tb\<lparr>tb_blocks := map (\<lambda>r. if rb_hash r = h then f r else r) (tb_blocks tb)\<rparr>)"

definition delete_unreferenced_block :: "string \<Rightarrow> 't tables \<Rightarrow> err + 't tables" where
  "delete_unreferenced_block h tb = constrained (tb\<lparr>tb_blocks := filter (\<lambda>r. \<not> (rb_hash r = h \<and> rb_refs r = 0)) (tb_blocks tb)\<rparr>)"

definition insert_chunk :: "chunk_row \<Rightarrow> 't tables \<Rightarrow> err + 't tables" where
  "insert_chunk r tb = constrained (tb\<lparr>tb_chunks := tb_chunks tb @ [r]\<rparr>)"

definition delete_chunks :: "string \<Rightarrow> 't tables \<Rightarrow> err + 't tables" where
  "delete_chunks i tb = constrained (tb\<lparr>tb_chunks := filter (\<lambda>r. rc_object r \<noteq> i) (tb_chunks tb)\<rparr>)"

definition insert_session :: "'t session_row \<Rightarrow> 't tables \<Rightarrow> err + 't tables" where
  "insert_session r tb = constrained (tb\<lparr>tb_sessions := tb_sessions tb @ [r]\<rparr>)"

definition update_session :: "string \<Rightarrow> ('t session_row \<Rightarrow> 't session_row) \<Rightarrow> 't tables \<Rightarrow> err + 't tables" where
  "update_session u f tb = constrained (tb\<lparr>tb_sessions := map (\<lambda>r. if rs_upload_id r = u then f r else r) (tb_sessions tb)\<rparr>)"

text \<open>The parts of a deleted session go with it (\<open>ON DELETE CASCADE\<close>).\<close>

definition delete_session :: "string \<Rightarrow> 't tables \<Rightarrow> err + 't tables" where
  "delete_session u tb = constrained (tb\<lparr>tb_sessions := filter (\<lambda>r. rs_upload_id r \<noteq> u) (tb_sessions tb),
     tb_parts := filter (\<lambda>r. rp_upload_id r \<noteq> u) (tb_parts tb)\<rparr>)"

definition upsert_part :: "'t part_row \<Rightarrow> 't tables \<Rightarrow> err + 't tables" where
  "upsert_part p tb = constrained (tb\<lparr>tb_parts :=
     (if (rp_upload_id p, rp_number p) \<in> (\<lambda>r. (rp_upload_id r, rp_number r)) ` set (tb_parts tb)
      then map (\<lambda>r. if (rp_upload_id r, rp_number r) = (rp_upload_id p, rp_number p) then p else r) (tb_parts tb)
      else tb_parts tb @ [p])\<rparr>)"

section \<open>Execution\<close>

text \<open>\<open>ExecContext\<close> may fail for any reason outside (a cancelled context, an I/O error); the error
  is returned under the message the code gives it. A failed statement has no effect.\<close>

definition exec_stmt :: "env \<Rightarrow> nat \<Rightarrow> string \<Rightarrow> ('a \<Rightarrow> err + 'a) \<Rightarrow> 'a \<Rightarrow> err + 'a" where
  "exec_stmt e i msg stmt tb =
     (case syscall e i of
        Some x \<Rightarrow> Inl (ErrWrap msg x)
      | None \<Rightarrow> (case stmt tb of Inl x \<Rightarrow> Inl (ErrWrap msg x) | Inr tb' \<Rightarrow> Inr tb'))"

text \<open>\<open>QueryRowContext\<close> with its \<open>Scan\<close>, and the loop of \<open>QueryContext\<close>, \<open>Scan\<close> and \<open>Err\<close>.\<close>

definition query_row :: "env \<Rightarrow> nat \<Rightarrow> string \<Rightarrow> 'a option \<Rightarrow> err + 'a option" where
  "query_row e i msg row = (case syscall e i of Some x \<Rightarrow> Inl (ErrWrap msg x) | None \<Rightarrow> Inr row)"

definition query_rows :: "env \<Rightarrow> string \<Rightarrow> string \<Rightarrow> string \<Rightarrow> 'a list \<Rightarrow> err + 'a list" where
  "query_rows e query scan iterate rows =
     (case syscall e 0 of
        Some x \<Rightarrow> Inl (ErrWrap query x)
      | None \<Rightarrow> (case (if rows = [] then None else syscall e 1) of
          Some x \<Rightarrow> Inl (ErrWrap scan x)
        | None \<Rightarrow> (case syscall e 2 of Some x \<Rightarrow> Inl (ErrWrap iterate x) | None \<Rightarrow> Inr rows)))"

text \<open>\<open>BeginTx\<close>, a body, \<open>Commit\<close>, and the deferred \<open>Rollback\<close>.\<close>

definition transaction :: "env \<Rightarrow> string \<Rightarrow> (err \<Rightarrow> err) \<Rightarrow> ('s \<Rightarrow> err + 'a \<times> 's) \<Rightarrow> 's \<Rightarrow> (err + 'a) \<times> 's" where
  "transaction e begin_msg commit_err body tb =
     (case syscall e 0 of
        Some x \<Rightarrow> (Inl (ErrWrap begin_msg x), tb)
      | None \<Rightarrow>
          (case body tb of
             Inl x \<Rightarrow> (Inl x, tb)
           | Inr (a, tb') \<Rightarrow>
               (case syscall e 1 of
                  Some x \<Rightarrow> (Inl (commit_err x), tb)
                | None \<Rightarrow> (Inr a, tb'))))"

text \<open>Rows in the order a query asks for; equal keys come in any order.\<close>

definition ordered_rows :: "env \<Rightarrow> ('a \<Rightarrow> 'k :: linorder) \<Rightarrow> 'a list \<Rightarrow> 'a list" where
  "ordered_rows e key rows = sort_key key (go_range (range_pick e [0]) rows)"

section \<open>Headers\<close>

definition encodeHeaders :: "(string, string) gomap \<Rightarrow> err + string" where
  "encodeHeaders hs = (if hs = [] then Inr ''{}'' else Inr (json_map hs))"

definition decodeHeaders :: "string \<Rightarrow> err + (string, string) gomap" where
  "decodeHeaders payload =
     (if payload = [] \<or> payload = ''{}'' then Inr []
      else (case json_decode_map payload of
              Inl x \<Rightarrow> Inl (ErrWrap ''decode object headers'' x)
            | Inr hs \<Rightarrow> Inr hs))"

text \<open>\<open>defaultBackendKey\<close>.\<close>

definition defaultBackendKey :: "string \<Rightarrow> string" where
  "defaultBackendKey h = (if 2 \<le> length h then ''blocks/'' @ take 2 h @ ''/'' @ h else ''blocks/'' @ h)"

end
