(* ===== verification/SqliteStore.thy ===== *)
theory SqliteStore
  imports Shards SqlTables
begin

text \<open>
  \<open>src/internal/metadata/sqlite.go\<close> and the migrations of \<open>migrations.go\<close>: the store that keeps
  one SQLite file per tenant. Its state is the files of the metadata directory and the handles it
  has opened; a file holds the schema objects created so far, the recorded migrations and the
  tables. One connection per handle makes every transaction of a shard run alone.
\<close>

section \<open>Migrations\<close>

datatype ddl = CreateTable string | CreateIndex string

record Migration =
  mg_Version :: int
  mg_Name :: string
  mg_Statements :: "ddl list"

definition sqliteMigrations :: "Migration list" where
  "sqliteMigrations =
     [\<lparr>mg_Version = 1, mg_Name = ''structured metadata schema'',
       mg_Statements = [CreateTable ''objects'', CreateIndex ''objects_committed_key'',
         CreateIndex ''objects_state_updated'', CreateIndex ''objects_bucket_key_state'',
         CreateTable ''blocks'', CreateIndex ''blocks_ref_count_updated'', CreateTable ''object_chunks'',
         CreateIndex ''object_chunks_hash'', CreateIndex ''object_chunks_object_offset'',
         CreateTable ''multipart_sessions'', CreateIndex ''multipart_sessions_created'',
         CreateTable ''multipart_parts'']\<rparr>]"

record 'd sql_file =
  sf_schema :: "ddl list"
  sf_versions :: "(int \<times> string) list option"
  sf_tables :: 'd

definition empty_file :: "string tables sql_file" where
  "empty_file = \<lparr>sf_schema = [], sf_versions = None, sf_tables = empty_tables\<rparr>"

text \<open>\<open>CREATE ... IF NOT EXISTS\<close>, and the statements on \<open>schema_migrations\<close> (\<open>None\<close> is the missing
  table), whose key is the version.\<close>

definition run_ddl :: "ddl \<Rightarrow> 'd sql_file \<Rightarrow> err + 'd sql_file" where
  "run_ddl d f = Inr (if d \<in> set (sf_schema f) then f else f\<lparr>sf_schema := sf_schema f @ [d]\<rparr>)"

definition create_versions :: "'d sql_file \<Rightarrow> err + 'd sql_file" where
  "create_versions f = Inr (if sf_versions f = None then f\<lparr>sf_versions := Some []\<rparr> else f)"

definition insert_version :: "int \<Rightarrow> string \<Rightarrow> 'd sql_file \<Rightarrow> err + 'd sql_file" where
  "insert_version v name f =
     (case sf_versions f of
        None \<Rightarrow> Inl (ErrSys ''no such table'')
      | Some vs \<Rightarrow> if v \<in> fst ` set vs then Inl (ErrSys ''constraint failed'')
                  else Inr (f\<lparr>sf_versions := Some (vs @ [(v, name)])\<rparr>))"

definition appliedMigrations :: "env \<Rightarrow> 'd sql_file \<Rightarrow> err + int list" where
  "appliedMigrations e f =
     (case sf_versions f of
        None \<Rightarrow> Inl (ErrWrap ''list applied migrations'' (ErrSys ''no such table''))
      | Some vs \<Rightarrow> query_rows e ''list applied migrations'' ''scan applied migration'' ''iterate applied migrations''
          (map fst vs))"

fun runStatements :: "env \<Rightarrow> string \<Rightarrow> nat \<Rightarrow> ddl list \<Rightarrow> 'd sql_file \<Rightarrow> err + 'd sql_file" where
  "runStatements e msg i [] f = Inr f"
| "runStatements e msg i (d # ds) f =
     (case exec_stmt e i msg (run_ddl d) f of
        Inl x \<Rightarrow> Inl x
      | Inr f' \<Rightarrow> runStatements e msg (i + 1) ds f')"

definition applyMigration :: "env \<Rightarrow> Migration \<Rightarrow> 'd sql_file \<Rightarrow> err option \<times> 'd sql_file" where
  "applyMigration e mig f =
     (case transaction e ''begin migration'' (ErrWrap ''commit migration'')
             (\<lambda>g. case runStatements (call e 2) (''apply migration '' @ mg_Name mig) 0 (mg_Statements mig) g of
                Inl x \<Rightarrow> Inl x
              | Inr g1 \<Rightarrow> (case exec_stmt e 3 ''record migration'' (insert_version (mg_Version mig) (mg_Name mig)) g1 of
                  Inl x \<Rightarrow> Inl x
                | Inr g2 \<Rightarrow> Inr ((), g2))) f of
        (Inl x, f') \<Rightarrow> (Some x, f')
      | (Inr _, f') \<Rightarrow> (None, f'))"

fun applyPending :: "env \<Rightarrow> nat \<Rightarrow> int list \<Rightarrow> Migration list \<Rightarrow> 'd sql_file \<Rightarrow> err option \<times> 'd sql_file" where
  "applyPending e i applied [] f = (None, f)"
| "applyPending e i applied (m # ms) f =
     (if mg_Version m \<in> set applied then applyPending e (i + 1) applied ms f
      else (case applyMigration (call e i) m f of
              (Some x, f') \<Rightarrow> (Some x, f')
            | (None, f') \<Rightarrow> applyPending e (i + 1) applied ms f'))"

text \<open>The three pragmas set properties of the connection: foreign keys are enforced, the journal is
  a write-ahead log, a busy database is waited for. They change no table.\<close>

fun runPragmas :: "env \<Rightarrow> nat \<Rightarrow> string list \<Rightarrow> err option" where
  "runPragmas e i [] = None"
| "runPragmas e i (p # ps) =
     (case syscall e i of Some x \<Rightarrow> Some (ErrWrap ''configure sqlite'' x) | None \<Rightarrow> runPragmas e (i + 1) ps)"

definition runMigrations :: "env \<Rightarrow> 'd sql_file \<Rightarrow> err option \<times> 'd sql_file" where
  "runMigrations e f =
     (case runPragmas (call e 0) 0
             [''PRAGMA foreign_keys = ON'', ''PRAGMA journal_mode = WAL'', ''PRAGMA busy_timeout = 5000''] of
        Some x \<Rightarrow> (Some x, f)
      | None \<Rightarrow>
          (case exec_stmt e 1 ''create schema migrations table'' create_versions f of
             Inl x \<Rightarrow> (Some x, f)
           | Inr f1 \<Rightarrow>
               (case appliedMigrations (call e 2) f1 of
                  Inl x \<Rightarrow> (Some x, f1)
                | Inr applied \<Rightarrow> applyPending (call e 3) 0 applied sqliteMigrations f1)))"

section \<open>The store and its handles\<close>

type_synonym shard = "string tables"

record sqlite_store =
  sq_root :: "string list"
  sq_dbs :: "string list"
  sq_closed :: "string list"
  sq_files :: "(string, string tables sql_file) gomap"

definition NewSQLiteStore :: "env \<Rightarrow> string list \<Rightarrow> (string, string tables sql_file) gomap \<Rightarrow> err + sqlite_store" where
  "NewSQLiteStore e root files =
     (case syscall e 0 of
        Some x \<Rightarrow> Inl (ErrWrap ''create metadata directory'' x)
      | None \<Rightarrow> Inr \<lparr>sq_root = root, sq_dbs = [], sq_closed = [], sq_files = files\<rparr>)"

definition shard_file :: "string \<Rightarrow> string" where
  "shard_file safe = ''tenant_'' @ safe @ ''.db''"

text \<open>\<open>dbFor\<close>: the handle of a tenant's shard, which names its file. Connecting creates the file;
  the handle is registered once the migrations have run.\<close>

definition dbFor :: "(bytes \<Rightarrow> bytes) \<Rightarrow> env \<Rightarrow> string \<Rightarrow> sqlite_store \<Rightarrow> (err + string) \<times> sqlite_store" where
  "dbFor sha e tenant s =
     (case SafeTenantID sha tenant of
        Inl x \<Rightarrow> (Inl x, s)
      | Inr safe \<Rightarrow>
          if safe \<in> set (sq_dbs s) then (Inr safe, s)
          else (case shardPath sha \<lparr>Root = sq_root s\<rparr> safe of
             Inl x \<Rightarrow> (Inl x, s)
           | Inr path \<Rightarrow>
               (case syscall e 0 of
                  Some x \<Rightarrow> (Inl (ErrWrap ''create shard directory'' x), s)
                | None \<Rightarrow>
                    (case syscall e 1 of
                       Some x \<Rightarrow> (Inl (ErrWrap ''open sqlite shard'' x), s)
                     | None \<Rightarrow>
                         (case runMigrations (call e 2) (lookup_or empty_file (sq_files s) (last path)) of
                            (Some x, f) \<Rightarrow> (Inl x, s\<lparr>sq_files := AList.update (last path) f (sq_files s)\<rparr>)
                          | (None, f) \<Rightarrow> (Inr safe, s\<lparr>sq_files := AList.update (last path) f (sq_files s),
                                                   sq_dbs := sq_dbs s @ [safe]\<rparr>))))))"

text \<open>A method's statements run on the tables of the tenant's shard. Every statement on a closed
  handle fails.\<close>

definition conn_env :: "sqlite_store \<Rightarrow> string \<Rightarrow> env \<Rightarrow> env" where
  "conn_env s safe e =
     (if safe \<in> set (sq_closed s) then e\<lparr>sys_err := (\<lambda>_. Some (ErrSys ''sql: database is closed''))\<rparr> else e)"

definition on_shard ::
  "(bytes \<Rightarrow> bytes) \<Rightarrow> env \<Rightarrow> string \<Rightarrow> (env \<Rightarrow> shard \<Rightarrow> (err + 'a) \<times> shard) \<Rightarrow> sqlite_store \<Rightarrow> (err + 'a) \<times> sqlite_store" where
  "on_shard sha e tenant body s =
     (case dbFor sha (call e 0) tenant s of
        (Inl x, s1) \<Rightarrow> (Inl x, s1)
      | (Inr safe, s1) \<Rightarrow>
          (let f = lookup_or empty_file (sq_files s1) (shard_file safe);
               (r, tb) = body (conn_env s1 safe (call e 1)) (sf_tables f)
           in (r, s1\<lparr>sq_files := AList.update (shard_file safe) (f\<lparr>sf_tables := tb\<rparr>) (sq_files s1)\<rparr>)))"

definition err_result :: "(err + unit) \<times> 's \<Rightarrow> err option \<times> 's" where
  "err_result rs = (case rs of (Inl x, s) \<Rightarrow> (Some x, s) | (Inr _, s) \<Rightarrow> (None, s))"

section \<open>Loading objects\<close>

definition toManifest :: "string \<Rightarrow> string object_row \<Rightarrow> err + manifest" where
  "toManifest tenant r =
     (case decodeHeaders (ro_headers r) of
        Inl x \<Rightarrow> Inl x
      | Inr hs \<Rightarrow> Inr \<lparr>m_id = ro_id r, m_tenant = tenant, m_bucket = ro_bucket r, m_key = ro_key r,
          m_state = ro_state r, m_size = ro_size r, m_etag = ro_etag r, m_headers = hs, m_chunks = [],
          m_created = parseTime (ro_created r), m_updated = parseTime (ro_updated r)\<rparr>)"

definition chunk_of_row :: "chunk_row \<Rightarrow> chunk_ref" where
  "chunk_of_row r = \<lparr>cr_hash = rc_hash r, cr_offset = rc_offset r, cr_size = rc_size r, cr_backend_key = rc_backend_key r\<rparr>"

definition loadObjectChunks :: "env \<Rightarrow> string \<Rightarrow> 't tables \<Rightarrow> err + chunk_ref list" where
  "loadObjectChunks e objectID tb =
     (case query_rows e ''load object chunks'' ''scan object chunk'' ''iterate object chunks''
             (ordered_rows e rc_seq (filter (\<lambda>r. rc_object r = objectID) (tb_chunks tb))) of
        Inl x \<Rightarrow> Inl x
      | Inr rows \<Rightarrow> Inr (map chunk_of_row rows))"

definition committed_row :: "string \<Rightarrow> string \<Rightarrow> 't tables \<Rightarrow> 't object_row option" where
  "committed_row bucket key tb =
     find (\<lambda>r. ro_bucket r = bucket \<and> ro_key r = key \<and> ro_state r = StateCommitted) (tb_objects tb)"

text \<open>\<open>loadCommittedObject\<close> runs its two queries outside a transaction: the tables may have changed
  between the first (\<open>tb\<close>) and the second (\<open>tb'\<close>). In a transaction they are the same.\<close>

definition loadCommittedObject ::
  "env \<Rightarrow> string \<Rightarrow> string \<Rightarrow> string \<Rightarrow> shard \<Rightarrow> shard \<Rightarrow> err + manifest option" where
  "loadCommittedObject e tenant bucket key tb tb' =
     (case query_row e 0 ''load object'' (committed_row bucket key tb) of
        Inl x \<Rightarrow> Inl x
      | Inr None \<Rightarrow> Inr None
      | Inr (Some r) \<Rightarrow>
          (case toManifest tenant r of
             Inl x \<Rightarrow> Inl x
           | Inr man \<Rightarrow>
               (case loadObjectChunks (call e 1) (ro_id r) tb' of
                  Inl x \<Rightarrow> Inl x
                | Inr cs \<Rightarrow> Inr (Some (man\<lparr>m_chunks := cs\<rparr>)))))"

definition loadCommittedForUpdate :: "env \<Rightarrow> string \<Rightarrow> string \<Rightarrow> string \<Rightarrow> shard \<Rightarrow> err + manifest option" where
  "loadCommittedForUpdate e tenant bucket key tb =
     (case query_row e 0 ''load committed object'' (committed_row bucket key tb) of
        Inl x \<Rightarrow> Inl x
      | Inr None \<Rightarrow> Inr None
      | Inr (Some r) \<Rightarrow>
          (case toManifest tenant r of
             Inl x \<Rightarrow> Inl x
           | Inr man \<Rightarrow>
               (case loadObjectChunks (call e 1) (ro_id r) tb of
                  Inl x \<Rightarrow> Inl x
                | Inr cs \<Rightarrow> Inr (Some (man\<lparr>m_chunks := cs\<rparr>)))))"

section \<open>Attaching and detaching chunks\<close>

text \<open>The loop of \<open>attachObjectChunks\<close> from a sequence number on: a block row is added or updated,
  the chunk row refers to it, and the block is counted.\<close>

fun attachLoop :: "env \<Rightarrow> 't \<Rightarrow> string \<Rightarrow> nat \<Rightarrow> chunk_ref list \<Rightarrow> 't tables \<Rightarrow> err + 't tables" where
  "attachLoop e t objectID i [] tb = Inr tb"
| "attachLoop e t objectID i (c # cs) tb =
     (if cr_hash c = [] then Inl (ErrNew ''chunk has empty hash'')
      else if cr_size c < 0 \<or> cr_offset c < 0 then Inl (ErrNew ''chunk has invalid offset or size'')
      else (let backendKey = (if cr_backend_key c = [] then defaultBackendKey (cr_hash c) else cr_backend_key c) in
        case exec_stmt (call e i) 0 (''upsert block '' @ cr_hash c)
               (upsert_block \<lparr>rb_hash = cr_hash c, rb_backend_key = backendKey, rb_size = cr_size c, rb_refs = 0,
                  rb_created = t, rb_updated = t\<rparr>) tb of
          Inl x \<Rightarrow> Inl x
        | Inr tb1 \<Rightarrow>
            (case exec_stmt (call e i) 1 ''insert object chunk''
                    (insert_chunk \<lparr>rc_object = objectID, rc_seq = i, rc_hash = cr_hash c, rc_offset = cr_offset c,
                       rc_size = cr_size c, rc_backend_key = backendKey\<rparr>) tb1 of
               Inl x \<Rightarrow> Inl x
             | Inr tb2 \<Rightarrow>
                 (case exec_stmt (call e i) 2 (''increment block ref '' @ cr_hash c)
                         (update_block (cr_hash c) (\<lambda>r. r\<lparr>rb_refs := rb_refs r + 1, rb_updated := t\<rparr>)) tb2 of
                    Inl x \<Rightarrow> Inl x
                  | Inr tb3 \<Rightarrow> attachLoop e t objectID (i + 1) cs tb3))))"

definition attachObjectChunks :: "env \<Rightarrow> string \<Rightarrow> chunk_ref list \<Rightarrow> shard \<Rightarrow> err + shard" where
  "attachObjectChunks e objectID chunks tb = attachLoop (call e 1) (formatTime (now e 0)) objectID 0 chunks tb"

fun detachLoop :: "env \<Rightarrow> 't \<Rightarrow> nat \<Rightarrow> chunk_ref list \<Rightarrow> 't tables \<Rightarrow> err + 't tables" where
  "detachLoop e t i [] tb = Inr tb"
| "detachLoop e t i (c # cs) tb =
     (case exec_stmt e i (''decrement block ref '' @ cr_hash c)
             (update_block (cr_hash c) (\<lambda>r. r\<lparr>rb_refs := (if 0 < rb_refs r then rb_refs r - 1 else 0), rb_updated := t\<rparr>)) tb of
        Inl x \<Rightarrow> Inl x
      | Inr tb' \<Rightarrow> detachLoop e t (i + 1) cs tb')"

definition detachObjectChunks :: "env \<Rightarrow> string \<Rightarrow> chunk_ref list \<Rightarrow> shard \<Rightarrow> err + shard" where
  "detachObjectChunks e objectID chunks tb =
     (case detachLoop (call e 1) (formatTime (now e 0)) 0 chunks tb of
        Inl x \<Rightarrow> Inl x
      | Inr tb' \<Rightarrow> exec_stmt e 2 ''delete object chunk rows'' (delete_chunks objectID) tb')"

section \<open>Objects\<close>

definition sqCreatePendingObject ::
  "(bytes \<Rightarrow> bytes) \<Rightarrow> env \<Rightarrow> manifest \<Rightarrow> sqlite_store \<Rightarrow> (err + string) \<times> sqlite_store" where
  "sqCreatePendingObject sha e man s =
     on_shard sha e (m_tenant man) (\<lambda>e tb.
       let i = (if m_id man = [] then fresh_id e 0 else m_id man); t = now e 0 in
       case encodeHeaders (m_headers man) of
         Inl x \<Rightarrow> (Inl x, tb)
       | Inr headers \<Rightarrow>
           (case exec_stmt e 0 ''insert pending object''
                   (insert_object \<lparr>ro_id = i, ro_bucket = m_bucket man, ro_key = m_key man, ro_state = StatePending,
                      ro_size = m_size man, ro_etag = m_etag man, ro_headers = headers,
                      ro_created = formatTime t, ro_updated = formatTime t\<rparr>) tb of
              Inl x \<Rightarrow> (Inl x, tb)
            | Inr tb' \<Rightarrow> (Inr i, tb'))) s"

text \<open>Retiring the object committed before, as \<open>CommitObject\<close> and \<open>DeleteObject\<close> do it.\<close>

definition retireObject :: "env \<Rightarrow> string \<Rightarrow> int \<Rightarrow> manifest \<Rightarrow> shard \<Rightarrow> err + shard" where
  "retireObject e msg t previous tb =
     (case detachObjectChunks (call e 0) (m_id previous) (m_chunks previous) tb of
        Inl x \<Rightarrow> Inl x
      | Inr tb1 \<Rightarrow> exec_stmt e 1 msg
          (update_object (m_id previous) (\<lambda>r. r\<lparr>ro_state := StateDeleted, ro_updated := formatTime t\<rparr>)) tb1)"

definition commitBody :: "env \<Rightarrow> string \<Rightarrow> manifest \<Rightarrow> shard \<Rightarrow> err + unit \<times> shard" where
  "commitBody e pendingID man tb =
     (case query_row e 0 ''load pending object'' (find (\<lambda>r. ro_id r = pendingID) (tb_objects tb)) of
        Inl x \<Rightarrow> Inl x
      | Inr None \<Rightarrow> Inl ErrNotFound
      | Inr (Some pend) \<Rightarrow>
          if ro_state pend \<noteq> StatePending then Inl ErrNotFound
          else (let t = now e 0 in
            case loadCommittedForUpdate (call e 1) (m_tenant man) (m_bucket man) (m_key man) tb of
              Inl x \<Rightarrow> Inl x
            | Inr previous \<Rightarrow>
                (case (case previous of
                         None \<Rightarrow> Inr tb
                       | Some p \<Rightarrow> retireObject (call e 2) ''mark previous object deleted'' t p tb) of
                   Inl x \<Rightarrow> Inl x
                 | Inr tb1 \<Rightarrow>
                     (case attachObjectChunks (call e 3) pendingID (m_chunks man) tb1 of
                        Inl x \<Rightarrow> Inl x
                      | Inr tb2 \<Rightarrow>
                          (case encodeHeaders (m_headers man) of
                             Inl x \<Rightarrow> Inl x
                           | Inr headers \<Rightarrow>
                               (case exec_stmt e 4 ''commit object row''
                                       (update_object pendingID (\<lambda>r. r\<lparr>ro_state := StateCommitted, ro_size := m_size man,
                                          ro_etag := m_etag man, ro_headers := headers, ro_updated := formatTime t\<rparr>)) tb2 of
                                  Inl x \<Rightarrow> Inl x
                                | Inr tb3 \<Rightarrow> Inr ((), tb3)))))))"

definition sqCommitObject ::
  "(bytes \<Rightarrow> bytes) \<Rightarrow> env \<Rightarrow> string \<Rightarrow> manifest \<Rightarrow> sqlite_store \<Rightarrow> err option \<times> sqlite_store" where
  "sqCommitObject sha e pendingID man s =
     err_result (on_shard sha e (m_tenant man) (\<lambda>e. transaction e ''begin metadata commit''
       (ErrWrap ''commit metadata transaction'') (commitBody (call e 2) pendingID man)) s)"

definition found_or_missing :: "err + 'a option \<Rightarrow> err + 'a" where
  "found_or_missing r = (case r of Inl x \<Rightarrow> Inl x | Inr None \<Rightarrow> Inl ErrNotFound | Inr (Some m) \<Rightarrow> Inr m)"

definition sqGetObject ::
  "(bytes \<Rightarrow> bytes) \<Rightarrow> env \<Rightarrow> string \<Rightarrow> string \<Rightarrow> string \<Rightarrow> sqlite_store \<Rightarrow> (err + manifest) \<times> sqlite_store" where
  "sqGetObject sha e tenant bucket key s =
     on_shard sha e tenant (\<lambda>e tb. (found_or_missing (loadCommittedObject e tenant bucket key tb tb), tb)) s"

definition deleteBody :: "env \<Rightarrow> string \<Rightarrow> string \<Rightarrow> string \<Rightarrow> shard \<Rightarrow> err + manifest \<times> shard" where
  "deleteBody e tenant bucket key tb =
     (case loadCommittedForUpdate (call e 0) tenant bucket key tb of
        Inl x \<Rightarrow> Inl x
      | Inr None \<Rightarrow> Inl ErrNotFound
      | Inr (Some man) \<Rightarrow>
          (let t = now e 0 in
           case retireObject (call e 1) ''mark object deleted'' t man tb of
             Inl x \<Rightarrow> Inl x
           | Inr tb1 \<Rightarrow> Inr (man\<lparr>m_state := StateDeleted, m_updated := t\<rparr>, tb1)))"

definition sqDeleteObject ::
  "(bytes \<Rightarrow> bytes) \<Rightarrow> env \<Rightarrow> string \<Rightarrow> string \<Rightarrow> string \<Rightarrow> sqlite_store \<Rightarrow> (err + manifest) \<times> sqlite_store" where
  "sqDeleteObject sha e tenant bucket key s =
     on_shard sha e tenant (\<lambda>e. transaction e ''begin delete'' (ErrWrap ''commit delete'')
       (deleteBody (call e 2) tenant bucket key)) s"

section \<open>Blocks and tenants\<close>

definition unreferenced_rows :: "env \<Rightarrow> 't :: linorder \<Rightarrow> int \<Rightarrow> 't tables \<Rightarrow> 't block_row list" where
  "unreferenced_rows e before limit tb =
     take (nat limit) (ordered_rows e rb_updated (filter (\<lambda>r. rb_refs r = 0 \<and> rb_updated r \<le> before) (tb_blocks tb)))"

definition sqListUnreferencedBlocksOlderThan ::
  "(bytes \<Rightarrow> bytes) \<Rightarrow> env \<Rightarrow> string \<Rightarrow> int \<Rightarrow> int \<Rightarrow> sqlite_store \<Rightarrow> (err + block_ref list) \<times> sqlite_store" where
  "sqListUnreferencedBlocksOlderThan sha e tenant before limit s =
     on_shard sha e tenant (\<lambda>e tb.
       (case query_rows e ''list unreferenced blocks'' ''scan unreferenced block'' ''iterate unreferenced blocks''
               (unreferenced_rows e (formatTime before) (if limit \<le> 0 then 1000 else limit) tb) of
          Inl x \<Rightarrow> Inl x
        | Inr rows \<Rightarrow> Inr (map (\<lambda>r. \<lparr>br_hash = rb_hash r, br_size = rb_size r, br_updated = parseTime (rb_updated r)\<rparr>) rows),
        tb)) s"

definition sqListUnreferencedBlocks ::
  "(bytes \<Rightarrow> bytes) \<Rightarrow> env \<Rightarrow> string \<Rightarrow> int \<Rightarrow> sqlite_store \<Rightarrow> (err + block_ref list) \<times> sqlite_store" where
  "sqListUnreferencedBlocks sha e tenant limit s =
     sqListUnreferencedBlocksOlderThan sha (call e 0) tenant (now e 0) limit s"

fun forgetBody :: "env \<Rightarrow> nat \<Rightarrow> string list \<Rightarrow> 't tables \<Rightarrow> err + unit \<times> 't tables" where
  "forgetBody e i [] tb = Inr ((), tb)"
| "forgetBody e i (h # hs) tb =
     (case exec_stmt e i (''forget block '' @ h) (delete_unreferenced_block h) tb of
        Inl x \<Rightarrow> Inl x
      | Inr tb' \<Rightarrow> forgetBody e (i + 1) hs tb')"

definition sqForgetBlocks ::
  "(bytes \<Rightarrow> bytes) \<Rightarrow> env \<Rightarrow> string \<Rightarrow> string list \<Rightarrow> sqlite_store \<Rightarrow> err option \<times> sqlite_store" where
  "sqForgetBlocks sha e tenant hashes s =
     err_result (on_shard sha e tenant (\<lambda>e. transaction e ''begin forget blocks'' id (forgetBody (call e 2) 0 hashes)) s)"

text \<open>The shard files of the metadata directory in the order of \<open>filepath.Glob\<close>, which sorts; the
  root itself is taken to have no characters with a meaning in a pattern.\<close>

definition glob_shards :: "sqlite_store \<Rightarrow> string list" where
  "glob_shards s = sort (filter (\<lambda>n. has_prefix n ''tenant_'' \<and> has_suffix n ''.db'' \<and> 10 \<le> length n) (keys (sq_files s)))"

fun addUnseen :: "string list \<Rightarrow> string list \<Rightarrow> string list" where
  "addUnseen ts [] = ts"
| "addUnseen ts (n # ns) =
     (let tenant = take (length n - 10) (drop 7 n)
      in addUnseen (if tenant \<in> set ts then ts else ts @ [tenant]) ns)"

definition sqListTenants :: "env \<Rightarrow> sqlite_store \<Rightarrow> err + string list" where
  "sqListTenants e s =
     (let tenants = addUnseen (go_range (range_pick e [0]) (sq_dbs s)) (glob_shards s)
      in case ctx_poll e 0 of Some x \<Rightarrow> Inl x | None \<Rightarrow> Inr tenants)"

fun pingAll :: "env \<Rightarrow> nat \<Rightarrow> string list \<Rightarrow> sqlite_store \<Rightarrow> err option" where
  "pingAll e i [] s = None"
| "pingAll e i (safe # dbs) s =
     (case syscall (conn_env s safe e) i of
        Some x \<Rightarrow> Some (ErrWrap ''ping sqlite metadata shard'' x)
      | None \<Rightarrow> pingAll e (i + 1) dbs s)"

definition sqHealthCheck :: "env \<Rightarrow> sqlite_store \<Rightarrow> err option" where
  "sqHealthCheck e s =
     (case ctx_poll e 0 of
        Some x \<Rightarrow> Some x
      | None \<Rightarrow>
          (case syscall e 0 of
             Some x \<Rightarrow> Some (ErrWrap ''check sqlite metadata root'' x)
           | None \<Rightarrow> pingAll (call e 1) 0 (go_range (range_pick e [0]) (sq_dbs s)) s))"

text \<open>\<open>Close\<close> closes every handle and returns the first error.\<close>

fun closeAll :: "env \<Rightarrow> nat \<Rightarrow> string list \<Rightarrow> err option \<Rightarrow> err option" where
  "closeAll e i [] closeErr = closeErr"
| "closeAll e i (safe # dbs) closeErr =
     closeAll e (i + 1) dbs (case syscall e i of
        Some x \<Rightarrow> if closeErr = None then Some (ErrWrap (''close tenant '' @ safe) x) else closeErr
      | None \<Rightarrow> closeErr)"

definition sqClose :: "env \<Rightarrow> sqlite_store \<Rightarrow> err option \<times> sqlite_store" where
  "sqClose e s = (closeAll e 0 (go_range (range_pick e [0]) (sq_dbs s)) None, s\<lparr>sq_closed := sq_dbs s\<rparr>)"

section \<open>Multipart sessions\<close>

definition sqCreateMultipartSession ::
  "(bytes \<Rightarrow> bytes) \<Rightarrow> env \<Rightarrow> mp_session \<Rightarrow> sqlite_store \<Rightarrow> err option \<times> sqlite_store" where
  "sqCreateMultipartSession sha e ses s =
     err_result (on_shard sha e (ms_tenant ses) (\<lambda>e tb.
       if ms_upload_id ses = [] then (Inl (ErrNew ''multipart upload id must not be empty''), tb)
       else if ms_reserved ses < 0 then (Inl (ErrNew ''multipart reserved bytes must be >= 0''), tb)
       else (let created = (if is_zero_time (ms_created ses) then now e 0 else ms_created ses);
                 updated = (if is_zero_time (ms_updated ses) then created else ms_updated ses) in
         case encodeHeaders (ms_headers ses) of
           Inl x \<Rightarrow> (Inl x, tb)
         | Inr headers \<Rightarrow>
             (case exec_stmt e 0 ''insert multipart session''
                     (insert_session \<lparr>rs_upload_id = ms_upload_id ses, rs_bucket = ms_bucket ses, rs_key = ms_key ses,
                        rs_headers = headers, rs_reserved = ms_reserved ses,
                        rs_created = formatTime created, rs_updated = formatTime updated\<rparr>) tb of
                Inl x \<Rightarrow> (Inl x, tb)
              | Inr tb' \<Rightarrow> (Inr (), tb')))) s)"

text \<open>\<open>RowsAffected\<close> of the update may itself fail, and its error is ignored.\<close>

definition savePartBody ::
  "env \<Rightarrow> 't \<Rightarrow> 't \<Rightarrow> string \<Rightarrow> mp_part \<Rightarrow> int \<Rightarrow> 't tables \<Rightarrow> err + unit \<times> 't tables" where
  "savePartBody e created t uploadID pt reserved tb =
     (case exec_stmt e 0 ''update multipart session''
             (update_session uploadID (\<lambda>r. r\<lparr>rs_reserved := reserved, rs_updated := t\<rparr>)) tb of
        Inl x \<Rightarrow> Inl x
      | Inr tb1 \<Rightarrow>
          if syscall e 1 = None \<and> uploadID \<notin> rs_upload_id ` set (tb_sessions tb) then Inl ErrNotFound
          else (case exec_stmt e 2 ''upsert multipart part''
                  (upsert_part \<lparr>rp_upload_id = uploadID, rp_number = pt_number pt, rp_path = pt_path pt,
                     rp_size = pt_size pt, rp_etag = pt_etag pt, rp_created = created\<rparr>) tb1 of
             Inl x \<Rightarrow> Inl x
           | Inr tb2 \<Rightarrow> Inr ((), tb2)))"

definition sqSaveMultipartPart ::
  "(bytes \<Rightarrow> bytes) \<Rightarrow> env \<Rightarrow> string \<Rightarrow> string \<Rightarrow> mp_part \<Rightarrow> int \<Rightarrow> sqlite_store \<Rightarrow> err option \<times> sqlite_store" where
  "sqSaveMultipartPart sha e tenant uploadID pt reserved s =
     err_result (on_shard sha e tenant (\<lambda>e tb.
       if pt_number pt \<le> 0 then (Inl (ErrNew ''multipart part number must be positive''), tb)
       else if pt_size pt < 0 \<or> reserved < 0 then (Inl (ErrNew ''multipart part size and reserved bytes must be >= 0''), tb)
       else (let created = (if is_zero_time (pt_created pt) then now e 0 else pt_created pt) in
         transaction e ''begin multipart part save'' (ErrWrap ''commit multipart part save'')
           (savePartBody (call e 2) (formatTime created) (formatTime (now e 1)) uploadID pt reserved) tb)) s)"

definition toMultipartSession :: "string \<Rightarrow> string session_row \<Rightarrow> err + mp_session" where
  "toMultipartSession tenant r =
     (case decodeHeaders (rs_headers r) of
        Inl x \<Rightarrow> Inl x
      | Inr hs \<Rightarrow> Inr \<lparr>ms_upload_id = rs_upload_id r, ms_tenant = tenant, ms_bucket = rs_bucket r, ms_key = rs_key r,
          ms_headers = hs, ms_reserved = rs_reserved r, ms_created = parseTime (rs_created r),
          ms_updated = parseTime (rs_updated r), ms_parts = []\<rparr>)"

definition loadMultipartParts :: "env \<Rightarrow> string \<Rightarrow> shard \<Rightarrow> err + (int, mp_part) gomap" where
  "loadMultipartParts e uploadID tb =
     (case query_rows e ''load multipart parts'' ''scan multipart part'' ''iterate multipart parts''
             (ordered_rows e rp_number (filter (\<lambda>r. rp_upload_id r = uploadID) (tb_parts tb))) of
        Inl x \<Rightarrow> Inl x
      | Inr rows \<Rightarrow> Inr (foldl (\<lambda>m r. AList.update (rp_number r) \<lparr>pt_number = rp_number r, pt_size = rp_size r,
          pt_etag = rp_etag r, pt_path = rp_path r, pt_created = parseTime (rp_created r)\<rparr> m) [] rows))"

definition loadMultipartSession :: "env \<Rightarrow> string \<Rightarrow> string \<Rightarrow> shard \<Rightarrow> err + mp_session option" where
  "loadMultipartSession e tenant uploadID tb =
     (case syscall e 0 of
        Some x \<Rightarrow> Inl (ErrWrap ''query multipart session'' x)
      | None \<Rightarrow>
          (case filter (\<lambda>r. rs_upload_id r = uploadID) (tb_sessions tb) of
             [] \<Rightarrow> (case syscall e 1 of Some x \<Rightarrow> Inl (ErrWrap ''iterate multipart session'' x) | None \<Rightarrow> Inr None)
           | r # rest \<Rightarrow>
               (case syscall e 2 of
                  Some x \<Rightarrow> Inl (ErrWrap ''scan multipart session'' x)
                | None \<Rightarrow>
                    if rest \<noteq> [] then Inl (ErrNew (''duplicate multipart session '' @ uploadID))
                    else (case syscall e 3 of
                       Some x \<Rightarrow> Inl (ErrWrap ''iterate multipart session'' x)
                     | None \<Rightarrow>
                         (case syscall e 4 of
                            Some x \<Rightarrow> Inl (ErrWrap ''close multipart session'' x)
                          | None \<Rightarrow>
                              (case toMultipartSession tenant r of
                                 Inl x \<Rightarrow> Inl x
                               | Inr ses \<Rightarrow>
                                   (case loadMultipartParts (call e 5) uploadID tb of
                                      Inl x \<Rightarrow> Inl x
                                    | Inr parts \<Rightarrow> Inr (Some (ses\<lparr>ms_parts := parts\<rparr>)))))))))"

definition sqGetMultipartSession ::
  "(bytes \<Rightarrow> bytes) \<Rightarrow> env \<Rightarrow> string \<Rightarrow> string \<Rightarrow> sqlite_store \<Rightarrow> (err + mp_session) \<times> sqlite_store" where
  "sqGetMultipartSession sha e tenant uploadID s =
     on_shard sha e tenant (\<lambda>e tb. (found_or_missing (loadMultipartSession e tenant uploadID tb), tb)) s"

text \<open>The second loop of \<open>listMultipartSessions\<close>, which loads the parts of every row.\<close>

fun loadSessions :: "env \<Rightarrow> nat \<Rightarrow> string \<Rightarrow> string session_row list \<Rightarrow> shard \<Rightarrow> err + mp_session list" where
  "loadSessions e i tenant [] tb = Inr []"
| "loadSessions e i tenant (r # rs) tb =
     (case toMultipartSession tenant r of
        Inl x \<Rightarrow> Inl x
      | Inr ses \<Rightarrow>
          (case loadMultipartParts (call e i) (rs_upload_id r) tb of
             Inl x \<Rightarrow> Inl x
           | Inr parts \<Rightarrow>
               (case loadSessions e (i + 1) tenant rs tb of
                  Inl x \<Rightarrow> Inl x
                | Inr rest \<Rightarrow> Inr (ses\<lparr>ms_parts := parts\<rparr> # rest))))"

definition listMultipartSessions ::
  "env \<Rightarrow> string \<Rightarrow> (string session_row \<Rightarrow> bool) \<Rightarrow> shard \<Rightarrow> err + mp_session list" where
  "listMultipartSessions e tenant cond tb =
     (case query_rows e ''list multipart sessions'' ''scan multipart session'' ''iterate multipart sessions''
             (ordered_rows e rs_created (filter cond (tb_sessions tb))) of
        Inl x \<Rightarrow> Inl x
      | Inr rows \<Rightarrow>
          (case syscall e 3 of
             Some x \<Rightarrow> Inl (ErrWrap ''close multipart sessions'' x)
           | None \<Rightarrow> loadSessions (call e 4) 0 tenant rows tb))"

definition sqListMultipartSessions ::
  "(bytes \<Rightarrow> bytes) \<Rightarrow> env \<Rightarrow> string \<Rightarrow> sqlite_store \<Rightarrow> (err + mp_session list) \<times> sqlite_store" where
  "sqListMultipartSessions sha e tenant s =
     on_shard sha e tenant (\<lambda>e tb. (listMultipartSessions e tenant (\<lambda>_. True) tb, tb)) s"

definition sqListStaleMultipartSessions ::
  "(bytes \<Rightarrow> bytes) \<Rightarrow> env \<Rightarrow> string \<Rightarrow> int \<Rightarrow> sqlite_store \<Rightarrow> (err + mp_session list) \<times> sqlite_store" where
  "sqListStaleMultipartSessions sha e tenant before s =
     on_shard sha e tenant (\<lambda>e tb.
       (listMultipartSessions e tenant (\<lambda>r. rs_created r < formatTime before) tb, tb)) s"

definition sqDeleteMultipartSession ::
  "(bytes \<Rightarrow> bytes) \<Rightarrow> env \<Rightarrow> string \<Rightarrow> string \<Rightarrow> sqlite_store \<Rightarrow> err option \<times> sqlite_store" where
  "sqDeleteMultipartSession sha e tenant uploadID s =
     err_result (on_shard sha e tenant (\<lambda>e tb.
       case exec_stmt e 0 ''delete multipart session'' (delete_session uploadID) tb of
         Inl x \<Rightarrow> (Inl x, tb)
       | Inr tb' \<Rightarrow> if syscall e 1 = None \<and> uploadID \<notin> rs_upload_id ` set (tb_sessions tb)
                    then (Inl ErrNotFound, tb') else (Inr (), tb')) s)"

end
