(* ===== verification/PostgresStore.thy ===== *)
theory PostgresStore
  imports SqliteStore
begin

text \<open>
  \<open>src/internal/metadata/postgres.go\<close> and its migrations: one database for all tenants. Every key
  of the schema begins with the tenant's identifier and every statement but the one of
  \<open>ListTenants\<close> is restricted to one tenant, so the database is kept as the tables of each tenant.
  A time column is a timestamp; how the driver rounds a time to one (\<open>pl_stamp\<close>, PostgreSQL keeps
  microseconds) is a parameter, as is SHA-256. Statements of different transactions are taken one
  transaction at a time, which is what the row locks and the unique index are for.
\<close>

section \<open>The database\<close>

record pg_lib =
  pl_sha :: "bytes \<Rightarrow> bytes"
  pl_stamp :: "int \<Rightarrow> int"

type_synonym pg_tables = "int tables"
type_synonym pg_store = "(string, pg_tables) gomap sql_file"

definition postgresMigrations :: "Migration list" where
  "postgresMigrations =
     [\<lparr>mg_Version = 1, mg_Name = ''tenant scoped structured metadata schema'',
       mg_Statements = [CreateTable ''objects'', CreateIndex ''objects_committed_key'',
         CreateIndex ''objects_state_updated'', CreateIndex ''objects_bucket_key_state'',
         CreateTable ''blocks'', CreateIndex ''blocks_ref_count_updated'', CreateTable ''object_chunks'',
         CreateIndex ''object_chunks_hash'', CreateIndex ''object_chunks_object_offset'',
         CreateTable ''multipart_sessions'', CreateIndex ''multipart_sessions_created'',
         CreateTable ''multipart_parts'']\<rparr>]"

definition applyPostgresMigration :: "env \<Rightarrow> Migration \<Rightarrow> 'd sql_file \<Rightarrow> err option \<times> 'd sql_file" where
  "applyPostgresMigration e mig f =
     (case transaction e ''begin postgres migration'' (ErrWrap ''commit postgres migration'')
             (\<lambda>g. case runStatements (call e 2) (''apply postgres migration '' @ mg_Name mig) 0 (mg_Statements mig) g of
                Inl x \<Rightarrow> Inl x
              | Inr g1 \<Rightarrow> (case exec_stmt e 3 ''record postgres migration'' (insert_version (mg_Version mig) (mg_Name mig)) g1 of
                  Inl x \<Rightarrow> Inl x
                | Inr g2 \<Rightarrow> Inr ((), g2))) f of
        (Inl x, f') \<Rightarrow> (Some x, f')
      | (Inr _, f') \<Rightarrow> (None, f'))"

fun applyPendingPostgres :: "env \<Rightarrow> nat \<Rightarrow> int list \<Rightarrow> Migration list \<Rightarrow> 'd sql_file \<Rightarrow> err option \<times> 'd sql_file" where
  "applyPendingPostgres e i applied [] f = (None, f)"
| "applyPendingPostgres e i applied (m # ms) f =
     (if mg_Version m \<in> set applied then applyPendingPostgres e (i + 1) applied ms f
      else (case applyPostgresMigration (call e i) m f of
              (Some x, f') \<Rightarrow> (Some x, f')
            | (None, f') \<Rightarrow> applyPendingPostgres e (i + 1) applied ms f'))"

definition runPostgresMigrations :: "env \<Rightarrow> 'd sql_file \<Rightarrow> err option \<times> 'd sql_file" where
  "runPostgresMigrations e f =
     (case exec_stmt e 1 ''create postgres schema migrations table'' create_versions f of
        Inl x \<Rightarrow> (Some x, f)
      | Inr f1 \<Rightarrow>
          (case appliedMigrations (call e 2) f1 of
             Inl x \<Rightarrow> (Some x, f1)
           | Inr applied \<Rightarrow> applyPendingPostgres (call e 3) 0 applied postgresMigrations f1))"

record PostgresOptions =
  po_DSN :: string
  po_MaxOpenConns :: int
  po_MaxIdleConns :: int
  po_ConnMaxLifetime :: int

text \<open>The limits the connection pool is given (\<open>None\<close> leaves the library's default), and opening.\<close>

definition poolLimits :: "PostgresOptions \<Rightarrow> int \<times> int option \<times> int option" where
  "poolLimits opts = (if po_MaxOpenConns opts \<le> 0 then 16 else po_MaxOpenConns opts,
     if 0 < po_MaxIdleConns opts then Some (po_MaxIdleConns opts) else None,
     if 0 < po_ConnMaxLifetime opts then Some (po_ConnMaxLifetime opts) else None)"

definition NewPostgresStore :: "env \<Rightarrow> PostgresOptions \<Rightarrow> pg_store \<Rightarrow> (err + int \<times> int option \<times> int option) \<times> pg_store" where
  "NewPostgresStore e opts f =
     (if po_DSN opts = [] then (Inl (ErrNew ''postgres dsn must not be empty''), f)
      else case syscall e 0 of
        Some x \<Rightarrow> (Inl (ErrWrap ''open postgres metadata store'' x), f)
      | None \<Rightarrow>
          (case syscall e 1 of
             Some x \<Rightarrow> (Inl (ErrWrap ''connect postgres metadata store'' x), f)
           | None \<Rightarrow>
               (case runPostgresMigrations (call e 2) f of
                  (Some x, f') \<Rightarrow> (Inl x, f')
                | (None, f') \<Rightarrow> (Inr (poolLimits opts), f'))))"

definition on_tenant ::
  "pg_lib \<Rightarrow> string \<Rightarrow> (string \<Rightarrow> pg_tables \<Rightarrow> (err + 'a) \<times> pg_tables) \<Rightarrow> pg_store \<Rightarrow> (err + 'a) \<times> pg_store" where
  "on_tenant L tenant body s =
     (case SafeTenantID (pl_sha L) tenant of
        Inl x \<Rightarrow> (Inl x, s)
      | Inr safe \<Rightarrow>
          (let (r, tb) = body safe (lookup_or empty_tables (sf_tables s) safe)
           in (r, s\<lparr>sf_tables := AList.update safe tb (sf_tables s)\<rparr>)))"

section \<open>Loading objects\<close>

definition postgresToManifest :: "string \<Rightarrow> int object_row \<Rightarrow> err + manifest" where
  "postgresToManifest tenant r =
     (case decodeHeaders (ro_headers r) of
        Inl x \<Rightarrow> Inl x
      | Inr hs \<Rightarrow> Inr \<lparr>m_id = ro_id r, m_tenant = tenant, m_bucket = ro_bucket r, m_key = ro_key r,
          m_state = ro_state r, m_size = ro_size r, m_etag = ro_etag r, m_headers = hs, m_chunks = [],
          m_created = ro_created r, m_updated = ro_updated r\<rparr>)"

definition postgresLoadObjectChunks :: "env \<Rightarrow> string \<Rightarrow> pg_tables \<Rightarrow> err + chunk_ref list" where
  "postgresLoadObjectChunks e objectID tb =
     (case query_rows e ''load object chunks'' ''scan object chunk'' ''iterate object chunks''
             (ordered_rows e rc_seq (filter (\<lambda>r. rc_object r = objectID) (tb_chunks tb))) of
        Inl x \<Rightarrow> Inl x
      | Inr rows \<Rightarrow> Inr (map chunk_of_row rows))"

definition postgresLoadCommittedObject ::
  "env \<Rightarrow> string \<Rightarrow> string \<Rightarrow> string \<Rightarrow> pg_tables \<Rightarrow> pg_tables \<Rightarrow> err + manifest option" where
  "postgresLoadCommittedObject e tenant bucket key tb tb' =
     (case query_row e 0 ''load object'' (committed_row bucket key tb) of
        Inl x \<Rightarrow> Inl x
      | Inr None \<Rightarrow> Inr None
      | Inr (Some r) \<Rightarrow>
          (case postgresToManifest tenant r of
             Inl x \<Rightarrow> Inl x
           | Inr man \<Rightarrow>
               (case postgresLoadObjectChunks (call e 1) (ro_id r) tb' of
                  Inl x \<Rightarrow> Inl x
                | Inr cs \<Rightarrow> Inr (Some (man\<lparr>m_chunks := cs\<rparr>)))))"

definition postgresLoadCommittedForUpdate ::
  "env \<Rightarrow> string \<Rightarrow> string \<Rightarrow> string \<Rightarrow> pg_tables \<Rightarrow> err + manifest option" where
  "postgresLoadCommittedForUpdate e tenant bucket key tb =
     (case query_row e 0 ''load committed object'' (committed_row bucket key tb) of
        Inl x \<Rightarrow> Inl x
      | Inr None \<Rightarrow> Inr None
      | Inr (Some r) \<Rightarrow>
          (case postgresToManifest tenant r of
             Inl x \<Rightarrow> Inl x
           | Inr man \<Rightarrow>
               (case postgresLoadObjectChunks (call e 1) (ro_id r) tb of
                  Inl x \<Rightarrow> Inl x
                | Inr cs \<Rightarrow> Inr (Some (man\<lparr>m_chunks := cs\<rparr>)))))"

section \<open>Attaching and detaching chunks\<close>

fun postgresAttachLoop :: "env \<Rightarrow> int \<Rightarrow> string \<Rightarrow> nat \<Rightarrow> chunk_ref list \<Rightarrow> pg_tables \<Rightarrow> err + pg_tables" where
  "postgresAttachLoop e t objectID i [] tb = Inr tb"
| "postgresAttachLoop e t objectID i (c # cs) tb =
     (if cr_hash c = [] then Inl (ErrNew ''chunk has empty hash'')
      else if cr_size c < 0 \<or> cr_offset c < 0 then Inl (ErrNew ''chunk has invalid offset or size'')
      else (let backendKey = (if cr_backend_key c = [] then defaultBackendKey (cr_hash c) else cr_backend_key c) in
        case exec_stmt (call e i) 0 (''upsert block '' @ cr_hash c)
               (upsert_block \<lparr>rb_hash = cr_hash c, rb_backend_key = backendKey, rb_size = cr_size c, rb_refs = 0,
                  rb_created = t, rb_updated = t\<rparr>) tb of
          Inl x \<Rightarrow> Inl x
        | Inr tb1 \<Rightarrow>
            (case exec_stmt (call e i) 1 ''insert object chunk''
                    (insert_chunk \<lparr>rc_object = objectID, rc_seq = i, rc_hash = cr_hash c, rc_offset = cr_offset c,
                       rc_size = cr_size c, rc_backend_key = backendKey\<rparr>) tb1 of
               Inl x \<Rightarrow> Inl x
             | Inr tb2 \<Rightarrow>
                 (case exec_stmt (call e i) 2 (''increment block ref '' @ cr_hash c)
                         (update_block (cr_hash c) (\<lambda>r. r\<lparr>rb_refs := rb_refs r + 1, rb_updated := t\<rparr>)) tb2 of
                    Inl x \<Rightarrow> Inl x
                  | Inr tb3 \<Rightarrow> postgresAttachLoop e t objectID (i + 1) cs tb3))))"

definition postgresAttachObjectChunks :: "pg_lib \<Rightarrow> env \<Rightarrow> string \<Rightarrow> chunk_ref list \<Rightarrow> pg_tables \<Rightarrow> err + pg_tables" where
  "postgresAttachObjectChunks L e objectID chunks tb =
     postgresAttachLoop (call e 1) (pl_stamp L (now e 0)) objectID 0 chunks tb"

fun postgresDetachLoop :: "env \<Rightarrow> int \<Rightarrow> nat \<Rightarrow> chunk_ref list \<Rightarrow> pg_tables \<Rightarrow> err + pg_tables" where
  "postgresDetachLoop e t i [] tb = Inr tb"
| "postgresDetachLoop e t i (c # cs) tb =
     (case exec_stmt e i (''decrement block ref '' @ cr_hash c)
             (update_block (cr_hash c) (\<lambda>r. r\<lparr>rb_refs := (if 0 < rb_refs r then rb_refs r - 1 else 0), rb_updated := t\<rparr>)) tb of
        Inl x \<Rightarrow> Inl x
      | Inr tb' \<Rightarrow> postgresDetachLoop e t (i + 1) cs tb')"

definition postgresDetachObjectChunks :: "pg_lib \<Rightarrow> env \<Rightarrow> string \<Rightarrow> chunk_ref list \<Rightarrow> pg_tables \<Rightarrow> err + pg_tables" where
  "postgresDetachObjectChunks L e objectID chunks tb =
     (case postgresDetachLoop (call e 1) (pl_stamp L (now e 0)) 0 chunks tb of
        Inl x \<Rightarrow> Inl x
      | Inr tb' \<Rightarrow> exec_stmt e 2 ''delete object chunk rows'' (delete_chunks objectID) tb')"

section \<open>Objects\<close>

definition pgCreatePendingObject :: "pg_lib \<Rightarrow> env \<Rightarrow> manifest \<Rightarrow> pg_store \<Rightarrow> (err + string) \<times> pg_store" where
  "pgCreatePendingObject L e man s =
     on_tenant L (m_tenant man) (\<lambda>tenant tb.
       let i = (if m_id man = [] then fresh_id e 0 else m_id man); t = pl_stamp L (now e 0) in
       case encodeHeaders (m_headers man) of
         Inl x \<Rightarrow> (Inl x, tb)
       | Inr headers \<Rightarrow>
           (case exec_stmt e 0 ''insert pending object''
                   (insert_object \<lparr>ro_id = i, ro_bucket = m_bucket man, ro_key = m_key man, ro_state = StatePending,
                      ro_size = m_size man, ro_etag = m_etag man, ro_headers = headers,
                      ro_created = t, ro_updated = t\<rparr>) tb of
              Inl x \<Rightarrow> (Inl x, tb)
            | Inr tb' \<Rightarrow> (Inr i, tb'))) s"

definition postgresRetireObject :: "pg_lib \<Rightarrow> env \<Rightarrow> string \<Rightarrow> int \<Rightarrow> manifest \<Rightarrow> pg_tables \<Rightarrow> err + pg_tables" where
  "postgresRetireObject L e msg t previous tb =
     (case postgresDetachObjectChunks L (call e 0) (m_id previous) (m_chunks previous) tb of
        Inl x \<Rightarrow> Inl x
      | Inr tb1 \<Rightarrow> exec_stmt e 1 msg
          (update_object (m_id previous) (\<lambda>r. r\<lparr>ro_state := StateDeleted, ro_updated := pl_stamp L t\<rparr>)) tb1)"

text \<open>The committed row also takes the bucket and the key of the manifest.\<close>

definition postgresCommitBody ::
  "pg_lib \<Rightarrow> env \<Rightarrow> string \<Rightarrow> string \<Rightarrow> manifest \<Rightarrow> pg_tables \<Rightarrow> err + unit \<times> pg_tables" where
  "postgresCommitBody L e tenant pendingID man tb =
     (case query_row e 0 ''load pending object'' (find (\<lambda>r. ro_id r = pendingID) (tb_objects tb)) of
        Inl x \<Rightarrow> Inl x
      | Inr None \<Rightarrow> Inl ErrNotFound
      | Inr (Some pend) \<Rightarrow>
          if ro_state pend \<noteq> StatePending then Inl ErrNotFound
          else (let t = now e 0 in
            case postgresLoadCommittedForUpdate (call e 1) tenant (m_bucket man) (m_key man) tb of
              Inl x \<Rightarrow> Inl x
            | Inr previous \<Rightarrow>
                (case (case previous of
                         None \<Rightarrow> Inr tb
                       | Some p \<Rightarrow> postgresRetireObject L (call e 2) ''mark previous object deleted'' t p tb) of
                   Inl x \<Rightarrow> Inl x
                 | Inr tb1 \<Rightarrow>
                     (case postgresAttachObjectChunks L (call e 3) pendingID (m_chunks man) tb1 of
                        Inl x \<Rightarrow> Inl x
                      | Inr tb2 \<Rightarrow>
                          (case encodeHeaders (m_headers man) of
                             Inl x \<Rightarrow> Inl x
                           | Inr headers \<Rightarrow>
                               (case exec_stmt e 4 ''commit object row''
                                       (update_object pendingID (\<lambda>r. r\<lparr>ro_bucket := m_bucket man, ro_key := m_key man,
                                          ro_state := StateCommitted, ro_size := m_size man, ro_etag := m_etag man,
                                          ro_headers := headers, ro_updated := pl_stamp L t\<rparr>)) tb2 of
                                  Inl x \<Rightarrow> Inl x
                                | Inr tb3 \<Rightarrow> Inr ((), tb3)))))))"

definition pgCommitObject :: "pg_lib \<Rightarrow> env \<Rightarrow> string \<Rightarrow> manifest \<Rightarrow> pg_store \<Rightarrow> err option \<times> pg_store" where
  "pgCommitObject L e pendingID man s =
     err_result (on_tenant L (m_tenant man) (\<lambda>tenant. transaction e ''begin metadata commit''
       (ErrWrap ''commit metadata transaction'') (postgresCommitBody L (call e 2) tenant pendingID man)) s)"

definition pgGetObject ::
  "pg_lib \<Rightarrow> env \<Rightarrow> string \<Rightarrow> string \<Rightarrow> string \<Rightarrow> pg_store \<Rightarrow> (err + manifest) \<times> pg_store" where
  "pgGetObject L e tenant bucket key s =
     on_tenant L tenant (\<lambda>safeTenant tb.
       (found_or_missing (postgresLoadCommittedObject e safeTenant bucket key tb tb), tb)) s"

definition postgresDeleteBody ::
  "pg_lib \<Rightarrow> env \<Rightarrow> string \<Rightarrow> string \<Rightarrow> string \<Rightarrow> pg_tables \<Rightarrow> err + manifest \<times> pg_tables" where
  "postgresDeleteBody L e tenant bucket key tb =
     (case postgresLoadCommittedForUpdate (call e 0) tenant bucket key tb of
        Inl x \<Rightarrow> Inl x
      | Inr None \<Rightarrow> Inl ErrNotFound
      | Inr (Some man) \<Rightarrow>
          (let t = now e 0 in
           case postgresRetireObject L (call e 1) ''mark object deleted'' t man tb of
             Inl x \<Rightarrow> Inl x
           | Inr tb1 \<Rightarrow> Inr (man\<lparr>m_state := StateDeleted, m_updated := t\<rparr>, tb1)))"

definition pgDeleteObject ::
  "pg_lib \<Rightarrow> env \<Rightarrow> string \<Rightarrow> string \<Rightarrow> string \<Rightarrow> pg_store \<Rightarrow> (err + manifest) \<times> pg_store" where
  "pgDeleteObject L e tenant bucket key s =
     on_tenant L tenant (\<lambda>safeTenant. transaction e ''begin delete'' (ErrWrap ''commit delete'')
       (postgresDeleteBody L (call e 2) safeTenant bucket key)) s"

section \<open>Blocks and tenants\<close>

definition pgListUnreferencedBlocksOlderThan ::
  "pg_lib \<Rightarrow> env \<Rightarrow> string \<Rightarrow> int \<Rightarrow> int \<Rightarrow> pg_store \<Rightarrow> (err + block_ref list) \<times> pg_store" where
  "pgListUnreferencedBlocksOlderThan L e tenant before limit s =
     on_tenant L tenant (\<lambda>_ tb.
       (case query_rows e ''list unreferenced blocks'' ''scan unreferenced block'' ''iterate unreferenced blocks''
               (unreferenced_rows e (pl_stamp L before) (if limit \<le> 0 then 1000 else limit) tb) of
          Inl x \<Rightarrow> Inl x
        | Inr rows \<Rightarrow> Inr (map (\<lambda>r. \<lparr>br_hash = rb_hash r, br_size = rb_size r, br_updated = rb_updated r\<rparr>) rows),
        tb)) s"

definition pgListUnreferencedBlocks ::
  "pg_lib \<Rightarrow> env \<Rightarrow> string \<Rightarrow> int \<Rightarrow> pg_store \<Rightarrow> (err + block_ref list) \<times> pg_store" where
  "pgListUnreferencedBlocks L e tenant limit s =
     pgListUnreferencedBlocksOlderThan L (call e 0) tenant (now e 0) limit s"

fun postgresForgetBody :: "env \<Rightarrow> nat \<Rightarrow> string list \<Rightarrow> pg_tables \<Rightarrow> err + unit \<times> pg_tables" where
  "postgresForgetBody e i [] tb = Inr ((), tb)"
| "postgresForgetBody e i (h # hs) tb =
     (case exec_stmt e i (''forget block '' @ h) (delete_unreferenced_block h) tb of
        Inl x \<Rightarrow> Inl x
      | Inr tb' \<Rightarrow> postgresForgetBody e (i + 1) hs tb')"

definition pgForgetBlocks :: "pg_lib \<Rightarrow> env \<Rightarrow> string \<Rightarrow> string list \<Rightarrow> pg_store \<Rightarrow> err option \<times> pg_store" where
  "pgForgetBlocks L e tenant hashes s =
     err_result (on_tenant L tenant (\<lambda>_. transaction e ''begin forget blocks'' id (postgresForgetBody (call e 2) 0 hashes)) s)"

text \<open>The union of the tenants with an object, a block or a session, sorted by name.\<close>

definition pgListTenants :: "env \<Rightarrow> pg_store \<Rightarrow> err + string list" where
  "pgListTenants e s =
     query_rows e ''list tenants'' ''scan tenant'' ''iterate tenants''
       (sort (remdups (keys (filter (\<lambda>(_, tb). tb_objects tb \<noteq> [] \<or> tb_blocks tb \<noteq> [] \<or> tb_sessions tb \<noteq> []) (sf_tables s)))))"

definition pgHealthCheck :: "env \<Rightarrow> err option" where
  "pgHealthCheck e = (case syscall e 0 of Some x \<Rightarrow> Some (ErrWrap ''ping postgres metadata store'' x) | None \<Rightarrow> None)"

definition pgClose :: "env \<Rightarrow> err option" where
  "pgClose e = syscall e 0"

section \<open>Multipart sessions\<close>

definition pgCreateMultipartSession :: "pg_lib \<Rightarrow> env \<Rightarrow> mp_session \<Rightarrow> pg_store \<Rightarrow> err option \<times> pg_store" where
  "pgCreateMultipartSession L e ses s =
     err_result (on_tenant L (ms_tenant ses) (\<lambda>tenant tb.
       if ms_upload_id ses = [] then (Inl (ErrNew ''multipart upload id must not be empty''), tb)
       else if ms_reserved ses < 0 then (Inl (ErrNew ''multipart reserved bytes must be >= 0''), tb)
       else (let created = (if is_zero_time (ms_created ses) then now e 0 else ms_created ses);
                 updated = (if is_zero_time (ms_updated ses) then created else ms_updated ses) in
         case encodeHeaders (ms_headers ses) of
           Inl x \<Rightarrow> (Inl x, tb)
         | Inr headers \<Rightarrow>
             (case exec_stmt e 0 ''insert multipart session''
                     (insert_session \<lparr>rs_upload_id = ms_upload_id ses, rs_bucket = ms_bucket ses, rs_key = ms_key ses,
                        rs_headers = headers, rs_reserved = ms_reserved ses,
                        rs_created = pl_stamp L created, rs_updated = pl_stamp L updated\<rparr>) tb of
                Inl x \<Rightarrow> (Inl x, tb)
              | Inr tb' \<Rightarrow> (Inr (), tb')))) s)"

definition postgresSavePartBody ::
  "env \<Rightarrow> int \<Rightarrow> int \<Rightarrow> string \<Rightarrow> mp_part \<Rightarrow> int \<Rightarrow> pg_tables \<Rightarrow> err + unit \<times> pg_tables" where
  "postgresSavePartBody e created t uploadID pt reserved tb =
     (case exec_stmt e 0 ''update multipart session''
             (update_session uploadID (\<lambda>r. r\<lparr>rs_reserved := reserved, rs_updated := t\<rparr>)) tb of
        Inl x \<Rightarrow> Inl x
      | Inr tb1 \<Rightarrow>
          if syscall e 1 = None \<and> uploadID \<notin> rs_upload_id ` set (tb_sessions tb) then Inl ErrNotFound
          else (case exec_stmt e 2 ''upsert multipart part''
                  (upsert_part \<lparr>rp_upload_id = uploadID, rp_number = pt_number pt, rp_path = pt_path pt,
                     rp_size = pt_size pt, rp_etag = pt_etag pt, rp_created = created\<rparr>) tb1 of
             Inl x \<Rightarrow> Inl x
           | Inr tb2 \<Rightarrow> Inr ((), tb2)))"

definition pgSaveMultipartPart ::
  "pg_lib \<Rightarrow> env \<Rightarrow> string \<Rightarrow> string \<Rightarrow> mp_part \<Rightarrow> int \<Rightarrow> pg_store \<Rightarrow> err option \<times> pg_store" where
  "pgSaveMultipartPart L e tenant uploadID pt reserved s =
     err_result (on_tenant L tenant (\<lambda>_ tb.
       if pt_number pt \<le> 0 then (Inl (ErrNew ''multipart part number must be positive''), tb)
       else if pt_size pt < 0 \<or> reserved < 0 then (Inl (ErrNew ''multipart part size and reserved bytes must be >= 0''), tb)
       else (let created = (if is_zero_time (pt_created pt) then now e 0 else pt_created pt) in
         transaction e ''begin multipart part save'' (ErrWrap ''commit multipart part save'')
           (postgresSavePartBody (call e 2) (pl_stamp L created) (pl_stamp L (now e 1)) uploadID pt reserved) tb)) s)"

definition postgresToMultipartSession :: "string \<Rightarrow> int session_row \<Rightarrow> err + mp_session" where
  "postgresToMultipartSession tenant r =
     (case decodeHeaders (rs_headers r) of
        Inl x \<Rightarrow> Inl x
      | Inr hs \<Rightarrow> Inr \<lparr>ms_upload_id = rs_upload_id r, ms_tenant = tenant, ms_bucket = rs_bucket r, ms_key = rs_key r,
          ms_headers = hs, ms_reserved = rs_reserved r, ms_created = rs_created r,
          ms_updated = rs_updated r, ms_parts = []\<rparr>)"

definition postgresLoadMultipartParts :: "env \<Rightarrow> string \<Rightarrow> pg_tables \<Rightarrow> err + (int, mp_part) gomap" where
  "postgresLoadMultipartParts e uploadID tb =
     (case query_rows e ''load multipart parts'' ''scan multipart part'' ''iterate multipart parts''
             (ordered_rows e rp_number (filter (\<lambda>r. rp_upload_id r = uploadID) (tb_parts tb))) of
        Inl x \<Rightarrow> Inl x
      | Inr rows \<Rightarrow> Inr (foldl (\<lambda>m r. AList.update (rp_number r) \<lparr>pt_number = rp_number r, pt_size = rp_size r,
          pt_etag = rp_etag r, pt_path = rp_path r, pt_created = rp_created r\<rparr> m) [] rows))"

definition postgresLoadMultipartSession :: "env \<Rightarrow> string \<Rightarrow> string \<Rightarrow> pg_tables \<Rightarrow> err + mp_session option" where
  "postgresLoadMultipartSession e tenant uploadID tb =
     (case query_row e 0 ''load multipart session'' (find (\<lambda>r. rs_upload_id r = uploadID) (tb_sessions tb)) of
        Inl x \<Rightarrow> Inl x
      | Inr None \<Rightarrow> Inr None
      | Inr (Some r) \<Rightarrow>
          (case postgresToMultipartSession tenant r of
             Inl x \<Rightarrow> Inl x
           | Inr ses \<Rightarrow>
               (case postgresLoadMultipartParts (call e 1) uploadID tb of
                  Inl x \<Rightarrow> Inl x
                | Inr parts \<Rightarrow> Inr (Some (ses\<lparr>ms_parts := parts\<rparr>)))))"

definition pgGetMultipartSession ::
  "pg_lib \<Rightarrow> env \<Rightarrow> string \<Rightarrow> string \<Rightarrow> pg_store \<Rightarrow> (err + mp_session) \<times> pg_store" where
  "pgGetMultipartSession L e tenant uploadID s =
     on_tenant L tenant (\<lambda>safeTenant tb. (found_or_missing (postgresLoadMultipartSession e safeTenant uploadID tb), tb)) s"

fun postgresLoadSessions :: "env \<Rightarrow> nat \<Rightarrow> string \<Rightarrow> int session_row list \<Rightarrow> pg_tables \<Rightarrow> err + mp_session list" where
  "postgresLoadSessions e i tenant [] tb = Inr []"
| "postgresLoadSessions e i tenant (r # rs) tb =
     (case postgresToMultipartSession tenant r of
        Inl x \<Rightarrow> Inl x
      | Inr ses \<Rightarrow>
          (case postgresLoadMultipartParts (call e i) (rs_upload_id r) tb of
             Inl x \<Rightarrow> Inl x
           | Inr parts \<Rightarrow>
               (case postgresLoadSessions e (i + 1) tenant rs tb of
                  Inl x \<Rightarrow> Inl x
                | Inr rest \<Rightarrow> Inr (ses\<lparr>ms_parts := parts\<rparr> # rest))))"

definition postgresListMultipartSessions ::
  "env \<Rightarrow> string \<Rightarrow> (int session_row \<Rightarrow> bool) \<Rightarrow> pg_tables \<Rightarrow> err + mp_session list" where
  "postgresListMultipartSessions e tenant cond tb =
     (case query_rows e ''list multipart sessions'' ''scan multipart session'' ''iterate multipart sessions''
             (ordered_rows e rs_created (filter cond (tb_sessions tb))) of
        Inl x \<Rightarrow> Inl x
      | Inr rows \<Rightarrow>
          (case syscall e 3 of
             Some x \<Rightarrow> Inl (ErrWrap ''close multipart sessions'' x)
           | None \<Rightarrow> postgresLoadSessions (call e 4) 0 tenant rows tb))"

definition pgListMultipartSessions :: "pg_lib \<Rightarrow> env \<Rightarrow> string \<Rightarrow> pg_store \<Rightarrow> (err + mp_session list) \<times> pg_store" where
  "pgListMultipartSessions L e tenant s =
     on_tenant L tenant (\<lambda>safeTenant tb. (postgresListMultipartSessions e safeTenant (\<lambda>_. True) tb, tb)) s"

definition pgListStaleMultipartSessions ::
  "pg_lib \<Rightarrow> env \<Rightarrow> string \<Rightarrow> int \<Rightarrow> pg_store \<Rightarrow> (err + mp_session list) \<times> pg_store" where
  "pgListStaleMultipartSessions L e tenant before s =
     on_tenant L tenant (\<lambda>safeTenant tb.
       (postgresListMultipartSessions e safeTenant (\<lambda>r. rs_created r < pl_stamp L before) tb, tb)) s"

definition pgDeleteMultipartSession :: "pg_lib \<Rightarrow> env \<Rightarrow> string \<Rightarrow> string \<Rightarrow> pg_store \<Rightarrow> err option \<times> pg_store" where
  "pgDeleteMultipartSession L e tenant uploadID s =
     err_result (on_tenant L tenant (\<lambda>_ tb.
       case exec_stmt e 0 ''delete multipart session'' (delete_session uploadID) tb of
         Inl x \<Rightarrow> (Inl x, tb)
       | Inr tb' \<Rightarrow> if syscall e 1 = None \<and> uploadID \<notin> rs_upload_id ` set (tb_sessions tb)
                    then (Inl ErrNotFound, tb') else (Inr (), tb')) s)"

end
