(* ===== verification/SqlProps.thy ===== *)
theory SqlProps
  imports PostgresStore
begin

text \<open>
  The invariant of the SQL stores' tables and what attaching, detaching, retiring and committing
  do to them, for any type of time column: reference counts are exact, chunk rows belong to
  committed objects, and the objects served for each key change as the operation says. Both
  stores use these lemmas.
\<close>

section \<open>Statements that succeed\<close>

lemma exec_stmt_Inr: "exec_stmt e i msg stmt tb = Inr tb' \<Longrightarrow> stmt tb = Inr tb'"
  by (auto simp: exec_stmt_def split: option.splits sum.splits)

lemma exec_stmt_quiet: "syscall e i = None \<Longrightarrow> stmt tb = Inr tb' \<Longrightarrow> exec_stmt e i msg stmt tb = Inr tb'"
  by (simp add: exec_stmt_def)

lemma constrained_Inr: "constrained tb = Inr tb' \<longleftrightarrow> tb' = tb \<and> schema_ok tb"
  by (auto simp: constrained_def)

lemma query_row_Inr: "query_row e i msg r = Inr r' \<Longrightarrow> r' = r"
  by (auto simp: query_row_def split: option.splits)

lemma query_rows_Inr: "query_rows e a b c rows = Inr rows' \<Longrightarrow> rows' = rows"
  by (auto simp: query_rows_def split: option.splits)

lemma transaction_cases:
  assumes "transaction e b c body tb = (r, tb')"
  shows "(\<exists>x. r = Inl x \<and> tb' = tb) \<or> (\<exists>a. r = Inr a \<and> body tb = Inr (a, tb'))"
  using assms by (auto simp: transaction_def split: option.splits sum.splits prod.splits)

lemma ordered_rows_mset [simp]: "mset (ordered_rows e key rows) = mset rows"
  by (simp add: ordered_rows_def)

lemma ordered_rows_set [simp]: "set (ordered_rows e key rows) = set rows"
  by (simp add: ordered_rows_def)

lemma ordered_rows_unique:
  assumes "distinct (map key rows)" "sorted (map key rows)"
  shows "ordered_rows e key rows = rows"
  unfolding ordered_rows_def
proof (rule sort_key_inj_key_eq)
  show "inj_on key (set (go_range (range_pick e [0]) rows))" using assms(1) by (simp add: distinct_map)
qed (use assms in simp_all)

lemma find_map_same: "(\<And>x. P (f x) = P x) \<Longrightarrow> find P (map f xs) = map_option f (find P xs)"
  by (induction xs) auto

lemma find_append: "find P (xs @ ys) = (case find P xs of None \<Rightarrow> find P ys | Some x \<Rightarrow> Some x)"
  by (induction xs) auto

lemma find_SomeD: "find P xs = Some x \<Longrightarrow> x \<in> set xs \<and> P x"
  by (induction xs) (auto split: if_splits)

lemma find_NoneD: "find P xs = None \<Longrightarrow> x \<in> set xs \<Longrightarrow> \<not> P x"
  by (induction xs) (auto split: if_splits)

lemma find_distinct: "distinct (map f xs) \<Longrightarrow> x \<in> set xs \<Longrightarrow> find (\<lambda>y. f y = f x) xs = Some x"
  by (induction xs) auto

section \<open>The invariant\<close>

definition block_refs :: "'t tables \<Rightarrow> string \<Rightarrow> int" where
  "block_refs tb h = (case find (\<lambda>b. rb_hash b = h) (tb_blocks tb) of None \<Rightarrow> 0 | Some b \<Rightarrow> rb_refs b)"

definition row_count :: "chunk_row list \<Rightarrow> string \<Rightarrow> int" where
  "row_count rows h = int (length (filter (\<lambda>r. rc_hash r = h) rows))"

definition refs_exact :: "'t tables \<Rightarrow> bool" where
  "refs_exact tb \<longleftrightarrow> (\<forall>h. block_refs tb h = row_count (tb_chunks tb) h)"

definition chunks_owned :: "'t tables \<Rightarrow> string set \<Rightarrow> bool" where
  "chunks_owned tb ids \<longleftrightarrow> (\<forall>c \<in> set (tb_chunks tb). rc_object c \<in> ids
     \<or> (\<exists>r \<in> set (tb_objects tb). ro_id r = rc_object c \<and> ro_state r = StateCommitted))"

definition headers_ok :: "'t tables \<Rightarrow> bool" where
  "headers_ok tb \<longleftrightarrow> (\<forall>r \<in> set (tb_objects tb). \<exists>hs. ro_headers r = json_map hs)"

definition shard_ok :: "'t tables \<Rightarrow> bool" where
  "shard_ok tb \<longleftrightarrow> schema_ok tb \<and> refs_exact tb \<and> chunks_owned tb {} \<and> headers_ok tb"

lemma shard_ok_empty [simp]: "shard_ok empty_tables"
  by (simp add: shard_ok_def schema_ok_def empty_tables_def objects_valid_def blocks_valid_def chunks_valid_def
    sessions_valid_def parts_valid_def refs_exact_def block_refs_def row_count_def chunks_owned_def headers_ok_def)

lemma row_count_simps [simp]:
  "row_count [] h = 0" "row_count (r # rs) h = (if rc_hash r = h then 1 else 0) + row_count rs h"
  "row_count (xs @ ys) h = row_count xs h + row_count ys h"
  by (simp_all add: row_count_def)

lemma row_count_nonneg [simp, intro]: "0 \<le> row_count rows h"
  by (simp add: row_count_def)

lemma row_count_split: "row_count rows h = row_count (filter P rows) h + row_count (filter (\<lambda>r. \<not> P r) rows) h"
  by (induction rows) auto

lemma row_count_mset: "mset xs = mset ys \<Longrightarrow> row_count xs h = row_count ys h"
  unfolding row_count_def by (metis mset_filter size_mset)

definition chunk_count :: "chunk_ref list \<Rightarrow> string \<Rightarrow> int" where
  "chunk_count cs h = int (length (filter (\<lambda>c. cr_hash c = h) cs))"

lemma chunk_count_simps [simp]:
  "chunk_count [] h = 0" "chunk_count (c # cs) h = (if cr_hash c = h then 1 else 0) + chunk_count cs h"
  by (simp_all add: chunk_count_def)

lemma chunk_count_nonneg [simp]: "0 \<le> chunk_count cs h"
  by (simp add: chunk_count_def)

lemma chunk_count_rows: "chunk_count (map chunk_of_row rows) h = row_count rows h"
  by (induction rows) (simp_all add: chunk_of_row_def)

lemma row_count_pos: "c \<in> set rows \<Longrightarrow> 0 < row_count rows (rc_hash c)"
  by (induction rows) (auto intro: add_pos_nonneg)

text \<open>The chunks of an object, and the object served for a key: size, entity tag, headers and
  chunks.\<close>

definition object_rows :: "'t tables \<Rightarrow> string \<Rightarrow> chunk_row list" where
  "object_rows tb i = filter (\<lambda>r. rc_object r = i) (tb_chunks tb)"

definition chunks_of :: "'t tables \<Rightarrow> string \<Rightarrow> chunk_ref list" where
  "chunks_of tb i = map chunk_of_row (sort_key rc_seq (object_rows tb i))"

type_synonym stored_object = "int \<times> string \<times> string \<times> chunk_ref list"

definition row_view :: "'t tables \<Rightarrow> 't object_row \<Rightarrow> stored_object" where
  "row_view tb r = (ro_size r, ro_etag r, ro_headers r, chunks_of tb (ro_id r))"

definition object_view :: "'t tables \<Rightarrow> string \<times> string \<Rightarrow> stored_object option" where
  "object_view tb bk = map_option (row_view tb) (committed_row (fst bk) (snd bk) tb)"

lemma ordered_chunks:
  assumes "schema_ok tb"
  shows "map chunk_of_row (ordered_rows e rc_seq (object_rows tb i)) = chunks_of tb i"
proof -
  have "distinct (map rc_seq (object_rows tb i))"
    using assms unfolding schema_ok_def chunks_valid_def object_rows_def
    by (auto simp: distinct_map inj_on_def)
  then have "inj_on rc_seq (set (go_range (range_pick e [0]) (object_rows tb i)))" by (simp add: distinct_map)
  then have "ordered_rows e rc_seq (object_rows tb i) = sort_key rc_seq (object_rows tb i)"
    unfolding ordered_rows_def by (intro sort_key_inj_key_eq) simp_all
  then show ?thesis by (simp add: chunks_of_def)
qed

lemma committed_row_iff:
  assumes "schema_ok tb"
  shows "committed_row b k tb = Some r \<longleftrightarrow> r \<in> set (tb_objects tb) \<and> ro_bucket r = b \<and> ro_key r = k \<and> ro_state r = StateCommitted"
proof -
  let ?com = "filter (\<lambda>r. ro_state r = StateCommitted) (tb_objects tb)"
  have inj: "x = y" if "x \<in> set ?com" "y \<in> set ?com" "(ro_bucket x, ro_key x) = (ro_bucket y, ro_key y)" for x y
    using assms that unfolding schema_ok_def objects_valid_def by (auto simp: distinct_map dest: inj_onD)
  show ?thesis
  proof
    assume "committed_row b k tb = Some r"
    then show "r \<in> set (tb_objects tb) \<and> ro_bucket r = b \<and> ro_key r = k \<and> ro_state r = StateCommitted"
      unfolding committed_row_def by (blast dest: find_SomeD)
  next
    assume r: "r \<in> set (tb_objects tb) \<and> ro_bucket r = b \<and> ro_key r = k \<and> ro_state r = StateCommitted"
    show "committed_row b k tb = Some r"
    proof (cases "committed_row b k tb")
      case None
      with r show ?thesis unfolding committed_row_def by (blast dest: find_NoneD)
    next
      case (Some x)
      then have "x \<in> set (tb_objects tb) \<and> ro_bucket x = b \<and> ro_key x = k \<and> ro_state x = StateCommitted"
        unfolding committed_row_def by (blast dest: find_SomeD)
      with r inj [of x r] Some show ?thesis by simp
    qed
  qed
qed

lemma object_ids: "schema_ok tb \<Longrightarrow> r \<in> set (tb_objects tb) \<Longrightarrow> r' \<in> set (tb_objects tb) \<Longrightarrow> ro_id r = ro_id r' \<Longrightarrow> r = r'"
  unfolding schema_ok_def objects_valid_def by (auto simp: distinct_map dest: inj_onD)

section \<open>Attaching and detaching\<close>

definition chunk_key :: "chunk_ref \<Rightarrow> string" where
  "chunk_key c = (if cr_backend_key c = [] then defaultBackendKey (cr_hash c) else cr_backend_key c)"

definition stored_chunk :: "chunk_ref \<Rightarrow> chunk_ref" where
  "stored_chunk c = c\<lparr>cr_backend_key := chunk_key c\<rparr>"

fun chunk_rows :: "string \<Rightarrow> nat \<Rightarrow> chunk_ref list \<Rightarrow> chunk_row list" where
  "chunk_rows objectID i [] = []"
| "chunk_rows objectID i (c # cs) = \<lparr>rc_object = objectID, rc_seq = i, rc_hash = cr_hash c, rc_offset = cr_offset c,
     rc_size = cr_size c, rc_backend_key = chunk_key c\<rparr> # chunk_rows objectID (i + 1) cs"

lemma block_refs_upsert:
  assumes "upsert_block b tb = Inr tb'" "rb_refs b = 0"
  shows "block_refs tb' h = block_refs tb h"
proof -
  have f: "find (\<lambda>x. rb_hash x = h) (map (\<lambda>r. if rb_hash r = rb_hash b then r\<lparr>rb_backend_key := k, rb_size := n, rb_updated := u\<rparr> else r) rows)
      = map_option (\<lambda>r. if rb_hash r = rb_hash b then r\<lparr>rb_backend_key := k, rb_size := n, rb_updated := u\<rparr> else r)
          (find (\<lambda>x. rb_hash x = h) rows)" for k n u and rows :: "'a block_row list"
    by (rule find_map_same) simp
  show ?thesis using assms
    by (auto simp: upsert_block_def constrained_Inr block_refs_def f find_append split: option.splits)
qed

lemma upsert_block_Inr:
  assumes "upsert_block b tb = Inr tb'"
  shows "tb_objects tb' = tb_objects tb" "tb_sessions tb' = tb_sessions tb" "tb_parts tb' = tb_parts tb"
    "tb_chunks tb' = tb_chunks tb" "rb_hash b \<in> rb_hash ` set (tb_blocks tb')"
proof -
  have "rb_hash ` (\<lambda>r. if rb_hash r = rb_hash b then r\<lparr>rb_backend_key := k, rb_size := n, rb_updated := u\<rparr> else r) ` A = rb_hash ` A"
    for k n u and A :: "'a block_row set"
    unfolding image_image by (rule image_cong) simp_all
  with assms show "rb_hash b \<in> rb_hash ` set (tb_blocks tb')"
    by (auto simp: upsert_block_def constrained_Inr split: if_splits)
qed (use assms in \<open>auto simp: upsert_block_def constrained_Inr\<close>)

lemma block_refs_update:
  assumes "update_block h0 f tb = Inr tb'" "\<And>r. rb_hash (f r) = rb_hash r"
  shows "block_refs tb' h = (case find (\<lambda>b. rb_hash b = h) (tb_blocks tb) of None \<Rightarrow> 0
    | Some b \<Rightarrow> rb_refs (if rb_hash b = h0 then f b else b))"
proof -
  have "find (\<lambda>b. rb_hash b = h) (map (\<lambda>r. if rb_hash r = h0 then f r else r) (tb_blocks tb))
      = map_option (\<lambda>r. if rb_hash r = h0 then f r else r) (find (\<lambda>b. rb_hash b = h) (tb_blocks tb))"
    by (rule find_map_same) (simp add: assms(2))
  with assms(1) show ?thesis by (auto simp: update_block_def constrained_Inr block_refs_def split: option.splits)
qed

lemma block_refs_inc:
  assumes "update_block h0 (\<lambda>r. r\<lparr>rb_refs := rb_refs r + 1, rb_updated := t\<rparr>) tb = Inr tb'"
    and "h0 \<in> rb_hash ` set (tb_blocks tb)"
  shows "block_refs tb' h = block_refs tb h + (if h0 = h then 1 else 0)"
proof (cases "find (\<lambda>b. rb_hash b = h) (tb_blocks tb)")
  case None
  with assms(2) have "h0 \<noteq> h" by (auto simp: find_None_iff)
  with None block_refs_update [OF assms(1), of h] show ?thesis by (simp add: block_refs_def)
next
  case (Some b)
  then have "rb_hash b = h" by (blast dest: find_SomeD)
  with Some block_refs_update [OF assms(1), of h] show ?thesis by (auto simp: block_refs_def)
qed

lemma block_refs_dec:
  assumes "update_block h0 (\<lambda>r. r\<lparr>rb_refs := (if 0 < rb_refs r then rb_refs r - 1 else 0), rb_updated := t\<rparr>) tb = Inr tb'"
    and "0 < block_refs tb h0"
  shows "block_refs tb' h = block_refs tb h - (if h0 = h then 1 else 0)"
proof (cases "find (\<lambda>b. rb_hash b = h) (tb_blocks tb)")
  case None
  with assms(2) have "h0 \<noteq> h" by (auto simp: block_refs_def)
  with None block_refs_update [OF assms(1), of h] show ?thesis by (simp add: block_refs_def)
next
  case (Some b)
  then have "rb_hash b = h" by (blast dest: find_SomeD)
  with Some block_refs_update [OF assms(1), of h] assms(2) show ?thesis by (auto simp: block_refs_def)
qed

lemma block_refs_frame [simp]:
  "block_refs (tb\<lparr>tb_chunks := x\<rparr>) h = block_refs tb h" "block_refs (tb\<lparr>tb_objects := y\<rparr>) h = block_refs tb h"
  by (simp_all add: block_refs_def)

lemma attachLoop_spec:
  "attachLoop e t objectID i cs tb = Inr tb' \<Longrightarrow> schema_ok tb \<Longrightarrow>
     schema_ok tb' \<and> tb_objects tb' = tb_objects tb \<and> tb_sessions tb' = tb_sessions tb \<and> tb_parts tb' = tb_parts tb
     \<and> tb_chunks tb' = tb_chunks tb @ chunk_rows objectID i cs
     \<and> (\<forall>h. block_refs tb' h = block_refs tb h + row_count (chunk_rows objectID i cs) h)"
proof (induction e t objectID i cs tb rule: attachLoop.induct)
  case (2 e t objectID i c cs tb)
  let ?key = "if cr_backend_key c = [] then defaultBackendKey (cr_hash c) else cr_backend_key c"
  let ?b = "\<lparr>rb_hash = cr_hash c, rb_backend_key = ?key, rb_size = cr_size c, rb_refs = 0, rb_created = t, rb_updated = t\<rparr>"
  let ?r = "\<lparr>rc_object = objectID, rc_seq = i, rc_hash = cr_hash c, rc_offset = cr_offset c, rc_size = cr_size c, rc_backend_key = ?key\<rparr>"
  let ?f = "\<lambda>r. r\<lparr>rb_refs := rb_refs r + 1, rb_updated := t\<rparr>"
  from "2.prems"(1) obtain tb1 tb2 tb3 where g: "cr_hash c \<noteq> []" "\<not> (cr_size c < 0 \<or> cr_offset c < 0)"
    and s1: "exec_stmt (call e i) 0 (''upsert block '' @ cr_hash c) (upsert_block ?b) tb = Inr tb1"
    and s2: "exec_stmt (call e i) 1 ''insert object chunk'' (insert_chunk ?r) tb1 = Inr tb2"
    and s3: "exec_stmt (call e i) 2 (''increment block ref '' @ cr_hash c) (update_block (cr_hash c) ?f) tb2 = Inr tb3"
    and rest: "attachLoop e t objectID (i + 1) cs tb3 = Inr tb'"
    by (simp add: Let_def split: if_splits sum.splits)
  note u1 = exec_stmt_Inr [OF s1] and u2 = exec_stmt_Inr [OF s2] and u3 = exec_stmt_Inr [OF s3]
  have tb1: "tb_objects tb1 = tb_objects tb" "tb_sessions tb1 = tb_sessions tb" "tb_parts tb1 = tb_parts tb"
    "tb_chunks tb1 = tb_chunks tb" "cr_hash c \<in> rb_hash ` set (tb_blocks tb1)"
    using upsert_block_Inr [OF u1] by simp_all
  have tb2: "tb2 = tb1\<lparr>tb_chunks := tb_chunks tb1 @ [?r]\<rparr>" using u2 by (simp add: insert_chunk_def constrained_Inr)
  have tb3: "tb_objects tb3 = tb_objects tb2" "tb_sessions tb3 = tb_sessions tb2" "tb_parts tb3 = tb_parts tb2"
    "tb_chunks tb3 = tb_chunks tb2" "schema_ok tb3"
    using u3 by (auto simp: update_block_def constrained_Inr)
  have refs: "block_refs tb3 h = block_refs tb h + (if cr_hash c = h then 1 else 0)" for h
    using block_refs_inc [OF u3, of h] block_refs_upsert [OF u1, of h] tb1(5) by (simp add: tb2)
  have r: "?r # chunk_rows objectID (i + 1) cs = chunk_rows objectID i (c # cs)" by (simp add: chunk_key_def)
  from "2.IH" [OF g refl s1 s2 s3 rest tb3(5)]
  have ih: "schema_ok tb' \<and> tb_objects tb' = tb_objects tb3 \<and> tb_sessions tb' = tb_sessions tb3 \<and> tb_parts tb' = tb_parts tb3
     \<and> tb_chunks tb' = tb_chunks tb3 @ chunk_rows objectID (i + 1) cs
     \<and> (\<forall>h. block_refs tb' h = block_refs tb3 h + row_count (chunk_rows objectID (i + 1) cs) h)" .
  then have "tb_chunks tb' = tb_chunks tb @ (?r # chunk_rows objectID (i + 1) cs)" by (simp add: tb3 tb2 tb1)
  moreover have "block_refs tb' h = block_refs tb h + row_count (?r # chunk_rows objectID (i + 1) cs) h" for h
    using ih refs [of h] by simp
  ultimately show ?case using ih unfolding r by (simp add: tb3 tb2 tb1)
qed simp

lemma detachLoop_spec:
  "detachLoop e t i cs tb = Inr tb' \<Longrightarrow> schema_ok tb \<Longrightarrow> (\<And>h. chunk_count cs h \<le> block_refs tb h) \<Longrightarrow>
     schema_ok tb' \<and> tb_objects tb' = tb_objects tb \<and> tb_sessions tb' = tb_sessions tb \<and> tb_parts tb' = tb_parts tb
     \<and> tb_chunks tb' = tb_chunks tb \<and> (\<forall>h. block_refs tb' h = block_refs tb h - chunk_count cs h)"
proof (induction e t i cs tb rule: detachLoop.induct)
  case (2 e t i c cs tb)
  let ?f = "\<lambda>r. r\<lparr>rb_refs := (if 0 < rb_refs r then rb_refs r - 1 else 0), rb_updated := t\<rparr>"
  from "2.prems"(1) obtain tb1 where s1: "exec_stmt e i (''decrement block ref '' @ cr_hash c) (update_block (cr_hash c) ?f) tb = Inr tb1"
    and rest: "detachLoop e t (i + 1) cs tb1 = Inr tb'"
    by (simp split: sum.splits)
  note u1 = exec_stmt_Inr [OF s1]
  have tb1: "tb_objects tb1 = tb_objects tb" "tb_sessions tb1 = tb_sessions tb" "tb_parts tb1 = tb_parts tb"
    "tb_chunks tb1 = tb_chunks tb" "schema_ok tb1"
    using u1 by (auto simp: update_block_def constrained_Inr)
  have "1 + chunk_count cs (cr_hash c) \<le> block_refs tb (cr_hash c)" using "2.prems"(3) [of "cr_hash c"] by simp
  with chunk_count_nonneg [of cs "cr_hash c"] have pos: "0 < block_refs tb (cr_hash c)" by linarith
  have refs: "block_refs tb1 h = block_refs tb h - (if cr_hash c = h then 1 else 0)" for h
    by (rule block_refs_dec [OF u1 pos])
  have "chunk_count cs h \<le> block_refs tb1 h" for h using "2.prems"(3) [of h] refs [of h] by simp
  from "2.IH" [OF s1 rest tb1(5) this] show ?case using refs by (simp add: tb1)
qed simp

section \<open>Retiring and committing\<close>

lemma update_object_Inr:
  assumes "update_object i g tb = Inr tb'"
  shows "tb' = tb\<lparr>tb_objects := map (\<lambda>r. if ro_id r = i then g r else r) (tb_objects tb)\<rparr>" "schema_ok tb'"
  using assms by (auto simp: update_object_def constrained_Inr)

lemma delete_chunks_Inr:
  assumes "delete_chunks i tb = Inr tb'"
  shows "tb' = tb\<lparr>tb_chunks := filter (\<lambda>r. rc_object r \<noteq> i) (tb_chunks tb)\<rparr>" "schema_ok tb'"
  using assms by (auto simp: delete_chunks_def constrained_Inr)

text \<open>Two tables serve the same object for a key when the same committed row has the same chunks.\<close>

lemma object_view_same:
  assumes "schema_ok tb" "schema_ok tb'"
    and "\<And>r. r \<in> set (tb_objects tb) \<and> ro_bucket r = b \<and> ro_key r = k \<and> ro_state r = StateCommitted \<longleftrightarrow>
      r \<in> set (tb_objects tb') \<and> ro_bucket r = b \<and> ro_key r = k \<and> ro_state r = StateCommitted"
    and "\<And>r. r \<in> set (tb_objects tb) \<Longrightarrow> ro_bucket r = b \<Longrightarrow> ro_key r = k \<Longrightarrow> ro_state r = StateCommitted \<Longrightarrow>
      object_rows tb' (ro_id r) = object_rows tb (ro_id r)"
  shows "object_view tb' (b, k) = object_view tb (b, k)"
proof -
  have eq: "committed_row b k tb' = committed_row b k tb"
  proof (cases "committed_row b k tb")
    case (Some r)
    then have "committed_row b k tb' = Some r"
      using committed_row_iff [OF assms(1), of b k r] committed_row_iff [OF assms(2), of b k r] assms(3) [of r] by blast
    with Some show ?thesis by simp
  next
    case None
    then have "committed_row b k tb' \<noteq> Some r" for r
      using committed_row_iff [OF assms(1), of b k r] committed_row_iff [OF assms(2), of b k r] assms(3) [of r] by simp
    with None show ?thesis by (cases "committed_row b k tb'") auto
  qed
  show ?thesis
  proof (cases "committed_row b k tb")
    case (Some r)
    with committed_row_iff [OF assms(1)] have "object_rows tb' (ro_id r) = object_rows tb (ro_id r)"
      by (intro assms(4)) auto
    with Some eq show ?thesis by (simp add: object_view_def row_view_def chunks_of_def)
  qed (simp add: object_view_def eq)
qed

lemma object_view_None: "object_view tb (b, k) = None \<longleftrightarrow> committed_row b k tb = None"
  by (simp add: object_view_def)

lemma retire_spec:
  assumes ok: "shard_ok tb" and row: "committed_row b k tb = Some r"
    and d: "detachLoop e t n (map chunk_of_row rows) tb = Inr tb1" and rows: "mset rows = mset (object_rows tb (ro_id r))"
    and del: "delete_chunks (ro_id r) tb1 = Inr tb2" and u: "update_object (ro_id r) g tb2 = Inr tb3"
    and g: "\<And>x. ro_id (g x) = ro_id x" "\<And>x. ro_state (g x) = StateDeleted" "\<And>x. ro_headers (g x) = ro_headers x"
  shows "shard_ok tb3" "object_view tb3 = (object_view tb)((b, k) := None)"
    "tb_objects tb3 = map (\<lambda>x. if ro_id x = ro_id r then g x else x) (tb_objects tb)"
    "tb_sessions tb3 = tb_sessions tb" "tb_parts tb3 = tb_parts tb"
proof -
  from ok have sk: "schema_ok tb" and ex: "refs_exact tb" and ow: "chunks_owned tb {}" and hd: "headers_ok tb"
    by (simp_all add: shard_ok_def)
  have split: "row_count (tb_chunks tb) h = row_count rows h + row_count (filter (\<lambda>x. rc_object x \<noteq> ro_id r) (tb_chunks tb)) h" for h
    using row_count_split [of "tb_chunks tb" h "\<lambda>x. rc_object x = ro_id r"] row_count_mset [OF rows]
    by (simp add: object_rows_def)
  have "chunk_count (map chunk_of_row rows) h \<le> block_refs tb h" for h
    using ex split [of h] by (simp add: refs_exact_def chunk_count_rows)
  from detachLoop_spec [OF d sk this]
  have tb1: "tb_objects tb1 = tb_objects tb" "tb_sessions tb1 = tb_sessions tb" "tb_parts tb1 = tb_parts tb"
    "tb_chunks tb1 = tb_chunks tb" "\<And>h. block_refs tb1 h = block_refs tb h - row_count rows h"
    by (simp_all add: chunk_count_rows)
  note tb3 = update_object_Inr [OF u] and tb2 = delete_chunks_Inr [OF del]
  show objs: "tb_objects tb3 = map (\<lambda>x. if ro_id x = ro_id r then g x else x) (tb_objects tb)"
    "tb_sessions tb3 = tb_sessions tb" "tb_parts tb3 = tb_parts tb" by (simp_all add: tb3(1) tb2(1) tb1)
  have chunks: "tb_chunks tb3 = filter (\<lambda>x. rc_object x \<noteq> ro_id r) (tb_chunks tb)" by (simp add: tb3(1) tb2(1) tb1)
  have refs: "block_refs tb3 h = block_refs tb h - row_count rows h" for h by (simp add: tb3(1) tb2(1) tb1(5))
  have "refs_exact tb3" using ex split by (simp add: refs_exact_def refs chunks)
  moreover have "chunks_owned tb3 {}" using ow by (fastforce simp: chunks_owned_def chunks objs(1))
  moreover have "headers_ok tb3" using hd g(3) by (auto simp: headers_ok_def objs(1))
  ultimately show "shard_ok tb3" using tb3(2) by (simp add: shard_ok_def)
  have kept: "x \<in> set (tb_objects tb3) \<and> ro_state x = StateCommitted \<longleftrightarrow>
      x \<in> set (tb_objects tb) \<and> ro_state x = StateCommitted \<and> ro_id x \<noteq> ro_id r" for x
    unfolding objs(1) using g by auto
  from row committed_row_iff [OF sk] have r: "r \<in> set (tb_objects tb)" "ro_bucket r = b" "ro_key r = k" "ro_state r = StateCommitted"
    by auto
  show "object_view tb3 = (object_view tb)((b, k) := None)"
  proof
    fix bk :: "string \<times> string"
    obtain b' k' where bk: "bk = (b', k')" by (cases bk)
    show "object_view tb3 bk = ((object_view tb)((b, k) := None)) bk"
    proof (cases "bk = (b, k)")
      case True
      have "committed_row b k tb3 \<noteq> Some x" for x
        using committed_row_iff [OF tb3(2), of b k x] committed_row_iff [OF sk, of b k x] kept [of x] row by auto
      then have "committed_row b k tb3 = None" by (cases "committed_row b k tb3") auto
      with True show ?thesis by (simp add: object_view_def)
    next
      case False
      have "object_view tb3 (b', k') = object_view tb (b', k')"
      proof (rule object_view_same [OF sk tb3(2)])
        fix x
        show "x \<in> set (tb_objects tb) \<and> ro_bucket x = b' \<and> ro_key x = k' \<and> ro_state x = StateCommitted \<longleftrightarrow>
          x \<in> set (tb_objects tb3) \<and> ro_bucket x = b' \<and> ro_key x = k' \<and> ro_state x = StateCommitted"
          using kept [of x] object_ids [OF sk, of x r] r False bk by auto
        assume x: "x \<in> set (tb_objects tb)" "ro_bucket x = b'" "ro_key x = k'"
        then have "ro_id x \<noteq> ro_id r" using object_ids [OF sk, of x r] r False bk by auto
        then show "object_rows tb3 (ro_id x) = object_rows tb (ro_id x)"
          unfolding object_rows_def chunks by (auto intro: filter_cong)
      qed
      with False bk show ?thesis by auto
    qed
  qed
qed

lemma chunk_rows_seq: "map rc_seq (chunk_rows i n cs) = [n..<n + length cs]"
  by (induction cs arbitrary: n) (simp_all add: upt_conv_Cons del: upt_Suc)

lemma chunk_rows_object: "x \<in> set (chunk_rows i n cs) \<Longrightarrow> rc_object x = i"
  by (induction cs arbitrary: n) auto

lemma chunk_rows_chunks: "map chunk_of_row (chunk_rows i n cs) = map stored_chunk cs"
  by (induction cs arbitrary: n) (simp_all add: chunk_of_row_def stored_chunk_def)

lemma attach_commit_spec:
  assumes ok: "shard_ok tb" and pend: "pend \<in> set (tb_objects tb)" "ro_id pend = i" "ro_state pend = StatePending"
    and a: "attachLoop e t i 0 cs tb = Inr tb2" and u: "update_object i g tb2 = Inr tb3"
    and g: "\<And>x. ro_id (g x) = ro_id x" "ro_state (g pend) = StateCommitted" "ro_bucket (g pend) = b" "ro_key (g pend) = k"
      "\<And>x. \<exists>hs. ro_headers (g x) = json_map hs"
  shows "shard_ok tb3"
    "object_view tb3 = (object_view tb)((b, k) \<mapsto> (ro_size (g pend), ro_etag (g pend), ro_headers (g pend), map stored_chunk cs))"
    "tb_sessions tb3 = tb_sessions tb" "tb_parts tb3 = tb_parts tb"
proof -
  from ok have sk: "schema_ok tb" and ex: "refs_exact tb" and ow: "chunks_owned tb {}" and hd: "headers_ok tb"
    by (simp_all add: shard_ok_def)
  from attachLoop_spec [OF a sk]
  have tb2: "tb_objects tb2 = tb_objects tb" "tb_sessions tb2 = tb_sessions tb" "tb_parts tb2 = tb_parts tb"
    "tb_chunks tb2 = tb_chunks tb @ chunk_rows i 0 cs"
    "\<And>h. block_refs tb2 h = block_refs tb h + row_count (chunk_rows i 0 cs) h" by simp_all
  note tb3 = update_object_Inr [OF u]
  show "tb_sessions tb3 = tb_sessions tb" "tb_parts tb3 = tb_parts tb" by (simp_all add: tb3(1) tb2)
  have objs: "tb_objects tb3 = map (\<lambda>x. if ro_id x = i then g x else x) (tb_objects tb)"
    and chunks: "tb_chunks tb3 = tb_chunks tb @ chunk_rows i 0 cs" by (simp_all add: tb3(1) tb2)
  have only: "x = pend" if "x \<in> set (tb_objects tb)" "ro_id x = i" for x using object_ids [OF sk] that pend by blast
  have kept: "x \<in> set (tb_objects tb3) \<longleftrightarrow> x = g pend \<or> (x \<in> set (tb_objects tb) \<and> ro_id x \<noteq> i)" for x
  proof
    assume "x \<in> set (tb_objects tb3)"
    then obtain y where y: "y \<in> set (tb_objects tb)" "x = (if ro_id y = i then g y else y)" unfolding objs by auto
    with only [of y] show "x = g pend \<or> (x \<in> set (tb_objects tb) \<and> ro_id x \<noteq> i)" by (cases "ro_id y = i") simp_all
  next
    assume "x = g pend \<or> (x \<in> set (tb_objects tb) \<and> ro_id x \<noteq> i)"
    then show "x \<in> set (tb_objects tb3)"
    proof
      assume "x = g pend"
      with pend(2) have "x = (if ro_id pend = i then g pend else pend)" by simp
      with pend(1) show ?thesis unfolding objs by simp
    next
      assume "x \<in> set (tb_objects tb) \<and> ro_id x \<noteq> i"
      then show ?thesis unfolding objs set_map by (intro image_eqI [of _ _ x]) simp_all
    qed
  qed
  have "refs_exact tb3" using ex by (simp add: refs_exact_def tb3(1) tb2)
  moreover have "chunks_owned tb3 {}"
  proof -
    have "\<exists>x \<in> set (tb_objects tb3). ro_id x = rc_object c \<and> ro_state x = StateCommitted" if "c \<in> set (tb_chunks tb3)" for c
    proof (cases "c \<in> set (tb_chunks tb)")
      case True
      with ow obtain x where "x \<in> set (tb_objects tb)" "ro_id x = rc_object c" "ro_state x = StateCommitted"
        by (auto simp: chunks_owned_def)
      moreover from this only [of x] pend(3) have "ro_id x \<noteq> i" by auto
      ultimately show ?thesis using kept by blast
    next
      case False
      with that have "rc_object c = i" using chunk_rows_object by (auto simp: chunks)
      with kept g pend(2) show ?thesis by auto
    qed
    then show ?thesis by (simp add: chunks_owned_def)
  qed
  moreover have "headers_ok tb3" using hd g(5) kept by (auto simp: headers_ok_def)
  ultimately show "shard_ok tb3" using tb3(2) by (simp add: shard_ok_def)
  have "object_rows tb i = []"
    using ow only pend(3) by (fastforce simp: object_rows_def chunks_owned_def filter_empty_conv)
  then have rows: "object_rows tb3 i = chunk_rows i 0 cs"
    using chunk_rows_object by (auto simp: object_rows_def chunks filter_id_conv)
  have new: "chunks_of tb3 i = map stored_chunk cs"
    using sorted_sort_id [of "map rc_seq (chunk_rows i 0 cs)"]
    by (simp add: chunks_of_def rows chunk_rows_chunks chunk_rows_seq sort_key_id_if_sorted)
  show "object_view tb3 = (object_view tb)((b, k) \<mapsto> (ro_size (g pend), ro_etag (g pend), ro_headers (g pend), map stored_chunk cs))"
  proof
    fix bk :: "string \<times> string"
    obtain b' k' where bk: "bk = (b', k')" by (cases bk)
    show "object_view tb3 bk = ((object_view tb)((b, k) \<mapsto> (ro_size (g pend), ro_etag (g pend), ro_headers (g pend), map stored_chunk cs))) bk"
    proof (cases "bk = (b, k)")
      case True
      have "committed_row b k tb3 = Some (g pend)" using committed_row_iff [OF tb3(2)] kept g by simp
      with True new g(1) pend(2) show ?thesis by (simp add: object_view_def row_view_def)
    next
      case False
      have "object_view tb3 (b', k') = object_view tb (b', k')"
      proof (rule object_view_same [OF sk tb3(2)])
        fix x
        show "x \<in> set (tb_objects tb) \<and> ro_bucket x = b' \<and> ro_key x = k' \<and> ro_state x = StateCommitted \<longleftrightarrow>
          x \<in> set (tb_objects tb3) \<and> ro_bucket x = b' \<and> ro_key x = k' \<and> ro_state x = StateCommitted"
          using kept [of x] only [of x] g pend(3) False bk by auto
        assume x: "x \<in> set (tb_objects tb)" "ro_state x = StateCommitted"
        then have "ro_id x \<noteq> i" using only pend(3) by auto
        then show "object_rows tb3 (ro_id x) = object_rows tb (ro_id x)"
          using chunk_rows_object by (fastforce simp: object_rows_def chunks filter_empty_conv)
      qed
      with False bk show ?thesis by auto
    qed
  qed
qed

section \<open>Statements that cannot fail\<close>

text \<open>A statement whose effect keeps the constraints succeeds when nothing outside fails.\<close>

lemma objects_valid_iff:
  "objects_valid rows \<longleftrightarrow> distinct (map ro_id rows) \<and> (\<forall>r \<in> set rows. 0 \<le> ro_size r)
     \<and> (\<forall>x \<in> set rows. \<forall>y \<in> set rows. ro_state x = StateCommitted \<longrightarrow> ro_state y = StateCommitted \<longrightarrow>
          ro_bucket x = ro_bucket y \<longrightarrow> ro_key x = ro_key y \<longrightarrow> x = y)"
  unfolding objects_valid_def distinct_map inj_on_def by auto

lemma constrained_blocks:
  assumes "schema_ok tb" "blocks_valid rows" "rb_hash ` set (tb_blocks tb) \<subseteq> rb_hash ` set rows"
  shows "constrained (tb\<lparr>tb_blocks := rows\<rparr>) = Inr (tb\<lparr>tb_blocks := rows\<rparr>)"
  using assms by (auto simp: constrained_def schema_ok_def chunks_valid_def parts_valid_def)

lemma upsert_block_ok:
  assumes "schema_ok tb" "0 \<le> rb_size b" "0 \<le> rb_refs b"
  shows "\<exists>tb'. upsert_block b tb = Inr tb'"
proof (cases "rb_hash b \<in> rb_hash ` set (tb_blocks tb)")
  case True
  let ?f = "\<lambda>r. if rb_hash r = rb_hash b then r\<lparr>rb_backend_key := rb_backend_key b, rb_size := rb_size b, rb_updated := rb_updated b\<rparr> else r"
  have h: "map rb_hash (map ?f rows) = map rb_hash rows" for rows by simp
  have "blocks_valid (map ?f (tb_blocks tb))"
    using assms unfolding blocks_valid_def h by (auto simp: schema_ok_def blocks_valid_def)
  moreover have "rb_hash ` set (map ?f (tb_blocks tb)) = rb_hash ` set (tb_blocks tb)" by (metis h set_map)
  ultimately show ?thesis using True constrained_blocks [OF assms(1)] by (simp add: upsert_block_def)
next
  case False
  have "blocks_valid (tb_blocks tb @ [b])" using assms False by (auto simp: schema_ok_def blocks_valid_def)
  with False constrained_blocks [OF assms(1), of "tb_blocks tb @ [b]"] show ?thesis by (auto simp: upsert_block_def)
qed

lemma update_block_ok:
  assumes "schema_ok tb" "\<And>r. rb_hash (f r) = rb_hash r" "\<And>r. rb_size (f r) = rb_size r" "\<And>r. 0 \<le> rb_refs r \<Longrightarrow> 0 \<le> rb_refs (f r)"
  shows "\<exists>tb'. update_block h f tb = Inr tb'"
proof -
  let ?g = "\<lambda>r. if rb_hash r = h then f r else r"
  have h: "map rb_hash (map ?g rows) = map rb_hash rows" for rows using assms(2) by simp
  have "blocks_valid (map ?g (tb_blocks tb))"
    using assms unfolding blocks_valid_def h by (auto simp: schema_ok_def blocks_valid_def)
  moreover have "rb_hash ` set (map ?g (tb_blocks tb)) = rb_hash ` set (tb_blocks tb)" by (metis h set_map)
  ultimately show ?thesis using constrained_blocks [OF assms(1)] by (simp add: update_block_def)
qed

lemma insert_chunk_ok:
  assumes "schema_ok tb" "0 \<le> rc_offset r" "0 \<le> rc_size r" "rc_object r \<in> ro_id ` set (tb_objects tb)"
    "rc_hash r \<in> rb_hash ` set (tb_blocks tb)" "\<forall>c \<in> set (tb_chunks tb). rc_object c = rc_object r \<longrightarrow> rc_seq c \<noteq> rc_seq r"
  shows "\<exists>tb'. insert_chunk r tb = Inr tb'"
  using assms by (auto simp: insert_chunk_def constrained_def schema_ok_def chunks_valid_def parts_valid_def)

lemma update_object_ok:
  assumes "schema_ok tb" "\<And>r. ro_id (g r) = ro_id r" "\<And>r. r \<in> set (tb_objects tb) \<Longrightarrow> ro_id r = i \<Longrightarrow> 0 \<le> ro_size (g r)"
    and "\<And>r x. r \<in> set (tb_objects tb) \<Longrightarrow> ro_id r = i \<Longrightarrow> ro_state (g r) = StateCommitted \<Longrightarrow>
      committed_row (ro_bucket (g r)) (ro_key (g r)) tb = Some x \<Longrightarrow> ro_id x = i"
  shows "\<exists>tb'. update_object i g tb = Inr tb'"
proof -
  let ?f = "\<lambda>r. if ro_id r = i then g r else r"
  have h: "map ro_id (map ?f rows) = map ro_id rows" for rows using assms(2) by simp
  have one: "x = y" if "x \<in> set (tb_objects tb)" "y \<in> set (tb_objects tb)" "ro_state (?f x) = StateCommitted"
    "ro_state (?f y) = StateCommitted" "ro_bucket (?f x) = ro_bucket (?f y)" "ro_key (?f x) = ro_key (?f y)" for x y
  proof -
    note row = committed_row_iff [OF assms(1), THEN iffD2]
    consider "ro_id x = i" "ro_id y = i" | "ro_id x = i" "ro_id y \<noteq> i" | "ro_id x \<noteq> i" "ro_id y = i" | "ro_id x \<noteq> i" "ro_id y \<noteq> i"
      by blast
    then show ?thesis
    proof cases
      case 1
      with that object_ids [OF assms(1), of x y] show ?thesis by simp
    next
      case 2
      with that row [of y] assms(4) [of x y] show ?thesis by simp
    next
      case 3
      with that row [of x] assms(4) [of y x] show ?thesis by simp
    next
      case 4
      with that row [of x "ro_bucket x" "ro_key x"] row [of y "ro_bucket x" "ro_key x"] show ?thesis by simp
    qed
  qed
  have "objects_valid (map ?f (tb_objects tb))"
    unfolding objects_valid_iff h
  proof (intro conjI ballI impI)
    show "distinct (map ro_id (tb_objects tb))" using assms(1) by (simp add: schema_ok_def objects_valid_def)
    fix r assume "r \<in> set (map ?f (tb_objects tb))"
    then show "0 \<le> ro_size r" using assms(1,3) by (auto simp: schema_ok_def objects_valid_def)
  next
    fix x y assume "x \<in> set (map ?f (tb_objects tb))" "y \<in> set (map ?f (tb_objects tb))"
    then obtain x0 y0 where "x0 \<in> set (tb_objects tb)" "x = ?f x0" "y0 \<in> set (tb_objects tb)" "y = ?f y0" by auto
    moreover assume "ro_state x = StateCommitted" "ro_state y = StateCommitted" "ro_bucket x = ro_bucket y" "ro_key x = ro_key y"
    ultimately show "x = y" using one [of x0 y0] by simp
  qed
  moreover have "ro_id ` set (map ?f (tb_objects tb)) = ro_id ` set (tb_objects tb)" by (metis h set_map)
  ultimately show ?thesis using assms(1)
    by (auto simp: update_object_def constrained_def schema_ok_def chunks_valid_def parts_valid_def)
qed

lemma delete_chunks_ok: "schema_ok tb \<Longrightarrow> \<exists>tb'. delete_chunks i tb = Inr tb'"
  by (auto simp: delete_chunks_def constrained_def schema_ok_def chunks_valid_def parts_valid_def distinct_map
    intro: inj_on_subset)

lemma detachLoop_ok:
  "quiet e \<Longrightarrow> schema_ok tb \<Longrightarrow> \<exists>tb'. detachLoop e t i cs tb = Inr tb' \<and> schema_ok tb'"
proof (induction e t i cs tb rule: detachLoop.induct)
  case (2 e t i c cs tb)
  let ?f = "\<lambda>r. r\<lparr>rb_refs := (if 0 < rb_refs r then rb_refs r - 1 else 0), rb_updated := t\<rparr>"
  have "\<exists>tb1. update_block (cr_hash c) ?f tb = Inr tb1" by (rule update_block_ok [OF 2(3)]) simp_all
  then obtain tb1 where u: "update_block (cr_hash c) ?f tb = Inr tb1" by blast
  then have s: "exec_stmt e i (''decrement block ref '' @ cr_hash c) (update_block (cr_hash c) ?f) tb = Inr tb1"
    using 2(2) by (simp add: exec_stmt_quiet)
  have "schema_ok tb1" using u by (auto simp: update_block_def constrained_Inr)
  from 2(1) [OF s 2(2) this] s show ?case by simp
qed simp

definition chunk_valid :: "chunk_ref \<Rightarrow> bool" where
  "chunk_valid c \<longleftrightarrow> cr_hash c \<noteq> [] \<and> 0 \<le> cr_size c \<and> 0 \<le> cr_offset c"

lemma attachLoop_ok:
  "quiet e \<Longrightarrow> schema_ok tb \<Longrightarrow> list_all chunk_valid cs \<Longrightarrow> objectID \<in> ro_id ` set (tb_objects tb) \<Longrightarrow>
   \<forall>c \<in> set (tb_chunks tb). rc_object c = objectID \<longrightarrow> rc_seq c < i \<Longrightarrow> \<exists>tb'. attachLoop e t objectID i cs tb = Inr tb'"
proof (induction e t objectID i cs tb rule: attachLoop.induct)
  case (2 e t objectID i c cs tb)
  let ?key = "if cr_backend_key c = [] then defaultBackendKey (cr_hash c) else cr_backend_key c"
  let ?b = "\<lparr>rb_hash = cr_hash c, rb_backend_key = ?key, rb_size = cr_size c, rb_refs = 0, rb_created = t, rb_updated = t\<rparr>"
  let ?r = "\<lparr>rc_object = objectID, rc_seq = i, rc_hash = cr_hash c, rc_offset = cr_offset c, rc_size = cr_size c, rc_backend_key = ?key\<rparr>"
  let ?f = "\<lambda>r. r\<lparr>rb_refs := rb_refs r + 1, rb_updated := t\<rparr>"
  from "2.prems"(3) have c: "cr_hash c \<noteq> []" "0 \<le> cr_size c" "0 \<le> cr_offset c" "list_all chunk_valid cs"
    by (auto simp: chunk_valid_def list_all_iff)
  have q: "syscall (call e i) n = None" for n using "2.prems"(1) by simp
  from upsert_block_ok [OF "2.prems"(2), of ?b] c obtain tb1 where u1: "upsert_block ?b tb = Inr tb1" by auto
  have s1: "exec_stmt (call e i) 0 (''upsert block '' @ cr_hash c) (upsert_block ?b) tb = Inr tb1" by (rule exec_stmt_quiet [OF q]) (rule u1)
  have tb1: "schema_ok tb1" "tb_chunks tb1 = tb_chunks tb" "tb_objects tb1 = tb_objects tb" "cr_hash c \<in> rb_hash ` set (tb_blocks tb1)"
    using u1 upsert_block_Inr [OF u1] by (auto simp: upsert_block_def constrained_Inr)
  have "\<exists>tb2. insert_chunk ?r tb1 = Inr tb2"
    using c tb1 "2.prems"(4,5) by (intro insert_chunk_ok) auto
  then obtain tb2 where u2: "insert_chunk ?r tb1 = Inr tb2" by blast
  have s2: "exec_stmt (call e i) 1 ''insert object chunk'' (insert_chunk ?r) tb1 = Inr tb2" by (rule exec_stmt_quiet [OF q]) (rule u2)
  have tb2: "tb2 = tb1\<lparr>tb_chunks := tb_chunks tb1 @ [?r]\<rparr>" "schema_ok tb2" using u2 by (auto simp: insert_chunk_def constrained_Inr)
  have "\<exists>tb3. update_block (cr_hash c) ?f tb2 = Inr tb3" by (rule update_block_ok [OF tb2(2)]) simp_all
  then obtain tb3 where u3: "update_block (cr_hash c) ?f tb2 = Inr tb3" by blast
  have s3: "exec_stmt (call e i) 2 (''increment block ref '' @ cr_hash c) (update_block (cr_hash c) ?f) tb2 = Inr tb3"
    by (rule exec_stmt_quiet [OF q]) (rule u3)
  have tb3: "schema_ok tb3" "tb_objects tb3 = tb_objects tb" "tb_chunks tb3 = tb_chunks tb @ [?r]"
    using u3 tb2 tb1 by (auto simp: update_block_def constrained_Inr)
  have "\<exists>tb'. attachLoop e t objectID (i + 1) cs tb3 = Inr tb'"
    using c "2.prems" tb3 by (intro "2.IH" [OF _ _ refl s1 s2 s3]) (auto simp: less_Suc_eq)
  with c s1 s2 s3 show ?case by (simp add: Let_def)
qed simp

end
