(* ===== verification/SqliteProps.thy ===== *)
theory SqliteProps
  imports SqlProps
begin

text \<open>
  What the SQLite store guarantees: in every state that its operations reach, whatever fails,
  reference counts are exact and only committed objects have chunks; a committed object is read
  back with its headers through the JSON column; what the collector is offered is garbage that
  was last touched no later than the second of the cutoff; interrupted migrations are finished by
  the next run.
\<close>

section \<open>Committing and deleting\<close>

lemma loadObjectChunks_Inr:
  "loadObjectChunks e i tb = Inr cs \<Longrightarrow> cs = map chunk_of_row (ordered_rows e rc_seq (object_rows tb i))"
  by (auto simp: loadObjectChunks_def object_rows_def dest: query_rows_Inr split: sum.splits)

lemma loadCommittedForUpdate_cases:
  assumes "loadCommittedForUpdate e t b k tb = Inr prev"
  obtains "prev = None" "committed_row b k tb = None"
  | p r where "prev = Some p" "committed_row b k tb = Some r" "m_id p = ro_id r"
      "m_chunks p = map chunk_of_row (ordered_rows (call e 1) rc_seq (object_rows tb (ro_id r)))"
proof (cases "committed_row b k tb")
  case None
  with assms that(1) show thesis by (simp add: loadCommittedForUpdate_def query_row_def split: option.splits)
next
  case (Some r)
  with assms obtain man cs where "toManifest t r = Inr man" "loadObjectChunks (call e 1) (ro_id r) tb = Inr cs"
    "prev = Some (man\<lparr>m_chunks := cs\<rparr>)"
    by (auto simp: loadCommittedForUpdate_def query_row_def split: option.splits sum.splits)
  moreover from this(1) have "m_id man = ro_id r" by (auto simp: toManifest_def split: sum.splits)
  ultimately show thesis using that(2) [of "man\<lparr>m_chunks := cs\<rparr>" r] Some loadObjectChunks_Inr by auto
qed

lemma retireObject_spec:
  assumes "shard_ok tb" "committed_row b k tb = Some r" "m_id p = ro_id r"
    "m_chunks p = map chunk_of_row (ordered_rows e' rc_seq (object_rows tb (ro_id r)))"
    "retireObject e msg t p tb = Inr tb'"
  shows "shard_ok tb'" "object_view tb' = (object_view tb)((b, k) := None)" "tb_sessions tb' = tb_sessions tb"
    "tb_parts tb' = tb_parts tb"
    "tb_objects tb' = map (\<lambda>x. if ro_id x = ro_id r then x\<lparr>ro_state := StateDeleted, ro_updated := formatTime t\<rparr> else x) (tb_objects tb)"
proof -
  from assms(5) obtain tb1 tb2 where s:
    "detachLoop (call (call e 0) 1) (formatTime (now (call e 0) 0)) 0 (m_chunks p) tb = Inr tb1"
    "exec_stmt (call e 0) 2 ''delete object chunk rows'' (delete_chunks (m_id p)) tb1 = Inr tb2"
    "exec_stmt e 1 msg (update_object (m_id p) (\<lambda>r. r\<lparr>ro_state := StateDeleted, ro_updated := formatTime t\<rparr>)) tb2 = Inr tb'"
    by (auto simp: retireObject_def detachObjectChunks_def split: sum.splits)
  note spec = retire_spec [OF assms(1,2) s(1) [unfolded assms(4)] ordered_rows_mset
      exec_stmt_Inr [OF s(2), unfolded assms(3)] exec_stmt_Inr [OF s(3), unfolded assms(3)]]
  show "shard_ok tb'" "object_view tb' = (object_view tb)((b, k) := None)" "tb_sessions tb' = tb_sessions tb"
    "tb_parts tb' = tb_parts tb"
    "tb_objects tb' = map (\<lambda>x. if ro_id x = ro_id r then x\<lparr>ro_state := StateDeleted, ro_updated := formatTime t\<rparr> else x) (tb_objects tb)"
    by (rule spec; simp)+
qed

text \<open>The object a commit stores for a row that was pending.\<close>

definition stored_manifest :: "manifest \<Rightarrow> stored_object" where
  "stored_manifest man = (m_size man, m_etag man, json_map (m_headers man), map stored_chunk (m_chunks man))"

lemma encodeHeaders_eq: "encodeHeaders hs = Inr (json_map hs)"
  by (simp add: encodeHeaders_def json_map_def join_with_def)

text \<open>What a commit does first: it retires the object committed before under the key.\<close>

lemma retire_previous_spec:
  assumes ok: "shard_ok tb" and load: "loadCommittedForUpdate e0 n b k tb = Inr prev"
    and ret: "(case prev of None \<Rightarrow> Inr tb | Some p \<Rightarrow> retireObject e' msg t p tb) = Inr tb1"
    and p: "pend \<in> set (tb_objects tb)" "ro_state pend = StatePending"
  shows "shard_ok tb1 \<and> object_view tb1 = (object_view tb)((b, k) := None)
      \<and> tb_sessions tb1 = tb_sessions tb \<and> tb_parts tb1 = tb_parts tb \<and> pend \<in> set (tb_objects tb1)"
proof (rule loadCommittedForUpdate_cases [OF load])
  assume "prev = None" "committed_row b k tb = None"
  with ret ok p show ?thesis by (auto simp: object_view_def)
next
  fix q r assume q: "prev = Some q" "committed_row b k tb = Some r" "m_id q = ro_id r"
    "m_chunks q = map chunk_of_row (ordered_rows (call e0 1) rc_seq (object_rows tb (ro_id r)))"
  from ret q(1) have "retireObject e' msg t q tb = Inr tb1" by simp
  note r = retireObject_spec [OF ok q(2-4) this]
  have "ro_id pend \<noteq> ro_id r"
  proof
    assume "ro_id pend = ro_id r"
    moreover have "schema_ok tb" using ok by (simp add: shard_ok_def)
    moreover from this q(2) have "r \<in> set (tb_objects tb)" "ro_state r = StateCommitted" by (simp_all add: committed_row_iff)
    ultimately have "pend = r" using object_ids p(1) by blast
    with p(2) \<open>ro_state r = StateCommitted\<close> show False by simp
  qed
  then have "pend \<in> set (tb_objects tb1)" unfolding r(5) set_map using p(1) by (intro image_eqI [of _ _ pend]) simp_all
  with r show ?thesis by simp
qed

lemma commitBody_spec:
  assumes ok: "shard_ok tb" and c: "commitBody e i man tb = Inr (u, tb')"
  obtains pend where "pend \<in> set (tb_objects tb)" "ro_id pend = i" "ro_state pend = StatePending" "shard_ok tb'"
    "object_view tb' = (object_view tb)((m_bucket man, m_key man) := None, (ro_bucket pend, ro_key pend) \<mapsto> stored_manifest man)"
    "tb_sessions tb' = tb_sessions tb" "tb_parts tb' = tb_parts tb"
proof -
  let ?g = "\<lambda>r. r\<lparr>ro_state := StateCommitted, ro_size := m_size man, ro_etag := m_etag man, ro_headers := json_map (m_headers man),
    ro_updated := formatTime (now e 0)\<rparr>"
  from c obtain pend prev tb1 tb2 where pend: "find (\<lambda>r. ro_id r = i) (tb_objects tb) = Some pend" "ro_state pend = StatePending"
    and load: "loadCommittedForUpdate (call e 1) (m_tenant man) (m_bucket man) (m_key man) tb = Inr prev"
    and ret: "(case prev of None \<Rightarrow> Inr tb | Some p \<Rightarrow> retireObject (call e 2) ''mark previous object deleted'' (now e 0) p tb) = Inr tb1"
    and att: "attachObjectChunks (call e 3) i (m_chunks man) tb1 = Inr tb2"
    and upd: "exec_stmt e 4 ''commit object row'' (update_object i ?g) tb2 = Inr tb'"
    by (auto simp: commitBody_def Let_def encodeHeaders_eq query_row_def split: option.splits sum.splits if_splits)
  from find_SomeD [OF pend(1)] have p: "pend \<in> set (tb_objects tb)" "ro_id pend = i" by simp_all
  note tb1 = retire_previous_spec [OF ok load ret p(1) pend(2)]
  note att = att [unfolded attachObjectChunks_def] and upd = exec_stmt_Inr [OF upd]
  note spec = attach_commit_spec [OF conjunct1 [OF tb1] _ p(2) pend(2) att upd, of "ro_bucket pend" "ro_key pend"]
  have "shard_ok tb'" "object_view tb' = (object_view tb1)((ro_bucket pend, ro_key pend) \<mapsto> stored_manifest man)"
    "tb_sessions tb' = tb_sessions tb1" "tb_parts tb' = tb_parts tb1"
    using spec tb1 by (auto simp: stored_manifest_def)
  with that [OF p pend(2)] tb1 show thesis by simp
qed

lemma deleteBody_spec:
  assumes ok: "shard_ok tb" and d: "deleteBody e t b k tb = Inr (man, tb')"
  shows "shard_ok tb'" "object_view tb' = (object_view tb)((b, k) := None)" "object_view tb (b, k) \<noteq> None"
    "tb_sessions tb' = tb_sessions tb" "tb_parts tb' = tb_parts tb"
proof -
  from d obtain p where load: "loadCommittedForUpdate (call e 0) t b k tb = Inr (Some p)"
    and ret: "retireObject (call e 1) ''mark object deleted'' (now e 0) p tb = Inr tb'"
    by (auto simp: deleteBody_def Let_def split: option.splits sum.splits)
  from load obtain r where r: "committed_row b k tb = Some r" "m_id p = ro_id r"
      "m_chunks p = map chunk_of_row (ordered_rows (call (call e 0) 1) rc_seq (object_rows tb (ro_id r)))"
    by (auto elim: loadCommittedForUpdate_cases)
  from retireObject_spec [OF ok this ret] r show "shard_ok tb'" "object_view tb' = (object_view tb)((b, k) := None)"
    "object_view tb (b, k) \<noteq> None" "tb_sessions tb' = tb_sessions tb" "tb_parts tb' = tb_parts tb"
    by (simp_all add: object_view_def)
qed

section \<open>The other statements\<close>

lemma insert_pending_spec:
  assumes ok: "shard_ok tb" and i: "insert_object r tb = Inr tb'" and p: "ro_state r = StatePending"
    and h: "ro_headers r = json_map hs"
  shows "shard_ok tb'" "object_view tb' = object_view tb" "tb_sessions tb' = tb_sessions tb" "tb_parts tb' = tb_parts tb"
proof -
  have tb': "tb' = tb\<lparr>tb_objects := tb_objects tb @ [r]\<rparr>" "schema_ok tb'" using i by (auto simp: insert_object_def constrained_Inr)
  then show "tb_sessions tb' = tb_sessions tb" "tb_parts tb' = tb_parts tb" by simp_all
  have "chunks_owned tb' {}" using ok by (auto simp: shard_ok_def chunks_owned_def tb'(1))
  moreover have "refs_exact tb'" using ok by (simp add: shard_ok_def refs_exact_def tb'(1))
  moreover have "headers_ok tb'" using ok h by (auto simp: shard_ok_def headers_ok_def tb'(1))
  ultimately show "shard_ok tb'" using tb'(2) by (simp add: shard_ok_def)
  show "object_view tb' = object_view tb"
  proof
    fix bk :: "string \<times> string"
    obtain b k where bk: "bk = (b, k)" by (cases bk)
    have "schema_ok tb" using ok by (simp add: shard_ok_def)
    then have "object_view tb' (b, k) = object_view tb (b, k)"
      by (rule object_view_same [OF _ tb'(2)]) (use p in \<open>auto simp: tb'(1) object_rows_def\<close>)
    with bk show "object_view tb' bk = object_view tb bk" by simp
  qed
qed

lemma forget_one_spec:
  assumes ok: "shard_ok tb" and d: "delete_unreferenced_block h tb = Inr tb'"
  shows "shard_ok tb'" "object_view tb' = object_view tb" "tb_sessions tb' = tb_sessions tb" "tb_parts tb' = tb_parts tb"
proof -
  have tb': "tb' = tb\<lparr>tb_blocks := filter (\<lambda>r. \<not> (rb_hash r = h \<and> rb_refs r = 0)) (tb_blocks tb)\<rparr>" "schema_ok tb'"
    using d by (auto simp: delete_unreferenced_block_def constrained_Inr)
  then show "tb_sessions tb' = tb_sessions tb" "tb_parts tb' = tb_parts tb" by simp_all
  show "object_view tb' = object_view tb"
    by (rule ext) (simp add: object_view_def committed_row_def row_view_def [abs_def] chunks_of_def object_rows_def tb'(1))
  have dist: "distinct (map rb_hash (tb_blocks tb))" using ok by (simp add: shard_ok_def schema_ok_def blocks_valid_def)
  have find: "(case find (\<lambda>b. rb_hash b = j) (filter (\<lambda>r. \<not> (rb_hash r = h \<and> rb_refs r = 0)) rows) of None \<Rightarrow> 0 | Some b \<Rightarrow> rb_refs b)
      = (case find (\<lambda>b. rb_hash b = j) rows of None \<Rightarrow> 0 | Some b \<Rightarrow> rb_refs b)" if "distinct (map rb_hash rows)" for j rows
    using that by (induction rows) (auto simp: find_None_iff split: option.splits dest!: find_SomeD)
  have "block_refs tb' j = block_refs tb j" for j
    using find [OF dist, of j] by (simp add: block_refs_def tb'(1))
  then show "shard_ok tb'" using ok tb'(2) by (simp add: shard_ok_def refs_exact_def chunks_owned_def headers_ok_def tb'(1))
qed

lemma forgetBody_spec:
  "forgetBody e i hs tb = Inr (u, tb') \<Longrightarrow> shard_ok tb \<Longrightarrow>
     shard_ok tb' \<and> object_view tb' = object_view tb \<and> tb_sessions tb' = tb_sessions tb \<and> tb_parts tb' = tb_parts tb"
proof (induction e i hs tb rule: forgetBody.induct)
  case (2 e i h hs tb)
  from 2(2) obtain tb1 where s: "exec_stmt e i (''forget block '' @ h) (delete_unreferenced_block h) tb = Inr tb1"
    and rest: "forgetBody e (i + 1) hs tb1 = Inr (u, tb')" by (auto split: sum.splits)
  note f = forget_one_spec [OF 2(3) exec_stmt_Inr [OF s]]
  from 2(1) [OF s rest f(1)] f show ?case by simp
qed simp

text \<open>Statements on sessions and parts leave the objects alone.\<close>

definition objects_kept :: "'t tables \<Rightarrow> 't tables \<Rightarrow> bool" where
  "objects_kept tb tb' \<longleftrightarrow> tb_objects tb' = tb_objects tb \<and> tb_blocks tb' = tb_blocks tb \<and> tb_chunks tb' = tb_chunks tb"

lemma objects_kept_spec:
  assumes "objects_kept tb tb'" "schema_ok tb'" "shard_ok tb"
  shows "shard_ok tb'" "object_view tb' = object_view tb"
proof -
  show "shard_ok tb'"
    using assms by (simp add: shard_ok_def objects_kept_def refs_exact_def chunks_owned_def headers_ok_def block_refs_def)
  show "object_view tb' = object_view tb"
    using assms(1)
    by (intro ext) (simp add: object_view_def committed_row_def row_view_def [abs_def] chunks_of_def object_rows_def objects_kept_def)
qed

lemma session_statements:
  "insert_session r tb = Inr tb' \<Longrightarrow> objects_kept tb tb' \<and> schema_ok tb'"
  "update_session u f tb = Inr tb' \<Longrightarrow> objects_kept tb tb' \<and> schema_ok tb'"
  "delete_session u tb = Inr tb' \<Longrightarrow> objects_kept tb tb' \<and> schema_ok tb'"
  "upsert_part p tb = Inr tb' \<Longrightarrow> objects_kept tb tb' \<and> schema_ok tb'"
  by (auto simp: insert_session_def update_session_def delete_session_def upsert_part_def constrained_Inr objects_kept_def)

lemma savePartBody_kept:
  assumes "savePartBody e created t u pt n tb = Inr (x, tb')"
  shows "objects_kept tb tb' \<and> schema_ok tb'"
proof -
  from assms obtain tb1 where s:
    "exec_stmt e 0 ''update multipart session'' (update_session u (\<lambda>r. r\<lparr>rs_reserved := n, rs_updated := t\<rparr>)) tb = Inr tb1"
    "exec_stmt e 2 ''upsert multipart part'' (upsert_part \<lparr>rp_upload_id = u, rp_number = pt_number pt, rp_path = pt_path pt,
       rp_size = pt_size pt, rp_etag = pt_etag pt, rp_created = created\<rparr>) tb1 = Inr tb'"
    by (auto simp: savePartBody_def split: sum.splits if_splits)
  from session_statements(2) [OF exec_stmt_Inr [OF s(1)]] session_statements(4) [OF exec_stmt_Inr [OF s(2)]]
  show ?thesis by (simp add: objects_kept_def)
qed

section \<open>Migrations\<close>

definition needed :: "ddl set" where
  "needed = set (mg_Statements (hd sqliteMigrations))"

text \<open>A recorded migration was applied as a whole.\<close>

definition file_ok :: "'d sql_file \<Rightarrow> bool" where
  "file_ok f \<longleftrightarrow> sf_versions f \<in> {None, Some [], Some [(1, ''structured metadata schema'')]}
     \<and> (sf_versions f = Some [(1, ''structured metadata schema'')] \<longrightarrow> needed \<subseteq> set (sf_schema f))"

lemma file_ok_empty [simp]: "file_ok empty_file"
  by (simp add: file_ok_def empty_file_def)

lemma runStatements_spec:
  "runStatements e msg i ds f = Inr f' \<Longrightarrow>
     set (sf_schema f') = set (sf_schema f) \<union> set ds \<and> sf_versions f' = sf_versions f \<and> sf_tables f' = sf_tables f"
proof (induction e msg i ds f rule: runStatements.induct)
  case (2 e msg i d ds f)
  from 2(2) obtain f1 where s: "exec_stmt e i msg (run_ddl d) f = Inr f1" and r: "runStatements e msg (i + 1) ds f1 = Inr f'"
    by (auto split: sum.splits)
  from exec_stmt_Inr [OF s] have f1: "f1 = (if d \<in> set (sf_schema f) then f else f\<lparr>sf_schema := sf_schema f @ [d]\<rparr>)"
    by (simp add: run_ddl_def)
  from 2(1) [OF s r] f1 show ?case by auto
qed simp

lemma runStatements_quiet: "quiet e \<Longrightarrow> \<exists>f'. runStatements e msg i ds f = Inr f'"
  by (induction e msg i ds f rule: runStatements.induct) (auto simp: exec_stmt_def run_ddl_def)

lemma applyMigration_spec:
  assumes "applyMigration e mig f = (x, f')"
  shows "(x \<noteq> None \<and> f' = f) \<or> (x = None \<and> sf_tables f' = sf_tables f
    \<and> set (sf_schema f') = set (sf_schema f) \<union> set (mg_Statements mig)
    \<and> (\<exists>vs. sf_versions f = Some vs \<and> mg_Version mig \<notin> fst ` set vs \<and> sf_versions f' = Some (vs @ [(mg_Version mig, mg_Name mig)])))"
proof -
  from assms obtain r where t: "transaction e ''begin migration'' (ErrWrap ''commit migration'')
             (\<lambda>g. case runStatements (call e 2) (''apply migration '' @ mg_Name mig) 0 (mg_Statements mig) g of
                Inl x \<Rightarrow> Inl x
              | Inr g1 \<Rightarrow> (case exec_stmt e 3 ''record migration'' (insert_version (mg_Version mig) (mg_Name mig)) g1 of
                  Inl x \<Rightarrow> Inl x
                | Inr g2 \<Rightarrow> Inr ((), g2))) f = (r, f')" and r: "x = (case r of Inl y \<Rightarrow> Some y | Inr _ \<Rightarrow> None)"
    by (auto simp: applyMigration_def split: prod.splits sum.splits)
  from transaction_cases [OF t] show ?thesis
  proof (elim disjE exE conjE)
    fix y assume "r = Inl y" "f' = f"
    with r show ?thesis by simp
  next
    fix a assume "r = Inr a" and b: "(case runStatements (call e 2) (''apply migration '' @ mg_Name mig) 0 (mg_Statements mig) f of
                Inl x \<Rightarrow> Inl x
              | Inr g1 \<Rightarrow> (case exec_stmt e 3 ''record migration'' (insert_version (mg_Version mig) (mg_Name mig)) g1 of
                  Inl x \<Rightarrow> Inl x
                | Inr g2 \<Rightarrow> Inr ((), g2))) = Inr (a, f')"
    from b obtain g1 where s: "runStatements (call e 2) (''apply migration '' @ mg_Name mig) 0 (mg_Statements mig) f = Inr g1"
      "exec_stmt e 3 ''record migration'' (insert_version (mg_Version mig) (mg_Name mig)) g1 = Inr f'"
      by (auto split: sum.splits)
    from exec_stmt_Inr [OF s(2)] obtain vs where "sf_versions g1 = Some vs" "mg_Version mig \<notin> fst ` set vs"
      "f' = g1\<lparr>sf_versions := Some (vs @ [(mg_Version mig, mg_Name mig)])\<rparr>"
      by (auto simp: insert_version_def split: option.splits if_splits)
    with runStatements_spec [OF s(1)] r \<open>r = Inr a\<close> show ?thesis by simp
  qed
qed

lemma runMigrations_spec:
  assumes "file_ok f" "runMigrations e f = (x, f')"
  shows "file_ok f' \<and> sf_tables f' = sf_tables f \<and> set (sf_schema f) \<subseteq> set (sf_schema f')
    \<and> (x = None \<longrightarrow> sf_versions f' = Some [(1, ''structured metadata schema'')])"
proof -
  define f1 where "f1 = (if sf_versions f = None then f\<lparr>sf_versions := Some []\<rparr> else f)"
  have f1: "file_ok f1" "sf_tables f1 = sf_tables f" "sf_schema f1 = sf_schema f" "sf_versions f1 \<noteq> None"
    using assms(1) by (auto simp: f1_def file_ok_def)
  have c: "g = f1" if "exec_stmt e i m create_versions f = Inr g" for i m g
    using exec_stmt_Inr [OF that] by (simp add: create_versions_def f1_def)
  from assms(2) consider (early) "x \<noteq> None" "f' = f" | (mid) "x \<noteq> None" "f' = f1"
    | (run) "applyPending (call e 3) 0 (map fst (the (sf_versions f1))) sqliteMigrations f1 = (x, f')"
    using f1(4) by (auto simp: runMigrations_def appliedMigrations_def dest!: c query_rows_Inr split: option.splits sum.splits)
  then show ?thesis
  proof cases
    case early
    with assms(1) show ?thesis by auto
  next
    case mid
    with f1 show ?thesis by auto
  next
    case run
    show ?thesis
    proof (cases "sf_versions f1 = Some [(1, ''structured metadata schema'')]")
      case True
      with run f1 show ?thesis by (simp add: sqliteMigrations_def)
    next
      case False
      with f1(1,4) have v: "sf_versions f1 = Some []" by (auto simp: file_ok_def)
      with run obtain y where a: "applyMigration (call (call e 3) 0) (hd sqliteMigrations) f1 = (y, f')" "x = y"
        by (auto simp: sqliteMigrations_def split: prod.splits option.splits)
      from applyMigration_spec [OF a(1)] consider "x \<noteq> None" "f' = f1"
        | "x = None" "sf_tables f' = sf_tables f1" "set (sf_schema f') = set (sf_schema f1) \<union> needed"
            "sf_versions f' = Some [(1, ''structured metadata schema'')]"
        unfolding a(2) using v by (fastforce simp: needed_def sqliteMigrations_def)
      then show ?thesis
      proof cases
        case 1
        with f1 show ?thesis by auto
      next
        case 2
        with f1 show ?thesis by (simp add: file_ok_def)
      qed
    qed
  qed
qed

lemma runMigrations_quiet:
  assumes "quiet e" "file_ok f"
  shows "fst (runMigrations e f) = None"
proof -
  define f1 where "f1 = (if sf_versions f = None then f\<lparr>sf_versions := Some []\<rparr> else f)"
  obtain vs where vs: "sf_versions f1 = Some vs" "vs = [] \<or> vs = [(1, ''structured metadata schema'')]"
    using assms(2) by (auto simp: f1_def file_ok_def)
  have e: "exec_stmt e 1 m create_versions f = Inr f1" for m
    using assms(1) by (simp add: exec_stmt_def create_versions_def f1_def)
  have a: "appliedMigrations (call e 2) f1 = Inr (map fst vs)"
    using assms(1) by (simp add: appliedMigrations_def vs(1) query_rows_def)
  have "fst (applyMigration (call (call e 3) 0) mig f1) = None" if "vs = []" for mig
  proof -
    obtain g where "runStatements (call (call (call e 3) 0) 2) (''apply migration '' @ mg_Name mig) 0 (mg_Statements mig) f1 = Inr g"
      using runStatements_quiet assms(1) by (metis quiet_call)
    moreover from runStatements_spec [OF this] vs that have "sf_versions g = Some []" by simp
    ultimately show ?thesis using assms(1)
      by (simp add: applyMigration_def transaction_def exec_stmt_def insert_version_def)
  qed
  from this [of "hd sqliteMigrations"] vs(2) show ?thesis
    using assms(1) by (auto simp: runMigrations_def e [unfolded One_nat_def] a sqliteMigrations_def split: prod.splits)
qed

section \<open>Shards of the store\<close>

definition file_tables :: "sqlite_store \<Rightarrow> string \<Rightarrow> shard" where
  "file_tables s name = sf_tables (lookup_or empty_file (sq_files s) name)"

definition tenant_shard :: "(bytes \<Rightarrow> bytes) \<Rightarrow> string \<Rightarrow> string" where
  "tenant_shard sha tenant = (case SafeTenantID sha tenant of Inr safe \<Rightarrow> shard_file safe | Inl _ \<Rightarrow> [])"

definition tenant_tables :: "(bytes \<Rightarrow> bytes) \<Rightarrow> sqlite_store \<Rightarrow> string \<Rightarrow> shard" where
  "tenant_tables sha s tenant = file_tables s (tenant_shard sha tenant)"

definition sqlite_ok :: "sqlite_store \<Rightarrow> bool" where
  "sqlite_ok s \<longleftrightarrow> (\<forall>name. shard_ok (file_tables s name) \<and> file_ok (lookup_or empty_file (sq_files s) name))"

lemma tenant_shard_eq: "SafeTenantID sha t = Inr safe \<Longrightarrow> tenant_shard sha t = shard_file safe"
  by (simp add: tenant_shard_def)

lemma shardPath_safe: "SafeTenantID sha t = Inr safe \<Longrightarrow> shardPath sha r safe = Inr (Root r @ [shard_file safe])"
  using SafeTenantID_result [of sha t] SafeTenantID_safe by (auto simp: shardPath_def shard_file_def)

lemma dbFor_spec:
  assumes "sqlite_ok s" "dbFor sha e t s = (r, s')"
  shows "sqlite_ok s' \<and> file_tables s' = file_tables s \<and> sq_closed s' = sq_closed s
    \<and> (\<forall>safe. r = Inr safe \<longrightarrow> tenant_shard sha t = shard_file safe)"
proof -
  obtain safe where safe: "SafeTenantID sha t = Inr safe" using SafeTenantID_result [of sha t] by blast
  note ts = tenant_shard_eq [OF safe] and path = shardPath_safe [OF safe]
  let ?f = "lookup_or empty_file (sq_files s) (shard_file safe)"
  obtain x f' where m: "runMigrations (call e 2) ?f = (x, f')" by fastforce
  have "file_ok ?f" using assms(1) by (simp add: sqlite_ok_def)
  note spec = runMigrations_spec [OF this m]
  define s1 where "s1 = s\<lparr>sq_files := AList.update (shard_file safe) f' (sq_files s)\<rparr>"
  have same: "file_tables (s1\<lparr>sq_dbs := d\<rparr>) = file_tables s" "sqlite_ok (s1\<lparr>sq_dbs := d\<rparr>)" for d
    using spec assms(1) by (auto simp: s1_def file_tables_def sqlite_ok_def fun_eq_iff)
  have same': "file_tables s1 = file_tables s" "sqlite_ok s1" using same [of "sq_dbs s1"] by simp_all
  from assms(2) consider "s' = s" "r = Inr safe \<or> (\<exists>y. r = Inl y)" | y where "x = Some y" "r = Inl y" "s' = s1"
    | "x = None" "r = Inr safe" "s' = s1\<lparr>sq_dbs := sq_dbs s @ [safe]\<rparr>"
    by (auto simp: dbFor_def safe path m s1_def split: if_splits option.splits)
  then show ?thesis by cases (use assms(1) same same' ts in \<open>auto simp: s1_def\<close>)
qed

lemma dbFor_quiet:
  assumes "sqlite_ok s" "quiet e"
  obtains safe s' where "dbFor sha e t s = (Inr safe, s')"
proof -
  obtain safe where safe: "SafeTenantID sha t = Inr safe" using SafeTenantID_result [of sha t] by blast
  have "file_ok (lookup_or empty_file (sq_files s) (shard_file safe))" using assms(1) by (simp add: sqlite_ok_def)
  from runMigrations_quiet [OF quiet_call [OF assms(2)] this, of 2]
  obtain f where f: "runMigrations (call e 2) (lookup_or empty_file (sq_files s) (shard_file safe)) = (None, f)"
    by (metis prod.collapse)
  show thesis
  proof (cases "safe \<in> set (sq_dbs s)")
    case True
    then show thesis using that [of safe s] by (simp add: dbFor_def safe)
  next
    case False
    then show thesis using that assms(2) by (simp add: dbFor_def safe shardPath_safe [OF safe] f)
  qed
qed

lemma on_shard_spec:
  assumes "sqlite_ok s" "on_shard sha e t body s = (r, s')"
  shows "(\<exists>x. r = Inl x \<and> sqlite_ok s' \<and> file_tables s' = file_tables s \<and> sq_closed s' = sq_closed s)
    \<or> (\<exists>e' tb. body e' (tenant_tables sha s t) = (r, tb) \<and> sq_closed s' = sq_closed s
         \<and> file_tables s' = (file_tables s)(tenant_shard sha t := tb) \<and> (shard_ok tb \<longrightarrow> sqlite_ok s'))"
proof -
  obtain d s1 where d: "dbFor sha (call e 0) t s = (d, s1)" by fastforce
  note spec = dbFor_spec [OF assms(1) d]
  show ?thesis
  proof (cases d)
    case (Inl x)
    with assms(2) d spec show ?thesis by (auto simp: on_shard_def)
  next
    case (Inr safe)
    let ?f = "lookup_or empty_file (sq_files s1) (shard_file safe)"
    obtain r' tb where b: "body (conn_env s1 safe (call e 1)) (sf_tables ?f) = (r', tb)" by fastforce
    have s': "r = r'" "s' = s1\<lparr>sq_files := AList.update (shard_file safe) (?f\<lparr>sf_tables := tb\<rparr>) (sq_files s1)\<rparr>"
      using assms(2) d Inr b by (auto simp: on_shard_def Let_def)
    have "file_tables s1 (shard_file safe) = tenant_tables sha s t" using spec Inr by (simp add: tenant_tables_def)
    then have "sf_tables ?f = tenant_tables sha s t" by (simp add: file_tables_def [of s1])
    moreover have "file_tables s' = (file_tables s1)(shard_file safe := tb)" by (auto simp: s'(2) file_tables_def fun_eq_iff)
    moreover have "shard_ok tb \<longrightarrow> sqlite_ok s'"
      using spec by (auto simp: s'(2) sqlite_ok_def file_tables_def file_ok_def)
    ultimately show ?thesis using b s'(1) spec Inr by (auto simp: s'(2))
  qed
qed

lemma on_shard_quiet:
  assumes "sqlite_ok s" "quiet e" "sq_closed s = []" "body (call e 1) (tenant_tables sha s t) = (r, tb)"
  obtains s' where "on_shard sha e t body s = (r, s')" "sq_closed s' = []"
    "file_tables s' = (file_tables s)(tenant_shard sha t := tb)" "shard_ok tb \<Longrightarrow> sqlite_ok s'"
proof -
  obtain safe s1 where d: "dbFor sha (call e 0) t s = (Inr safe, s1)" using dbFor_quiet assms(1,2) quiet_call by blast
  note spec = dbFor_spec [OF assms(1) d]
  let ?f = "lookup_or empty_file (sq_files s1) (shard_file safe)"
  let ?s' = "s1\<lparr>sq_files := AList.update (shard_file safe) (?f\<lparr>sf_tables := tb\<rparr>) (sq_files s1)\<rparr>"
  have "file_tables s1 (shard_file safe) = tenant_tables sha s t" using spec by (simp add: tenant_tables_def)
  then have t: "sf_tables ?f = tenant_tables sha s t" by (simp add: file_tables_def [of s1])
  have "on_shard sha e t body s = (r, ?s')"
    using assms(3,4) spec by (simp add: on_shard_def d Let_def conn_env_def t)
  moreover have "file_tables ?s' = (file_tables s)(tenant_shard sha t := tb)"
    using spec by (auto simp: file_tables_def fun_eq_iff)
  moreover have "sqlite_ok ?s'" if "shard_ok tb"
    using spec that by (auto simp: sqlite_ok_def file_tables_def file_ok_def)
  ultimately show thesis using that spec assms(3) by simp
qed

section \<open>Every operation\<close>

text \<open>The objects a shard serves.\<close>

definition served :: "sqlite_store \<Rightarrow> string \<Rightarrow> string \<times> string \<Rightarrow> stored_object option" where
  "served s name = object_view (file_tables s name)"

lemma transaction_rel:
  assumes "transaction e b c body tb = (r, tb')" "P (Inl undefined) tb" "\<And>x. P (Inl x) tb = P (Inl undefined) tb"
    and "\<And>a. body tb = Inr (a, tb') \<Longrightarrow> P (Inr a) tb'"
  shows "P r tb'"
  using transaction_cases [OF assms(1)] assms(2-4) by auto

text \<open>A body keeps a shard in order and relates the objects before and after by \<open>R\<close>, which holds
  of a failure that changes none.\<close>

definition body_spec :: "(env \<Rightarrow> shard \<Rightarrow> (err + 'a) \<times> shard) \<Rightarrow> (shard \<Rightarrow> err + 'a \<Rightarrow> shard \<Rightarrow> bool) \<Rightarrow> bool" where
  "body_spec body R \<longleftrightarrow> (\<forall>e tb r tb'. shard_ok tb \<longrightarrow> body e tb = (r, tb') \<longrightarrow> shard_ok tb' \<and> R tb r tb')"

definition views_kept :: "shard \<Rightarrow> err + 'a \<Rightarrow> shard \<Rightarrow> bool" where
  "views_kept tb r tb' \<longleftrightarrow> object_view tb' = object_view tb"

lemma body_specI:
  "(\<And>e tb r tb'. shard_ok tb \<Longrightarrow> body e tb = (r, tb') \<Longrightarrow> shard_ok tb' \<and> R tb r tb') \<Longrightarrow> body_spec body R"
  by (simp add: body_spec_def)

lemma on_shard_body:
  assumes "sqlite_ok s" "body_spec body R" "on_shard sha e t body s = (r, s')"
  shows "sqlite_ok s' \<and> ((\<exists>x. r = Inl x \<and> file_tables s' = file_tables s)
    \<or> (\<exists>tb. R (tenant_tables sha s t) r tb \<and> file_tables s' = (file_tables s)(tenant_shard sha t := tb)))"
proof -
  have "shard_ok (tenant_tables sha s t)" using assms(1) by (simp add: sqlite_ok_def tenant_tables_def)
  with on_shard_spec [OF assms(1,3)] assms(2) show ?thesis unfolding body_spec_def by blast
qed

lemma on_shard_kept:
  assumes "sqlite_ok s" "body_spec body views_kept" "on_shard sha e t body s = (r, s')"
  shows "sqlite_ok s' \<and> served s' = served s"
  using on_shard_body [OF assms] by (auto simp: served_def views_kept_def tenant_tables_def fun_eq_iff)

lemma create_spec: "body_spec (\<lambda>e tb.
       let i = (if m_id man = [] then fresh_id e 0 else m_id man); t = now e 0 in
       case encodeHeaders (m_headers man) of
         Inl x \<Rightarrow> (Inl x, tb)
       | Inr headers \<Rightarrow>
           (case exec_stmt e 0 ''insert pending object''
                   (insert_object \<lparr>ro_id = i, ro_bucket = m_bucket man, ro_key = m_key man, ro_state = StatePending,
                      ro_size = m_size man, ro_etag = m_etag man, ro_headers = headers,
                      ro_created = formatTime t, ro_updated = formatTime t\<rparr>) tb of
              Inl x \<Rightarrow> (Inl x, tb)
            | Inr tb' \<Rightarrow> (Inr i, tb'))) views_kept"
  by (rule body_specI)
    (auto simp: encodeHeaders_eq Let_def views_kept_def dest!: exec_stmt_Inr split: sum.splits
      intro: insert_pending_spec(1,2))

lemma create_kept:
  assumes "sqlite_ok s" "sqCreatePendingObject sha e man s = (r, s')"
  shows "sqlite_ok s' \<and> served s' = served s"
  by (rule on_shard_kept [OF assms(1) create_spec assms(2) [unfolded sqCreatePendingObject_def]])

definition commit_rel :: "string \<Rightarrow> manifest \<Rightarrow> shard \<Rightarrow> err + unit \<Rightarrow> shard \<Rightarrow> bool" where
  "commit_rel i man tb r tb' \<longleftrightarrow>
     (case r of
        Inl x \<Rightarrow> object_view tb' = object_view tb
      | Inr _ \<Rightarrow> \<exists>pend \<in> set (tb_objects tb). ro_id pend = i \<and> ro_state pend = StatePending
          \<and> object_view tb' = (object_view tb)((m_bucket man, m_key man) := None,
               (ro_bucket pend, ro_key pend) \<mapsto> stored_manifest man))"

lemma commit_spec:
  "body_spec (\<lambda>e. transaction e ''begin metadata commit'' (ErrWrap ''commit metadata transaction'') (commitBody (call e 2) i man))
     (commit_rel i man)"
proof (rule body_specI)
  fix e tb r tb'
  assume ok: "shard_ok tb"
    and t: "transaction e ''begin metadata commit'' (ErrWrap ''commit metadata transaction'') (commitBody (call e 2) i man) tb = (r, tb')"
  from transaction_cases [OF t] show "shard_ok tb' \<and> commit_rel i man tb r tb'"
  proof (elim disjE exE conjE)
    fix a assume r: "r = Inr a" and b: "commitBody (call e 2) i man tb = Inr (a, tb')"
    show ?thesis by (rule commitBody_spec [OF ok b]) (auto simp: commit_rel_def r)
  qed (use ok in \<open>simp add: commit_rel_def\<close>)
qed

definition delete_rel :: "string \<Rightarrow> string \<Rightarrow> shard \<Rightarrow> err + manifest \<Rightarrow> shard \<Rightarrow> bool" where
  "delete_rel b k tb r tb' \<longleftrightarrow>
     (case r of
        Inl x \<Rightarrow> object_view tb' = object_view tb
      | Inr _ \<Rightarrow> object_view tb (b, k) \<noteq> None \<and> object_view tb' = (object_view tb)((b, k) := None))"

lemma delete_spec:
  "body_spec (\<lambda>e. transaction e ''begin delete'' (ErrWrap ''commit delete'') (deleteBody (call e 2) t b k)) (delete_rel b k)"
proof (rule body_specI)
  fix e tb r tb'
  assume ok: "shard_ok tb"
    and t: "transaction e ''begin delete'' (ErrWrap ''commit delete'') (deleteBody (call e 2) t b k) tb = (r, tb')"
  from transaction_cases [OF t] show "shard_ok tb' \<and> delete_rel b k tb r tb'"
  proof (elim disjE exE conjE)
    fix a assume "r = Inr a" and b: "deleteBody (call e 2) t b k tb = Inr (a, tb')"
    with deleteBody_spec [OF ok b] show ?thesis by (simp add: delete_rel_def)
  qed (use ok in \<open>simp add: delete_rel_def\<close>)
qed

lemma forget_spec: "body_spec (\<lambda>e. transaction e m id (forgetBody (call e 2) 0 hs)) views_kept"
proof (rule body_specI)
  fix e tb r and tb' :: shard
  assume ok: "shard_ok tb" and t: "transaction e m id (forgetBody (call e 2) 0 hs) tb = (r, tb')"
  from transaction_cases [OF t] show "shard_ok tb' \<and> views_kept tb r tb'"
    using ok by (auto simp: views_kept_def dest!: forgetBody_spec)
qed

lemma read_spec: "body_spec (\<lambda>e tb. (f e tb, tb)) views_kept"
  by (rule body_specI) (auto simp: views_kept_def)

lemma create_session_spec: "body_spec (\<lambda>e tb.
       if ms_upload_id ses = [] then (Inl (ErrNew ''multipart upload id must not be empty''), tb)
       else if ms_reserved ses < 0 then (Inl (ErrNew ''multipart reserved bytes must be >= 0''), tb)
       else (let created = (if is_zero_time (ms_created ses) then now e 0 else ms_created ses);
                 updated = (if is_zero_time (ms_updated ses) then created else ms_updated ses) in
         case encodeHeaders (ms_headers ses) of
           Inl x \<Rightarrow> (Inl x, tb)
         | Inr headers \<Rightarrow>
             (case exec_stmt e 0 ''insert multipart session''
                     (insert_session \<lparr>rs_upload_id = ms_upload_id ses, rs_bucket = ms_bucket ses, rs_key = ms_key ses,
                        rs_headers = headers, rs_reserved = ms_reserved ses,
                        rs_created = formatTime created, rs_updated = formatTime updated\<rparr>) tb of
                Inl x \<Rightarrow> (Inl x, tb)
              | Inr tb' \<Rightarrow> (Inr (), tb')))) views_kept"
  by (rule body_specI)
    (auto simp: encodeHeaders_eq Let_def views_kept_def dest!: exec_stmt_Inr session_statements(1) split: sum.splits if_splits
      intro: objects_kept_spec)

lemma save_part_spec: "body_spec (\<lambda>e tb.
       if pt_number pt \<le> 0 then (Inl (ErrNew ''multipart part number must be positive''), tb)
       else if pt_size pt < 0 \<or> n < 0 then (Inl (ErrNew ''multipart part size and reserved bytes must be >= 0''), tb)
       else (let created = (if is_zero_time (pt_created pt) then now e 0 else pt_created pt) in
         transaction e ''begin multipart part save'' (ErrWrap ''commit multipart part save'')
           (savePartBody (call e 2) (formatTime created) (formatTime (now e 1)) u pt n) tb)) views_kept"
  by (rule body_specI)
    (auto simp: Let_def views_kept_def dest!: transaction_cases savePartBody_kept split: if_splits intro: objects_kept_spec)

lemma delete_session_spec: "body_spec (\<lambda>e tb.
       case exec_stmt e 0 ''delete multipart session'' (delete_session u) tb of
         Inl x \<Rightarrow> (Inl x, tb)
       | Inr tb' \<Rightarrow> if syscall e 1 = None \<and> u \<notin> rs_upload_id ` set (tb_sessions tb)
                    then (Inl ErrNotFound, tb') else (Inr (), tb')) views_kept"
  by (rule body_specI)
    (auto simp: views_kept_def dest!: exec_stmt_Inr session_statements(3) split: sum.splits if_splits intro: objects_kept_spec)

lemma err_resultD: "err_result rs = (r, s') \<Longrightarrow> \<exists>x. rs = (x, s') \<and> (r = None \<longleftrightarrow> (\<exists>a. x = Inr a))"
  by (auto simp: err_result_def split: prod.splits sum.splits)

inductive sq_step :: "(bytes \<Rightarrow> bytes) \<Rightarrow> sqlite_store \<Rightarrow> sqlite_store \<Rightarrow> bool" for sha where
  step_create: "sqCreatePendingObject sha e man s = (rc, s') \<Longrightarrow> sq_step sha s s'"
| step_commit: "sqCommitObject sha e i man s = (ro, s') \<Longrightarrow> sq_step sha s s'"
| step_get: "sqGetObject sha e t b k s = (rm, s') \<Longrightarrow> sq_step sha s s'"
| step_delete: "sqDeleteObject sha e t b k s = (rm, s') \<Longrightarrow> sq_step sha s s'"
| step_list_blocks: "sqListUnreferencedBlocksOlderThan sha e t before limit s = (rb, s') \<Longrightarrow> sq_step sha s s'"
| step_forget: "sqForgetBlocks sha e t hs s = (ro, s') \<Longrightarrow> sq_step sha s s'"
| step_create_session: "sqCreateMultipartSession sha e ses s = (ro, s') \<Longrightarrow> sq_step sha s s'"
| step_save_part: "sqSaveMultipartPart sha e t u pt n s = (ro, s') \<Longrightarrow> sq_step sha s s'"
| step_get_session: "sqGetMultipartSession sha e t u s = (rs, s') \<Longrightarrow> sq_step sha s s'"
| step_list_sessions: "sqListMultipartSessions sha e t s = (rl, s') \<Longrightarrow> sq_step sha s s'"
| step_list_stale: "sqListStaleMultipartSessions sha e t before s = (rl, s') \<Longrightarrow> sq_step sha s s'"
| step_delete_session: "sqDeleteMultipartSession sha e t u s = (ro, s') \<Longrightarrow> sq_step sha s s'"
| step_close: "sqClose e s = (ro, s') \<Longrightarrow> sq_step sha s s'"

definition sq_new :: "sqlite_store \<Rightarrow> bool" where
  "sq_new s \<longleftrightarrow> (\<exists>e root. NewSQLiteStore e root [] = Inr s)"

text \<open>The operations that are not a commit or a delete serve the same objects, whether they fail or not.\<close>

lemma err_kept:
  assumes "sqlite_ok s" "body_spec body views_kept" "err_result (on_shard sha e t body s) = (r, s')"
  shows "sqlite_ok s' \<and> served s' = served s"
proof -
  from err_resultD [OF assms(3)] obtain x where "on_shard sha e t body s = (x, s')" by blast
  from on_shard_kept [OF assms(1,2) this] show ?thesis .
qed

lemma get_kept:
  assumes "sqlite_ok s" "sqGetObject sha e t b k s = (r, s')"
  shows "sqlite_ok s' \<and> served s' = served s"
  by (rule on_shard_kept [OF assms(1) read_spec], fact assms(2) [unfolded sqGetObject_def])

lemma list_blocks_kept:
  assumes "sqlite_ok s" "sqListUnreferencedBlocksOlderThan sha e t before limit s = (r, s')"
  shows "sqlite_ok s' \<and> served s' = served s"
  by (rule on_shard_kept [OF assms(1) read_spec], fact assms(2) [unfolded sqListUnreferencedBlocksOlderThan_def])

lemma forget_kept:
  assumes "sqlite_ok s" "sqForgetBlocks sha e t hs s = (r, s')"
  shows "sqlite_ok s' \<and> served s' = served s"
  by (rule err_kept [OF assms(1) forget_spec], fact assms(2) [unfolded sqForgetBlocks_def])

lemma create_session_kept:
  assumes "sqlite_ok s" "sqCreateMultipartSession sha e ses s = (r, s')"
  shows "sqlite_ok s' \<and> served s' = served s"
  by (rule err_kept [OF assms(1) create_session_spec], fact assms(2) [unfolded sqCreateMultipartSession_def])

lemma save_part_kept:
  assumes "sqlite_ok s" "sqSaveMultipartPart sha e t u pt n s = (r, s')"
  shows "sqlite_ok s' \<and> served s' = served s"
  by (rule err_kept [OF assms(1) save_part_spec], fact assms(2) [unfolded sqSaveMultipartPart_def])

lemma get_session_kept:
  assumes "sqlite_ok s" "sqGetMultipartSession sha e t u s = (r, s')"
  shows "sqlite_ok s' \<and> served s' = served s"
  by (rule on_shard_kept [OF assms(1) read_spec], fact assms(2) [unfolded sqGetMultipartSession_def])

lemma list_sessions_kept:
  assumes "sqlite_ok s" "sqListMultipartSessions sha e t s = (r, s')"
  shows "sqlite_ok s' \<and> served s' = served s"
  by (rule on_shard_kept [OF assms(1) read_spec], fact assms(2) [unfolded sqListMultipartSessions_def])

lemma list_stale_kept:
  assumes "sqlite_ok s" "sqListStaleMultipartSessions sha e t before s = (r, s')"
  shows "sqlite_ok s' \<and> served s' = served s"
  by (rule on_shard_kept [OF assms(1) read_spec], fact assms(2) [unfolded sqListStaleMultipartSessions_def])

lemma delete_session_kept:
  assumes "sqlite_ok s" "sqDeleteMultipartSession sha e t u s = (r, s')"
  shows "sqlite_ok s' \<and> served s' = served s"
  by (rule err_kept [OF assms(1) delete_session_spec], fact assms(2) [unfolded sqDeleteMultipartSession_def])

lemma close_step: "sqlite_ok s \<Longrightarrow> sqClose e s = (r, s') \<Longrightarrow> sqlite_ok s' \<and> served s' = served s"
  by (auto simp: sqClose_def sqlite_ok_def served_def file_tables_def fun_eq_iff)

lemmas kept_steps = create_kept get_kept list_blocks_kept forget_kept create_session_kept save_part_kept
  get_session_kept list_sessions_kept list_stale_kept delete_session_kept close_step

lemma sq_commit_step:
  assumes "sqlite_ok s" "sqCommitObject sha e i man s = (r, s')"
  shows "sqlite_ok s' \<and> (case r of
      Some x \<Rightarrow> served s' = served s
    | None \<Rightarrow> \<exists>pend \<in> set (tb_objects (tenant_tables sha s (m_tenant man))). ro_id pend = i \<and> ro_state pend = StatePending
        \<and> served s' = (served s)(tenant_shard sha (m_tenant man) := (served s (tenant_shard sha (m_tenant man)))
             ((m_bucket man, m_key man) := None, (ro_bucket pend, ro_key pend) \<mapsto> stored_manifest man)))"
proof -
  from err_resultD [OF assms(2) [unfolded sqCommitObject_def]] obtain x where x: "r = None \<longleftrightarrow> (\<exists>a. x = Inr a)"
    "on_shard sha e (m_tenant man) (\<lambda>e. transaction e ''begin metadata commit''
       (ErrWrap ''commit metadata transaction'') (commitBody (call e 2) i man)) s = (x, s')" by blast
  from on_shard_body [OF assms(1) commit_spec x(2)] x(1) show ?thesis
    by (cases r; cases x) (auto simp: served_def commit_rel_def tenant_tables_def fun_eq_iff)
qed

lemma sq_delete_step:
  assumes "sqlite_ok s" "sqDeleteObject sha e t b k s = (r, s')"
  shows "sqlite_ok s' \<and> (case r of
      Inl x \<Rightarrow> served s' = served s
    | Inr _ \<Rightarrow> served s (tenant_shard sha t) (b, k) \<noteq> None
        \<and> served s' = (served s)(tenant_shard sha t := (served s (tenant_shard sha t))((b, k) := None)))"
  using on_shard_body [OF assms(1) delete_spec assms(2) [unfolded sqDeleteObject_def]]
  by (cases r) (auto simp: served_def delete_rel_def tenant_tables_def fun_eq_iff)

interpretation sqlite: transition_system sq_new "sq_step sha" sqlite_ok
proof
  fix s assume "sq_new s"
  then show "sqlite_ok s"
    by (auto simp: sq_new_def NewSQLiteStore_def sqlite_ok_def file_tables_def empty_file_def file_ok_def split: option.splits)
next
  fix s s' assume ok: "sqlite_ok s" and "sq_step sha s s'"
  from this(2) show "sqlite_ok s'"
    by cases (simp_all add: kept_steps [OF ok, THEN conjunct1] sq_commit_step [OF ok, THEN conjunct1] sq_delete_step [OF ok, THEN conjunct1])
qed

end
