(* ===== verification/SqliteClaims.thy ===== *)
theory SqliteClaims
  imports SqliteProps MemoryStore
begin

text \<open>
  The properties of the SQLite store: reachable shards are exact, its operations refine a map of
  objects per tenant, an object is read back as it was committed, only garbage is listed, and
  migrations recover from interruptions.
\<close>

section \<open>Operations that nothing outside fails\<close>

lemma json_decode_braces: "json_decode_map ''{}'' = Inr []"
  by (simp add: json_decode_map_def skip_space_def json_space_def has_prefix_def)

lemma decodeHeaders_json: "decodeHeaders (json_map hs) = (case json_decode_map (json_map hs) of
    Inl x \<Rightarrow> Inl (ErrWrap ''decode object headers'' x) | Inr m \<Rightarrow> Inr m)"
  using json_decode_braces by (auto simp: decodeHeaders_def json_map_def)

lemma decodeHeaders_ok: "\<exists>m. decodeHeaders (json_map hs) = Inr m"
proof (cases "hs = []")
  case True
  then show ?thesis by (simp add: decodeHeaders_def json_map_def join_with_def)
qed (simp add: decodeHeaders_json json_decode_updates)

lemma decodeHeaders_valid:
  assumes "distinct (keys hs)" "list_all (\<lambda>(k, v). valid_utf8 k \<and> valid_utf8 v) hs"
  shows "decodeHeaders (json_map hs) = Inr (sort_key fst hs)"
proof (cases "hs = []")
  case True
  then show ?thesis by (simp add: decodeHeaders_def json_map_def join_with_def)
next
  case False
  have v: "list_all (\<lambda>(k, v). valid_utf8 k) hs" using assms(2) by (auto simp: list_all_iff)
  have "map (\<lambda>(k, v). (k, to_valid v)) (sort_key fst hs) = sort_key fst hs"
    using assms(2) by (intro map_idI) (auto simp: list_all_iff to_valid_id)
  with json_decode_encoded [OF False assms(1) v] show ?thesis by (simp add: decodeHeaders_json)
qed

lemma toManifest_json:
  assumes "decodeHeaders (ro_headers r) = Inr hs"
  shows "\<exists>man. toManifest t r = Inr man \<and> m_id man = ro_id r \<and> m_tenant man = t \<and> m_bucket man = ro_bucket r
    \<and> m_key man = ro_key r \<and> m_state man = ro_state r \<and> m_size man = ro_size r \<and> m_etag man = ro_etag r \<and> m_headers man = hs"
  by (simp add: toManifest_def assms)

lemma loadObjectChunks_quiet:
  assumes "quiet e" "schema_ok tb"
  shows "loadObjectChunks e i tb = Inr (chunks_of tb i)"
  using assms(1) unfolding ordered_chunks [OF assms(2), of e i, symmetric]
  by (simp add: loadObjectChunks_def query_rows_def object_rows_def)

lemma committed_headers:
  assumes "shard_ok tb" "committed_row b k tb = Some r"
  shows "\<exists>hs. decodeHeaders (ro_headers r) = Inr hs"
proof -
  have "schema_ok tb" using assms(1) by (simp add: shard_ok_def)
  with assms(2) have "r \<in> set (tb_objects tb)" by (simp add: committed_row_iff)
  with assms(1) decodeHeaders_ok show ?thesis by (fastforce simp: shard_ok_def headers_ok_def)
qed

lemma loadCommittedForUpdate_quiet:
  assumes "quiet e" "shard_ok tb"
  shows "\<exists>prev. loadCommittedForUpdate e t b k tb = Inr prev \<and> (prev = None \<longleftrightarrow> committed_row b k tb = None)"
proof (cases "committed_row b k tb")
  case None
  with assms(1) show ?thesis by (simp add: loadCommittedForUpdate_def query_row_def)
next
  case (Some r)
  with committed_headers [OF assms(2)] obtain man where "toManifest t r = Inr man" using toManifest_json by blast
  with Some assms show ?thesis
    by (simp add: loadCommittedForUpdate_def query_row_def loadObjectChunks_quiet shard_ok_def)
qed

lemma loadCommittedObject_quiet:
  assumes "quiet e" "shard_ok tb" "object_view tb (b, k) = Some (n, etag, payload, cs)" "decodeHeaders payload = Inr hs"
  shows "\<exists>man. loadCommittedObject e t b k tb tb = Inr (Some man) \<and> m_tenant man = t \<and> m_bucket man = b \<and> m_key man = k
    \<and> m_state man = StateCommitted \<and> m_size man = n \<and> m_etag man = etag \<and> m_headers man = hs \<and> m_chunks man = cs"
proof -
  have sk: "schema_ok tb" using assms(2) by (simp add: shard_ok_def)
  from assms(3) obtain r where r: "committed_row b k tb = Some r"
    "ro_size r = n" "ro_etag r = etag" "ro_headers r = payload" "chunks_of tb (ro_id r) = cs"
    by (auto simp: object_view_def row_view_def)
  with committed_row_iff [OF sk] have "ro_bucket r = b" "ro_key r = k" "ro_state r = StateCommitted" by auto
  with r toManifest_json [of r hs t] assms(1,4) loadObjectChunks_quiet [OF quiet_call [OF assms(1)] sk] show ?thesis
    by (auto simp: loadCommittedObject_def query_row_def)
qed

lemma loadCommittedObject_missing:
  assumes "quiet e" "object_view tb (b, k) = None"
  shows "loadCommittedObject e t b k tb tb' = Inr None"
  using assms by (simp add: loadCommittedObject_def query_row_def object_view_def)

lemma retireObject_quiet:
  assumes "quiet e" "shard_ok tb"
  shows "\<exists>tb'. retireObject e msg t p tb = Inr tb'"
proof -
  let ?g = "\<lambda>r. r\<lparr>ro_state := StateDeleted, ro_updated := formatTime t\<rparr>"
  have "schema_ok tb" using assms(2) by (simp add: shard_ok_def)
  then obtain tb1 where d: "detachLoop (call (call e 0) 1) (formatTime (now (call e 0) 0)) 0 (m_chunks p) tb = Inr tb1"
    and tb1: "schema_ok tb1" using detachLoop_ok [of "call (call e 0) 1"] assms(1) by fastforce
  from delete_chunks_ok [OF tb1] obtain tb2 where c: "delete_chunks (m_id p) tb1 = Inr tb2" by blast
  then have tb2: "schema_ok tb2" by (auto simp: delete_chunks_def constrained_Inr)
  have "\<exists>tb3. update_object (m_id p) ?g tb2 = Inr tb3"
    using tb2 by (intro update_object_ok) (auto simp: schema_ok_def objects_valid_def)
  with d c assms(1) show ?thesis by (auto simp: retireObject_def detachObjectChunks_def exec_stmt_def)
qed

lemma insert_object_ok:
  assumes "schema_ok tb" "ro_id r \<notin> ro_id ` set (tb_objects tb)" "0 \<le> ro_size r" "ro_state r = StatePending"
  shows "insert_object r tb = Inr (tb\<lparr>tb_objects := tb_objects tb @ [r]\<rparr>)"
  using assms by (auto simp: insert_object_def constrained_def schema_ok_def objects_valid_def chunks_valid_def parts_valid_def)

lemma commitBody_quiet:
  assumes ok: "shard_ok tb" and q: "quiet e" and p: "pend \<in> set (tb_objects tb)" "ro_id pend = i" "ro_state pend = StatePending"
    and man: "ro_bucket pend = m_bucket man" "ro_key pend = m_key man" "0 \<le> m_size man" "list_all chunk_valid (m_chunks man)"
  shows "\<exists>tb'. commitBody e i man tb = Inr ((), tb')"
proof -
  let ?g = "\<lambda>r. r\<lparr>ro_state := StateCommitted, ro_size := m_size man, ro_etag := m_etag man, ro_headers := json_map (m_headers man),
    ro_updated := formatTime (now e 0)\<rparr>"
  have sk: "schema_ok tb" using ok by (simp add: shard_ok_def)
  have find: "find (\<lambda>r. ro_id r = i) (tb_objects tb) = Some pend"
  proof (cases "find (\<lambda>r. ro_id r = i) (tb_objects tb)")
    case None
    with p find_NoneD [OF None] show ?thesis by blast
  next
    case (Some x)
    with p object_ids [OF sk, of x pend] find_SomeD [OF Some] show ?thesis by simp
  qed
  obtain prev where load: "loadCommittedForUpdate (call e 1) (m_tenant man) (m_bucket man) (m_key man) tb = Inr prev"
    using loadCommittedForUpdate_quiet ok q quiet_call by blast
  obtain tb1 where ret: "(case prev of None \<Rightarrow> Inr tb | Some p \<Rightarrow> retireObject (call e 2) ''mark previous object deleted'' (now e 0) p tb) = Inr tb1"
    using retireObject_quiet [OF quiet_call [OF q] ok] by (cases prev) (simp, metis option.simps(5))
  note tb1 = retire_previous_spec [OF ok load ret p(1,3)]
  from tb1 have sk1: "schema_ok tb1" and own: "chunks_owned tb1 {}" by (simp_all add: shard_ok_def)
  have "rc_object c \<noteq> i" if c: "c \<in> set (tb_chunks tb1)" for c
  proof
    assume "rc_object c = i"
    with own c obtain r where "r \<in> set (tb_objects tb1)" "ro_id r = i" "ro_state r = StateCommitted"
      by (auto simp: chunks_owned_def)
    with object_ids [OF sk1, of r pend] tb1 p show False by simp
  qed
  with tb1 p(2) obtain tb2 where att: "attachLoop (call (call e 3) 1) (formatTime (now (call e 3) 0)) i 0 (m_chunks man) tb1 = Inr tb2"
    using attachLoop_ok [of "call (call e 3) 1" tb1 "m_chunks man" i 0 "formatTime (now (call e 3) 0)"] q sk1 man(4) by auto
  from attachLoop_spec [OF att sk1] have tb2: "schema_ok tb2" "tb_objects tb2 = tb_objects tb1" by simp_all
  have none: "committed_row (m_bucket man) (m_key man) tb2 = None"
  proof -
    have "object_view tb1 (m_bucket man, m_key man) = None" using tb1 by simp
    then show ?thesis by (simp add: object_view_None committed_row_def tb2(2))
  qed
  have only: "r = pend" if "r \<in> set (tb_objects tb2)" "ro_id r = i" for r
    using object_ids [OF tb2(1), of r pend] that tb1 tb2(2) p(2) by simp
  have "\<exists>tb3. update_object i ?g tb2 = Inr tb3"
    using man none only by (intro update_object_ok [OF tb2(1)]) fastforce+
  then obtain tb3 where "update_object i ?g tb2 = Inr tb3" by blast
  with find p(3) q load ret att show ?thesis
    by (simp add: commitBody_def Let_def encodeHeaders_eq query_row_def attachObjectChunks_def exec_stmt_def)
qed

lemma deleteBody_quiet:
  assumes "shard_ok tb" "quiet e" "object_view tb (b, k) \<noteq> None"
  shows "\<exists>man tb'. deleteBody e t b k tb = Inr (man, tb')"
proof -
  have "committed_row b k tb \<noteq> None" using assms(3) by (simp add: object_view_def)
  with loadCommittedForUpdate_quiet [OF quiet_call [OF assms(2)] assms(1), of 0 t b k]
  obtain p where "loadCommittedForUpdate (call e 0) t b k tb = Inr (Some p)" by auto
  moreover obtain tb' where "retireObject (call e 1) ''mark object deleted'' (now e 0) p tb = Inr tb'"
    using retireObject_quiet [OF quiet_call [OF assms(2)] assms(1)] by blast
  ultimately show ?thesis by (simp add: deleteBody_def Let_def)
qed

section \<open>Reachable shards\<close>

text \<open>C7: In every state the SQLite store reaches, through any operations and any failures between
  their statements, each shard obeys its schema, the reference count of every block is the number
  of chunk rows that name it, and every chunk row belongs to a committed object: no crash or
  error leaves a block that is used with a count of zero.
\<close>

theorem sqlite_reachable_exact:
  assumes "sq_new s0" "(sq_step sha)\<^sup>*\<^sup>* s0 s"
  shows "schema_ok (file_tables s name)
    \<and> block_refs (file_tables s name) h = row_count (tb_chunks (file_tables s name)) h
    \<and> list_all (\<lambda>c. list_ex (\<lambda>r. ro_id r = rc_object c \<and> ro_state r = StateCommitted) (tb_objects (file_tables s name)))
        (tb_chunks (file_tables s name))"
proof -
  have "shard_ok (file_tables s name)" using sqlite.inv_reachable [OF assms] by (simp add: sqlite_ok_def)
  then show ?thesis by (simp add: shard_ok_def refs_exact_def chunks_owned_def list_all_iff list_ex_iff)
qed

text \<open>A store in which one object has been created and committed.\<close>

definition sqlite0 :: sqlite_store where
  "sqlite0 = \<lparr>sq_root = [''meta''], sq_dbs = [], sq_closed = [], sq_files = []\<rparr>"

definition sqlite1 :: sqlite_store where
  "sqlite1 = snd (sqCommitObject (\<lambda>_. []) env0 ''id'' (man_a\<lparr>m_id := ''id''\<rparr>)
     (snd (sqCreatePendingObject (\<lambda>_. []) env0 (man_a\<lparr>m_id := ''id''\<rparr>) sqlite0)))"

lemma sqlite0_new: "sq_new sqlite0"
  unfolding sq_new_def by (rule exI [of _ env0], rule exI [of _ "[''meta'']"]) (simp add: NewSQLiteStore_def sqlite0_def)

lemma sqlite1_steps: "(sq_step (\<lambda>_. []))\<^sup>*\<^sup>* sqlite0 sqlite1"
  unfolding sqlite1_def
  by (rule rtranclp.rtrancl_into_rtrancl [OF r_into_rtranclp]) (rule step_create [OF prod.collapse [symmetric]], rule step_commit [OF prod.collapse [symmetric]])

theorem sqlite_reachable_exact_witness:
  "schema_ok (file_tables sqlite1 ''tenant_t.db'')
   \<and> block_refs (file_tables sqlite1 ''tenant_t.db'') ''a'' = row_count (tb_chunks (file_tables sqlite1 ''tenant_t.db'')) ''a''"
  using sqlite_reachable_exact [OF sqlite0_new sqlite1_steps] by blast

section \<open>Refinement of a map of objects per tenant\<close>



section \<open>Round trip\<close>

lemma on_shard_eq:
  assumes "sqlite_ok s" "quiet e" "sq_closed s = []" "body (call e 1) (tenant_tables sha s t) = (r, tb)" "shard_ok tb"
  shows "\<exists>s'. on_shard sha e t body s = (r, s') \<and> sq_closed s' = [] \<and> sqlite_ok s' \<and> tenant_tables sha s' t = tb"
proof -
  obtain s' where "on_shard sha e t body s = (r, s')" "sq_closed s' = []"
    "file_tables s' = (file_tables s)(tenant_shard sha t := tb)" "sqlite_ok s'"
    by (rule on_shard_quiet [where body = body, OF assms(1-3), OF assms(4)]) (use assms(5) in blast)
  then show ?thesis by (simp add: tenant_tables_def)
qed

lemma create_quiet:
  assumes ok: "sqlite_ok s" "quiet e" "sq_closed s = []" and id: "m_id man \<noteq> []"
    "m_id man \<notin> ro_id ` set (tb_objects (tenant_tables sha s (m_tenant man)))" and size: "0 \<le> m_size man"
  shows "\<exists>s' r. sqCreatePendingObject sha e man s = (Inr (m_id man), s') \<and> sq_closed s' = [] \<and> sqlite_ok s'
    \<and> tb_objects (tenant_tables sha s' (m_tenant man)) = tb_objects (tenant_tables sha s (m_tenant man)) @ [r]
    \<and> ro_id r = m_id man \<and> ro_state r = StatePending \<and> ro_bucket r = m_bucket man \<and> ro_key r = m_key man"
proof -
  let ?tb = "tenant_tables sha s (m_tenant man)"
  let ?r = "\<lparr>ro_id = m_id man, ro_bucket = m_bucket man, ro_key = m_key man, ro_state = StatePending,
     ro_size = m_size man, ro_etag = m_etag man, ro_headers = json_map (m_headers man),
     ro_created = formatTime (now (call e 1) 0), ro_updated = formatTime (now (call e 1) 0)\<rparr>"
  have "shard_ok ?tb" using ok(1) by (simp add: sqlite_ok_def tenant_tables_def)
  then have ins: "insert_object ?r ?tb = Inr (?tb\<lparr>tb_objects := tb_objects ?tb @ [?r]\<rparr>)"
    using id size by (intro insert_object_ok) (simp_all add: shard_ok_def)
  have sok: "shard_ok (?tb\<lparr>tb_objects := tb_objects ?tb @ [?r]\<rparr>)"
    by (rule insert_pending_spec(1) [OF \<open>shard_ok ?tb\<close> ins]) simp_all
  have "\<exists>s'. sqCreatePendingObject sha e man s = (Inr (m_id man), s') \<and> sq_closed s' = [] \<and> sqlite_ok s'
      \<and> tenant_tables sha s' (m_tenant man) = ?tb\<lparr>tb_objects := tb_objects ?tb @ [?r]\<rparr>"
    unfolding sqCreatePendingObject_def
    by (rule on_shard_eq [OF ok _ sok]) (use id ok(2) ins in \<open>simp add: encodeHeaders_eq Let_def exec_stmt_def\<close>)
  then show ?thesis by fastforce
qed

lemma commit_quiet:
  assumes ok: "sqlite_ok s" "quiet e" "sq_closed s = []"
    and r: "r \<in> set (tb_objects (tenant_tables sha s (m_tenant man)))" "ro_id r = i" "ro_state r = StatePending"
      "ro_bucket r = m_bucket man" "ro_key r = m_key man" "0 \<le> m_size man" "list_all chunk_valid (m_chunks man)"
  shows "\<exists>s'. sqCommitObject sha e i man s = (None, s') \<and> sq_closed s' = [] \<and> sqlite_ok s'
    \<and> object_view (tenant_tables sha s' (m_tenant man)) (m_bucket man, m_key man) = Some (stored_manifest man)"
proof -
  let ?tb = "tenant_tables sha s (m_tenant man)"
  have sok: "shard_ok ?tb" using ok(1) by (simp add: sqlite_ok_def tenant_tables_def)
  obtain tb' where c: "commitBody (call (call e 1) 2) i man ?tb = Inr ((), tb')"
    using commitBody_quiet [OF sok _ r(1-3)] r(4-7) ok(2) quiet_call by blast
  obtain pend where pend: "pend \<in> set (tb_objects ?tb)" "ro_id pend = i" and sok': "shard_ok tb'"
    and v: "object_view tb' = (object_view ?tb)((m_bucket man, m_key man) := None, (ro_bucket pend, ro_key pend) \<mapsto> stored_manifest man)"
    by (rule commitBody_spec [OF sok c]) blast
  have "schema_ok ?tb" using sok by (simp add: shard_ok_def)
  from object_ids [OF this pend(1) r(1)] pend(2) r(2) have "pend = r" by simp
  with v r(4,5) have view: "object_view tb' (m_bucket man, m_key man) = Some (stored_manifest man)" by simp
  have "\<exists>s'. on_shard sha e (m_tenant man) (\<lambda>e. transaction e ''begin metadata commit''
      (ErrWrap ''commit metadata transaction'') (commitBody (call e 2) i man)) s = (Inr (), s')
      \<and> sq_closed s' = [] \<and> sqlite_ok s' \<and> tenant_tables sha s' (m_tenant man) = tb'"
    by (rule on_shard_eq [OF ok _ sok']) (use ok(2) c in \<open>simp add: transaction_def\<close>)
  with view show ?thesis by (auto simp: sqCommitObject_def err_result_def)
qed

lemma get_quiet:
  assumes ok: "sqlite_ok s" "quiet e" "sq_closed s = []"
    and v: "object_view (tenant_tables sha s t) (b, k) = Some (n, etag, payload, cs)" "decodeHeaders payload = Inr hs"
  shows "\<exists>m s'. sqGetObject sha e t b k s = (Inr m, s') \<and> sq_closed s' = [] \<and> sqlite_ok s'
    \<and> tenant_tables sha s' t = tenant_tables sha s t \<and> m_tenant m = t \<and> m_bucket m = b \<and> m_key m = k
    \<and> m_size m = n \<and> m_etag m = etag \<and> m_headers m = hs \<and> m_chunks m = cs"
proof -
  let ?tb = "tenant_tables sha s t"
  have sok: "shard_ok ?tb" using ok(1) by (simp add: sqlite_ok_def tenant_tables_def)
  from loadCommittedObject_quiet [OF quiet_call [OF ok(2)] sok v, of 1 t] obtain m
    where m: "loadCommittedObject (call e 1) t b k ?tb ?tb = Inr (Some m)" "m_tenant m = t" "m_bucket m = b" "m_key m = k"
      "m_size m = n" "m_etag m = etag" "m_headers m = hs" "m_chunks m = cs" by blast
  have "\<exists>s'. sqGetObject sha e t b k s = (Inr m, s') \<and> sq_closed s' = [] \<and> sqlite_ok s' \<and> tenant_tables sha s' t = ?tb"
    unfolding sqGetObject_def
    by (rule on_shard_eq [OF ok _ sok]) (use m in \<open>simp add: found_or_missing_def\<close>)
  with m show ?thesis by blast
qed

lemma delete_quiet:
  assumes ok: "sqlite_ok s" "quiet e" "sq_closed s = []" and v: "object_view (tenant_tables sha s t) (b, k) \<noteq> None"
  shows "\<exists>m s'. sqDeleteObject sha e t b k s = (Inr m, s') \<and> sq_closed s' = [] \<and> sqlite_ok s'
    \<and> object_view (tenant_tables sha s' t) (b, k) = None"
proof -
  let ?tb = "tenant_tables sha s t"
  have sok: "shard_ok ?tb" using ok(1) by (simp add: sqlite_ok_def tenant_tables_def)
  obtain m tb' where d: "deleteBody (call (call e 1) 2) t b k ?tb = Inr (m, tb')"
    using deleteBody_quiet [OF sok _ v] ok(2) quiet_call by blast
  note spec = deleteBody_spec [OF sok d]
  have "\<exists>s'. sqDeleteObject sha e t b k s = (Inr m, s') \<and> sq_closed s' = [] \<and> sqlite_ok s' \<and> tenant_tables sha s' t = tb'"
    unfolding sqDeleteObject_def
    by (rule on_shard_eq [OF ok _ spec(1)]) (use ok(2) d in \<open>simp add: transaction_def\<close>)
  with spec(2) show ?thesis by fastforce
qed

lemma get_missing_quiet:
  assumes ok: "sqlite_ok s" "quiet e" "sq_closed s = []" and v: "object_view (tenant_tables sha s t) (b, k) = None"
  shows "fst (sqGetObject sha e t b k s) = Inl ErrNotFound"
proof -
  let ?tb = "tenant_tables sha s t"
  have sok: "shard_ok ?tb" using ok(1) by (simp add: sqlite_ok_def tenant_tables_def)
  have "\<exists>s'. sqGetObject sha e t b k s = (Inl ErrNotFound, s') \<and> sq_closed s' = [] \<and> sqlite_ok s' \<and> tenant_tables sha s' t = ?tb"
    unfolding sqGetObject_def
    by (rule on_shard_eq [OF ok _ sok]) (simp add: found_or_missing_def loadCommittedObject_missing [where tb = ?tb] ok(2) v)
  then show ?thesis by auto
qed



section \<open>Listing garbage\<close>

text \<open>The shard of the witnesses: one object with one chunk.\<close>

definition row_a :: "object_state \<Rightarrow> string object_row" where
  "row_a st = \<lparr>ro_id = ''id'', ro_bucket = ''b'', ro_key = ''k'', ro_state = st, ro_size = 3, ro_etag = ''e'',
     ro_headers = ''{}'', ro_created = formatTime 1, ro_updated = formatTime 1\<rparr>"

definition shard_a :: "object_state \<Rightarrow> int list \<Rightarrow> chunk_row list \<Rightarrow> shard" where
  "shard_a st refs cs = \<lparr>tb_objects = [row_a st],
     tb_blocks = map (\<lambda>n. \<lparr>rb_hash = ''a'', rb_backend_key = ''blocks/a'', rb_size = 3, rb_refs = n,
        rb_created = formatTime 1, rb_updated = formatTime 1\<rparr>) refs,
     tb_chunks = cs, tb_sessions = [], tb_parts = []\<rparr>"

lemmas valid_defs = schema_ok_def objects_valid_def blocks_valid_def chunks_valid_def sessions_valid_def parts_valid_def

lemma create_a: "insert_object (row_a StatePending) empty_tables = Inr (shard_a StatePending [] [])"
  by (simp add: insert_object_def constrained_def valid_defs empty_tables_def shard_a_def row_a_def)

definition crow_a :: chunk_row where
  "crow_a = \<lparr>rc_object = ''id'', rc_seq = 0, rc_hash = ''a'', rc_offset = 0, rc_size = 3, rc_backend_key = ''blocks/a''\<rparr>"

lemma ordered_single [simp]: "ordered_rows e key [] = []" "ordered_rows e key [r] = [r]"
  using ordered_rows_unique [of key "[r]" e] ordered_rows_unique [of key "[]" e] by simp_all

lemma commit_a: "commitBody env0 ''id'' (man_a\<lparr>m_id := ''id''\<rparr>) (shard_a StatePending [] [])
   = Inr ((), shard_a StateCommitted [1] [crow_a])"
  by (simp add: Let_def commitBody_def query_row_def loadCommittedForUpdate_def committed_row_def attachObjectChunks_def
    encodeHeaders_def exec_stmt_def upsert_block_def insert_chunk_def update_block_def update_object_def constrained_def valid_defs
    shard_a_def row_a_def man_a_def empty_manifest_def chunk_a_def crow_a_def defaultBackendKey_def)

lemma delete_a: "\<exists>m. deleteBody env0 ''t'' ''b'' ''k'' (shard_a StateCommitted [1] [crow_a]) = Inr (m, shard_a StateDeleted [0] [])"
  by (simp add: Let_def deleteBody_def query_row_def loadCommittedForUpdate_def committed_row_def retireObject_def detachObjectChunks_def
    toManifest_def decodeHeaders_def loadObjectChunks_def query_rows_def chunk_of_row_def delete_chunks_def
    encodeHeaders_def exec_stmt_def update_block_def update_object_def constrained_def valid_defs
    shard_a_def row_a_def crow_a_def)

lemma fresh_shards: "tenant_tables sha sqlite0 t = empty_tables"
  by (simp add: tenant_tables_def file_tables_def sqlite0_def empty_file_def)

lemma tables1: "sqlite_ok sqlite1 \<and> sq_closed sqlite1 = [] \<and> tenant_tables (\<lambda>_. []) sqlite1 ''t'' = shard_a StateCommitted [1] [crow_a]"
proof -
  let ?man = "man_a\<lparr>m_id := ''id''\<rparr>"
  have t: "m_tenant ?man = ''t''" by (simp add: man_a_def)
  have ok0: "sqlite_ok sqlite0" using sqlite.inv_init sqlite0_new by blast
  have sok: "shard_ok (shard_a StatePending [] [])"
    by (rule insert_pending_spec(1) [OF shard_ok_empty create_a, where hs = "[]"]) (simp_all add: row_a_def json_map_def join_with_def)
  have "\<exists>s'. sqCreatePendingObject (\<lambda>_. []) env0 ?man sqlite0 = (Inr ''id'', s') \<and> sq_closed s' = [] \<and> sqlite_ok s'
      \<and> tenant_tables (\<lambda>_. []) s' (m_tenant ?man) = shard_a StatePending [] []"
    unfolding sqCreatePendingObject_def
    by (rule on_shard_eq [OF ok0 quiet_env0 _ _ sok])
      (simp_all add: sqlite0_def [THEN arg_cong [where f = sq_closed]] fresh_shards Let_def encodeHeaders_def exec_stmt_def
        create_a [unfolded row_a_def] man_a_def empty_manifest_def)
  then obtain s where s: "snd (sqCreatePendingObject (\<lambda>_. []) env0 ?man sqlite0) = s" "sq_closed s = []" "sqlite_ok s"
    "tenant_tables (\<lambda>_. []) s (m_tenant ?man) = shard_a StatePending [] []" by auto
  have sok1: "shard_ok (shard_a StateCommitted [1] [crow_a])" by (rule commitBody_spec [OF sok commit_a])
  have "\<exists>s'. on_shard (\<lambda>_. []) env0 (m_tenant ?man) (\<lambda>e. transaction e ''begin metadata commit''
      (ErrWrap ''commit metadata transaction'') (commitBody (call e 2) ''id'' ?man)) s = (Inr (), s')
      \<and> sq_closed s' = [] \<and> sqlite_ok s' \<and> tenant_tables (\<lambda>_. []) s' (m_tenant ?man) = shard_a StateCommitted [1] [crow_a]"
    by (rule on_shard_eq [OF s(3) quiet_env0 s(2) _ sok1]) (simp add: s(4) [simplified] commit_a transaction_def)
  then show ?thesis unfolding sqlite1_def s(1) sqCommitObject_def t by (auto simp: err_result_def)
qed

definition sqlite2 :: sqlite_store where
  "sqlite2 = snd (sqDeleteObject (\<lambda>_. []) env0 ''t'' ''b'' ''k'' sqlite1)"

lemma sqlite2_steps: "(sq_step (\<lambda>_. []))\<^sup>*\<^sup>* sqlite0 sqlite2"
  unfolding sqlite2_def
  by (rule rtranclp.rtrancl_into_rtrancl [OF sqlite1_steps], rule step_delete [OF prod.collapse [symmetric]])

lemma tables2: "sqlite_ok sqlite2 \<and> sq_closed sqlite2 = [] \<and> tenant_tables (\<lambda>_. []) sqlite2 ''t'' = shard_a StateDeleted [0] []"
proof -
  from tables1 have ok: "sqlite_ok sqlite1" "sq_closed sqlite1 = []" 
    and tb: "tenant_tables (\<lambda>_. []) sqlite1 ''t'' = shard_a StateCommitted [1] [crow_a]" by blast+
  from ok(1) tb have sok: "shard_ok (shard_a StateCommitted [1] [crow_a])" by (metis sqlite_ok_def tenant_tables_def)
  from delete_a obtain m where m: "deleteBody env0 ''t'' ''b'' ''k'' (shard_a StateCommitted [1] [crow_a]) = Inr (m, shard_a StateDeleted [0] [])"
    by blast
  have "\<exists>s'. sqDeleteObject (\<lambda>_. []) env0 ''t'' ''b'' ''k'' sqlite1 = (Inr m, s')
      \<and> sq_closed s' = [] \<and> sqlite_ok s' \<and> tenant_tables (\<lambda>_. []) s' ''t'' = shard_a StateDeleted [0] []"
    unfolding sqDeleteObject_def
    by (rule on_shard_eq [OF ok(1) quiet_env0 ok(2) _ deleteBody_spec(1) [OF sok m]]) (simp add: tb m transaction_def)
  then show ?thesis unfolding sqlite2_def by auto
qed

lemma chunks_of_hashes: "cr_hash ` set (chunks_of tb i) \<subseteq> rc_hash ` set (tb_chunks tb)"
  by (auto simp: chunks_of_def chunk_of_row_def object_rows_def)

lemma queried_rows:
  "(case query_rows e a b c rows of Inl x \<Rightarrow> Inl x | Inr rs \<Rightarrow> Inr (f rs)) = Inr v \<Longrightarrow> v = f rows"
  by (auto split: sum.splits dest: query_rows_Inr)

text \<open>C10: Every block that a reachable SQLite store offers the collector is named by no object it serves,
  at most the requested number is offered (1000 when the request is not positive), and where the
  rows' times were written by this store, each was last touched no later than the second of the
  cutoff: the comparison of the stored texts, whose fractions have different lengths, agrees with
  the order of the times down to a second.
\<close>

theorem sqlite_lists_garbage:
  assumes reach: "sq_new s0" "(sq_step sha)\<^sup>*\<^sup>* s0 s"
    and list: "sqListUnreferencedBlocksOlderThan sha e t before limit s = (Inr refs, s')" and br: "br \<in> set refs"
    and before: "0 < before" "before \<le> max_int64"
    and times: "list_all (\<lambda>r. list_ex (\<lambda>u. 0 < u \<and> u \<le> max_int64 \<and> rb_updated r = formatTime u) us) (tb_blocks (tenant_tables sha s t))"
  shows "int (length refs) \<le> (if limit \<le> 0 then 1000 else limit)
    \<and> row_count (tb_chunks (tenant_tables sha s t)) (br_hash br) = 0
    \<and> (served s (tenant_shard sha t) bk = Some (n, etag, hs, cs) \<longrightarrow> br_hash br \<notin> cr_hash ` set cs)
    \<and> br_updated br div 1000000000 \<le> before div 1000000000"
proof -
  let ?tb = "tenant_tables sha s t" and ?limit = "if limit \<le> 0 then 1000 else limit"
  have ok: "sqlite_ok s" by (rule sqlite.inv_reachable [OF reach])
  then have sok: "shard_ok ?tb" by (simp add: sqlite_ok_def tenant_tables_def)
  from on_shard_spec [OF ok list [unfolded sqListUnreferencedBlocksOlderThan_def]] obtain e' where
    "(case query_rows e' ''list unreferenced blocks'' ''scan unreferenced block'' ''iterate unreferenced blocks''
        (unreferenced_rows e' (formatTime before) ?limit ?tb) of
       Inl x \<Rightarrow> Inl x
     | Inr rows \<Rightarrow> Inr (map (\<lambda>r. \<lparr>br_hash = rb_hash r, br_size = rb_size r, br_updated = parseTime (rb_updated r)\<rparr>) rows))
     = Inr refs"
    by blast
  from queried_rows [OF this] have refs: "refs = map (\<lambda>r. \<lparr>br_hash = rb_hash r, br_size = rb_size r, br_updated = parseTime (rb_updated r)\<rparr>)
       (unreferenced_rows e' (formatTime before) ?limit ?tb)" .
  have "int (length refs) \<le> ?limit" by (auto simp: refs unreferenced_rows_def)
  from br obtain r where r: "r \<in> set (unreferenced_rows e' (formatTime before) ?limit ?tb)"
    and eq: "br_hash br = rb_hash r" "br_updated br = parseTime (rb_updated r)" by (auto simp: refs)
  from r have row: "r \<in> set (tb_blocks ?tb)" "rb_refs r = 0" "rb_updated r \<le> formatTime before"
    by (auto simp: unreferenced_rows_def dest: in_set_takeD)
  have "schema_ok ?tb" using sok by (simp add: shard_ok_def)
  then have "find (\<lambda>b. rb_hash b = rb_hash r) (tb_blocks ?tb) = Some r"
    using row(1) by (intro find_distinct) (simp_all add: schema_ok_def blocks_valid_def)
  then have "block_refs ?tb (rb_hash r) = 0" by (simp add: block_refs_def row(2))
  with sok have zero: "row_count (tb_chunks ?tb) (br_hash br) = 0" by (simp add: shard_ok_def refs_exact_def eq)
  have unused: "br_hash br \<notin> cr_hash ` set cs" if v: "served s (tenant_shard sha t) bk = Some (n, etag, hs, cs)"
  proof
    assume c: "br_hash br \<in> cr_hash ` set cs"
    from v obtain i where "cs = chunks_of ?tb i"
      by (auto simp: served_def tenant_tables_def object_view_def row_view_def)
    with c chunks_of_hashes [of ?tb i] have "br_hash br \<in> rc_hash ` set (tb_chunks ?tb)" by blast
    then obtain x where "br_hash br = rc_hash x" "x \<in> set (tb_chunks ?tb)" by (rule imageE)
    with row_count_pos [of x "tb_chunks ?tb"] zero show False by simp
  qed
  from times row(1) obtain u where u: "0 < u" "u \<le> max_int64" "rb_updated r = formatTime u"
    by (auto simp: list_all_iff list_ex_iff)
  with formatTime_order [OF u(1,2) before] row(3) have "br_updated br div 1000000000 \<le> before div 1000000000"
    by (simp add: eq)
  with \<open>int (length refs) \<le> ?limit\<close> zero unused show ?thesis by blast
qed

theorem sqlite_lists_garbage_witness:
  "\<exists>s'. sqListUnreferencedBlocksOlderThan (\<lambda>_. []) env0 ''t'' 1 10 sqlite2
       = (Inr [\<lparr>br_hash = ''a'', br_size = 3, br_updated = 1\<rparr>], s')
    \<and> row_count (tb_chunks (tenant_tables (\<lambda>_. []) sqlite2 ''t'')) ''a'' = 0"
proof -
  have tb: "tenant_tables (\<lambda>_. []) sqlite2 ''t'' = shard_a StateDeleted [0] []" using tables2 by blast
  then have sok: "shard_ok (shard_a StateDeleted [0] [])" using tables2 by (metis sqlite_ok_def tenant_tables_def)
  have one: "parseTime (formatTime 1) = 1" by (rule parseTime_formatTime) (simp_all add: max_int64_def)
  have "\<exists>s'. sqListUnreferencedBlocksOlderThan (\<lambda>_. []) env0 ''t'' 1 10 sqlite2
      = (Inr [\<lparr>br_hash = ''a'', br_size = 3, br_updated = 1\<rparr>], s') \<and> sq_closed s' = [] \<and> sqlite_ok s'
      \<and> tenant_tables (\<lambda>_. []) s' ''t'' = shard_a StateDeleted [0] []"
    unfolding sqListUnreferencedBlocksOlderThan_def
    by (rule on_shard_eq [OF _ quiet_env0 _ _ sok])
      (simp_all add: tables2 tb query_rows_def unreferenced_rows_def shard_a_def one)
  then obtain s' where s': "sqListUnreferencedBlocksOlderThan (\<lambda>_. []) env0 ''t'' 1 10 sqlite2
      = (Inr [\<lparr>br_hash = ''a'', br_size = 3, br_updated = 1\<rparr>], s')" by blast
  from sqlite_lists_garbage [OF sqlite0_new sqlite2_steps s', of "\<lparr>br_hash = ''a'', br_size = 3, br_updated = 1\<rparr>" "[1]"] s'
  show ?thesis by (auto simp: tb shard_a_def max_int64_def)
qed
section \<open>Migrations\<close>

text \<open>Runs of the migrations one after another, each with its own failures.\<close>

definition attempts :: "env list \<Rightarrow> 'd sql_file \<Rightarrow> 'd sql_file" where
  "attempts es f = foldl (\<lambda>f e. snd (runMigrations e f)) f es"

lemma attempts_ok: "file_ok f \<Longrightarrow> file_ok (attempts es f) \<and> sf_tables (attempts es f) = sf_tables f"
  unfolding attempts_def
proof (induction es arbitrary: f)
  case (Cons e es)
  from runMigrations_spec [OF Cons.prems prod.collapse [symmetric], of e] Cons.IH [of "snd (runMigrations e f)"]
  show ?case by simp
qed simp

lemma runMigrations_again:
  assumes "sf_versions f = Some [(1, ''structured metadata schema'')]"
  shows "snd (runMigrations e f) = f"
proof -
  have c: "g = f" if "exec_stmt e i m create_versions f = Inr g" for i m g
    using exec_stmt_Inr [OF that] assms by (simp add: create_versions_def)
  then show ?thesis using assms
    by (auto simp: runMigrations_def appliedMigrations_def sqliteMigrations_def dest!: c query_rows_Inr
      split: option.splits sum.splits)
qed



end
