(* ===== verification/Config.thy ===== *)
theory Config
  imports Chunker S3Auth
begin

text \<open>
  \<open>src/internal/config/config.go\<close>: the configuration, read from environment variables and
  checked before anything is opened. \<open>getenv\<close> is \<open>os.Getenv\<close>, which gives the empty text for a
  variable that is not set; \<open>ncpu\<close> is \<open>runtime.NumCPU()\<close>. The struct is built up in groups of
  fields, in the source's order.
\<close>

section \<open>Defaults and the struct\<close>

definition defaultDataDir :: string where "defaultDataDir = ''data''"
definition defaultListen :: string where "defaultListen = '':8080''"
definition defaultLocalCap :: int where "defaultLocalCap = 20 * 1024 * 1024 * 1024"
definition defaultSmallBypass :: int where "defaultSmallBypass = 5 * 1024 * 1024"
definition defaultChunkMin :: int where "defaultChunkMin = 512 * 1024"
definition defaultChunkAvg :: int where "defaultChunkAvg = 1024 * 1024"
definition defaultChunkMax :: int where "defaultChunkMax = 4 * 1024 * 1024"
definition defaultChunkWorkers :: int where "defaultChunkWorkers = 0"
definition defaultCPUHeadroom :: int where "defaultCPUHeadroom = 1"
definition defaultChunkEngine :: string where "defaultChunkEngine = ''fastcdc''"
definition defaultMetadata :: string where "defaultMetadata = ''sqlite''"
definition defaultPartMax :: int where "defaultPartMax = 5 * 1024 * 1024 * 1024"
definition defaultStaleTTL :: int where "defaultStaleTTL = 24 * 3600 * 1000000000"
definition defaultBackend :: string where "defaultBackend = ''filesystem''"
definition defaultScratchFree :: int where "defaultScratchFree = 1024 * 1024 * 1024"
definition defaultCompleteXML :: int where "defaultCompleteXML = 1024 * 1024"
definition defaultAuthAnon :: bool where "defaultAuthAnon = False"
definition defaultAzureAuth :: string where "defaultAzureAuth = ''auto''"
definition defaultAzureTimeout :: int where "defaultAzureTimeout = 30 * 1000000000"
definition defaultAzureRetries :: int where "defaultAzureRetries = 3"
definition defaultGCSAuth :: string where "defaultGCSAuth = ''auto''"
definition defaultGCSTimeout :: int where "defaultGCSTimeout = 30 * 1000000000"
definition defaultGCSRetries :: int where "defaultGCSRetries = 3"
definition defaultSwiftAuth :: string where "defaultSwiftAuth = ''auto''"
definition defaultSwiftTimeout :: int where "defaultSwiftTimeout = 30 * 1000000000"
definition defaultSwiftRetries :: int where "defaultSwiftRetries = 3"
definition defaultS3Provider :: string where "defaultS3Provider = ''generic''"
definition defaultS3Region :: string where "defaultS3Region = ''us-east-1''"
definition defaultS3UseTLS :: bool where "defaultS3UseTLS = True"
definition defaultS3PathStyle :: bool where "defaultS3PathStyle = True"
definition defaultS3Timeout :: int where "defaultS3Timeout = 30 * 1000000000"
definition defaultS3Retries :: int where "defaultS3Retries = 3"
definition defaultGCEnabled :: bool where "defaultGCEnabled = True"
definition defaultGCInterval :: int where "defaultGCInterval = 3600 * 1000000000"
definition defaultGCMinAge :: int where "defaultGCMinAge = 24 * 3600 * 1000000000"
definition defaultGCBatchSize :: int where "defaultGCBatchSize = 1000"
definition defaultGCRetries :: int where "defaultGCRetries = 3"
definition defaultPGMaxOpen :: int where "defaultPGMaxOpen = 16"
definition defaultPGMaxIdle :: int where "defaultPGMaxIdle = 4"
definition defaultPGLifetime :: int where "defaultPGLifetime = 30 * 60 * 1000000000"
definition defaultReadyTimeout :: int where "defaultReadyTimeout = 3 * 1000000000"
definition defaultShutdown :: int where "defaultShutdown = 15 * 1000000000"
definition defaultCORSMaxAge :: int where "defaultCORSMaxAge = 3600"

record core_config =
  cf_ListenAddr :: string
  cf_DataDir :: string
  cf_MetadataProvider :: string
  cf_MetadataDir :: string
  cf_BackendDir :: string
  cf_ScratchDir :: string
  cf_BackendProvider :: string
  cf_LocalBlockEncryptionKey :: string
  cf_LocalCapacityBytes :: int
  cf_MaxConcurrentChunkers :: int
  cf_CPUHeadroomCores :: int
  cf_SmallFileThresholdBytes :: int
  cf_ChunkMinBytes :: int
  cf_ChunkAvgBytes :: int
  cf_ChunkMaxBytes :: int
  cf_ChunkEngine :: string
  cf_MultipartMaxPartBytes :: int
  cf_MultipartMaxUploadBytes :: int
  cf_MultipartStaleTTL :: int
  cf_ScratchMinFreeBytes :: int
  cf_MaxObjectBytes :: int
  cf_CompleteXMLMaxBytes :: int

record s3_config = core_config +
  cf_S3Endpoint :: string
  cf_S3Provider :: string
  cf_S3Region :: string
  cf_S3Bucket :: string
  cf_S3AccessKey :: string
  cf_S3SecretKey :: string
  cf_S3SessionToken :: string
  cf_S3Prefix :: string
  cf_S3UseTLS :: bool
  cf_S3PathStyle :: bool
  cf_S3Timeout :: int
  cf_S3MaxRetries :: int

record azure_config = s3_config +
  cf_AzureAccountName :: string
  cf_AzureAccountKey :: string
  cf_AzureEndpoint :: string
  cf_AzureContainer :: string
  cf_AzurePrefix :: string
  cf_AzureAuth :: string
  cf_AzureTimeout :: int
  cf_AzureMaxRetries :: int

record gcs_config = azure_config +
  cf_GCSProjectID :: string
  cf_GCSBucket :: string
  cf_GCSEndpoint :: string
  cf_GCSPrefix :: string
  cf_GCSCredentialsFile :: string
  cf_GCSCredentialsJSON :: string
  cf_GCSAuth :: string
  cf_GCSTimeout :: int
  cf_GCSMaxRetries :: int

record swift_config = gcs_config +
  cf_SwiftAuthURL :: string
  cf_SwiftUsername :: string
  cf_SwiftUserID :: string
  cf_SwiftPassword :: string
  cf_SwiftApplicationCredID :: string
  cf_SwiftApplicationCredName :: string
  cf_SwiftApplicationCredSecret :: string
  cf_SwiftProjectID :: string
  cf_SwiftProjectName :: string
  cf_SwiftDomainID :: string
  cf_SwiftDomainName :: string
  cf_SwiftRegion :: string
  cf_SwiftContainer :: string
  cf_SwiftEndpoint :: string
  cf_SwiftPrefix :: string
  cf_SwiftAuth :: string
  cf_SwiftInsecureSkipVerify :: bool
  cf_SwiftTimeout :: int
  cf_SwiftMaxRetries :: int

record config = swift_config +
  cf_GCEnabled :: bool
  cf_GCInterval :: int
  cf_GCMinOrphanAge :: int
  cf_GCBatchSize :: int
  cf_GCMaxRetries :: int
  cf_PostgresDSN :: string
  cf_PostgresMaxOpenConns :: int
  cf_PostgresMaxIdleConns :: int
  cf_PostgresConnMaxLifetime :: int
  cf_ReadinessTimeout :: int
  cf_ShutdownTimeout :: int
  cf_DebugPprofEnabled :: bool
  cf_VirtualHosts :: "string list"
  cf_CORSAllowedOrigins :: "string list"
  cf_CORSAllowedMethods :: "string list"
  cf_CORSAllowedHeaders :: "string list"
  cf_CORSExposedHeaders :: "string list"
  cf_CORSAllowCredentials :: bool
  cf_CORSMaxAgeSeconds :: int
  cf_AuthAllowAnonymous :: bool
  cf_AuthCredentials :: "credential list"

section \<open>Reading variables\<close>

definition envString :: "(string \<Rightarrow> string) \<Rightarrow> string \<Rightarrow> string \<Rightarrow> string" where
  "envString getenv k fallback = (if getenv k \<noteq> [] then getenv k else fallback)"

definition envInt :: "(string \<Rightarrow> string) \<Rightarrow> string \<Rightarrow> int \<Rightarrow> int" where
  "envInt getenv k fallback =
     (if getenv k = [] then fallback else case parse_int64 (getenv k) of None \<Rightarrow> fallback | Some n \<Rightarrow> n)"

definition envInt64 :: "(string \<Rightarrow> string) \<Rightarrow> string \<Rightarrow> int \<Rightarrow> int" where
  "envInt64 getenv k fallback =
     (if getenv k = [] then fallback else case parse_int64 (getenv k) of None \<Rightarrow> fallback | Some n \<Rightarrow> n)"

text \<open>\<open>strconv.ParseBool\<close>.\<close>

definition parse_bool :: "string \<Rightarrow> bool option" where
  "parse_bool s =
     (if s \<in> {''1'', ''t'', ''T'', ''TRUE'', ''true'', ''True''} then Some True
      else if s \<in> {''0'', ''f'', ''F'', ''FALSE'', ''false'', ''False''} then Some False else None)"

definition envBool :: "(string \<Rightarrow> string) \<Rightarrow> string \<Rightarrow> bool \<Rightarrow> bool" where
  "envBool getenv k fallback =
     (let value = trim_space (getenv k) in
      if value = [] then fallback else case parse_bool value of None \<Rightarrow> fallback | Some b \<Rightarrow> b)"

fun dedupLoop :: "string list \<Rightarrow> string list \<Rightarrow> string list" where
  "dedupLoop [] out = out"
| "dedupLoop (f # fs) out =
     (let field = trim_space f in
      dedupLoop fs (if field = [] \<or> field \<in> set out then out else out @ [field]))"

definition envList :: "(string \<Rightarrow> string) \<Rightarrow> string \<Rightarrow> string list" where
  "envList getenv k =
     (if getenv k = [] then []
      else dedupLoop (fields_func (\<lambda>r. r \<in> {44, 32, 9, 10, 13}) (getenv k)) [])"

text \<open>The product is taken in 64-bit arithmetic.\<close>

definition envDurationSeconds :: "(string \<Rightarrow> string) \<Rightarrow> string \<Rightarrow> int \<Rightarrow> int" where
  "envDurationSeconds getenv k fallback =
     (if getenv k = [] then fallback
      else case parse_int64 (getenv k) of None \<Rightarrow> fallback | Some n \<Rightarrow> wrap64 (n * 1000000000))"

text \<open>\<open>strings.SplitN\<close> at a one-byte separator.\<close>

fun split_n :: "nat \<Rightarrow> char \<Rightarrow> string \<Rightarrow> string list" where
  "split_n 0 d s = []"
| "split_n (Suc 0) d s = [s]"
| "split_n (Suc (Suc n)) d s =
     (case cut_at d s of (before, after, found) \<Rightarrow> if found then before # split_n (Suc n) d after else [s])"

definition parseCredential :: "string \<Rightarrow> credential" where
  "parseCredential entry =
     (let parts = split_n 3 (CHR '':'') entry;
          access = trim_space (hd parts);
          secret = (if 1 < length parts then trim_space (parts ! 1) else []);
          tenant = (if 2 < length parts then trim_space (parts ! 2) else [])
      in \<lparr>cd_AccessKey = access, cd_SecretKey = secret, cd_Tenant = (if tenant = [] then access else tenant)\<rparr>)"

fun credentialsLoop :: "string list \<Rightarrow> credential list \<Rightarrow> credential list" where
  "credentialsLoop [] cs = cs"
| "credentialsLoop (e # es) cs =
     (let entry = trim_space e in credentialsLoop es (if entry = [] then cs else cs @ [parseCredential entry]))"

definition credentialsFromEnv :: "(string \<Rightarrow> string) \<Rightarrow> credential list" where
  "credentialsFromEnv getenv =
     (let accessKey = getenv ''CHUNKGATE_ACCESS_KEY_ID'';
          credentials = (if accessKey \<noteq> []
            then [\<lparr>cd_AccessKey = accessKey, cd_SecretKey = getenv ''CHUNKGATE_SECRET_ACCESS_KEY'',
                   cd_Tenant = envString getenv ''CHUNKGATE_TENANT_ID'' accessKey\<rparr>]
            else []);
          spec = getenv ''CHUNKGATE_CREDENTIALS''
      in if spec = [] then credentials else credentialsLoop (split_at (CHR '','') spec) credentials)"

text \<open>\<open>filepath.Join\<close> of two elements on Unix: the lexically shortest path.\<close>

fun clean_comps :: "bool \<Rightarrow> string list \<Rightarrow> string list \<Rightarrow> string list" where
  "clean_comps rooted [] acc = rev acc"
| "clean_comps rooted (c # cs) acc =
     (if c = [] \<or> c = ''.'' then clean_comps rooted cs acc
      else if c = ''..'' then
        (case acc of
           [] \<Rightarrow> clean_comps rooted cs (if rooted then [] else [c])
         | a # rest \<Rightarrow> clean_comps rooted cs (if a = ''..'' then c # acc else rest))
      else clean_comps rooted cs (c # acc))"

definition path_Clean :: "string \<Rightarrow> string" where
  "path_Clean p =
     (let rooted = has_prefix p ''/'';
          comps = clean_comps rooted (split_at (CHR ''/'') p) []
      in if rooted then ''/'' @ join_with ''/'' comps else if comps = [] then ''.'' else join_with ''/'' comps)"

definition path_Join :: "string \<Rightarrow> string \<Rightarrow> string" where
  "path_Join d n = (if d = [] \<and> n = [] then [] else if d = [] then path_Clean n
     else if n = [] then path_Clean d else path_Clean (d @ ''/'' @ n))"

definition FromEnv :: "(string \<Rightarrow> string) \<Rightarrow> config" where
  "FromEnv getenv =
     (let dataDir = envString getenv ''CHUNKGATE_DATA_DIR'' defaultDataDir in
      \<lparr>cf_ListenAddr = envString getenv ''CHUNKGATE_LISTEN'' defaultListen,
        cf_DataDir = dataDir,
        cf_MetadataProvider = envString getenv ''CHUNKGATE_METADATA'' defaultMetadata,
        cf_MetadataDir = envString getenv ''CHUNKGATE_METADATA_DIR'' (path_Join dataDir ''metadata''),
        cf_BackendDir = envString getenv ''CHUNKGATE_BACKEND_DIR'' (path_Join dataDir ''backend''),
        cf_ScratchDir = envString getenv ''CHUNKGATE_SCRATCH_DIR'' (path_Join dataDir ''scratch''),
        cf_BackendProvider = envString getenv ''CHUNKGATE_BACKEND'' defaultBackend,
        cf_LocalBlockEncryptionKey = envString getenv ''CHUNKGATE_LOCAL_BLOCK_ENCRYPTION_KEY'' [],
        cf_LocalCapacityBytes = envInt64 getenv ''CHUNKGATE_LOCAL_CAPACITY_BYTES'' defaultLocalCap,
        cf_MaxConcurrentChunkers = envInt getenv ''CHUNKGATE_MAX_CONCURRENT_CHUNKERS'' defaultChunkWorkers,
        cf_CPUHeadroomCores = envInt getenv ''CHUNKGATE_CPU_HEADROOM_CORES'' defaultCPUHeadroom,
        cf_SmallFileThresholdBytes = envInt getenv ''CHUNKGATE_SMALL_FILE_THRESHOLD_BYTES'' defaultSmallBypass,
        cf_ChunkMinBytes = envInt getenv ''CHUNKGATE_CHUNK_MIN_BYTES'' defaultChunkMin,
        cf_ChunkAvgBytes = envInt getenv ''CHUNKGATE_CHUNK_AVG_BYTES'' defaultChunkAvg,
        cf_ChunkMaxBytes = envInt getenv ''CHUNKGATE_CHUNK_MAX_BYTES'' defaultChunkMax,
        cf_ChunkEngine = envString getenv ''CHUNKGATE_CHUNK_ENGINE'' defaultChunkEngine,
        cf_MultipartMaxPartBytes = envInt64 getenv ''CHUNKGATE_MULTIPART_MAX_PART_BYTES'' defaultPartMax,
        cf_MultipartMaxUploadBytes = envInt64 getenv ''CHUNKGATE_MULTIPART_MAX_UPLOAD_BYTES'' defaultLocalCap,
        cf_MultipartStaleTTL = envDurationSeconds getenv ''CHUNKGATE_MULTIPART_STALE_TTL_SECONDS'' defaultStaleTTL,
        cf_ScratchMinFreeBytes = envInt64 getenv ''CHUNKGATE_SCRATCH_MIN_FREE_BYTES'' defaultScratchFree,
        cf_MaxObjectBytes = envInt64 getenv ''CHUNKGATE_MAX_OBJECT_BYTES'' 0,
        cf_CompleteXMLMaxBytes = envInt64 getenv ''CHUNKGATE_COMPLETE_XML_MAX_BYTES'' defaultCompleteXML,
        cf_S3Endpoint = envString getenv ''CHUNKGATE_S3_ENDPOINT'' [],
        cf_S3Provider = envString getenv ''CHUNKGATE_S3_PROVIDER'' defaultS3Provider,
        cf_S3Region = envString getenv ''CHUNKGATE_S3_REGION'' defaultS3Region,
        cf_S3Bucket = envString getenv ''CHUNKGATE_S3_BUCKET'' [],
        cf_S3AccessKey = envString getenv ''CHUNKGATE_S3_ACCESS_KEY_ID'' (getenv ''AWS_ACCESS_KEY_ID''),
        cf_S3SecretKey = envString getenv ''CHUNKGATE_S3_SECRET_ACCESS_KEY'' (getenv ''AWS_SECRET_ACCESS_KEY''),
        cf_S3SessionToken = envString getenv ''CHUNKGATE_S3_SESSION_TOKEN'' (getenv ''AWS_SESSION_TOKEN''),
        cf_S3Prefix = envString getenv ''CHUNKGATE_S3_PREFIX'' [],
        cf_S3UseTLS = envBool getenv ''CHUNKGATE_S3_USE_TLS'' defaultS3UseTLS,
        cf_S3PathStyle = envBool getenv ''CHUNKGATE_S3_PATH_STYLE'' defaultS3PathStyle,
        cf_S3Timeout = envDurationSeconds getenv ''CHUNKGATE_S3_TIMEOUT_SECONDS'' defaultS3Timeout,
        cf_S3MaxRetries = envInt getenv ''CHUNKGATE_S3_MAX_RETRIES'' defaultS3Retries,
        cf_AzureAccountName = envString getenv ''CHUNKGATE_AZURE_ACCOUNT_NAME'' (getenv ''AZURE_STORAGE_ACCOUNT''),
        cf_AzureAccountKey = envString getenv ''CHUNKGATE_AZURE_ACCOUNT_KEY'' (getenv ''AZURE_STORAGE_KEY''),
        cf_AzureEndpoint = envString getenv ''CHUNKGATE_AZURE_ENDPOINT'' [],
        cf_AzureContainer = envString getenv ''CHUNKGATE_AZURE_CONTAINER'' [],
        cf_AzurePrefix = envString getenv ''CHUNKGATE_AZURE_PREFIX'' [],
        cf_AzureAuth = envString getenv ''CHUNKGATE_AZURE_AUTH'' defaultAzureAuth,
        cf_AzureTimeout = envDurationSeconds getenv ''CHUNKGATE_AZURE_TIMEOUT_SECONDS'' defaultAzureTimeout,
        cf_AzureMaxRetries = envInt getenv ''CHUNKGATE_AZURE_MAX_RETRIES'' defaultAzureRetries,
        cf_GCSProjectID = envString getenv ''CHUNKGATE_GCS_PROJECT_ID'' (getenv ''GOOGLE_CLOUD_PROJECT''),
        cf_GCSBucket = envString getenv ''CHUNKGATE_GCS_BUCKET'' [],
        cf_GCSEndpoint = envString getenv ''CHUNKGATE_GCS_ENDPOINT'' (getenv ''STORAGE_EMULATOR_HOST''),
        cf_GCSPrefix = envString getenv ''CHUNKGATE_GCS_PREFIX'' [],
        cf_GCSCredentialsFile = envString getenv ''CHUNKGATE_GCS_CREDENTIALS_FILE'' (getenv ''GOOGLE_APPLICATION_CREDENTIALS''),
        cf_GCSCredentialsJSON = envString getenv ''CHUNKGATE_GCS_CREDENTIALS_JSON'' [],
        cf_GCSAuth = envString getenv ''CHUNKGATE_GCS_AUTH'' defaultGCSAuth,
        cf_GCSTimeout = envDurationSeconds getenv ''CHUNKGATE_GCS_TIMEOUT_SECONDS'' defaultGCSTimeout,
        cf_GCSMaxRetries = envInt getenv ''CHUNKGATE_GCS_MAX_RETRIES'' defaultGCSRetries,
        cf_SwiftAuthURL = envString getenv ''CHUNKGATE_SWIFT_AUTH_URL'' (getenv ''OS_AUTH_URL''),
        cf_SwiftUsername = envString getenv ''CHUNKGATE_SWIFT_USERNAME'' (getenv ''OS_USERNAME''),
        cf_SwiftUserID = envString getenv ''CHUNKGATE_SWIFT_USER_ID'' (getenv ''OS_USER_ID''),
        cf_SwiftPassword = envString getenv ''CHUNKGATE_SWIFT_PASSWORD'' (getenv ''OS_PASSWORD''),
        cf_SwiftApplicationCredID = envString getenv ''CHUNKGATE_SWIFT_APPLICATION_CREDENTIAL_ID'' (getenv ''OS_APPLICATION_CREDENTIAL_ID''),
        cf_SwiftApplicationCredName = envString getenv ''CHUNKGATE_SWIFT_APPLICATION_CREDENTIAL_NAME'' (getenv ''OS_APPLICATION_CREDENTIAL_NAME''),
        cf_SwiftApplicationCredSecret = envString getenv ''CHUNKGATE_SWIFT_APPLICATION_CREDENTIAL_SECRET'' (getenv ''OS_APPLICATION_CREDENTIAL_SECRET''),
        cf_SwiftProjectID = envString getenv ''CHUNKGATE_SWIFT_PROJECT_ID'' (getenv ''OS_PROJECT_ID''),
        cf_SwiftProjectName = envString getenv ''CHUNKGATE_SWIFT_PROJECT_NAME'' (getenv ''OS_PROJECT_NAME''),
        cf_SwiftDomainID = envString getenv ''CHUNKGATE_SWIFT_DOMAIN_ID'' (getenv ''OS_USER_DOMAIN_ID''),
        cf_SwiftDomainName = envString getenv ''CHUNKGATE_SWIFT_DOMAIN_NAME'' (getenv ''OS_USER_DOMAIN_NAME''),
        cf_SwiftRegion = envString getenv ''CHUNKGATE_SWIFT_REGION'' (getenv ''OS_REGION_NAME''),
        cf_SwiftContainer = envString getenv ''CHUNKGATE_SWIFT_CONTAINER'' [],
        cf_SwiftEndpoint = envString getenv ''CHUNKGATE_SWIFT_ENDPOINT'' [],
        cf_SwiftPrefix = envString getenv ''CHUNKGATE_SWIFT_PREFIX'' [],
        cf_SwiftAuth = envString getenv ''CHUNKGATE_SWIFT_AUTH'' defaultSwiftAuth,
        cf_SwiftInsecureSkipVerify = envBool getenv ''CHUNKGATE_SWIFT_INSECURE_SKIP_VERIFY'' False,
        cf_SwiftTimeout = envDurationSeconds getenv ''CHUNKGATE_SWIFT_TIMEOUT_SECONDS'' defaultSwiftTimeout,
        cf_SwiftMaxRetries = envInt getenv ''CHUNKGATE_SWIFT_MAX_RETRIES'' defaultSwiftRetries,
        cf_GCEnabled = envBool getenv ''CHUNKGATE_GC_ENABLED'' defaultGCEnabled,
        cf_GCInterval = envDurationSeconds getenv ''CHUNKGATE_GC_INTERVAL_SECONDS'' defaultGCInterval,
        cf_GCMinOrphanAge = envDurationSeconds getenv ''CHUNKGATE_GC_MIN_ORPHAN_AGE_SECONDS'' defaultGCMinAge,
        cf_GCBatchSize = envInt getenv ''CHUNKGATE_GC_BATCH_SIZE'' defaultGCBatchSize,
        cf_GCMaxRetries = envInt getenv ''CHUNKGATE_GC_MAX_RETRIES'' defaultGCRetries,
        cf_PostgresDSN = envString getenv ''CHUNKGATE_POSTGRES_DSN'' [],
        cf_PostgresMaxOpenConns = envInt getenv ''CHUNKGATE_POSTGRES_MAX_OPEN_CONNS'' defaultPGMaxOpen,
        cf_PostgresMaxIdleConns = envInt getenv ''CHUNKGATE_POSTGRES_MAX_IDLE_CONNS'' defaultPGMaxIdle,
        cf_PostgresConnMaxLifetime = envDurationSeconds getenv ''CHUNKGATE_POSTGRES_CONN_MAX_LIFETIME_SECONDS'' defaultPGLifetime,
        cf_ReadinessTimeout = envDurationSeconds getenv ''CHUNKGATE_READINESS_TIMEOUT_SECONDS'' defaultReadyTimeout,
        cf_ShutdownTimeout = envDurationSeconds getenv ''CHUNKGATE_SHUTDOWN_TIMEOUT_SECONDS'' defaultShutdown,
        cf_DebugPprofEnabled = envBool getenv ''CHUNKGATE_DEBUG_PPROF_ENABLED'' False,
        cf_VirtualHosts = envList getenv ''CHUNKGATE_VIRTUAL_HOSTS'',
        cf_CORSAllowedOrigins = envList getenv ''CHUNKGATE_CORS_ALLOWED_ORIGINS'',
        cf_CORSAllowedMethods = envList getenv ''CHUNKGATE_CORS_ALLOWED_METHODS'',
        cf_CORSAllowedHeaders = envList getenv ''CHUNKGATE_CORS_ALLOWED_HEADERS'',
        cf_CORSExposedHeaders = envList getenv ''CHUNKGATE_CORS_EXPOSED_HEADERS'',
        cf_CORSAllowCredentials = envBool getenv ''CHUNKGATE_CORS_ALLOW_CREDENTIALS'' False,
        cf_CORSMaxAgeSeconds = envInt getenv ''CHUNKGATE_CORS_MAX_AGE_SECONDS'' defaultCORSMaxAge,
        cf_AuthAllowAnonymous = envBool getenv ''CHUNKGATE_ALLOW_ANONYMOUS'' defaultAuthAnon,
        cf_AuthCredentials = credentialsFromEnv getenv\<rparr>)"

section \<open>The encryption key\<close>

text \<open>\<open>base64.RawStdEncoding\<close> takes no padding.\<close>

fun base64_raw_groups :: "string \<Rightarrow> bytes option" where
  "base64_raw_groups [] = Some []"
| "base64_raw_groups [p] = None"
| "base64_raw_groups [p, q] =
     (case (base64_value p, base64_value q) of (Some x, Some y) \<Rightarrow> Some [of_nat (x * 4 + y div 16)] | _ \<Rightarrow> None)"
| "base64_raw_groups [p, q, r] =
     (case (base64_value p, base64_value q, base64_value r) of
        (Some x, Some y, Some z) \<Rightarrow> Some [of_nat (x * 4 + y div 16), of_nat (y mod 16 * 16 + z div 4)]
      | _ \<Rightarrow> None)"
| "base64_raw_groups (p # q # r # s # cs) =
     (case (base64_value p, base64_value q, base64_value r, base64_value s) of
        (Some x, Some y, Some z, Some w) \<Rightarrow>
          map_option (\<lambda>bs. of_nat (x * 4 + y div 16) # of_nat (y mod 16 * 16 + z div 4) # of_nat (z mod 4 * 64 + w) # bs)
            (base64_raw_groups cs)
      | _ \<Rightarrow> None)"

definition base64_raw_decode :: "string \<Rightarrow> bytes option" where
  "base64_raw_decode s = base64_raw_groups (filter (\<lambda>c. char_code c \<noteq> 10 \<and> char_code c \<noteq> 13) s)"

definition opt_list :: "'a option \<Rightarrow> 'a list" where
  "opt_list x = (case x of None \<Rightarrow> [] | Some y \<Rightarrow> [y])"

text \<open>The result is nil for an empty key, else the first candidate of an AES key length.\<close>

definition DecodeLocalBlockEncryptionKey :: "string \<Rightarrow> err + bytes option" where
  "DecodeLocalBlockEncryptionKey v =
     (let value = trim_space v;
          candidates = [to_bytes value] @ opt_list (base64_decode value) @ opt_list (base64_raw_decode value)
            @ opt_list (hex_decode value)
      in if value = [] then Inr None
         else case find (\<lambda>k. length k \<in> {16, 24, 32}) candidates of
                Some k \<Rightarrow> Inr (Some k)
              | None \<Rightarrow> Inl (ErrNew ''CHUNKGATE_LOCAL_BLOCK_ENCRYPTION_KEY must decode to a 16, 24, or 32 byte AES key''))"

section \<open>Validation\<close>

definition validS3Provider :: "string \<Rightarrow> bool" where
  "validS3Provider provider \<longleftrightarrow> to_lower (trim_space provider) \<in>
     {[], ''generic'', ''aws'', ''aws-s3'', ''minio'', ''r2'', ''cloudflare-r2'', ''supabase'', ''b2'', ''backblaze-b2''}"

definition validAzureAuth :: "string \<Rightarrow> bool" where
  "validAzureAuth auth \<longleftrightarrow> to_lower (trim_space auth) \<in> {[], ''auto'', ''shared-key'', ''default''}"

definition validGCSAuth :: "string \<Rightarrow> bool" where
  "validGCSAuth auth \<longleftrightarrow> to_lower (trim_space auth) \<in> {[], ''auto'', ''service-account'', ''default'', ''emulator''}"

definition validSwiftAuth :: "string \<Rightarrow> bool" where
  "validSwiftAuth auth \<longleftrightarrow> to_lower (trim_space auth) \<in> {[], ''auto'', ''password'', ''application-credential''}"

text \<open>A sequence of \<open>if ... { return err }\<close>.\<close>

fun first_error :: "(bool \<times> err) list \<Rightarrow> err option" where
  "first_error [] = None"
| "first_error ((bad, x) # cs) = (if bad then Some x else first_error cs)"

definition backendChecks :: "config \<Rightarrow> (bool \<times> err) list" where
  "backendChecks c =
     (if cf_BackendProvider c = ''filesystem'' then
       [(cf_BackendDir c = [],
           ErrNew ''CHUNKGATE_BACKEND_DIR must be set when CHUNKGATE_BACKEND=filesystem'')]
      else if cf_BackendProvider c = ''s3'' then
       [(cf_S3Endpoint c = [],
           ErrNew ''CHUNKGATE_S3_ENDPOINT is required when CHUNKGATE_BACKEND=s3''),
        (cf_S3Bucket c = [],
           ErrNew ''CHUNKGATE_S3_BUCKET is required when CHUNKGATE_BACKEND=s3'')]
      else if cf_BackendProvider c = ''azure'' then
       [(cf_AzureContainer c = [],
           ErrNew ''CHUNKGATE_AZURE_CONTAINER is required when CHUNKGATE_BACKEND=azure''),
        (cf_AzureEndpoint c = [] \<and> cf_AzureAccountName c = [],
           ErrNew ''CHUNKGATE_AZURE_ENDPOINT or CHUNKGATE_AZURE_ACCOUNT_NAME is required when CHUNKGATE_BACKEND=azure'')]
      else if cf_BackendProvider c = ''gcs'' then
       [(cf_GCSBucket c = [],
           ErrNew ''CHUNKGATE_GCS_BUCKET is required when CHUNKGATE_BACKEND=gcs'')]
      else if cf_BackendProvider c = ''swift'' then
       [(cf_SwiftContainer c = [],
           ErrNew ''CHUNKGATE_SWIFT_CONTAINER is required when CHUNKGATE_BACKEND=swift''),
        (cf_SwiftAuthURL c = [],
           ErrNew ''CHUNKGATE_SWIFT_AUTH_URL is required when CHUNKGATE_BACKEND=swift'')]
      else [(True, ErrNew ''CHUNKGATE_BACKEND must be filesystem, s3, azure, gcs, or swift'')])"

definition swiftAuthMode :: "config \<Rightarrow> string" where
  "swiftAuthMode c =
     (let swiftAuth = to_lower (trim_space (cf_SwiftAuth c)) in
      if swiftAuth = [] \<or> swiftAuth = ''auto'' then
        (if cf_SwiftApplicationCredID c \<noteq> [] \<or> cf_SwiftApplicationCredName c \<noteq> [] \<or> cf_SwiftApplicationCredSecret c \<noteq> []
         then ''application-credential'' else ''password'')
      else swiftAuth)"

definition swiftChecks :: "config \<Rightarrow> (bool \<times> err) list" where
  "swiftChecks c =
     (if cf_BackendProvider c \<noteq> ''swift'' then []
      else if swiftAuthMode c = ''password'' then
       [(cf_SwiftUsername c = [] \<and> cf_SwiftUserID c = [],
           ErrNew ''CHUNKGATE_SWIFT_USERNAME or CHUNKGATE_SWIFT_USER_ID is required for Swift password auth''),
        (cf_SwiftPassword c = [],
           ErrNew ''CHUNKGATE_SWIFT_PASSWORD is required for Swift password auth'')]
      else if swiftAuthMode c = ''application-credential'' then
       [(cf_SwiftApplicationCredID c = [] \<and> cf_SwiftApplicationCredName c = [],
           ErrNew ''CHUNKGATE_SWIFT_APPLICATION_CREDENTIAL_ID or CHUNKGATE_SWIFT_APPLICATION_CREDENTIAL_NAME is required for Swift application-credential auth''),
        (cf_SwiftApplicationCredSecret c = [],
           ErrNew ''CHUNKGATE_SWIFT_APPLICATION_CREDENTIAL_SECRET is required for Swift application-credential auth'')]
      else [])"

definition ValidateBackend :: "config \<Rightarrow> err option" where
  "ValidateBackend c =
     (case first_error (backendChecks c @ [(cf_LocalBlockEncryptionKey c \<noteq> [] \<and> cf_BackendProvider c \<noteq> ''filesystem'',
           ErrNew ''CHUNKGATE_LOCAL_BLOCK_ENCRYPTION_KEY is only supported when CHUNKGATE_BACKEND=filesystem'')]) of
        Some x \<Rightarrow> Some x
      | None \<Rightarrow>
          (case (if cf_LocalBlockEncryptionKey c \<noteq> [] then DecodeLocalBlockEncryptionKey (cf_LocalBlockEncryptionKey c) else Inr None) of
             Inl x \<Rightarrow> Some x
           | Inr _ \<Rightarrow> first_error
       ([((cf_S3AccessKey c = []) \<noteq> (cf_S3SecretKey c = []),
           ErrNew ''CHUNKGATE_S3_ACCESS_KEY_ID and CHUNKGATE_S3_SECRET_ACCESS_KEY must be set together''),
        (\<not> validS3Provider (cf_S3Provider c),
           ErrNew ''CHUNKGATE_S3_PROVIDER must be generic, aws, minio, r2, supabase, or b2''),
        (cf_S3Timeout c < 0,
           ErrNew ''CHUNKGATE_S3_TIMEOUT_SECONDS must be >= 0''),
        (cf_S3MaxRetries c < 0,
           ErrNew ''CHUNKGATE_S3_MAX_RETRIES must be >= 0''),
        (\<not> validAzureAuth (cf_AzureAuth c),
           ErrNew ''CHUNKGATE_AZURE_AUTH must be auto, shared-key, or default''),
        (equal_fold (trim_space (cf_AzureAuth c)) ''shared-key'' \<and> (cf_AzureAccountName c = [] \<or> cf_AzureAccountKey c = []),
           ErrNew ''CHUNKGATE_AZURE_ACCOUNT_NAME and CHUNKGATE_AZURE_ACCOUNT_KEY are required when CHUNKGATE_AZURE_AUTH=shared-key''),
        (cf_AzureAccountKey c \<noteq> [] \<and> cf_AzureAccountName c = [],
           ErrNew ''CHUNKGATE_AZURE_ACCOUNT_NAME is required when CHUNKGATE_AZURE_ACCOUNT_KEY is set''),
        (cf_AzureTimeout c < 0,
           ErrNew ''CHUNKGATE_AZURE_TIMEOUT_SECONDS must be >= 0''),
        (cf_AzureMaxRetries c < 0,
           ErrNew ''CHUNKGATE_AZURE_MAX_RETRIES must be >= 0''),
        (\<not> validGCSAuth (cf_GCSAuth c),
           ErrNew ''CHUNKGATE_GCS_AUTH must be auto, service-account, default, or emulator''),
        (cf_GCSCredentialsFile c \<noteq> [] \<and> cf_GCSCredentialsJSON c \<noteq> [],
           ErrNew ''CHUNKGATE_GCS_CREDENTIALS_FILE and CHUNKGATE_GCS_CREDENTIALS_JSON are mutually exclusive''),
        (equal_fold (trim_space (cf_GCSAuth c)) ''service-account'' \<and> cf_GCSCredentialsFile c = [] \<and> cf_GCSCredentialsJSON c = [],
           ErrNew ''CHUNKGATE_GCS_CREDENTIALS_FILE or CHUNKGATE_GCS_CREDENTIALS_JSON is required when CHUNKGATE_GCS_AUTH=service-account''),
        (cf_GCSTimeout c < 0,
           ErrNew ''CHUNKGATE_GCS_TIMEOUT_SECONDS must be >= 0''),
        (cf_GCSMaxRetries c < 0,
           ErrNew ''CHUNKGATE_GCS_MAX_RETRIES must be >= 0''),
        (\<not> validSwiftAuth (cf_SwiftAuth c),
           ErrNew ''CHUNKGATE_SWIFT_AUTH must be auto, password, or application-credential'')]
        @ swiftChecks c
        @ [(cf_SwiftTimeout c < 0,
           ErrNew ''CHUNKGATE_SWIFT_TIMEOUT_SECONDS must be >= 0''),
        (cf_SwiftMaxRetries c < 0,
           ErrNew ''CHUNKGATE_SWIFT_MAX_RETRIES must be >= 0'')])))"

definition Validate :: "int \<Rightarrow> config \<Rightarrow> err option" where
  "Validate ncpu c =
     (case first_error
       [(cf_ListenAddr c = [],
           ErrNew ''CHUNKGATE_LISTEN must not be empty''),
        (cf_MetadataProvider c \<noteq> ''sqlite'' \<and> cf_MetadataProvider c \<noteq> ''postgres'',
           ErrNew ''CHUNKGATE_METADATA must be sqlite or postgres''),
        (cf_MetadataProvider c = ''sqlite'' \<and> cf_MetadataDir c = [],
           ErrNew ''CHUNKGATE_METADATA_DIR must be set when CHUNKGATE_METADATA=sqlite''),
        (cf_MetadataProvider c = ''postgres'' \<and> cf_PostgresDSN c = [],
           ErrNew ''CHUNKGATE_POSTGRES_DSN is required when CHUNKGATE_METADATA=postgres''),
        (cf_ScratchDir c = [],
           ErrNew ''CHUNKGATE_SCRATCH_DIR must be set'')] of
        Some x \<Rightarrow> Some x
      | None \<Rightarrow>
          (case ValidateBackend c of
             Some x \<Rightarrow> Some x
           | None \<Rightarrow> first_error
       [(cf_LocalCapacityBytes c < 0,
           ErrNew ''CHUNKGATE_LOCAL_CAPACITY_BYTES must be >= 0''),
        (cf_MaxConcurrentChunkers c < 0,
           ErrNew ''CHUNKGATE_MAX_CONCURRENT_CHUNKERS must be >= 0''),
        (cf_CPUHeadroomCores c < 0,
           ErrNew ''CHUNKGATE_CPU_HEADROOM_CORES must be >= 0''),
        (cf_MaxConcurrentChunkers c > ncpu * 8,
           ErrNew ''CHUNKGATE_MAX_CONCURRENT_CHUNKERS is unexpectedly high''),
        (cf_ChunkMinBytes c \<le> 0 \<or> cf_ChunkAvgBytes c \<le> 0 \<or> cf_ChunkMaxBytes c \<le> 0,
           ErrNew ''chunk sizes must be positive''),
        (cf_ChunkMinBytes c > cf_ChunkAvgBytes c \<or> cf_ChunkAvgBytes c > cf_ChunkMaxBytes c,
           ErrNew ''chunk sizes must satisfy min <= avg <= max''),
        (cf_ChunkEngine c \<noteq> ''fastcdc'' \<and> cf_ChunkEngine c \<noteq> ''builtin'',
           ErrNew ''CHUNKGATE_CHUNK_ENGINE must be fastcdc or builtin''),
        (cf_ChunkEngine c = ''fastcdc'' \<and> (cf_ChunkMinBytes c \<ge> cf_ChunkAvgBytes c \<or> cf_ChunkAvgBytes c \<ge> cf_ChunkMaxBytes c),
           ErrNew ''fastcdc chunk sizes must satisfy min < avg < max''),
        (cf_SmallFileThresholdBytes c < 0,
           ErrNew ''CHUNKGATE_SMALL_FILE_THRESHOLD_BYTES must be >= 0''),
        (cf_MultipartMaxPartBytes c < 0,
           ErrNew ''CHUNKGATE_MULTIPART_MAX_PART_BYTES must be >= 0''),
        (cf_MultipartMaxUploadBytes c < 0,
           ErrNew ''CHUNKGATE_MULTIPART_MAX_UPLOAD_BYTES must be >= 0''),
        (cf_MultipartStaleTTL c < 0,
           ErrNew ''CHUNKGATE_MULTIPART_STALE_TTL_SECONDS must be >= 0''),
        (cf_ScratchMinFreeBytes c < 0,
           ErrNew ''CHUNKGATE_SCRATCH_MIN_FREE_BYTES must be >= 0''),
        (cf_MaxObjectBytes c < 0,
           ErrNew ''CHUNKGATE_MAX_OBJECT_BYTES must be >= 0''),
        (cf_CompleteXMLMaxBytes c < 0,
           ErrNew ''CHUNKGATE_COMPLETE_XML_MAX_BYTES must be >= 0''),
        (cf_GCInterval c < 0,
           ErrNew ''CHUNKGATE_GC_INTERVAL_SECONDS must be >= 0''),
        (cf_GCMinOrphanAge c < 0,
           ErrNew ''CHUNKGATE_GC_MIN_ORPHAN_AGE_SECONDS must be >= 0''),
        (cf_GCBatchSize c < 0,
           ErrNew ''CHUNKGATE_GC_BATCH_SIZE must be >= 0''),
        (cf_GCBatchSize c > 1000,
           ErrNew ''CHUNKGATE_GC_BATCH_SIZE must be <= 1000''),
        (cf_GCMaxRetries c < 0,
           ErrNew ''CHUNKGATE_GC_MAX_RETRIES must be >= 0''),
        (cf_PostgresMaxOpenConns c < 0,
           ErrNew ''CHUNKGATE_POSTGRES_MAX_OPEN_CONNS must be >= 0''),
        (cf_PostgresMaxIdleConns c < 0,
           ErrNew ''CHUNKGATE_POSTGRES_MAX_IDLE_CONNS must be >= 0''),
        (cf_PostgresMaxOpenConns c > 0 \<and> cf_PostgresMaxIdleConns c > cf_PostgresMaxOpenConns c,
           ErrNew ''CHUNKGATE_POSTGRES_MAX_IDLE_CONNS must be <= CHUNKGATE_POSTGRES_MAX_OPEN_CONNS''),
        (cf_PostgresConnMaxLifetime c < 0,
           ErrNew ''CHUNKGATE_POSTGRES_CONN_MAX_LIFETIME_SECONDS must be >= 0''),
        (cf_ReadinessTimeout c < 0,
           ErrNew ''CHUNKGATE_READINESS_TIMEOUT_SECONDS must be >= 0''),
        (cf_ShutdownTimeout c < 0,
           ErrNew ''CHUNKGATE_SHUTDOWN_TIMEOUT_SECONDS must be >= 0''),
        (cf_CORSMaxAgeSeconds c < 0,
           ErrNew ''CHUNKGATE_CORS_MAX_AGE_SECONDS must be >= 0''),
        (cf_CORSAllowCredentials c \<and> list_ex (\<lambda>origin. trim_space origin = ''*'') (cf_CORSAllowedOrigins c),
           ErrNew ''CHUNKGATE_CORS_ALLOW_CREDENTIALS cannot be true when CHUNKGATE_CORS_ALLOWED_ORIGINS contains *''),
        (\<not> cf_AuthAllowAnonymous c \<and> cf_AuthCredentials c = [],
           ErrNew ''configure CHUNKGATE_CREDENTIALS or set CHUNKGATE_ALLOW_ANONYMOUS=true for local development''),
        (list_ex (\<lambda>credential. cd_AccessKey credential = [] \<or> cd_SecretKey credential = []) (cf_AuthCredentials c),
           ErrNew ''auth credentials must include both access key and secret key'')]))"

end
