(* ===== verification/ConfigProps.thy ===== *)
theory ConfigProps
  imports Config
begin

text \<open>
  What a validated configuration guarantees to the components built from it, which defaults are
  valid, and how the encryption key is decoded.
\<close>

section \<open>Validation\<close>

lemma first_error_None: "first_error cs = None \<longleftrightarrow> list_all (\<lambda>p. \<not> fst p) cs"
  by (induction cs rule: first_error.induct) simp_all

lemma first_error_step: "first_error [] = None \<longleftrightarrow> True" "first_error ((b, x) # cs) = None \<longleftrightarrow> \<not> b \<and> first_error cs = None"
  by simp_all

lemma first_error_append: "first_error (xs @ ys) = None \<longleftrightarrow> first_error xs = None \<and> first_error ys = None"
  by (simp add: first_error_None)

lemma err_case_None: "(case r of None \<Rightarrow> q | Some x \<Rightarrow> Some x) = None \<longleftrightarrow> r = None \<and> q = None"
  by (cases r) simp_all

lemma sum_case_None: "(case r of Inl x \<Rightarrow> Some x | Inr y \<Rightarrow> q y) = None \<longleftrightarrow> (\<exists>y. r = Inr y \<and> q y = None)"
  by (cases r) simp_all

definition chunkerOptions :: "config \<Rightarrow> options" where
  "chunkerOptions c = \<lparr>MinSize = cf_ChunkMinBytes c, AvgSize = cf_ChunkAvgBytes c, MaxSize = cf_ChunkMaxBytes c,
     SmallFileThreshold = cf_SmallFileThresholdBytes c, Engine = cf_ChunkEngine c\<rparr>"

lemma pow2_total: "n \<le> 2 ^ 62 \<Longrightarrow> \<exists>p. nextPowerOfTwo n = Some p"
  using pow2Loop_power [of n 0] by (cases "n \<le> 1") (auto simp: nextPowerOfTwo_def)

lemma New_exact:
  assumes "0 < MinSize opt" "MinSize opt \<le> AvgSize opt" "AvgSize opt \<le> MaxSize opt" "0 \<le> SmallFileThreshold opt"
    "Engine opt = ''fastcdc'' \<or> Engine opt = ''builtin''" "AvgSize opt \<le> 2 ^ 62"
  obtains s where "New opt = Some s" "minSize s = MinSize opt" "avgSize s = AvgSize opt" "maxSize s = MaxSize opt"
    "smallFileThreshold s = SmallFileThreshold opt" "engine s = Engine opt"
proof -
  have "normalizeOptions opt = opt"
    using assms by (auto simp: normalizeOptions_def Let_def EngineFastCDC_def EngineBuiltin_def)
  with pow2_total [OF assms(6)] that show thesis by (auto simp: New_def)
qed

lemma decoded_length: "DecodeLocalBlockEncryptionKey v = Inr (Some k) \<Longrightarrow> length k \<in> {16, 24, 32}"
  by (auto simp: DecodeLocalBlockEncryptionKey_def Let_def find_Some_iff split: if_splits option.splits)


section \<open>Defaults\<close>

text \<open>The variables of a deployment that only names its credentials.\<close>

definition only_credentials :: "string \<Rightarrow> string \<Rightarrow> string \<Rightarrow> string" where
  "only_credentials access secret k =
     (if k = ''CHUNKGATE_ACCESS_KEY_ID'' then access
      else if k = ''CHUNKGATE_SECRET_ACCESS_KEY'' then secret else [])"

lemma only_credentials_unset:
  "k \<notin> {''CHUNKGATE_ACCESS_KEY_ID'', ''CHUNKGATE_SECRET_ACCESS_KEY''} \<Longrightarrow> only_credentials access secret k = []"
  by (simp add: only_credentials_def)

lemma unset_reads:
  assumes "getenv k = []"
  shows "envString getenv k d = d" "envInt getenv k n = n" "envInt64 getenv k n = n" "envBool getenv k b = b"
    "envList getenv k = []" "envDurationSeconds getenv k n = n"
  using assms by (simp_all add: envString_def envInt_def envInt64_def envBool_def envList_def envDurationSeconds_def)

lemma only_credentials_read:
  assumes "access \<noteq> []"
  shows "credentialsFromEnv (only_credentials access secret) = [\<lparr>cd_AccessKey = access, cd_SecretKey = secret, cd_Tenant = access\<rparr>]"
  using assms by (simp add: credentialsFromEnv_def unset_reads only_credentials_unset)
    (simp add: only_credentials_def envString_def)

text \<open>What such a deployment reads.\<close>

definition default_config :: "string \<Rightarrow> string \<Rightarrow> config" where
  "default_config access secret = \<lparr>cf_ListenAddr = defaultListen, cf_DataDir = defaultDataDir, cf_MetadataProvider = defaultMetadata,
      cf_MetadataDir = (path_Join defaultDataDir ''metadata''),
      cf_BackendDir = (path_Join defaultDataDir ''backend''), cf_ScratchDir = (path_Join defaultDataDir ''scratch''),
      cf_BackendProvider = defaultBackend, cf_LocalBlockEncryptionKey = [], cf_LocalCapacityBytes = defaultLocalCap,
      cf_MaxConcurrentChunkers = defaultChunkWorkers, cf_CPUHeadroomCores = defaultCPUHeadroom,
      cf_SmallFileThresholdBytes = defaultSmallBypass, cf_ChunkMinBytes = defaultChunkMin,
      cf_ChunkAvgBytes = defaultChunkAvg, cf_ChunkMaxBytes = defaultChunkMax, cf_ChunkEngine = defaultChunkEngine,
      cf_MultipartMaxPartBytes = defaultPartMax, cf_MultipartMaxUploadBytes = defaultLocalCap,
      cf_MultipartStaleTTL = defaultStaleTTL, cf_ScratchMinFreeBytes = defaultScratchFree, cf_MaxObjectBytes = 0,
      cf_CompleteXMLMaxBytes = defaultCompleteXML, cf_S3Endpoint = [], cf_S3Provider = defaultS3Provider,
      cf_S3Region = defaultS3Region, cf_S3Bucket = [], cf_S3AccessKey = [], cf_S3SecretKey = [],
      cf_S3SessionToken = [], cf_S3Prefix = [], cf_S3UseTLS = defaultS3UseTLS, cf_S3PathStyle = defaultS3PathStyle,
      cf_S3Timeout = defaultS3Timeout, cf_S3MaxRetries = defaultS3Retries, cf_AzureAccountName = [],
      cf_AzureAccountKey = [], cf_AzureEndpoint = [], cf_AzureContainer = [], cf_AzurePrefix = [],
      cf_AzureAuth = defaultAzureAuth, cf_AzureTimeout = defaultAzureTimeout,
      cf_AzureMaxRetries = defaultAzureRetries, cf_GCSProjectID = [], cf_GCSBucket = [], cf_GCSEndpoint = [],
      cf_GCSPrefix = [], cf_GCSCredentialsFile = [], cf_GCSCredentialsJSON = [], cf_GCSAuth = defaultGCSAuth,
      cf_GCSTimeout = defaultGCSTimeout, cf_GCSMaxRetries = defaultGCSRetries, cf_SwiftAuthURL = [],
      cf_SwiftUsername = [], cf_SwiftUserID = [], cf_SwiftPassword = [], cf_SwiftApplicationCredID = [],
      cf_SwiftApplicationCredName = [], cf_SwiftApplicationCredSecret = [], cf_SwiftProjectID = [],
      cf_SwiftProjectName = [], cf_SwiftDomainID = [], cf_SwiftDomainName = [], cf_SwiftRegion = [],
      cf_SwiftContainer = [], cf_SwiftEndpoint = [], cf_SwiftPrefix = [], cf_SwiftAuth = defaultSwiftAuth,
      cf_SwiftInsecureSkipVerify = False, cf_SwiftTimeout = defaultSwiftTimeout,
      cf_SwiftMaxRetries = defaultSwiftRetries, cf_GCEnabled = defaultGCEnabled, cf_GCInterval = defaultGCInterval,
      cf_GCMinOrphanAge = defaultGCMinAge, cf_GCBatchSize = defaultGCBatchSize, cf_GCMaxRetries = defaultGCRetries,
      cf_PostgresDSN = [], cf_PostgresMaxOpenConns = defaultPGMaxOpen, cf_PostgresMaxIdleConns = defaultPGMaxIdle,
      cf_PostgresConnMaxLifetime = defaultPGLifetime, cf_ReadinessTimeout = defaultReadyTimeout,
      cf_ShutdownTimeout = defaultShutdown, cf_DebugPprofEnabled = False, cf_VirtualHosts = [],
      cf_CORSAllowedOrigins = [], cf_CORSAllowedMethods = [], cf_CORSAllowedHeaders = [], cf_CORSExposedHeaders = [],
      cf_CORSAllowCredentials = False, cf_CORSMaxAgeSeconds = defaultCORSMaxAge,
      cf_AuthAllowAnonymous = defaultAuthAnon,
      cf_AuthCredentials = [\<lparr>cd_AccessKey = access, cd_SecretKey = secret, cd_Tenant = access\<rparr>]\<rparr>"

lemma FromEnv_defaults:
  assumes "access \<noteq> []"
  shows "FromEnv (only_credentials access secret) = default_config access secret"
  using assms by (simp add: FromEnv_def unset_reads only_credentials_unset only_credentials_read default_config_def)

lemma default_strings:
  "validS3Provider defaultS3Provider" "validAzureAuth defaultAzureAuth" "validGCSAuth defaultGCSAuth" "validSwiftAuth defaultSwiftAuth"
  "\<not> equal_fold (trim_space defaultAzureAuth) ''shared-key''" "\<not> equal_fold (trim_space defaultGCSAuth) ''service-account''"
  "path_Join defaultDataDir ''metadata'' \<noteq> []" "path_Join defaultDataDir ''backend'' \<noteq> []" "path_Join defaultDataDir ''scratch'' \<noteq> []"
  by (simp_all add: validS3Provider_def validAzureAuth_def validGCSAuth_def validSwiftAuth_def trim_space_visible visible_def
      to_lower_def lower_char_def equal_fold_def defaultS3Provider_def defaultAzureAuth_def defaultGCSAuth_def defaultSwiftAuth_def
      path_Join_def path_Clean_def has_prefix_def join_with_def defaultDataDir_def)

lemma default_backend_valid: "ValidateBackend (default_config access secret) = None"
  unfolding ValidateBackend_def backendChecks_def swiftChecks_def
  by (simp add: default_config_def default_strings defaultBackend_def
      defaultS3Timeout_def defaultS3Retries_def defaultAzureTimeout_def defaultAzureRetries_def defaultGCSTimeout_def
      defaultGCSRetries_def defaultSwiftTimeout_def defaultSwiftRetries_def)

lemma default_config_valid:
  assumes "access \<noteq> []" "secret \<noteq> []" "0 \<le> ncpu"
  shows "Validate ncpu (default_config access secret) = None"
  using assms unfolding Validate_def default_backend_valid
  by (simp add: default_config_def default_strings(7-9) defaultListen_def defaultMetadata_def defaultLocalCap_def defaultChunkWorkers_def
    defaultCPUHeadroom_def defaultChunkMin_def defaultChunkAvg_def defaultChunkMax_def defaultChunkEngine_def defaultSmallBypass_def
    defaultPartMax_def defaultStaleTTL_def defaultScratchFree_def defaultCompleteXML_def defaultGCInterval_def defaultGCMinAge_def
    defaultGCBatchSize_def defaultGCRetries_def defaultPGMaxOpen_def defaultPGMaxIdle_def defaultPGLifetime_def
    defaultReadyTimeout_def defaultShutdown_def defaultCORSMaxAge_def)


section \<open>The encryption key\<close>

lemma base64_quads_length: "base64_quads s = Some b \<Longrightarrow> 4 * length b \<le> 3 * length s \<and> 3 * length s \<le> 4 * length b + 8"
  by (induction s arbitrary: b rule: base64_quads.induct) (fastforce split: option.splits if_splits)+

lemma base64_raw_length: "base64_raw_groups s = Some b \<Longrightarrow> 4 * length b \<le> 3 * length s \<and> 3 * length s < 4 * length b + 4"
  by (induction s arbitrary: b rule: base64_raw_groups.induct) (fastforce split: option.splits)+

lemma base64_encode_length: "length (base64_encode d) = 4 * ((length d + 2) div 3)"
proof (induction d rule: base64_encode.induct)
  case (4 a b c bs)
  then show ?case by simp presburger
qed simp_all

lemma base64_alphabet: "length ''ABCDEFGHIJKLMNOPQRSTUVWXYZabcdefghijklmnopqrstuvwxyz0123456789+/'' = 64"
  by simp

lemma base64_digit_visible: "n < 64 \<Longrightarrow> visible (base64_digit n)"
proof -
  have "\<forall>c \<in> set ''ABCDEFGHIJKLMNOPQRSTUVWXYZabcdefghijklmnopqrstuvwxyz0123456789+/''. visible c"
    by (simp add: visible_def)
  moreover assume "n < 64"
  ultimately show ?thesis unfolding base64_digit_def by (metis base64_alphabet nth_mem)
qed

lemma base64_chars: "c \<in> set (base64_encode d) \<Longrightarrow> visible c"
  by (induction d rule: base64_encode.induct) (auto simp: base64_digit_visible byte_parts visible_def [of "CHR ''=''"])

lemma hex_visible: "c \<in> set (hex_encode k) \<Longrightarrow> visible c"
  using hex_encode_lower [of c k] by (auto simp: is_lower_hex_def visible_def)

lemma no_breaks: "\<forall>c \<in> set s. visible c \<Longrightarrow> filter (\<lambda>c. char_code c \<noteq> 10 \<and> char_code c \<noteq> 13) s = s"
  by (rule filter_True) (auto simp: visible_def)

lemma not_key_length:
  assumes "\<forall>c \<in> set s. visible c" "length s \<in> {44, 48, 64}" "x = base64_decode s \<and> length s \<noteq> 44 \<or> x = base64_raw_decode s"
  shows "find (\<lambda>k. length k \<in> {16, 24, 32}) (opt_list x @ ks) = find (\<lambda>k. length k \<in> {16, 24, 32}) ks"
proof (cases x)
  case (Some b)
  have "length b \<notin> {16, 24, 32}"
    using assms(2,3) base64_quads_length [of s b] base64_raw_length [of s b] Some
    by (auto simp: base64_decode_def base64_raw_decode_def no_breaks [OF assms(1)])
  with Some show ?thesis by (simp add: opt_list_def)
qed (simp add: opt_list_def)

text \<open>C13: A key of 32 bytes may be given in hexadecimal or base64 and is decoded from either. The
  documentation promises this for 16 and 24 bytes too, but the text is tried first: hexadecimal of
  16 bytes and base64 of 16 or 24 bytes have themselves 32, 24 and 32 characters, so the characters
  become the key.\<close>

theorem key_encodings:
  assumes "length k \<in> {16, 24, 32}"
  shows "DecodeLocalBlockEncryptionKey (hex_encode k) = Inr (Some (if length k = 16 then to_bytes (hex_encode k) else k))
    \<and> DecodeLocalBlockEncryptionKey (base64_encode k) = Inr (Some (if length k = 32 then k else to_bytes (base64_encode k)))"
proof
  have hex: "\<forall>c \<in> set (hex_encode k). visible c" and b64: "\<forall>c \<in> set (base64_encode k). visible c"
    using hex_visible base64_chars by blast+
  have trim: "trim_space (hex_encode k) = hex_encode k" "trim_space (base64_encode k) = base64_encode k"
    by (rule trim_space_visible [OF hex], rule trim_space_visible [OF b64])
  have ne: "hex_encode k \<noteq> []" "base64_encode k \<noteq> []"
    using assms length_hex_encode [of k] base64_encode_length [of k] by (auto simp del: length_hex_encode)
  have len: "length (to_bytes s) = length s" for s by (simp add: to_bytes_def)
  show "DecodeLocalBlockEncryptionKey (hex_encode k) = Inr (Some (if length k = 16 then to_bytes (hex_encode k) else k))"
  proof (cases "length k = 16")
    case True
    then show ?thesis by (simp add: DecodeLocalBlockEncryptionKey_def trim ne len)
  next
    case False
    with assms have l: "length (hex_encode k) \<in> {44, 48, 64}" "length (hex_encode k) \<notin> {16, 24, 32}" "length (hex_encode k) \<noteq> 44" by auto
    have "find (\<lambda>k. length k \<in> {16, 24, 32}) ([to_bytes (hex_encode k)] @ opt_list (base64_decode (hex_encode k))
        @ opt_list (base64_raw_decode (hex_encode k)) @ opt_list (hex_decode (hex_encode k))) = Some k"
      using l(2) assms by (subst append_Cons, subst find.simps, subst if_not_P)
        (simp_all only: len append_Nil not_key_length [OF hex l(1)] l(3) simp_thms hex_decode_encode, simp_all add: opt_list_def)
    with False show ?thesis by (simp only: DecodeLocalBlockEncryptionKey_def trim Let_def ne if_False option.case)
  qed
  show "DecodeLocalBlockEncryptionKey (base64_encode k) = Inr (Some (if length k = 32 then k else to_bytes (base64_encode k)))"
  proof (cases "length k = 32")
    case False
    with assms have "length (base64_encode k) \<in> {24, 32}" by (auto simp: base64_encode_length)
    with False show ?thesis by (auto simp: DecodeLocalBlockEncryptionKey_def trim ne len)
  next
    case True
    then have "length (base64_encode k) = 44" by (simp add: base64_encode_length)
    with True show ?thesis by (simp add: DecodeLocalBlockEncryptionKey_def trim ne len opt_list_def)
  qed
qed

theorem key_encodings_witness:
  "DecodeLocalBlockEncryptionKey (hex_encode (replicate 24 7)) = Inr (Some (replicate 24 7))
   \<and> DecodeLocalBlockEncryptionKey (base64_encode (replicate 32 7)) = Inr (Some (replicate 32 7))
   \<and> DecodeLocalBlockEncryptionKey (hex_encode (replicate 16 7)) = Inr (Some (to_bytes (hex_encode (replicate 16 7))))"
  using key_encodings [of "replicate 24 7"] key_encodings [of "replicate 32 7"] key_encodings [of "replicate 16 7"] by simp

end
