(* ===== verification/Spec2Isabelle.thy ===== *)
theory Spec2Isabelle
  imports Prelude GoLib Metadata MemoryStore Chunker Shards Backend Limits Ops ObjectService Sweeper
    Multipart MultipartProps HttpLib GoTime S3Auth SharedStore ApiCore ApiHandlers ApiProps ApiObjects ApiMultipart
    DeltaClient DeltaProps DeltaSign DeltaServe
    GoStamp GoJson SqlTables SqliteStore PostgresStore SqlProps SqliteProps SqliteClaims
    Config ConfigProps
begin

text \<open>
  ChunkGate is a deduplicating S3 proxy in Go: uploads are cut into content-defined chunks, each
  chunk is stored once per tenant under its SHA-256, and an object is a manifest that lists its
  chunks. This development models the program's core as HOL functions and step relations, one
  theory per package, and proves what makes each part correct.

  The parts and how they interact (paths under src/internal):

    \<^item> \<open>chunker\<close> cuts a byte stream (theory \<open>Chunker\<close>); \<open>object/service.go\<close> (\<open>ObjectService\<close>)
      feeds each chunk to a block store and records the manifest in a metadata store.
    \<^item> \<open>backend\<close> keeps block files (\<open>Backend\<close>: the file store, its encryption as a parameter, and
      the retry loop of the remote stores).
    \<^item> \<open>metadata\<close> keeps manifests, reference counts and multipart sessions (\<open>Metadata\<close>: the records
      and the \<open>Store\<close> interface; \<open>MemoryStore\<close>: the in-memory store; \<open>Shards\<close>: tenant file names;
      \<open>SqlTables\<close>: the tables and statements of the SQL stores; \<open>SqliteStore\<close>: one SQLite file per
      tenant, its handles and migrations; \<open>PostgresStore\<close>: one database for all tenants).
    \<^item> \<open>multipart/manager.go\<close> (\<open>Multipart\<close>, its lemmas in \<open>MultipartProps\<close>) spools the parts of an
      upload to scratch files, reserves space for them and mirrors its sessions in the metadata store.
    \<^item> \<open>gc/sweeper.go\<close> (\<open>Sweeper\<close>) deletes the blocks the metadata store reports as unreferenced.
    \<^item> \<open>limits\<close> (\<open>Limits\<close>) bounds disk reservations and CPU work; \<open>ops\<close> (\<open>Ops\<close>) drains and counts.
    \<^item> \<open>config/config.go\<close> (\<open>Config\<close>, its lemmas in \<open>ConfigProps\<close>) reads the environment variables and checks them.
    \<^item> \<open>s3auth/sigv4.go\<close> (\<open>S3Auth\<close>) verifies request signatures.
    \<^item> \<open>api\<close> (\<open>ApiCore\<close>: documents, responses, parameters, ranges, validation, addressing, CORS,
      authentication; \<open>ApiHandlers\<close>: the server's state, every handler and the router) is the HTTP
      front: \<open>ServeHTTP\<close> maps a request and the state to a response and the next state.
    \<^item> \<open>deltaclient/client.go\<close> (\<open>DeltaClient\<close>) is the client of the companion routes: it fetches a
      manifest, asks for the chunks its cache lacks and puts the object together.

  Conventions. \<open>Prelude\<close> holds the environment a call runs in (\<open>env\<close>): it answers every question
  the code asks outside, at the place where it asks it (a path of calls and loop rounds, \<open>call e i\<close>
  being the environment of the i-th call): is the context cancelled, does this library call fail,
  what time is it, which random identifier, which order a map is visited in. A property that
  quantifies over \<open>env\<close> covers every failure pattern; \<open>quiet e\<close> says that nothing fails. \<open>Prelude\<close>
  also has 64-bit arithmetic as \<open>int\<close> with the wrap-around written out, Go maps as association lists
  in iteration order, errors as a datatype with results \<open>error + 'a\<close>, and the locale
  \<open>transition_system\<close> for step relations. \<open>GoLib\<close> and \<open>HttpLib\<close> model what the source uses of the Go
  standard library (strings, UTF-8, readers; headers, URLs, query strings, base64); \<open>GoTime\<close> has dates
  in UTC from Unix time with their formatting and parsing, each inverse to the other; \<open>GoStamp\<close> and
  \<open>GoJson\<close> the texts of the SQL columns (RFC 3339 times, JSON maps of strings), which are read back. Letter case is
  mapped in the ASCII range. Code behind a mutex is one step; code that races is a step relation
  (\<open>Limits\<close>, \<open>Ops\<close>); an HTTP request runs alone from its first to its last step. Times are Unix
  nanoseconds, the zero time 0.

  Interfaces. \<open>object_store\<close> and \<open>session_store\<close> (\<open>Metadata\<close>, \<open>MemoryStore\<close>, \<open>MultipartProps\<close>) state what
  the object service and the multipart manager rely on in a metadata store, \<open>shared_store\<close>
  (\<open>SharedStore\<close>) that the two halves do not disturb each other; all are interpreted on the in-memory
  store. \<open>block_store\<close> and \<open>live_block_store\<close> (\<open>Backend\<close>) state what the object service and the
  sweeper rely on in a block store and are interpreted on the file store. \<open>object_service\<close>,
  \<open>block_gc\<close>, \<open>multipart_manager\<close> and \<open>shared_manager\<close> prove the clients' lemmas once over them and
  are interpreted on these stores.

  What the lemmas show, theory by theory:

    \<^item> \<open>Chunker\<close>: chunks reassemble to the input, sizes are bounded, the cuts depend on the bytes
      only and resynchronise; \<open>New\<close> repairs every configuration.
    \<^item> \<open>MemoryStore\<close>: reference counts equal the references from committed objects in every
      reachable state; what the collector is offered is garbage; commit, read and delete agree.
    \<^item> \<open>SqlProps\<close>: attaching, detaching, retiring and committing keep the reference counts of the SQL
      tables exact and change the served objects as the operation says.
    \<^item> \<open>SqliteProps\<close>, \<open>SqliteClaims\<close>: every reachable shard is exact whatever fails, the store refines a map
      of objects per tenant, objects and headers are read back, only garbage is listed (text times
      agree with times to the second), interrupted migrations are completed.
    \<^item> \<open>ConfigProps\<close>: what a validated configuration guarantees to the components built from it; which
      forms of an encryption key are decoded.
    \<^item> \<open>Backend\<close>: paths stay below the root, a put is atomic whatever fails, reads return what was
      put, deletes are exact, retries are bounded.
    \<^item> \<open>ObjectService\<close>: a put that succeeds is served back, one that fails changes no object, every
      committed object stays readable, ranges are slices, selected chunks are verified.
    \<^item> \<open>Sweeper\<close>: a sweep keeps every object readable, and an undisturbed one removes all old garbage.
    \<^item> \<open>Limits\<close>, \<open>Ops\<close>: reservation counters are exact and semaphores bounded in every interleaving;
      draining is complete when \<open>Wait\<close> returns nil.
    \<^item> \<open>MultipartProps\<close>: reservations are exactly what the sessions hold, a stored part is what is
      read, a restart loses nothing; two interleaved parts can leak a reservation.
    \<^item> \<open>S3Auth\<close>: an identity is only given for a valid signature, which binds every signed part.
    \<^item> \<open>ApiProps\<close>: a request changes its own tenant only and nothing when it is not authenticated or
      safe; the list of a completion is accepted exactly when it should be; ranges are parsed exactly.
    \<^item> \<open>ApiObjects\<close>: a PUT answered with 200 is served back by GET, and ranges to the byte;
      \<open>ApiMultipart\<close>: a completed multipart upload is the concatenation of its parts.
    \<^item> \<open>DeltaProps\<close>: a download is all or nothing, and every piece of it is verified;
      \<open>DeltaSign\<close>: what the client signs is what the server's \<open>Verify\<close> accepts, dates included;
      \<open>DeltaServe\<close>: a download over \<open>ServeHTTP\<close> writes the stored object.

  Bounds and fuel. Loops over lists are structural. \<open>nextPowerOfTwo\<close> is a \<open>partial_function\<close>
  (it does not return above \<open>2^62\<close>, which is proved). The sweep's batch loop runs on fuel; the
  termination property shows how much is enough.

  Parameters. Code that is not in the repository is an argument: SHA-256, MD5, HMAC, AES-GCM, the
  FastCDC library, the XML and JSON decoders, the grammar of absolute URLs (\<open>url_host\<close>), how the PostgreSQL
  driver rounds a time. Statements are functions on the tables with the constraints of the schema, of
  which a failed one changes nothing. Documents
  that are encoded are kept as values; the pages of the profiler are one opaque text; \<open>%.9f\<close> is
  written out for durations.

  Not modelled: the remote block stores (S3, Azure, GCS, Swift);
  these are listed with their reasons in the manifest.
\<close>

end
